(* ===== verification/Prelude.thy ===== *)
theory Prelude
  imports Main "HOL-Library.Word"
begin

text \<open>
  Shared vocabulary of the development: the names of the machine types the sources use, C
  characters and string literals, bit flags, and the generic lemmas on lists, words and
  options that the component theories rely on.  A C \<^verbatim>\<open>char\<close> is an Isabelle
  \<^typ>\<open>char\<close> (eight bits); \<open>cval\<close> is its value as an \<^verbatim>\<open>unsigned char\<close>.
\<close>

unbundle bit_operations_syntax

named_theorems flag_simps \<open>bit tests on flag words\<close>

section \<open>Machine types\<close>

type_synonym u8 = "8 word"
type_synonym u16 = "16 word"
type_synonym u32 = "32 word"
type_synonym u64 = "64 word"
type_synonym bytes = "char list"

abbreviation ULLONG_MAX :: u64 where
  "ULLONG_MAX \<equiv> - 1"

section \<open>C characters and string literals\<close>

abbreviation NUL :: char where "NUL \<equiv> CHR 0x00"
abbreviation HT :: char where "HT \<equiv> CHR 0x09"
abbreviation LF :: char where "LF \<equiv> CHR 0x0A"
abbreviation FF :: char where "FF \<equiv> CHR 0x0C"
abbreviation CR :: char where "CR \<equiv> CHR 0x0D"
abbreviation SP :: char where "SP \<equiv> CHR '' ''"

definition cval :: "char \<Rightarrow> nat" where
  "cval c = of_char c"

lemma cval_bound [simp]: "cval c < 256"
  unfolding cval_def by (rule nat_of_char_less_256)

text \<open>Element \<open>i\<close> of a string literal, the terminating NUL included.\<close>

definition cchar :: "string \<Rightarrow> nat \<Rightarrow> char" where
  "cchar s i = (if i < length s then s ! i else NUL)"

section \<open>Bit flags\<close>

definition has_flag :: "'a::len word \<Rightarrow> 'a word \<Rightarrow> bool" where
  "has_flag w f \<longleftrightarrow> w AND f \<noteq> 0"

lemma has_flag_zero [simp, flag_simps]: "\<not> has_flag 0 f"
  by (simp add: has_flag_def)

lemma has_flag_or [simp, flag_simps]: "has_flag (w OR g) f \<longleftrightarrow> has_flag w f \<or> has_flag g f"
  by (auto simp: has_flag_def bit_eq_iff bit_and_iff bit_or_iff)

section \<open>Lists\<close>

text \<open>The bytes of \<open>data\<close> from offset \<open>off\<close>, \<open>len\<close> of them.\<close>

definition slice_of :: "nat \<Rightarrow> nat \<Rightarrow> 'a list \<Rightarrow> 'a list" where
  "slice_of off len xs = take len (drop off xs)"

lemma length_slice_of [simp]: "off + len \<le> length xs \<Longrightarrow> length (slice_of off len xs) = len"
  by (simp add: slice_of_def)

lemma nth_slice_of: "i < len \<Longrightarrow> off + len \<le> length xs \<Longrightarrow> slice_of off len xs ! i = xs ! (off + i)"
  by (simp add: slice_of_def)

lemma slice_of_Suc:
  assumes "off + len < length xs"
  shows "slice_of off (Suc len) xs = slice_of off len xs @ [xs ! (off + len)]"
  using assms by (simp add: slice_of_def take_Suc_conv_app_nth)

section \<open>Words\<close>

lemma unat_inc_less:
  fixes w :: "'a::len word"
  assumes "unat w + 1 < 2 ^ LENGTH('a)"
  shows "unat (w + 1) = unat w + 1"
  using assms by (simp add: unat_word_ariths)

lemma unat_of_nat_le: "unat (of_nat n :: 'a::len word) \<le> n"
  by (simp add: unat_of_nat)

lemma unat_inc_le: "unat ((w::'a::len word) + 1) \<le> unat w + 1"
  by (metis mod_less_eq_dividend unat_1 unat_word_ariths(1))

text \<open>Appending a digit to a number that is small enough does not wrap around.\<close>

lemma unat_append_digit:
  fixes n b :: "'a::len word"
  assumes "unat n * unat b + d < 2 ^ LENGTH('a)"
  shows "unat (n * b + of_nat d) = unat n * unat b + d"
proof -
  have "n * b + of_nat d = of_nat (unat n * unat b + d)" by simp
  then show ?thesis using assms by (simp only: unat_of_nat) simp
qed

end
