(* ===== verification/HttpParserTypes.thy ===== *)
theory HttpParserTypes
  imports Prelude
begin

text \<open>
  Data of the byte-level HTTP parser (\<^verbatim>\<open>sylar/http/http-parser/http_parser.h\<close> and the first
  part of \<^verbatim>\<open>http_parser.c\<close>): the enumerations, the character tables and character classes, the
  \<^verbatim>\<open>struct http_parser\<close> with its bit-field widths, and the predicates that look at it.  The library
  is built in its default configuration, \<^verbatim>\<open>HTTP_PARSER_STRICT = 1\<close>.  Bit-fields that hold an
  enumeration are given the enumeration's type; bit-fields that are counted or tested bitwise keep
  their width.
\<close>

section \<open>Enumerations\<close>

datatype (plugins only: code size) http_errno =
  HPE_OK | HPE_CB_message_begin | HPE_CB_url
  | HPE_CB_header_field | HPE_CB_header_value | HPE_CB_headers_complete
  | HPE_CB_body | HPE_CB_message_complete | HPE_CB_status
  | HPE_CB_chunk_header | HPE_CB_chunk_complete | HPE_INVALID_EOF_STATE
  | HPE_HEADER_OVERFLOW | HPE_CLOSED_CONNECTION | HPE_INVALID_VERSION
  | HPE_INVALID_STATUS | HPE_INVALID_METHOD | HPE_INVALID_URL
  | HPE_INVALID_HOST | HPE_INVALID_PORT | HPE_INVALID_PATH
  | HPE_INVALID_QUERY_STRING | HPE_INVALID_FRAGMENT | HPE_LF_EXPECTED
  | HPE_INVALID_HEADER_TOKEN | HPE_INVALID_CONTENT_LENGTH | HPE_UNEXPECTED_CONTENT_LENGTH
  | HPE_INVALID_CHUNK_SIZE | HPE_INVALID_CONSTANT | HPE_INVALID_INTERNAL_STATE
  | HPE_STRICT | HPE_PAUSED | HPE_UNKNOWN
  | HPE_INVALID_TRANSFER_ENCODING

datatype http_parser_type = HTTP_REQUEST | HTTP_RESPONSE | HTTP_BOTH

datatype (plugins only: code size) http_method =
  HTTP_DELETE | HTTP_GET | HTTP_HEAD | HTTP_POST | HTTP_PUT
  | HTTP_CONNECT | HTTP_OPTIONS | HTTP_TRACE | HTTP_COPY | HTTP_LOCK
  | HTTP_MKCOL | HTTP_MOVE | HTTP_PROPFIND | HTTP_PROPPATCH | HTTP_SEARCH
  | HTTP_UNLOCK | HTTP_BIND | HTTP_REBIND | HTTP_UNBIND | HTTP_ACL
  | HTTP_REPORT | HTTP_MKACTIVITY | HTTP_CHECKOUT | HTTP_MERGE | HTTP_MSEARCH
  | HTTP_NOTIFY | HTTP_SUBSCRIBE | HTTP_UNSUBSCRIBE | HTTP_PATCH | HTTP_PURGE
  | HTTP_MKCALENDAR | HTTP_LINK | HTTP_UNLINK | HTTP_SOURCE

datatype (plugins only: code size) state =
  s_dead | s_start_req_or_res | s_res_or_resp_H | s_start_res
  | s_res_H | s_res_HT | s_res_HTT | s_res_HTTP
  | s_res_http_major | s_res_http_dot | s_res_http_minor | s_res_http_end
  | s_res_first_status_code | s_res_status_code | s_res_status_start | s_res_status
  | s_res_line_almost_done | s_start_req | s_req_method | s_req_spaces_before_url
  | s_req_schema | s_req_schema_slash | s_req_schema_slash_slash | s_req_server_start
  | s_req_server | s_req_server_with_at | s_req_path | s_req_query_string_start
  | s_req_query_string | s_req_fragment_start | s_req_fragment | s_req_http_start
  | s_req_http_H | s_req_http_HT | s_req_http_HTT | s_req_http_HTTP
  | s_req_http_I | s_req_http_IC | s_req_http_major | s_req_http_dot
  | s_req_http_minor | s_req_http_end | s_req_line_almost_done | s_header_field_start
  | s_header_field | s_header_value_discard_ws | s_header_value_discard_ws_almost_done | s_header_value_discard_lws
  | s_header_value_start | s_header_value | s_header_value_lws | s_header_almost_done
  | s_chunk_size_start | s_chunk_size | s_chunk_parameters | s_chunk_size_almost_done
  | s_headers_almost_done | s_headers_done | s_chunk_data | s_chunk_data_almost_done
  | s_chunk_data_done | s_body_identity | s_body_identity_eof | s_message_done

datatype (plugins only: code size) header_states =
  h_general | h_C | h_CO
  | h_CON | h_matching_connection | h_matching_proxy_connection
  | h_matching_content_length | h_matching_transfer_encoding | h_matching_upgrade
  | h_connection | h_content_length | h_content_length_num
  | h_content_length_ws | h_transfer_encoding | h_upgrade
  | h_matching_transfer_encoding_token_start | h_matching_transfer_encoding_chunked | h_matching_transfer_encoding_token
  | h_matching_connection_token_start | h_matching_connection_keep_alive | h_matching_connection_close
  | h_matching_connection_upgrade | h_matching_connection_token | h_transfer_encoding_chunked
  | h_connection_keep_alive | h_connection_close | h_connection_upgrade

datatype (plugins only: code size) http_host_state =
  s_http_host_dead | s_http_userinfo_start | s_http_userinfo
  | s_http_host_start | s_http_host_v6_start | s_http_host
  | s_http_host_v6 | s_http_host_v6_end | s_http_host_v6_zone_start
  | s_http_host_v6_zone | s_http_host_port_start | s_http_host_port

text \<open>The numeric values behind \<^verbatim>\<open>enum state\<close>, which \<^verbatim>\<open>PARSING_HEADER\<close> compares.\<close>

fun state_num :: "state \<Rightarrow> nat" where
  "state_num s_dead = 1"
| "state_num s_start_req_or_res = 2"
| "state_num s_res_or_resp_H = 3"
| "state_num s_start_res = 4"
| "state_num s_res_H = 5"
| "state_num s_res_HT = 6"
| "state_num s_res_HTT = 7"
| "state_num s_res_HTTP = 8"
| "state_num s_res_http_major = 9"
| "state_num s_res_http_dot = 10"
| "state_num s_res_http_minor = 11"
| "state_num s_res_http_end = 12"
| "state_num s_res_first_status_code = 13"
| "state_num s_res_status_code = 14"
| "state_num s_res_status_start = 15"
| "state_num s_res_status = 16"
| "state_num s_res_line_almost_done = 17"
| "state_num s_start_req = 18"
| "state_num s_req_method = 19"
| "state_num s_req_spaces_before_url = 20"
| "state_num s_req_schema = 21"
| "state_num s_req_schema_slash = 22"
| "state_num s_req_schema_slash_slash = 23"
| "state_num s_req_server_start = 24"
| "state_num s_req_server = 25"
| "state_num s_req_server_with_at = 26"
| "state_num s_req_path = 27"
| "state_num s_req_query_string_start = 28"
| "state_num s_req_query_string = 29"
| "state_num s_req_fragment_start = 30"
| "state_num s_req_fragment = 31"
| "state_num s_req_http_start = 32"
| "state_num s_req_http_H = 33"
| "state_num s_req_http_HT = 34"
| "state_num s_req_http_HTT = 35"
| "state_num s_req_http_HTTP = 36"
| "state_num s_req_http_I = 37"
| "state_num s_req_http_IC = 38"
| "state_num s_req_http_major = 39"
| "state_num s_req_http_dot = 40"
| "state_num s_req_http_minor = 41"
| "state_num s_req_http_end = 42"
| "state_num s_req_line_almost_done = 43"
| "state_num s_header_field_start = 44"
| "state_num s_header_field = 45"
| "state_num s_header_value_discard_ws = 46"
| "state_num s_header_value_discard_ws_almost_done = 47"
| "state_num s_header_value_discard_lws = 48"
| "state_num s_header_value_start = 49"
| "state_num s_header_value = 50"
| "state_num s_header_value_lws = 51"
| "state_num s_header_almost_done = 52"
| "state_num s_chunk_size_start = 53"
| "state_num s_chunk_size = 54"
| "state_num s_chunk_parameters = 55"
| "state_num s_chunk_size_almost_done = 56"
| "state_num s_headers_almost_done = 57"
| "state_num s_headers_done = 58"
| "state_num s_chunk_data = 59"
| "state_num s_chunk_data_almost_done = 60"
| "state_num s_chunk_data_done = 61"
| "state_num s_body_identity = 62"
| "state_num s_body_identity_eof = 63"
| "state_num s_message_done = 64"

definition PARSING_HEADER :: "state \<Rightarrow> bool" where
  "PARSING_HEADER s \<longleftrightarrow> state_num s \<le> state_num s_headers_done"

lemma PARSING_HEADER_iff:
  "PARSING_HEADER s \<longleftrightarrow> s \<notin> {s_chunk_data, s_chunk_data_almost_done, s_chunk_data_done,
     s_body_identity, s_body_identity_eof, s_message_done}"
  by (cases s) (simp_all add: PARSING_HEADER_def)

section \<open>Flags\<close>

definition F_CHUNKED :: u8 where "F_CHUNKED = 1"
definition F_CONNECTION_KEEP_ALIVE :: u8 where "F_CONNECTION_KEEP_ALIVE = 2"
definition F_CONNECTION_CLOSE :: u8 where "F_CONNECTION_CLOSE = 4"
definition F_CONNECTION_UPGRADE :: u8 where "F_CONNECTION_UPGRADE = 8"
definition F_TRAILING :: u8 where "F_TRAILING = 16"
definition F_UPGRADE :: u8 where "F_UPGRADE = 32"
definition F_SKIPBODY :: u8 where "F_SKIPBODY = 64"
definition F_CONTENTLENGTH :: u8 where "F_CONTENTLENGTH = 128"

lemmas F_defs = F_CHUNKED_def F_CONNECTION_KEEP_ALIVE_def F_CONNECTION_CLOSE_def
  F_CONNECTION_UPGRADE_def F_TRAILING_def F_UPGRADE_def F_SKIPBODY_def F_CONTENTLENGTH_def

text \<open>Every flag is its own bit: the tests the parser makes on \<^verbatim>\<open>F_CHUNKED\<close> see only that flag.\<close>

lemma F_CHUNKED_distinct [simp, flag_simps]:
  "has_flag F_CHUNKED F_CHUNKED"
  "\<not> has_flag F_CONNECTION_KEEP_ALIVE F_CHUNKED"
  "\<not> has_flag F_CONNECTION_CLOSE F_CHUNKED"
  "\<not> has_flag F_CONNECTION_UPGRADE F_CHUNKED"
  "\<not> has_flag F_TRAILING F_CHUNKED"
  "\<not> has_flag F_UPGRADE F_CHUNKED"
  "\<not> has_flag F_SKIPBODY F_CHUNKED"
  "\<not> has_flag F_CONTENTLENGTH F_CHUNKED"
  by (simp_all add: has_flag_def F_defs)

section \<open>Method, status and error names\<close>

fun method_strings :: "http_method \<Rightarrow> string" where
  "method_strings HTTP_DELETE = ''DELETE''"
| "method_strings HTTP_GET = ''GET''"
| "method_strings HTTP_HEAD = ''HEAD''"
| "method_strings HTTP_POST = ''POST''"
| "method_strings HTTP_PUT = ''PUT''"
| "method_strings HTTP_CONNECT = ''CONNECT''"
| "method_strings HTTP_OPTIONS = ''OPTIONS''"
| "method_strings HTTP_TRACE = ''TRACE''"
| "method_strings HTTP_COPY = ''COPY''"
| "method_strings HTTP_LOCK = ''LOCK''"
| "method_strings HTTP_MKCOL = ''MKCOL''"
| "method_strings HTTP_MOVE = ''MOVE''"
| "method_strings HTTP_PROPFIND = ''PROPFIND''"
| "method_strings HTTP_PROPPATCH = ''PROPPATCH''"
| "method_strings HTTP_SEARCH = ''SEARCH''"
| "method_strings HTTP_UNLOCK = ''UNLOCK''"
| "method_strings HTTP_BIND = ''BIND''"
| "method_strings HTTP_REBIND = ''REBIND''"
| "method_strings HTTP_UNBIND = ''UNBIND''"
| "method_strings HTTP_ACL = ''ACL''"
| "method_strings HTTP_REPORT = ''REPORT''"
| "method_strings HTTP_MKACTIVITY = ''MKACTIVITY''"
| "method_strings HTTP_CHECKOUT = ''CHECKOUT''"
| "method_strings HTTP_MERGE = ''MERGE''"
| "method_strings HTTP_MSEARCH = ''M-SEARCH''"
| "method_strings HTTP_NOTIFY = ''NOTIFY''"
| "method_strings HTTP_SUBSCRIBE = ''SUBSCRIBE''"
| "method_strings HTTP_UNSUBSCRIBE = ''UNSUBSCRIBE''"
| "method_strings HTTP_PATCH = ''PATCH''"
| "method_strings HTTP_PURGE = ''PURGE''"
| "method_strings HTTP_MKCALENDAR = ''MKCALENDAR''"
| "method_strings HTTP_LINK = ''LINK''"
| "method_strings HTTP_UNLINK = ''UNLINK''"
| "method_strings HTTP_SOURCE = ''SOURCE''"

fun http_method_num :: "http_method \<Rightarrow> nat" where
  "http_method_num HTTP_DELETE = 0"
| "http_method_num HTTP_GET = 1"
| "http_method_num HTTP_HEAD = 2"
| "http_method_num HTTP_POST = 3"
| "http_method_num HTTP_PUT = 4"
| "http_method_num HTTP_CONNECT = 5"
| "http_method_num HTTP_OPTIONS = 6"
| "http_method_num HTTP_TRACE = 7"
| "http_method_num HTTP_COPY = 8"
| "http_method_num HTTP_LOCK = 9"
| "http_method_num HTTP_MKCOL = 10"
| "http_method_num HTTP_MOVE = 11"
| "http_method_num HTTP_PROPFIND = 12"
| "http_method_num HTTP_PROPPATCH = 13"
| "http_method_num HTTP_SEARCH = 14"
| "http_method_num HTTP_UNLOCK = 15"
| "http_method_num HTTP_BIND = 16"
| "http_method_num HTTP_REBIND = 17"
| "http_method_num HTTP_UNBIND = 18"
| "http_method_num HTTP_ACL = 19"
| "http_method_num HTTP_REPORT = 20"
| "http_method_num HTTP_MKACTIVITY = 21"
| "http_method_num HTTP_CHECKOUT = 22"
| "http_method_num HTTP_MERGE = 23"
| "http_method_num HTTP_MSEARCH = 24"
| "http_method_num HTTP_NOTIFY = 25"
| "http_method_num HTTP_SUBSCRIBE = 26"
| "http_method_num HTTP_UNSUBSCRIBE = 27"
| "http_method_num HTTP_PATCH = 28"
| "http_method_num HTTP_PURGE = 29"
| "http_method_num HTTP_MKCALENDAR = 30"
| "http_method_num HTTP_LINK = 31"
| "http_method_num HTTP_UNLINK = 32"
| "http_method_num HTTP_SOURCE = 33"

fun http_errno_name :: "http_errno \<Rightarrow> string" where
  "http_errno_name HPE_OK = ''HPE_OK''"
| "http_errno_name HPE_CB_message_begin = ''HPE_CB_message_begin''"
| "http_errno_name HPE_CB_url = ''HPE_CB_url''"
| "http_errno_name HPE_CB_header_field = ''HPE_CB_header_field''"
| "http_errno_name HPE_CB_header_value = ''HPE_CB_header_value''"
| "http_errno_name HPE_CB_headers_complete = ''HPE_CB_headers_complete''"
| "http_errno_name HPE_CB_body = ''HPE_CB_body''"
| "http_errno_name HPE_CB_message_complete = ''HPE_CB_message_complete''"
| "http_errno_name HPE_CB_status = ''HPE_CB_status''"
| "http_errno_name HPE_CB_chunk_header = ''HPE_CB_chunk_header''"
| "http_errno_name HPE_CB_chunk_complete = ''HPE_CB_chunk_complete''"
| "http_errno_name HPE_INVALID_EOF_STATE = ''HPE_INVALID_EOF_STATE''"
| "http_errno_name HPE_HEADER_OVERFLOW = ''HPE_HEADER_OVERFLOW''"
| "http_errno_name HPE_CLOSED_CONNECTION = ''HPE_CLOSED_CONNECTION''"
| "http_errno_name HPE_INVALID_VERSION = ''HPE_INVALID_VERSION''"
| "http_errno_name HPE_INVALID_STATUS = ''HPE_INVALID_STATUS''"
| "http_errno_name HPE_INVALID_METHOD = ''HPE_INVALID_METHOD''"
| "http_errno_name HPE_INVALID_URL = ''HPE_INVALID_URL''"
| "http_errno_name HPE_INVALID_HOST = ''HPE_INVALID_HOST''"
| "http_errno_name HPE_INVALID_PORT = ''HPE_INVALID_PORT''"
| "http_errno_name HPE_INVALID_PATH = ''HPE_INVALID_PATH''"
| "http_errno_name HPE_INVALID_QUERY_STRING = ''HPE_INVALID_QUERY_STRING''"
| "http_errno_name HPE_INVALID_FRAGMENT = ''HPE_INVALID_FRAGMENT''"
| "http_errno_name HPE_LF_EXPECTED = ''HPE_LF_EXPECTED''"
| "http_errno_name HPE_INVALID_HEADER_TOKEN = ''HPE_INVALID_HEADER_TOKEN''"
| "http_errno_name HPE_INVALID_CONTENT_LENGTH = ''HPE_INVALID_CONTENT_LENGTH''"
| "http_errno_name HPE_UNEXPECTED_CONTENT_LENGTH = ''HPE_UNEXPECTED_CONTENT_LENGTH''"
| "http_errno_name HPE_INVALID_CHUNK_SIZE = ''HPE_INVALID_CHUNK_SIZE''"
| "http_errno_name HPE_INVALID_CONSTANT = ''HPE_INVALID_CONSTANT''"
| "http_errno_name HPE_INVALID_INTERNAL_STATE = ''HPE_INVALID_INTERNAL_STATE''"
| "http_errno_name HPE_STRICT = ''HPE_STRICT''"
| "http_errno_name HPE_PAUSED = ''HPE_PAUSED''"
| "http_errno_name HPE_UNKNOWN = ''HPE_UNKNOWN''"
| "http_errno_name HPE_INVALID_TRANSFER_ENCODING = ''HPE_INVALID_TRANSFER_ENCODING''"

fun http_errno_description :: "http_errno \<Rightarrow> string" where
  "http_errno_description HPE_OK = ''success''"
| "http_errno_description HPE_CB_message_begin = ''the on_message_begin callback failed''"
| "http_errno_description HPE_CB_url = ''the on_url callback failed''"
| "http_errno_description HPE_CB_header_field = ''the on_header_field callback failed''"
| "http_errno_description HPE_CB_header_value = ''the on_header_value callback failed''"
| "http_errno_description HPE_CB_headers_complete = ''the on_headers_complete callback failed''"
| "http_errno_description HPE_CB_body = ''the on_body callback failed''"
| "http_errno_description HPE_CB_message_complete = ''the on_message_complete callback failed''"
| "http_errno_description HPE_CB_status = ''the on_status callback failed''"
| "http_errno_description HPE_CB_chunk_header = ''the on_chunk_header callback failed''"
| "http_errno_description HPE_CB_chunk_complete = ''the on_chunk_complete callback failed''"
| "http_errno_description HPE_INVALID_EOF_STATE = ''stream ended at an unexpected time''"
| "http_errno_description HPE_HEADER_OVERFLOW = ''too many header bytes seen; overflow detected''"
| "http_errno_description HPE_CLOSED_CONNECTION = ''data received after completed connection: close message''"
| "http_errno_description HPE_INVALID_VERSION = ''invalid HTTP version''"
| "http_errno_description HPE_INVALID_STATUS = ''invalid HTTP status code''"
| "http_errno_description HPE_INVALID_METHOD = ''invalid HTTP method''"
| "http_errno_description HPE_INVALID_URL = ''invalid URL''"
| "http_errno_description HPE_INVALID_HOST = ''invalid host''"
| "http_errno_description HPE_INVALID_PORT = ''invalid port''"
| "http_errno_description HPE_INVALID_PATH = ''invalid path''"
| "http_errno_description HPE_INVALID_QUERY_STRING = ''invalid query string''"
| "http_errno_description HPE_INVALID_FRAGMENT = ''invalid fragment''"
| "http_errno_description HPE_LF_EXPECTED = ''LF character expected''"
| "http_errno_description HPE_INVALID_HEADER_TOKEN = ''invalid character in header''"
| "http_errno_description HPE_INVALID_CONTENT_LENGTH = ''invalid character in content-length header''"
| "http_errno_description HPE_UNEXPECTED_CONTENT_LENGTH = ''unexpected content-length header''"
| "http_errno_description HPE_INVALID_CHUNK_SIZE = ''invalid character in chunk size header''"
| "http_errno_description HPE_INVALID_CONSTANT = ''invalid constant string''"
| "http_errno_description HPE_INVALID_INTERNAL_STATE = ''encountered unexpected internal state''"
| "http_errno_description HPE_STRICT = ''strict mode assertion failed''"
| "http_errno_description HPE_PAUSED = ''parser is paused''"
| "http_errno_description HPE_UNKNOWN = ''an unknown error occurred''"
| "http_errno_description HPE_INVALID_TRANSFER_ENCODING = ''request has invalid transfer-encoding''"

definition http_status_map :: "(nat \<times> string) list" where
  "http_status_map =
   [(100, ''Continue''),
    (101, ''Switching Protocols''),
    (102, ''Processing''),
    (200, ''OK''),
    (201, ''Created''),
    (202, ''Accepted''),
    (203, ''Non-Authoritative Information''),
    (204, ''No Content''),
    (205, ''Reset Content''),
    (206, ''Partial Content''),
    (207, ''Multi-Status''),
    (208, ''Already Reported''),
    (226, ''IM Used''),
    (300, ''Multiple Choices''),
    (301, ''Moved Permanently''),
    (302, ''Found''),
    (303, ''See Other''),
    (304, ''Not Modified''),
    (305, ''Use Proxy''),
    (307, ''Temporary Redirect''),
    (308, ''Permanent Redirect''),
    (400, ''Bad Request''),
    (401, ''Unauthorized''),
    (402, ''Payment Required''),
    (403, ''Forbidden''),
    (404, ''Not Found''),
    (405, ''Method Not Allowed''),
    (406, ''Not Acceptable''),
    (407, ''Proxy Authentication Required''),
    (408, ''Request Timeout''),
    (409, ''Conflict''),
    (410, ''Gone''),
    (411, ''Length Required''),
    (412, ''Precondition Failed''),
    (413, ''Payload Too Large''),
    (414, ''URI Too Long''),
    (415, ''Unsupported Media Type''),
    (416, ''Range Not Satisfiable''),
    (417, ''Expectation Failed''),
    (421, ''Misdirected Request''),
    (422, ''Unprocessable Entity''),
    (423, ''Locked''),
    (424, ''Failed Dependency''),
    (426, ''Upgrade Required''),
    (428, ''Precondition Required''),
    (429, ''Too Many Requests''),
    (431, ''Request Header Fields Too Large''),
    (451, ''Unavailable For Legal Reasons''),
    (500, ''Internal Server Error''),
    (501, ''Not Implemented''),
    (502, ''Bad Gateway''),
    (503, ''Service Unavailable''),
    (504, ''Gateway Timeout''),
    (505, ''HTTP Version Not Supported''),
    (506, ''Variant Also Negotiates''),
    (507, ''Insufficient Storage''),
    (508, ''Loop Detected''),
    (510, ''Not Extended''),
    (511, ''Network Authentication Required'')]"

definition http_status_str :: "nat \<Rightarrow> string" where
  "http_status_str s = (case map_of http_status_map s of Some d \<Rightarrow> d | None \<Rightarrow> ''<unknown>'')"

section \<open>Character classes\<close>

text \<open>\<^verbatim>\<open>tokens\<close>: the first half of the table is written out in the source, the second half is
  zero-initialised.\<close>

definition tokens_table :: "char list" where
  "tokens_table = replicate 32 NUL @
   [SP, CHR ''!'', NUL, CHR ''#'', CHR ''$'', CHR ''%'', CHR ''&'', CHR 0x27,
    NUL, NUL, CHR ''*'', CHR ''+'', NUL, CHR ''-'', CHR ''.'', NUL] @
   ''01234567'' @ ''89'' @ replicate 6 NUL @
   [NUL] @ ''abcdefg'' @ ''hijklmno'' @ ''pqrstuvw'' @
   ''xyz'' @ [NUL, NUL, NUL, CHR ''^'', CHR ''_''] @
   [CHR 0x60] @ ''abcdefg'' @ ''hijklmno'' @ ''pqrstuvw'' @
   ''xyz'' @ [NUL, CHR ''|'', NUL, CHR ''~'', NUL]"

definition tokens :: "char \<Rightarrow> char" where
  "tokens c = (if cval c < 128 then tokens_table ! cval c else NUL)"

text \<open>\<^verbatim>\<open>unhex\<close>: the source writes 128 initialisers for an array of 256, so the second half is zero
  as well (and not \<^verbatim>\<open>-1\<close>).\<close>

definition unhex_table :: "int list" where
  "unhex_table = replicate 48 (-1) @ [0, 1, 2, 3, 4, 5, 6, 7, 8, 9] @ replicate 6 (-1) @
     [-1, 10, 11, 12, 13, 14, 15] @ replicate 9 (-1) @ replicate 16 (-1) @
     [-1, 10, 11, 12, 13, 14, 15] @ replicate 9 (-1) @ replicate 16 (-1)"

definition unhex :: "char \<Rightarrow> int" where
  "unhex c = (if cval c < 128 then unhex_table ! cval c else 0)"

text \<open>\<^verbatim>\<open>normal_url_char\<close>: one bit per character, eight characters per byte; strict mode drops the
  tab and the form feed.\<close>

definition normal_url_char :: "nat list" where
  "normal_url_char =
    [0, 0, 0, 0,
     2 + 4 + 16 + 32 + 64 + 128, 255, 255, 1 + 2 + 4 + 8 + 16 + 32 + 64,
     255, 255, 255, 255,
     255, 255, 255, 1 + 2 + 4 + 8 + 16 + 32 + 64] @ replicate 16 0"

definition BIT_AT :: "nat list \<Rightarrow> nat \<Rightarrow> bool" where
  "BIT_AT a i \<longleftrightarrow> odd (a ! (i div 8) div 2 ^ (i mod 8))"

definition LOWER :: "char \<Rightarrow> char" where
  "LOWER c = char_of (or (cval c) 32)"

definition IS_ALPHA :: "char \<Rightarrow> bool" where
  "IS_ALPHA c \<longleftrightarrow> cval CHR ''a'' \<le> cval (LOWER c) \<and> cval (LOWER c) \<le> cval CHR ''z''"

definition IS_NUM :: "char \<Rightarrow> bool" where
  "IS_NUM c \<longleftrightarrow> cval CHR ''0'' \<le> cval c \<and> cval c \<le> cval CHR ''9''"

definition IS_ALPHANUM :: "char \<Rightarrow> bool" where
  "IS_ALPHANUM c \<longleftrightarrow> IS_ALPHA c \<or> IS_NUM c"

definition IS_HEX :: "char \<Rightarrow> bool" where
  "IS_HEX c \<longleftrightarrow> IS_NUM c \<or> cval CHR ''a'' \<le> cval (LOWER c) \<and> cval (LOWER c) \<le> cval CHR ''f''"

definition IS_MARK :: "char \<Rightarrow> bool" where
  "IS_MARK c \<longleftrightarrow> c = CHR ''-'' \<or> c = CHR ''_'' \<or> c = CHR ''.'' \<or> c = CHR ''!'' \<or> c = CHR ''~'' \<or>
     c = CHR ''*'' \<or> c = CHR 0x27 \<or> c = CHR ''('' \<or> c = CHR '')''"

definition IS_USERINFO_CHAR :: "char \<Rightarrow> bool" where
  "IS_USERINFO_CHAR c \<longleftrightarrow> IS_ALPHANUM c \<or> IS_MARK c \<or> c = CHR ''%'' \<or> c = CHR '';'' \<or>
     c = CHR '':'' \<or> c = CHR ''&'' \<or> c = CHR ''='' \<or> c = CHR ''+'' \<or> c = CHR ''$'' \<or> c = CHR '',''"

definition STRICT_TOKEN :: "char \<Rightarrow> char" where
  "STRICT_TOKEN c = (if c = SP then NUL else tokens c)"

definition TOKEN :: "char \<Rightarrow> char" where
  "TOKEN c = STRICT_TOKEN c"

definition IS_URL_CHAR :: "char \<Rightarrow> bool" where
  "IS_URL_CHAR c \<longleftrightarrow> BIT_AT normal_url_char (cval c)"

definition IS_HOST_CHAR :: "char \<Rightarrow> bool" where
  "IS_HOST_CHAR c \<longleftrightarrow> IS_ALPHANUM c \<or> c = CHR ''.'' \<or> c = CHR ''-''"

definition IS_HEADER_CHAR :: "char \<Rightarrow> bool" where
  "IS_HEADER_CHAR c \<longleftrightarrow> c = CR \<or> c = LF \<or> c = HT \<or> cval c > 31 \<and> cval c \<noteq> 127"

text \<open>The digit a decimal character stands for, \<^verbatim>\<open>ch - '0'\<close>.\<close>

definition digit_val :: "char \<Rightarrow> nat" where
  "digit_val c = cval c - cval CHR ''0''"

lemma cval_0_9 [simp]: "cval CHR ''0'' = 48" "cval CHR ''9'' = 57"
  by (simp_all add: cval_def)

lemma digit_val_le_9 [simp]: "IS_NUM c \<Longrightarrow> digit_val c \<le> 9"
  by (auto simp: IS_NUM_def digit_val_def)

section \<open>The parser object\<close>

record http_parser =
  p_type :: http_parser_type
  p_flags :: u8
  p_state :: state
  p_header_state :: header_states
  p_index :: "5 word"
  uses_transfer_encoding :: bool
  allow_chunked_length :: bool
  lenient_http_headers :: bool
  p_nread :: u32
  content_length :: u64
  http_major :: u16
  http_minor :: u16
  status_code :: u16
  p_method :: http_method
  http_errno :: http_errno
  upgrade :: bool

text \<open>\<^verbatim>\<open>http_parser_init\<close> zeroes the object (the user's pointer apart, which is the user state of
  the model) and chooses the start state.\<close>

definition http_parser_init :: "http_parser_type \<Rightarrow> http_parser" where
  "http_parser_init t =
    \<lparr>p_type = t, p_flags = 0,
     p_state = (if t = HTTP_REQUEST then s_start_req
                else if t = HTTP_RESPONSE then s_start_res else s_start_req_or_res),
     p_header_state = h_general, p_index = 0,
     uses_transfer_encoding = False, allow_chunked_length = False, lenient_http_headers = False,
     p_nread = 0, content_length = 0, http_major = 0, http_minor = 0, status_code = 0,
     p_method = HTTP_DELETE, http_errno = HPE_OK, upgrade = False\<rparr>"

definition http_message_needs_eof :: "http_parser \<Rightarrow> bool" where
  "http_message_needs_eof P =
    (if p_type P = HTTP_REQUEST then False
     else if unat (status_code P) div 100 = 1 \<or> status_code P = 204 \<or> status_code P = 304 \<or>
             has_flag (p_flags P) F_SKIPBODY then False
     else if uses_transfer_encoding P \<and> \<not> has_flag (p_flags P) F_CHUNKED then True
     else if has_flag (p_flags P) F_CHUNKED \<or> content_length P \<noteq> ULLONG_MAX then False
     else True)"

definition http_should_keep_alive :: "http_parser \<Rightarrow> bool" where
  "http_should_keep_alive P =
    (if http_major P > 0 \<and> http_minor P > 0 then
       if has_flag (p_flags P) F_CONNECTION_CLOSE then False
       else \<not> http_message_needs_eof P
     else
       if \<not> has_flag (p_flags P) F_CONNECTION_KEEP_ALIVE then False
       else \<not> http_message_needs_eof P)"

definition start_state :: "http_parser \<Rightarrow> state" where
  "start_state P = (if p_type P = HTTP_REQUEST then s_start_req else s_start_res)"

definition NEW_MESSAGE :: "http_parser \<Rightarrow> state" where
  "NEW_MESSAGE P = (if http_should_keep_alive P then start_state P else s_dead)"

lemma NEW_MESSAGE_cases: "NEW_MESSAGE P \<in> {s_start_req, s_start_res, s_dead}"
  by (simp add: NEW_MESSAGE_def start_state_def)

definition http_body_is_final :: "http_parser \<Rightarrow> bool" where
  "http_body_is_final P \<longleftrightarrow> p_state P = s_message_done"

text \<open>\<^verbatim>\<open>http_parser_pause\<close>; \<open>None\<close> is the failed assertion of pausing a parser in an error state.\<close>

definition http_parser_pause :: "bool \<Rightarrow> http_parser \<Rightarrow> http_parser option" where
  "http_parser_pause paused P =
    (if http_errno P = HPE_OK \<or> http_errno P = HPE_PAUSED
     then Some (P\<lparr>http_errno := (if paused then HPE_PAUSED else HPE_OK)\<rparr>) else None)"

end
