(* ===== verification/HttpUrl.thy ===== *)
theory HttpUrl
  imports HttpParserTypes
begin

text \<open>
  The URL part of \<^verbatim>\<open>http_parser.c\<close>: the byte-for-byte transition function \<^verbatim>\<open>parse_url_char\<close> (also
  used by the message parser), the host automaton, and \<^verbatim>\<open>http_parser_parse_url\<close>, which turns the
  transitions into field offsets.  Offsets and lengths are \<^verbatim>\<open>uint16_t\<close>, and the truncation of an
  offset is written out.  A failed assertion and a read outside the buffer are the outcome
  \<open>Url_assert\<close>; a nonzero return value is \<open>Url_bad\<close>.
\<close>

section \<open>Transitions\<close>

definition parse_url_char :: "state \<Rightarrow> char \<Rightarrow> state" where
  "parse_url_char s ch =
    (if ch = SP \<or> ch = CR \<or> ch = LF then s_dead
     else if ch = HT \<or> ch = FF then s_dead
     else case s of
       s_req_spaces_before_url \<Rightarrow>
         if ch = CHR ''/'' \<or> ch = CHR ''*'' then s_req_path
         else if IS_ALPHA ch then s_req_schema
         else s_dead
     | s_req_schema \<Rightarrow>
         if IS_ALPHA ch then s
         else if ch = CHR '':'' then s_req_schema_slash
         else s_dead
     | s_req_schema_slash \<Rightarrow>
         if ch = CHR ''/'' then s_req_schema_slash_slash else s_dead
     | s_req_schema_slash_slash \<Rightarrow>
         if ch = CHR ''/'' then s_req_server_start else s_dead
     | s_req_server_with_at \<Rightarrow>
         if ch = CHR ''@'' then s_dead
         else if ch = CHR ''/'' then s_req_path
         else if ch = CHR ''?'' then s_req_query_string_start
         else if IS_USERINFO_CHAR ch \<or> ch = CHR ''['' \<or> ch = CHR '']'' then s_req_server
         else s_dead
     | s_req_server_start \<Rightarrow>
         if ch = CHR ''/'' then s_req_path
         else if ch = CHR ''?'' then s_req_query_string_start
         else if ch = CHR ''@'' then s_req_server_with_at
         else if IS_USERINFO_CHAR ch \<or> ch = CHR ''['' \<or> ch = CHR '']'' then s_req_server
         else s_dead
     | s_req_server \<Rightarrow>
         if ch = CHR ''/'' then s_req_path
         else if ch = CHR ''?'' then s_req_query_string_start
         else if ch = CHR ''@'' then s_req_server_with_at
         else if IS_USERINFO_CHAR ch \<or> ch = CHR ''['' \<or> ch = CHR '']'' then s_req_server
         else s_dead
     | s_req_path \<Rightarrow>
         if IS_URL_CHAR ch then s
         else if ch = CHR ''?'' then s_req_query_string_start
         else if ch = CHR ''#'' then s_req_fragment_start
         else s_dead
     | s_req_query_string_start \<Rightarrow>
         if IS_URL_CHAR ch then s_req_query_string
         else if ch = CHR ''?'' then s_req_query_string
         else if ch = CHR ''#'' then s_req_fragment_start
         else s_dead
     | s_req_query_string \<Rightarrow>
         if IS_URL_CHAR ch then s_req_query_string
         else if ch = CHR ''?'' then s_req_query_string
         else if ch = CHR ''#'' then s_req_fragment_start
         else s_dead
     | s_req_fragment_start \<Rightarrow>
         if IS_URL_CHAR ch then s_req_fragment
         else if ch = CHR ''?'' then s_req_fragment
         else if ch = CHR ''#'' then s
         else s_dead
     | s_req_fragment \<Rightarrow>
         if IS_URL_CHAR ch then s
         else if ch = CHR ''?'' \<or> ch = CHR ''#'' then s
         else s_dead
     | _ \<Rightarrow> s_dead)"

definition http_parse_host_char :: "http_host_state \<Rightarrow> char \<Rightarrow> http_host_state" where
  "http_parse_host_char s ch =
    (case s of
       s_http_userinfo \<Rightarrow>
         if ch = CHR ''@'' then s_http_host_start
         else if IS_USERINFO_CHAR ch then s_http_userinfo else s_http_host_dead
     | s_http_userinfo_start \<Rightarrow>
         if ch = CHR ''@'' then s_http_host_start
         else if IS_USERINFO_CHAR ch then s_http_userinfo else s_http_host_dead
     | s_http_host_start \<Rightarrow>
         if ch = CHR ''['' then s_http_host_v6_start
         else if IS_HOST_CHAR ch then s_http_host else s_http_host_dead
     | s_http_host \<Rightarrow>
         if IS_HOST_CHAR ch then s_http_host
         else if ch = CHR '':'' then s_http_host_port_start else s_http_host_dead
     | s_http_host_v6_end \<Rightarrow>
         if ch = CHR '':'' then s_http_host_port_start else s_http_host_dead
     | s_http_host_v6 \<Rightarrow>
         if ch = CHR '']'' then s_http_host_v6_end
         else if IS_HEX ch \<or> ch = CHR '':'' \<or> ch = CHR ''.'' then s_http_host_v6
         else if ch = CHR ''%'' then s_http_host_v6_zone_start else s_http_host_dead
     | s_http_host_v6_start \<Rightarrow>
         if IS_HEX ch \<or> ch = CHR '':'' \<or> ch = CHR ''.'' then s_http_host_v6 else s_http_host_dead
     | s_http_host_v6_zone \<Rightarrow>
         if ch = CHR '']'' then s_http_host_v6_end
         else if IS_ALPHANUM ch \<or> ch = CHR ''%'' \<or> ch = CHR ''.'' \<or> ch = CHR ''-'' \<or>
                 ch = CHR ''_'' \<or> ch = CHR ''~'' then s_http_host_v6_zone else s_http_host_dead
     | s_http_host_v6_zone_start \<Rightarrow>
         if IS_ALPHANUM ch \<or> ch = CHR ''%'' \<or> ch = CHR ''.'' \<or> ch = CHR ''-'' \<or>
            ch = CHR ''_'' \<or> ch = CHR ''~'' then s_http_host_v6_zone else s_http_host_dead
     | s_http_host_port \<Rightarrow> if IS_NUM ch then s_http_host_port else s_http_host_dead
     | s_http_host_port_start \<Rightarrow> if IS_NUM ch then s_http_host_port else s_http_host_dead
     | s_http_host_dead \<Rightarrow> s_http_host_dead)"

section \<open>The result structure\<close>

datatype http_parser_url_fields =
  UF_SCHEMA | UF_HOST | UF_PORT | UF_PATH | UF_QUERY | UF_FRAGMENT | UF_USERINFO | UF_MAX

text \<open>The enumeration is finite, so functions on it (the array \<^verbatim>\<open>field_data\<close>) can be compared.\<close>

instantiation http_parser_url_fields :: enum
begin

definition enum_http_parser_url_fields :: "http_parser_url_fields list" where
  "enum_http_parser_url_fields =
    [UF_SCHEMA, UF_HOST, UF_PORT, UF_PATH, UF_QUERY, UF_FRAGMENT, UF_USERINFO, UF_MAX]"

definition enum_all_http_parser_url_fields :: "(http_parser_url_fields \<Rightarrow> bool) \<Rightarrow> bool" where
  "enum_all_http_parser_url_fields P \<longleftrightarrow> list_all P enum_class.enum"

definition enum_ex_http_parser_url_fields :: "(http_parser_url_fields \<Rightarrow> bool) \<Rightarrow> bool" where
  "enum_ex_http_parser_url_fields P \<longleftrightarrow> list_ex P enum_class.enum"

instance
proof
  show univ: "UNIV = set (enum_class.enum :: http_parser_url_fields list)"
    using http_parser_url_fields.exhaust by (auto simp: enum_http_parser_url_fields_def)
  show "distinct (enum_class.enum :: http_parser_url_fields list)"
    by (simp add: enum_http_parser_url_fields_def)
  fix P :: "http_parser_url_fields \<Rightarrow> bool"
  show "enum_class.enum_all P \<longleftrightarrow> Ball UNIV P"
    by (simp add: enum_all_http_parser_url_fields_def univ list_all_iff)
  show "enum_class.enum_ex P \<longleftrightarrow> Bex UNIV P"
    by (simp add: enum_ex_http_parser_url_fields_def univ list_ex_iff)
qed

end

primrec uf_num :: "http_parser_url_fields \<Rightarrow> nat" where
  "uf_num UF_SCHEMA = 0"
| "uf_num UF_HOST = 1"
| "uf_num UF_PORT = 2"
| "uf_num UF_PATH = 3"
| "uf_num UF_QUERY = 4"
| "uf_num UF_FRAGMENT = 5"
| "uf_num UF_USERINFO = 6"
| "uf_num UF_MAX = 7"

definition uf_bit :: "http_parser_url_fields \<Rightarrow> u16" where
  "uf_bit uf = push_bit (uf_num uf) 1"

lemma has_flag_uf_bit [simp, flag_simps]: "has_flag (uf_bit a) (uf_bit b) \<longleftrightarrow> a = b"
  by (cases a; cases b) (simp_all add: uf_bit_def has_flag_def push_bit_eq_mult)

record url_field =
  uf_off :: u16
  uf_len :: u16

record http_parser_url =
  field_set :: u16
  port :: u16
  field_data :: "http_parser_url_fields \<Rightarrow> url_field"

definition http_parser_url_init :: http_parser_url where
  "http_parser_url_init =
    \<lparr>field_set = 0, port = 0, field_data = (\<lambda>_. \<lparr>uf_off = 0, uf_len = 0\<rparr>)\<rparr>"

definition url_has :: "http_parser_url \<Rightarrow> http_parser_url_fields \<Rightarrow> bool" where
  "url_has u uf \<longleftrightarrow> has_flag (field_set u) (uf_bit uf)"

text \<open>Begin field \<open>uf\<close> at offset \<open>p\<close> with \<open>n\<close> bytes; count one more byte of it.\<close>

definition begin_field :: "http_parser_url_fields \<Rightarrow> nat \<Rightarrow> u16 \<Rightarrow> http_parser_url \<Rightarrow> http_parser_url" where
  "begin_field uf p n u = u\<lparr>field_set := field_set u OR uf_bit uf,
     field_data := (field_data u)(uf := \<lparr>uf_off = of_nat p, uf_len = n\<rparr>)\<rparr>"

definition grow_field :: "http_parser_url_fields \<Rightarrow> http_parser_url \<Rightarrow> http_parser_url" where
  "grow_field uf u = u\<lparr>field_data := (field_data u)(uf := (field_data u uf)
     \<lparr>uf_len := uf_len (field_data u uf) + 1\<rparr>)\<rparr>"

text \<open>The bytes a field covers.\<close>

definition url_slice :: "bytes \<Rightarrow> http_parser_url \<Rightarrow> http_parser_url_fields \<Rightarrow> bytes" where
  "url_slice buf u uf = slice_of (unat (uf_off (field_data u uf))) (unat (uf_len (field_data u uf))) buf"

datatype url_result = Url_ok http_parser_url | Url_bad | Url_assert

section \<open>Host and port\<close>

text \<open>What \<^verbatim>\<open>http_parse_host\<close> records for a byte at offset \<open>p\<close> that moves the automaton from
  \<open>s\<close> to \<open>new_s\<close>.\<close>

definition set_host_off :: "nat \<Rightarrow> http_parser_url \<Rightarrow> http_parser_url" where
  "set_host_off p u = u\<lparr>field_data := (field_data u)(UF_HOST := (field_data u UF_HOST)\<lparr>uf_off := of_nat p\<rparr>)\<rparr>"

definition host_update ::
  "http_host_state \<Rightarrow> http_host_state \<Rightarrow> nat \<Rightarrow> http_parser_url \<Rightarrow> http_parser_url" where
  "host_update s new_s p u =
    (case new_s of
       s_http_host \<Rightarrow> grow_field UF_HOST (if s \<noteq> s_http_host then set_host_off p u else u)
     | s_http_host_v6 \<Rightarrow> grow_field UF_HOST (if s \<noteq> s_http_host_v6 then set_host_off p u else u)
     | s_http_host_v6_zone_start \<Rightarrow> grow_field UF_HOST u
     | s_http_host_v6_zone \<Rightarrow> grow_field UF_HOST u
     | s_http_host_port \<Rightarrow>
         grow_field UF_PORT (if s \<noteq> s_http_host_port then begin_field UF_PORT p 0 u else u)
     | s_http_userinfo \<Rightarrow>
         grow_field UF_USERINFO (if s \<noteq> s_http_userinfo then begin_field UF_USERINFO p 0 u else u)
     | _ \<Rightarrow> u)"

text \<open>Loop of \<^verbatim>\<open>http_parse_host\<close> over the bytes from offset \<open>p\<close>; \<open>None\<close> is the early return.
  The host length has been reset before the loop.\<close>

fun host_loop :: "bytes \<Rightarrow> nat \<Rightarrow> http_host_state \<Rightarrow> http_parser_url
    \<Rightarrow> (http_host_state \<times> http_parser_url) option" where
  "host_loop [] p s u = Some (s, u)"
| "host_loop (ch # cs) p s u =
    (let new_s = http_parse_host_char s ch in
     if new_s = s_http_host_dead then None
     else host_loop cs (Suc p) new_s (host_update s new_s p u))"

definition http_parse_host :: "bytes \<Rightarrow> http_parser_url \<Rightarrow> bool \<Rightarrow> url_result" where
  "http_parse_host buf u found_at =
    (let off = unat (uf_off (field_data u UF_HOST));
         buflen = off + unat (uf_len (field_data u UF_HOST))
     in if \<not> url_has u UF_HOST \<or> length buf < buflen then Url_assert
        else
          case host_loop (slice_of off (buflen - off) buf) off
                 (if found_at then s_http_userinfo_start else s_http_host_start)
                 (u\<lparr>field_data := (field_data u)(UF_HOST := (field_data u UF_HOST)\<lparr>uf_len := 0\<rparr>)\<rparr>) of
            None \<Rightarrow> Url_bad
          | Some (s, u') \<Rightarrow>
              if s \<in> {s_http_host_start, s_http_host_v6_start, s_http_host_v6,
                      s_http_host_v6_zone_start, s_http_host_v6_zone, s_http_host_port_start,
                      s_http_userinfo, s_http_userinfo_start}
              then Url_bad else Url_ok u')"

text \<open>The value of a \<^verbatim>\<open>char\<close> (signed on the platform) widened to \<^verbatim>\<open>unsigned long\<close>, less \<^verbatim>\<open>'0'\<close>.\<close>

definition digit_ulong :: "char \<Rightarrow> u64" where
  "digit_ulong c = word_of_int ((if cval c < 128 then int (cval c) else int (cval c) - 256) - 48)"

fun port_loop :: "bytes \<Rightarrow> u64 \<Rightarrow> u64 option" where
  "port_loop [] v = Some v"
| "port_loop (ch # cs) v =
    (let v' = v * 10 + digit_ulong ch in if v' > 0xffff then None else port_loop cs v')"

section \<open>The URL parser\<close>

text \<open>Loop of \<^verbatim>\<open>http_parser_parse_url\<close>: \<open>old_uf\<close> is the field being extended, \<open>found\<close> the flag
  \<^verbatim>\<open>found_at\<close>.\<close>

datatype url_loop_result =
  Loop_done bool http_parser_url | Loop_bad | Loop_assert

definition enter_field ::
  "http_parser_url_fields \<Rightarrow> http_parser_url_fields \<Rightarrow> nat \<Rightarrow> http_parser_url \<Rightarrow> http_parser_url" where
  "enter_field uf old_uf p u = (if uf = old_uf then grow_field uf u else begin_field uf p 1 u)"

fun url_loop :: "bytes \<Rightarrow> nat \<Rightarrow> state \<Rightarrow> http_parser_url_fields \<Rightarrow> bool \<Rightarrow> http_parser_url
    \<Rightarrow> url_loop_result" where
  "url_loop [] p s old_uf found u = Loop_done found u"
| "url_loop (ch # cs) p s old_uf found u =
    (let s' = parse_url_char s ch in
     case s' of
       s_dead \<Rightarrow> Loop_bad
     | s_req_schema_slash \<Rightarrow> url_loop cs (Suc p) s' old_uf found u
     | s_req_schema_slash_slash \<Rightarrow> url_loop cs (Suc p) s' old_uf found u
     | s_req_server_start \<Rightarrow> url_loop cs (Suc p) s' old_uf found u
     | s_req_query_string_start \<Rightarrow> url_loop cs (Suc p) s' old_uf found u
     | s_req_fragment_start \<Rightarrow> url_loop cs (Suc p) s' old_uf found u
     | s_req_schema \<Rightarrow> url_loop cs (Suc p) s' UF_SCHEMA found (enter_field UF_SCHEMA old_uf p u)
     | s_req_server_with_at \<Rightarrow> url_loop cs (Suc p) s' UF_HOST True (enter_field UF_HOST old_uf p u)
     | s_req_server \<Rightarrow> url_loop cs (Suc p) s' UF_HOST found (enter_field UF_HOST old_uf p u)
     | s_req_path \<Rightarrow> url_loop cs (Suc p) s' UF_PATH found (enter_field UF_PATH old_uf p u)
     | s_req_query_string \<Rightarrow> url_loop cs (Suc p) s' UF_QUERY found (enter_field UF_QUERY old_uf p u)
     | s_req_fragment \<Rightarrow> url_loop cs (Suc p) s' UF_FRAGMENT found (enter_field UF_FRAGMENT old_uf p u)
     | _ \<Rightarrow> Loop_assert)"

text \<open>The tail of \<^verbatim>\<open>http_parser_parse_url\<close>: conversion of the port.\<close>

definition url_port :: "bytes \<Rightarrow> http_parser_url \<Rightarrow> url_result" where
  "url_port buf u =
    (if url_has u UF_PORT then
       if unat (uf_off (field_data u UF_PORT)) + unat (uf_len (field_data u UF_PORT)) > length buf
       then Url_assert
       else case port_loop (url_slice buf u UF_PORT) 0 of
              None \<Rightarrow> Url_bad
            | Some v \<Rightarrow> Url_ok (u\<lparr>port := ucast v\<rparr>)
     else Url_ok u)"

definition http_parser_parse_url :: "bytes \<Rightarrow> bool \<Rightarrow> http_parser_url \<Rightarrow> url_result" where
  "http_parser_parse_url buf is_connect u =
    (if buf = [] then Url_bad
     else case url_loop buf 0 (if is_connect then s_req_server_start else s_req_spaces_before_url)
                 UF_MAX False (u\<lparr>port := 0, field_set := 0\<rparr>) of
         Loop_bad \<Rightarrow> Url_bad
       | Loop_assert \<Rightarrow> Url_assert
       | Loop_done found_at u1 \<Rightarrow>
           if url_has u1 UF_SCHEMA \<and> \<not> url_has u1 UF_HOST then Url_bad
           else case (if url_has u1 UF_HOST then http_parse_host buf u1 found_at else Url_ok u1) of
               Url_ok u2 \<Rightarrow>
                 if is_connect \<and> field_set u2 \<noteq> uf_bit UF_HOST OR uf_bit UF_PORT then Url_bad
                 else url_port buf u2
             | r \<Rightarrow> r)"

section \<open>Which states the transition functions reach\<close>

lemma parse_url_char_range:
  "parse_url_char s ch \<in> {s_dead, s_req_schema, s_req_schema_slash, s_req_schema_slash_slash,
     s_req_server_start, s_req_server, s_req_server_with_at, s_req_path, s_req_query_string_start,
     s_req_query_string, s_req_fragment_start, s_req_fragment}"
  by (cases s) (simp_all add: parse_url_char_def)

lemma url_loop_no_assert: "url_loop cs p s old_uf found u \<noteq> Loop_assert"
proof (induction cs arbitrary: p s old_uf found u)
  case Nil
  then show ?case by simp
next
  case (Cons ch cs)
  then show ?case
    using parse_url_char_range [of s ch] by (auto simp: Let_def)
qed

section \<open>Fields stay inside the buffer\<close>

definition field_end :: "http_parser_url \<Rightarrow> http_parser_url_fields \<Rightarrow> nat" where
  "field_end u uf = unat (uf_off (field_data u uf)) + unat (uf_len (field_data u uf))"

definition fields_within :: "nat \<Rightarrow> http_parser_url \<Rightarrow> bool" where
  "fields_within n u \<longleftrightarrow> (\<forall>uf. url_has u uf \<longrightarrow> field_end u uf \<le> n)"

lemma url_has_begin [simp]: "url_has (begin_field f p n u) uf \<longleftrightarrow> uf = f \<or> url_has u uf"
  by (auto simp: url_has_def begin_field_def)

lemma url_has_grow [simp]: "url_has (grow_field f u) uf \<longleftrightarrow> url_has u uf"
  by (simp add: url_has_def grow_field_def)

lemma field_end_begin_other [simp]: "uf \<noteq> f \<Longrightarrow> field_end (begin_field f p n u) uf = field_end u uf"
  by (simp add: field_end_def begin_field_def)

lemma field_end_grow_other [simp]: "uf \<noteq> f \<Longrightarrow> field_end (grow_field f u) uf = field_end u uf"
  by (simp add: field_end_def grow_field_def)

lemma field_end_begin_le: "field_end (begin_field f p n u) f \<le> p + unat n"
  by (simp add: field_end_def begin_field_def unat_of_nat_le)

lemma field_end_grow_le: "field_end (grow_field f u) f \<le> field_end u f + 1"
  using unat_inc_le [of "uf_len (field_data u f)"] by (simp add: field_end_def grow_field_def)


lemma fields_within_mono: "fields_within m u \<Longrightarrow> m \<le> n \<Longrightarrow> fields_within n u"
  by (auto simp: fields_within_def intro: order_trans)

lemma fields_within_enter:
  assumes "fields_within p u"
  shows "fields_within (Suc p) (enter_field uf old_uf p u)"
  unfolding fields_within_def
proof (intro allI impI)
  fix f
  assume has: "url_has (enter_field uf old_uf p u) f"
  show "field_end (enter_field uf old_uf p u) f \<le> Suc p"
  proof (cases "f = uf")
    case True
    show ?thesis
    proof (cases "uf = old_uf")
      case True
      with has \<open>f = uf\<close> assms have "field_end u uf \<le> p"
        by (simp add: fields_within_def enter_field_def)
      with field_end_grow_le [of uf u] \<open>f = uf\<close> True show ?thesis by (simp add: enter_field_def)
    next
      case False
      with field_end_begin_le [of uf p 1 u] \<open>f = uf\<close> show ?thesis by (simp add: enter_field_def)
    qed
  next
    case False
    with has have "url_has u f" by (simp add: enter_field_def split: if_splits)
    with False assms show ?thesis
      by (auto simp: fields_within_def enter_field_def intro: le_SucI)
  qed
qed

lemma url_loop_within:
  "fields_within p u \<Longrightarrow> url_loop cs p s old_uf found u = Loop_done found' u' \<Longrightarrow>
   fields_within (p + length cs) u'"
proof (induction cs arbitrary: p s old_uf found u)
  case Nil
  then show ?case by simp
next
  case (Cons ch cs)
  have skip: "fields_within (Suc p) u"
    using Cons.prems(1) by (rule fields_within_mono) simp
  have enter: "fields_within (Suc p) (enter_field uf old_uf p u)" for uf
    using Cons.prems(1) by (rule fields_within_enter)
  from Cons.prems(2) Cons.IH [OF skip] Cons.IH [OF enter] show ?case
    by (auto simp: Let_def split: state.splits)
qed

text \<open>In the host automaton the field being extended ends at or before the current byte.\<close>

definition host_inv :: "nat \<Rightarrow> nat \<Rightarrow> http_host_state \<Rightarrow> http_parser_url \<Rightarrow> bool" where
  "host_inv n p s u \<longleftrightarrow> fields_within n u \<and> field_end u UF_HOST \<le> p \<and>
     (s = s_http_host_port \<longrightarrow> field_end u UF_PORT \<le> p) \<and>
     (s = s_http_userinfo \<longrightarrow> field_end u UF_USERINFO \<le> p) \<and>
     (s \<in> {s_http_userinfo_start, s_http_userinfo, s_http_host_start, s_http_host_v6_start} \<longrightarrow>
        uf_len (field_data u UF_HOST) = 0)"

lemma fields_within_grow:
  "fields_within n u \<Longrightarrow> field_end u f < n \<Longrightarrow> fields_within n (grow_field f u)"
  using field_end_grow_le [of f u] unfolding fields_within_def
  by (metis Suc_eq_plus1 Suc_leI field_end_grow_other order_trans url_has_grow)

lemma fields_within_begin:
  "fields_within n u \<Longrightarrow> p + unat k \<le> n \<Longrightarrow> fields_within n (begin_field f p k u)"
  using field_end_begin_le [of f p k u] unfolding fields_within_def
  by (metis field_end_begin_other order_trans url_has_begin)


lemma set_host_off_simps [simp]:
  "url_has (set_host_off p u) uf \<longleftrightarrow> url_has u uf"
  "uf \<noteq> UF_HOST \<Longrightarrow> field_end (set_host_off p u) uf = field_end u uf"
  "uf_len (field_data (set_host_off p u) uf) = uf_len (field_data u uf)"
  by (simp_all add: set_host_off_def url_has_def field_end_def)

lemma field_end_set_host_off:
  "uf_len (field_data u UF_HOST) = 0 \<Longrightarrow> field_end (set_host_off p u) UF_HOST \<le> p"
  by (simp add: set_host_off_def field_end_def unat_of_nat_le)

lemma fields_within_set_host_off:
  "fields_within n u \<Longrightarrow> uf_len (field_data u UF_HOST) = 0 \<Longrightarrow> p \<le> n \<Longrightarrow>
   fields_within n (set_host_off p u)"
  unfolding fields_within_def by (metis field_end_set_host_off order_trans set_host_off_simps(1,2))

lemma uf_len_host_frame [simp]:
  "f \<noteq> UF_HOST \<Longrightarrow> uf_len (field_data (grow_field f u) UF_HOST) = uf_len (field_data u UF_HOST)"
  "f \<noteq> UF_HOST \<Longrightarrow> uf_len (field_data (begin_field f p n u) UF_HOST) = uf_len (field_data u UF_HOST)"
  by (simp_all add: grow_field_def begin_field_def)

lemma field_end_grow_Suc: "field_end u f \<le> p \<Longrightarrow> field_end (grow_field f u) f \<le> Suc p"
  using field_end_grow_le [of f u] by linarith

lemma field_end_begin0: "field_end (begin_field f p 0 u) f \<le> p"
  using field_end_begin_le [of f p 0 u] by simp

lemma host_inv_step:
  assumes "host_inv n p s u" "p < n" "http_parse_host_char s ch = s'" "s' \<noteq> s_http_host_dead"
  shows "host_inv n (Suc p) s' (host_update s s' p u)"
  using assms
  by (cases s)
    (auto simp: host_inv_def http_parse_host_char_def host_update_def
       intro!: fields_within_grow fields_within_begin fields_within_set_host_off field_end_grow_Suc
         field_end_set_host_off field_end_begin0
       intro: le_SucI order.strict_trans1 split: if_splits)

lemma host_loop_inv:
  "host_inv n p s u \<Longrightarrow> p + length cs \<le> n \<Longrightarrow> host_loop cs p s u = Some (s', u') \<Longrightarrow>
   host_inv n (p + length cs) s' u'"
proof (induction cs arbitrary: p s u)
  case Nil
  then show ?case by simp
next
  case (Cons ch cs)
  let ?s = "http_parse_host_char s ch"
  from Cons.prems have ns: "?s \<noteq> s_http_host_dead"
    and rest: "host_loop cs (Suc p) ?s (host_update s ?s p u) = Some (s', u')"
    by (auto simp: Let_def split: if_splits)
  from Cons.prems have "host_inv n (Suc p) ?s (host_update s ?s p u)"
    by (intro host_inv_step [OF Cons.prems(1) _ refl ns]) simp
  from Cons.IH [OF this _ rest] Cons.prems show ?case by simp
qed

lemma parse_host_within:
  assumes "http_parse_host buf u found = Url_ok u'" "fields_within (length buf) u"
  shows "fields_within (length buf) u'"
proof -
  let ?off = "unat (uf_off (field_data u UF_HOST))"
  let ?len = "unat (uf_len (field_data u UF_HOST))"
  let ?u0 = "u\<lparr>field_data := (field_data u)(UF_HOST := (field_data u UF_HOST)\<lparr>uf_len := 0\<rparr>)\<rparr>"
  let ?s0 = "if found then s_http_userinfo_start else s_http_host_start"
  from assms(1) obtain s where loop: "host_loop (slice_of ?off ?len buf) ?off ?s0 ?u0 = Some (s, u')"
    and le: "?off + ?len \<le> length buf"
    by (auto simp: http_parse_host_def Let_def split: if_splits option.splits)
  have "fields_within (length buf) ?u0"
    using assms(2) unfolding fields_within_def field_end_def url_has_def by (auto elim!: allE)
  moreover have "field_end ?u0 UF_HOST \<le> ?off" by (simp add: field_end_def)
  ultimately have inv: "host_inv (length buf) ?off ?s0 ?u0" by (simp add: host_inv_def)
  from host_loop_inv [OF inv _ loop] le show ?thesis by (simp add: host_inv_def)
qed

lemma url_port_within:
  "url_port buf u = Url_ok u' \<Longrightarrow> fields_within n u \<Longrightarrow> fields_within n u'"
  by (auto simp: url_port_def fields_within_def field_end_def url_has_def
        split: if_splits option.splits)

lemma http_parse_host_no_assert:
  assumes "url_has u UF_HOST" "fields_within (length buf) u"
  shows "http_parse_host buf u found \<noteq> Url_assert"
proof -
  from assms have "field_end u UF_HOST \<le> length buf" by (simp add: fields_within_def)
  with assms(1) show ?thesis
    by (auto simp: http_parse_host_def Let_def field_end_def split: option.splits)
qed

lemma url_port_no_assert:
  "fields_within (length buf) u \<Longrightarrow> url_port buf u \<noteq> Url_assert"
  by (auto simp: url_port_def fields_within_def field_end_def split: option.splits)

section \<open>The port number\<close>

definition dec_value :: "bytes \<Rightarrow> nat" where
  "dec_value cs = foldl (\<lambda>v c. 10 * v + digit_val c) 0 cs"

lemma digit_ulong_num: "IS_NUM c \<Longrightarrow> digit_ulong c = of_nat (digit_val c)"
  by (simp add: digit_ulong_def IS_NUM_def digit_val_def of_nat_diff word_of_int_nat)

lemma port_loop_value:
  "list_all IS_NUM cs \<Longrightarrow> v \<le> 65535 \<Longrightarrow> port_loop cs (of_nat v) = Some w \<Longrightarrow>
   unat w = foldl (\<lambda>v c. 10 * v + digit_val c) v cs \<and> unat w \<le> 65535"
proof (induction cs arbitrary: v)
  case Nil
  then have "w = of_nat v" by simp
  with Nil.prems(2) show ?case by (simp add: unat_of_nat)
next
  case (Cons c cs)
  define x where "x = 10 * v + digit_val c"
  have "digit_val c \<le> 9" using Cons.prems(1) by simp
  with Cons.prems(2) have x: "x \<le> 655359" by (simp add: x_def)
  have eq: "of_nat v * 10 + digit_ulong c = (of_nat x :: u64)"
    using Cons.prems(1) by (simp add: digit_ulong_num mult.commute x_def)
  have u: "unat (of_nat x :: u64) = x"
    using x by (simp add: unat_of_nat)
  from Cons.prems(3) have "\<not> (0xffff :: u64) < of_nat x" and rest: "port_loop cs (of_nat x) = Some w"
    by (auto simp: Let_def eq split: if_splits)
  then have "x \<le> 65535" by (simp add: word_less_nat_alt u)
  from Cons.IH [OF _ this rest] Cons.prems(1) show ?case by (simp add: x_def)
qed

text \<open>With offsets below \<^verbatim>\<open>2^16\<close> nothing is truncated, and the port field is the run of digits
  that ends at the current byte.\<close>

definition port_inv :: "bytes \<Rightarrow> nat \<Rightarrow> http_host_state \<Rightarrow> http_parser_url \<Rightarrow> bool" where
  "port_inv buf p s u \<longleftrightarrow>
    (if s = s_http_host_port
     then url_has u UF_PORT \<and> field_end u UF_PORT = p \<and> url_slice buf u UF_PORT \<noteq> [] \<and>
       list_all IS_NUM (url_slice buf u UF_PORT)
     else \<not> url_has u UF_PORT)"

lemma url_slice_grow:
  assumes "field_end u f = p" "p < length buf" "length buf < 65536"
  shows "url_slice buf (grow_field f u) f = url_slice buf u f @ [buf ! p]"
    and "field_end (grow_field f u) f = Suc p"
proof -
  have le: "unat (uf_len (field_data u f)) + 1 < 2 ^ LENGTH(16)"
    using assms by (simp add: field_end_def)
  have l: "unat (uf_len (field_data (grow_field f u) f)) = Suc (unat (uf_len (field_data u f)))"
    using unat_inc_less [OF le] by (simp add: grow_field_def)
  have o: "uf_off (field_data (grow_field f u) f) = uf_off (field_data u f)"
    by (simp add: grow_field_def)
  show "url_slice buf (grow_field f u) f = url_slice buf u f @ [buf ! p]"
    using assms by (simp add: url_slice_def l o slice_of_Suc field_end_def)
  show "field_end (grow_field f u) f = Suc p"
    using assms by (simp add: field_end_def l o)
qed

lemma url_slice_begin0 [simp]: "url_slice buf (begin_field f p 0 u) f = []"
  by (simp add: url_slice_def begin_field_def slice_of_def)

lemma field_end_begin0_exact: "p < 65536 \<Longrightarrow> field_end (begin_field f p 0 u) f = p"
  by (simp add: field_end_def begin_field_def unat_of_nat)

lemma host_update_port_frame:
  "s' \<noteq> s_http_host_port \<Longrightarrow> url_has (host_update s s' p u) UF_PORT \<longleftrightarrow> url_has u UF_PORT"
  by (cases s') (simp_all add: host_update_def)

lemma host_char_to_port:
  "http_parse_host_char s ch = s_http_host_port \<Longrightarrow> IS_NUM ch"
  "http_parse_host_char s_http_host_port ch \<in> {s_http_host_port, s_http_host_dead}"
  by (cases s; simp add: http_parse_host_char_def split: if_splits)
     (simp add: http_parse_host_char_def)

lemma port_inv_step:
  assumes inv: "port_inv buf p s u" and p: "p < length buf" "length buf < 65536"
    and s': "http_parse_host_char s (buf ! p) = s'" "s' \<noteq> s_http_host_dead"
  shows "port_inv buf (Suc p) s' (host_update s s' p u)"
proof (cases "s' = s_http_host_port")
  case True
  let ?u = "if s \<noteq> s_http_host_port then begin_field UF_PORT p 0 u else u"
  have num: "IS_NUM (buf ! p)" using s' True host_char_to_port(1) by blast
  have "field_end ?u UF_PORT = p" "url_has ?u UF_PORT" "list_all IS_NUM (url_slice buf ?u UF_PORT)"
    using inv p by (auto simp: port_inv_def field_end_begin0_exact)
  then show ?thesis
    using True num url_slice_grow [of ?u UF_PORT p buf] p
    by (simp add: port_inv_def host_update_def)
next
  case False
  with s' host_char_to_port(2) [of "buf ! p"] have "s \<noteq> s_http_host_port" by auto
  with False inv show ?thesis by (simp add: port_inv_def host_update_port_frame)
qed

lemma host_loop_port:
  "port_inv buf p s u \<Longrightarrow> length buf < 65536 \<Longrightarrow> p + n \<le> length buf \<Longrightarrow>
   host_loop (slice_of p n buf) p s u = Some (s', u') \<Longrightarrow> port_inv buf (p + n) s' u'"
proof (induction n arbitrary: p s u)
  case 0
  then show ?case by (simp add: slice_of_def)
next
  case (Suc n)
  let ?s = "http_parse_host_char s (buf ! p)"
  from Suc.prems(3) have sl: "slice_of p (Suc n) buf = buf ! p # slice_of (Suc p) n buf"
    by (simp add: slice_of_def Cons_nth_drop_Suc [symmetric])
  from Suc.prems(4) have ns: "?s \<noteq> s_http_host_dead"
    and rest: "host_loop (slice_of (Suc p) n buf) (Suc p) ?s (host_update s ?s p u) = Some (s', u')"
    by (auto simp: sl Let_def split: if_splits)
  have "port_inv buf (Suc p) ?s (host_update s ?s p u)"
    using Suc.prems ns by (intro port_inv_step) auto
  from Suc.IH [OF this Suc.prems(2) _ rest] Suc.prems(3) show ?case by simp
qed

lemma url_has_enter: "uf \<noteq> f \<Longrightarrow> url_has (enter_field f old_uf p u) uf \<longleftrightarrow> url_has u uf"
  by (simp add: enter_field_def)

lemma url_loop_no_port:
  "\<not> url_has u UF_PORT \<Longrightarrow> url_loop cs p s old_uf found u = Loop_done found' u' \<Longrightarrow>
   \<not> url_has u' UF_PORT"
proof (induction cs arbitrary: p s old_uf found u)
  case Nil
  then show ?case by simp
next
  case (Cons ch cs)
  have IH: "\<not> url_has u' UF_PORT"
    if "url_loop cs q t old fnd v = Loop_done found' u'" "\<not> url_has v UF_PORT" for q t old fnd v
    using that Cons.IH by blast
  from Cons.prems show ?case
    by (auto simp: Let_def url_has_enter split: state.splits dest!: IH)
qed

lemma host_loop_has:
  "host_loop cs p s u = Some (s', u') \<Longrightarrow> uf \<notin> {UF_PORT, UF_USERINFO} \<Longrightarrow>
   url_has u' uf = url_has u uf"
proof (induction cs arbitrary: p s u)
  case Nil
  then show ?case by simp
next
  case (Cons ch cs)
  let ?s = "http_parse_host_char s ch"
  have "url_has (host_update s ?s p u) uf = url_has u uf"
    using Cons.prems(2) by (cases ?s) (simp_all add: host_update_def)
  with Cons show ?case by (auto simp: Let_def split: if_splits)
qed

lemma parse_host_has:
  "http_parse_host buf u found = Url_ok u' \<Longrightarrow> uf \<notin> {UF_PORT, UF_USERINFO} \<Longrightarrow>
   url_has u' uf = url_has u uf"
  by (auto simp: http_parse_host_def Let_def url_has_def [of "u\<lparr>field_data := _\<rparr>"]
        split: if_splits option.splits dest!: host_loop_has) (simp_all add: url_has_def)

lemma parse_host_port:
  assumes "http_parse_host buf u found = Url_ok u'" "\<not> url_has u UF_PORT" "length buf < 65536"
  shows "url_has u' UF_PORT \<longrightarrow> url_slice buf u' UF_PORT \<noteq> [] \<and> list_all IS_NUM (url_slice buf u' UF_PORT)"
proof -
  let ?off = "unat (uf_off (field_data u UF_HOST))"
  let ?len = "unat (uf_len (field_data u UF_HOST))"
  let ?u0 = "u\<lparr>field_data := (field_data u)(UF_HOST := (field_data u UF_HOST)\<lparr>uf_len := 0\<rparr>)\<rparr>"
  let ?s0 = "if found then s_http_userinfo_start else s_http_host_start"
  from assms(1) obtain s where loop: "host_loop (slice_of ?off ?len buf) ?off ?s0 ?u0 = Some (s, u')"
    and le: "?off + ?len \<le> length buf"
    by (auto simp: http_parse_host_def Let_def split: if_splits option.splits)
  have "port_inv buf ?off ?s0 ?u0" using assms(2) by (simp add: port_inv_def url_has_def)
  from host_loop_port [OF this assms(3) le loop] show ?thesis
    by (auto simp: port_inv_def split: if_splits)
qed


section \<open>Properties of \<open>http_parser_parse_url\<close>\<close>

lemma parse_url_okE:
  assumes "http_parser_parse_url buf is_connect u = Url_ok u'"
  obtains found u1 u2 where "fields_within (length buf) u1" "\<not> url_has u1 UF_PORT"
    "url_loop buf 0 (if is_connect then s_req_server_start else s_req_spaces_before_url)
       UF_MAX False (u\<lparr>port := 0, field_set := 0\<rparr>) = Loop_done found u1"
    "(if url_has u1 UF_HOST then http_parse_host buf u1 found else Url_ok u1) = Url_ok u2"
    "url_port buf u2 = Url_ok u'"
    "url_has u1 UF_SCHEMA \<longrightarrow> url_has u1 UF_HOST"
    "is_connect \<longrightarrow> field_set u2 = uf_bit UF_HOST OR uf_bit UF_PORT"
proof -
  let ?u0 = "u\<lparr>port := 0, field_set := 0\<rparr>"
  let ?s0 = "if is_connect then s_req_server_start else s_req_spaces_before_url"
  from assms obtain found u1 where l: "url_loop buf 0 ?s0 UF_MAX False ?u0 = Loop_done found u1"
    by (auto simp: http_parser_parse_url_def split: if_splits url_loop_result.splits)
  have "fields_within 0 ?u0" "\<not> url_has ?u0 UF_PORT"
    by (simp_all add: fields_within_def url_has_def)
  from url_loop_within [OF this(1) l] url_loop_no_port [OF this(2) l]
  have w: "fields_within (length buf) u1" "\<not> url_has u1 UF_PORT" by simp_all
  let ?r = "if url_has u1 UF_HOST then http_parse_host buf u1 found else Url_ok u1"
  from assms l obtain u2 where r: "?r = Url_ok u2"
    by (cases ?r) (auto simp: http_parser_parse_url_def split: if_splits)
  with assms l show thesis
    by (intro that [OF w l r]) (simp_all add: http_parser_parse_url_def split: if_splits)
qed

lemma parse_url_fields_within:
  assumes "http_parser_parse_url buf is_connect u = Url_ok u'" and "url_has u' uf"
  shows "unat (uf_off (field_data u' uf)) + unat (uf_len (field_data u' uf)) \<le> length buf"
proof -
  from assms(1) obtain found u1 u2 where
      w: "fields_within (length buf) u1"
    and h: "(if url_has u1 UF_HOST then http_parse_host buf u1 found else Url_ok u1) = Url_ok u2"
    and p: "url_port buf u2 = Url_ok u'"
    by (rule parse_url_okE)
  from w h have "fields_within (length buf) u2"
    by (auto split: if_splits dest: parse_host_within)
  with p have "fields_within (length buf) u'" by (rule url_port_within)
  with assms(2) show ?thesis by (simp add: fields_within_def field_end_def)
qed

text \<open>
  C12. A successful \<^verbatim>\<open>http_parser_parse_url\<close> hands back fields that lie inside the buffer: for every
  field whose bit is set, offset plus length does not exceed the length of the buffer.  This holds
  for buffers of every size, also where the 16-bit offsets are truncated, so the callers that build
  strings from the fields never read past the buffer.
\<close>

theorem parse_url_fields_in_buffer:
  assumes "http_parser_parse_url buf is_connect u = Url_ok u'" and "url_has u' uf"
  shows "unat (uf_off (field_data u' uf)) + unat (uf_len (field_data u' uf)) \<le> length buf"
  by (rule parse_url_fields_within [OF assms])

lemma parse_url_never_asserts: "http_parser_parse_url buf is_connect u \<noteq> Url_assert"
proof -
  let ?s0 = "if is_connect then s_req_server_start else s_req_spaces_before_url"
  let ?u0 = "u\<lparr>port := 0, field_set := 0\<rparr>"
  have w0: "fields_within 0 ?u0" by (simp add: fields_within_def url_has_def)
  show ?thesis
  proof (cases "url_loop buf 0 ?s0 UF_MAX False ?u0")
    case (Loop_done found u1)
    from url_loop_within [OF w0 this] have w: "fields_within (length buf) u1" by simp
    with Loop_done show ?thesis
      using http_parse_host_no_assert [of u1 buf found] url_port_no_assert
      by (auto simp: http_parser_parse_url_def dest: parse_host_within split: url_result.splits)
  qed (use url_loop_no_assert [of buf] in \<open>auto simp: http_parser_parse_url_def\<close>)
qed

text \<open>
  \<^verbatim>\<open>http_parser_parse_url\<close> never fails an assertion and never reads outside its buffer: on every
  input it returns success or failure.
\<close>

theorem parse_url_no_assert: "http_parser_parse_url buf is_connect u \<noteq> Url_assert"
  by (rule parse_url_never_asserts)

lemma parse_url_port_digits:
  assumes "http_parser_parse_url buf is_connect u = Url_ok u'" and "length buf < 65536"
    and "url_has u' UF_PORT"
  shows "url_slice buf u' UF_PORT \<noteq> [] \<and> list_all IS_NUM (url_slice buf u' UF_PORT) \<and>
         unat (port u') = dec_value (url_slice buf u' UF_PORT)"
proof -
  from assms(1) obtain found u1 u2 where
      np: "\<not> url_has u1 UF_PORT"
    and h: "(if url_has u1 UF_HOST then http_parse_host buf u1 found else Url_ok u1) = Url_ok u2"
    and p: "url_port buf u2 = Url_ok u'"
    by (rule parse_url_okE)
  from p assms(3) have has2: "url_has u2 UF_PORT"
    by (auto simp: url_port_def url_has_def split: if_splits option.splits)
  with h np assms(2) have num: "list_all IS_NUM (url_slice buf u2 UF_PORT)"
    and ne: "url_slice buf u2 UF_PORT \<noteq> []"
    by (auto split: if_splits dest: parse_host_port)
  from p has2 obtain v where v: "port_loop (url_slice buf u2 UF_PORT) 0 = Some v"
    and u': "u' = u2\<lparr>port := ucast v\<rparr>"
    by (auto simp: url_port_def split: if_splits option.splits)
  from port_loop_value [of _ 0, OF num] v
  have "unat v = dec_value (url_slice buf u2 UF_PORT)" "unat v \<le> 65535"
    by (auto simp: dec_value_def)
  then show ?thesis using num ne by (simp add: u' url_slice_def unsigned_ucast_eq take_bit_nat_eq_self)
qed

text \<open>
  For a URL shorter than 65536 bytes, a port field consists of decimal digits only, and the
  number stored in \<^verbatim>\<open>port\<close> is the value of these digits; it was not truncated.
\<close>

theorem parse_url_port_value:
  assumes "http_parser_parse_url buf is_connect u = Url_ok u'" and "length buf < 65536"
    and "url_has u' UF_PORT"
  shows "list_all IS_NUM (url_slice buf u' UF_PORT) \<and>
         unat (port u') = dec_value (url_slice buf u' UF_PORT)"
  using parse_url_port_digits [OF assms] by simp

text \<open>
  A URL with a scheme always has a host, and a CONNECT target is accepted only if exactly its
  host and its port were found.
\<close>

theorem parse_url_required_parts:
  assumes "http_parser_parse_url buf is_connect u = Url_ok u'"
  shows "(url_has u' UF_SCHEMA \<longrightarrow> url_has u' UF_HOST) \<and>
         (is_connect \<longrightarrow> (\<forall>uf. url_has u' uf \<longleftrightarrow> uf \<in> {UF_HOST, UF_PORT}))"
proof -
  from assms obtain found u1 u2 where
      h: "(if url_has u1 UF_HOST then http_parse_host buf u1 found else Url_ok u1) = Url_ok u2"
    and p: "url_port buf u2 = Url_ok u'"
    and sh: "url_has u1 UF_SCHEMA \<longrightarrow> url_has u1 UF_HOST"
    and c: "is_connect \<longrightarrow> field_set u2 = uf_bit UF_HOST OR uf_bit UF_PORT"
    by (rule parse_url_okE)
  have eq: "url_has u' uf = url_has u2 uf" for uf
    using p by (auto simp: url_port_def url_has_def split: if_splits option.splits)
  have keep: "url_has u2 uf = url_has u1 uf" if "uf \<notin> {UF_PORT, UF_USERINFO}" for uf
    using h that by (auto split: if_splits dest: parse_host_has)
  have "url_has u2 uf \<longleftrightarrow> uf \<in> {UF_HOST, UF_PORT}" if is_connect for uf
    using c that by (auto simp: url_has_def)
  then show ?thesis
    using sh keep [of UF_SCHEMA] keep [of UF_HOST] by (simp add: eq)
qed

section \<open>Witnesses\<close>

definition example_url :: bytes where
  "example_url = ''http://me@a.b:80/c?d#e''"

definition example_url_result :: http_parser_url where
  "example_url_result =
    (case http_parser_parse_url example_url False http_parser_url_init of
       Url_ok u \<Rightarrow> u | _ \<Rightarrow> http_parser_url_init)"

lemma example_url_ok:
  "http_parser_parse_url example_url False http_parser_url_init = Url_ok example_url_result"
  by code_simp

lemma example_url_has_port: "url_has example_url_result UF_PORT"
  by code_simp

theorem parse_url_fields_in_buffer_witness:
  "unat (uf_off (field_data example_url_result UF_PORT)) +
   unat (uf_len (field_data example_url_result UF_PORT)) \<le> length example_url"
  by (rule parse_url_fields_in_buffer [OF example_url_ok example_url_has_port])

theorem parse_url_port_value_witness:
  "list_all IS_NUM (url_slice example_url example_url_result UF_PORT) \<and>
   unat (port example_url_result) = dec_value (url_slice example_url example_url_result UF_PORT)"
  by (rule parse_url_port_value [OF example_url_ok _ example_url_has_port]) (simp add: example_url_def)

definition example_connect_result :: http_parser_url where
  "example_connect_result =
    (case http_parser_parse_url ''a.b:80'' True http_parser_url_init of
       Url_ok u \<Rightarrow> u | _ \<Rightarrow> http_parser_url_init)"

lemma example_connect_ok:
  "http_parser_parse_url ''a.b:80'' True http_parser_url_init = Url_ok example_connect_result"
  by code_simp

theorem parse_url_required_parts_witness:
  "\<forall>uf. url_has example_connect_result uf \<longleftrightarrow> uf \<in> {UF_HOST, UF_PORT}"
  using parse_url_required_parts [OF example_connect_ok] by simp

end
