(* ===== verification/HttpExecute.thy ===== *)
theory HttpExecute
  imports HttpUrl
begin

text \<open>
  The message parser \<^verbatim>\<open>http_parser_execute\<close> of \<^verbatim>\<open>http_parser.c\<close>.  The local variables of the C
  function are the record \<open>xst\<close>: the parser object, the user's state behind \<^verbatim>\<open>parser->data\<close>, the
  local copies \<^verbatim>\<open>p_state\<close> and \<^verbatim>\<open>nread\<close>, the position \<^verbatim>\<open>p - data\<close>, the current character, the
  five marks, and the two options read once at the start of the call.  Every label of the big \<^verbatim>\<open>switch\<close> is one definition (or one branch of a definition
  for labels that share code); its result says how the C code leaves the switch: by \<^verbatim>\<open>break\<close>
  (\<open>Next\<close>), by \<^verbatim>\<open>goto reexecute\<close> (\<open>Reexecute\<close>), or by returning (\<open>Return\<close>).  A failed
  \<^verbatim>\<open>assert\<close> and a read outside an array are \<open>Abort\<close>.  Callbacks are arbitrary functions on the
  parser object and the user state, so they can fail, pause the parser or change it.
\<close>

section \<open>Callbacks and the state of one call\<close>

type_synonym 'u http_cb = "http_parser \<Rightarrow> 'u \<Rightarrow> int \<times> http_parser \<times> 'u"
type_synonym 'u http_data_cb = "bytes \<Rightarrow> http_parser \<Rightarrow> 'u \<Rightarrow> int \<times> http_parser \<times> 'u"

record 'u http_parser_settings =
  on_message_begin :: "'u http_cb option"
  on_url :: "'u http_data_cb option"
  on_status :: "'u http_data_cb option"
  on_header_field :: "'u http_data_cb option"
  on_header_value :: "'u http_data_cb option"
  on_headers_complete :: "'u http_cb option"
  on_body :: "'u http_data_cb option"
  on_message_complete :: "'u http_cb option"
  on_chunk_header :: "'u http_cb option"
  on_chunk_complete :: "'u http_cb option"

definition http_parser_settings_init :: "'u http_parser_settings" where
  "http_parser_settings_init =
    \<lparr>on_message_begin = None, on_url = None, on_status = None, on_header_field = None,
     on_header_value = None, on_headers_complete = None, on_body = None,
     on_message_complete = None, on_chunk_header = None, on_chunk_complete = None\<rparr>"

datatype mark = M_header_field | M_header_value | M_url | M_body | M_status

record 'u xst =
  prs :: http_parser
  usr :: 'u
  cst :: state
  nread :: u32
  pos :: nat
  cur_ch :: char
  marks :: "mark \<rightharpoonup> nat"
  lenient :: bool
  allow_chunked :: bool

datatype 'u step =
  Next "'u xst" | Reexecute "'u xst" | Return nat http_parser 'u | Abort | Diverge

primrec data_cb :: "'u http_parser_settings \<Rightarrow> mark \<Rightarrow> 'u http_data_cb option" where
  "data_cb S M_header_field = on_header_field S"
| "data_cb S M_header_value = on_header_value S"
| "data_cb S M_url = on_url S"
| "data_cb S M_body = on_body S"
| "data_cb S M_status = on_status S"

primrec data_cb_errno :: "mark \<Rightarrow> http_errno" where
  "data_cb_errno M_header_field = HPE_CB_header_field"
| "data_cb_errno M_header_value = HPE_CB_header_value"
| "data_cb_errno M_url = HPE_CB_url"
| "data_cb_errno M_body = HPE_CB_body"
| "data_cb_errno M_status = HPE_CB_status"

section \<open>The macros\<close>

abbreviation upd_prs :: "(http_parser \<Rightarrow> http_parser) \<Rightarrow> 'u xst \<Rightarrow> 'u xst" where
  "upd_prs f x \<equiv> x\<lparr>prs := f (prs x)\<rparr>"

abbreviation UPDATE_STATE :: "state \<Rightarrow> 'u xst \<Rightarrow> 'u xst" where
  "UPDATE_STATE s x \<equiv> x\<lparr>cst := s\<rparr>"

definition SET_ERRNO :: "http_errno \<Rightarrow> 'u xst \<Rightarrow> 'u xst" where
  "SET_ERRNO e x = upd_prs (\<lambda>P. P\<lparr>p_nread := nread x, http_errno := e\<rparr>) x"

definition RETURN :: "nat \<Rightarrow> 'u xst \<Rightarrow> 'u step" where
  "RETURN v x = Return v ((prs x)\<lparr>p_nread := nread x, p_state := cst x\<rparr>) (usr x)"

text \<open>\<^verbatim>\<open>goto error\<close>, and the frequent \<^verbatim>\<open>SET_ERRNO(e); goto error\<close>.\<close>

definition goto_error :: "'u xst \<Rightarrow> 'u step" where
  "goto_error x =
    RETURN (pos x) (if http_errno (prs x) = HPE_OK then SET_ERRNO HPE_UNKNOWN x else x)"

definition fail :: "http_errno \<Rightarrow> 'u xst \<Rightarrow> 'u step" where
  "fail e x = goto_error (SET_ERRNO e x)"

definition STRICT_CHECK :: "bool \<Rightarrow> 'u xst \<Rightarrow> 'u step \<Rightarrow> 'u step" where
  "STRICT_CHECK cond x k = (if cond then fail HPE_STRICT x else k)"

text \<open>The macros that may leave the function take the rest of the code as the continuation \<open>k\<close>.\<close>

definition COUNT_HEADER_SIZE :: "u32 \<Rightarrow> nat \<Rightarrow> 'u xst \<Rightarrow> ('u xst \<Rightarrow> 'u step) \<Rightarrow> 'u step" where
  "COUNT_HEADER_SIZE mx v x k =
    (let x' = x\<lparr>nread := nread x + of_nat v\<rparr>
     in if nread x' > mx then fail HPE_HEADER_OVERFLOW x' else k x')"

definition CALLBACK_NOTIFY_gen ::
  "'u http_cb option \<Rightarrow> http_errno \<Rightarrow> nat \<Rightarrow> 'u xst \<Rightarrow> ('u xst \<Rightarrow> 'u step) \<Rightarrow> 'u step" where
  "CALLBACK_NOTIFY_gen cb e er x k =
    (if http_errno (prs x) \<noteq> HPE_OK then Abort
     else case cb of
         None \<Rightarrow> k x
       | Some f \<Rightarrow>
           (case f ((prs x)\<lparr>p_state := cst x\<rparr>) (usr x) of (r, P, u) \<Rightarrow>
              let x1 = x\<lparr>prs := P, usr := u\<rparr>;
                  x2 = (if r \<noteq> 0 then SET_ERRNO e x1 else x1);
                  x3 = x2\<lparr>cst := p_state (prs x2)\<rparr>
              in if http_errno (prs x3) \<noteq> HPE_OK then Return er (prs x3) (usr x3) else k x3))"

abbreviation CALLBACK_NOTIFY ::
  "'u http_cb option \<Rightarrow> http_errno \<Rightarrow> 'u xst \<Rightarrow> ('u xst \<Rightarrow> 'u step) \<Rightarrow> 'u step" where
  "CALLBACK_NOTIFY cb e x k \<equiv> CALLBACK_NOTIFY_gen cb e (pos x + 1) x k"

abbreviation CALLBACK_NOTIFY_NOADVANCE ::
  "'u http_cb option \<Rightarrow> http_errno \<Rightarrow> 'u xst \<Rightarrow> ('u xst \<Rightarrow> 'u step) \<Rightarrow> 'u step" where
  "CALLBACK_NOTIFY_NOADVANCE cb e x k \<equiv> CALLBACK_NOTIFY_gen cb e (pos x) x k"

text \<open>The data callback gets the bytes from the mark up to offset \<open>end\<close> (the C code passes the
  pointer and the length \<^verbatim>\<open>end - mark\<close>); a range outside the buffer is \<open>Abort\<close>.\<close>

definition CALLBACK_DATA_gen ::
  "'u http_parser_settings \<Rightarrow> bytes \<Rightarrow> mark \<Rightarrow> nat \<Rightarrow> nat \<Rightarrow> 'u xst \<Rightarrow> ('u xst \<Rightarrow> 'u step)
   \<Rightarrow> 'u step" where
  "CALLBACK_DATA_gen S data m end er x k =
    (if http_errno (prs x) \<noteq> HPE_OK then Abort
     else case marks x m of
         None \<Rightarrow> k x
       | Some a \<Rightarrow>
           if a > end \<or> end > length data then Abort
           else (case data_cb S m of
              None \<Rightarrow> k (x\<lparr>marks := (marks x)(m := None)\<rparr>)
            | Some f \<Rightarrow>
                (case f (slice_of a (end - a) data) ((prs x)\<lparr>p_state := cst x\<rparr>) (usr x) of (r, P, u) \<Rightarrow>
                   let x1 = x\<lparr>prs := P, usr := u\<rparr>;
                       x2 = (if r \<noteq> 0 then SET_ERRNO (data_cb_errno m) x1 else x1);
                       x3 = x2\<lparr>cst := p_state (prs x2)\<rparr>
                   in if http_errno (prs x3) \<noteq> HPE_OK then Return er (prs x3) (usr x3)
                      else k (x3\<lparr>marks := (marks x3)(m := None)\<rparr>))))"

abbreviation CALLBACK_DATA ::
  "'u http_parser_settings \<Rightarrow> bytes \<Rightarrow> mark \<Rightarrow> 'u xst \<Rightarrow> ('u xst \<Rightarrow> 'u step) \<Rightarrow> 'u step" where
  "CALLBACK_DATA S data m x k \<equiv> CALLBACK_DATA_gen S data m (pos x) (pos x + 1) x k"

abbreviation CALLBACK_DATA_NOADVANCE ::
  "'u http_parser_settings \<Rightarrow> bytes \<Rightarrow> mark \<Rightarrow> 'u xst \<Rightarrow> ('u xst \<Rightarrow> 'u step) \<Rightarrow> 'u step" where
  "CALLBACK_DATA_NOADVANCE S data m x k \<equiv> CALLBACK_DATA_gen S data m (pos x) (pos x) x k"

definition MARK :: "mark \<Rightarrow> 'u xst \<Rightarrow> 'u xst" where
  "MARK m x = (if marks x m = None then x\<lparr>marks := (marks x)(m \<mapsto> pos x)\<rparr> else x)"

section \<open>Start line of a response\<close>

text \<open>\<^verbatim>\<open>s_dead\<close>, \<^verbatim>\<open>s_start_req_or_res\<close>, \<^verbatim>\<open>s_res_or_resp_H\<close>.\<close>

definition reset_message :: "http_parser \<Rightarrow> http_parser" where
  "reset_message P = P\<lparr>p_flags := 0, uses_transfer_encoding := False, content_length := ULLONG_MAX\<rparr>"

definition exec_dead :: "'u xst \<Rightarrow> 'u step" where
  "exec_dead x =
    (if cur_ch x = CR \<or> cur_ch x = LF then Next x else fail HPE_CLOSED_CONNECTION x)"

definition exec_start_req_or_res :: "'u http_parser_settings \<Rightarrow> 'u xst \<Rightarrow> 'u step" where
  "exec_start_req_or_res S x =
    (if cur_ch x = CR \<or> cur_ch x = LF then Next x
     else
       let x = upd_prs reset_message x in
       if cur_ch x = CHR ''H'' then
         CALLBACK_NOTIFY (on_message_begin S) HPE_CB_message_begin
           (UPDATE_STATE s_res_or_resp_H x) Next
       else
         Reexecute (UPDATE_STATE s_start_req (upd_prs (\<lambda>P. P\<lparr>p_type := HTTP_REQUEST\<rparr>) x)))"

definition exec_res_or_resp_H :: "'u xst \<Rightarrow> 'u step" where
  "exec_res_or_resp_H x =
    (if cur_ch x = CHR ''T'' then
       Next (UPDATE_STATE s_res_HT (upd_prs (\<lambda>P. P\<lparr>p_type := HTTP_RESPONSE\<rparr>) x))
     else if cur_ch x \<noteq> CHR ''E'' then fail HPE_INVALID_CONSTANT x
     else Next (UPDATE_STATE s_req_method (upd_prs
            (\<lambda>P. P\<lparr>p_type := HTTP_REQUEST, p_method := HTTP_HEAD, p_index := 2\<rparr>) x)))"

definition exec_start_res :: "'u http_parser_settings \<Rightarrow> 'u xst \<Rightarrow> 'u step" where
  "exec_start_res S x =
    (if cur_ch x = CR \<or> cur_ch x = LF then Next x
     else
       let x = upd_prs reset_message x in
       if cur_ch x = CHR ''H'' then
         CALLBACK_NOTIFY (on_message_begin S) HPE_CB_message_begin (UPDATE_STATE s_res_H x) Next
       else fail HPE_INVALID_CONSTANT x)"

text \<open>A state that insists on one character in strict mode: \<^verbatim>\<open>STRICT_CHECK(ch != c)\<close> and a move.\<close>

definition exec_expect :: "char \<Rightarrow> state \<Rightarrow> 'u xst \<Rightarrow> 'u step" where
  "exec_expect c s x = STRICT_CHECK (cur_ch x \<noteq> c) x (Next (UPDATE_STATE s x))"

text \<open>The version states, shared in shape by requests and responses.\<close>

definition exec_http_major :: "state \<Rightarrow> 'u xst \<Rightarrow> 'u step" where
  "exec_http_major s x =
    (if \<not> IS_NUM (cur_ch x) then fail HPE_INVALID_VERSION x
     else Next (UPDATE_STATE s (upd_prs (\<lambda>P. P\<lparr>http_major := of_nat (digit_val (cur_ch x))\<rparr>) x)))"

definition exec_http_dot :: "state \<Rightarrow> 'u xst \<Rightarrow> 'u step" where
  "exec_http_dot s x =
    (if cur_ch x \<noteq> CHR ''.'' then fail HPE_INVALID_VERSION x else Next (UPDATE_STATE s x))"

definition exec_http_minor :: "state \<Rightarrow> 'u xst \<Rightarrow> 'u step" where
  "exec_http_minor s x =
    (if \<not> IS_NUM (cur_ch x) then fail HPE_INVALID_VERSION x
     else Next (UPDATE_STATE s (upd_prs (\<lambda>P. P\<lparr>http_minor := of_nat (digit_val (cur_ch x))\<rparr>) x)))"

definition exec_res_http_end :: "'u xst \<Rightarrow> 'u step" where
  "exec_res_http_end x =
    (if cur_ch x \<noteq> SP then fail HPE_INVALID_VERSION x
     else Next (UPDATE_STATE s_res_first_status_code x))"

definition exec_res_first_status_code :: "'u xst \<Rightarrow> 'u step" where
  "exec_res_first_status_code x =
    (if \<not> IS_NUM (cur_ch x) then
       if cur_ch x = SP then Next x else fail HPE_INVALID_STATUS x
     else Next (UPDATE_STATE s_res_status_code
            (upd_prs (\<lambda>P. P\<lparr>status_code := of_nat (digit_val (cur_ch x))\<rparr>) x)))"

definition exec_res_status_code :: "'u xst \<Rightarrow> 'u step" where
  "exec_res_status_code x =
    (if \<not> IS_NUM (cur_ch x) then
       if cur_ch x = SP then Next (UPDATE_STATE s_res_status_start x)
       else if cur_ch x = CR \<or> cur_ch x = LF then Reexecute (UPDATE_STATE s_res_status_start x)
       else fail HPE_INVALID_STATUS x
     else
       let x = upd_prs (\<lambda>P. P\<lparr>status_code := status_code P * 10 + of_nat (digit_val (cur_ch x))\<rparr>) x in
       if status_code (prs x) > 999 then fail HPE_INVALID_STATUS x else Next x)"

definition exec_res_status_start :: "'u xst \<Rightarrow> 'u step" where
  "exec_res_status_start x =
    (let x = upd_prs (\<lambda>P. P\<lparr>p_index := 0\<rparr>) (UPDATE_STATE s_res_status (MARK M_status x))
     in if cur_ch x = CR \<or> cur_ch x = LF then Reexecute x else Next x)"

definition exec_res_status :: "'u http_parser_settings \<Rightarrow> bytes \<Rightarrow> 'u xst \<Rightarrow> 'u step" where
  "exec_res_status S data x =
    (if cur_ch x = CR then
       CALLBACK_DATA S data M_status (UPDATE_STATE s_res_line_almost_done x) Next
     else if cur_ch x = LF then
       CALLBACK_DATA S data M_status (UPDATE_STATE s_header_field_start x) Next
     else Next x)"

section \<open>Request line\<close>

text \<open>The first letter of a method selects the first candidate of the table.\<close>

definition first_method :: "char \<Rightarrow> http_method option" where
  "first_method c = map_of
    [(CHR ''A'', HTTP_ACL), (CHR ''B'', HTTP_BIND), (CHR ''C'', HTTP_CONNECT),
     (CHR ''D'', HTTP_DELETE), (CHR ''G'', HTTP_GET), (CHR ''H'', HTTP_HEAD), (CHR ''L'', HTTP_LOCK),
     (CHR ''M'', HTTP_MKCOL), (CHR ''N'', HTTP_NOTIFY), (CHR ''O'', HTTP_OPTIONS),
     (CHR ''P'', HTTP_POST), (CHR ''R'', HTTP_REPORT), (CHR ''S'', HTTP_SUBSCRIBE),
     (CHR ''T'', HTTP_TRACE), (CHR ''U'', HTTP_UNLOCK)] c"

definition exec_start_req :: "'u http_parser_settings \<Rightarrow> 'u xst \<Rightarrow> 'u step" where
  "exec_start_req S x =
    (if cur_ch x = CR \<or> cur_ch x = LF then Next x
     else
       let x = upd_prs reset_message x in
       if \<not> IS_ALPHA (cur_ch x) then fail HPE_INVALID_METHOD x
       else
         let x = upd_prs (\<lambda>P. P\<lparr>p_method := HTTP_DELETE, p_index := 1\<rparr>) x in
         case first_method (cur_ch x) of
           None \<Rightarrow> fail HPE_INVALID_METHOD x
         | Some m \<Rightarrow>
             CALLBACK_NOTIFY (on_message_begin S) HPE_CB_message_begin
               (UPDATE_STATE s_req_method (upd_prs (\<lambda>P. P\<lparr>p_method := m\<rparr>) x)) Next)"

text \<open>The switch on \<^verbatim>\<open>method << 16 | index << 8 | ch\<close>: while a method is read, a mismatch at a
  known place selects another method with the same prefix.\<close>

definition next_method_table :: "((http_method \<times> nat \<times> char) \<times> http_method) list" where
  "next_method_table =
    [((HTTP_POST, 1, CHR ''U''), HTTP_PUT),
     ((HTTP_POST, 1, CHR ''A''), HTTP_PATCH),
     ((HTTP_POST, 1, CHR ''R''), HTTP_PROPFIND),
     ((HTTP_PUT, 2, CHR ''R''), HTTP_PURGE),
     ((HTTP_CONNECT, 1, CHR ''H''), HTTP_CHECKOUT),
     ((HTTP_CONNECT, 2, CHR ''P''), HTTP_COPY),
     ((HTTP_MKCOL, 1, CHR ''O''), HTTP_MOVE),
     ((HTTP_MKCOL, 1, CHR ''E''), HTTP_MERGE),
     ((HTTP_MKCOL, 1, CHR ''-''), HTTP_MSEARCH),
     ((HTTP_MKCOL, 2, CHR ''A''), HTTP_MKACTIVITY),
     ((HTTP_MKCOL, 3, CHR ''A''), HTTP_MKCALENDAR),
     ((HTTP_SUBSCRIBE, 1, CHR ''E''), HTTP_SEARCH),
     ((HTTP_SUBSCRIBE, 1, CHR ''O''), HTTP_SOURCE),
     ((HTTP_REPORT, 2, CHR ''B''), HTTP_REBIND),
     ((HTTP_PROPFIND, 4, CHR ''P''), HTTP_PROPPATCH),
     ((HTTP_LOCK, 1, CHR ''I''), HTTP_LINK),
     ((HTTP_UNLOCK, 2, CHR ''S''), HTTP_UNSUBSCRIBE),
     ((HTTP_UNLOCK, 2, CHR ''B''), HTTP_UNBIND),
     ((HTTP_UNLOCK, 3, CHR ''I''), HTTP_UNLINK)]"

definition exec_req_method :: "'u xst \<Rightarrow> 'u step" where
  "exec_req_method x =
    (let c = cur_ch x; i = unat (p_index (prs x)); matcher = method_strings (p_method (prs x));
         next = (\<lambda>x. Next (upd_prs (\<lambda>P. P\<lparr>p_index := p_index P + 1\<rparr>) x))
     in if c = NUL then fail HPE_INVALID_METHOD x
        else if i > length matcher then Abort
        else if c = SP \<and> cchar matcher i = NUL then next (UPDATE_STATE s_req_spaces_before_url x)
        else if c = cchar matcher i then next x
        else if cval CHR ''A'' \<le> cval c \<and> cval c \<le> cval CHR ''Z'' \<or> c = CHR ''-'' then
          case map_of next_method_table (p_method (prs x), i, c) of
            Some m \<Rightarrow> next (upd_prs (\<lambda>P. P\<lparr>p_method := m\<rparr>) x)
          | None \<Rightarrow> fail HPE_INVALID_METHOD x
        else fail HPE_INVALID_METHOD x)"

definition exec_url_char :: "'u xst \<Rightarrow> 'u step" where
  "exec_url_char x =
    (let s = parse_url_char (cst x) (cur_ch x); x = UPDATE_STATE s x
     in if s = s_dead then fail HPE_INVALID_URL x else Next x)"

definition exec_req_spaces_before_url :: "'u xst \<Rightarrow> 'u step" where
  "exec_req_spaces_before_url x =
    (if cur_ch x = SP then Next x
     else
       let x = MARK M_url x;
           x = (if p_method (prs x) = HTTP_CONNECT then UPDATE_STATE s_req_server_start x else x)
       in exec_url_char x)"

text \<open>\<^verbatim>\<open>s_req_schema\<close> to \<^verbatim>\<open>s_req_server_start\<close>: no white space allowed.\<close>

definition exec_req_schema :: "'u xst \<Rightarrow> 'u step" where
  "exec_req_schema x =
    (if cur_ch x = SP \<or> cur_ch x = CR \<or> cur_ch x = LF then fail HPE_INVALID_URL x
     else exec_url_char x)"

text \<open>\<^verbatim>\<open>s_req_server\<close> to \<^verbatim>\<open>s_req_fragment\<close>: white space ends the URL.\<close>

definition exec_req_url :: "'u http_parser_settings \<Rightarrow> bytes \<Rightarrow> 'u xst \<Rightarrow> 'u step" where
  "exec_req_url S data x =
    (if cur_ch x = SP then
       CALLBACK_DATA S data M_url (UPDATE_STATE s_req_http_start x) Next
     else if cur_ch x = CR \<or> cur_ch x = LF then
       CALLBACK_DATA S data M_url
         (UPDATE_STATE (if cur_ch x = CR then s_req_line_almost_done else s_header_field_start)
            (upd_prs (\<lambda>P. P\<lparr>http_major := 0, http_minor := 9\<rparr>) x)) Next
     else exec_url_char x)"

definition exec_req_http_start :: "'u xst \<Rightarrow> 'u step" where
  "exec_req_http_start x =
    (if cur_ch x = SP then Next x
     else if cur_ch x = CHR ''H'' then Next (UPDATE_STATE s_req_http_H x)
     else if cur_ch x = CHR ''I'' \<and> p_method (prs x) = HTTP_SOURCE then
       Next (UPDATE_STATE s_req_http_I x)
     else fail HPE_INVALID_CONSTANT x)"

definition exec_req_http_end :: "'u xst \<Rightarrow> 'u step" where
  "exec_req_http_end x =
    (if cur_ch x = CR then Next (UPDATE_STATE s_req_line_almost_done x)
     else if cur_ch x = LF then Next (UPDATE_STATE s_header_field_start x)
     else fail HPE_INVALID_VERSION x)"

definition exec_req_line_almost_done :: "'u xst \<Rightarrow> 'u step" where
  "exec_req_line_almost_done x =
    (if cur_ch x \<noteq> LF then fail HPE_LF_EXPECTED x
     else Next (UPDATE_STATE s_header_field_start x))"

section \<open>Header fields\<close>

definition exec_header_field_start :: "'u xst \<Rightarrow> 'u step" where
  "exec_header_field_start x =
    (if cur_ch x = CR then Next (UPDATE_STATE s_headers_almost_done x)
     else if cur_ch x = LF then Reexecute (UPDATE_STATE s_headers_almost_done x)
     else
       let c = TOKEN (cur_ch x) in
       if c = NUL then fail HPE_INVALID_HEADER_TOKEN x
       else Next (upd_prs (\<lambda>P. P\<lparr>p_index := 0, p_header_state :=
                (if c = CHR ''c'' then h_C
                 else if c = CHR ''p'' then h_matching_proxy_connection
                 else if c = CHR ''t'' then h_matching_transfer_encoding
                 else if c = CHR ''u'' then h_matching_upgrade
                 else h_general)\<rparr>)
              (UPDATE_STATE s_header_field (MARK M_header_field x))))"

text \<open>One more character of a known header name: the state stays, becomes \<open>found\<close> at the last
  character, or \<open>other\<close> on a mismatch.\<close>

definition match_step :: "string \<Rightarrow> header_states \<Rightarrow> header_states \<Rightarrow> header_states \<Rightarrow> char
    \<Rightarrow> 5 word \<Rightarrow> header_states" where
  "match_step word cur other found c i =
    (if unat i > length word \<or> c \<noteq> cchar word (unat i) then other
     else if unat i = length word - 1 then found else cur)"

text \<open>The inner switch of \<^verbatim>\<open>s_header_field\<close>, for every state but \<^verbatim>\<open>h_general\<close>; \<open>None\<close> is the failed
  assertion of the default case.\<close>

definition hf_char :: "char \<Rightarrow> char \<Rightarrow> http_parser \<Rightarrow> http_parser option" where
  "hf_char ch c P =
    (let i = p_index P + 1 in
     case p_header_state P of
       h_C \<Rightarrow> Some (P\<lparr>p_index := i, p_header_state := (if c = CHR ''o'' then h_CO else h_general)\<rparr>)
     | h_CO \<Rightarrow> Some (P\<lparr>p_index := i, p_header_state := (if c = CHR ''n'' then h_CON else h_general)\<rparr>)
     | h_CON \<Rightarrow> Some (P\<lparr>p_index := i, p_header_state :=
         (if c = CHR ''n'' then h_matching_connection
          else if c = CHR ''t'' then h_matching_content_length else h_general)\<rparr>)
     | h_matching_connection \<Rightarrow> Some (P\<lparr>p_index := i, p_header_state :=
         match_step ''connection'' h_matching_connection h_general h_connection c i\<rparr>)
     | h_matching_proxy_connection \<Rightarrow> Some (P\<lparr>p_index := i, p_header_state :=
         match_step ''proxy-connection'' h_matching_proxy_connection h_general h_connection c i\<rparr>)
     | h_matching_content_length \<Rightarrow> Some (P\<lparr>p_index := i, p_header_state :=
         match_step ''content-length'' h_matching_content_length h_general h_content_length c i\<rparr>)
     | h_matching_transfer_encoding \<Rightarrow>
         (let h = match_step ''transfer-encoding'' h_matching_transfer_encoding h_general
                    h_transfer_encoding c i
          in Some (P\<lparr>p_index := i, p_header_state := h,
               uses_transfer_encoding := (h = h_transfer_encoding \<or> uses_transfer_encoding P)\<rparr>))
     | h_matching_upgrade \<Rightarrow> Some (P\<lparr>p_index := i, p_header_state :=
         match_step ''upgrade'' h_matching_upgrade h_general h_upgrade c i\<rparr>)
     | h_connection \<Rightarrow> Some (if ch \<noteq> SP then P\<lparr>p_header_state := h_general\<rparr> else P)
     | h_content_length \<Rightarrow> Some (if ch \<noteq> SP then P\<lparr>p_header_state := h_general\<rparr> else P)
     | h_transfer_encoding \<Rightarrow> Some (if ch \<noteq> SP then P\<lparr>p_header_state := h_general\<rparr> else P)
     | h_upgrade \<Rightarrow> Some (if ch \<noteq> SP then P\<lparr>p_header_state := h_general\<rparr> else P)
     | _ \<Rightarrow> None)"

text \<open>\<^verbatim>\<open>while (p+1 < pe && TOKEN(p[1])) p++\<close>, the fast path of \<^verbatim>\<open>h_general\<close>.\<close>

function scan_token :: "bytes \<Rightarrow> nat \<Rightarrow> nat \<Rightarrow> nat" where
  "scan_token data q pe =
    (if q + 1 < pe \<and> TOKEN (data ! (q + 1)) \<noteq> NUL then scan_token data (q + 1) pe else q)"
  by pat_completeness auto
termination
  by (relation "measure (\<lambda>(data, q, pe). pe - q)") auto

declare scan_token.simps [simp del]

lemma scan_token_ge: "q \<le> scan_token data q pe"
proof (induction data q pe rule: scan_token.induct)
  case (1 data q pe)
  then show ?case by (subst scan_token.simps) (auto dest: Suc_leD)
qed

text \<open>The loop of \<^verbatim>\<open>s_header_field\<close>: it stops at the end of the data or at the first character
  that is no token; \<open>None\<close> is a failed assertion or a read past the end.\<close>

function hf_loop :: "u32 \<Rightarrow> bytes \<Rightarrow> 'u xst \<Rightarrow> 'u xst option" where
  "hf_loop mx data x =
    (if pos x = length data then Some x
     else if pos x > length data then None
     else
       let x = x\<lparr>cur_ch := data ! pos x\<rparr>; c = TOKEN (data ! pos x) in
       if c = NUL then Some x
       else if p_header_state (prs x) = h_general then
         hf_loop mx data
           (x\<lparr>pos := Suc (scan_token data (pos x) (pos x + min (length data - pos x) (unat mx)))\<rparr>)
       else
         case hf_char (data ! pos x) c (prs x) of
           None \<Rightarrow> None
         | Some P \<Rightarrow> hf_loop mx data (x\<lparr>prs := P, pos := Suc (pos x)\<rparr>))"
  by pat_completeness auto
termination
proof (relation "measure (\<lambda>(mx, data, x). length data - pos x)", goal_cases)
  case 1
  show ?case by simp
next
  case (2 mx data x xa c)
  then show ?case using scan_token_ge [of "pos x" data "pos x + min (length data - pos x) (unat mx)"]
    by simp
next
  case (3 mx data x xa c P)
  then show ?case by simp
qed

declare hf_loop.simps [simp del]

definition exec_header_field ::
  "'u http_parser_settings \<Rightarrow> u32 \<Rightarrow> bytes \<Rightarrow> 'u xst \<Rightarrow> 'u step" where
  "exec_header_field S mx data x =
    (let start = pos x in
     case hf_loop mx data x of
       None \<Rightarrow> Abort
     | Some x \<Rightarrow>
         if pos x = length data then
           (let x = x\<lparr>pos := pos x - 1\<rparr> in COUNT_HEADER_SIZE mx (pos x - start) x Next)
         else
           COUNT_HEADER_SIZE mx (pos x - start) x (\<lambda>x.
             if cur_ch x = CHR '':'' then
               CALLBACK_DATA S data M_header_field (UPDATE_STATE s_header_value_discard_ws x) Next
             else fail HPE_INVALID_HEADER_TOKEN x))"

section \<open>Header values\<close>

text \<open>\<^verbatim>\<open>s_header_value_start\<close>: the first character of a value selects what the value is matched
  against.\<close>

definition exec_header_value_start :: "'u xst \<Rightarrow> 'u step" where
  "exec_header_value_start x =
    (let ch = cur_ch x; c = LOWER ch;
         x = upd_prs (\<lambda>P. P\<lparr>p_index := 0\<rparr>) (UPDATE_STATE s_header_value (MARK M_header_value x));
         P = prs x;
         hs = (\<lambda>h. Next (upd_prs (\<lambda>P. P\<lparr>p_header_state := h\<rparr>) x))
     in case p_header_state P of
       h_upgrade \<Rightarrow>
         Next (upd_prs (\<lambda>P. P\<lparr>p_flags := p_flags P OR F_UPGRADE, p_header_state := h_general\<rparr>) x)
     | h_transfer_encoding \<Rightarrow>
         hs (if c = CHR ''c'' then h_matching_transfer_encoding_chunked
             else h_matching_transfer_encoding_token)
     | h_matching_transfer_encoding_token_start \<Rightarrow> Next x
     | h_content_length \<Rightarrow>
         if \<not> IS_NUM ch then fail HPE_INVALID_CONTENT_LENGTH x
         else if has_flag (p_flags P) F_CONTENTLENGTH then fail HPE_UNEXPECTED_CONTENT_LENGTH x
         else Next (upd_prs (\<lambda>P. P\<lparr>p_flags := p_flags P OR F_CONTENTLENGTH,
                content_length := of_nat (digit_val ch), p_header_state := h_content_length_num\<rparr>) x)
     | h_content_length_ws \<Rightarrow> Next x
     | h_connection \<Rightarrow>
         hs (if c = CHR ''k'' then h_matching_connection_keep_alive
             else if c = CHR ''c'' then h_matching_connection_close
             else if c = CHR ''u'' then h_matching_connection_upgrade
             else h_matching_connection_token)
     | h_matching_connection_token_start \<Rightarrow> Next x
     | _ \<Rightarrow> hs h_general)"

definition exec_header_value_discard_ws :: "'u xst \<Rightarrow> 'u step" where
  "exec_header_value_discard_ws x =
    (if cur_ch x = SP \<or> cur_ch x = HT then Next x
     else if cur_ch x = CR then Next (UPDATE_STATE s_header_value_discard_ws_almost_done x)
     else if cur_ch x = LF then Next (UPDATE_STATE s_header_value_discard_lws x)
     else exec_header_value_start x)"

text \<open>The inner switch of \<^verbatim>\<open>s_header_value\<close> on the local \<^verbatim>\<open>h_state\<close>, for every state but
  \<^verbatim>\<open>h_general\<close>.\<close>

datatype hv_result =
  Hv_ok header_states http_parser | Hv_err http_errno header_states http_parser | Hv_assert

definition hv_content_length_num :: "char \<Rightarrow> http_parser \<Rightarrow> hv_result" where
  "hv_content_length_num ch P =
    (if ch = SP then Hv_ok h_content_length_ws P
     else if \<not> IS_NUM ch then Hv_err HPE_INVALID_CONTENT_LENGTH h_content_length_num P
     else
       let t = content_length P * 10 + of_nat (digit_val ch) in
       if (ULLONG_MAX - 10) div 10 < content_length P
       then Hv_err HPE_INVALID_CONTENT_LENGTH h_content_length_num P
       else Hv_ok h_content_length_num (P\<lparr>content_length := t\<rparr>))"

text \<open>The token lists of \<^verbatim>\<open>Transfer-Encoding\<close>.\<close>

definition hv_transfer_encoding :: "header_states \<Rightarrow> char \<Rightarrow> char \<Rightarrow> http_parser \<Rightarrow> hv_result" where
  "hv_transfer_encoding h ch c P =
    (case h of
       h_matching_transfer_encoding_token_start \<Rightarrow>
         Hv_ok (if c = CHR ''c'' then h_matching_transfer_encoding_chunked
                else if STRICT_TOKEN c \<noteq> NUL then h_matching_transfer_encoding_token
                else if c = SP \<or> c = HT then h
                else h_general) P
     | h_matching_transfer_encoding_chunked \<Rightarrow>
         (let i = p_index P + 1 in
          Hv_ok (match_step ''chunked'' h h_matching_transfer_encoding_token
                   h_transfer_encoding_chunked c i) (P\<lparr>p_index := i\<rparr>))
     | h_matching_transfer_encoding_token \<Rightarrow>
         if ch = CHR '','' then
           Hv_ok h_matching_transfer_encoding_token_start (P\<lparr>p_index := 0\<rparr>)
         else Hv_ok h P
     | _ \<Rightarrow> Hv_ok (if ch \<noteq> SP then h_matching_transfer_encoding_token else h) P)"

text \<open>The token lists of \<^verbatim>\<open>Connection\<close>.\<close>

definition hv_connection :: "header_states \<Rightarrow> char \<Rightarrow> char \<Rightarrow> http_parser \<Rightarrow> hv_result" where
  "hv_connection h ch c P =
    (let i = p_index P + 1 in
     case h of
       h_matching_connection_token_start \<Rightarrow>
         Hv_ok (if c = CHR ''k'' then h_matching_connection_keep_alive
                else if c = CHR ''c'' then h_matching_connection_close
                else if c = CHR ''u'' then h_matching_connection_upgrade
                else if STRICT_TOKEN c \<noteq> NUL then h_matching_connection_token
                else if c = SP \<or> c = HT then h
                else h_general) P
     | h_matching_connection_keep_alive \<Rightarrow>
         Hv_ok (match_step ''keep-alive'' h h_matching_connection_token h_connection_keep_alive c i)
           (P\<lparr>p_index := i\<rparr>)
     | h_matching_connection_close \<Rightarrow>
         Hv_ok (match_step ''close'' h h_matching_connection_token h_connection_close c i)
           (P\<lparr>p_index := i\<rparr>)
     | h_matching_connection_upgrade \<Rightarrow>
         Hv_ok (match_step ''upgrade'' h h_matching_connection_token h_connection_upgrade c i)
           (P\<lparr>p_index := i\<rparr>)
     | h_matching_connection_token \<Rightarrow>
         if ch = CHR '','' then Hv_ok h_matching_connection_token_start (P\<lparr>p_index := 0\<rparr>)
         else Hv_ok h P
     | _ \<Rightarrow>
         if ch = CHR '','' then
           Hv_ok h_matching_connection_token_start
             (P\<lparr>p_index := 0, p_flags := p_flags P OR
                 (if h = h_connection_keep_alive then F_CONNECTION_KEEP_ALIVE
                  else if h = h_connection_close then F_CONNECTION_CLOSE
                  else F_CONNECTION_UPGRADE)\<rparr>)
         else Hv_ok (if ch \<noteq> SP then h_matching_connection_token else h) P)"

definition hv_char :: "header_states \<Rightarrow> char \<Rightarrow> http_parser \<Rightarrow> hv_result" where
  "hv_char h ch P =
    (let c = LOWER ch in
     if h \<in> {h_connection, h_transfer_encoding} then Hv_assert
     else if h = h_content_length then
       if ch = SP then Hv_ok h P else hv_content_length_num ch P
     else if h = h_content_length_num then hv_content_length_num ch P
     else if h = h_content_length_ws then
       if ch = SP then Hv_ok h P else Hv_err HPE_INVALID_CONTENT_LENGTH h P
     else if h \<in> {h_matching_transfer_encoding_token_start, h_matching_transfer_encoding_chunked,
                  h_matching_transfer_encoding_token, h_transfer_encoding_chunked} then
       hv_transfer_encoding h ch c P
     else if h \<in> {h_matching_connection_token_start, h_matching_connection_keep_alive,
                  h_matching_connection_close, h_matching_connection_upgrade,
                  h_matching_connection_token, h_connection_keep_alive, h_connection_close,
                  h_connection_upgrade} then
       hv_connection h ch c P
     else Hv_ok h_general P)"

text \<open>The fast loop of \<^verbatim>\<open>h_general\<close> up to \<open>pe\<close>: \<open>Inl\<close> is the position of an invalid character,
  \<open>Inr\<close> the value of \<^verbatim>\<open>p\<close> when the loop is left.\<close>

function hv_scan :: "bool \<Rightarrow> bytes \<Rightarrow> nat \<Rightarrow> nat \<Rightarrow> nat + nat" where
  "hv_scan len data q pe =
    (if q \<ge> pe then Inr q
     else if data ! q = CR \<or> data ! q = LF then Inr (q - 1)
     else if \<not> len \<and> \<not> IS_HEADER_CHAR (data ! q) then Inl q
     else hv_scan len data (q + 1) pe)"
  by pat_completeness auto
termination
  by (relation "measure (\<lambda>(len, data, q, pe). pe - q)") auto

declare hv_scan.simps [simp del]

lemma hv_scan_ge_aux: "hv_scan len data q pe = Inr r \<Longrightarrow> q - 1 \<le> r"
proof (induction len data q pe rule: hv_scan.induct)
  case (1 len data q pe)
  show ?case
    using "1.prems" "1.IH"
    by (subst (asm) hv_scan.simps) (fastforce split: if_splits)
qed

lemma hv_scan_ge:
  assumes "hv_scan len data q pe = Inr r" "data ! q \<noteq> CR" "data ! q \<noteq> LF"
  shows "q \<le> r"
  using assms hv_scan_ge_aux [of len data "q + 1" pe r]
  by (subst (asm) hv_scan.simps) (auto split: if_splits)

text \<open>The code after the loop of \<^verbatim>\<open>s_header_value\<close>.\<close>

definition hv_finish :: "u32 \<Rightarrow> bytes \<Rightarrow> nat \<Rightarrow> header_states \<Rightarrow> 'u xst \<Rightarrow> 'u step" where
  "hv_finish mx data start h x =
    (let x = upd_prs (\<lambda>P. P\<lparr>p_header_state := h\<rparr>) x;
         x = (if pos x = length data then x\<lparr>pos := pos x - 1\<rparr> else x)
     in COUNT_HEADER_SIZE mx (pos x - start) x Next)"

text \<open>The loop of \<^verbatim>\<open>s_header_value\<close>; \<open>start\<close> is the position it began at.  (The fast loop also
  advances \<^verbatim>\<open>ch\<close>, which is read again before every use.)\<close>

function hv_loop :: "'u http_parser_settings \<Rightarrow> u32 \<Rightarrow> bytes \<Rightarrow> nat \<Rightarrow> header_states \<Rightarrow> 'u xst
    \<Rightarrow> 'u step" where
  "hv_loop S mx data start h x =
    (if pos x = length data then hv_finish mx data start h x
     else if pos x > length data then Abort
     else
       let ch = data ! pos x; x = x\<lparr>cur_ch := ch\<rparr>;
           set_h = (\<lambda>h x. upd_prs (\<lambda>P. P\<lparr>p_header_state := h\<rparr>) x)
       in if ch = CR then
            CALLBACK_DATA S data M_header_value (set_h h (UPDATE_STATE s_header_almost_done x))
              (hv_finish mx data start h)
          else if ch = LF then
            COUNT_HEADER_SIZE mx (pos x - start) (UPDATE_STATE s_header_almost_done x) (\<lambda>x.
              CALLBACK_DATA_NOADVANCE S data M_header_value (set_h h x) Reexecute)
          else if \<not> lenient x \<and> \<not> IS_HEADER_CHAR ch then fail HPE_INVALID_HEADER_TOKEN x
          else if h = h_general then
            (case hv_scan (lenient x) data (pos x) (pos x + min (length data - pos x) (unat mx)) of
               Inl q \<Rightarrow> fail HPE_INVALID_HEADER_TOKEN (x\<lparr>pos := q\<rparr>)
             | Inr q \<Rightarrow> hv_loop S mx data start h
                 (x\<lparr>pos := Suc (if q = length data then q - 1 else q)\<rparr>))
          else
            (case hv_char h ch (prs x) of
               Hv_assert \<Rightarrow> Abort
             | Hv_err e h' P \<Rightarrow> goto_error (set_h h' (SET_ERRNO e (x\<lparr>prs := P\<rparr>)))
             | Hv_ok h' P \<Rightarrow> hv_loop S mx data start h' (x\<lparr>prs := P, pos := Suc (pos x)\<rparr>)))"
  by pat_completeness auto
termination
proof (relation "measure (\<lambda>(S, mx, data, start, h, x). length data - pos x)", goal_cases)
  case 1
  show ?case by simp
next
  case (2 S mx data start h x ch xa set_h q)
  then have "pos x \<le> q" using hv_scan_ge by force
  with 2 show ?case by auto
next
  case (3 S mx data start h x ch xa set_h h' P)
  then show ?case by simp
qed

declare hv_loop.simps [simp del]

definition exec_header_value ::
  "'u http_parser_settings \<Rightarrow> u32 \<Rightarrow> bytes \<Rightarrow> 'u xst \<Rightarrow> 'u step" where
  "exec_header_value S mx data x = hv_loop S mx data (pos x) (p_header_state (prs x)) x"

definition exec_header_almost_done :: "'u xst \<Rightarrow> 'u step" where
  "exec_header_almost_done x =
    (if cur_ch x \<noteq> LF then fail HPE_LF_EXPECTED x else Next (UPDATE_STATE s_header_value_lws x))"

text \<open>What a finished header value adds to the flags.\<close>

definition header_flags :: "header_states \<Rightarrow> u8" where
  "header_flags h =
    (case h of
       h_connection_keep_alive \<Rightarrow> F_CONNECTION_KEEP_ALIVE
     | h_connection_close \<Rightarrow> F_CONNECTION_CLOSE
     | h_transfer_encoding_chunked \<Rightarrow> F_CHUNKED
     | h_connection_upgrade \<Rightarrow> F_CONNECTION_UPGRADE
     | _ \<Rightarrow> 0)"

definition exec_header_value_lws :: "'u xst \<Rightarrow> 'u step" where
  "exec_header_value_lws x =
    (if cur_ch x = SP \<or> cur_ch x = HT then
       Reexecute (UPDATE_STATE s_header_value_start (upd_prs (\<lambda>P.
         if p_header_state P = h_content_length_num then P\<lparr>p_header_state := h_content_length_ws\<rparr>
         else P) x))
     else
       Reexecute (UPDATE_STATE s_header_field_start (upd_prs (\<lambda>P.
         P\<lparr>p_flags := p_flags P OR header_flags (p_header_state P)\<rparr>) x)))"

definition exec_header_value_discard_lws ::
  "'u http_parser_settings \<Rightarrow> bytes \<Rightarrow> 'u xst \<Rightarrow> 'u step" where
  "exec_header_value_discard_lws S data x =
    (if cur_ch x = SP \<or> cur_ch x = HT then Next (UPDATE_STATE s_header_value_discard_ws x)
     else if p_header_state (prs x) = h_content_length then fail HPE_INVALID_CONTENT_LENGTH x
     else
       let x = upd_prs (\<lambda>P. P\<lparr>p_flags := p_flags P OR header_flags (p_header_state P)\<rparr>) x
       in CALLBACK_DATA_NOADVANCE S data M_header_value
            (UPDATE_STATE s_header_field_start (MARK M_header_value x)) Reexecute)"

section \<open>End of the headers\<close>

text \<open>The result of \<^verbatim>\<open>on_headers_complete\<close> decides about the body; a value other than 0, 1 or 2 is
  an error.  (The parser's \<^verbatim>\<open>state\<close> field is not set before this callback.)\<close>

definition exec_headers_complete :: "'u http_parser_settings \<Rightarrow> 'u xst \<Rightarrow> 'u step" where
  "exec_headers_complete S x =
    (case on_headers_complete S of
       None \<Rightarrow> if http_errno (prs x) \<noteq> HPE_OK then RETURN (pos x) x else Reexecute x
     | Some f \<Rightarrow>
         (case f (prs x) (usr x) of (r, P, u) \<Rightarrow>
            let x = x\<lparr>prs := P, usr := u\<rparr> in
            if r \<notin> {0, 1, 2} then RETURN (pos x) (SET_ERRNO HPE_CB_headers_complete x)
            else
              let x = (if r = 0 then x
                       else upd_prs (\<lambda>P. P\<lparr>upgrade := (r = 2 \<or> upgrade P),
                              p_flags := p_flags P OR F_SKIPBODY\<rparr>) x)
              in if http_errno (prs x) \<noteq> HPE_OK then RETURN (pos x) x else Reexecute x))"

definition exec_headers_almost_done :: "'u http_parser_settings \<Rightarrow> 'u xst \<Rightarrow> 'u step" where
  "exec_headers_almost_done S x =
    STRICT_CHECK (cur_ch x \<noteq> LF) x
      (if has_flag (p_flags (prs x)) F_TRAILING then
         CALLBACK_NOTIFY_NOADVANCE (on_chunk_complete S) HPE_CB_chunk_complete
           (UPDATE_STATE s_message_done x) Reexecute
       else if uses_transfer_encoding (prs x) \<and> has_flag (p_flags (prs x)) F_CONTENTLENGTH \<and>
               (if has_flag (p_flags (prs x)) F_CHUNKED then \<not> allow_chunked x else \<not> lenient x)
       then fail HPE_UNEXPECTED_CONTENT_LENGTH x
       else
         exec_headers_complete S (UPDATE_STATE s_headers_done (upd_prs (\<lambda>P.
           P\<lparr>upgrade :=
              (if has_flag (p_flags P) F_UPGRADE \<and> has_flag (p_flags P) F_CONNECTION_UPGRADE
               then p_type P = HTTP_REQUEST \<or> status_code P = 101
               else p_method P = HTTP_CONNECT)\<rparr>) x)))"

definition exec_headers_done :: "'u http_parser_settings \<Rightarrow> 'u xst \<Rightarrow> 'u step" where
  "exec_headers_done S x =
    STRICT_CHECK (cur_ch x \<noteq> LF) x
      (let x = upd_prs (\<lambda>P. P\<lparr>p_nread := 0\<rparr>) (x\<lparr>nread := 0\<rparr>);
           P = prs x;
           hasBody = (has_flag (p_flags P) F_CHUNKED \<or>
                      content_length P > 0 \<and> content_length P \<noteq> ULLONG_MAX);
           new_message = (\<lambda>k. CALLBACK_NOTIFY (on_message_complete S) HPE_CB_message_complete
                            (UPDATE_STATE (NEW_MESSAGE P) x) k)
       in if upgrade P \<and>
             (p_method P = HTTP_CONNECT \<or> has_flag (p_flags P) F_SKIPBODY \<or> \<not> hasBody)
          then new_message (\<lambda>x. RETURN (pos x + 1) x)
          else if has_flag (p_flags P) F_SKIPBODY then new_message Next
          else if has_flag (p_flags P) F_CHUNKED then Next (UPDATE_STATE s_chunk_size_start x)
          else if uses_transfer_encoding P then
            if p_type P = HTTP_REQUEST \<and> \<not> lenient x
            then RETURN (pos x) (SET_ERRNO HPE_INVALID_TRANSFER_ENCODING x)
            else Next (UPDATE_STATE s_body_identity_eof x)
          else if content_length P = 0 then new_message Next
          else if content_length P \<noteq> ULLONG_MAX then Next (UPDATE_STATE s_body_identity x)
          else if \<not> http_message_needs_eof P then new_message Next
          else Next (UPDATE_STATE s_body_identity_eof x))"

section \<open>Message body\<close>

text \<open>\<^verbatim>\<open>MIN(parser->content_length, (uint64_t)((data + len) - p))\<close>.\<close>

definition to_read :: "bytes \<Rightarrow> 'u xst \<Rightarrow> nat" where
  "to_read data x = min (unat (content_length (prs x))) (length data - pos x)"

text \<open>Take \<^verbatim>\<open>to_read\<close> bytes of the body; \<^verbatim>\<open>p\<close> stays on the last of them.\<close>

definition take_body :: "bytes \<Rightarrow> 'u xst \<Rightarrow> 'u xst" where
  "take_body data x =
    (let n = to_read data x;
         x = upd_prs (\<lambda>P. P\<lparr>content_length := content_length P - of_nat n\<rparr>) (MARK M_body x)
     in x\<lparr>pos := pos x + n - 1\<rparr>)"

definition exec_body_identity :: "'u http_parser_settings \<Rightarrow> bytes \<Rightarrow> 'u xst \<Rightarrow> 'u step" where
  "exec_body_identity S data x =
    (if content_length (prs x) = 0 \<or> content_length (prs x) = ULLONG_MAX then Abort
     else
       let x = take_body data x in
       if content_length (prs x) = 0 then
         CALLBACK_DATA_gen S data M_body (pos x + 1) (pos x) (UPDATE_STATE s_message_done x) Reexecute
       else Next x)"

definition exec_body_identity_eof :: "bytes \<Rightarrow> 'u xst \<Rightarrow> 'u step" where
  "exec_body_identity_eof data x = Next ((MARK M_body x)\<lparr>pos := length data - 1\<rparr>)"

definition exec_message_done :: "'u http_parser_settings \<Rightarrow> 'u xst \<Rightarrow> 'u step" where
  "exec_message_done S x =
    CALLBACK_NOTIFY (on_message_complete S) HPE_CB_message_complete
      (UPDATE_STATE (NEW_MESSAGE (prs x)) x)
      (\<lambda>x. if upgrade (prs x) then RETURN (pos x + 1) x else Next x)"

definition exec_chunk_size_start :: "'u xst \<Rightarrow> 'u step" where
  "exec_chunk_size_start x =
    (if nread x \<noteq> 1 \<or> \<not> has_flag (p_flags (prs x)) F_CHUNKED then Abort
     else if unhex (cur_ch x) = - 1 then fail HPE_INVALID_CHUNK_SIZE x
     else Next (UPDATE_STATE s_chunk_size
            (upd_prs (\<lambda>P. P\<lparr>content_length := of_int (unhex (cur_ch x))\<rparr>) x)))"

definition exec_chunk_size :: "'u xst \<Rightarrow> 'u step" where
  "exec_chunk_size x =
    (if \<not> has_flag (p_flags (prs x)) F_CHUNKED then Abort
     else if cur_ch x = CR then Next (UPDATE_STATE s_chunk_size_almost_done x)
     else if unhex (cur_ch x) = - 1 then
       if cur_ch x = CHR '';'' \<or> cur_ch x = SP then Next (UPDATE_STATE s_chunk_parameters x)
       else fail HPE_INVALID_CHUNK_SIZE x
     else
       let t = content_length (prs x) * 16 + of_int (unhex (cur_ch x)) in
       if (ULLONG_MAX - 16) div 16 < content_length (prs x) then fail HPE_INVALID_CONTENT_LENGTH x
       else Next (upd_prs (\<lambda>P. P\<lparr>content_length := t\<rparr>) x))"

definition exec_chunk_parameters :: "'u xst \<Rightarrow> 'u step" where
  "exec_chunk_parameters x =
    (if \<not> has_flag (p_flags (prs x)) F_CHUNKED then Abort
     else if cur_ch x = CR then Next (UPDATE_STATE s_chunk_size_almost_done x)
     else Next x)"

definition exec_chunk_size_almost_done :: "'u http_parser_settings \<Rightarrow> 'u xst \<Rightarrow> 'u step" where
  "exec_chunk_size_almost_done S x =
    (if \<not> has_flag (p_flags (prs x)) F_CHUNKED then Abort
     else STRICT_CHECK (cur_ch x \<noteq> LF) x
       (let x = upd_prs (\<lambda>P. P\<lparr>p_nread := 0\<rparr>) (x\<lparr>nread := 0\<rparr>);
            x = (if content_length (prs x) = 0
                 then UPDATE_STATE s_header_field_start
                        (upd_prs (\<lambda>P. P\<lparr>p_flags := p_flags P OR F_TRAILING\<rparr>) x)
                 else UPDATE_STATE s_chunk_data x)
        in CALLBACK_NOTIFY (on_chunk_header S) HPE_CB_chunk_header x Next))"

definition exec_chunk_data :: "bytes \<Rightarrow> 'u xst \<Rightarrow> 'u step" where
  "exec_chunk_data data x =
    (if \<not> has_flag (p_flags (prs x)) F_CHUNKED \<or> content_length (prs x) = 0 \<or>
        content_length (prs x) = ULLONG_MAX then Abort
     else
       let x = take_body data x in
       if content_length (prs x) = 0 then Next (UPDATE_STATE s_chunk_data_almost_done x)
       else Next x)"

definition exec_chunk_data_almost_done ::
  "'u http_parser_settings \<Rightarrow> bytes \<Rightarrow> 'u xst \<Rightarrow> 'u step" where
  "exec_chunk_data_almost_done S data x =
    (if \<not> has_flag (p_flags (prs x)) F_CHUNKED \<or> content_length (prs x) \<noteq> 0 then Abort
     else STRICT_CHECK (cur_ch x \<noteq> CR) x
       (CALLBACK_DATA S data M_body (UPDATE_STATE s_chunk_data_done x) Next))"

definition exec_chunk_data_done :: "'u http_parser_settings \<Rightarrow> 'u xst \<Rightarrow> 'u step" where
  "exec_chunk_data_done S x =
    (if \<not> has_flag (p_flags (prs x)) F_CHUNKED then Abort
     else STRICT_CHECK (cur_ch x \<noteq> LF) x
       (CALLBACK_NOTIFY (on_chunk_complete S) HPE_CB_chunk_complete
          (UPDATE_STATE s_chunk_size_start
             (upd_prs (\<lambda>P. P\<lparr>p_nread := 0\<rparr>) (x\<lparr>nread := 0\<rparr>))) Next))"

section \<open>The switch and the loop\<close>

definition exec_switch ::
  "'u http_parser_settings \<Rightarrow> u32 \<Rightarrow> bytes \<Rightarrow> 'u xst \<Rightarrow> 'u step" where
  "exec_switch S mx data x =
    (case cst x of
       s_dead \<Rightarrow> exec_dead x
     | s_start_req_or_res \<Rightarrow> exec_start_req_or_res S x
     | s_res_or_resp_H \<Rightarrow> exec_res_or_resp_H x
     | s_start_res \<Rightarrow> exec_start_res S x
     | s_res_H \<Rightarrow> exec_expect CHR ''T'' s_res_HT x
     | s_res_HT \<Rightarrow> exec_expect CHR ''T'' s_res_HTT x
     | s_res_HTT \<Rightarrow> exec_expect CHR ''P'' s_res_HTTP x
     | s_res_HTTP \<Rightarrow> exec_expect CHR ''/'' s_res_http_major x
     | s_res_http_major \<Rightarrow> exec_http_major s_res_http_dot x
     | s_res_http_dot \<Rightarrow> exec_http_dot s_res_http_minor x
     | s_res_http_minor \<Rightarrow> exec_http_minor s_res_http_end x
     | s_res_http_end \<Rightarrow> exec_res_http_end x
     | s_res_first_status_code \<Rightarrow> exec_res_first_status_code x
     | s_res_status_code \<Rightarrow> exec_res_status_code x
     | s_res_status_start \<Rightarrow> exec_res_status_start x
     | s_res_status \<Rightarrow> exec_res_status S data x
     | s_res_line_almost_done \<Rightarrow> exec_expect LF s_header_field_start x
     | s_start_req \<Rightarrow> exec_start_req S x
     | s_req_method \<Rightarrow> exec_req_method x
     | s_req_spaces_before_url \<Rightarrow> exec_req_spaces_before_url x
     | s_req_schema \<Rightarrow> exec_req_schema x
     | s_req_schema_slash \<Rightarrow> exec_req_schema x
     | s_req_schema_slash_slash \<Rightarrow> exec_req_schema x
     | s_req_server_start \<Rightarrow> exec_req_schema x
     | s_req_server \<Rightarrow> exec_req_url S data x
     | s_req_server_with_at \<Rightarrow> exec_req_url S data x
     | s_req_path \<Rightarrow> exec_req_url S data x
     | s_req_query_string_start \<Rightarrow> exec_req_url S data x
     | s_req_query_string \<Rightarrow> exec_req_url S data x
     | s_req_fragment_start \<Rightarrow> exec_req_url S data x
     | s_req_fragment \<Rightarrow> exec_req_url S data x
     | s_req_http_start \<Rightarrow> exec_req_http_start x
     | s_req_http_H \<Rightarrow> exec_expect CHR ''T'' s_req_http_HT x
     | s_req_http_HT \<Rightarrow> exec_expect CHR ''T'' s_req_http_HTT x
     | s_req_http_HTT \<Rightarrow> exec_expect CHR ''P'' s_req_http_HTTP x
     | s_req_http_I \<Rightarrow> exec_expect CHR ''C'' s_req_http_IC x
     | s_req_http_IC \<Rightarrow> exec_expect CHR ''E'' s_req_http_HTTP x
     | s_req_http_HTTP \<Rightarrow> exec_expect CHR ''/'' s_req_http_major x
     | s_req_http_major \<Rightarrow> exec_http_major s_req_http_dot x
     | s_req_http_dot \<Rightarrow> exec_http_dot s_req_http_minor x
     | s_req_http_minor \<Rightarrow> exec_http_minor s_req_http_end x
     | s_req_http_end \<Rightarrow> exec_req_http_end x
     | s_req_line_almost_done \<Rightarrow> exec_req_line_almost_done x
     | s_header_field_start \<Rightarrow> exec_header_field_start x
     | s_header_field \<Rightarrow> exec_header_field S mx data x
     | s_header_value_discard_ws \<Rightarrow> exec_header_value_discard_ws x
     | s_header_value_discard_ws_almost_done \<Rightarrow> exec_expect LF s_header_value_discard_lws x
     | s_header_value_discard_lws \<Rightarrow> exec_header_value_discard_lws S data x
     | s_header_value_start \<Rightarrow> exec_header_value_start x
     | s_header_value \<Rightarrow> exec_header_value S mx data x
     | s_header_value_lws \<Rightarrow> exec_header_value_lws x
     | s_header_almost_done \<Rightarrow> exec_header_almost_done x
     | s_chunk_size_start \<Rightarrow> exec_chunk_size_start x
     | s_chunk_size \<Rightarrow> exec_chunk_size x
     | s_chunk_parameters \<Rightarrow> exec_chunk_parameters x
     | s_chunk_size_almost_done \<Rightarrow> exec_chunk_size_almost_done S x
     | s_headers_almost_done \<Rightarrow> exec_headers_almost_done S x
     | s_headers_done \<Rightarrow> exec_headers_done S x
     | s_chunk_data \<Rightarrow> exec_chunk_data data x
     | s_chunk_data_almost_done \<Rightarrow> exec_chunk_data_almost_done S data x
     | s_chunk_data_done \<Rightarrow> exec_chunk_data_done S x
     | s_body_identity \<Rightarrow> exec_body_identity S data x
     | s_body_identity_eof \<Rightarrow> exec_body_identity_eof data x
     | s_message_done \<Rightarrow> exec_message_done S x)"

text \<open>\<^verbatim>\<open>goto reexecute\<close>: the switch is entered again with the new state.  A callback that rewrites
  the parser's state could keep this going for ever, so the number of rounds is bounded by a fuel;
  running out of it is \<open>Diverge\<close>.\<close>

fun exec_reexecute ::
  "nat \<Rightarrow> 'u http_parser_settings \<Rightarrow> u32 \<Rightarrow> bytes \<Rightarrow> 'u xst \<Rightarrow> 'u step" where
  "exec_reexecute 0 S mx data x = Diverge"
| "exec_reexecute (Suc n) S mx data x =
    (case exec_switch S mx data x of
       Reexecute x' \<Rightarrow> exec_reexecute n S mx data x'
     | r \<Rightarrow> r)"

definition reexecute_fuel :: nat where
  "reexecute_fuel = 4"

text \<open>After the last byte: at most one mark may be left, and its data is delivered.\<close>

definition exec_leftover :: "'u http_parser_settings \<Rightarrow> bytes \<Rightarrow> 'u xst \<Rightarrow> 'u step" where
  "exec_leftover S data x =
    (if length (filter (\<lambda>m. marks x m \<noteq> None)
          [M_header_field, M_header_value, M_url, M_body, M_status]) > 1 then Abort
     else
       CALLBACK_DATA_NOADVANCE S data M_header_field x (\<lambda>x.
       CALLBACK_DATA_NOADVANCE S data M_header_value x (\<lambda>x.
       CALLBACK_DATA_NOADVANCE S data M_url x (\<lambda>x.
       CALLBACK_DATA_NOADVANCE S data M_body x (\<lambda>x.
       CALLBACK_DATA_NOADVANCE S data M_status x (\<lambda>x.
       RETURN (length data) x))))))"

text \<open>The loop over the bytes; each round consumes at least one of them, so the number of bytes is
  enough fuel.\<close>

fun exec_loop ::
  "nat \<Rightarrow> 'u http_parser_settings \<Rightarrow> u32 \<Rightarrow> bytes \<Rightarrow> 'u xst \<Rightarrow> 'u step" where
  "exec_loop fuel S mx data x =
    (if pos x = length data then exec_leftover S data x
     else if pos x > length data then Abort
     else case fuel of
         0 \<Rightarrow> Diverge
       | Suc n \<Rightarrow>
           let x = x\<lparr>cur_ch := data ! pos x\<rparr>;
               body = (\<lambda>x. case exec_reexecute reexecute_fuel S mx data x of
                        Next x' \<Rightarrow> exec_loop n S mx data (x'\<lparr>pos := Suc (pos x')\<rparr>)
                      | r \<Rightarrow> r)
           in if PARSING_HEADER (cst x) then COUNT_HEADER_SIZE mx 1 x body else body x)"

declare exec_loop.simps [simp del]

text \<open>The marks that are set when a call starts in the middle of a token.\<close>

definition initial_marks :: "state \<Rightarrow> mark \<rightharpoonup> nat" where
  "initial_marks s =
    (if s = s_header_field then [M_header_field \<mapsto> 0]
     else if s = s_header_value then [M_header_value \<mapsto> 0]
     else if s \<in> {s_req_path, s_req_schema, s_req_schema_slash, s_req_schema_slash_slash,
                  s_req_server_start, s_req_server, s_req_server_with_at, s_req_query_string_start,
                  s_req_query_string, s_req_fragment_start, s_req_fragment} then [M_url \<mapsto> 0]
     else if s = s_res_status then [M_status \<mapsto> 0]
     else Map.empty)"

definition initial_xst :: "http_parser \<Rightarrow> 'u \<Rightarrow> 'u xst" where
  "initial_xst P u =
    \<lparr>prs = P, usr = u, cst = p_state P, nread = p_nread P, pos = 0, cur_ch = NUL,
     marks = initial_marks (p_state P), lenient = lenient_http_headers P,
     allow_chunked = allow_chunked_length P\<rparr>"

definition http_parser_execute ::
  "'u http_parser_settings \<Rightarrow> u32 \<Rightarrow> http_parser \<Rightarrow> 'u \<Rightarrow> bytes \<Rightarrow> 'u step" where
  "http_parser_execute S mx P u data =
    (let x = initial_xst P u in
     if http_errno P \<noteq> HPE_OK then Return 0 P u
     else if data = [] then
       if p_state P = s_body_identity_eof then
         CALLBACK_NOTIFY_NOADVANCE (on_message_complete S) HPE_CB_message_complete x
           (\<lambda>x. Return 0 (prs x) (usr x))
       else if p_state P \<in> {s_dead, s_start_req_or_res, s_start_res, s_start_req} then Return 0 P u
       else Return 1 (prs (SET_ERRNO HPE_INVALID_EOF_STATE x)) u
     else exec_loop (length data) S mx data x)"

definition HTTP_MAX_HEADER_SIZE :: u32 where
  "HTTP_MAX_HEADER_SIZE = 80 * 1024"

end
