(* ===== verification/HttpInvariant.thy ===== *)
theory HttpInvariant
  imports HttpExecute
begin

text \<open>
  The invariant of the message parser and its preservation by the macros and by the states of the
  start line and of the first character of a header.  \<open>wf_parser\<close> is what holds of a parser object
  between two calls; \<open>loop_ok\<close> and \<open>switch_ok\<close> are its versions at the head of the byte loop and in
  the switch, where they also speak about the marks.  \<open>step_ok\<close> says that leaving a label of the
  switch keeps the invariant, stays inside the buffer, fails no assertion, re-enters the switch
  only with a smaller \<open>rank\<close>, and returns before the end of the buffer only with an error or for an
  upgrade.  The callbacks may fail or pause the parser (\<open>cbs_ok\<close>) but not
  rewrite it.
\<close>

section \<open>Callbacks that leave the parser alone\<close>

definition cb_ok :: "'u http_cb option \<Rightarrow> bool" where
  "cb_ok cb \<longleftrightarrow> (\<forall>f P u r P' u'. cb = Some f \<longrightarrow> f P u = (r, P', u') \<longrightarrow>
     P' = P \<or> P' = P\<lparr>http_errno := HPE_PAUSED\<rparr>)"

definition cbs_ok :: "'u http_parser_settings \<Rightarrow> bool" where
  "cbs_ok S \<longleftrightarrow> cb_ok (on_message_begin S) \<and> cb_ok (on_headers_complete S) \<and>
     cb_ok (on_message_complete S) \<and> cb_ok (on_chunk_header S) \<and> cb_ok (on_chunk_complete S) \<and>
     (\<forall>m b. cb_ok (map_option (\<lambda>f. f b) (data_cb S m)))"

lemma cb_okD:
  "cb_ok (Some f) \<Longrightarrow> f P u = (r, P', u') \<Longrightarrow> P' = P \<or> P' = P\<lparr>http_errno := HPE_PAUSED\<rparr>"
  unfolding cb_ok_def by blast

section \<open>The invariant\<close>

definition hf_states :: "header_states set" where
  "hf_states = {h_general, h_C, h_CO, h_CON, h_matching_connection, h_matching_proxy_connection,
     h_matching_content_length, h_matching_transfer_encoding, h_matching_upgrade, h_connection,
     h_content_length, h_transfer_encoding, h_upgrade}"

definition chunk_states :: "state set" where
  "chunk_states = {s_chunk_size_start, s_chunk_size, s_chunk_parameters, s_chunk_size_almost_done,
     s_chunk_data, s_chunk_data_almost_done, s_chunk_data_done}"

definition fields_ok :: "state \<Rightarrow> http_parser \<Rightarrow> bool" where
  "fields_ok s P \<longleftrightarrow>
     (s = s_req_method \<longrightarrow> unat (p_index P) \<le> length (method_strings (p_method P))) \<and>
     (s = s_header_field \<longrightarrow> p_header_state P \<in> hf_states) \<and>
     (s = s_header_value \<longrightarrow> p_header_state P \<notin> {h_connection, h_transfer_encoding}) \<and>
     (s \<in> chunk_states \<longrightarrow> has_flag (p_flags P) F_CHUNKED) \<and>
     (s \<in> {s_body_identity, s_chunk_data} \<longrightarrow> content_length P \<noteq> 0) \<and>
     (s \<in> {s_body_identity, s_chunk_size, s_chunk_parameters, s_chunk_size_almost_done,
            s_chunk_data} \<longrightarrow> content_length P \<noteq> ULLONG_MAX) \<and>
     (s = s_chunk_data_almost_done \<longrightarrow> content_length P = 0)"

definition saved_ok :: "u32 \<Rightarrow> state \<Rightarrow> http_parser \<Rightarrow> bool" where
  "saved_ok mx s P \<longleftrightarrow>
     fields_ok s P \<and> p_nread P \<le> mx \<and> (s = s_chunk_size_start \<longrightarrow> p_nread P = 0)"

definition wf_parser :: "u32 \<Rightarrow> http_parser \<Rightarrow> bool" where
  "wf_parser mx P \<longleftrightarrow> (http_errno P \<in> {HPE_OK, HPE_PAUSED} \<longrightarrow> saved_ok mx (p_state P) P)"

primrec mark_states :: "mark \<Rightarrow> state set" where
  "mark_states M_header_field = {s_header_field}"
| "mark_states M_header_value = {s_header_value}"
| "mark_states M_url = {s_req_path, s_req_schema, s_req_schema_slash, s_req_schema_slash_slash,
     s_req_server_start, s_req_server, s_req_server_with_at, s_req_query_string_start,
     s_req_query_string, s_req_fragment_start, s_req_fragment}"
| "mark_states M_body = {s_chunk_data, s_chunk_data_almost_done, s_body_identity, s_body_identity_eof}"
| "mark_states M_status = {s_res_status}"

definition marks_ok :: "state \<Rightarrow> nat \<Rightarrow> (mark \<rightharpoonup> nat) \<Rightarrow> bool" where
  "marks_ok s p mk \<longleftrightarrow> (\<forall>m a. mk m = Some a \<longrightarrow> a \<le> p \<and> s \<in> mark_states m)"

definition core_ok :: "u32 \<Rightarrow> 'u xst \<Rightarrow> bool" where
  "core_ok mx x \<longleftrightarrow> http_errno (prs x) = HPE_OK \<and> marks_ok (cst x) (pos x) (marks x) \<and>
     saved_ok mx (cst x) (prs x) \<and> nread x \<le> mx"

text \<open>At the head of the loop nothing has been counted for a chunk size; in the switch one byte has.\<close>

definition loop_ok :: "u32 \<Rightarrow> 'u xst \<Rightarrow> bool" where
  "loop_ok mx x \<longleftrightarrow> core_ok mx x \<and> (cst x = s_chunk_size_start \<longrightarrow> nread x = 0)"

definition switch_ok :: "u32 \<Rightarrow> bytes \<Rightarrow> 'u xst \<Rightarrow> bool" where
  "switch_ok mx data x \<longleftrightarrow> core_ok mx x \<and> (cst x = s_chunk_size_start \<longrightarrow> nread x = 1) \<and>
     pos x < length data"

text \<open>How often the switch can still be re-entered from a state.\<close>

definition rank :: "state \<Rightarrow> nat" where
  "rank s =
    (if s \<in> {s_header_value_lws, s_header_value_discard_lws} then 3
     else if s \<in> {s_header_field_start, s_res_status_code} then 2
     else if s \<in> {s_headers_almost_done, s_header_value, s_res_status_start, s_start_req_or_res,
                  s_body_identity} then 1
     else 0)"

definition step_ok :: "u32 \<Rightarrow> bytes \<Rightarrow> nat \<Rightarrow> nat \<Rightarrow> 'u step \<Rightarrow> bool" where
  "step_ok mx data p0 rk r \<longleftrightarrow>
    (case r of
       Next x \<Rightarrow> loop_ok mx x \<and> p0 \<le> pos x \<and> pos x < length data
     | Reexecute x \<Rightarrow> switch_ok mx data x \<and> p0 \<le> pos x \<and> rank (cst x) < rk
     | Return n P u \<Rightarrow> n \<le> length data \<and> wf_parser mx P \<and>
         (http_errno P = HPE_OK \<longrightarrow> n = length data \<or> upgrade P)
     | Abort \<Rightarrow> False
     | Diverge \<Rightarrow> False)"

lemmas ok_defs = fields_ok_def saved_ok_def core_ok_def loop_ok_def switch_ok_def chunk_states_def

section \<open>The macros keep the invariant\<close>

lemma step_ok_fail [simp]:
  "e \<notin> {HPE_OK, HPE_PAUSED} \<Longrightarrow> pos x \<le> length data \<Longrightarrow> step_ok mx data p0 rk (fail e x)"
  by (auto simp: step_ok_def fail_def goto_error_def RETURN_def SET_ERRNO_def wf_parser_def)

lemma step_ok_RETURN:
  "n \<le> length data \<Longrightarrow> nread x \<le> mx \<Longrightarrow> fields_ok (cst x) (prs x) \<Longrightarrow>
   (cst x = s_chunk_size_start \<Longrightarrow> nread x = 0) \<Longrightarrow>
   (http_errno (prs x) = HPE_OK \<Longrightarrow> n = length data \<or> upgrade (prs x)) \<Longrightarrow>
   step_ok mx data p0 rk (RETURN n x)"
  by (auto simp: step_ok_def RETURN_def wf_parser_def saved_ok_def fields_ok_def)

lemma step_ok_STRICT_CHECK:
  "pos x \<le> length data \<Longrightarrow> (\<not> cond \<Longrightarrow> step_ok mx data p0 rk k) \<Longrightarrow>
   step_ok mx data p0 rk (STRICT_CHECK cond x k)"
  by (simp add: STRICT_CHECK_def)

lemma step_ok_COUNT:
  "pos x \<le> length data \<Longrightarrow>
   (\<And>n. n \<le> mx \<Longrightarrow> n = nread x + of_nat v \<Longrightarrow> step_ok mx data p0 rk (k (x\<lparr>nread := n\<rparr>))) \<Longrightarrow>
   step_ok mx data p0 rk (COUNT_HEADER_SIZE mx v x k)"
  by (auto simp: COUNT_HEADER_SIZE_def Let_def not_less)

lemma fields_ok_upd [simp]:
  "fields_ok s (P\<lparr>p_state := t\<rparr>) = fields_ok s P"
  "fields_ok s (P\<lparr>p_nread := n\<rparr>) = fields_ok s P"
  "fields_ok s (P\<lparr>http_errno := e\<rparr>) = fields_ok s P"
  "fields_ok s (P\<lparr>upgrade := b\<rparr>) = fields_ok s P"
  by (simp_all add: fields_ok_def)

lemma saved_ok_upd [simp]:
  "saved_ok mx s (P\<lparr>p_state := t\<rparr>) = saved_ok mx s P"
  "saved_ok mx s (P\<lparr>http_errno := e\<rparr>) = saved_ok mx s P"
  by (simp_all add: saved_ok_def)

lemma step_ok_NOTIFY:
  assumes "cb_ok cb" "http_errno (prs x) = HPE_OK" "er \<le> length data"
    and "e \<notin> {HPE_OK, HPE_PAUSED}" "saved_ok mx (cst x) (prs x)"
    and k: "\<And>s u. step_ok mx data p0 rk (k (x\<lparr>prs := (prs x)\<lparr>p_state := s\<rparr>, usr := u\<rparr>))"
  shows "step_ok mx data p0 rk (CALLBACK_NOTIFY_gen cb e er x k)"
proof (cases cb)
  case None
  then show ?thesis using assms(2) k [where s = "p_state (prs x)" and u = "usr x"] by (simp add: CALLBACK_NOTIFY_gen_def)
next
  case (Some f)
  obtain r P u where f: "f ((prs x)\<lparr>p_state := cst x\<rparr>) (usr x) = (r, P, u)"
    by (metis prod_cases3)
  with assms(1) Some consider "P = (prs x)\<lparr>p_state := cst x\<rparr>"
    | "P = (prs x)\<lparr>p_state := cst x, http_errno := HPE_PAUSED\<rparr>"
    using cb_okD [of f, OF _ f] by auto
  then show ?thesis
    using assms(2-5) k [where s = "cst x" and u = u]
    by cases (auto simp: CALLBACK_NOTIFY_gen_def Some f Let_def SET_ERRNO_def step_ok_def wf_parser_def)
qed

lemma step_ok_DATA:
  assumes "cbs_ok S" "http_errno (prs x) = HPE_OK" "er \<le> length data"
    and "end \<le> length data" "\<And>a. marks x m = Some a \<Longrightarrow> a \<le> end" "saved_ok mx (cst x) (prs x)"
    and k: "\<And>s u. step_ok mx data p0 rk (k (x\<lparr>prs := (prs x)\<lparr>p_state := s\<rparr>, usr := u,
                                   marks := (marks x)(m := None)\<rparr>))"
  shows "step_ok mx data p0 rk (CALLBACK_DATA_gen S data m end er x k)"
proof (cases "marks x m")
  case None
  then have "(marks x)(m := None) = marks x" by (simp add: fun_upd_idem)
  with None show ?thesis
    using assms(2) k [where s = "p_state (prs x)" and u = "usr x"] by (simp add: CALLBACK_DATA_gen_def)
next
  case (Some a)
  then have a: "\<not> a > end" using assms(5) by (simp add: not_less)
  show ?thesis
  proof (cases "data_cb S m")
    case None
    then show ?thesis
      using assms(2,4) a Some k [where s = "p_state (prs x)" and u = "usr x"] by (simp add: CALLBACK_DATA_gen_def)
  next
    case (Some f)
    obtain r P u where f: "f (slice_of a (end - a) data) ((prs x)\<lparr>p_state := cst x\<rparr>) (usr x) = (r, P, u)"
      by (metis prod_cases3)
    have "cb_ok (map_option (\<lambda>f. f (slice_of a (end - a) data)) (data_cb S m))"
      using assms(1) by (simp add: cbs_ok_def)
    with Some f consider "P = (prs x)\<lparr>p_state := cst x\<rparr>"
      | "P = (prs x)\<lparr>p_state := cst x, http_errno := HPE_PAUSED\<rparr>"
      using cb_okD [of "f (slice_of a (end - a) data)", OF _ f] by auto
    then show ?thesis
      using assms(2-4,6) a k [where s = "cst x" and u = u] \<open>marks x m = Some a\<close> Some f
      by cases (cases m; auto simp: CALLBACK_DATA_gen_def Let_def SET_ERRNO_def step_ok_def wf_parser_def)+
  qed
qed


lemma step_ok_simps:
  "step_ok mx data p0 rk (Next x) \<longleftrightarrow> loop_ok mx x \<and> p0 \<le> pos x \<and> pos x < length data"
  "step_ok mx data p0 rk (Reexecute x) \<longleftrightarrow>
     switch_ok mx data x \<and> p0 \<le> pos x \<and> rank (cst x) < rk"
  by (simp_all add: step_ok_def)

section \<open>Marks\<close>

lemma mark_states_disjoint: "s \<in> mark_states m \<Longrightarrow> s \<in> mark_states m' \<Longrightarrow> m = m'"
  by (cases m; cases m') auto

lemma marks_ok_none:
  assumes "\<And>m. s \<notin> mark_states m"
  shows "marks_ok s p mk \<longleftrightarrow> mk = Map.empty"
  using assms by (auto simp: marks_ok_def fun_eq_iff)

lemma marks_ok_one:
  assumes "s \<in> mark_states m"
  shows "marks_ok s p mk \<longleftrightarrow> mk = Map.empty \<or> (\<exists>a\<le>p. mk = [m \<mapsto> a])"
proof
  assume *: "marks_ok s p mk"
  have "mk m' = None" if "m' \<noteq> m" for m'
    using * that assms mark_states_disjoint unfolding marks_ok_def by (metis not_Some_eq)
  then have eq: "mk = Map.empty(m := mk m)" by (simp add: fun_eq_iff)
  show "mk = Map.empty \<or> (\<exists>a\<le>p. mk = [m \<mapsto> a])"
  proof (cases "mk m")
    case None
    with eq have "mk = Map.empty" by (simp add: fun_upd_idem)
    then show ?thesis ..
  next
    case (Some a)
    with * have "a \<le> p" by (simp add: marks_ok_def)
    moreover from eq Some have "mk = [m \<mapsto> a]" by simp
    ultimately show ?thesis by blast
  qed
next
  assume "mk = Map.empty \<or> (\<exists>a\<le>p. mk = [m \<mapsto> a])"
  then show "marks_ok s p mk" using assms by (auto simp: marks_ok_def split: if_splits)
qed

definition unmarked :: "state set" where
  "unmarked = - (\<Union>m. mark_states m)"

lemma unmarked_iff:
  "s \<in> unmarked \<longleftrightarrow> s \<notin> {s_header_field, s_header_value, s_req_path, s_req_schema,
     s_req_schema_slash, s_req_schema_slash_slash, s_req_server_start, s_req_server,
     s_req_server_with_at, s_req_query_string_start, s_req_query_string, s_req_fragment_start,
     s_req_fragment, s_chunk_data, s_chunk_data_almost_done, s_body_identity, s_body_identity_eof,
     s_res_status}"
proof -
  have "s \<in> unmarked \<longleftrightarrow> (\<forall>m. s \<notin> mark_states m)" by (simp add: unmarked_def)
  also have "\<dots> \<longleftrightarrow> s \<notin> mark_states M_header_field \<and> s \<notin> mark_states M_header_value \<and>
      s \<notin> mark_states M_url \<and> s \<notin> mark_states M_body \<and> s \<notin> mark_states M_status"
    by (metis mark.exhaust)
  finally show ?thesis by simp
qed

lemma marks_ok_unmarked [simp]: "s \<in> unmarked \<Longrightarrow> marks_ok s p mk \<longleftrightarrow> mk = Map.empty"
  by (rule marks_ok_none) (auto simp: unmarked_def)

lemma marks_ok_empty [simp]: "marks_ok s p Map.empty"
  by (simp add: marks_ok_def)

lemma marks_ok_mono: "marks_ok s p mk \<Longrightarrow> p \<le> q \<Longrightarrow> marks_ok s q mk"
  unfolding marks_ok_def by (meson order_trans)

section \<open>Start lines\<close>

named_theorems handler_defs \<open>definitions of the simple handlers\<close>
declare exec_dead_def [handler_defs] exec_start_req_or_res_def [handler_defs]
  exec_res_or_resp_H_def [handler_defs] exec_start_res_def [handler_defs]
  exec_expect_def [handler_defs] exec_http_major_def [handler_defs] exec_http_dot_def [handler_defs]
  exec_http_minor_def [handler_defs] exec_res_http_end_def [handler_defs]
  exec_res_first_status_code_def [handler_defs] exec_res_status_code_def [handler_defs]
  exec_req_http_start_def [handler_defs] exec_req_http_end_def [handler_defs]
  exec_req_line_almost_done_def [handler_defs] exec_header_almost_done_def [handler_defs]
  exec_header_value_lws_def [handler_defs] exec_header_field_start_def [handler_defs]

lemma cbs_okD:
  "cbs_ok S \<Longrightarrow> cb_ok (on_message_begin S)" "cbs_ok S \<Longrightarrow> cb_ok (on_headers_complete S)"
  "cbs_ok S \<Longrightarrow> cb_ok (on_message_complete S)" "cbs_ok S \<Longrightarrow> cb_ok (on_chunk_header S)"
  "cbs_ok S \<Longrightarrow> cb_ok (on_chunk_complete S)"
  by (simp_all add: cbs_ok_def)

text \<open>States without a mark and without a condition on the parser's fields.\<close>

definition free :: "state set" where
  "free = - {s_header_field, s_header_value, s_req_path, s_req_schema,
     s_req_schema_slash, s_req_schema_slash_slash, s_req_server_start, s_req_server,
     s_req_server_with_at, s_req_query_string_start, s_req_query_string, s_req_fragment_start,
     s_req_fragment, s_chunk_data, s_chunk_data_almost_done, s_body_identity, s_body_identity_eof,
     s_res_status, s_req_method, s_chunk_size_start, s_chunk_size, s_chunk_parameters,
     s_chunk_size_almost_done, s_chunk_data_done}"

lemma free_simps [simp]:
  "s_dead \<in> free" "s_start_req_or_res \<in> free" "s_res_or_resp_H \<in> free" "s_start_res \<in> free"
  "s_res_H \<in> free" "s_res_HT \<in> free" "s_res_HTT \<in> free" "s_res_HTTP \<in> free"
  "s_res_http_major \<in> free" "s_res_http_dot \<in> free" "s_res_http_minor \<in> free" "s_res_http_end \<in> free"
  "s_res_first_status_code \<in> free" "s_res_status_code \<in> free" "s_res_status_start \<in> free"
  "s_res_line_almost_done \<in> free" "s_start_req \<in> free" "s_req_spaces_before_url \<in> free"
  "s_req_http_start \<in> free" "s_req_http_H \<in> free" "s_req_http_HT \<in> free" "s_req_http_HTT \<in> free"
  "s_req_http_HTTP \<in> free" "s_req_http_I \<in> free" "s_req_http_IC \<in> free" "s_req_http_major \<in> free"
  "s_req_http_dot \<in> free" "s_req_http_minor \<in> free" "s_req_http_end \<in> free"
  "s_req_line_almost_done \<in> free" "s_header_field_start \<in> free" "s_header_value_discard_ws \<in> free"
  "s_header_value_discard_ws_almost_done \<in> free" "s_header_value_discard_lws \<in> free"
  "s_header_value_start \<in> free" "s_header_value_lws \<in> free" "s_header_almost_done \<in> free"
  "s_headers_almost_done \<in> free" "s_headers_done \<in> free" "s_message_done \<in> free"
  by (simp_all add: free_def)

lemma free_unmarked: "s \<in> free \<Longrightarrow> s \<in> unmarked"
  by (simp add: free_def unmarked_iff)

lemma free_saved_ok: "s \<in> free \<Longrightarrow> saved_ok mx s P \<longleftrightarrow> p_nread P \<le> mx"
  by (auto simp: free_def saved_ok_def fields_ok_def chunk_states_def)

lemma free_not_chunk: "s \<in> free \<Longrightarrow> s \<noteq> s_chunk_size_start"
  by (auto simp: free_def)

definition same_frame :: "'u xst \<Rightarrow> 'u xst \<Rightarrow> bool" where
  "same_frame x y \<longleftrightarrow> pos y = pos x \<and> nread y = nread x \<and> marks y = marks x \<and>
     http_errno (prs y) = http_errno (prs x) \<and> p_nread (prs y) = p_nread (prs x)"

lemma switch_okD:
  assumes "switch_ok mx data x"
  shows "http_errno (prs x) = HPE_OK" "pos x < length data" "nread x \<le> mx" "p_nread (prs x) \<le> mx"
    "marks_ok (cst x) (pos x) (marks x)" "fields_ok (cst x) (prs x)" "saved_ok mx (cst x) (prs x)"
  using assms by (simp_all add: ok_defs)

text \<open>A state the switch may be left with: no mark needed, and the fields are as the state expects.\<close>

definition calm :: "'u xst \<Rightarrow> bool" where
  "calm y \<longleftrightarrow> cst y \<in> unmarked \<and> cst y \<noteq> s_chunk_size_start \<and> fields_ok (cst y) (prs y)"

lemma calm_free [simp]: "cst y \<in> free \<Longrightarrow> calm y"
  by (auto simp: calm_def free_unmarked free_not_chunk free_def fields_ok_def chunk_states_def)

lemma calm_method:
  "cst y = s_req_method \<Longrightarrow> calm y \<longleftrightarrow>
     unat (p_index (prs y)) \<le> length (method_strings (p_method (prs y)))"
  by (auto simp: calm_def unmarked_iff fields_ok_def chunk_states_def)

lemma calm_saved_ok: "calm y \<Longrightarrow> p_nread (prs y) \<le> mx \<Longrightarrow> saved_ok mx (cst y) (prs y)"
  by (simp add: calm_def saved_ok_def)

lemma loop_ok_calm:
  assumes "switch_ok mx data x" "cst x \<in> unmarked" "calm y" "same_frame x y"
  shows "loop_ok mx y"
  using assms switch_okD [OF assms(1)] calm_saved_ok [OF assms(3), of mx]
  by (simp add: loop_ok_def core_ok_def same_frame_def calm_def)

lemma switch_ok_calm:
  assumes "switch_ok mx data x" "cst x \<in> unmarked" "calm y" "same_frame x y"
  shows "switch_ok mx data y"
  using assms switch_okD [OF assms(1)] calm_saved_ok [OF assms(3), of mx]
  by (simp add: switch_ok_def core_ok_def same_frame_def calm_def)

lemma step_next_calm:
  "switch_ok mx data x \<Longrightarrow> cst x \<in> unmarked \<Longrightarrow> calm y \<Longrightarrow> same_frame x y \<Longrightarrow>
   step_ok mx data (pos x) rk (Next y)"
  using loop_ok_calm [of mx data x y] switch_okD(2) [of mx data x]
  by (simp add: step_ok_simps same_frame_def)

lemma step_reexecute_calm:
  "switch_ok mx data x \<Longrightarrow> cst x \<in> unmarked \<Longrightarrow> calm y \<Longrightarrow> same_frame x y \<Longrightarrow>
   rank (cst y) < rk \<Longrightarrow> step_ok mx data (pos x) rk (Reexecute y)"
  using switch_ok_calm [of mx data x y] by (simp add: step_ok_simps same_frame_def)

lemma step_notify_calm:
  assumes "switch_ok mx data x" "cst x \<in> unmarked" "calm y" "same_frame x y"
    and "cb_ok cb" "e \<notin> {HPE_OK, HPE_PAUSED}" "er \<le> length data"
    and "\<And>z. same_frame x z \<Longrightarrow> calm z \<Longrightarrow> cst z = cst y \<Longrightarrow> step_ok mx data p0 rk (k z)"
  shows "step_ok mx data p0 rk (CALLBACK_NOTIFY_gen cb e er y k)"
  using assms switch_okD [OF assms(1)] calm_saved_ok [OF assms(3), of mx]
  by (intro step_ok_NOTIFY) (auto simp: same_frame_def calm_def)

text \<open>Handlers that only look at the current character and move on to a free state.\<close>

lemma plain_handlers_ok:
  assumes *: "switch_ok mx data x" "cst x \<in> free"
  shows "step_ok mx data (pos x) rk (exec_dead x)"
    and "s \<in> free \<Longrightarrow> step_ok mx data (pos x) rk (exec_expect c s x)"
    and "s \<in> free \<Longrightarrow> step_ok mx data (pos x) rk (exec_http_major s x)"
    and "s \<in> free \<Longrightarrow> step_ok mx data (pos x) rk (exec_http_dot s x)"
    and "s \<in> free \<Longrightarrow> step_ok mx data (pos x) rk (exec_http_minor s x)"
    and "step_ok mx data (pos x) rk (exec_res_http_end x)"
    and "step_ok mx data (pos x) rk (exec_res_first_status_code x)"
    and "step_ok mx data (pos x) rk (exec_req_http_start x)"
    and "step_ok mx data (pos x) rk (exec_req_http_end x)"
    and "step_ok mx data (pos x) rk (exec_req_line_almost_done x)"
    and "step_ok mx data (pos x) rk (exec_header_almost_done x)"
    and "rk > 2 \<Longrightarrow> step_ok mx data (pos x) rk (exec_header_value_lws x)"
    and "rk > 1 \<Longrightarrow> step_ok mx data (pos x) rk (exec_res_status_code x)"
  using * switch_okD(2) [OF *(1)] free_unmarked [OF *(2)]
  by (auto simp: handler_defs STRICT_CHECK_def same_frame_def rank_def Let_def
        intro!: step_next_calm step_reexecute_calm)


lemma reset_message_simps [simp]:
  "http_errno (reset_message P) = http_errno P" "p_nread (reset_message P) = p_nread P"
  by (simp_all add: reset_message_def)

lemma exec_start_req_or_res_ok:
  assumes "cbs_ok S" "switch_ok mx data x" "cst x = s_start_req_or_res"
  shows "step_ok mx data (pos x) (rank (cst x)) (exec_start_req_or_res S x)"
  using assms switch_okD(2) [OF assms(2)] cbs_okD(1) [OF assms(1)]
  by (auto simp: exec_start_req_or_res_def Let_def same_frame_def rank_def free_unmarked
        intro!: step_next_calm step_reexecute_calm step_notify_calm)

lemma exec_start_res_ok:
  assumes "cbs_ok S" "switch_ok mx data x" "cst x = s_start_res"
  shows "step_ok mx data (pos x) rk (exec_start_res S x)"
  using assms switch_okD(2) [OF assms(2)] cbs_okD(1) [OF assms(1)]
  by (auto simp: exec_start_res_def Let_def same_frame_def free_unmarked
        intro!: step_next_calm step_notify_calm)

lemma exec_res_or_resp_H_ok:
  assumes "switch_ok mx data x" "cst x = s_res_or_resp_H"
  shows "step_ok mx data (pos x) rk (exec_res_or_resp_H x)"
  using assms switch_okD(2) [OF assms(1)]
  by (auto simp: exec_res_or_resp_H_def same_frame_def free_unmarked calm_method
        intro!: step_next_calm)

lemma first_method_length: "1 \<le> length (method_strings m)"
  by (cases m) simp_all

lemma exec_start_req_ok:
  assumes "cbs_ok S" "switch_ok mx data x" "cst x = s_start_req"
  shows "step_ok mx data (pos x) rk (exec_start_req S x)"
  using assms switch_okD(2) [OF assms(2)] cbs_okD(1) [OF assms(1)] first_method_length
  by (auto simp: exec_start_req_def Let_def free_unmarked same_frame_def calm_method
        intro!: step_next_calm step_notify_calm split: option.split)

lemma next_method_length:
  "map_of next_method_table (m, i, c) = Some m' \<Longrightarrow> i + 1 \<le> length (method_strings m')"
  by (auto simp: next_method_table_def split: if_splits)

lemma method_strings_bounds: "length (method_strings m) \<le> 11"
  by (cases m) simp_all

lemma exec_req_method_ok:
  assumes "switch_ok mx data x" "cst x = s_req_method"
  shows "step_ok mx data (pos x) rk (exec_req_method x)"
proof -
  let ?i = "unat (p_index (prs x))" and ?m = "p_method (prs x)"
  have i: "?i \<le> length (method_strings ?m)"
    using switch_okD(6) [OF assms(1)] assms(2) by (simp add: fields_ok_def)
  with method_strings_bounds [of ?m] have inc: "unat (p_index (prs x) + 1) = ?i + 1"
    by (intro unat_inc_less) simp
  have lt: "?i < length (method_strings ?m)" if "cur_ch x = cchar (method_strings ?m) ?i" "cur_ch x \<noteq> NUL"
    using that i by (auto simp: cchar_def split: if_splits)
  have un: "cst x \<in> unmarked" using assms(2) by (simp add: unmarked_iff)
  note step = step_next_calm [OF assms(1) un]
  have 1: "step_ok mx data (pos x) rk (Next (upd_prs (\<lambda>P. P\<lparr>p_index := p_index P + 1\<rparr>)
             (UPDATE_STATE s_req_spaces_before_url x)))"
    by (rule step) (simp_all add: same_frame_def)
  have 2: "step_ok mx data (pos x) rk (Next (upd_prs (\<lambda>P. P\<lparr>p_index := p_index P + 1\<rparr>) x))"
    if "cur_ch x = cchar (method_strings ?m) ?i" "cur_ch x \<noteq> NUL"
    using lt [OF that] by (intro step) (simp_all add: same_frame_def calm_method assms(2) inc)
  have 3: "step_ok mx data (pos x) rk (Next (upd_prs (\<lambda>P. P\<lparr>p_index := p_index P + 1\<rparr>)
             (upd_prs (\<lambda>P. P\<lparr>p_method := m'\<rparr>) x)))"
    if "map_of next_method_table (?m, ?i, cur_ch x) = Some m'" for m'
    using next_method_length [OF that]
    by (intro step) (simp_all add: same_frame_def calm_method assms(2) inc)
  show ?thesis
    using i switch_okD(2) [OF assms(1)] 1 2 3
    unfolding exec_req_method_def Let_def by (simp split: option.split)
qed


section \<open>Tokens with a mark\<close>

lemma MARK_simps [simp]:
  "prs (MARK m x) = prs x" "usr (MARK m x) = usr x" "cst (MARK m x) = cst x"
  "nread (MARK m x) = nread x" "pos (MARK m x) = pos x" "cur_ch (MARK m x) = cur_ch x"
  "lenient (MARK m x) = lenient x" "allow_chunked (MARK m x) = allow_chunked x"
  by (simp_all add: MARK_def)

lemma loop_okI:
  "http_errno (prs y) = HPE_OK \<Longrightarrow> marks_ok (cst y) (pos y) (marks y) \<Longrightarrow>
   fields_ok (cst y) (prs y) \<Longrightarrow> p_nread (prs y) \<le> mx \<Longrightarrow> nread y \<le> mx \<Longrightarrow>
   cst y \<noteq> s_chunk_size_start \<Longrightarrow> loop_ok mx y"
  by (simp add: loop_ok_def core_ok_def saved_ok_def)

lemma switch_okI:
  "http_errno (prs y) = HPE_OK \<Longrightarrow> marks_ok (cst y) (pos y) (marks y) \<Longrightarrow>
   fields_ok (cst y) (prs y) \<Longrightarrow> p_nread (prs y) \<le> mx \<Longrightarrow> nread y \<le> mx \<Longrightarrow>
   cst y \<noteq> s_chunk_size_start \<Longrightarrow> pos y < length data \<Longrightarrow> switch_ok mx data y"
  by (simp add: switch_ok_def core_ok_def saved_ok_def)

definition ready :: "u32 \<Rightarrow> 'u xst \<Rightarrow> bool" where
  "ready mx z \<longleftrightarrow> http_errno (prs z) = HPE_OK \<and> p_nread (prs z) \<le> mx \<and> nread z \<le> mx \<and>
     marks z = Map.empty \<and> calm z"

lemma ready_loop_ok: "ready mx z \<Longrightarrow> loop_ok mx z"
  by (intro loop_okI) (auto simp: ready_def calm_def)

lemma ready_switch_ok: "ready mx z \<Longrightarrow> pos z < length data \<Longrightarrow> switch_ok mx data z"
  by (intro switch_okI) (auto simp: ready_def calm_def)

lemma only_mark_cleared:
  "\<forall>m' a. mk m' = Some a \<longrightarrow> m' = m \<and> P a \<Longrightarrow> mk(m := None) = Map.empty"
proof (rule ext)
  fix m'
  assume *: "\<forall>m' a. mk m' = Some a \<longrightarrow> m' = m \<and> P a"
  show "(mk(m := None)) m' = Map.empty m'"
    using * by (cases "mk m'") auto
qed

lemma step_data_calm:
  assumes "cbs_ok S" "http_errno (prs y) = HPE_OK" "p_nread (prs y) \<le> mx" "nread y \<le> mx" "calm y"
    and "er \<le> length data" "end \<le> length data" "\<forall>m' a. marks y m' = Some a \<longrightarrow> m' = m \<and> a \<le> end"
    and k: "\<And>z. ready mx z \<Longrightarrow> pos z = pos y \<Longrightarrow> cst z = cst y \<Longrightarrow>
              http_errno (prs z) = HPE_OK \<Longrightarrow> step_ok mx data p0 rk (k z)"
  shows "step_ok mx data p0 rk (CALLBACK_DATA_gen S data m end er y k)"
proof (rule step_ok_DATA)
  show "saved_ok mx (cst y) (prs y)" by (rule calm_saved_ok [OF assms(5,3)])
  show "a \<le> end" if "marks y m = Some a" for a using that assms(8) by blast
next
  fix s u
  let ?z = "y\<lparr>prs := (prs y)\<lparr>p_state := s\<rparr>, usr := u, marks := (marks y)(m := None)\<rparr>"
  have "ready mx ?z"
    using assms(2-5) only_mark_cleared [OF assms(8)] by (simp add: ready_def calm_def)
  then show "step_ok mx data p0 rk (k ?z)" using assms(2) by (intro k) simp_all
qed (use assms in simp_all)

lemma marks_ok_MARK:
  "marks x = Map.empty \<or> marks_ok s (pos x) (marks x) \<Longrightarrow> s \<in> mark_states m \<Longrightarrow>
   marks_ok s (pos x) (marks (MARK m x))"
  by (auto simp: MARK_def marks_ok_def split: if_splits)

lemma marks_ok_only:
  "marks_ok s p mk \<Longrightarrow> s \<in> mark_states m \<Longrightarrow> mk m' = Some a \<Longrightarrow> m' = m \<and> a \<le> p"
  unfolding marks_ok_def using mark_states_disjoint by blast

lemma exec_res_status_start_ok:
  assumes "switch_ok mx data x" "cst x = s_res_status_start"
  shows "step_ok mx data (pos x) (rank (cst x)) (exec_res_status_start x)"
proof -
  have mk: "marks_ok s_res_status (pos x) (marks (MARK M_status x))"
    using switch_okD(5) [OF assms(1)] assms(2) by (intro marks_ok_MARK) (auto simp: unmarked_iff)
  with assms switch_okD [OF assms(1)] show ?thesis
    by (auto simp: exec_res_status_start_def Let_def step_ok_simps rank_def fields_ok_def
          chunk_states_def intro!: loop_okI switch_okI)
qed

lemma exec_res_status_ok:
  assumes "cbs_ok S" "switch_ok mx data x" "cst x = s_res_status"
  shows "step_ok mx data (pos x) rk (exec_res_status S data x)"
proof -
  have only: "\<forall>m' a. marks x m' = Some a \<longrightarrow> m' = M_status \<and> a \<le> pos x"
    using marks_ok_only [OF switch_okD(5) [OF assms(2)], of M_status] assms(3) by simp
  have "loop_ok mx x"
    using assms(2,3) by (simp add: loop_ok_def switch_ok_def)
  with assms switch_okD [OF assms(2)] only show ?thesis
    by (auto simp: exec_res_status_def step_ok_simps intro!: step_data_calm ready_loop_ok)
qed

section \<open>Request URLs\<close>

lemma exec_url_char_ok:
  assumes "http_errno (prs x) = HPE_OK" "pos x < length data" "nread x \<le> mx" "p_nread (prs x) \<le> mx"
    and "\<forall>m a. marks x m = Some a \<longrightarrow> m = M_url \<and> a \<le> pos x"
  shows "step_ok mx data (pos x) rk (exec_url_char x)"
proof (cases "parse_url_char (cst x) (cur_ch x) = s_dead")
  case True
  with assms show ?thesis by (simp add: exec_url_char_def Let_def)
next
  case False
  let ?s = "parse_url_char (cst x) (cur_ch x)"
  have s: "?s \<in> mark_states M_url" using parse_url_char_range [of "cst x" "cur_ch x"] False by auto
  then have f: "fields_ok ?s (prs x)" "?s \<noteq> s_chunk_size_start"
    by (auto simp: fields_ok_def chunk_states_def)
  have "marks_ok ?s (pos x) (marks x)" using s assms(5) unfolding marks_ok_def by metis
  with False f assms show ?thesis
    by (auto simp: exec_url_char_def Let_def step_ok_simps intro!: loop_okI)
qed

lemma exec_req_spaces_before_url_ok:
  assumes "switch_ok mx data x" "cst x = s_req_spaces_before_url"
  shows "step_ok mx data (pos x) rk (exec_req_spaces_before_url x)"
proof -
  have "marks x = Map.empty" using switch_okD(5) [OF assms(1)] assms(2) by (simp add: unmarked_iff)
  then have "\<forall>m a. marks (MARK M_url x) m = Some a \<longrightarrow> m = M_url \<and> a \<le> pos x"
    by (auto simp: MARK_def split: if_splits)
  then show ?thesis
    using assms switch_okD [OF assms(1)] exec_url_char_ok [of "MARK M_url x" data mx rk]
      exec_url_char_ok [of "UPDATE_STATE s_req_server_start (MARK M_url x)" data mx rk]
    by (auto simp: exec_req_spaces_before_url_def Let_def same_frame_def free_unmarked
          intro!: step_next_calm)
qed

lemma url_only:
  assumes "switch_ok mx data x" "cst x \<in> mark_states M_url"
  shows "\<forall>m a. marks x m = Some a \<longrightarrow> m = M_url \<and> a \<le> pos x"
  using marks_ok_only [OF switch_okD(5) [OF assms(1)] assms(2)] by simp

lemma exec_req_schema_ok:
  assumes "switch_ok mx data x" "cst x \<in> mark_states M_url"
  shows "step_ok mx data (pos x) rk (exec_req_schema x)"
  using switch_okD [OF assms(1)] exec_url_char_ok [OF _ _ _ _ url_only [OF assms]]
  by (simp add: exec_req_schema_def)

lemma exec_req_url_ok:
  assumes "cbs_ok S" "switch_ok mx data x" "cst x \<in> mark_states M_url"
  shows "step_ok mx data (pos x) rk (exec_req_url S data x)"
  using assms(1) switch_okD [OF assms(2)] exec_url_char_ok [OF _ _ _ _ url_only [OF assms(2,3)]]
    url_only [OF assms(2,3)]
  by (auto simp: exec_req_url_def step_ok_simps intro!: step_data_calm ready_loop_ok)

section \<open>Header fields\<close>

lemma exec_header_field_start_ok:
  assumes "switch_ok mx data x" "cst x = s_header_field_start"
  shows "step_ok mx data (pos x) (rank (cst x)) (exec_header_field_start x)"
proof -
  have mk: "marks_ok s_header_field (pos x) (marks (MARK M_header_field x))"
    using switch_okD(5) [OF assms(1)] assms(2) by (intro marks_ok_MARK) (auto simp: unmarked_iff)
  have un: "cst x \<in> unmarked" using assms(2) by (simp add: unmarked_iff)
  let ?y = "\<lambda>h. upd_prs (\<lambda>P. P\<lparr>p_index := 0, p_header_state := h\<rparr>)
              (UPDATE_STATE s_header_field (MARK M_header_field x))"
  have "loop_ok mx (?y h)" if "h \<in> hf_states" for h
    using that mk switch_okD [OF assms(1)]
    by (intro loop_okI) (simp_all add: fields_ok_def chunk_states_def)
  then have 1: "step_ok mx data (pos x) (rank (cst x)) (Next (?y h))" if "h \<in> hf_states" for h
    using that switch_okD(2) [OF assms(1)] by (simp add: step_ok_simps)
  have 2: "step_ok mx data (pos x) (rank (cst x)) (Next (UPDATE_STATE s_headers_almost_done x))"
    by (rule step_next_calm [OF assms(1) un]) (simp_all add: same_frame_def)
  have 3: "step_ok mx data (pos x) (rank (cst x)) (Reexecute (UPDATE_STATE s_headers_almost_done x))"
    by (rule step_reexecute_calm [OF assms(1) un])
      (simp_all add: same_frame_def rank_def assms(2))
  show ?thesis
    using 1 2 3 switch_okD(2) [OF assms(1)]
    by (simp add: exec_header_field_start_def Let_def hf_states_def)
qed

end
