(* ===== verification/HttpExecuteSafe.thy ===== *)
theory HttpExecuteSafe
  imports HttpInvariant
begin

text \<open>
  The second half of the safety proof of \<^verbatim>\<open>http_parser_execute\<close>: header names and values, the end of
  the headers, bodies and chunks, then the whole switch, the re-execution loop and the loop over the
  bytes.  Every call on a well-formed parser returns with a well-formed parser.
\<close>

section \<open>Header names\<close>

lemma hf_states_simps [simp]:
  "h_general \<in> hf_states" "h_C \<in> hf_states" "h_CO \<in> hf_states" "h_CON \<in> hf_states"
  "h_matching_connection \<in> hf_states" "h_matching_proxy_connection \<in> hf_states"
  "h_matching_content_length \<in> hf_states" "h_matching_transfer_encoding \<in> hf_states"
  "h_matching_upgrade \<in> hf_states" "h_connection \<in> hf_states" "h_content_length \<in> hf_states"
  "h_transfer_encoding \<in> hf_states" "h_upgrade \<in> hf_states"
  by (simp_all add: hf_states_def)

lemma match_step_in:
  "cur \<in> A \<Longrightarrow> other \<in> A \<Longrightarrow> found \<in> A \<Longrightarrow> match_step w cur other found c i \<in> A"
  by (simp add: match_step_def)

lemma hf_char_ok:
  assumes "p_header_state P \<in> hf_states" "p_header_state P \<noteq> h_general"
  obtains P' where "hf_char ch c P = Some P'" "p_header_state P' \<in> hf_states"
    "http_errno P' = http_errno P" "p_nread P' = p_nread P"
proof -
  have "case hf_char ch c P of None \<Rightarrow> False | Some P' \<Rightarrow> p_header_state P' \<in> hf_states \<and>
          http_errno P' = http_errno P \<and> p_nread P' = p_nread P"
    using assms(1) [unfolded hf_states_def] assms(2)
    by (cases "p_header_state P") (simp_all add: hf_char_def Let_def match_step_in)
  then show thesis using that by (simp split: option.splits)
qed

lemma scan_token_less: "q < n \<Longrightarrow> pe \<le> n \<Longrightarrow> scan_token data q pe < n"
proof (induction data q pe rule: scan_token.induct)
  case (1 data q pe)
  then show ?case by (subst scan_token.simps) auto
qed

lemma hf_loop_ok:
  assumes "p_header_state (prs x) \<in> hf_states" "pos x \<le> length data"
  shows "\<exists>y. hf_loop mx data x = Some y \<and> p_header_state (prs y) \<in> hf_states \<and>
    pos x \<le> pos y \<and> pos y \<le> length data \<and> cst y = cst x \<and> marks y = marks x \<and>
    nread y = nread x \<and> http_errno (prs y) = http_errno (prs x) \<and> p_nread (prs y) = p_nread (prs x) \<and>
    (pos x < length data \<longrightarrow> TOKEN (data ! pos x) \<noteq> NUL \<longrightarrow> pos x < pos y)"
  using assms
proof (induction mx data x rule: hf_loop.induct)
  case (1 mx data x)
  show ?case
  proof (cases "pos x = length data \<or> TOKEN (data ! pos x) = NUL")
    case True
    with "1.prems" show ?thesis by (subst hf_loop.simps) auto
  next
    case False
    with "1.prems" have lt: "pos x < length data" and tok: "TOKEN (data ! pos x) \<noteq> NUL" by auto
    show ?thesis
    proof (cases "p_header_state (prs x) = h_general")
      case True
      let ?q = "scan_token data (pos x) (pos x + min (length data - pos x) (unat mx))"
      have q: "?q < length data" "pos x \<le> ?q"
        using lt by (auto intro: scan_token_less scan_token_ge)
      have "hf_loop mx data x = hf_loop mx data (x\<lparr>cur_ch := data ! pos x, pos := Suc ?q\<rparr>)"
        using lt tok True by (subst hf_loop.simps) (simp add: Let_def)
      moreover have "\<exists>y. hf_loop mx data (x\<lparr>cur_ch := data ! pos x, pos := Suc ?q\<rparr>) = Some y \<and>
          p_header_state (prs y) \<in> hf_states \<and> Suc ?q \<le> pos y \<and> pos y \<le> length data \<and>
          cst y = cst x \<and> marks y = marks x \<and> nread y = nread x \<and>
          http_errno (prs y) = http_errno (prs x) \<and> p_nread (prs y) = p_nread (prs x)"
        using "1.IH"(1) [OF _ _ refl refl] lt tok True q "1.prems" by fastforce
      ultimately show ?thesis using q by fastforce
    next
      case False
      then obtain P' where P': "hf_char (data ! pos x) (TOKEN (data ! pos x)) (prs x) = Some P'"
        "p_header_state P' \<in> hf_states" "http_errno P' = http_errno (prs x)" "p_nread P' = p_nread (prs x)"
        by (rule hf_char_ok [OF "1.prems"(1)])
      have "hf_loop mx data x = hf_loop mx data (x\<lparr>cur_ch := data ! pos x, prs := P', pos := Suc (pos x)\<rparr>)"
        using lt tok False P'(1) by (subst hf_loop.simps) (simp add: Let_def)
      moreover have "\<exists>y. hf_loop mx data (x\<lparr>cur_ch := data ! pos x, prs := P', pos := Suc (pos x)\<rparr>) = Some y \<and>
          p_header_state (prs y) \<in> hf_states \<and> Suc (pos x) \<le> pos y \<and> pos y \<le> length data \<and>
          cst y = cst x \<and> marks y = marks x \<and> nread y = nread x \<and>
          http_errno (prs y) = http_errno (prs x) \<and> p_nread (prs y) = p_nread (prs x)"
        using "1.IH"(2) [OF _ _ refl refl _ _ , of P'] lt tok False P' by fastforce
      ultimately show ?thesis by fastforce
    qed
  qed
qed

lemma exec_header_field_ok:
  assumes "cbs_ok S" "switch_ok mx data x" "cst x = s_header_field"
  shows "step_ok mx data (pos x) rk (exec_header_field S mx data x)"
proof -
  note D = switch_okD [OF assms(2)]
  have "p_header_state (prs x) \<in> hf_states" using D(6) assms(3) by (simp add: fields_ok_def)
  then obtain y where y: "hf_loop mx data x = Some y" "p_header_state (prs y) \<in> hf_states"
    "pos x \<le> pos y" "pos y \<le> length data" "cst y = cst x" "marks y = marks x"
    "http_errno (prs y) = HPE_OK" "p_nread (prs y) \<le> mx"
    "TOKEN (data ! pos x) \<noteq> NUL \<longrightarrow> pos x < pos y"
    using hf_loop_ok [of x data mx] D by auto
  have only: "\<forall>m' a. marks x m' = Some a \<longrightarrow> m' = M_header_field \<and> a \<le> pos x"
    using marks_ok_only [OF D(5), of M_header_field] assms(3) by simp
  show ?thesis
  proof (cases "pos y = length data")
    case True
    have "loop_ok mx (y\<lparr>pos := pos y - 1, nread := n\<rparr>)" if "n \<le> mx" for n
      using that y assms(3) D True marks_ok_mono [OF D(5), of "length data - 1"]
      by (intro loop_okI) (simp_all add: fields_ok_def chunk_states_def)
    then have "step_ok mx data (pos x) rk (COUNT_HEADER_SIZE mx v (y\<lparr>pos := pos y - 1\<rparr>) Next)" for v
      using True D(2) by (intro step_ok_COUNT) (auto simp: step_ok_simps)
    then show ?thesis
      using y(1) True unfolding exec_header_field_def Let_def by simp
  next
    case False
    have only: "\<forall>m' a. marks y m' = Some a \<longrightarrow> m' = M_header_field \<and> a \<le> pos y"
      using only y(3,6) by fastforce
    have "step_ok mx data (pos x) rk (if cur_ch z = CHR '':'' then
               CALLBACK_DATA S data M_header_field (UPDATE_STATE s_header_value_discard_ws z) Next
             else fail HPE_INVALID_HEADER_TOKEN z)"
      if "z = y\<lparr>nread := n\<rparr>" "n \<le> mx" for z n
      using that y False assms(1) only
      by (auto simp: step_ok_simps intro!: step_data_calm ready_loop_ok)
    then have "step_ok mx data (pos x) rk (COUNT_HEADER_SIZE mx v y (\<lambda>z. if cur_ch z = CHR '':'' then
               CALLBACK_DATA S data M_header_field (UPDATE_STATE s_header_value_discard_ws z) Next
             else fail HPE_INVALID_HEADER_TOKEN z))" for v
      using y(4) by (intro step_ok_COUNT) simp_all
    then show ?thesis
      using y(1) False unfolding exec_header_field_def Let_def by simp
  qed
qed

section \<open>Header values\<close>

definition hv_states :: "header_states set" where
  "hv_states = - {h_connection, h_transfer_encoding}"

lemma hv_states_iff [simp]: "h \<in> hv_states \<longleftrightarrow> h \<noteq> h_connection \<and> h \<noteq> h_transfer_encoding"
  by (simp add: hv_states_def)

definition hv_result_ok :: "http_parser \<Rightarrow> hv_result \<Rightarrow> bool" where
  "hv_result_ok P r \<longleftrightarrow>
    (case r of
       Hv_ok h P' \<Rightarrow> h \<in> hv_states \<and> http_errno P' = http_errno P \<and> p_nread P' = p_nread P
     | Hv_err e h P' \<Rightarrow> e \<notin> {HPE_OK, HPE_PAUSED}
     | Hv_assert \<Rightarrow> False)"

lemma hv_content_length_num_ok: "hv_result_ok P (hv_content_length_num ch P)"
  by (simp add: hv_result_ok_def hv_content_length_num_def Let_def)

lemma match_step_hv:
  "cur \<in> hv_states \<Longrightarrow> other \<in> hv_states \<Longrightarrow> found \<in> hv_states \<Longrightarrow>
   match_step w cur other found c i \<noteq> h_connection \<and> match_step w cur other found c i \<noteq> h_transfer_encoding"
  by (simp add: match_step_def)

lemma hv_transfer_encoding_ok: "h \<in> hv_states \<Longrightarrow> hv_result_ok P (hv_transfer_encoding h ch c P)"
  by (cases h) (simp_all add: hv_result_ok_def hv_transfer_encoding_def Let_def match_step_hv)

lemma hv_connection_ok: "h \<in> hv_states \<Longrightarrow> hv_result_ok P (hv_connection h ch c P)"
  by (cases h) (simp_all add: hv_result_ok_def hv_connection_def Let_def match_step_hv)

lemma hv_char_ok:
  assumes "h \<in> hv_states"
  shows "hv_result_ok P (hv_char h ch P)"
  using assms hv_content_length_num_ok [of P ch] hv_transfer_encoding_ok [OF assms]
    hv_connection_ok [OF assms]
  unfolding hv_char_def Let_def by (simp add: hv_result_ok_def)

lemma hv_scan_le: "hv_scan len data q pe = r \<Longrightarrow> q \<le> n \<Longrightarrow> pe \<le> n \<Longrightarrow>
   (case r of Inl q' \<Rightarrow> q' \<le> n | Inr q' \<Rightarrow> q' \<le> n)"
proof (induction len data q pe arbitrary: r rule: hv_scan.induct)
  case (1 len data q pe)
  show ?case
    using "1.prems" "1.IH" by (subst (asm) hv_scan.simps) (auto split: if_splits)
qed

lemma step_ok_goto_error:
  "http_errno (prs x) \<notin> {HPE_OK, HPE_PAUSED} \<Longrightarrow> pos x \<le> length data \<Longrightarrow>
   step_ok mx data p0 rk (goto_error x)"
  by (simp add: step_ok_def goto_error_def RETURN_def wf_parser_def)

text \<open>What holds whenever the loop of \<^verbatim>\<open>s_header_value\<close> comes around.\<close>

definition hv_ok :: "u32 \<Rightarrow> bytes \<Rightarrow> nat \<Rightarrow> 'u xst \<Rightarrow> bool" where
  "hv_ok mx data start x \<longleftrightarrow> cst x = s_header_value \<and> http_errno (prs x) = HPE_OK \<and>
     p_nread (prs x) \<le> mx \<and> nread x \<le> mx \<and> start < length data \<and> start \<le> pos x \<and>
     pos x \<le> length data \<and> (\<forall>m a. marks x m = Some a \<longrightarrow> m = M_header_value \<and> a \<le> start)"

lemma hv_finish_end_ok:
  assumes "hv_ok mx data start x" "pos x = length data" "h \<in> hv_states"
  shows "step_ok mx data start rk (hv_finish mx data start h x)"
proof -
  let ?y = "(upd_prs (\<lambda>P. P\<lparr>p_header_state := h\<rparr>) x)\<lparr>pos := pos x - 1\<rparr>"
  have "start < length data" "\<forall>m a. marks x m = Some a \<longrightarrow> m = M_header_value \<and> a \<le> start"
    using assms(1) by (auto simp: hv_ok_def)
  then have "marks_ok s_header_value (length data - 1) (marks x)"
    unfolding marks_ok_def by fastforce
  then have "loop_ok mx (?y\<lparr>nread := n\<rparr>)" if "n \<le> mx" for n
    using that assms by (intro loop_okI) (simp_all add: hv_ok_def fields_ok_def chunk_states_def)
  then have "step_ok mx data start rk (COUNT_HEADER_SIZE mx v ?y Next)" for v
    using assms(2) \<open>start < length data\<close> by (intro step_ok_COUNT) (auto simp: step_ok_simps)
  then show ?thesis using assms(2) by (simp add: hv_finish_def)
qed

lemma hv_finish_line_ok:
  assumes "ready mx z" "cst z \<in> free" "pos z < length data" "start \<le> pos z"
  shows "step_ok mx data start rk (hv_finish mx data start h z)"
proof -
  let ?y = "upd_prs (\<lambda>P. P\<lparr>p_header_state := h\<rparr>) z"
  have "ready mx (?y\<lparr>nread := n\<rparr>)" if "n \<le> mx" for n
    using assms that by (simp add: ready_def)
  then have "step_ok mx data start rk (COUNT_HEADER_SIZE mx v ?y Next)" for v
    using assms(3,4) by (intro step_ok_COUNT) (simp_all add: step_ok_simps ready_loop_ok)
  then show ?thesis using assms(3) by (simp add: hv_finish_def)
qed

lemma hv_line_end_ok:
  assumes "cbs_ok S" "hv_ok mx data start x" "pos x < length data" "rk > 0"
  shows "step_ok mx data start rk
      (CALLBACK_DATA S data M_header_value (upd_prs (\<lambda>P. P\<lparr>p_header_state := h\<rparr>)
         (UPDATE_STATE s_header_almost_done x)) (hv_finish mx data start h))"
    and "step_ok mx data start rk
      (COUNT_HEADER_SIZE mx v (UPDATE_STATE s_header_almost_done x) (\<lambda>x.
         CALLBACK_DATA_NOADVANCE S data M_header_value
           (upd_prs (\<lambda>P. P\<lparr>p_header_state := h\<rparr>) x) Reexecute))"
proof -
  have only: "\<forall>m a. marks x m = Some a \<longrightarrow> m = M_header_value \<and> a \<le> pos x"
    using assms(2) unfolding hv_ok_def by fastforce
  show "step_ok mx data start rk
      (CALLBACK_DATA S data M_header_value (upd_prs (\<lambda>P. P\<lparr>p_header_state := h\<rparr>)
         (UPDATE_STATE s_header_almost_done x)) (hv_finish mx data start h))"
    using assms only
    by (intro step_data_calm) (simp_all add: hv_ok_def hv_finish_line_ok)
  show "step_ok mx data start rk
      (COUNT_HEADER_SIZE mx v (UPDATE_STATE s_header_almost_done x) (\<lambda>x.
         CALLBACK_DATA_NOADVANCE S data M_header_value
           (upd_prs (\<lambda>P. P\<lparr>p_header_state := h\<rparr>) x) Reexecute))"
    using assms only
    by (intro step_ok_COUNT step_data_calm)
      (simp_all add: hv_ok_def step_ok_simps ready_switch_ok rank_def)
qed

lemma hv_loop_ok:
  assumes "cbs_ok S" "hv_ok mx data start x" "h \<in> hv_states" "rk > 0"
  shows "step_ok mx data start rk (hv_loop S mx data start h x)"
  using assms
proof (induction S mx data start h x rule: hv_loop.induct)
  case (1 S mx data start h x)
  let ?ch = "data ! pos x" and ?pe = "pos x + min (length data - pos x) (unat mx)"
  let ?x = "x\<lparr>cur_ch := data ! pos x\<rparr>"
  have ok: "hv_ok mx data start ?x" using "1.prems"(2) by (simp add: hv_ok_def)
  show ?case
  proof (cases "pos x = length data")
    case True
    with hv_finish_end_ok [OF "1.prems"(2) True "1.prems"(3)] show ?thesis
      by (subst hv_loop.simps) simp
  next
    case False
    with "1.prems"(2) have lt: "pos x < length data" by (simp add: hv_ok_def)
    show ?thesis
    proof (cases "?ch = CR \<or> ?ch = LF \<or> \<not> lenient x \<and> \<not> IS_HEADER_CHAR ?ch")
      case True
      with lt show ?thesis
        using hv_line_end_ok [OF "1.prems"(1) ok, where rk = rk] "1.prems"(4)
        by (subst hv_loop.simps) (auto simp: Let_def)
    next
      case plain: False
      show ?thesis
      proof (cases "h = h_general")
        case True
        have "case hv_scan (lenient x) data (pos x) ?pe of Inl q \<Rightarrow> q \<le> length data
            | Inr q \<Rightarrow> q \<le> length data \<and> pos x \<le> q"
          using hv_scan_le [OF refl, of "pos x" "length data" ?pe "lenient x" data] lt plain
            hv_scan_ge [of "lenient x" data "pos x" ?pe] by (auto split: sum.splits)
        moreover have "Suc (length data - Suc 0) = length data" using lt by simp
        ultimately show ?thesis
          using lt plain True "1.prems" "1.IH"(1) [OF _ _ refl refl refl]
          by (subst hv_loop.simps) (auto simp: Let_def hv_ok_def split: sum.split)
      next
        case False
        have "hv_result_ok (prs x) (hv_char h ?ch (prs x))" by (rule hv_char_ok [OF "1.prems"(3)])
        then show ?thesis
          using lt plain False "1.prems" "1.IH"(2) [OF _ _ refl refl refl]
          by (subst hv_loop.simps)
            (auto simp: Let_def hv_ok_def hv_result_ok_def SET_ERRNO_def intro!: step_ok_goto_error
              split: hv_result.splits)
      qed
    qed
  qed
qed

lemma exec_header_value_ok:
  assumes "cbs_ok S" "switch_ok mx data x" "cst x = s_header_value" "rk > 0"
  shows "step_ok mx data (pos x) rk (exec_header_value S mx data x)"
proof -
  note D = switch_okD [OF assms(2)]
  have "\<forall>m a. marks x m = Some a \<longrightarrow> m = M_header_value \<and> a \<le> pos x"
    using marks_ok_only [OF D(5), of M_header_value] assms(3) by simp
  then have "hv_ok mx data (pos x) x" using D assms(3) by (simp add: hv_ok_def)
  moreover have "p_header_state (prs x) \<in> hv_states" using D(6) assms(3) by (simp add: fields_ok_def)
  ultimately show ?thesis
    using assms(1,4) unfolding exec_header_value_def by (intro hv_loop_ok)
qed

lemma exec_header_value_start_ok:
  assumes "switch_ok mx data x" "cst x \<in> free"
  shows "step_ok mx data (pos x) rk (exec_header_value_start x)"
proof -
  note D = switch_okD [OF assms(1)]
  have "marks x = Map.empty" using D(5) free_unmarked [OF assms(2)] by simp
  then have "marks_ok s_header_value (pos x) (marks (MARK M_header_value x))"
    by (intro marks_ok_MARK) simp_all
  then have next_ok: "step_ok mx data (pos x) rk (Next y)"
    if "cst y = s_header_value" "marks y = marks (MARK M_header_value x)" "pos y = pos x"
      "nread y = nread x" "http_errno (prs y) = http_errno (prs x)"
      "p_nread (prs y) = p_nread (prs x)" "p_header_state (prs y) \<in> hv_states" for y :: "'a xst"
  proof -
    have "loop_ok mx y"
      using that D(1,3,4) \<open>marks_ok s_header_value (pos x) (marks (MARK M_header_value x))\<close>
      by (intro loop_okI) (simp_all add: fields_ok_def chunk_states_def)
    then show ?thesis using that(3) D(2) by (simp add: step_ok_simps)
  qed
  show ?thesis
    unfolding exec_header_value_start_def Let_def
    by (cases "p_header_state (prs x)") (simp_all add: next_ok D(2) less_imp_le)
qed

lemma exec_header_value_discard_ws_ok:
  assumes "switch_ok mx data x" "cst x = s_header_value_discard_ws"
  shows "step_ok mx data (pos x) rk (exec_header_value_discard_ws x)"
  using assms exec_header_value_start_ok [OF assms(1)]
  by (auto simp: exec_header_value_discard_ws_def same_frame_def free_unmarked intro!: step_next_calm)

lemma exec_header_value_discard_lws_ok:
  assumes "cbs_ok S" "switch_ok mx data x" "cst x = s_header_value_discard_lws" "rk > 2"
  shows "step_ok mx data (pos x) rk (exec_header_value_discard_lws S data x)"
proof -
  note D = switch_okD [OF assms(2)]
  have mt: "marks x = Map.empty" using D(5) free_unmarked [of "cst x"] assms(3) by simp
  let ?y = "UPDATE_STATE s_header_field_start (MARK M_header_value (upd_prs (\<lambda>P.
              P\<lparr>p_flags := p_flags P OR header_flags (p_header_state P)\<rparr>) x))"
  have "marks ?y = [M_header_value \<mapsto> pos x]" using mt by (simp add: MARK_def)
  then have 1: "step_ok mx data (pos x) rk (CALLBACK_DATA_NOADVANCE S data M_header_value ?y Reexecute)"
    using assms(1,4) D
    by (intro step_data_calm) (auto simp: step_ok_simps ready_switch_ok rank_def split: if_splits)
  have 2: "step_ok mx data (pos x) rk (Next (UPDATE_STATE s_header_value_discard_ws x))"
    by (rule step_next_calm [OF assms(2)]) (simp_all add: assms(3) same_frame_def free_unmarked)
  show ?thesis
    using 1 2 D(2) by (simp add: exec_header_value_discard_lws_def)
qed

section \<open>End of the headers\<close>

lemma exec_headers_complete_ok:
  assumes "cbs_ok S" "ready mx x" "cst x = s_headers_done" "pos x < length data" "rk > 0"
  shows "step_ok mx data (pos x) rk (exec_headers_complete S x)"
proof (cases "on_headers_complete S")
  case None
  with assms show ?thesis
    by (simp add: exec_headers_complete_def ready_def step_ok_simps ready_switch_ok rank_def)
next
  case (Some f)
  obtain r P u where f: "f (prs x) (usr x) = (r, P, u)" by (metis prod_cases3)
  with assms(1) Some have "P = prs x \<or> P = (prs x)\<lparr>http_errno := HPE_PAUSED\<rparr>"
    using cb_okD [of f, OF _ f] by (simp add: cbs_ok_def)
  then have P: "p_nread P = p_nread (prs x)" "http_errno P = HPE_OK \<or> http_errno P = HPE_PAUSED"
    using assms(2) by (auto simp: ready_def)
  have ret: "step_ok mx data (pos x) rk (RETURN (pos x) y)"
    if "cst y = s_headers_done" "nread y = nread x" "http_errno (prs y) \<noteq> HPE_OK" for y :: "'a xst"
    using that assms(2,4)
    by (intro step_ok_RETURN) (simp_all add: ready_def fields_ok_def chunk_states_def)
  have re: "step_ok mx data (pos x) rk (Reexecute y)"
    if "cst y = s_headers_done" "nread y = nread x" "pos y = pos x" "marks y = marks x"
      "http_errno (prs y) = HPE_OK" "p_nread (prs y) = p_nread (prs x)" for y :: "'a xst"
    using that assms(2,4,5)
    by (simp add: step_ok_simps ready_switch_ok rank_def ready_def)
  show ?thesis
    using assms(3) P
    by (simp add: exec_headers_complete_def Some f Let_def SET_ERRNO_def ret re)
qed

lemma step_ok_if:
  "(c \<Longrightarrow> step_ok mx data p0 rk a) \<Longrightarrow> (\<not> c \<Longrightarrow> step_ok mx data p0 rk b) \<Longrightarrow>
   step_ok mx data p0 rk (if c then a else b)"
  by simp

lemma step_notify_ready:
  assumes "ready mx y" "cb_ok cb" "e \<notin> {HPE_OK, HPE_PAUSED}" "er \<le> length data"
    and k: "\<And>z. ready mx z \<Longrightarrow> pos z = pos y \<Longrightarrow> cst z = cst y \<Longrightarrow> upgrade (prs z) = upgrade (prs y) \<Longrightarrow>
      step_ok mx data p0 rk (k z)"
  shows "step_ok mx data p0 rk (CALLBACK_NOTIFY_gen cb e er y k)"
proof (rule step_ok_NOTIFY)
  show "saved_ok mx (cst y) (prs y)" using assms(1) by (simp add: ready_def calm_saved_ok)
  show "step_ok mx data p0 rk (k (y\<lparr>prs := (prs y)\<lparr>p_state := s\<rparr>, usr := u\<rparr>))" for s u
    using assms(1) by (intro k) (simp_all add: ready_def calm_def)
qed (use assms in \<open>simp_all add: ready_def\<close>)

lemma switch_ready:
  assumes "switch_ok mx data x" "cst x \<in> unmarked" "calm y" "same_frame x y"
  shows "ready mx y"
  using assms switch_okD [OF assms(1)] by (simp add: ready_def same_frame_def)

lemma exec_headers_almost_done_ok:
  assumes "cbs_ok S" "switch_ok mx data x" "cst x = s_headers_almost_done" "rk > 0"
  shows "step_ok mx data (pos x) rk (exec_headers_almost_done S x)"
proof -
  note D = switch_okD [OF assms(2)]
  have r: "ready mx y" if "same_frame x y" "cst y \<in> free" for y :: "'a xst"
    using that assms(3) by (intro switch_ready [OF assms(2)]) (simp_all add: free_unmarked)
  let ?y = "UPDATE_STATE s_message_done x"
  have 1: "step_ok mx data (pos x) rk
      (CALLBACK_NOTIFY_NOADVANCE (on_chunk_complete S) HPE_CB_chunk_complete ?y Reexecute)"
    using D(2) assms(1,4)
    by (intro step_notify_ready r)
      (simp_all add: same_frame_def cbs_okD step_ok_simps ready_switch_ok rank_def)
  have 2: "step_ok mx data (pos x) rk (exec_headers_complete S (UPDATE_STATE s_headers_done
      (upd_prs (\<lambda>P. P\<lparr>upgrade := b\<rparr>) x)))" for b
    using exec_headers_complete_ok [OF assms(1) r,
        of "UPDATE_STATE s_headers_done (upd_prs (\<lambda>P. P\<lparr>upgrade := b\<rparr>) x)" data rk] D(2) assms(4)
    by (simp add: same_frame_def)
  show ?thesis
    unfolding exec_headers_almost_done_def
    using D(2) 1 2 by (intro step_ok_STRICT_CHECK) simp_all
qed

lemma NEW_MESSAGE_free [simp]: "NEW_MESSAGE P \<in> free"
  by (simp add: NEW_MESSAGE_def start_state_def)

lemma step_ok_RETURN_ready:
  "ready mx z \<Longrightarrow> n \<le> length data \<Longrightarrow> n = length data \<or> upgrade (prs z) \<Longrightarrow>
   step_ok mx data p0 rk (RETURN n z)"
  by (rule step_ok_RETURN) (auto simp: ready_def calm_def)

lemma exec_headers_done_ok:
  assumes "cbs_ok S" "switch_ok mx data x" "cst x = s_headers_done"
  shows "step_ok mx data (pos x) rk (exec_headers_done S x)"
proof -
  note D = switch_okD [OF assms(2)]
  have mt: "marks x = Map.empty" using D(5) free_unmarked [of "cst x"] assms(3) by simp
  let ?x = "upd_prs (\<lambda>P. P\<lparr>p_nread := 0\<rparr>) (x\<lparr>nread := 0\<rparr>)"
  have nm: "step_ok mx data (pos x) rk (CALLBACK_NOTIFY (on_message_complete S) HPE_CB_message_complete
      (UPDATE_STATE (NEW_MESSAGE (prs ?x)) ?x) k)"
    if "\<And>z. ready mx z \<Longrightarrow> pos z = pos x \<Longrightarrow> upgrade (prs z) = upgrade (prs x) \<Longrightarrow>
      step_ok mx data (pos x) rk (k z)" for k
    using that D(1,2) assms(1) mt by (intro step_notify_ready) (simp_all add: ready_def cbs_okD)
  have nm1: "step_ok mx data (pos x) rk (CALLBACK_NOTIFY (on_message_complete S) HPE_CB_message_complete
      (UPDATE_STATE (NEW_MESSAGE (prs ?x)) ?x) (\<lambda>x. RETURN (pos x + 1) x))"
    if "upgrade (prs x)"
    using D(2) that by (intro nm) (simp add: step_ok_RETURN_ready)
  have nm2: "step_ok mx data (pos x) rk (CALLBACK_NOTIFY (on_message_complete S) HPE_CB_message_complete
      (UPDATE_STATE (NEW_MESSAGE (prs ?x)) ?x) Next)"
    using D(2) by (intro nm) (simp add: step_ok_simps ready_loop_ok)
  have ret: "step_ok mx data (pos x) rk (RETURN (pos ?x) (SET_ERRNO HPE_INVALID_TRANSFER_ENCODING ?x))"
    using D(2) by (simp add: RETURN_def SET_ERRNO_def step_ok_def wf_parser_def)
  have nx: "step_ok mx data (pos x) rk (Next (UPDATE_STATE s ?x))" if "fields_ok s (prs x)" for s
    using that D(1,2) mt by (simp add: step_ok_simps loop_ok_def core_ok_def saved_ok_def)
  show ?thesis
    unfolding exec_headers_done_def Let_def
    using D(2)
    by (intro step_ok_STRICT_CHECK step_ok_if nm1 nm2 ret nx) (simp_all add: fields_ok_def chunk_states_def)
qed

section \<open>Message bodies\<close>

lemma exec_message_done_ok:
  assumes "cbs_ok S" "switch_ok mx data x" "cst x = s_message_done"
  shows "step_ok mx data (pos x) rk (exec_message_done S x)"
proof -
  note D = switch_okD [OF assms(2)]
  have "ready mx (UPDATE_STATE (NEW_MESSAGE (prs x)) x)"
    using assms(3) by (intro switch_ready [OF assms(2)]) (simp_all add: free_unmarked same_frame_def)
  then show ?thesis
    unfolding exec_message_done_def using D(2) cbs_okD(3) [OF assms(1)]
    by (intro step_notify_ready)
      (simp_all add: step_ok_simps ready_loop_ok step_ok_RETURN_ready)
qed

text \<open>A mark of the body is at or before the current position.\<close>

lemma marks_okI:
  "(\<And>m' a. mk m' = Some a \<Longrightarrow> m' = m \<and> a \<le> p) \<Longrightarrow> s \<in> mark_states m \<Longrightarrow> marks_ok s p mk"
  unfolding marks_ok_def by blast

lemma body_marks:
  assumes "switch_ok mx data x" "cst x \<in> mark_states M_body"
  shows "marks (MARK M_body x) m = Some a \<Longrightarrow> m = M_body \<and> a \<le> pos x"
  using marks_ok_only [OF switch_okD(5) [OF assms(1)] assms(2), of m a]
  by (cases "m = M_body") (auto simp: MARK_def split: if_splits)

lemma take_body_simps [simp]:
  "http_errno (prs (take_body data x)) = http_errno (prs x)"
  "p_nread (prs (take_body data x)) = p_nread (prs x)" "p_flags (prs (take_body data x)) = p_flags (prs x)"
  "nread (take_body data x) = nread x" "cst (take_body data x) = cst x"
  "marks (take_body data x) = marks (MARK M_body x)"
  by (simp_all add: take_body_def Let_def)

lemma to_read_pos:
  assumes "content_length (prs x) \<noteq> 0" "pos x < length data"
  shows "0 < to_read data x" "pos x + to_read data x \<le> length data"
  using assms by (auto simp: to_read_def word_neq_0_conv unat_gt_0)

lemma take_body_pos:
  assumes "content_length (prs x) \<noteq> 0" "pos x < length data"
  shows "pos x \<le> pos (take_body data x)" "pos (take_body data x) < length data"
    "Suc (pos (take_body data x)) = pos x + to_read data x"
  using to_read_pos [OF assms] by (auto simp: take_body_def Let_def)

lemma take_body_content_length:
  "unat (content_length (prs (take_body data x))) = unat (content_length (prs x)) - to_read data x"
proof -
  have le: "to_read data x \<le> unat (content_length (prs x))" by (simp add: to_read_def)
  then have "unat (of_nat (to_read data x) :: u64) = to_read data x"
    using unsigned_less [of "content_length (prs x)", where 'a = nat] by (simp add: unat_of_nat)
  with le show ?thesis
    by (simp add: take_body_def Let_def unat_sub word_le_nat_alt)
qed

lemma take_body_not_max:
  assumes "content_length (prs x) \<noteq> ULLONG_MAX"
  shows "content_length (prs (take_body data x)) \<noteq> ULLONG_MAX"
proof
  assume "content_length (prs (take_body data x)) = ULLONG_MAX"
  then have "ULLONG_MAX \<le> content_length (prs x)"
    using take_body_content_length [of data x] by (simp add: word_le_nat_alt)
  with assms show False by (simp add: word_order.extremum_unique)
qed

lemma exec_body_identity_ok:
  assumes "cbs_ok S" "switch_ok mx data x" "cst x = s_body_identity" "rk > 0"
  shows "step_ok mx data (pos x) rk (exec_body_identity S data x)"
proof -
  note D = switch_okD [OF assms(2)]
  let ?y = "take_body data x"
  have c: "content_length (prs x) \<noteq> 0" "content_length (prs x) \<noteq> ULLONG_MAX"
    using D(6) assms(3) by (auto simp: fields_ok_def)
  note p = take_body_pos [OF c(1) D(2)]
  have only: "m = M_body \<and> a \<le> pos ?y" if "marks ?y m = Some a" for m a
    using body_marks [OF assms(2), of m a] that assms(3) p(1) by auto
  have 1: "step_ok mx data (pos x) rk (CALLBACK_DATA_gen S data M_body (pos ?y + 1) (pos ?y)
      (UPDATE_STATE s_message_done ?y) Reexecute)"
    using only assms(1,4) D p(1,2)
    by (intro step_data_calm) (simp_all add: step_ok_simps ready_switch_ok rank_def le_SucI)
  have "marks_ok s_body_identity (pos ?y) (marks ?y)"
    by (rule marks_okI [OF only]) simp_all
  then have 2: "step_ok mx data (pos x) rk (Next ?y)" if "content_length (prs ?y) \<noteq> 0"
    using that D p c take_body_not_max [of x data] assms(3)
    by (simp add: step_ok_simps loop_okI fields_ok_def chunk_states_def)
  show ?thesis
    using c 1 2 by (simp add: exec_body_identity_def Let_def)
qed

lemma exec_body_identity_eof_ok:
  assumes "switch_ok mx data x" "cst x = s_body_identity_eof"
  shows "step_ok mx data (pos x) rk (exec_body_identity_eof data x)"
proof -
  note D = switch_okD [OF assms(1)]
  have "m = M_body \<and> a \<le> length data - 1" if "marks (MARK M_body x) m = Some a" for m a
    using body_marks [OF assms(1), of m a] that assms(2) D(2) by auto
  then have "marks_ok s_body_identity_eof (length data - 1) (marks (MARK M_body x))"
    by (rule marks_okI) simp_all
  then have "loop_ok mx ((MARK M_body x)\<lparr>pos := length data - 1\<rparr>)"
    using D assms(2) by (intro loop_okI) (simp_all add: fields_ok_def chunk_states_def)
  then show ?thesis
    using D(2) by (auto simp: exec_body_identity_eof_def step_ok_simps)
qed

section \<open>Chunks\<close>

lemma chunk_flag:
  "switch_ok mx data x \<Longrightarrow> cst x \<in> chunk_states \<Longrightarrow> has_flag (p_flags (prs x)) F_CHUNKED"
  using switch_okD(6) [of mx data x] by (simp add: fields_ok_def)

lemma exec_chunk_data_ok:
  assumes "switch_ok mx data x" "cst x = s_chunk_data"
  shows "step_ok mx data (pos x) rk (exec_chunk_data data x)"
proof -
  note D = switch_okD [OF assms(1)]
  let ?y = "take_body data x"
  have c: "content_length (prs x) \<noteq> 0" "content_length (prs x) \<noteq> ULLONG_MAX"
    "has_flag (p_flags (prs x)) F_CHUNKED"
    using D(6) assms(2) by (auto simp: fields_ok_def chunk_states_def)
  note p = take_body_pos [OF c(1) D(2)]
  have only: "m = M_body \<and> a \<le> pos ?y" if "marks ?y m = Some a" for m a
    using body_marks [OF assms(1), of m a] that assms(2) p(1) by auto
  have mk: "marks_ok s (pos ?y) (marks ?y)" if "s \<in> {s_chunk_data, s_chunk_data_almost_done}" for s
    using that by (intro marks_okI [OF only]) auto
  have 1: "step_ok mx data (pos x) rk (Next (UPDATE_STATE s_chunk_data_almost_done ?y))"
    if "content_length (prs ?y) = 0"
    using that D p c mk by (simp add: step_ok_simps loop_okI fields_ok_def chunk_states_def)
  have 2: "step_ok mx data (pos x) rk (Next ?y)" if "content_length (prs ?y) \<noteq> 0"
    using that D p c take_body_not_max [of x data] assms(2) mk
    by (simp add: step_ok_simps loop_okI fields_ok_def chunk_states_def)
  show ?thesis
    using c 1 2 by (simp add: exec_chunk_data_def Let_def)
qed
lemma unhex_range: "unhex c = - 1 \<or> 0 \<le> unhex c \<and> unhex c \<le> 15"
proof -
  have "\<forall>v \<in> set unhex_table. v = - 1 \<or> 0 \<le> v \<and> v \<le> 15" by (simp add: unhex_table_def)
  moreover have "unhex_table ! cval c \<in> set unhex_table" if "cval c < 128"
    using that by (intro nth_mem) (simp add: unhex_table_def)
  ultimately show ?thesis by (auto simp: unhex_def)
qed

lemma append_hex_digit:
  fixes n :: u64
  assumes "\<not> (ULLONG_MAX - 16) div 16 < n" "0 \<le> d" "d \<le> 15"
  shows "unat (n * 16 + of_int d) = unat n * 16 + nat d" "n * 16 + of_int d \<noteq> ULLONG_MAX"
proof -
  have "unat n \<le> unat ((ULLONG_MAX - 16) div 16 :: u64)"
    using assms(1) by (simp add: not_less word_le_nat_alt)
  also have "\<dots> = 1152921504606846974" by simp
  finally have n: "unat n \<le> 1152921504606846974" .
  have "nat d \<le> 15" using assms(3) by simp
  with n show *: "unat (n * 16 + of_int d) = unat n * 16 + nat d"
    using unat_append_digit [of n 16 "nat d"] assms(2) by simp
  show "n * 16 + of_int d \<noteq> ULLONG_MAX"
  proof
    assume "n * 16 + of_int d = ULLONG_MAX"
    with * have "unat ULLONG_MAX = unat n * 16 + nat d" by simp
    with n \<open>nat d \<le> 15\<close> show False
      by (simp add: unsigned_minus_1_eq_mask mask_eq_exp_minus_1)
  qed
qed

lemma small_not_max: "0 \<le> d \<Longrightarrow> d \<le> 15 \<Longrightarrow> of_int d \<noteq> ULLONG_MAX"
  using append_hex_digit(2) [of 0 d] by simp

lemma chunk_next_ok:
  assumes "switch_ok mx data x" "cst x \<in> chunk_states" "cst x \<in> unmarked"
    and "same_frame x y" "p_flags (prs y) = p_flags (prs x)"
    and "cst y \<in> {s_chunk_size, s_chunk_parameters, s_chunk_size_almost_done}"
    and "content_length (prs y) \<noteq> ULLONG_MAX"
  shows "step_ok mx data (pos x) rk (Next y)"
proof (rule step_next_calm [OF assms(1,3) _ assms(4)])
  show "calm y"
    using assms(4-7) chunk_flag [OF assms(1,2)]
    by (auto simp: calm_def fields_ok_def unmarked_iff)
qed

lemma exec_chunk_size_start_ok:
  assumes "switch_ok mx data x" "cst x = s_chunk_size_start"
  shows "step_ok mx data (pos x) rk (exec_chunk_size_start x)"
proof -
  note D = switch_okD [OF assms(1)]
  have st: "cst x \<in> chunk_states" "cst x \<in> unmarked"
    using assms(2) by (simp_all add: chunk_states_def unmarked_iff)
  have n: "nread x = 1" using assms by (simp add: switch_ok_def)
  show ?thesis
    using unhex_range [of "cur_ch x"] D(2) n chunk_flag [OF assms(1) st(1)]
    by (auto simp: exec_chunk_size_start_def same_frame_def small_not_max
          intro!: chunk_next_ok [OF assms(1) st])
qed

lemma exec_chunk_size_ok:
  assumes "switch_ok mx data x" "cst x = s_chunk_size"
  shows "step_ok mx data (pos x) rk (exec_chunk_size x)"
proof -
  note D = switch_okD [OF assms(1)]
  have st: "cst x \<in> chunk_states" "cst x \<in> unmarked"
    using assms(2) by (simp_all add: chunk_states_def unmarked_iff)
  have c: "content_length (prs x) \<noteq> ULLONG_MAX" using D(6) assms(2) by (simp add: fields_ok_def)
  note next_ok = chunk_next_ok [OF assms(1) st, of _ rk]
  have 1: "step_ok mx data (pos x) rk (Next (UPDATE_STATE s x))"
    if "s = s_chunk_parameters \<or> s = s_chunk_size_almost_done" for s
    using that c by (intro next_ok) (auto simp: same_frame_def)
  have 2: "step_ok mx data (pos x) rk (Next (upd_prs (\<lambda>P. P\<lparr>content_length :=
      content_length (prs x) * 16 + of_int (unhex (cur_ch x))\<rparr>) x))"
    if "unhex (cur_ch x) \<noteq> - 1" "\<not> (ULLONG_MAX - 16) div 16 < content_length (prs x)"
    using that assms(2) append_hex_digit(2) unhex_range [of "cur_ch x"]
    by (intro next_ok) (simp_all add: same_frame_def)
  show ?thesis
    using chunk_flag [OF assms(1) st(1)] D(2) 1 2 unfolding exec_chunk_size_def Let_def by simp
qed

lemma exec_chunk_parameters_ok:
  assumes "switch_ok mx data x" "cst x = s_chunk_parameters"
  shows "step_ok mx data (pos x) rk (exec_chunk_parameters x)"
proof -
  note D = switch_okD [OF assms(1)]
  have st: "cst x \<in> chunk_states" "cst x \<in> unmarked"
    using assms(2) by (simp_all add: chunk_states_def unmarked_iff)
  have c: "content_length (prs x) \<noteq> ULLONG_MAX" using D(6) assms(2) by (simp add: fields_ok_def)
  show ?thesis
    using chunk_flag [OF assms(1) st(1)] assms(2) c
    by (auto simp: exec_chunk_parameters_def same_frame_def intro!: chunk_next_ok [OF assms(1) st])
qed

lemma exec_chunk_size_almost_done_ok:
  assumes "cbs_ok S" "switch_ok mx data x" "cst x = s_chunk_size_almost_done"
  shows "step_ok mx data (pos x) rk (exec_chunk_size_almost_done S x)"
proof -
  note D = switch_okD [OF assms(2)]
  have st: "cst x \<in> chunk_states" "cst x \<in> unmarked"
    using assms(3) by (simp_all add: chunk_states_def unmarked_iff)
  note F = chunk_flag [OF assms(2) st(1)]
  have c: "content_length (prs x) \<noteq> ULLONG_MAX" using D(6) assms(3) by (simp add: fields_ok_def)
  have mt: "marks x = Map.empty" using D(5) st(2) by simp
  let ?x = "upd_prs (\<lambda>P. P\<lparr>p_nread := 0\<rparr>) (x\<lparr>nread := 0\<rparr>)"
  let ?y = "if content_length (prs ?x) = 0
              then UPDATE_STATE s_header_field_start
                     (upd_prs (\<lambda>P. P\<lparr>p_flags := p_flags P OR F_TRAILING\<rparr>) ?x)
              else UPDATE_STATE s_chunk_data ?x"
  have ok: "fields_ok (cst ?y) (prs ?y)" "cst ?y \<noteq> s_chunk_size_start" "marks ?y = Map.empty"
    "nread ?y = 0" "p_nread (prs ?y) = 0" "http_errno (prs ?y) = HPE_OK" "pos ?y = pos x"
    using F c D(1) mt by (simp_all add: fields_ok_def chunk_states_def)
  have "step_ok mx data (pos x) rk (CALLBACK_NOTIFY (on_chunk_header S) HPE_CB_chunk_header ?y Next)"
    using ok D(2) cbs_okD(4) [OF assms(1)]
    by (intro step_ok_NOTIFY) (simp_all add: saved_ok_def step_ok_simps loop_okI)
  then show ?thesis
    unfolding exec_chunk_size_almost_done_def Let_def
    using F D(2) by (simp add: STRICT_CHECK_def)
qed

lemma exec_chunk_data_almost_done_ok:
  assumes "cbs_ok S" "switch_ok mx data x" "cst x = s_chunk_data_almost_done"
  shows "step_ok mx data (pos x) rk (exec_chunk_data_almost_done S data x)"
proof -
  note D = switch_okD [OF assms(2)]
  have F: "has_flag (p_flags (prs x)) F_CHUNKED" "content_length (prs x) = 0"
    using D(6) assms(3) by (simp_all add: fields_ok_def chunk_states_def)
  have "\<forall>m a. marks x m = Some a \<longrightarrow> m = M_body \<and> a \<le> pos x"
    using marks_ok_only [OF D(5), of M_body] assms(3) by simp
  then have "step_ok mx data (pos x) rk (CALLBACK_DATA S data M_body (UPDATE_STATE s_chunk_data_done x) Next)"
    using D F assms(1)
    by (intro step_data_calm)
      (simp_all add: calm_def unmarked_iff fields_ok_def chunk_states_def step_ok_simps ready_loop_ok)
  then show ?thesis
    unfolding exec_chunk_data_almost_done_def using F D(2) by (simp add: STRICT_CHECK_def)
qed

lemma exec_chunk_data_done_ok:
  assumes "cbs_ok S" "switch_ok mx data x" "cst x = s_chunk_data_done"
  shows "step_ok mx data (pos x) rk (exec_chunk_data_done S x)"
proof -
  note D = switch_okD [OF assms(2)]
  have F: "has_flag (p_flags (prs x)) F_CHUNKED"
    using D(6) assms(3) by (simp add: fields_ok_def chunk_states_def)
  have mt: "marks x = Map.empty" using D(5) assms(3) by (simp add: unmarked_iff)
  let ?y = "UPDATE_STATE s_chunk_size_start (upd_prs (\<lambda>P. P\<lparr>p_nread := 0\<rparr>) (x\<lparr>nread := 0\<rparr>))"
  have "step_ok mx data (pos x) rk
      (CALLBACK_NOTIFY (on_chunk_complete S) HPE_CB_chunk_complete ?y Next)"
    using D(1,2) F mt cbs_okD(5) [OF assms(1)]
    by (intro step_ok_NOTIFY)
      (simp_all add: saved_ok_def fields_ok_def chunk_states_def step_ok_simps loop_ok_def core_ok_def)
  then show ?thesis
    unfolding exec_chunk_data_done_def using F D(2) by (simp add: STRICT_CHECK_def)
qed

section \<open>The whole switch\<close>

lemma rank_simps:
  "rank s_header_value_lws = 3" "rank s_header_value_discard_lws = 3" "rank s_res_status_code = 2"
  "rank s_headers_almost_done = 1" "rank s_header_value = 1" "rank s_body_identity = 1"
  by (simp_all add: rank_def)

lemma exec_switch_ok:
  assumes S: "cbs_ok S" and x: "switch_ok mx data x"
  shows "step_ok mx data (pos x) (rank (cst x)) (exec_switch S mx data x)"
proof -
  note ranked = exec_start_req_or_res_ok [OF S x] exec_res_status_start_ok [OF x]
    exec_header_field_start_ok [OF x]
  note start_line = plain_handlers_ok [OF x] exec_res_or_resp_H_ok [OF x] exec_start_res_ok [OF S x]
    exec_res_status_ok [OF S x] exec_start_req_ok [OF S x] exec_req_method_ok [OF x]
    exec_req_spaces_before_url_ok [OF x] exec_req_schema_ok [OF x] exec_req_url_ok [OF S x]
  note headers = exec_header_field_ok [OF S x] exec_header_value_discard_ws_ok [OF x]
    exec_header_value_discard_lws_ok [OF S x] exec_header_value_start_ok [OF x]
    exec_header_value_ok [OF S x] exec_headers_almost_done_ok [OF S x] exec_headers_done_ok [OF S x]
  note body = exec_body_identity_ok [OF S x] exec_body_identity_eof_ok [OF x]
    exec_message_done_ok [OF S x] exec_chunk_size_start_ok [OF x] exec_chunk_size_ok [OF x]
    exec_chunk_parameters_ok [OF x] exec_chunk_size_almost_done_ok [OF S x] exec_chunk_data_ok [OF x]
    exec_chunk_data_almost_done_ok [OF S x] exec_chunk_data_done_ok [OF S x]
  show ?thesis
    using ranked unfolding exec_switch_def
    by (cases "cst x") (simp_all add: start_line headers body rank_simps)
qed

text \<open>Four rounds of \<^verbatim>\<open>goto reexecute\<close> are always enough.\<close>

lemma exec_reexecute_ok:
  "cbs_ok S \<Longrightarrow> switch_ok mx data x \<Longrightarrow> rank (cst x) < n \<Longrightarrow>
   step_ok mx data (pos x) 0 (exec_reexecute n S mx data x)"
proof (induction n arbitrary: x)
  case (Suc n)
  have ok: "step_ok mx data (pos x) (rank (cst x)) (exec_switch S mx data x)"
    by (rule exec_switch_ok [OF Suc.prems(1,2)])
  show ?case
  proof (cases "exec_switch S mx data x")
    case (Reexecute y)
    with ok have y: "switch_ok mx data y" "pos x \<le> pos y" "rank (cst y) < rank (cst x)"
      by (simp_all add: step_ok_def)
    then have "step_ok mx data (pos y) 0 (exec_reexecute n S mx data y)"
      using Suc by simp
    with y(2) Reexecute show ?thesis by (auto simp: step_ok_def split: step.splits)
  qed (use ok in \<open>simp_all add: step_ok_def\<close>)
qed simp

lemma rank_less_fuel: "rank s < reexecute_fuel"
  by (simp add: rank_def reexecute_fuel_def)

section \<open>The loop over the bytes\<close>

text \<open>A step that may not go on past the last byte can only return.\<close>

lemma step_ok_returns:
  assumes "step_ok mx data (length data) rk r"
  obtains n P u where "r = Return n P u" "n \<le> length data" "wf_parser mx P"
    "http_errno P = HPE_OK \<longrightarrow> n = length data \<or> upgrade P"
  using assms by (cases r) (auto simp: step_ok_def switch_ok_def)

lemma loop_ok_cleared:
  assumes "loop_ok mx x"
  shows "loop_ok mx (x\<lparr>prs := (prs x)\<lparr>p_state := s\<rparr>, usr := u, marks := (marks x)(m := None)\<rparr>)"
proof -
  have "marks_ok (cst x) (pos x) ((marks x)(m := None))"
    using assms unfolding loop_ok_def core_ok_def marks_ok_def by simp
  with assms show ?thesis by (simp add: loop_ok_def core_ok_def)
qed

lemma step_data_leftover:
  assumes "cbs_ok S" "loop_ok mx x" "pos x = length data"
    and "\<And>z. loop_ok mx z \<Longrightarrow> pos z = length data \<Longrightarrow> step_ok mx data p0 rk (k z)"
  shows "step_ok mx data p0 rk (CALLBACK_DATA_NOADVANCE S data m x k)"
  using assms
  by (intro step_ok_DATA assms(4) loop_ok_cleared)
    (auto simp: loop_ok_def core_ok_def marks_ok_def)

lemma one_mark_left:
  assumes "marks_ok s p mk"
  shows "length (filter (\<lambda>m. mk m \<noteq> None) [M_header_field, M_header_value, M_url, M_body, M_status]) \<le> 1"
proof (cases "s \<in> unmarked")
  case True
  with assms show ?thesis by simp
next
  case False
  then obtain m where "s \<in> mark_states m" by (auto simp: unmarked_def)
  with assms have "mk = Map.empty \<or> (\<exists>a\<le>p. mk = [m \<mapsto> a])" by (simp add: marks_ok_one)
  then show ?thesis by (cases m) auto
qed

lemma exec_leftover_ok:
  assumes "cbs_ok S" "loop_ok mx x" "pos x = length data"
  shows "step_ok mx data (length data) 0 (exec_leftover S data x)"
proof -
  have ret: "step_ok mx data (length data) 0 (RETURN (length data) z)" if "loop_ok mx z" for z :: "'a xst"
    using that by (intro step_ok_RETURN) (simp_all add: loop_ok_def core_ok_def saved_ok_def)
  have "\<not> length (filter (\<lambda>m. marks x m \<noteq> None)
      [M_header_field, M_header_value, M_url, M_body, M_status]) > 1"
    using one_mark_left [of "cst x" "pos x" "marks x"] assms(2)
    by (simp add: loop_ok_def core_ok_def not_less)
  then show ?thesis
    unfolding exec_leftover_def if_not_P
    by (simp only: if_False) (intro step_data_leftover assms ret; assumption)
qed

lemma exec_loop_ok:
  "cbs_ok S \<Longrightarrow> loop_ok mx x \<Longrightarrow> pos x \<le> length data \<Longrightarrow> length data - pos x \<le> fuel \<Longrightarrow>
   step_ok mx data (length data) 0 (exec_loop fuel S mx data x)"
proof (induction fuel arbitrary: x)
  case 0
  then show ?case using exec_leftover_ok [of S mx x data] by (subst exec_loop.simps) simp
next
  case (Suc n)
  show ?case
  proof (cases "pos x = length data")
    case True
    with Suc.prems show ?thesis using exec_leftover_ok [of S mx x data] by (subst exec_loop.simps) simp
  next
    case False
    with Suc.prems(3) have lt: "pos x < length data" by simp
    let ?x = "x\<lparr>cur_ch := data ! pos x\<rparr>"
    let ?body = "\<lambda>x. case exec_reexecute reexecute_fuel S mx data x of
        Next x' \<Rightarrow> exec_loop n S mx data (x'\<lparr>pos := Suc (pos x')\<rparr>) | r \<Rightarrow> r"
    have body: "step_ok mx data (length data) 0 (?body z)"
      if z: "switch_ok mx data z" "pos z = pos x" for z
    proof -
      have ok: "step_ok mx data (pos z) 0 (exec_reexecute reexecute_fuel S mx data z)"
        by (rule exec_reexecute_ok [OF Suc.prems(1) z(1) rank_less_fuel])
      show ?thesis
      proof (cases "exec_reexecute reexecute_fuel S mx data z")
        case (Next y)
        with ok have y: "loop_ok mx y" "pos z \<le> pos y" "pos y < length data"
          by (simp_all add: step_ok_simps)
        then have "loop_ok mx (y\<lparr>pos := Suc (pos y)\<rparr>)"
          using marks_ok_mono [of "cst y" "pos y" "marks y" "Suc (pos y)"]
          by (simp add: loop_ok_def core_ok_def)
        then have "step_ok mx data (length data) 0 (exec_loop n S mx data (y\<lparr>pos := Suc (pos y)\<rparr>))"
          using y z(2) Suc.prems(1,4) by (intro Suc.IH) simp_all
        with Next show ?thesis by simp
      qed (use ok in \<open>simp_all add: step_ok_def\<close>)
    qed
    have sw: "switch_ok mx data (?x\<lparr>nread := n\<rparr>)"
      if "n \<le> mx" "cst x = s_chunk_size_start \<longrightarrow> n = 1" for n
      using that Suc.prems(2) lt by (simp add: loop_ok_def switch_ok_def core_ok_def)
    have "step_ok mx data (length data) 0
        (if PARSING_HEADER (cst ?x) then COUNT_HEADER_SIZE mx 1 ?x ?body else ?body ?x)"
    proof (rule step_ok_if)
      show "step_ok mx data (length data) 0 (COUNT_HEADER_SIZE mx 1 ?x ?body)"
        using Suc.prems(2) lt
        by (intro step_ok_COUNT body sw) (auto simp: loop_ok_def)
    next
      assume "\<not> PARSING_HEADER (cst ?x)"
      then have "cst x \<noteq> s_chunk_size_start" by (auto simp: PARSING_HEADER_def)
      then have "switch_ok mx data ?x"
        using sw [of "nread x"] Suc.prems(2) by (simp add: loop_ok_def core_ok_def)
      then show "step_ok mx data (length data) 0 (?body ?x)" by (intro body) simp_all
    qed
    then show ?thesis using lt by (subst exec_loop.simps) (simp add: Let_def)
  qed
qed

section \<open>The parser as a whole\<close>

lemma initial_marks_ok: "marks_ok s 0 (initial_marks s)"
  by (auto simp: initial_marks_def marks_ok_def split: if_splits)

lemma initial_loop_ok:
  assumes "wf_parser mx P" "http_errno P = HPE_OK"
  shows "loop_ok mx (initial_xst P u)"
  using assms
  by (simp add: wf_parser_def loop_ok_def core_ok_def initial_xst_def initial_marks_ok saved_ok_def)

lemma wf_parser_init: "wf_parser mx (http_parser_init t)"
  by (cases t) (simp_all add: wf_parser_def saved_ok_def fields_ok_def chunk_states_def http_parser_init_def)

lemma wf_parser_eof:
  assumes "wf_parser mx P" "http_errno P = HPE_OK" "cbs_ok S"
  shows "\<exists>P' u'. CALLBACK_NOTIFY_NOADVANCE (on_message_complete S) HPE_CB_message_complete
      (initial_xst P u) (\<lambda>x. Return 0 (prs x) (usr x)) = Return 0 P' u' \<and> wf_parser mx P'"
proof (cases "on_message_complete S")
  case None
  with assms show ?thesis by (simp add: CALLBACK_NOTIFY_gen_def initial_xst_def)
next
  case (Some f)
  obtain r Q v where f: "f P u = (r, Q, v)" by (metis prod_cases3)
  with assms(3) Some have "Q = P \<or> Q = P\<lparr>http_errno := HPE_PAUSED\<rparr>"
    using cb_okD [of f, OF _ f] by (simp add: cbs_ok_def)
  then show ?thesis
    using assms(1,2) Some f
    by (auto simp: CALLBACK_NOTIFY_gen_def initial_xst_def Let_def SET_ERRNO_def wf_parser_def)
qed

lemma execute_ok:
  assumes "cbs_ok S" "wf_parser mx P"
  shows "\<exists>n P' u'. http_parser_execute S mx P u data = Return n P' u' \<and> wf_parser mx P' \<and>
    (n \<le> length data \<or> data = [] \<and> n = 1 \<and> http_errno P' = HPE_INVALID_EOF_STATE) \<and>
    (http_errno P' = HPE_OK \<longrightarrow> n = length data \<or> upgrade P')"
proof (cases "http_errno P = HPE_OK \<and> data \<noteq> []")
  case True
  have "step_ok mx data (length data) 0 (exec_loop (length data) S mx data (initial_xst P u))"
    using initial_loop_ok [OF assms(2)] True
    by (intro exec_loop_ok [OF assms(1)]) (simp_all add: initial_xst_def)
  then obtain n P' u' where "exec_loop (length data) S mx data (initial_xst P u) = Return n P' u'"
    "n \<le> length data" "wf_parser mx P'" "http_errno P' = HPE_OK \<longrightarrow> n = length data \<or> upgrade P'"
    by (rule step_ok_returns)
  with True show ?thesis by (auto simp: http_parser_execute_def Let_def)
next
  case False
  then show ?thesis
    using assms(2) wf_parser_eof [OF assms(2) _ assms(1), of u]
    by (cases "http_errno P = HPE_OK")
      (auto simp: http_parser_execute_def Let_def SET_ERRNO_def initial_xst_def wf_parser_def)
qed

text \<open>
  C1. One call of \<^verbatim>\<open>http_parser_execute\<close> on a well-formed parser object, with callbacks that may
  fail or pause but do not rewrite the object: the call returns (neither the byte loop nor
  \<^verbatim>\<open>goto reexecute\<close> runs for ever), fails no assertion and reads no byte outside the buffer, reports
  at most \<open>length data\<close> parsed bytes (or 1 for the end of the input in the middle of a message), and
  leaves a well-formed object, whose count of header bytes is within the limit unless it is in an
  error state.  If there is no error and no upgrade, all bytes have been parsed.
\<close>

theorem execute_returns_wf:
  assumes "cbs_ok S" "wf_parser mx P"
  shows "\<exists>n P' u'. http_parser_execute S mx P u data = Return n P' u' \<and> wf_parser mx P' \<and>
    (n \<le> length data \<or> data = [] \<and> n = 1 \<and> http_errno P' = HPE_INVALID_EOF_STATE) \<and>
    (http_errno P' = HPE_OK \<longrightarrow> n = length data \<or> upgrade P')"
  by (rule execute_ok [OF assms])

lemma settings_init_ok: "cbs_ok http_parser_settings_init"
  unfolding cbs_ok_def
proof (intro conjI allI)
  fix m b
  show "cb_ok (map_option (\<lambda>f. f b) (data_cb http_parser_settings_init m))"
    by (cases m) (simp_all add: http_parser_settings_init_def cb_ok_def)
qed (simp_all add: http_parser_settings_init_def cb_ok_def)

theorem execute_returns_wf_witness:
  "\<exists>n P' u'. http_parser_execute http_parser_settings_init HTTP_MAX_HEADER_SIZE
      (http_parser_init HTTP_BOTH) () ''GET / HTTP/1.1'' = Return n P' u' \<and>
    wf_parser HTTP_MAX_HEADER_SIZE P' \<and>
    n \<le> length ''GET / HTTP/1.1''"
  using execute_returns_wf [OF settings_init_ok wf_parser_init,
      of HTTP_MAX_HEADER_SIZE HTTP_BOTH "()" "''GET / HTTP/1.1''"] by blast

end
