(* ===== verification/HttpExecuteProps.thy ===== *)
theory HttpExecuteProps
  imports HttpExecuteSafe
begin

text \<open>
  What \<^verbatim>\<open>http_parser_execute\<close> computes: the methods it recognises, the numbers it reads from
  \<^verbatim>\<open>Content-Length\<close> and chunk sizes, and the pieces of a body it delivers.
\<close>

section \<open>Sample states\<close>

definition sample_xst :: "state \<Rightarrow> http_parser \<Rightarrow> char \<Rightarrow> unit xst" where
  "sample_xst s P c =
    \<lparr>prs = P, usr = (), cst = s, nread = 0, pos = 0, cur_ch = c, marks = Map.empty,
     lenient = False, allow_chunked = False\<rparr>"

text \<open>Settings that record the body and the end of the message.\<close>

definition sample_settings :: "bytes list http_parser_settings" where
  "sample_settings = http_parser_settings_init
     \<lparr>on_body := Some (\<lambda>b P u. (0, P, u @ [b])),
      on_message_complete := Some (\<lambda>P u. (0, P, u @ [''complete'']))\<rparr>"

section \<open>Request methods\<close>

lemma next_method_prefix:
  "map_of next_method_table (m, i, c) = Some m' \<Longrightarrow>
   i < length (method_strings m') \<and> take i (method_strings m') = take i (method_strings m) \<and>
   method_strings m' ! i = c"
  by (auto simp: next_method_table_def split: if_splits)

lemma method_strings_no_NUL: "NUL \<notin> set (method_strings m)"
  by (cases m) simp_all

lemma cchar_method_NUL: "i \<le> length (method_strings m) \<Longrightarrow> cchar (method_strings m) i = NUL \<longleftrightarrow>
   i = length (method_strings m)"
  using method_strings_no_NUL [of m] by (auto simp: cchar_def) (metis nth_mem)

lemma fail_not_Next [simp]: "fail e x \<noteq> Next y" "fail e x \<noteq> Reexecute y"
  by (simp_all add: fail_def goto_error_def RETURN_def)

text \<open>What the state \<^verbatim>\<open>s_req_method\<close> remembers of the letters \<open>w\<close> read so far.\<close>

definition method_read :: "string \<Rightarrow> http_parser \<Rightarrow> bool" where
  "method_read w P \<longleftrightarrow> unat (p_index P) \<le> length (method_strings (p_method P)) \<and>
     w = take (unat (p_index P)) (method_strings (p_method P))"

text \<open>
  The letters of a request method are recognised exactly: if the letters read so far are a
  prefix of the name of the parser's current method, then after one more accepted character either
  that character extends the prefix (of the same or of another method), or the character is the
  space after the method and the letters are the whole name of the method the parser has chosen.
\<close>

theorem method_letters_exact:
  assumes "method_read w (prs x)" "cst x = s_req_method" "exec_req_method x = Next y"
  shows "cst y = s_req_method \<and> method_read (w @ [cur_ch x]) (prs y) \<or>
    cst y = s_req_spaces_before_url \<and> cur_ch x = SP \<and> w = method_strings (p_method (prs y))"
proof -
  let ?i = "unat (p_index (prs x))" and ?m = "p_method (prs x)"
  have i: "?i \<le> length (method_strings ?m)" and w: "w = take ?i (method_strings ?m)"
    using assms(1) by (simp_all add: method_read_def)
  have inc: "unat (p_index (prs x) + 1) = ?i + 1"
    using i method_strings_bounds [of ?m] by (intro unat_inc_less) simp
  have nul: "cur_ch x \<noteq> NUL" using assms(3) by (auto simp: exec_req_method_def Let_def)
  have run: "exec_req_method x =
      (let next = (\<lambda>x. Next (upd_prs (\<lambda>P. P\<lparr>p_index := p_index P + 1\<rparr>) x)) in
       if cur_ch x = SP \<and> cchar (method_strings ?m) ?i = NUL then next (UPDATE_STATE s_req_spaces_before_url x)
       else if cur_ch x = cchar (method_strings ?m) ?i then next x
       else if cval CHR ''A'' \<le> cval (cur_ch x) \<and> cval (cur_ch x) \<le> cval CHR ''Z'' \<or> cur_ch x = CHR ''-'' then
         case map_of next_method_table (?m, ?i, cur_ch x) of
           Some m \<Rightarrow> next (upd_prs (\<lambda>P. P\<lparr>p_method := m\<rparr>) x)
         | None \<Rightarrow> fail HPE_INVALID_METHOD x
       else fail HPE_INVALID_METHOD x)"
    using nul i unfolding exec_req_method_def Let_def by simp
  show ?thesis
  proof (cases "cur_ch x = SP \<and> cchar (method_strings ?m) ?i = NUL")
    case True
    then have "y = upd_prs (\<lambda>P. P\<lparr>p_index := p_index P + 1\<rparr>) (UPDATE_STATE s_req_spaces_before_url x)"
      using assms(3) run by (simp add: Let_def)
    with True show ?thesis using w i by (simp add: cchar_method_NUL)
  next
    case no_space: False
    show ?thesis
    proof (cases "cur_ch x = cchar (method_strings ?m) ?i")
      case True
      then have y: "y = upd_prs (\<lambda>P. P\<lparr>p_index := p_index P + 1\<rparr>) x"
        using assms(3) unfolding run Let_def if_not_P [OF no_space] if_P [OF True] by simp
      from True have "?i < length (method_strings ?m)" "cur_ch x = method_strings ?m ! ?i"
        using nul by (auto simp: cchar_def split: if_splits)
      with y w inc assms(2) show ?thesis by (simp add: method_read_def take_Suc_conv_app_nth)
    next
      case False
      then obtain m' where "map_of next_method_table (?m, ?i, cur_ch x) = Some m'"
        and y: "y = upd_prs (\<lambda>P. P\<lparr>p_index := p_index P + 1\<rparr>) (upd_prs (\<lambda>P. P\<lparr>p_method := m'\<rparr>) x)"
        using assms(3) unfolding run Let_def if_not_P [OF no_space] if_not_P [OF False]
        by (auto split: if_split_asm option.split_asm)
      from next_method_prefix [OF this(1)] y w inc assms(2) show ?thesis
        by (simp add: method_read_def take_Suc_conv_app_nth)
    qed
  qed
qed

theorem method_letters_exact_witness:
  "\<exists>y. exec_req_method (sample_xst s_req_method
      ((http_parser_init HTTP_REQUEST)\<lparr>p_method := HTTP_POST, p_index := 1\<rparr>) CHR ''U'') = Next y \<and>
    method_read ''PU'' (prs y) \<and> p_method (prs y) = HTTP_PUT"
proof -
  let ?x = "sample_xst s_req_method
      ((http_parser_init HTTP_REQUEST)\<lparr>p_method := HTTP_POST, p_index := 1\<rparr>) CHR ''U''"
  let ?y = "upd_prs (\<lambda>P. P\<lparr>p_index := p_index P + 1, p_method := HTTP_PUT\<rparr>) ?x"
  have y: "exec_req_method ?x = Next ?y"
    by (simp add: exec_req_method_def sample_xst_def Let_def cchar_def next_method_table_def cval_def)
  have "method_read ''P'' (prs ?x)" by (simp add: method_read_def sample_xst_def)
  from method_letters_exact [OF this _ y] have "method_read ''PU'' (prs ?y)"
    by (simp add: sample_xst_def)
  with y show ?thesis by auto
qed

text \<open>
  Every method of the table is recognised: a request parser that reads the name of a method and
  a space consumes all of it and has stored that method.
\<close>

theorem methods_recognised:
  "case http_parser_execute http_parser_settings_init HTTP_MAX_HEADER_SIZE
      (http_parser_init HTTP_REQUEST) () (method_strings m @ '' '') of
     Return n P u \<Rightarrow> n = length (method_strings m) + 1 \<and> http_errno P = HPE_OK \<and>
       p_state P = s_req_spaces_before_url \<and> p_method P = m
   | _ \<Rightarrow> False"
  by (cases m) (simp only: method_strings.simps append.simps list.size; code_simp)+
section \<open>Numbers\<close>

text \<open>The value of a number written in base \<open>b\<close>, most significant digit first, after \<open>v\<close>.\<close>

primrec digits_value :: "nat \<Rightarrow> nat \<Rightarrow> nat list \<Rightarrow> nat" where
  "digits_value b v [] = v"
| "digits_value b v (d # ds) = digits_value b (v * b + d) ds"

lemma digits_value_ge: "1 \<le> b \<Longrightarrow> v \<le> digits_value b v ds"
proof (induction ds arbitrary: v)
  case (Cons d ds)
  have "v \<le> v * b + d" using Cons.prems by (simp add: trans_le_add1)
  also have "\<dots> \<le> digits_value b (v * b + d) ds" by (rule Cons.IH [OF Cons.prems])
  finally show ?case by simp
qed simp

text \<open>The characters of a \<^verbatim>\<open>Content-Length\<close> value, one after the other.\<close>

fun content_length_chars :: "string \<Rightarrow> http_parser \<Rightarrow> hv_result" where
  "content_length_chars [] P = Hv_ok h_content_length_num P"
| "content_length_chars (c # cs) P =
    (case hv_char h_content_length_num c P of
       Hv_ok h P' \<Rightarrow> if h = h_content_length_num then content_length_chars cs P' else Hv_ok h P'
     | r \<Rightarrow> r)"

lemma content_length_limit:
  "(ULLONG_MAX - 10) div 10 < (n::u64) \<longleftrightarrow> 18446744073709551610 \<le> unat n * 10"
proof -
  have "unat ((ULLONG_MAX - 10) div 10 :: u64) = 1844674407370955160" by simp
  then show ?thesis by (simp add: word_less_nat_alt) linarith
qed

text \<open>
  A run of decimal digits in a \<^verbatim>\<open>Content-Length\<close> header adds up to the number it denotes, with
  no wrap-around of the 64-bit counter: the field is that number when it is below
  18446744073709551610, and otherwise the header is refused.
\<close>

theorem content_length_value:
  assumes "\<forall>c \<in> set cs. IS_NUM c"
    and "v = digits_value 10 (unat (content_length P)) (map digit_val cs)"
    and "unat (content_length P) < 18446744073709551610"
  shows "if v < 18446744073709551610
    then \<exists>w. content_length_chars cs P = Hv_ok h_content_length_num (P\<lparr>content_length := w\<rparr>) \<and>
           unat w = v
    else \<exists>P'. content_length_chars cs P = Hv_err HPE_INVALID_CONTENT_LENGTH h_content_length_num P'"
  using assms
proof (induction cs arbitrary: P)
  case Nil
  then show ?case by (auto intro!: exI [of _ "content_length P"])
next
  case (Cons c cs)
  let ?n = "content_length P" and ?d = "digit_val c"
  have num: "IS_NUM c" "c \<noteq> SP" using Cons.prems(1) by (auto simp: IS_NUM_def cval_def)
  then have d: "?d \<le> 9" by simp
  show ?case
  proof (cases "(ULLONG_MAX - 10) div 10 < ?n")
    case True
    then have "unat ?n * 10 \<ge> 18446744073709551610" unfolding content_length_limit .
    moreover have "unat ?n * 10 + ?d \<le> v"
      using Cons.prems(2) digits_value_ge [of 10 "unat ?n * 10 + ?d" "map digit_val cs"] by simp
    ultimately have "\<not> v < 18446744073709551610" by simp
    with True num show ?thesis by (simp add: hv_char_def hv_content_length_num_def)
  next
    case False
    let ?P = "P\<lparr>content_length := ?n * 10 + of_nat ?d\<rparr>"
    have lim: "unat ?n * 10 + 9 < 18446744073709551610"
      using False unfolding content_length_limit by presburger
    then have n: "unat (?n * 10 + of_nat ?d) = unat ?n * 10 + ?d"
      using d unat_append_digit [of ?n 10 ?d] by simp
    have lim': "unat ?n * 10 + ?d < 18446744073709551610" using lim d by linarith
    have step: "content_length_chars (c # cs) P = content_length_chars cs ?P"
      using False num by (simp add: hv_char_def hv_content_length_num_def Let_def)
    have "if v < 18446744073709551610
        then \<exists>w. content_length_chars cs ?P = Hv_ok h_content_length_num (?P\<lparr>content_length := w\<rparr>) \<and>
               unat w = v
        else \<exists>P'. content_length_chars cs ?P = Hv_err HPE_INVALID_CONTENT_LENGTH h_content_length_num P'"
      using Cons.prems n lim' by (intro Cons.IH) simp_all
    then show ?thesis unfolding step by (simp split: if_split_asm)
  qed
qed

theorem content_length_value_witness:
  "\<exists>P'. content_length_chars ''42'' (http_parser_init HTTP_REQUEST) = Hv_ok h_content_length_num P' \<and>
    unat (content_length P') = 42"
  using content_length_value [of "''42''" 42 "http_parser_init HTTP_REQUEST"]
  by (auto simp: http_parser_init_def IS_NUM_def digit_val_def cval_def)

text \<open>The characters of a chunk size, each with the switch entered in \<^verbatim>\<open>s_chunk_size\<close>.\<close>

fun chunk_size_chars :: "string \<Rightarrow> 'u xst \<Rightarrow> 'u step" where
  "chunk_size_chars [] x = Next x"
| "chunk_size_chars (c # cs) x =
    (case exec_chunk_size (x\<lparr>cur_ch := c\<rparr>) of Next y \<Rightarrow> chunk_size_chars cs y | r \<Rightarrow> r)"

lemma chunk_size_limit:
  "(ULLONG_MAX - 16) div 16 < (n::u64) \<longleftrightarrow> 18446744073709551600 \<le> unat n * 16"
proof -
  have "unat ((ULLONG_MAX - 16) div 16 :: u64) = 1152921504606846974" by simp
  then show ?thesis by (simp add: word_less_nat_alt) linarith
qed

text \<open>
  C18. A run of hexadecimal digits of a chunk size adds up to the number it denotes, with no
  wrap-around: the size is that number when it is below 18446744073709551600, and otherwise the call
  returns with \<^verbatim>\<open>HPE_INVALID_CONTENT_LENGTH\<close>.
\<close>

theorem chunk_size_value:
  assumes "\<forall>c \<in> set cs. unhex c \<noteq> - 1 \<and> c \<noteq> CR" "has_flag (p_flags (prs x)) F_CHUNKED"
    and "v = digits_value 16 (unat (content_length (prs x))) (map (\<lambda>c. nat (unhex c)) cs)"
    and "unat (content_length (prs x)) < 18446744073709551600"
  shows "if v < 18446744073709551600
    then \<exists>y. chunk_size_chars cs x = Next y \<and> unat (content_length (prs y)) = v \<and> cst y = cst x
    else \<exists>n P u. chunk_size_chars cs x = Return n P u \<and> http_errno P = HPE_INVALID_CONTENT_LENGTH"
  using assms
proof (induction cs arbitrary: x)
  case Nil
  then show ?case by simp
next
  case (Cons c cs)
  let ?n = "content_length (prs x)" and ?d = "unhex c"
  have hex: "?d \<noteq> - 1" "c \<noteq> CR" using Cons.prems(1) by auto
  then have d: "0 \<le> ?d" "?d \<le> 15" using unhex_range [of c] by auto
  show ?case
  proof (cases "(ULLONG_MAX - 16) div 16 < ?n")
    case True
    then have "18446744073709551600 \<le> unat ?n * 16" unfolding chunk_size_limit .
    moreover have "unat ?n * 16 + nat ?d \<le> v"
      using Cons.prems(3) digits_value_ge [of 16 "unat ?n * 16 + nat ?d" "map (\<lambda>c. nat (unhex c)) cs"] by simp
    ultimately have "\<not> v < 18446744073709551600" by simp
    with True hex Cons.prems(2) show ?thesis
      by (simp add: exec_chunk_size_def fail_def goto_error_def RETURN_def SET_ERRNO_def)
  next
    case False
    let ?y = "upd_prs (\<lambda>P. P\<lparr>content_length := ?n * 16 + of_int ?d\<rparr>) (x\<lparr>cur_ch := c\<rparr>)"
    have step: "chunk_size_chars (c # cs) x = chunk_size_chars cs ?y"
      using False hex Cons.prems(2) by (simp add: exec_chunk_size_def Let_def)
    have lim: "unat ?n * 16 + 15 < 18446744073709551600"
      using False unfolding chunk_size_limit by presburger
    have lim': "unat ?n * 16 + nat ?d < 18446744073709551600" using lim d by linarith
    have "if v < 18446744073709551600
        then \<exists>y. chunk_size_chars cs ?y = Next y \<and> unat (content_length (prs y)) = v \<and> cst y = cst ?y
        else \<exists>n P u. chunk_size_chars cs ?y = Return n P u \<and> http_errno P = HPE_INVALID_CONTENT_LENGTH"
      using Cons.prems append_hex_digit(1) [OF False d] lim' by (intro Cons.IH) simp_all
    then show ?thesis unfolding step by (simp split: if_split_asm)
  qed
qed

theorem chunk_size_value_witness:
  "\<exists>y. chunk_size_chars ''1A'' (sample_xst s_chunk_size ((http_parser_init HTTP_REQUEST)
      \<lparr>p_flags := F_CHUNKED, content_length := 2\<rparr>) NUL) = Next y \<and> unat (content_length (prs y)) = 538"
proof -
  have "unhex CHR ''1'' = 1" "unhex CHR ''A'' = 10" by code_simp+
  then show ?thesis
    using chunk_size_value [of "''1A''" "sample_xst s_chunk_size ((http_parser_init HTTP_REQUEST)
        \<lparr>p_flags := F_CHUNKED, content_length := 2\<rparr>) NUL" 538]
    by (auto simp: sample_xst_def has_flag_def F_CHUNKED_def)
qed

section \<open>Message bodies\<close>

lemma leftover_body:
  assumes "marks x = [M_body \<mapsto> a]" "a \<le> length data" "pos x = length data"
    and "http_errno (prs x) = HPE_OK" "on_body S = Some f" "p_state (prs x) = cst x"
    and "f (drop a data) (prs x) (usr x) = (0, prs x, u')"
  shows "exec_leftover S data x = Return (length data) ((prs x)\<lparr>p_nread := nread x\<rparr>) u'"
proof -
  have sl: "slice_of a (length data - a) data = drop a data" by (simp add: slice_of_def)
  have P: "(prs x)\<lparr>p_state := cst x\<rparr> = prs x" using assms(6) by simp
  show ?thesis
    using assms by (simp add: exec_leftover_def CALLBACK_DATA_gen_def sl P RETURN_def Let_def)
qed

text \<open>
  A piece of a body of known length that does not complete it is delivered whole and once: the
  call hands exactly the bytes of the buffer to \<^verbatim>\<open>on_body\<close>, consumes all of them and lowers the
  number of missing bytes by their number.
\<close>

theorem body_part_delivered:
  assumes "http_errno P = HPE_OK" "p_state P = s_body_identity" "content_length P \<noteq> ULLONG_MAX"
    and "data \<noteq> []" "length data < unat (content_length P)" "on_body S = Some f"
    and "Q = P\<lparr>content_length := content_length P - of_nat (length data)\<rparr>"
    and "f data Q u = (0, Q, u')"
  shows "http_parser_execute S mx P u data = Return (length data) Q u' \<and>
    unat (content_length Q) = unat (content_length P) - length data"
proof -
  let ?x = "\<lparr>prs = P, usr = u, cst = s_body_identity, nread = p_nread P, pos = 0, cur_ch = data ! 0,
     marks = Map.empty, lenient = lenient_http_headers P, allow_chunked = allow_chunked_length P\<rparr>"
  let ?y = "?x\<lparr>prs := Q, marks := [M_body \<mapsto> 0], pos := length data - 1\<rparr>"
  have n: "to_read data ?x = length data" using assms(5) by (simp add: to_read_def)
  then have y: "take_body data ?x = ?y" using assms(7) by (simp add: take_body_def MARK_def Let_def)
  have q: "unat (content_length Q) = unat (content_length P) - length data"
    using take_body_content_length [of data ?x] n unfolding y by simp
  then have "content_length Q \<noteq> 0" "content_length P \<noteq> 0" using assms(5) by auto
  then have "exec_switch S mx data ?x = Next ?y"
    using assms(3) by (simp add: exec_switch_def exec_body_identity_def y Let_def)
  then have re: "exec_reexecute reexecute_fuel S mx data ?x = Next ?y"
    by (simp add: reexecute_fuel_def numeral_eq_Suc)
  obtain k where k: "length data = Suc k" using assms(4) by (cases data) auto
  have "exec_loop (length data) S mx data (initial_xst P u) =
      exec_loop k S mx data (?y\<lparr>pos := length data\<rparr>)"
    using re assms(2) k
    by (subst exec_loop.simps)
      (simp add: initial_xst_def initial_marks_def PARSING_HEADER_def Let_def)
  also have "\<dots> = exec_leftover S data (?y\<lparr>pos := length data\<rparr>)"
    by (subst exec_loop.simps) simp
  also have "\<dots> = Return (length data) Q u'"
    using leftover_body [of "?y\<lparr>pos := length data\<rparr>" 0 data S f u'] assms by simp
  finally show ?thesis
    using assms(1,4) q by (simp add: http_parser_execute_def Let_def)
qed
definition sample_body :: "u64 \<Rightarrow> http_parser" where
  "sample_body n = (http_parser_init HTTP_REQUEST)
     \<lparr>p_state := s_body_identity, content_length := n, http_major := 1, http_minor := 1\<rparr>"

theorem body_part_delivered_witness:
  "http_parser_execute sample_settings 100 (sample_body 5) [] ''abc'' =
     Return 3 (sample_body 2) [''abc'']"
  using body_part_delivered [of "sample_body 5" "''abc''" sample_settings
      "\<lambda>b P u. (0, P, u @ [b])" "sample_body 2" "[]" "[''abc'']" 100]
  by (simp add: sample_body_def sample_settings_def http_parser_init_def)

text \<open>
  The last piece of a body of known length: exactly its bytes go to \<^verbatim>\<open>on_body\<close>, then
  \<^verbatim>\<open>on_message_complete\<close> is called with the parser already set up for the next message (or dead, if
  the connection is not to be kept), and all bytes are consumed.
\<close>

theorem body_completed:
  assumes "http_errno P = HPE_OK" "p_state P = s_body_identity" "content_length P \<noteq> ULLONG_MAX"
    and "data \<noteq> []" "length data = unat (content_length P)"
    and "on_body S = Some f" "on_message_complete S = Some g"
    and "Q = P\<lparr>content_length := 0, p_state := s_message_done\<rparr>" "R = Q\<lparr>p_state := NEW_MESSAGE Q\<rparr>"
    and "f data Q u = (0, Q, u1)" "g R u1 = (0, R, u2)"
  shows "http_parser_execute S mx P u data = Return (length data) R u2"
proof -
  let ?x = "\<lparr>prs = P, usr = u, cst = s_body_identity, nread = p_nread P, pos = 0, cur_ch = data ! 0,
     marks = Map.empty, lenient = lenient_http_headers P, allow_chunked = allow_chunked_length P\<rparr>"
  let ?y = "?x\<lparr>prs := P\<lparr>content_length := 0\<rparr>, marks := [M_body \<mapsto> 0], pos := length data - 1\<rparr>"
  let ?z = "?y\<lparr>prs := Q, usr := u1, cst := s_message_done, marks := Map.empty\<rparr>"
  let ?w = "?z\<lparr>prs := R, usr := u2, cst := NEW_MESSAGE Q\<rparr>"
  have c: "content_length P \<noteq> 0" "of_nat (length data) = content_length P"
    using assms(4,5) by (auto simp: length_0_conv [symmetric] simp del: length_0_conv)
  have n: "to_read data ?x = length data" using assms(5) by (simp add: to_read_def)
  then have y: "take_body data ?x = ?y" using c by (simp add: take_body_def MARK_def Let_def)
  have len: "Suc (length data - Suc 0) = length data" using assms(4) by (cases data) auto
  have all: "slice_of 0 (length data) data = data" by (simp add: slice_of_def)
  have "exec_switch S mx data ?x = Reexecute ?z"
    using assms(1,3,6,8,10) c len all
    by (simp add: exec_switch_def exec_body_identity_def y Let_def CALLBACK_DATA_gen_def)
  moreover have "exec_switch S mx data ?z =
      (if upgrade R then RETURN (length data) ?w else Next ?w)"
    using assms(1,7,8,9,11) len
    by (simp add: exec_switch_def exec_message_done_def CALLBACK_NOTIFY_gen_def Let_def)
  ultimately have re: "exec_reexecute reexecute_fuel S mx data ?x =
      (if upgrade R then RETURN (length data) ?w else Next ?w)"
    by (simp add: reexecute_fuel_def numeral_eq_Suc RETURN_def)
  obtain k where k: "length data = Suc k" using assms(4) by (cases data) auto
  have R: "R\<lparr>p_nread := p_nread P, p_state := NEW_MESSAGE Q\<rparr> = R" using assms(8,9) by simp
  have lo: "exec_leftover S data (?w\<lparr>pos := length data\<rparr>) = Return (length data) R u2"
    using assms(1,8,9) R by (simp add: exec_leftover_def CALLBACK_DATA_gen_def RETURN_def)
  have "exec_loop (length data) S mx data (initial_xst P u) = Return (length data) R u2"
    using re assms(2) k lo R
    by (subst exec_loop.simps)
      (simp add: initial_xst_def initial_marks_def PARSING_HEADER_def Let_def RETURN_def exec_loop.simps)
  then show ?thesis
    using assms(1,4) by (simp add: http_parser_execute_def Let_def)
qed
theorem body_completed_witness:
  "http_parser_execute sample_settings 100 (sample_body 3) [] ''abc'' =
     Return 3 ((sample_body 0)\<lparr>p_state := s_start_req\<rparr>) [''abc'', ''complete'']"
proof -
  have "NEW_MESSAGE ((sample_body 3)\<lparr>content_length := 0, p_state := s_message_done\<rparr>) = s_start_req"
    by (simp add: sample_body_def http_parser_init_def NEW_MESSAGE_def start_state_def
          http_should_keep_alive_def http_message_needs_eof_def)
  then show ?thesis
    using body_completed [of "sample_body 3" "''abc''" sample_settings "\<lambda>b P u. (0, P, u @ [b])"
        "\<lambda>P u. (0, P, u @ [''complete''])" "(sample_body 0)\<lparr>p_state := s_message_done\<rparr>"
        "(sample_body 0)\<lparr>p_state := s_start_req\<rparr>" "[]" "[''abc'']" "[''abc'', ''complete'']" 100]
    by (simp add: sample_body_def sample_settings_def http_parser_init_def)
qed

end
