(* ===== verification/Http.thy ===== *)
theory Http
  imports Prelude
begin

text \<open>
  \<^verbatim>\<open>http/http.h\<close> and \<^verbatim>\<open>http/http.cpp\<close>: methods, status codes, requests and responses and how they are
  printed.  \<^verbatim>\<open>HttpMethod\<close> and \<^verbatim>\<open>HttpStatus\<close> are enumerations into which the code casts arbitrary
  numbers, so they are numbers here.  The header maps are ordered by \<^verbatim>\<open>CaseInsensitiveLess\<close>, which is
  not an order (see \<open>CaseInsensitiveLess_no_order\<close>); what \<^verbatim>\<open>std::map\<close> does with it is left open by the
  standard, so a map is an abstract value and its operations are arguments (\<open>map_ops\<close>).
\<close>

section \<open>Methods and status codes\<close>

type_synonym HttpMethod = nat
type_synonym HttpStatus = nat

definition HTTP_METHOD_MAP :: "(nat \<times> string) list" where
  "HTTP_METHOD_MAP = [(0, ''DELETE''), (1, ''GET''), (2, ''HEAD''), (3, ''POST''), (4, ''PUT'')]"

definition INVALID_METHOD :: HttpMethod where "INVALID_METHOD = 5"
definition METHOD_GET :: HttpMethod where "METHOD_GET = 1"
definition STATUS_OK :: HttpStatus where "STATUS_OK = 200"

definition HTTP_STATUS_MAP :: "(nat \<times> string) list" where
  "HTTP_STATUS_MAP =
    [(100, ''Continue''), (101, ''Switching Protocols''), (102, ''Processing''), (200, ''OK''),
     (201, ''Created''), (202, ''Accepted''), (203, ''Non - Authoritative Information''),
     (204, ''No Content''), (205, ''Reset Content''), (206, ''Partial Content''),
     (207, ''Multi - Status''), (208, ''Already Reported''), (226, ''IM Used''),
     (300, ''Multiple Choices''), (301, ''Moved Permanently''), (302, ''Found''), (303, ''See Other''),
     (304, ''Not Modified''), (305, ''Use Proxy''), (307, ''Temporary Redirect''),
     (308, ''Permanent Redirect''), (400, ''Bad Request''), (401, ''Unauthorized''),
     (402, ''Payment Required''), (403, ''Forbidden''), (404, ''Not Found''),
     (405, ''Method Not Allowed''), (406, ''Not Acceptable''), (407, ''Proxy Authentication Required''),
     (408, ''Request Timeout''), (409, ''Conflict''), (410, ''Gone''), (411, ''Length Required''),
     (412, ''Precondition Failed''), (413, ''Payload Too Large''), (414, ''URI Too Long''),
     (415, ''Unsupported Media Type''), (416, ''Range Not Satisfiable''), (417, ''Expectation Failed''),
     (421, ''Misdirected Request''), (422, ''Unprocessable Entity''), (423, ''Locked''),
     (424, ''Failed Dependency''), (426, ''Upgrade Required''), (428, ''Precondition Required''),
     (429, ''Too Many Requests''), (431, ''Request Header Fields Too Large''),
     (451, ''Unavailable For Legal Reasons''), (500, ''Internal Server Error''),
     (501, ''Not Implemented''), (502, ''Bad Gateway''), (503, ''Service Unavailable''),
     (504, ''Gateway Timeout''), (505, ''HTTP Version Not Supported''), (506, ''Variant Also Negotiates''),
     (507, ''Insufficient Storage''), (508, ''Loop Detected''), (510, ''Not Extended''),
     (511, ''Network Authentication Required'')]"

text \<open>A C string ends at the first NUL.\<close>

definition c_str :: "string \<Rightarrow> string" where
  "c_str s = takeWhile (\<lambda>c. c \<noteq> NUL) s"

definition StringToHttpMethod :: "string \<Rightarrow> HttpMethod" where
  "StringToHttpMethod m =
    (case filter (\<lambda>(n, s). s = c_str m) HTTP_METHOD_MAP of
       [] \<Rightarrow> INVALID_METHOD | (n, _) # _ \<Rightarrow> n)"

text \<open>\<^verbatim>\<open>strncmp(name, method, strlen(name)) == 0\<close> for a C string \<open>m\<close>.\<close>

definition CharsToHttpMethod :: "string \<Rightarrow> HttpMethod" where
  "CharsToHttpMethod m =
    (case filter (\<lambda>(n, s). s = take (length s) (c_str m)) HTTP_METHOD_MAP of
       [] \<Rightarrow> INVALID_METHOD | (n, _) # _ \<Rightarrow> n)"

definition s_method_string :: "string list" where
  "s_method_string = map snd HTTP_METHOD_MAP"

definition HttpMethodToString :: "HttpMethod \<Rightarrow> string" where
  "HttpMethodToString idx =
    (if idx \<ge> length s_method_string then ''<unknown>'' else s_method_string ! idx)"

definition HttpStatusToString :: "HttpStatus \<Rightarrow> string" where
  "HttpStatusToString status =
    (case map_of HTTP_STATUS_MAP status of None \<Rightarrow> ''<unknown>'' | Some msg \<Rightarrow> msg)"

section \<open>Case-insensitive comparison\<close>

definition tolower :: "char \<Rightarrow> char" where
  "tolower c = (if 65 \<le> cval c \<and> cval c \<le> 90 then char_of (cval c + 32) else c)"

fun strcasecmp :: "string \<Rightarrow> string \<Rightarrow> int" where
  "strcasecmp [] [] = 0"
| "strcasecmp (c # cs) [] = int (cval (tolower c))"
| "strcasecmp [] (d # ds) = - int (cval (tolower d))"
| "strcasecmp (c # cs) (d # ds) =
    (if tolower c \<noteq> tolower d then int (cval (tolower c)) - int (cval (tolower d))
     else strcasecmp cs ds)"

definition CaseInsensitiveLess :: "string \<Rightarrow> string \<Rightarrow> bool" where
  "CaseInsensitiveLess lhs rhs \<longleftrightarrow> strcasecmp (c_str lhs) (c_str rhs) \<noteq> 0"

section \<open>Requests and responses\<close>

record 'm map_ops =
  map_empty :: 'm
  map_find :: "'m \<Rightarrow> string \<Rightarrow> string option"
  map_set :: "'m \<Rightarrow> string \<Rightarrow> string \<Rightarrow> 'm"
  map_erase :: "'m \<Rightarrow> string \<Rightarrow> 'm"
  map_entries :: "'m \<Rightarrow> (string \<times> string) list"

record 'm HttpRequest =
  req_method :: HttpMethod
  req_version :: u8
  req_close :: bool
  req_path :: string
  req_query :: string
  req_fragment :: string
  req_body :: string
  req_headers :: 'm
  req_params :: 'm
  req_cookies :: 'm

record 'm HttpResponse =
  rsp_status :: HttpStatus
  rsp_version :: u8
  rsp_close :: bool
  rsp_body :: string
  rsp_reason :: string
  rsp_headers :: 'm

definition new_HttpRequest :: "'m map_ops \<Rightarrow> u8 \<Rightarrow> bool \<Rightarrow> 'm HttpRequest" where
  "new_HttpRequest ops version close =
    \<lparr>req_method = METHOD_GET, req_version = version, req_close = close, req_path = ''/'',
     req_query = [], req_fragment = [], req_body = [], req_headers = map_empty ops,
     req_params = map_empty ops, req_cookies = map_empty ops\<rparr>"

definition new_HttpResponse :: "'m map_ops \<Rightarrow> u8 \<Rightarrow> bool \<Rightarrow> 'm HttpResponse" where
  "new_HttpResponse ops version close =
    \<lparr>rsp_status = STATUS_OK, rsp_version = version, rsp_close = close, rsp_body = [],
     rsp_reason = [], rsp_headers = map_empty ops\<rparr>"

definition map_get :: "'m map_ops \<Rightarrow> 'm \<Rightarrow> string \<Rightarrow> string \<Rightarrow> string" where
  "map_get ops m key dflt = (case map_find ops m key of None \<Rightarrow> dflt | Some v \<Rightarrow> v)"

definition getHeader :: "'m map_ops \<Rightarrow> string \<Rightarrow> string \<Rightarrow> 'm HttpRequest \<Rightarrow> string" where
  "getHeader ops key dflt r = map_get ops (req_headers r) key dflt"

definition getParam :: "'m map_ops \<Rightarrow> string \<Rightarrow> string \<Rightarrow> 'm HttpRequest \<Rightarrow> string" where
  "getParam ops key dflt r = map_get ops (req_params r) key dflt"

definition getCookie :: "'m map_ops \<Rightarrow> string \<Rightarrow> string \<Rightarrow> 'm HttpRequest \<Rightarrow> string" where
  "getCookie ops key dflt r = map_get ops (req_cookies r) key dflt"

definition setHeader :: "'m map_ops \<Rightarrow> string \<Rightarrow> string \<Rightarrow> 'm HttpRequest \<Rightarrow> 'm HttpRequest" where
  "setHeader ops key v r = r\<lparr>req_headers := map_set ops (req_headers r) key v\<rparr>"

definition setParam :: "'m map_ops \<Rightarrow> string \<Rightarrow> string \<Rightarrow> 'm HttpRequest \<Rightarrow> 'm HttpRequest" where
  "setParam ops key v r = r\<lparr>req_params := map_set ops (req_params r) key v\<rparr>"

definition setCookie :: "'m map_ops \<Rightarrow> string \<Rightarrow> string \<Rightarrow> 'm HttpRequest \<Rightarrow> 'm HttpRequest" where
  "setCookie ops key v r = r\<lparr>req_cookies := map_set ops (req_cookies r) key v\<rparr>"

definition delHeader :: "'m map_ops \<Rightarrow> string \<Rightarrow> 'm HttpRequest \<Rightarrow> 'm HttpRequest" where
  "delHeader ops key r = r\<lparr>req_headers := map_erase ops (req_headers r) key\<rparr>"

definition delParam :: "'m map_ops \<Rightarrow> string \<Rightarrow> 'm HttpRequest \<Rightarrow> 'm HttpRequest" where
  "delParam ops key r = r\<lparr>req_params := map_erase ops (req_params r) key\<rparr>"

definition delCookie :: "'m map_ops \<Rightarrow> string \<Rightarrow> 'm HttpRequest \<Rightarrow> 'm HttpRequest" where
  "delCookie ops key r = r\<lparr>req_cookies := map_erase ops (req_cookies r) key\<rparr>"

text \<open>The \<^verbatim>\<open>has\<close> functions return the value through their second argument.\<close>

definition hasHeader :: "'m map_ops \<Rightarrow> string \<Rightarrow> 'm HttpRequest \<Rightarrow> string option" where
  "hasHeader ops key r = map_find ops (req_headers r) key"

definition hasParam :: "'m map_ops \<Rightarrow> string \<Rightarrow> 'm HttpRequest \<Rightarrow> string option" where
  "hasParam ops key r = map_find ops (req_params r) key"

definition hasCookie :: "'m map_ops \<Rightarrow> string \<Rightarrow> 'm HttpRequest \<Rightarrow> string option" where
  "hasCookie ops key r = map_find ops (req_cookies r) key"

definition rsp_getHeader :: "'m map_ops \<Rightarrow> string \<Rightarrow> string \<Rightarrow> 'm HttpResponse \<Rightarrow> string" where
  "rsp_getHeader ops key dflt r = map_get ops (rsp_headers r) key dflt"

definition rsp_setHeader :: "'m map_ops \<Rightarrow> string \<Rightarrow> string \<Rightarrow> 'm HttpResponse \<Rightarrow> 'm HttpResponse" where
  "rsp_setHeader ops key v r = r\<lparr>rsp_headers := map_set ops (rsp_headers r) key v\<rparr>"

definition rsp_delHeader :: "'m map_ops \<Rightarrow> string \<Rightarrow> 'm HttpResponse \<Rightarrow> 'm HttpResponse" where
  "rsp_delHeader ops key r = r\<lparr>rsp_headers := map_erase ops (rsp_headers r) key\<rparr>"

definition HttpRequest_init :: "'m map_ops \<Rightarrow> 'm HttpRequest \<Rightarrow> 'm HttpRequest" where
  "HttpRequest_init ops r =
    (let conn = getHeader ops ''connection'' [] r in
     if conn = [] then
       if strcasecmp (c_str conn) ''keep-alive'' = 0 then r\<lparr>req_close := False\<rparr>
       else r\<lparr>req_close := True\<rparr>
     else r)"

section \<open>Printing\<close>

fun dec :: "nat \<Rightarrow> string" where
  "dec n = (if n < 10 then [char_of (n + 48)] else dec (n div 10) @ [char_of (n mod 10 + 48)])"

declare dec.simps [simp del]

abbreviation CRLF :: string where "CRLF \<equiv> [CR, LF]"

definition version_string :: "u8 \<Rightarrow> string" where
  "version_string v = ''HTTP/'' @ dec (unat (drop_bit 4 v)) @ ''.'' @ dec (unat (v AND 0x0F))"

definition is_connection :: "string \<Rightarrow> bool" where
  "is_connection key \<longleftrightarrow> strcasecmp (c_str key) ''connection'' = 0"

definition dump :: "'m map_ops \<Rightarrow> 'm HttpRequest \<Rightarrow> string" where
  "dump ops r =
    HttpMethodToString (req_method r) @ '' '' @ req_path r @
    (if req_query r = [] then [] else ''?'') @ req_query r @
    (if req_fragment r = [] then [] else ''#'') @ req_fragment r @ '' '' @
    version_string (req_version r) @ CRLF @
    ''connection: '' @ (if req_close r then ''close'' else ''keep-alive'') @ CRLF @
    concat (map (\<lambda>(k, v). if is_connection k then [] else k @ '':'' @ v @ CRLF)
      (map_entries ops (req_headers r))) @
    (if req_body r \<noteq> [] then ''content-length: '' @ dec (length (req_body r)) @ CRLF @ CRLF @ req_body r
     else CRLF)"

definition rsp_dump :: "'m map_ops \<Rightarrow> 'm HttpResponse \<Rightarrow> string" where
  "rsp_dump ops r =
    version_string (rsp_version r) @ '' '' @ dec (rsp_status r) @ '' '' @
    (if rsp_reason r = [] then HttpStatusToString (rsp_status r) else rsp_reason r) @ CRLF @
    concat (map (\<lambda>(k, v). if is_connection k then [] else k @ '': '' @ v @ CRLF)
      (map_entries ops (rsp_headers r))) @
    ''connection: '' @ (if rsp_close r then ''close'' else ''keep-alive'') @ CRLF @
    (if rsp_body r \<noteq> [] then ''content-length: '' @ dec (length (rsp_body r)) @ CRLF @ CRLF else CRLF)"

section \<open>Properties\<close>

text \<open>The comparison is symmetric, hence no order: of two different names each is below the other.\<close>

lemma strcasecmp_zero_sym: "strcasecmp xs ys = 0 \<longleftrightarrow> strcasecmp ys xs = 0"
  by (induction xs ys rule: strcasecmp.induct) auto

lemma CaseInsensitiveLess_no_order:
  "CaseInsensitiveLess x y \<longleftrightarrow> CaseInsensitiveLess y x"
  "CaseInsensitiveLess ''a'' ''b''"
  by (auto simp: CaseInsensitiveLess_def strcasecmp_zero_sym c_str_def tolower_def cval_def)

text \<open>
  Method names and numbers correspond: the name of each of the five methods is read back as that
  method, every other number prints as unknown, and a string is read as a method only if it is
  exactly the name of that method.
\<close>

theorem method_names:
  "StringToHttpMethod (HttpMethodToString m) = (if m < 5 then m else INVALID_METHOD) \<and>
   (StringToHttpMethod s \<noteq> INVALID_METHOD \<longrightarrow> HttpMethodToString (StringToHttpMethod s) = c_str s)"
proof
  have "m < 5 \<longleftrightarrow> m \<in> {0, 1, 2, 3, 4}" by auto
  then show "StringToHttpMethod (HttpMethodToString m) = (if m < 5 then m else INVALID_METHOD)"
    by (auto simp: StringToHttpMethod_def HttpMethodToString_def s_method_string_def
          HTTP_METHOD_MAP_def c_str_def INVALID_METHOD_def)
  show "StringToHttpMethod s \<noteq> INVALID_METHOD \<longrightarrow> HttpMethodToString (StringToHttpMethod s) = c_str s"
    by (auto simp: StringToHttpMethod_def HttpMethodToString_def s_method_string_def
          HTTP_METHOD_MAP_def INVALID_METHOD_def)
qed

theorem method_names_witness:
  "StringToHttpMethod (HttpMethodToString 3) = 3 \<and> HttpMethodToString (StringToHttpMethod ''PUT'') = c_str ''PUT''"
proof -
  have "StringToHttpMethod ''PUT'' \<noteq> INVALID_METHOD"
    by (simp add: StringToHttpMethod_def HTTP_METHOD_MAP_def c_str_def INVALID_METHOD_def)
  then show ?thesis using method_names [of 3 "''PUT''"] by simp
qed

text \<open>
  \<^verbatim>\<open>HttpRequest::init\<close> never turns keep-alive on: it forces the connection to be closed when there is no
  \<^verbatim>\<open>connection\<close> header and otherwise leaves the flag alone, so a request that starts out as to be
  closed stays so whatever its \<^verbatim>\<open>connection\<close> header says.
\<close>

theorem init_never_keeps_alive:
  "req_close (HttpRequest_init ops r) \<longleftrightarrow> req_close r \<or> getHeader ops ''connection'' [] r = []"
  by (simp add: HttpRequest_init_def Let_def c_str_def tolower_def cval_def)

text \<open>
   A response is printed without its body: two responses that differ only in bodies of the same
  length print the same.
\<close>

theorem response_body_dropped:
  assumes "length b1 = length b2"
  shows "rsp_dump ops (r\<lparr>rsp_body := b1\<rparr>) = rsp_dump ops (r\<lparr>rsp_body := b2\<rparr>)"
proof -
  have "b1 = [] \<longleftrightarrow> b2 = []" using assms by auto
  then show ?thesis using assms by (simp add: rsp_dump_def)
qed

definition alist_ops :: "(string \<times> string) list map_ops" where
  "alist_ops = \<lparr>map_empty = [], map_find = map_of, map_set = (\<lambda>m k v. (k, v) # filter (\<lambda>e. fst e \<noteq> k) m),
     map_erase = (\<lambda>m k. filter (\<lambda>e. fst e \<noteq> k) m), map_entries = (\<lambda>m. m)\<rparr>"

theorem response_body_dropped_witness:
  "rsp_dump alist_ops ((new_HttpResponse alist_ops 0x11 True)\<lparr>rsp_body := ''ab''\<rparr>) =
   rsp_dump alist_ops ((new_HttpResponse alist_ops 0x11 True)\<lparr>rsp_body := ''cd''\<rparr>)"
  by (rule response_body_dropped) simp

end
