(* ===== verification/HttpMessageParser.thy ===== *)
theory HttpMessageParser
  imports HttpExecuteProps Http
begin

text \<open>
  \<^verbatim>\<open>http/http_parser.cpp\<close> and \<^verbatim>\<open>http/http_parser.h\<close>: the request and the response parser, which drive
  \<^verbatim>\<open>http_parser_execute\<close> with callbacks that fill in an \<^verbatim>\<open>HttpRequest\<close> or an \<^verbatim>\<open>HttpResponse\<close>.  The members
  of a parser object other than \<^verbatim>\<open>m_parser\<close> are the user state of the callbacks.  \<^verbatim>\<open>m_error\<close> is the
  error number by its name, \<open>HPE_OK\<close> being 0.  The locale \<open>parser_client\<close> is the contract between
  \<^verbatim>\<open>http_parser_execute\<close> and a set of callbacks.
\<close>

section \<open>The contract of a client\<close>

text \<open>What \<^verbatim>\<open>http_parser_execute\<close> asks of its callbacks, and what it gives in return.\<close>

locale parser_client =
  fixes settings :: "'u http_parser_settings"
  assumes callbacks_ok: "cbs_ok settings"
begin

lemma execute_client:
  assumes "wf_parser mx P"
  shows "\<exists>n P' u'. http_parser_execute settings mx P u data = Return n P' u' \<and> wf_parser mx P' \<and>
    (n \<le> length data \<or> data = [] \<and> n = 1 \<and> http_errno P' = HPE_INVALID_EOF_STATE) \<and>
    (http_errno P' = HPE_OK \<longrightarrow> n = length data \<or> upgrade P')"
  by (rule execute_ok [OF callbacks_ok assms])

end

text \<open>A callback that only changes the user state meets the contract.\<close>

definition quiet :: "'u http_cb \<Rightarrow> bool" where
  "quiet f \<longleftrightarrow> (\<forall>P u. fst (snd (f P u)) = P)"

lemma quiet_cb_ok: "quiet f \<Longrightarrow> cb_ok (Some f)"
  by (auto simp: cb_ok_def quiet_def) (metis fst_conv snd_conv)

section \<open>Requests\<close>

record 'm HttpRequestParser_data =
  rq_data :: "'m HttpRequest"
  rq_error :: http_errno
  rq_finished :: bool
  rq_field :: string

record 'm HttpRequestParser =
  rq_parser :: http_parser
  rq_user :: "'m HttpRequestParser_data"

type_synonym 'm rq_cb = "'m HttpRequestParser_data http_cb"
type_synonym 'm rq_data_cb = "'m HttpRequestParser_data http_data_cb"

definition on_request_message_begin_cb :: "'m rq_cb" where
  "on_request_message_begin_cb P u = (0, P, u)"

text \<open>\<^verbatim>\<open>(http_major << 4) | http_minor\<close>, cut to eight bits.\<close>

definition parsed_version :: "http_parser \<Rightarrow> u8" where
  "parsed_version P = ucast (push_bit 4 (ucast (http_major P) :: u32) OR ucast (http_minor P))"

definition on_request_headers_complete_cb :: "'m rq_cb" where
  "on_request_headers_complete_cb P u =
    (0, P, u\<lparr>rq_data := (rq_data u)\<lparr>req_version := parsed_version P,
                req_method := http_method_num (p_method P)\<rparr>\<rparr>)"

definition on_request_message_complete_cb :: "'m rq_cb" where
  "on_request_message_complete_cb P u = (0, P, u\<lparr>rq_finished := True\<rparr>)"

definition on_request_chunk_header_cb :: "'m rq_cb" where
  "on_request_chunk_header_cb P u = (0, P, u)"

definition on_request_chunk_complete_cb :: "'m rq_cb" where
  "on_request_chunk_complete_cb P u = (0, P, u)"

text \<open>One assignment of \<^verbatim>\<open>on_request_url_cb\<close>: a field of the URL, if it is set.\<close>

definition url_assign ::
  "bytes \<Rightarrow> http_parser_url \<Rightarrow> http_parser_url_fields \<Rightarrow> (string \<Rightarrow> 'r \<Rightarrow> 'r) \<Rightarrow> 'r \<Rightarrow> 'r" where
  "url_assign buf url uf upd r = (if url_has url uf then upd (url_slice buf url uf) r else r)"

definition on_request_url_cb :: "'m rq_data_cb" where
  "on_request_url_cb buf P u =
    (case http_parser_parse_url buf False http_parser_url_init of
       Url_ok url \<Rightarrow>
         (0, P, u\<lparr>rq_data :=
            url_assign buf url UF_FRAGMENT (\<lambda>s r. r\<lparr>req_fragment := s\<rparr>)
              (url_assign buf url UF_QUERY (\<lambda>s r. r\<lparr>req_query := s\<rparr>)
                (url_assign buf url UF_PATH (\<lambda>s r. r\<lparr>req_path := s\<rparr>) (rq_data u)))\<rparr>)
     | _ \<Rightarrow> (1, P, u))"

definition on_request_header_field_cb :: "'m rq_data_cb" where
  "on_request_header_field_cb buf P u = (0, P, u\<lparr>rq_field := buf\<rparr>)"

definition on_request_header_value_cb :: "'m map_ops \<Rightarrow> 'm rq_data_cb" where
  "on_request_header_value_cb ops buf P u =
    (0, P, u\<lparr>rq_data := setHeader ops (rq_field u) buf (rq_data u)\<rparr>)"

definition on_request_status_cb :: "'m rq_data_cb" where
  "on_request_status_cb buf P u = (0, P, u)"

definition on_request_body_cb :: "'m rq_data_cb" where
  "on_request_body_cb buf P u =
    (0, P, u\<lparr>rq_data := (rq_data u)\<lparr>req_body := req_body (rq_data u) @ buf\<rparr>\<rparr>)"

definition s_request_settings :: "'m map_ops \<Rightarrow> 'm HttpRequestParser_data http_parser_settings" where
  "s_request_settings ops =
    \<lparr>on_message_begin = Some on_request_message_begin_cb, on_url = Some on_request_url_cb,
     on_status = Some on_request_status_cb, on_header_field = Some on_request_header_field_cb,
     on_header_value = Some (on_request_header_value_cb ops),
     on_headers_complete = Some on_request_headers_complete_cb, on_body = Some on_request_body_cb,
     on_message_complete = Some on_request_message_complete_cb,
     on_chunk_header = Some on_request_chunk_header_cb,
     on_chunk_complete = Some on_request_chunk_complete_cb\<rparr>"

definition new_HttpRequestParser :: "'m map_ops \<Rightarrow> 'm HttpRequestParser" where
  "new_HttpRequestParser ops =
    \<lparr>rq_parser = http_parser_init HTTP_REQUEST,
     rq_user = \<lparr>rq_data = new_HttpRequest ops 0x11 True, rq_error = HPE_OK, rq_finished = False,
                rq_field = []\<rparr>\<rparr>"

text \<open>\<^verbatim>\<open>memmove(data, data + n, len - n)\<close>.\<close>

definition move_front :: "nat \<Rightarrow> bytes \<Rightarrow> bytes" where
  "move_front n data = drop n data @ drop (length data - n) data"

text \<open>The result is the number of parsed bytes, the buffer and the parser; \<open>None\<close> stands for a failed
  assertion or no return of \<^verbatim>\<open>http_parser_execute\<close>.\<close>

definition HttpRequestParser_execute ::
  "'m map_ops \<Rightarrow> u32 \<Rightarrow> bytes \<Rightarrow> 'm HttpRequestParser \<Rightarrow> (nat \<times> bytes \<times> 'm HttpRequestParser) option" where
  "HttpRequestParser_execute ops mx data p =
    (case http_parser_execute (s_request_settings ops) mx (rq_parser p) (rq_user p) data of
       Return nparsed P u \<Rightarrow>
         Some
           (if upgrade P then (nparsed, data, \<lparr>rq_parser = P, rq_user = u\<lparr>rq_error := HPE_UNKNOWN\<rparr>\<rparr>)
            else if http_errno P \<noteq> HPE_OK then
              (nparsed, data, \<lparr>rq_parser = P, rq_user = u\<lparr>rq_error := http_errno P\<rparr>\<rparr>)
            else (nparsed, if nparsed < length data then move_front nparsed data else data,
                  \<lparr>rq_parser = P, rq_user = u\<rparr>))
     | _ \<Rightarrow> None)"

section \<open>Responses\<close>

record 'm HttpResponseParser_data =
  rs_data :: "'m HttpResponse"
  rs_error :: http_errno
  rs_finished :: bool
  rs_field :: string

record 'm HttpResponseParser =
  rs_parser :: http_parser
  rs_user :: "'m HttpResponseParser_data"

type_synonym 'm rs_cb = "'m HttpResponseParser_data http_cb"
type_synonym 'm rs_data_cb = "'m HttpResponseParser_data http_data_cb"

definition on_response_message_begin_cb :: "'m rs_cb" where
  "on_response_message_begin_cb P u = (0, P, u)"

definition on_response_headers_complete_cb :: "'m rs_cb" where
  "on_response_headers_complete_cb P u =
    (0, P, u\<lparr>rs_data := (rs_data u)\<lparr>rsp_version := parsed_version P,
                rsp_status := unat (status_code P)\<rparr>\<rparr>)"

definition on_response_message_complete_cb :: "'m rs_cb" where
  "on_response_message_complete_cb P u = (0, P, u\<lparr>rs_finished := True\<rparr>)"

definition on_response_chunk_header_cb :: "'m rs_cb" where
  "on_response_chunk_header_cb P u = (0, P, u)"

definition on_response_chunk_complete_cb :: "'m rs_cb" where
  "on_response_chunk_complete_cb P u = (0, P, u)"

definition on_response_url_cb :: "'m rs_data_cb" where
  "on_response_url_cb buf P u = (0, P, u)"

definition on_response_header_field_cb :: "'m rs_data_cb" where
  "on_response_header_field_cb buf P u = (0, P, u\<lparr>rs_field := buf\<rparr>)"

definition on_response_header_value_cb :: "'m map_ops \<Rightarrow> 'm rs_data_cb" where
  "on_response_header_value_cb ops buf P u =
    (0, P, u\<lparr>rs_data := rsp_setHeader ops (rs_field u) buf (rs_data u)\<rparr>)"

definition on_response_status_cb :: "'m rs_data_cb" where
  "on_response_status_cb buf P u =
    (0, P, u\<lparr>rs_data := (rs_data u)\<lparr>rsp_status := unat (status_code P)\<rparr>\<rparr>)"

definition on_response_body_cb :: "'m rs_data_cb" where
  "on_response_body_cb buf P u =
    (0, P, u\<lparr>rs_data := (rs_data u)\<lparr>rsp_body := rsp_body (rs_data u) @ buf\<rparr>\<rparr>)"

definition s_response_settings :: "'m map_ops \<Rightarrow> 'm HttpResponseParser_data http_parser_settings" where
  "s_response_settings ops =
    \<lparr>on_message_begin = Some on_response_message_begin_cb, on_url = Some on_response_url_cb,
     on_status = Some on_response_status_cb, on_header_field = Some on_response_header_field_cb,
     on_header_value = Some (on_response_header_value_cb ops),
     on_headers_complete = Some on_response_headers_complete_cb, on_body = Some on_response_body_cb,
     on_message_complete = Some on_response_message_complete_cb,
     on_chunk_header = Some on_response_chunk_header_cb,
     on_chunk_complete = Some on_response_chunk_complete_cb\<rparr>"

definition new_HttpResponseParser :: "'m map_ops \<Rightarrow> 'm HttpResponseParser" where
  "new_HttpResponseParser ops =
    \<lparr>rs_parser = http_parser_init HTTP_RESPONSE,
     rs_user = \<lparr>rs_data = new_HttpResponse ops 0x11 True, rs_error = HPE_OK, rs_finished = False,
                rs_field = []\<rparr>\<rparr>"

definition HttpResponseParser_execute ::
  "'m map_ops \<Rightarrow> u32 \<Rightarrow> bytes \<Rightarrow> 'm HttpResponseParser \<Rightarrow> (nat \<times> bytes \<times> 'm HttpResponseParser) option" where
  "HttpResponseParser_execute ops mx data p =
    (case http_parser_execute (s_response_settings ops) mx (rs_parser p) (rs_user p) data of
       Return nparsed P u \<Rightarrow>
         Some
           (if http_errno P \<noteq> HPE_OK then
              (nparsed, data, \<lparr>rs_parser = P, rs_user = u\<lparr>rs_error := http_errno P\<rparr>\<rparr>)
            else (nparsed, if nparsed < length data then move_front nparsed data else data,
                  \<lparr>rs_parser = P, rs_user = u\<rparr>))
     | _ \<Rightarrow> None)"

section \<open>The callbacks meet the contract\<close>

lemma all_quiet_ok:
  assumes "\<forall>f \<in> {on_message_begin S, on_headers_complete S, on_message_complete S,
      on_chunk_header S, on_chunk_complete S}. \<forall>g. f = Some g \<longrightarrow> quiet g"
    and "\<forall>m g b. data_cb S m = Some g \<longrightarrow> quiet (g b)"
  shows "cbs_ok S"
  unfolding cbs_ok_def
proof (intro conjI allI)
  have "cb_ok f" if "\<forall>g. f = Some g \<longrightarrow> quiet g" for f :: "'a http_cb option"
    using that by (cases f) (auto simp: quiet_cb_ok cb_ok_def [of None])
  then show "cb_ok (on_message_begin S)" "cb_ok (on_headers_complete S)" "cb_ok (on_message_complete S)"
    "cb_ok (on_chunk_header S)" "cb_ok (on_chunk_complete S)"
    using assms(1) by auto
  fix m b
  show "cb_ok (map_option (\<lambda>f. f b) (data_cb S m))"
    using assms(2) by (cases "data_cb S m") (auto simp: quiet_cb_ok cb_ok_def [of None])
qed

lemmas request_cb_defs =
  on_request_message_begin_cb_def on_request_headers_complete_cb_def on_request_message_complete_cb_def
  on_request_chunk_header_cb_def on_request_chunk_complete_cb_def on_request_url_cb_def
  on_request_header_field_cb_def on_request_header_value_cb_def on_request_status_cb_def
  on_request_body_cb_def

lemmas response_cb_defs =
  on_response_message_begin_cb_def on_response_headers_complete_cb_def
  on_response_message_complete_cb_def on_response_chunk_header_cb_def on_response_chunk_complete_cb_def
  on_response_url_cb_def on_response_header_field_cb_def on_response_header_value_cb_def
  on_response_status_cb_def on_response_body_cb_def

interpretation request_client: parser_client "s_request_settings ops" for ops
proof
  show "cbs_ok (s_request_settings ops)"
  proof (rule all_quiet_ok)
    show "\<forall>m g b. data_cb (s_request_settings ops) m = Some g \<longrightarrow> quiet (g b)"
    proof (intro allI impI)
      fix m g b assume "data_cb (s_request_settings ops) m = Some g"
      then show "quiet (g b)"
        by (cases m) (auto simp: s_request_settings_def quiet_def request_cb_defs split: url_result.split)
    qed
  qed (simp add: s_request_settings_def quiet_def request_cb_defs)
qed

interpretation response_client: parser_client "s_response_settings ops" for ops
proof
  show "cbs_ok (s_response_settings ops)"
  proof (rule all_quiet_ok)
    show "\<forall>m g b. data_cb (s_response_settings ops) m = Some g \<longrightarrow> quiet (g b)"
    proof (intro allI impI)
      fix m g b assume "data_cb (s_response_settings ops) m = Some g"
      then show "quiet (g b)"
        by (cases m) (auto simp: s_response_settings_def quiet_def response_cb_defs)
    qed
  qed (simp add: s_response_settings_def quiet_def response_cb_defs)
qed

section \<open>Properties\<close>

lemma move_front_whole [simp]: "length (move_front n xs) = length xs" if "n \<le> length xs"
  using that by (simp add: move_front_def)

lemma HttpRequestParser_execute_ok:
  assumes wf: "wf_parser mx (rq_parser p)"
  shows "\<exists>n buf p'. HttpRequestParser_execute ops mx data p = Some (n, buf, p') \<and>
    wf_parser mx (rq_parser p') \<and> length buf = length data \<and>
    (rq_error (rq_user p') = HPE_OK \<longrightarrow> n = length data \<and> buf = data)"
proof -
  obtain n P u where run: "http_parser_execute (s_request_settings ops) mx (rq_parser p) (rq_user p) data = Return n P u"
    and P: "wf_parser mx P" and n: "http_errno P = HPE_OK \<longrightarrow> n = length data \<or> upgrade P"
    using request_client.execute_client [OF wf] by metis
  show ?thesis
    using P n by (auto simp: HttpRequestParser_execute_def run)
qed

text \<open>
  C4. \<^verbatim>\<open>HttpRequestParser::execute\<close> on any buffer: it returns, fails no assertion of the HTTP parser and
  leaves a well formed parser and a buffer of the same size behind; when it reports no error, the
  whole buffer has been parsed, so that nothing is left for the caller to keep.
\<close>

theorem request_execute_total:
  assumes wf: "wf_parser mx (rq_parser p)"
  shows "\<exists>n buf p'. HttpRequestParser_execute ops mx data p = Some (n, buf, p') \<and>
    wf_parser mx (rq_parser p') \<and> length buf = length data \<and>
    (rq_error (rq_user p') = HPE_OK \<longrightarrow> n = length data \<and> buf = data)"
  by (rule HttpRequestParser_execute_ok [OF wf])

lemma new_parser_wf: "wf_parser mx (rq_parser (new_HttpRequestParser ops))"
  by (simp add: new_HttpRequestParser_def wf_parser_init)

theorem request_execute_total_witness:
  "\<exists>n buf p'. HttpRequestParser_execute alist_ops 8192 ''GET / HTTP/1.1'' (new_HttpRequestParser alist_ops) =
      Some (n, buf, p') \<and> wf_parser 8192 (rq_parser p') \<and> length buf = length ''GET / HTTP/1.1'' \<and>
      (rq_error (rq_user p') = HPE_OK \<longrightarrow> n = length ''GET / HTTP/1.1'' \<and> buf = ''GET / HTTP/1.1'')"
  by (rule request_execute_total [OF new_parser_wf])

lemma HttpResponseParser_execute_ok:
  assumes wf: "wf_parser mx (rs_parser p)"
  shows "\<exists>n buf p'. HttpResponseParser_execute ops mx data p = Some (n, buf, p') \<and>
    wf_parser mx (rs_parser p') \<and>
    (rs_error (rs_user p') = HPE_OK \<longrightarrow>
       n \<le> length data \<and> length buf = length data \<and> take (length data - n) buf = drop n data \<and>
       (n = length data \<or> upgrade (rs_parser p')))"
proof -
  obtain n P u where run: "http_parser_execute (s_response_settings ops) mx (rs_parser p) (rs_user p) data = Return n P u"
    and P: "wf_parser mx P" and n: "http_errno P = HPE_OK \<longrightarrow> n = length data \<or> upgrade P"
    and len: "n \<le> length data \<or> http_errno P = HPE_INVALID_EOF_STATE"
    using response_client.execute_client [OF wf] by metis
  show ?thesis
    using P n len by (auto simp: HttpResponseParser_execute_def run move_front_def)
qed

text \<open>
  \<^verbatim>\<open>HttpResponseParser::execute\<close> likewise, except that bytes may be left over when the response
  switches protocols: then they are moved to the front of the buffer.
\<close>

theorem response_execute_total:
  assumes wf: "wf_parser mx (rs_parser p)"
  shows "\<exists>n buf p'. HttpResponseParser_execute ops mx data p = Some (n, buf, p') \<and>
    wf_parser mx (rs_parser p') \<and>
    (rs_error (rs_user p') = HPE_OK \<longrightarrow>
       n \<le> length data \<and> length buf = length data \<and> take (length data - n) buf = drop n data \<and>
       (n = length data \<or> upgrade (rs_parser p')))"
  by (rule HttpResponseParser_execute_ok [OF wf])

lemma new_response_parser_wf: "wf_parser mx (rs_parser (new_HttpResponseParser ops))"
  by (simp add: new_HttpResponseParser_def wf_parser_init)

theorem response_execute_total_witness:
  "\<exists>n buf p'. HttpResponseParser_execute alist_ops 8192 ''HTTP/1.1'' (new_HttpResponseParser alist_ops) =
      Some (n, buf, p') \<and> wf_parser 8192 (rs_parser p') \<and>
      (rs_error (rs_user p') = HPE_OK \<longrightarrow>
         n \<le> length ''HTTP/1.1'' \<and> length buf = length ''HTTP/1.1'' \<and>
         take (length ''HTTP/1.1'' - n) buf = drop n ''HTTP/1.1'' \<and>
         (n = length ''HTTP/1.1'' \<or> upgrade (rs_parser p')))"
  by (rule response_execute_total [OF new_response_parser_wf])

end
