(* ===== verification/HttpRun.thy ===== *)
theory HttpRun
  imports HttpMessageParser
begin

text \<open>
  Symbolic runs of \<^verbatim>\<open>http_parser_execute\<close>: which text moves the parser from one state to another.  A run is
  described by the state, the marks, the parser object, the user state and the bytes that are still to be
  read; the position and the count of header bytes follow from the latter.  A segment lemma says how a piece
  of a request (the method, the URL, a header line) is consumed, and the segments are put together in
  \<open>HttpRoundtrip\<close>.
\<close>

section \<open>Runs\<close>

text \<open>The loop, from \<open>x\<close> on and with any fuel that covers the bytes left, returns with a result in \<open>Q\<close>.\<close>

definition yields ::
  "'u http_parser_settings \<Rightarrow> u32 \<Rightarrow> bytes \<Rightarrow> (nat \<Rightarrow> http_parser \<Rightarrow> 'u \<Rightarrow> bool) \<Rightarrow> 'u xst \<Rightarrow> bool" where
  "yields S mx data Q x \<longleftrightarrow> (\<forall>n \<ge> length data - pos x.
     case exec_loop n S mx data x of Return k P u \<Rightarrow> Q k P u | _ \<Rightarrow> False)"

text \<open>The state of a run that has \<open>rest\<close> still to read and counts every byte of a head.\<close>

definition at ::
  "bytes \<Rightarrow> state \<Rightarrow> (mark \<rightharpoonup> nat) \<Rightarrow> http_parser \<Rightarrow> 'u \<Rightarrow> bytes \<Rightarrow> 'u xst \<Rightarrow> bool" where
  "at data s m P u rest x \<longleftrightarrow> cst x = s \<and> marks x = m \<and> prs x = P \<and> usr x = u \<and> \<not> lenient x \<and>
     drop (pos x) data = rest \<and> pos x \<le> length data \<and> nread x = of_nat (pos x)"

definition parses ::
  "'u http_parser_settings \<Rightarrow> u32 \<Rightarrow> bytes \<Rightarrow> (nat \<Rightarrow> http_parser \<Rightarrow> 'u \<Rightarrow> bool) \<Rightarrow>
   state \<Rightarrow> (mark \<rightharpoonup> nat) \<Rightarrow> http_parser \<Rightarrow> 'u \<Rightarrow> bytes \<Rightarrow> bool" where
  "parses S mx data Q s m P u rest \<longleftrightarrow> (\<forall>x. at data s m P u rest x \<longrightarrow> yields S mx data Q x)"

lemma at_pos: "at data s m P u rest x \<Longrightarrow> pos x + length rest = length data"
  by (auto simp: at_def)

lemma at_nth: "at data s m P u (c # cs) x \<Longrightarrow> pos x < length data \<and> data ! pos x = c \<and> drop (Suc (pos x)) data = cs"
  by (auto simp: at_def) (metis drop_eq_Nil2 linorder_not_le neq_Nil_conv, metis nth_via_drop, metis Cons_eq_appendI drop_Suc list.sel(3) tl_drop)

lemma yields_round:
  assumes "pos x < length data" "PARSING_HEADER (cst x)" "nread x + 1 \<le> mx"
    and "exec_reexecute reexecute_fuel S mx data (x\<lparr>cur_ch := data ! pos x, nread := nread x + 1\<rparr>) = Next y"
    and "pos x \<le> pos y" "yields S mx data Q (y\<lparr>pos := Suc (pos y)\<rparr>)"
  shows "yields S mx data Q x"
  unfolding yields_def
proof (intro allI impI)
  fix n
  assume n: "length data - pos x \<le> n"
  then obtain k where k: "n = Suc k" using assms(1) by (cases n) auto
  have le: "\<not> nread x + 1 > mx" using assms(3) by simp
  have "exec_loop n S mx data x = exec_loop k S mx data (y\<lparr>pos := Suc (pos y)\<rparr>)"
    using assms(1,2,4) le unfolding k
    by (subst exec_loop.simps) (simp add: COUNT_HEADER_SIZE_def Let_def)
  moreover have "length data - Suc (pos y) \<le> k" using n k assms(5) by auto
  ultimately show "case exec_loop n S mx data x of Return k P u \<Rightarrow> Q k P u | _ \<Rightarrow> False"
    using assms(6) by (simp add: yields_def)
qed

lemma drop_tail:
  assumes "drop (length data - length (a @ b)) data = a @ b"
  shows "drop (length data - length b) data = b"
proof -
  obtain c where "data = c @ a @ b" using assms by (metis append_take_drop_id)
  then show ?thesis by simp
qed

lemma drop_rest: "data = a @ rest \<Longrightarrow> drop (length data - length rest) data = rest"
  by simp

lemma of_nat_le_word: "n \<le> unat w \<Longrightarrow> of_nat n \<le> (w::'a::len word)"
  using unat_of_nat_le [of n, where 'a = 'a] unfolding word_le_nat_alt by linarith

text \<open>One round of the loop that consumes \<open>w\<close>.\<close>

lemma parses_round:
  assumes "PARSING_HEADER s" "length data \<le> unat mx + length rest" "w \<noteq> []"
    and "\<And>x. at data s m P u (w @ rest) (x\<lparr>nread := of_nat (pos x)\<rparr>) \<Longrightarrow> nread x = of_nat (Suc (pos x)) \<Longrightarrow>
      cur_ch x = hd w \<Longrightarrow>
      \<exists>y. exec_reexecute reexecute_fuel S mx data x = Next y \<and> pos y = pos x + length w - 1 \<and>
        cst y = s' \<and> marks y = m' \<and> prs y = P' \<and> usr y = u' \<and> \<not> lenient y \<and> nread y = of_nat (pos x + length w)"
    and "parses S mx data Q s' m' P' u' rest"
  shows "parses S mx data Q s m P u (w @ rest)"
  unfolding parses_def
proof (intro allI impI)
  fix x :: "'a xst"
  assume x: "at data s m P u (w @ rest) x"
  obtain c cs where w: "w = c # cs" using assms(3) by (cases w) auto
  have len: "pos x + length w + length rest = length data" using at_pos [OF x] by simp
  have nth: "pos x < length data" "data ! pos x = c" using at_nth [of data s m P u c "cs @ rest" x] x w by auto
  let ?x = "x\<lparr>cur_ch := data ! pos x, nread := nread x + 1\<rparr>"
  have nr: "nread x = of_nat (pos x)" using x by (simp add: at_def)
  have le: "nread x + 1 \<le> mx"
  proof -
    have "Suc (pos x) \<le> unat mx" using len assms(2) w by simp
    then have "of_nat (Suc (pos x)) \<le> mx" by (rule of_nat_le_word)
    then show ?thesis using nr by (simp add: add.commute)
  qed
  have "at data s m P u (w @ rest) (?x\<lparr>nread := of_nat (pos ?x)\<rparr>)" using x by (simp add: at_def)
  then obtain y where y: "exec_reexecute reexecute_fuel S mx data ?x = Next y"
      "pos y = pos x + length w - 1" "cst y = s'" "marks y = m'" "prs y = P'" "usr y = u'" "\<not> lenient y"
      "nread y = of_nat (pos x + length w)"
    using assms(4) [of ?x] nth w nr by auto
  have py: "Suc (pos y) = pos x + length w" using y(2) w by simp
  have "drop (pos x + length w) data = rest"
    using x by (metis add.commute append_eq_conv_conj at_def drop_drop)
  then have "at data s' m' P' u' rest (y\<lparr>pos := Suc (pos y)\<rparr>)"
    using y(3-8) len by (simp add: at_def py)
  then have "yields S mx data Q (y\<lparr>pos := Suc (pos y)\<rparr>)" using assms(5) by (simp add: parses_def)
  with yields_round [OF nth(1) _ le y(1)] y(2) x assms(1) w show "yields S mx data Q x"
    by (simp add: at_def)
qed

text \<open>The round of one byte that the switch handles without being entered again.\<close>

lemma exec_reexecute_Next: "exec_switch S mx data x = Next y \<Longrightarrow> exec_reexecute reexecute_fuel S mx data x = Next y"
  by (simp add: reexecute_fuel_def numeral_eq_Suc)

lemma parses_step:
  assumes "PARSING_HEADER s" "length data \<le> unat mx + length rest"
    and "\<And>x. cst x = s \<Longrightarrow> marks x = m \<Longrightarrow> prs x = P \<Longrightarrow> usr x = u \<Longrightarrow> cur_ch x = c \<Longrightarrow>
      length data = Suc (pos x + length rest) \<Longrightarrow> drop (pos x) data = c # rest \<Longrightarrow>
      exec_switch S mx data x = Next (x\<lparr>cst := s', marks := m', prs := P', usr := u'\<rparr>)"
    and "parses S mx data Q s' m' P' u' rest"
  shows "parses S mx data Q s m P u (c # rest)"
proof -
  have "parses S mx data Q s m P u ([c] @ rest)"
  proof (rule parses_round [OF assms(1,2) _ _ assms(4)], simp)
    fix x :: "'a xst"
    assume x: "at data s m P u ([c] @ rest) (x\<lparr>nread := of_nat (pos x)\<rparr>)" "nread x = of_nat (Suc (pos x))"
      "cur_ch x = hd [c]"
    have "exec_switch S mx data x = Next (x\<lparr>cst := s', marks := m', prs := P', usr := u'\<rparr>)"
      using x at_pos [OF x(1)] by (intro assms(3)) (auto simp: at_def)
    from exec_reexecute_Next [OF this] x
    show "\<exists>y. exec_reexecute reexecute_fuel S mx data x = Next y \<and> pos y = pos x + length [c] - 1 \<and>
        cst y = s' \<and> marks y = m' \<and> prs y = P' \<and> usr y = u' \<and> \<not> lenient y \<and> nread y = of_nat (pos x + length [c])"
      by (auto simp: at_def)
  qed
  then show ?thesis by simp
qed

section \<open>The request line\<close>

lemma parses_expect:
  assumes "parses S mx data Q s' m P u rest" "length data \<le> unat mx + length rest"
    and "(s, c, s') \<in> {(s_req_http_start, CHR ''H'', s_req_http_H), (s_req_http_H, CHR ''T'', s_req_http_HT),
      (s_req_http_HT, CHR ''T'', s_req_http_HTT), (s_req_http_HTT, CHR ''P'', s_req_http_HTTP),
      (s_req_http_HTTP, CHR ''/'', s_req_http_major), (s_req_http_dot, CHR ''.'', s_req_http_minor),
      (s_req_http_end, CR, s_req_line_almost_done), (s_req_line_almost_done, LF, s_header_field_start)}"
  shows "parses S mx data Q s m P u (c # rest)"
proof (rule parses_step [OF _ assms(2) _ assms(1)])
  show "PARSING_HEADER s" using assms(3) by (auto simp: PARSING_HEADER_iff)
  show "exec_switch S mx data x = Next (x\<lparr>cst := s', marks := m, prs := P, usr := u\<rparr>)"
    if "cst x = s" "marks x = m" "prs x = P" "usr x = u" "cur_ch x = c" for x
    using assms(3) that
    by (auto simp: exec_switch_def exec_expect_def STRICT_CHECK_def exec_req_http_start_def exec_http_dot_def
        exec_req_http_end_def exec_req_line_almost_done_def)
qed

lemma parses_HTTP:
  assumes "parses S mx data Q s_req_http_major m P u rest" "length data \<le> unat mx + length rest"
  shows "parses S mx data Q s_req_http_start m P u (''HTTP/'' @ rest)"
  using assms(2)
  by (simp, intro parses_expect [where s' = s_req_http_H] parses_expect [where s' = s_req_http_HT]
      parses_expect [where s' = s_req_http_HTT] parses_expect [where s' = s_req_http_HTTP]
      parses_expect [where s' = s_req_http_major] assms(1)) simp_all

lemma parses_version:
  assumes "a < 10" "b < 10" "length data \<le> unat mx + length rest"
    and "parses S mx data Q s_header_field_start m (P\<lparr>http_major := of_nat a, http_minor := of_nat b\<rparr>) u rest"
  shows "parses S mx data Q s_req_http_major m P u (dec a @ ''.'' @ dec b @ CRLF @ rest)"
proof -
  have num: "IS_NUM (char_of (n + 48))" "digit_val (char_of (n + 48)) = n" "dec n = [char_of (n + 48)]"
    if "n < 10" for n
    using that by (simp_all add: IS_NUM_def digit_val_def cval_def dec.simps)
  let ?P = "P\<lparr>http_major := of_nat a\<rparr>"
  let ?R = "?P\<lparr>http_minor := of_nat b\<rparr>"
  have 1: "parses S mx data Q s_req_http_end m ?R u (CRLF @ rest)"
    using assms(3,4)
    by (simp, intro parses_expect [where s' = s_req_line_almost_done] parses_expect [where s' = s_header_field_start]) simp_all
  have 2: "parses S mx data Q s_req_http_minor m ?P u (dec b @ CRLF @ rest)"
    unfolding num(3) [OF assms(2)] append.simps
    by (rule parses_step [OF _ _ _ 1 [unfolded append.simps]])
      (use assms num in \<open>simp_all add: PARSING_HEADER_iff exec_switch_def exec_http_minor_def\<close>)
  have 3: "parses S mx data Q s_req_http_dot m ?P u (CHR ''.'' # dec b @ CRLF @ rest)"
    by (rule parses_expect [OF 2]) (use assms in simp_all)
  show ?thesis
    unfolding num(3) [OF assms(1)] append.simps
    by (rule parses_step [OF _ _ _ 3 [unfolded append.simps]])
      (use assms num in \<open>simp_all add: PARSING_HEADER_iff exec_switch_def exec_http_major_def\<close>)
qed

text \<open>The letters of a method after the first, and the space.\<close>

lemma cchar_next:
  "drop i xs = c # cs \<Longrightarrow> cchar xs i = c"
  by (auto simp: cchar_def nth_via_drop)

lemma parses_method_rest:
  assumes "drop (unat (p_index P)) (method_strings (p_method P)) = w" "length data \<le> unat mx + length rest"
    and "unat (p_index P) \<le> length (method_strings (p_method P))"
    and "\<And>i. parses S mx data Q s_req_spaces_before_url m (P\<lparr>p_index := i\<rparr>) u rest"
  shows "parses S mx data Q s_req_method m P u (w @ SP # rest)"
  using assms
proof (induction w arbitrary: P)
  case Nil
  let ?i = "unat (p_index P)"
  have "cchar (method_strings (p_method P)) ?i = NUL" using Nil by (simp add: cchar_method_NUL)
  then show ?case
    using Nil unfolding append.simps
    by (intro parses_step [OF _ _ _ Nil.prems(4) [of "p_index P + 1"]])
      (simp_all add: PARSING_HEADER_iff exec_switch_def exec_req_method_def)
next
  case (Cons c w)
  let ?i = "unat (p_index P)"
  let ?P = "P\<lparr>p_index := p_index P + 1\<rparr>"
  have i: "?i < length (method_strings (p_method P))"
    using Cons.prems(1) by (metis drop_eq_Nil2 list.distinct(1) not_le)
  have inc: "unat (p_index P + 1) = ?i + 1"
    using i method_strings_bounds [of "p_method P"] by (intro unat_inc_less) simp
  have c: "cchar (method_strings (p_method P)) ?i = c" using Cons.prems(1) by (rule cchar_next)
  have nul: "c \<noteq> NUL" using i c cchar_method_NUL [of ?i "p_method P"] by auto
  have nosp: "\<not> (c = SP \<and> c = NUL)" by simp
  have "drop (Suc ?i) (method_strings (p_method P)) = w"
    using Cons.prems(1) by (metis Cons_eq_appendI drop_Suc list.sel(3) tl_drop)
  then have "parses S mx data Q s_req_method m ?P u (w @ SP # rest)"
    using Cons.prems i by (intro Cons.IH) (simp_all add: inc)
  then show ?case
    unfolding append.simps using Cons.prems(2) i c nul
    by (intro parses_step [OF _ _ _ \<open>parses S mx data Q s_req_method m ?P u (w @ SP # rest)\<close>])
      (auto simp add: PARSING_HEADER_iff exec_switch_def exec_req_method_def)
qed

lemma s_request_settings_simps [simp]:
  "on_message_begin (s_request_settings ops) = Some on_request_message_begin_cb"
  "on_headers_complete (s_request_settings ops) = Some on_request_headers_complete_cb"
  "on_message_complete (s_request_settings ops) = Some on_request_message_complete_cb"
  "on_url (s_request_settings ops) = Some on_request_url_cb"
  "on_header_field (s_request_settings ops) = Some on_request_header_field_cb"
  "on_header_value (s_request_settings ops) = Some (on_request_header_value_cb ops)"
  "on_body (s_request_settings ops) = Some on_request_body_cb"
  by (simp_all add: s_request_settings_def)

lemma parses_first_letter:
  assumes "first_method c = Some f" "http_errno P = HPE_OK" "length data \<le> unat mx + length rest"
    and "parses (s_request_settings ops) mx data Q s_req_method m
      ((reset_message P)\<lparr>p_method := f, p_index := 1, p_state := s_req_method\<rparr>) u rest"
  shows "parses (s_request_settings ops) mx data Q s_start_req m P u (c # rest)"
proof (rule parses_step [OF _ assms(3) _ assms(4)])
  have c: "IS_ALPHA c" "c \<noteq> CR" "c \<noteq> LF"
    using assms(1) by (auto simp: first_method_def IS_ALPHA_def LOWER_def cval_def split: if_splits)
  show "exec_switch (s_request_settings ops) mx data x = Next (x\<lparr>cst := s_req_method, marks := m,
      prs := (reset_message P)\<lparr>p_method := f, p_index := 1, p_state := s_req_method\<rparr>, usr := u\<rparr>)"
    if "cst x = s_start_req" "marks x = m" "prs x = P" "usr x = u" "cur_ch x = c" for x
    using that assms(1,2) c
    by (simp add: exec_switch_def exec_start_req_def CALLBACK_NOTIFY_gen_def on_request_message_begin_cb_def
        Let_def reset_message_def)
qed (simp add: PARSING_HEADER_iff)

definition method_chosen :: "http_parser \<Rightarrow> http_method \<Rightarrow> 5 word \<Rightarrow> http_parser" where
  "method_chosen P meth i = (reset_message P)\<lparr>p_method := meth, p_index := i, p_state := s_req_method\<rparr>"

lemma method_chosen_simps [simp]:
  "(method_chosen P meth i)\<lparr>p_index := j\<rparr> = method_chosen P meth j"
  "p_index (method_chosen P meth i) = i" "p_method (method_chosen P meth i) = meth"
  by (simp_all add: method_chosen_def)

lemma parses_method:
  assumes "meth \<in> {HTTP_DELETE, HTTP_GET, HTTP_HEAD, HTTP_POST, HTTP_PUT}"
    and "http_errno P = HPE_OK" "length data \<le> unat mx + length rest"
    and "\<And>i. parses (s_request_settings ops) mx data Q s_req_spaces_before_url m (method_chosen P meth i) u rest"
  shows "parses (s_request_settings ops) mx data Q s_start_req m P u (method_strings meth @ SP # rest)"
proof -
  let ?S = "s_request_settings ops"
  have after: "parses ?S mx data Q s_req_method m (method_chosen P meth i) u (w @ SP # rest)"
    if "drop (unat i) (method_strings meth) = w" "unat i \<le> length (method_strings meth)" for i w
    using that assms(3,4) by (intro parses_method_rest) simp_all
  have first: "parses ?S mx data Q s_start_req m P u (c # w @ SP # rest)"
    if "first_method c = Some meth" "method_strings meth = c # w" for c w
    using after [of 1 w] that assms(2,3) by (intro parses_first_letter) (simp_all add: method_chosen_def)
  have put: "parses ?S mx data Q s_start_req m P u (''PUT'' @ SP # rest)" if "meth = HTTP_PUT"
  proof -
    have "parses ?S mx data Q s_req_method m (method_chosen P HTTP_POST 1) u (CHR ''U'' # ''T'' @ SP # rest)"
      by (rule parses_step [OF _ _ _ after [of 2 "''T''"]])
        (use that assms(3) in \<open>auto simp: PARSING_HEADER_iff exec_switch_def exec_req_method_def method_chosen_def
          cchar_def next_method_table_def cval_def\<close>)
    then show ?thesis
      using assms(2,3) unfolding append.simps
      by (intro parses_first_letter [of "CHR ''P''" HTTP_POST]) (simp_all add: method_chosen_def first_method_def)
  qed
  show ?thesis
    using assms(1) put first by (auto simp: first_method_def)
qed

section \<open>URLs of a path, a query and a fragment\<close>

definition url_text :: "string \<Rightarrow> string \<Rightarrow> string \<Rightarrow> string" where
  "url_text path query fragment =
    path @ (if query = [] then [] else CHR ''?'' # query) @ (if fragment = [] then [] else CHR ''#'' # fragment)"

definition printable_url :: "string \<Rightarrow> string \<Rightarrow> string \<Rightarrow> bool" where
  "printable_url path query fragment \<longleftrightarrow>
    path \<noteq> [] \<and> hd path \<in> {CHR ''/'', CHR ''*''} \<and> list_all IS_URL_CHAR (tl path) \<and>
    list_all (\<lambda>c. IS_URL_CHAR c \<or> c = CHR ''?'') query \<and>
    list_all (\<lambda>c. IS_URL_CHAR c \<or> c = CHR ''?'' \<or> c = CHR ''#'') fragment \<and>
    (fragment \<noteq> [] \<longrightarrow> hd fragment \<noteq> CHR ''#'') \<and>
    length (url_text path query fragment) < 65536"

lemma url_char_plain: "IS_URL_CHAR c \<Longrightarrow> c \<notin> {SP, CR, LF, HT, FF, CHR ''?'', CHR ''#''}"
  by (auto simp: IS_URL_CHAR_def BIT_AT_def normal_url_char_def cval_def)

lemma url_char_stops: "\<not> IS_URL_CHAR CHR ''?''" "\<not> IS_URL_CHAR CHR ''#''"
  using url_char_plain by blast+

lemma parse_url_char_plain:
  assumes "IS_URL_CHAR c"
  shows "parse_url_char s_req_path c = s_req_path"
    "parse_url_char s_req_query_string_start c = s_req_query_string"
    "parse_url_char s_req_query_string c = s_req_query_string"
    "parse_url_char s_req_fragment_start c = s_req_fragment"
    "parse_url_char s_req_fragment c = s_req_fragment"
  using assms url_char_plain [OF assms] by (simp_all add: parse_url_char_def)

lemma parse_url_char_marks:
  "parse_url_char s_req_spaces_before_url CHR ''/'' = s_req_path"
  "parse_url_char s_req_spaces_before_url CHR ''*'' = s_req_path"
  "parse_url_char s_req_path CHR ''?'' = s_req_query_string_start"
  "parse_url_char s_req_query_string_start CHR ''?'' = s_req_query_string"
  "parse_url_char s_req_query_string CHR ''?'' = s_req_query_string"
  "parse_url_char s_req_path CHR ''#'' = s_req_fragment_start"
  "parse_url_char s_req_query_string CHR ''#'' = s_req_fragment_start"
  "parse_url_char s_req_fragment_start CHR ''?'' = s_req_fragment"
  "parse_url_char s_req_fragment CHR ''?'' = s_req_fragment"
  "parse_url_char s_req_fragment CHR ''#'' = s_req_fragment"
  by (simp_all add: parse_url_char_def url_char_stops)

lemma parse_url_char_stays:
  "IS_URL_CHAR c \<Longrightarrow> s \<in> {s_req_path, s_req_query_string, s_req_fragment} \<Longrightarrow> parse_url_char s c = s"
  "parse_url_char s_req_query_string CHR ''?'' = s_req_query_string"
  "c \<in> {CHR ''?'', CHR ''#''} \<Longrightarrow> parse_url_char s_req_fragment c = s_req_fragment"
  using parse_url_char_plain [of c] parse_url_char_marks by blast+

lemma parse_url_char_enters:
  "c \<in> {CHR ''/'', CHR ''*''} \<Longrightarrow> parse_url_char s_req_spaces_before_url c = s_req_path"
  "parse_url_char s_req_path CHR ''?'' = s_req_query_string_start"
  "s \<in> {s_req_path, s_req_query_string} \<Longrightarrow> parse_url_char s CHR ''#'' = s_req_fragment_start"
  "IS_URL_CHAR c \<or> c = CHR ''?'' \<Longrightarrow> parse_url_char s_req_query_string_start c = s_req_query_string"
  "IS_URL_CHAR c \<or> c = CHR ''?'' \<Longrightarrow> parse_url_char s_req_fragment_start c = s_req_fragment"
  using parse_url_char_plain [of c] parse_url_char_marks by blast+

lemma grow_begin: "grow_field uf (begin_field uf p n u) = begin_field uf p (n + 1) u"
  by (simp add: grow_field_def begin_field_def)

definition field_of_state :: "state \<Rightarrow> http_parser_url_fields" where
  "field_of_state t = (if t = s_req_path then UF_PATH else if t = s_req_query_string then UF_QUERY else UF_FRAGMENT)"

lemma url_loop_same:
  assumes "t \<in> {s_req_path, s_req_query_string, s_req_fragment}" "\<forall>c \<in> set w. parse_url_char t c = t"
  shows "url_loop (w @ cs) p t (field_of_state t) found (begin_field (field_of_state t) q n u) =
    url_loop cs (p + length w) t (field_of_state t) found (begin_field (field_of_state t) q (n + of_nat (length w)) u)"
  using assms(2)
proof (induction w arbitrary: p n)
  case (Cons c w)
  then show ?case
    using assms(1) Cons.IH [of "Suc p" "n + 1"]
    by (auto simp: Let_def field_of_state_def enter_field_def grow_begin add.assoc)
qed simp

lemma url_loop_field:
  assumes "t \<in> {s_req_path, s_req_query_string, s_req_fragment}" "parse_url_char s c = t"
    and "\<forall>c \<in> set w. parse_url_char t c = t" "old_uf \<noteq> field_of_state t"
  shows "url_loop (c # w @ cs) p s old_uf found u =
    url_loop cs (p + Suc (length w)) t (field_of_state t) found
      (begin_field (field_of_state t) p (of_nat (Suc (length w))) u)"
proof -
  have "url_loop (c # w @ cs) p s old_uf found u =
      url_loop (w @ cs) (Suc p) t (field_of_state t) found (begin_field (field_of_state t) p 1 u)"
    using assms(1,2,4) by (auto simp: Let_def field_of_state_def enter_field_def)
  then show ?thesis using url_loop_same [OF assms(1,3), of cs "Suc p" found p 1 u] by simp
qed

lemma url_slice_begin [simp]:
  "url_slice buf (begin_field uf p n u) f = (if f = uf then slice_of (unat (of_nat p :: u16)) (unat n) buf else url_slice buf u f)"
  by (simp add: url_slice_def begin_field_def)

lemma slice_of_middle: "slice_of (length a) (length b) (a @ b @ c) = b"
  by (simp add: slice_of_def)

abbreviation opt_part :: "char \<Rightarrow> string \<Rightarrow> string" where
  "opt_part c s \<equiv> if s = [] then [] else c # s"

lemma url_loop_path:
  assumes "path \<noteq> []" "hd path \<in> {CHR ''/'', CHR ''*''}" "list_all IS_URL_CHAR (tl path)"
  shows "url_loop (path @ cs) 0 s_req_spaces_before_url UF_MAX found u =
    url_loop cs (length path) s_req_path UF_PATH found (begin_field UF_PATH 0 (of_nat (length path)) u)"
proof -
  obtain c w where path: "path = c # w" "c \<in> {CHR ''/'', CHR ''*''}" "list_all IS_URL_CHAR w"
    using assms by (cases path) auto
  then have "\<forall>c \<in> set w. parse_url_char s_req_path c = s_req_path"
    by (auto simp: list_all_iff parse_url_char_stays)
  from url_loop_field [OF _ parse_url_char_enters(1) [OF path(2)] this, of UF_MAX cs 0 found u]
  show ?thesis by (simp add: path(1) field_of_state_def del: url_loop.simps)
qed

lemma url_loop_query:
  assumes "list_all (\<lambda>c. IS_URL_CHAR c \<or> c = CHR ''?'') query"
  shows "url_loop (opt_part CHR ''?'' query @ cs) p s_req_path UF_PATH found u =
    (if query = [] then url_loop cs p s_req_path UF_PATH found u
     else url_loop cs (Suc (p + length query)) s_req_query_string UF_QUERY found
       (begin_field UF_QUERY (Suc p) (of_nat (length query)) u))"
proof (cases query)
  case (Cons c w)
  have c: "IS_URL_CHAR c \<or> c = CHR ''?''" and "\<forall>c \<in> set w. IS_URL_CHAR c \<or> c = CHR ''?''"
    using assms Cons by (auto simp: list_all_iff)
  then have "\<forall>c \<in> set w. parse_url_char s_req_query_string c = s_req_query_string"
    by (auto simp: parse_url_char_stays)
  from url_loop_field [OF _ parse_url_char_enters(4) [OF c] this, of UF_PATH cs "Suc p" found u]
  have "url_loop (query @ cs) (Suc p) s_req_query_string_start UF_PATH found u =
      url_loop cs (Suc (p + length query)) s_req_query_string UF_QUERY found
        (begin_field UF_QUERY (Suc p) (of_nat (length query)) u)"
    by (simp add: Cons field_of_state_def del: url_loop.simps)
  moreover have "url_loop (CHR ''?'' # query @ cs) p s_req_path UF_PATH found u =
      url_loop (query @ cs) (Suc p) s_req_query_string_start UF_PATH found u"
    by (simp add: Let_def parse_url_char_enters(2))
  ultimately show ?thesis using Cons by (simp del: url_loop.simps)
qed simp

lemma url_loop_fragment:
  assumes "list_all (\<lambda>c. IS_URL_CHAR c \<or> c = CHR ''?'' \<or> c = CHR ''#'') fragment"
    and "fragment \<noteq> [] \<longrightarrow> hd fragment \<noteq> CHR ''#''"
    and "s \<in> {s_req_path, s_req_query_string}" "old_uf \<noteq> UF_FRAGMENT"
  shows "url_loop (opt_part CHR ''#'' fragment) p s old_uf found u =
    Loop_done found (if fragment = [] then u else begin_field UF_FRAGMENT (Suc p) (of_nat (length fragment)) u)"
proof (cases fragment)
  case (Cons c w)
  have c: "IS_URL_CHAR c \<or> c = CHR ''?''" and "\<forall>c \<in> set w. IS_URL_CHAR c \<or> c \<in> {CHR ''?'', CHR ''#''}"
    using assms(1,2) Cons by (auto simp: list_all_iff)
  then have "\<forall>c \<in> set w. parse_url_char s_req_fragment c = s_req_fragment"
    by (auto simp: parse_url_char_stays)
  from url_loop_field [OF _ parse_url_char_enters(5) [OF c] this, of old_uf "[]" "Suc p" found u] assms(4)
  have "url_loop fragment (Suc p) s_req_fragment_start old_uf found u =
      Loop_done found (begin_field UF_FRAGMENT (Suc p) (of_nat (length fragment)) u)"
    by (simp add: Cons field_of_state_def)
  moreover have "url_loop (CHR ''#'' # fragment) p s old_uf found u =
      url_loop fragment (Suc p) s_req_fragment_start old_uf found u"
    using assms(3) by (simp add: Let_def parse_url_char_enters(3))
  ultimately show ?thesis using Cons by (simp del: url_loop.simps)
qed simp

text \<open>The parser of URLs finds exactly the parts a URL is put together from.\<close>

lemma parse_url_text:
  assumes "printable_url path query fragment"
  shows "\<exists>u. http_parser_parse_url (url_text path query fragment) False http_parser_url_init = Url_ok u \<and>
    url_has u UF_PATH \<and> url_slice (url_text path query fragment) u UF_PATH = path \<and>
    (url_has u UF_QUERY \<longleftrightarrow> query \<noteq> []) \<and>
    (query \<noteq> [] \<longrightarrow> url_slice (url_text path query fragment) u UF_QUERY = query) \<and>
    (url_has u UF_FRAGMENT \<longleftrightarrow> fragment \<noteq> []) \<and>
    (fragment \<noteq> [] \<longrightarrow> url_slice (url_text path query fragment) u UF_FRAGMENT = fragment)"
proof -
  let ?url = "url_text path query fragment"
  let ?q = "opt_part CHR ''?'' query" and ?f = "opt_part CHR ''#'' fragment"
  have len: "length path + length ?q + length ?f < 65536" and url: "?url = path @ ?q @ ?f"
    using assms by (simp_all add: printable_url_def url_text_def)
  define u1 where "u1 = begin_field UF_PATH 0 (of_nat (length path)) (http_parser_url_init\<lparr>port := 0, field_set := 0\<rparr>)"
  define u2 where "u2 = (if query = [] then u1 else begin_field UF_QUERY (Suc (length path)) (of_nat (length query)) u1)"
  define u3 where "u3 = (if fragment = [] then u2
    else begin_field UF_FRAGMENT (Suc (length path + length ?q)) (of_nat (length fragment)) u2)"
  note defs = u3_def u2_def u1_def
  have run: "url_loop ?url 0 s_req_spaces_before_url UF_MAX False (http_parser_url_init\<lparr>port := 0, field_set := 0\<rparr>) =
      Loop_done False u3"
    using assms unfolding url printable_url_def defs
    by (simp add: url_loop_path url_loop_query url_loop_fragment del: url_loop.simps append.simps)
  have has: "\<not> url_has u3 UF_SCHEMA" "\<not> url_has u3 UF_HOST" "\<not> url_has u3 UF_PORT" "url_has u3 UF_PATH"
    "url_has u3 UF_QUERY \<longleftrightarrow> query \<noteq> []" "url_has u3 UF_FRAGMENT \<longleftrightarrow> fragment \<noteq> []"
    by (simp_all add: defs) (simp_all add: url_has_def)
  have "?url \<noteq> []" using assms by (auto simp: printable_url_def url_text_def)
  then have "http_parser_parse_url ?url False http_parser_url_init = Url_ok u3"
    using run has by (simp add: http_parser_parse_url_def url_port_def)
  moreover have "url_slice ?url u3 UF_PATH = path"
    using len by (simp add: defs url slice_of_def unat_of_nat)
  moreover have "url_slice ?url u3 UF_QUERY = query" if "query \<noteq> []"
    using that len slice_of_middle [of "path @ ''?''" query ?f]
    by (cases "fragment = []") (simp_all add: defs url_text_def unat_of_nat del: of_nat_Suc of_nat_add)
  moreover have "url_slice ?url u3 UF_FRAGMENT = fragment" if "fragment \<noteq> []"
    using that len slice_of_middle [of "path @ ?q @ ''#''" fragment "[]"]
    by (cases "query = []") (simp_all add: defs url_text_def unat_of_nat del: of_nat_Suc of_nat_add)
  ultimately show ?thesis using has by auto
qed

section \<open>The URL of a request\<close>

definition url_states :: "state set" where
  "url_states = {s_req_path, s_req_query_string_start, s_req_query_string, s_req_fragment_start, s_req_fragment}"

lemma url_states_closed: "s \<in> url_states \<Longrightarrow> parse_url_char s c \<in> insert s_dead url_states"
  unfolding url_states_def by (elim insertE emptyE; simp add: parse_url_char_def)

lemma parse_url_char_dead: "parse_url_char s c \<noteq> s_dead \<Longrightarrow> c \<noteq> SP \<and> c \<noteq> CR \<and> c \<noteq> LF"
  by (auto simp: parse_url_char_def)

lemma url_loop_alive:
  "url_loop (c # cs) p s old_uf found u = Loop_done f v \<Longrightarrow> parse_url_char s c \<noteq> s_dead \<and>
   (\<exists>old' found' u'. url_loop cs (Suc p) (parse_url_char s c) old' found' u' = Loop_done f v)"
  by (cases "parse_url_char s c") (auto simp: Let_def)

lemma exec_switch_url:
  "cst x \<in> url_states \<Longrightarrow> exec_switch S mx data x = exec_req_url S data x"
  by (auto simp: url_states_def exec_switch_def)

lemma url_states_header: "s \<in> url_states \<Longrightarrow> PARSING_HEADER s"
  by (auto simp: url_states_def PARSING_HEADER_iff)

lemma parses_url_chars:
  assumes "url_loop w p s old_uf found u0 = Loop_done f v" "s \<in> url_states" "length data \<le> unat mx + length rest"
    and "\<And>t. t \<in> url_states \<Longrightarrow> parses S mx data Q t m P u rest"
  shows "parses S mx data Q s m P u (w @ rest)"
  using assms(1,2)
proof (induction w arbitrary: p s old_uf found u0)
  case Nil
  then show ?case using assms(4) by simp
next
  case (Cons c w)
  let ?t = "parse_url_char s c"
  from url_loop_alive [OF Cons.prems(1)] obtain old' found' u'
    where t: "?t \<noteq> s_dead" and l: "url_loop w (Suc p) ?t old' found' u' = Loop_done f v" by blast
  with url_states_closed [OF Cons.prems(2), of c] have "?t \<in> url_states" by auto
  from Cons.IH [OF l this] have IH: "parses S mx data Q ?t m P u (w @ rest)" .
  show ?case
    unfolding append.simps
    by (rule parses_step [OF url_states_header [OF Cons.prems(2)] _ _ IH])
      (use assms(3) Cons.prems(2) t parse_url_char_dead [OF t] in
        \<open>simp_all add: exec_switch_url exec_req_url_def exec_url_char_def Let_def\<close>)
qed

lemma parses_url_end:
  assumes "s \<in> url_states" "length data = a + length url + Suc (length rest)" "drop a data = url @ SP # rest"
    and "length data \<le> unat mx + length rest" "http_errno P = HPE_OK"
    and "on_request_url_cb url (P\<lparr>p_state := s_req_http_start\<rparr>) u = (0, P\<lparr>p_state := s_req_http_start\<rparr>, u')"
    and "parses (s_request_settings ops) mx data Q s_req_http_start Map.empty (P\<lparr>p_state := s_req_http_start\<rparr>) u' rest"
  shows "parses (s_request_settings ops) mx data Q s [M_url \<mapsto> a] P u (SP # rest)"
proof (rule parses_step [OF url_states_header [OF assms(1)] assms(4) _ assms(7)])
  fix x :: "'a HttpRequestParser_data xst"
  assume x: "cst x = s" "marks x = [M_url \<mapsto> a]" "prs x = P" "usr x = u" "cur_ch x = SP"
    "length data = Suc (pos x + length rest)"
  have p: "pos x = a + length url" using x(6) assms(2) by simp
  have "slice_of a (pos x - a) data = url" using assms(3) by (simp add: slice_of_def p)
  then show "exec_switch (s_request_settings ops) mx data x =
      Next (x\<lparr>cst := s_req_http_start, marks := Map.empty, prs := P\<lparr>p_state := s_req_http_start\<rparr>, usr := u'\<rparr>)"
    using x assms(1,2,5,6) p
    by (simp add: exec_switch_url exec_req_url_def CALLBACK_DATA_gen_def Let_def)
qed

lemma parses_url:
  assumes "http_parser_parse_url url False http_parser_url_init = Url_ok r"
    and "url \<noteq> []" "hd url \<in> {CHR ''/'', CHR ''*''}" "p_method P \<noteq> HTTP_CONNECT" "http_errno P = HPE_OK"
    and "length data \<le> unat mx + length rest" "drop (length data - length (url @ SP # rest)) data = url @ SP # rest"
    and "on_request_url_cb url (P\<lparr>p_state := s_req_http_start\<rparr>) u = (0, P\<lparr>p_state := s_req_http_start\<rparr>, u')"
    and "parses (s_request_settings ops) mx data Q s_req_http_start Map.empty (P\<lparr>p_state := s_req_http_start\<rparr>) u' rest"
  shows "parses (s_request_settings ops) mx data Q s_req_spaces_before_url Map.empty P u (url @ SP # rest)"
proof -
  let ?S = "s_request_settings ops"
  let ?a = "length data - length (url @ SP # rest)"
  obtain c w where url: "url = c # w" using assms(2) by (cases url) auto
  have c: "parse_url_char s_req_spaces_before_url c = s_req_path" "c \<noteq> SP"
    using assms(3) url by (auto simp: parse_url_char_marks)
  obtain f v where "url_loop url 0 s_req_spaces_before_url UF_MAX False (http_parser_url_init\<lparr>port := 0, field_set := 0\<rparr>) = Loop_done f v"
    by (rule parse_url_okE [OF assms(1)]) simp
  then obtain old' found' u0 where l: "url_loop w (Suc 0) s_req_path old' found' u0 = Loop_done f v"
    unfolding url using url_loop_alive [of c w 0] c by metis
  have len: "length data = ?a + length url + Suc (length rest)" using arg_cong [OF assms(7), of length] by simp
  have fin: "parses ?S mx data Q t [M_url \<mapsto> ?a] P u (SP # rest)" if "t \<in> url_states" for t
    by (rule parses_url_end [OF that len assms(7,6,5,8,9)])
  have "parses ?S mx data Q s_req_path [M_url \<mapsto> ?a] P u (w @ SP # rest)"
    using assms(6) by (intro parses_url_chars [OF l _ _ fin]) (simp_all add: url_states_def)
  then show ?thesis
    unfolding url append.simps
    by (rule parses_step [rotated 3])
      (use assms(4,6) c len url in
        \<open>auto simp: PARSING_HEADER_iff exec_switch_def exec_req_spaces_before_url_def exec_url_char_def MARK_def Let_def\<close>)
qed

lemma request_url_cb:
  assumes "printable_url path query fragment" "req_query (rq_data u) = []" "req_fragment (rq_data u) = []"
  shows "on_request_url_cb (url_text path query fragment) P u =
    (0, P, u\<lparr>rq_data := (rq_data u)\<lparr>req_path := path, req_query := query, req_fragment := fragment\<rparr>\<rparr>)"
  using parse_url_text [OF assms(1)] assms(2,3)
  by (cases "query = []"; cases "fragment = []") (auto simp: on_request_url_cb_def url_assign_def)

end
