(* ===== verification/HttpNames.thy ===== *)
theory HttpNames
  imports HttpMessageParser
begin

text \<open>
  What the automata of \<^verbatim>\<open>http_parser_execute\<close> for the names and the values of headers do with whole words: the
  loops of \<^verbatim>\<open>s_header_field\<close> and \<^verbatim>\<open>s_header_value\<close> as folds over the characters, the names that have no special
  meaning, and the words of \<^verbatim>\<open>Connection\<close> and \<^verbatim>\<open>Content-Length\<close>.
\<close>

section \<open>Names of headers\<close>

text \<open>What the characters of a name after the first do to the parser.\<close>

primrec hf_chars :: "string \<Rightarrow> http_parser \<Rightarrow> http_parser option" where
  "hf_chars [] P = Some P"
| "hf_chars (c # cs) P =
    (if p_header_state P = h_general then Some P
     else case hf_char c (TOKEN c) P of None \<Rightarrow> None | Some P' \<Rightarrow> hf_chars cs P')"

lemma hf_chars_general: "p_header_state P = h_general \<Longrightarrow> hf_chars w P = Some P"
  by (cases w) simp_all

lemma scan_token_word:
  "drop q data = c # w @ d # rest \<Longrightarrow> \<forall>c \<in> set w. TOKEN c \<noteq> NUL \<Longrightarrow> TOKEN d = NUL \<Longrightarrow>
   \<exists>k \<le> length w. scan_token data q pe = q + k"
proof (induction w arbitrary: q c)
  case Nil
  then have "data ! (q + 1) = d"
    by (metis append_Nil drop_Suc list.sel(3) nth_via_drop Suc_eq_plus1 tl_drop)
  then show ?case using Nil by (subst scan_token.simps) simp
next
  case (Cons c' w)
  have d: "drop (q + 1) data = c' # w @ d # rest"
    using Cons.prems(1) by (metis append_Cons drop_Suc list.sel(3) Suc_eq_plus1 tl_drop)
  from Cons.IH [OF this] Cons.prems obtain k where k: "k \<le> length w" "scan_token data (q + 1) pe = q + 1 + k" by auto
  show ?case
  proof (cases "q + 1 < pe \<and> TOKEN (data ! (q + 1)) \<noteq> NUL")
    case True
    then have "scan_token data q pe = q + Suc k" using k by (subst scan_token.simps) simp
    then show ?thesis using k(1) by (intro exI [of _ "Suc k"]) simp
  next
    case False
    then have "scan_token data q pe = q + 0" by (subst scan_token.simps) (simp only: False if_False add_0_right)
    then show ?thesis by blast
  qed
qed

lemma hf_loop_chars:
  "drop (pos x) data = w @ d # rest \<Longrightarrow> \<forall>c \<in> set w. TOKEN c \<noteq> NUL \<Longrightarrow> TOKEN d = NUL \<Longrightarrow>
   hf_chars w (prs x) = Some P \<Longrightarrow>
   hf_loop mx data x = Some (x\<lparr>prs := P, pos := pos x + length w, cur_ch := d\<rparr>)"
proof (induction "length w" arbitrary: w x rule: less_induct)
  case less
  have lt: "pos x < length data" using less.prems(1) by (metis append_is_Nil_conv drop_eq_Nil2 list.distinct(1) not_le)
  show ?case
  proof (cases w)
    case Nil
    then have "data ! pos x = d" using less.prems(1) by (simp add: nth_via_drop)
    then show ?thesis using less.prems lt Nil by (subst hf_loop.simps) (simp add: Let_def)
  next
    case (Cons c w')
    have c: "data ! pos x = c" "TOKEN c \<noteq> NUL" using less.prems(1,2) Cons by (simp_all add: nth_via_drop)
    have dr: "drop (pos x + Suc k) data = drop k w' @ d # rest" if "k \<le> length w'" for k
    proof -
      have "drop (pos x + Suc k) data = drop (Suc k) (drop (pos x) data)" by (simp add: add.commute)
      then show ?thesis using that by (simp add: less.prems(1) Cons)
    qed
    show ?thesis
    proof (cases "p_header_state (prs x) = h_general")
      case True
      obtain k where k: "k \<le> length w'"
          "scan_token data (pos x) (pos x + min (length data - pos x) (unat mx)) = pos x + k"
        using scan_token_word [of "pos x" data c w' d rest] less.prems Cons by auto
      let ?y = "x\<lparr>cur_ch := c, pos := Suc (pos x + k)\<rparr>"
      have "hf_loop mx data x = hf_loop mx data ?y"
        using True lt c k by (subst hf_loop.simps) (simp add: Let_def)
      also have "\<dots> = Some (?y\<lparr>prs := P, pos := pos ?y + length (drop k w'), cur_ch := d\<rparr>)"
        using less.prems(2-4) dr [OF k(1)] Cons True
        by (intro less.hyps) (auto simp: hf_chars_general dest: in_set_dropD)
      finally show ?thesis using k(1) Cons by simp
    next
      case False
      then obtain P' where P': "hf_char c (TOKEN c) (prs x) = Some P'" "hf_chars w' P' = Some P"
        using less.prems(4) Cons by (auto split: option.split_asm)
      let ?y = "x\<lparr>cur_ch := c, prs := P', pos := Suc (pos x)\<rparr>"
      have "hf_loop mx data x = hf_loop mx data ?y"
        using False lt c P' by (subst hf_loop.simps) (simp add: Let_def)
      also have "\<dots> = Some (?y\<lparr>prs := P, pos := pos ?y + length w', cur_ch := d\<rparr>)"
        using less.prems dr [of 0] Cons P' by (intro less.hyps) auto
      finally show ?thesis using Cons by simp
    qed
  qed
qed

definition first_header_state :: "char \<Rightarrow> header_states" where
  "first_header_state c =
    (if c = CHR ''c'' then h_C else if c = CHR ''p'' then h_matching_proxy_connection
     else if c = CHR ''t'' then h_matching_transfer_encoding else if c = CHR ''u'' then h_matching_upgrade
     else h_general)"

lemma token_plain: "TOKEN c \<noteq> NUL \<Longrightarrow> c \<notin> {CR, LF, SP, HT, CHR '':''}"
proof -
  have "TOKEN CR = NUL" "TOKEN LF = NUL" "TOKEN SP = NUL" "TOKEN HT = NUL" "TOKEN CHR '':'' = NUL" by code_simp+
  then show "TOKEN c \<noteq> NUL \<Longrightarrow> c \<notin> {CR, LF, SP, HT, CHR '':''}" by auto
qed

section \<open>Ordinary header names\<close>

definition starts_with :: "string \<Rightarrow> string \<Rightarrow> bool" where
  "starts_with p w \<longleftrightarrow> take (length p) w = p"

lemma starts_with_append: "starts_with p w \<Longrightarrow> starts_with p (w @ v)"
  by (auto simp: starts_with_def) (metis nat_le_linear take_all diff_is_0_eq length_take min.absorb1 take0 append_Nil2)

text \<open>A name no special treatment of the parser applies to.\<close>

definition plain_name :: "string \<Rightarrow> bool" where
  "plain_name k \<longleftrightarrow> k \<noteq> [] \<and> list_all (\<lambda>c. TOKEN c \<noteq> NUL) k \<and>
     map TOKEN k \<notin> {''connection'', ''proxy-connection'', ''content-length'', ''upgrade''} \<and>
     \<not> starts_with ''transfer-encoding'' (map TOKEN k)"

text \<open>What the parser knows of a name of which it has read \<open>w\<close>.\<close>

fun name_state :: "string \<Rightarrow> header_states \<Rightarrow> 5 word \<Rightarrow> bool" where
  "name_state w h_general i = True"
| "name_state w h_C i = (w = ''c'' \<and> i = 0)"
| "name_state w h_CO i = (w = ''co'' \<and> i = 1)"
| "name_state w h_CON i = (w = ''con'' \<and> i = 2)"
| "name_state w h_matching_connection i = (w = take (Suc (unat i)) ''connection'' \<and> Suc (unat i) < 10)"
| "name_state w h_matching_proxy_connection i = (w = take (Suc (unat i)) ''proxy-connection'' \<and> Suc (unat i) < 16)"
| "name_state w h_matching_content_length i = (w = take (Suc (unat i)) ''content-length'' \<and> Suc (unat i) < 14)"
| "name_state w h_matching_transfer_encoding i = (w = take (Suc (unat i)) ''transfer-encoding'' \<and> Suc (unat i) < 17)"
| "name_state w h_matching_upgrade i = (w = take (Suc (unat i)) ''upgrade'' \<and> Suc (unat i) < 7)"
| "name_state w h_connection i = (w \<in> {''connection'', ''proxy-connection''})"
| "name_state w h_content_length i = (w = ''content-length'')"
| "name_state w h_transfer_encoding i = (w = ''transfer-encoding'')"
| "name_state w h_upgrade i = (w = ''upgrade'')"
| "name_state w _ i = False"

lemma match_step_name:
  assumes "w = take (Suc (unat i)) word" "Suc (unat i) < length word" "length word < 32"
  shows "match_step word cur h_general found c (i + 1) = h_general \<or>
    match_step word cur h_general found c (i + 1) = found \<and> w @ [c] = word \<or>
    match_step word cur h_general found c (i + 1) = cur \<and> w @ [c] = take (Suc (unat (i + 1))) word \<and>
      Suc (unat (i + 1)) < length word"
proof -
  have i: "unat (i + 1) = Suc (unat i)" using assms(2,3) unat_inc_less [of i] by simp
  show ?thesis
  proof (cases "c = cchar word (Suc (unat i))")
    case False
    then show ?thesis by (simp add: match_step_def i)
  next
    case True
    then have w: "w @ [c] = take (Suc (Suc (unat i))) word"
      using assms(1,2) by (simp add: cchar_def take_Suc_conv_app_nth)
    then show ?thesis using assms(2) True by (cases "Suc (unat i) = length word - 1") (auto simp: match_step_def i)
  qed
qed

lemma first_header_state_name: "name_state [c] (first_header_state c) 0"
  by (simp add: first_header_state_def)

text \<open>The fields of the parser a head does not touch but through its special headers.\<close>

definition same_head :: "http_parser \<Rightarrow> http_parser \<Rightarrow> bool" where
  "same_head P P' \<longleftrightarrow> p_type P' = p_type P \<and> p_flags P' = p_flags P \<and> content_length P' = content_length P \<and>
     http_major P' = http_major P \<and> http_minor P' = http_minor P \<and> p_method P' = p_method P \<and>
     status_code P' = status_code P \<and> http_errno P' = http_errno P"

lemma same_head_trans: "same_head P P' \<Longrightarrow> same_head P' P'' \<Longrightarrow> same_head P P''"
  by (simp add: same_head_def)

definition name_step :: "string \<Rightarrow> http_parser \<Rightarrow> http_parser \<Rightarrow> bool" where
  "name_step w P P' \<longleftrightarrow> name_state w (p_header_state P') (p_index P') \<and> same_head P P' \<and>
     (uses_transfer_encoding P' \<longrightarrow> uses_transfer_encoding P \<or> starts_with ''transfer-encoding'' w)"

lemma name_step_trans:
  assumes "name_step w P P'" "name_step (w @ v) P' P''"
  shows "name_step (w @ v) P P''"
  using assms starts_with_append [of "''transfer-encoding''" w v] same_head_trans [of P P' P'']
  unfolding name_step_def by blast

lemma name_step_match:
  assumes "name_state w (p_header_state P) (p_index P)"
    and "(p_header_state P, word, found) \<in> {(h_matching_connection, ''connection'', h_connection),
      (h_matching_proxy_connection, ''proxy-connection'', h_connection),
      (h_matching_content_length, ''content-length'', h_content_length),
      (h_matching_transfer_encoding, ''transfer-encoding'', h_transfer_encoding),
      (h_matching_upgrade, ''upgrade'', h_upgrade)}"
  shows "name_state (w @ [c]) (match_step word (p_header_state P) h_general found c (p_index P + 1)) (p_index P + 1)"
proof -
  have "w = take (Suc (unat (p_index P))) word" "Suc (unat (p_index P)) < length word" "length word < 32"
    using assms by auto
  from match_step_name [OF this, of "p_header_state P" found c] show ?thesis
    using assms(2) by (elim disjE conjE insertE) (simp_all del: take_append)
qed

lemma hf_char_name:
  assumes "name_state w (p_header_state P) (p_index P)" "p_header_state P \<noteq> h_general" "ch \<noteq> SP"
  shows "\<exists>P'. hf_char ch c P = Some P' \<and> name_step (w @ [c]) P P'"
proof (cases "p_header_state P")
  case h_matching_transfer_encoding
  let ?h = "match_step ''transfer-encoding'' h_matching_transfer_encoding h_general h_transfer_encoding c (p_index P + 1)"
  have n: "name_state (w @ [c]) ?h (p_index P + 1)"
    using name_step_match [OF assms(1), of "''transfer-encoding''" h_transfer_encoding c] h_matching_transfer_encoding by simp
  then have "?h = h_transfer_encoding \<Longrightarrow> starts_with ''transfer-encoding'' (w @ [c])" by (simp add: starts_with_def)
  with n h_matching_transfer_encoding show ?thesis
    by (simp add: hf_char_def Let_def name_step_def same_head_def)
next
  case h_matching_connection
  with name_step_match [OF assms(1), of "''connection''" h_connection c] show ?thesis
    by (simp add: hf_char_def Let_def name_step_def same_head_def)
next
  case h_matching_proxy_connection
  with name_step_match [OF assms(1), of "''proxy-connection''" h_connection c] show ?thesis
    by (simp add: hf_char_def Let_def name_step_def same_head_def)
next
  case h_matching_content_length
  with name_step_match [OF assms(1), of "''content-length''" h_content_length c] show ?thesis
    by (simp add: hf_char_def Let_def name_step_def same_head_def)
next
  case h_matching_upgrade
  with name_step_match [OF assms(1), of "''upgrade''" h_upgrade c] show ?thesis
    by (simp add: hf_char_def Let_def name_step_def same_head_def)
qed (use assms in \<open>simp_all add: hf_char_def Let_def name_step_def same_head_def\<close>)

lemma hf_chars_name:
  "name_state v (p_header_state P) (p_index P) \<Longrightarrow> \<forall>c \<in> set w. TOKEN c \<noteq> NUL \<Longrightarrow>
   \<exists>P'. hf_chars w P = Some P' \<and> name_step (v @ map TOKEN w) P P'"
proof (induction w arbitrary: v P)
  case Nil
  then show ?case by (simp add: name_step_def same_head_def)
next
  case (Cons c w)
  show ?case
  proof (cases "p_header_state P = h_general")
    case True
    then show ?thesis by (simp add: name_step_def same_head_def)
  next
    case False
    have "c \<noteq> SP" using Cons.prems(2) token_plain [of c] by simp
    from hf_char_name [OF Cons.prems(1) False this, of "TOKEN c"] obtain P1
      where P1: "hf_char c (TOKEN c) P = Some P1" "name_step (v @ [TOKEN c]) P P1" by blast
    have "name_state (v @ [TOKEN c]) (p_header_state P1) (p_index P1)" using P1(2) by (simp only: name_step_def)
    moreover have "\<forall>c \<in> set w. TOKEN c \<noteq> NUL" using Cons.prems(2) by simp
    ultimately obtain P' where P': "hf_chars w P1 = Some P'" "name_step ((v @ [TOKEN c]) @ map TOKEN w) P1 P'"
      using Cons.IH by blast
    have "name_step (v @ map TOKEN (c # w)) P P'" using name_step_trans [OF P1(2) P'(2)] by simp
    then show ?thesis using False P1(1) P'(1) by simp
  qed
qed

lemma name_state_special:
  assumes "name_state n h i" "n \<notin> {''connection'', ''proxy-connection'', ''content-length'', ''upgrade''}"
    and "\<not> starts_with ''transfer-encoding'' n"
  shows "h \<notin> {h_connection, h_content_length, h_transfer_encoding, h_upgrade}"
  using assms by (auto simp: starts_with_def)

text \<open>After an ordinary name the parser is in a state in which the value has no special meaning.\<close>

lemma plain_name_chars:
  assumes "plain_name (c # w)" "\<not> uses_transfer_encoding P"
  shows "\<exists>P'. hf_chars w (P\<lparr>p_index := 0, p_header_state := first_header_state (TOKEN c)\<rparr>) = Some P' \<and>
    same_head P P' \<and> \<not> uses_transfer_encoding P' \<and> name_state (map TOKEN (c # w)) (p_header_state P') (p_index P') \<and>
    p_header_state P' \<notin> {h_connection, h_content_length, h_transfer_encoding, h_upgrade}"
proof -
  let ?P = "P\<lparr>p_index := 0, p_header_state := first_header_state (TOKEN c)\<rparr>"
  have tok: "\<forall>c \<in> set w. TOKEN c \<noteq> NUL" and special: "\<not> starts_with ''transfer-encoding'' (map TOKEN (c # w))"
    "map TOKEN (c # w) \<notin> {''connection'', ''proxy-connection'', ''content-length'', ''upgrade''}"
    using assms(1) by (simp_all only: plain_name_def list_all_iff set_simps) simp_all
  have "name_state [TOKEN c] (p_header_state ?P) (p_index ?P)" by (simp add: first_header_state_name)
  from hf_chars_name [OF this tok] obtain P'
    where P': "hf_chars w ?P = Some P'" "name_step (map TOKEN (c # w)) ?P P'" by auto
  then have n: "name_state (map TOKEN (c # w)) (p_header_state P') (p_index P')" "same_head P P'"
      "\<not> uses_transfer_encoding P'"
    using assms(2) special(1) by (simp_all add: name_step_def same_head_def)
  show ?thesis
    using P'(1) n name_state_special [OF n(1) special(2,1)] by blast
qed

section \<open>Values of headers\<close>

text \<open>What the characters of a value after the first do to the parser and to the local \<^verbatim>\<open>h_state\<close>.\<close>

primrec hv_chars :: "string \<Rightarrow> header_states \<Rightarrow> http_parser \<Rightarrow> (header_states \<times> http_parser) option" where
  "hv_chars [] h P = Some (h, P)"
| "hv_chars (c # cs) h P =
    (if h = h_general then Some (h, P)
     else case hv_char h c P of Hv_ok h' P' \<Rightarrow> hv_chars cs h' P' | _ \<Rightarrow> None)"

lemma hv_chars_general: "hv_chars w h_general P = Some (h_general, P)"
  by (cases w) simp_all

definition value_char :: "char \<Rightarrow> bool" where
  "value_char c \<longleftrightarrow> IS_HEADER_CHAR c \<and> c \<noteq> CR \<and> c \<noteq> LF"

lemma hv_scan_word:
  "drop q data = w @ CR # rest \<Longrightarrow> list_all value_char w \<Longrightarrow> q + length w < pe \<Longrightarrow>
   hv_scan False data q pe = Inr (q + length w - 1)"
proof (induction w arbitrary: q)
  case Nil
  then have "data ! q = CR" by (simp add: nth_via_drop)
  then show ?case using Nil by (subst hv_scan.simps) simp
next
  case (Cons c w)
  have c: "data ! q = c" using Cons.prems(1) by (simp add: nth_via_drop)
  have d: "drop (q + 1) data = w @ CR # rest"
    using Cons.prems(1) by (metis append_Cons drop_Suc list.sel(3) Suc_eq_plus1 tl_drop)
  have "hv_scan False data q pe = hv_scan False data (q + 1) pe"
    using Cons.prems c by (subst hv_scan.simps) (simp add: value_char_def)
  then show ?case using Cons.IH [OF d] Cons.prems by simp
qed

lemma hv_loop_CR:
  assumes "drop (pos x) data = CR # rest"
  shows "hv_loop S mx data start h x =
    CALLBACK_DATA S data M_header_value
      (x\<lparr>cst := s_header_almost_done, prs := (prs x)\<lparr>p_header_state := h\<rparr>, cur_ch := CR\<rparr>) (hv_finish mx data start h)"
proof -
  have "data ! pos x = CR" "pos x < length data"
    using assms by (auto simp: nth_via_drop) (metis drop_eq_Nil2 linorder_not_le list.distinct(1))
  then have run: "hv_loop S mx data start h x =
      CALLBACK_DATA S data M_header_value (x\<lparr>cur_ch := CR, cst := s_header_almost_done, prs := (prs x)\<lparr>p_header_state := h\<rparr>\<rparr>)
        (hv_finish mx data start h)"
    by (subst hv_loop.simps) (simp add: Let_def)
  have eq: "x\<lparr>cst := s_header_almost_done, prs := (prs x)\<lparr>p_header_state := h\<rparr>, cur_ch := CR\<rparr> =
      x\<lparr>cur_ch := CR, cst := s_header_almost_done, prs := (prs x)\<lparr>p_header_state := h\<rparr>\<rparr>" by simp
  show ?thesis by (simp only: run eq)
qed

text \<open>The loop of a value reaches the end of the line.\<close>

lemma hv_loop_chars:
  "drop (pos x) data = w @ CR # rest \<Longrightarrow> list_all value_char w \<Longrightarrow> length w < unat mx \<Longrightarrow> \<not> lenient x \<Longrightarrow>
   hv_chars w h (prs x) = Some (h', P) \<Longrightarrow>
   hv_loop S mx data start h x =
     CALLBACK_DATA S data M_header_value
       (x\<lparr>pos := pos x + length w, cst := s_header_almost_done, prs := P\<lparr>p_header_state := h'\<rparr>, cur_ch := CR\<rparr>)
       (hv_finish mx data start h')"
proof (induction w arbitrary: h x)
  case Nil
  then show ?case using hv_loop_CR [of x data rest] by simp
next
  case (Cons c w)
  have lt: "pos x < length data" using Cons.prems(1) by (metis append_is_Nil_conv drop_eq_Nil2 list.distinct(1) not_le)
  have len: "pos x + length w + 1 < length data"
    using arg_cong [OF Cons.prems(1), of length] lt by simp
  have c: "data ! pos x = c" "c \<noteq> CR" "c \<noteq> LF" "IS_HEADER_CHAR c"
    using Cons.prems(1,2) by (simp_all add: nth_via_drop value_char_def)
  have d: "drop (pos x + Suc k) data = drop k (w @ CR # rest)" for k
  proof -
    have "drop (pos x + Suc k) data = drop (Suc k) (drop (pos x) data)" by (simp add: add.commute)
    then show ?thesis by (simp add: Cons.prems(1))
  qed
  show ?case
  proof (cases "h = h_general")
    case True
    have P: "P = prs x" "h' = h_general" using Cons.prems(5) True by auto
    let ?y = "x\<lparr>cur_ch := c, pos := pos x + Suc (length w)\<rparr>"
    have "hv_scan False data (pos x) (pos x + min (length data - pos x) (unat mx)) = Inr (pos x + length (c # w) - 1)"
      using Cons.prems(1-3) len by (intro hv_scan_word) auto
    then have "hv_loop S mx data start h x = hv_loop S mx data start h ?y"
      using True lt len c Cons.prems(4) by (subst hv_loop.simps) (simp add: Let_def)
    also have "\<dots> = CALLBACK_DATA S data M_header_value
        (?y\<lparr>cst := s_header_almost_done, prs := P\<lparr>p_header_state := h'\<rparr>, cur_ch := CR\<rparr>) (hv_finish mx data start h')"
      using hv_loop_CR [of ?y data rest] d [of "length w"] P True by simp
    finally show ?thesis by simp
  next
    case False
    then obtain h1 P1 where P1: "hv_char h c (prs x) = Hv_ok h1 P1" "hv_chars w h1 P1 = Some (h', P)"
      using Cons.prems(5) by (auto split: hv_result.split_asm)
    let ?y = "x\<lparr>cur_ch := c, prs := P1, pos := Suc (pos x)\<rparr>"
    have "hv_loop S mx data start h x = hv_loop S mx data start h1 ?y"
      using False lt c P1 Cons.prems(4) by (subst hv_loop.simps) (simp add: Let_def)
    also have "\<dots> = CALLBACK_DATA S data M_header_value
        (?y\<lparr>pos := pos ?y + length w, cst := s_header_almost_done, prs := P\<lparr>p_header_state := h'\<rparr>, cur_ch := CR\<rparr>)
        (hv_finish mx data start h')"
      using Cons.prems(2-4) P1 d [of 0] by (intro Cons.IH) simp_all
    finally show ?thesis by simp
  qed
qed

definition plain_value :: "string \<Rightarrow> bool" where
  "plain_value v \<longleftrightarrow> list_all value_char v \<and> (v \<noteq> [] \<longrightarrow> hd v \<noteq> SP \<and> hd v \<noteq> HT)"

lemma name_state_start:
  assumes "name_state w (p_header_state P) i"
    and "p_header_state P \<notin> {h_connection, h_content_length, h_transfer_encoding, h_upgrade}"
    and "cst x = s_header_value_discard_ws" "prs x = P" "marks x = Map.empty"
  shows "exec_header_value_start x = Next (x\<lparr>cst := s_header_value, marks := [M_header_value \<mapsto> pos x],
    prs := P\<lparr>p_index := 0, p_header_state := h_general\<rparr>\<rparr>)"
  using assms by (cases "p_header_state P") (simp_all add: exec_header_value_start_def MARK_def Let_def)

lemma name_state_flags: "name_state w h i \<Longrightarrow> header_flags h = 0"
  by (cases h) (simp_all add: header_flags_def)

section \<open>The connection header\<close>

lemma token_letters:
  "TOKEN CHR ''c'' = CHR ''c''" "TOKEN CHR ''o'' = CHR ''o''" "TOKEN CHR ''n'' = CHR ''n''" "TOKEN CHR ''e'' = CHR ''e''"
  "TOKEN CHR ''t'' = CHR ''t''" "TOKEN CHR ''i'' = CHR ''i''" "TOKEN CHR ''l'' = CHR ''l''" "TOKEN CHR ''g'' = CHR ''g''"
  "TOKEN CHR ''h'' = CHR ''h''" "TOKEN CHR ''-'' = CHR ''-''"
  by code_simp+

lemma hf_chars_connection:
  "hf_chars ''onnection'' (P\<lparr>p_index := 0, p_header_state := h_C\<rparr>) = Some (P\<lparr>p_index := 9, p_header_state := h_connection\<rparr>)"
  by (simp add: hf_char_def token_letters match_step_def cchar_def)

lemma hf_chars_content_length:
  "hf_chars ''ontent-length'' (P\<lparr>p_index := 0, p_header_state := h_C\<rparr>) =
   Some (P\<lparr>p_index := 13, p_header_state := h_content_length\<rparr>)"
  by (simp add: hf_char_def token_letters match_step_def cchar_def)

definition connection_value :: "bool \<Rightarrow> string" where
  "connection_value close = (if close then ''close'' else ''keep-alive'')"

definition connection_flag :: "bool \<Rightarrow> u8" where
  "connection_flag close = (if close then F_CONNECTION_CLOSE else F_CONNECTION_KEEP_ALIVE)"

lemma lower_letters:
  "LOWER CHR ''c'' = CHR ''c''" "LOWER CHR ''l'' = CHR ''l''" "LOWER CHR ''o'' = CHR ''o''" "LOWER CHR ''s'' = CHR ''s''"
  "LOWER CHR ''e'' = CHR ''e''" "LOWER CHR ''k'' = CHR ''k''" "LOWER CHR ''p'' = CHR ''p''" "LOWER CHR ''-'' = CHR ''-''"
  "LOWER CHR ''a'' = CHR ''a''" "LOWER CHR ''i'' = CHR ''i''" "LOWER CHR ''v'' = CHR ''v''"
  by code_simp+

lemma hv_chars_close:
  "hv_chars ''lose'' h_matching_connection_close (P\<lparr>p_index := 0\<rparr>) = Some (h_connection_close, P\<lparr>p_index := 4\<rparr>)"
  by (simp add: hv_char_def hv_connection_def lower_letters match_step_def cchar_def)

lemma hv_chars_keep_alive:
  "hv_chars ''eep-alive'' h_matching_connection_keep_alive (P\<lparr>p_index := 0\<rparr>) = Some (h_connection_keep_alive, P\<lparr>p_index := 9\<rparr>)"
  by (simp add: hv_char_def hv_connection_def lower_letters match_step_def cchar_def)

lemma connection_start:
  assumes "p_header_state P = h_connection" "cst x = s_header_value_discard_ws" "prs x = P" "marks x = Map.empty"
    "cur_ch x = (if close then CHR ''c'' else CHR ''k'')"
  shows "exec_header_value_start x = Next (x\<lparr>cst := s_header_value, marks := [M_header_value \<mapsto> pos x],
    prs := P\<lparr>p_header_state := (if close then h_matching_connection_close else h_matching_connection_keep_alive), p_index := 0\<rparr>\<rparr>)"
  using assms by (cases close) (simp_all add: exec_header_value_start_def MARK_def lower_letters Let_def)

lemma connection_value_chars:
  "hv_chars (tl (connection_value close)) (if close then h_matching_connection_close else h_matching_connection_keep_alive)
     (P\<lparr>p_index := 0\<rparr>) =
   Some (if close then h_connection_close else h_connection_keep_alive, P\<lparr>p_index := (if close then 4 else 9)\<rparr>)"
  by (cases close) (simp_all add: connection_value_def hv_chars_close hv_chars_keep_alive del: hv_chars.simps)

lemma connection_value_plain:
  "list_all value_char (connection_value close)"
  "connection_value close = (if close then CHR ''c'' else CHR ''k'') # tl (connection_value close)"
proof -
  have "list_all value_char ''close''" "list_all value_char ''keep-alive''" by code_simp+
  then show "list_all value_char (connection_value close)" by (simp add: connection_value_def)
qed (simp add: connection_value_def)

lemma connection_flag_other:
  "\<not> has_flag (connection_flag close) F_CHUNKED" "\<not> has_flag (connection_flag close) F_UPGRADE"
  "\<not> has_flag (connection_flag close) F_TRAILING" "\<not> has_flag (connection_flag close) F_SKIPBODY"
  "\<not> has_flag (connection_flag close) F_CONTENTLENGTH"
  by (simp_all add: connection_flag_def has_flag_def F_CONNECTION_CLOSE_def F_CONNECTION_KEEP_ALIVE_def
      F_CONTENTLENGTH_def F_CHUNKED_def F_UPGRADE_def F_TRAILING_def F_SKIPBODY_def)

section \<open>The length of a body\<close>

lemma content_length_flag:
  "\<not> has_flag F_CONTENTLENGTH F_CHUNKED" "\<not> has_flag F_CONTENTLENGTH F_UPGRADE"
  "\<not> has_flag F_CONTENTLENGTH F_TRAILING" "\<not> has_flag F_CONTENTLENGTH F_SKIPBODY"
  by (simp_all add: has_flag_def F_CONTENTLENGTH_def F_CHUNKED_def F_UPGRADE_def F_TRAILING_def F_SKIPBODY_def)

lemma digits_value_append: "digits_value b v (ds @ es) = digits_value b (digits_value b v ds) es"
  by (induction ds arbitrary: v) simp_all

lemma dec_nonempty: "dec n \<noteq> []"
  by (subst dec.simps) simp

lemma digit_char: "d < 10 \<Longrightarrow> IS_NUM (char_of (d + 48)) \<and> digit_val (char_of (d + 48)) = d"
  by (simp add: IS_NUM_def digit_val_def cval_def)

lemma dec_digits: "\<forall>c \<in> set (dec n). IS_NUM c"
proof (induction n rule: dec.induct)
  case (1 n)
  then show ?case using digit_char [of n] digit_char [of "n mod 10"] by (subst dec.simps) auto
qed

lemma dec_value: "digits_value 10 0 (map digit_val (dec n)) = n"
proof (induction n rule: dec.induct)
  case (1 n)
  then show ?case
    using digit_char [of n] digit_char [of "n mod 10"] by (subst dec.simps) (auto simp: digits_value_append)
qed

lemma num_value_char: "IS_NUM c \<Longrightarrow> value_char c \<and> c \<noteq> SP \<and> c \<noteq> HT"
  by (auto simp: IS_NUM_def value_char_def IS_HEADER_CHAR_def cval_def)

lemma hv_chars_digits:
  "\<forall>c \<in> set cs. IS_NUM c \<Longrightarrow> content_length_chars cs P = Hv_ok h_content_length_num P' \<Longrightarrow>
   hv_chars cs h_content_length_num P = Some (h_content_length_num, P')"
proof (induction cs arbitrary: P)
  case (Cons c cs)
  then have c: "IS_NUM c" "c \<noteq> SP" using num_value_char [of c] by auto
  show ?case
  proof (cases "(ULLONG_MAX - 10) div 10 < content_length P")
    case True
    then show ?thesis using Cons.prems(2) c by (simp add: hv_char_def hv_content_length_num_def)
  next
    case False
    then show ?thesis using Cons c by (simp add: hv_char_def hv_content_length_num_def Let_def)
  qed
qed simp

section \<open>The version\<close>

lemma parsed_version_nibbles:
  assumes "http_major P = of_nat (unat (drop_bit 4 v))" "http_minor P = of_nat (unat (v AND 0x0F))"
  shows "parsed_version P = v"
proof (rule bit_word_eqI)
  have m: "(0x0F :: u8) = mask 4" by (simp add: mask_eq_exp_minus_1)
  fix n
  assume "n < LENGTH(8)"
  then show "bit (parsed_version P) n \<longleftrightarrow> bit v n"
    unfolding parsed_version_def assms m by (simp, auto simp: bit_simps)
qed

text \<open>A name that only begins like \<^verbatim>\<open>transfer-encoding\<close> is no such header, but leaves its mark on the parser.\<close>

lemma transfer_encoding_sticks:
  "\<exists>P'. hf_chars ''ransfer-encoding-x'' (P\<lparr>p_header_state := h_matching_transfer_encoding, p_index := 0\<rparr>) = Some P' \<and>
    p_header_state P' = h_general \<and> uses_transfer_encoding P'"
proof -
  have tok: "map TOKEN ''ransfer-encoding-x'' = ''ransfer-encoding-x''" by code_simp
  show ?thesis using tok by (simp add: hf_char_def match_step_def cchar_def Let_def)
qed

end
