(* ===== verification/HttpRunHeaders.thy ===== *)
theory HttpRunHeaders
  imports HttpRun HttpNames
begin

text \<open>
  Symbolic runs over the header lines of a message: the name of a header, its value, the end of the line, and
  the lines of a head.  They hold for requests and responses alike: the locale \<open>header_client\<close> states what the
  callbacks for names and values do, and is interpreted for both parsers.
\<close>

section \<open>Rounds\<close>

lemma count_fits:
  fixes x y :: "'u xst"
  assumes "at data s m P u (w @ rest) (x\<lparr>nread := of_nat (pos x)\<rparr>)" "nread x = of_nat (Suc (pos x))"
    "length data \<le> unat (mx::u32) + length rest" "length w = Suc n" "nread y = nread x"
  shows "COUNT_HEADER_SIZE mx n y k = k (y\<lparr>nread := of_nat (pos x + length w)\<rparr>)"
proof -
  have "pos x + length w \<le> unat mx" using at_pos [OF assms(1)] assms(3) by simp
  then have "(of_nat (pos x + length w) :: u32) \<le> mx" by (rule of_nat_le_word)
  moreover have "nread y + of_nat n = of_nat (pos x + length w)" using assms(2,4,5) by simp
  ultimately show ?thesis by (simp add: COUNT_HEADER_SIZE_def Let_def not_less [symmetric])
qed

text \<open>Spaces before a value are skipped.\<close>

lemma parses_blank:
  assumes "parses S mx data Q s_header_value_discard_ws m P u rest" "length data \<le> unat mx + length rest"
  shows "parses S mx data Q s_header_value_discard_ws m P u (SP # rest)"
  by (rule parses_step [OF _ assms(2) _ assms(1)])
    (simp_all add: PARSING_HEADER_iff exec_switch_def exec_header_value_discard_ws_def)

text \<open>At the first character of the next line the switch is entered again with \<^verbatim>\<open>s_header_field_start\<close>.\<close>

lemma parses_reenter:
  assumes "PARSING_HEADER s" "c \<noteq> LF" "length data \<le> unat mx + length rest"
    and "\<And>x. cst x = s \<Longrightarrow> marks x = m \<Longrightarrow> prs x = P \<Longrightarrow> usr x = u \<Longrightarrow> cur_ch x = c \<Longrightarrow> pos x < length data \<Longrightarrow>
      exec_switch S mx data x = Reexecute (x\<lparr>cst := s_header_field_start, prs := P', usr := u'\<rparr>)"
    and "parses S mx data Q s_header_field_start m P' u' (c # rest)"
  shows "parses S mx data Q s m P u (c # rest)"
  unfolding parses_def
proof (intro allI impI)
  fix x :: "'a xst"
  assume x: "at data s m P u (c # rest) x"
  let ?y = "x\<lparr>cst := s_header_field_start, prs := P', usr := u'\<rparr>"
  have p: "pos x < length data" "data ! pos x = c" using at_nth [OF x] by auto
  have once: "exec_reexecute (Suc n) S mx data z = exec_switch S mx data z"
    if "cst z = s_header_field_start" "cur_ch z = c" for n z
    using that assms(2) by (auto simp: exec_switch_def exec_header_field_start_def Let_def fail_def goto_error_def RETURN_def)
  have fuel: "reexecute_fuel = Suc (Suc (Suc (Suc 0)))" by (simp add: reexecute_fuel_def)
  let ?x1 = "x\<lparr>cur_ch := c, nread := nread x + 1\<rparr>" and ?y1 = "?y\<lparr>cur_ch := c, nread := nread x + 1\<rparr>"
  have "exec_switch S mx data ?x1 = Reexecute (?x1\<lparr>cst := s_header_field_start, prs := P', usr := u'\<rparr>)"
    using x p(1) by (intro assms(4)) (simp_all add: at_def)
  moreover have "?x1\<lparr>cst := s_header_field_start, prs := P', usr := u'\<rparr> = ?y1" by simp
  ultimately have "exec_reexecute reexecute_fuel S mx data ?x1 = exec_reexecute (Suc (Suc (Suc 0))) S mx data ?y1"
    by (simp only: fuel exec_reexecute.simps step.case)
  also have "\<dots> = exec_reexecute reexecute_fuel S mx data ?y1"
    unfolding fuel by (simp add: once del: exec_reexecute.simps)
  finally have "exec_reexecute reexecute_fuel S mx data ?x1 = exec_reexecute reexecute_fuel S mx data ?y1" .
  moreover have "PARSING_HEADER s_header_field_start" by (simp add: PARSING_HEADER_iff)
  moreover have "\<not> mx < nread x + 1"
  proof -
    have "Suc (pos x) \<le> unat mx" using at_pos [OF x] assms(3) by simp
    then have "of_nat (Suc (pos x)) \<le> mx" by (rule of_nat_le_word)
    then show ?thesis using x by (simp add: at_def add.commute)
  qed
  ultimately have "exec_loop n S mx data x = exec_loop n S mx data ?y" for n
    using x p assms(1)
    by (subst (1 2) exec_loop.simps) (simp add: at_def COUNT_HEADER_SIZE_def Let_def split: nat.split)
  moreover have "yields S mx data Q ?y"
    using assms(5) x unfolding parses_def at_def by simp
  ultimately show "yields S mx data Q x" by (simp add: yields_def)
qed

lemma parses_after_value:
  assumes "c \<notin> {SP, HT, LF}" "length data \<le> unat mx + length rest"
    and "parses S mx data Q s_header_field_start m
      (P\<lparr>p_flags := p_flags P OR header_flags (p_header_state P)\<rparr>) u (c # rest)"
  shows "parses S mx data Q s_header_value_lws m P u (c # rest)"
  by (rule parses_reenter [OF _ _ assms(2) _ assms(3)])
    (use assms(1) in \<open>auto simp: PARSING_HEADER_iff exec_switch_def exec_header_value_lws_def\<close>)

section \<open>The end of the data\<close>

lemma leftover_none:
  assumes "marks x = Map.empty" "http_errno (prs x) = HPE_OK"
  shows "exec_leftover S data x = RETURN (length data) x"
  using assms by (simp add: exec_leftover_def CALLBACK_DATA_gen_def)

lemma yields_end:
  assumes "pos x = length data" "marks x = Map.empty" "http_errno (prs x) = HPE_OK" "\<not> upgrade (prs x)"
    and "\<And>P. http_errno P = HPE_OK \<Longrightarrow> \<not> upgrade P \<Longrightarrow> Q (length data) P (usr x)"
  shows "yields S mx data Q x"
  using assms unfolding yields_def by (subst exec_loop.simps) (simp add: leftover_none RETURN_def)

section \<open>Header lines\<close>

text \<open>The line of an entry as it is printed, with the separator \<open>sep\<close> after the colon.\<close>

abbreviation header_line :: "string \<Rightarrow> string \<times> string \<Rightarrow> string" where
  "header_line sep e \<equiv> (case e of (k, v) \<Rightarrow> if is_connection k then [] else k @ '':'' @ sep @ v @ CRLF)"

definition plain_entry :: "string \<times> string \<Rightarrow> bool" where
  "plain_entry e \<longleftrightarrow> (case e of (k, v) \<Rightarrow> is_connection k \<or> plain_name k \<and> plain_value v)"

abbreviation own_entries :: "(string \<times> string) list \<Rightarrow> (string \<times> string) list" where
  "own_entries es \<equiv> filter (\<lambda>(k, v). \<not> is_connection k) es"

lemma header_lines_start:
  assumes "list_all plain_entry es" "rest \<noteq> []" "hd rest \<notin> {SP, HT, LF}"
  shows "concat (map (header_line sep) es) @ rest \<noteq> [] \<and> hd (concat (map (header_line sep) es) @ rest) \<notin> {SP, HT, LF} \<and>
    length (tl rest) \<le> length (tl (concat (map (header_line sep) es) @ rest))"
  using assms(1)
proof (induction es)
  case (Cons e es)
  obtain k v where e: "e = (k, v)" by force
  show ?case
  proof (cases "is_connection k")
    case False
    then obtain c w where k: "k = c # w" "TOKEN c \<noteq> NUL"
      using Cons.prems e by (cases k) (auto simp: plain_entry_def plain_name_def)
    then show ?thesis using token_plain [of c] False e by simp
  qed (use Cons e in simp)
qed (use assms(2,3) in simp)

text \<open>A client whose callbacks store the name and the value of a header and leave the parser alone.\<close>

locale header_client =
  fixes S :: "'u http_parser_settings" and set_field set_value :: "string \<Rightarrow> 'u \<Rightarrow> 'u"
  assumes field_cb: "on_header_field S = Some (\<lambda>b P u. (0, P, set_field b u))"
    and value_cb: "on_header_value S = Some (\<lambda>b P u. (0, P, set_value b u))"
begin

lemma parses_field:
  assumes "\<forall>c \<in> set (c # w). TOKEN c \<noteq> NUL" "length data \<le> unat mx + length rest" "http_errno P' = HPE_OK"
    and "drop (length data - length (c # w @ CHR '':'' # rest)) data = c # w @ CHR '':'' # rest"
    and "hf_chars w (P\<lparr>p_index := 0, p_header_state := first_header_state (TOKEN c)\<rparr>) = Some P'"
    and "parses S mx data Q s_header_value_discard_ws Map.empty
      (P'\<lparr>p_state := s_header_value_discard_ws\<rparr>) (set_field (c # w) u) rest"
  shows "parses S mx data Q s_header_field_start Map.empty P u (c # w @ CHR '':'' # rest)"
proof -
  define a where "a = length data - length (c # w @ CHR '':'' # rest)"
  let ?P = "P\<lparr>p_index := 0, p_header_state := first_header_state (TOKEN c)\<rparr>"
  have colon: "TOKEN CHR '':'' = NUL" by code_simp
  have dr: "drop a data = c # w @ CHR '':'' # rest" using assms(4) by (simp add: a_def)
  then have len: "length data = a + Suc (length w + Suc (length rest))"
    by (metis a_def diff_add_inverse2 drop_eq_Nil2 length_Cons length_append length_drop less_imp_le list.distinct(1) not_le le_add_diff_inverse)
  have "parses S mx data Q s_header_field [M_header_field \<mapsto> a] ?P u ((w @ '':'') @ rest)"
  proof (rule parses_round [OF _ assms(2) _ _ assms(6)])
    fix x :: "'u xst"
    assume x: "at data s_header_field [M_header_field \<mapsto> a] ?P u ((w @ '':'') @ rest) (x\<lparr>nread := of_nat (pos x)\<rparr>)"
      "nread x = of_nat (Suc (pos x))"
    let ?y = "x\<lparr>prs := P', pos := pos x + length w, cur_ch := CHR '':''\<rparr>"
    have "hf_loop mx data x = Some ?y"
      using assms(1,5) x(1) colon by (intro hf_loop_chars [where rest = rest]) (auto simp: at_def)
    moreover have px: "pos x = Suc a" using at_pos [OF x(1)] len by simp
    moreover have "slice_of a (Suc (length w)) data = c # w" using dr by (simp add: slice_of_def)
    ultimately have "exec_switch S mx data x =
        Next (?y\<lparr>nread := of_nat (pos x + length (w @ '':'')), cst := s_header_value_discard_ws,
          prs := P'\<lparr>p_state := s_header_value_discard_ws\<rparr>, usr := set_field (c # w) u, marks := Map.empty\<rparr>)"
      using x(1) assms(3) len count_fits [OF x assms(2), of "length w"]
      by (simp add: at_def exec_switch_def exec_header_field_def CALLBACK_DATA_gen_def field_cb Let_def)
    from exec_reexecute_Next [OF this] x(1)
    show "\<exists>y. exec_reexecute reexecute_fuel S mx data x = Next y \<and> pos y = pos x + length (w @ '':'') - 1 \<and>
        cst y = s_header_value_discard_ws \<and> marks y = Map.empty \<and> prs y = P'\<lparr>p_state := s_header_value_discard_ws\<rparr> \<and>
        usr y = set_field (c # w) u \<and> \<not> lenient y \<and> nread y = of_nat (pos x + length (w @ '':''))"
      by (auto simp: at_def)
  qed (simp_all add: PARSING_HEADER_iff)
  then have "parses S mx data Q s_header_field [M_header_field \<mapsto> a] ?P u (w @ CHR '':'' # rest)" by simp
  then show ?thesis
    by (rule parses_step [rotated 3])
      (use assms(1,2) token_plain [of c] len in
        \<open>auto simp: PARSING_HEADER_iff exec_switch_def exec_header_field_start_def MARK_def first_header_state_def Let_def\<close>)
qed

text \<open>A value of at least one character and the end of its line.  The premise on
  \<^verbatim>\<open>s_header_value_start\<close> says what the first character does.\<close>

lemma parses_value:
  assumes "list_all value_char (c # w)" "c \<noteq> SP" "c \<noteq> HT" "length data \<le> unat mx + length rest"
    and "drop (length data - length (c # w @ CRLF @ rest)) data = c # w @ CRLF @ rest"
    and "\<And>x :: 'u xst. cst x = s_header_value_discard_ws \<Longrightarrow> prs x = P \<Longrightarrow> marks x = Map.empty \<Longrightarrow> cur_ch x = c \<Longrightarrow>
      exec_header_value_start x = Next (x\<lparr>cst := s_header_value, marks := [M_header_value \<mapsto> pos x], prs := P1\<rparr>)"
    and "hv_chars w (p_header_state P1) P1 = Some (h, P2)" "http_errno P2 = HPE_OK"
    and "parses S mx data Q s_header_value_lws Map.empty
      (P2\<lparr>p_header_state := h, p_state := s_header_almost_done\<rparr>)
      (set_value (c # w) u) rest"
  shows "parses S mx data Q s_header_value_discard_ws Map.empty P u (c # w @ CRLF @ rest)"
proof -
  let ?u = "set_value (c # w) u"
  let ?P = "P2\<lparr>p_header_state := h, p_state := s_header_almost_done\<rparr>"
  define a where "a = length data - length (c # w @ CRLF @ rest)"
  have dr: "drop a data = c # w @ CR # LF # rest" using assms(5) by (simp add: a_def)
  then have "a < length data" by (metis drop_eq_Nil2 list.distinct(1) not_le)
  then have len: "length data = a + Suc (length w + Suc (Suc (length rest)))" using arg_cong [OF dr, of length] by simp
  have "parses S mx data Q s_header_almost_done Map.empty ?P ?u (LF # rest)"
    using assms(4) by (intro parses_step [OF _ _ _ assms(9)])
      (auto simp: PARSING_HEADER_iff exec_switch_def exec_header_almost_done_def)
  then have "parses S mx data Q s_header_value [M_header_value \<mapsto> a] P1 u ((w @ [CR]) @ LF # rest)"
  proof (rule parses_round [rotated 4])
    fix x :: "'u xst"
    assume x: "at data s_header_value [M_header_value \<mapsto> a] P1 u ((w @ [CR]) @ LF # rest) (x\<lparr>nread := of_nat (pos x)\<rparr>)"
      "nread x = of_nat (Suc (pos x))"
    have px: "pos x = Suc a" using at_pos [OF x(1)] len by simp
    let ?y = "x\<lparr>pos := pos x + length w, cst := s_header_almost_done, prs := P2\<lparr>p_header_state := h\<rparr>, cur_ch := CR\<rparr>"
    have "slice_of a (Suc (length w)) data = c # w" using dr by (simp add: slice_of_def)
    moreover have "hv_loop S mx data (pos x) (p_header_state P1) x =
        CALLBACK_DATA S data M_header_value ?y (hv_finish mx data (pos x) h)"
      using assms(1,4,7) x(1) len by (intro hv_loop_chars [where rest = "LF # rest"]) (auto simp: at_def)
    ultimately have "exec_switch S mx data x =
        Next (?y\<lparr>nread := of_nat (pos x + length (w @ [CR])), prs := ?P, usr := ?u, marks := Map.empty\<rparr>)"
      using x(1) assms(4,8) len px count_fits [OF x, of mx "length w"]
      by (simp add: at_def exec_switch_def exec_header_value_def CALLBACK_DATA_gen_def value_cb
          Let_def hv_finish_def)
    from exec_reexecute_Next [OF this] x(1)
    show "\<exists>y. exec_reexecute reexecute_fuel S mx data x = Next y \<and> pos y = pos x + length (w @ [CR]) - 1 \<and>
        cst y = s_header_almost_done \<and> marks y = Map.empty \<and> prs y = ?P \<and> usr y = ?u \<and> \<not> lenient y \<and>
        nread y = of_nat (pos x + length (w @ [CR]))"
      by (auto simp: at_def)
  qed (use assms(4) in \<open>simp_all add: PARSING_HEADER_iff\<close>)
  then have "parses S mx data Q s_header_value [M_header_value \<mapsto> a] P1 u (w @ CRLF @ rest)" by simp
  then show ?thesis
    by (rule parses_step [rotated 3])
      (use assms(1-4,6) len in \<open>auto simp: PARSING_HEADER_iff exec_switch_def exec_header_value_discard_ws_def value_char_def\<close>)
qed

lemma parses_empty_value:
  assumes "c \<notin> {SP, HT, LF}" "length data \<le> unat mx + length rest" "http_errno P = HPE_OK"
    "p_header_state P \<noteq> h_content_length"
    and "parses S mx data Q s_header_field_start Map.empty
      (P\<lparr>p_flags := p_flags P OR header_flags (p_header_state P), p_state := s_header_field_start\<rparr>)
      (set_value [] u) (c # rest)"
  shows "parses S mx data Q s_header_value_discard_ws Map.empty P u (CRLF @ c # rest)"
proof -
  have "parses S mx data Q s_header_value_discard_lws Map.empty P u (c # rest)"
    by (rule parses_reenter [OF _ _ assms(2) _ assms(5)])
      (use assms(1,3,4) in \<open>auto simp: PARSING_HEADER_iff exec_switch_def exec_header_value_discard_lws_def
        CALLBACK_DATA_gen_def MARK_def value_cb slice_of_def Let_def\<close>)
  then have "parses S mx data Q s_header_value_discard_ws_almost_done Map.empty P u (LF # c # rest)"
    by (rule parses_step [rotated 3])
      (use assms(2) in \<open>auto simp: PARSING_HEADER_iff exec_switch_def exec_expect_def STRICT_CHECK_def\<close>)
  then have "parses S mx data Q s_header_value_discard_ws Map.empty P u (CR # LF # c # rest)"
    by (rule parses_step [rotated 3])
      (use assms(2) in \<open>auto simp: PARSING_HEADER_iff exec_switch_def exec_header_value_discard_ws_def\<close>)
  then show ?thesis by simp
qed

lemma parses_plain_line:
  assumes "plain_name k" "plain_value v" "http_errno P = HPE_OK" "\<not> uses_transfer_encoding P"
    and "length data \<le> unat mx + length (tl rest)" "rest \<noteq> []" "hd rest \<notin> {SP, HT, LF}" "sep \<in> {[], [SP]}"
    and "drop (length data - length (k @ '':'' @ sep @ v @ CRLF @ rest)) data = k @ '':'' @ sep @ v @ CRLF @ rest"
    and "\<And>P'. same_head P P' \<Longrightarrow> \<not> uses_transfer_encoding P' \<Longrightarrow>
      parses S mx data Q s_header_field_start Map.empty P' (set_value v (set_field k u)) rest"
  shows "parses S mx data Q s_header_field_start Map.empty P u (k @ '':'' @ sep @ v @ CRLF @ rest)"
proof -
  obtain c w where k: "k = c # w" using assms(1) by (cases k) (auto simp: plain_name_def)
  obtain d ds where rest: "rest = d # ds" using assms(6) by (cases rest) auto
  obtain P1 where P1: "hf_chars w (P\<lparr>p_index := 0, p_header_state := first_header_state (TOKEN c)\<rparr>) = Some P1"
      "same_head P P1" "\<not> uses_transfer_encoding P1" "name_state (map TOKEN k) (p_header_state P1) (p_index P1)"
      "p_header_state P1 \<notin> {h_connection, h_content_length, h_transfer_encoding, h_upgrade}"
    using plain_name_chars [of c w P] assms(1,4) k by auto
  let ?P1 = "P1\<lparr>p_state := s_header_value_discard_ws\<rparr>"
  have ok: "http_errno P1 = HPE_OK" using P1(2) assms(3) by (simp add: same_head_def)
  have tok: "\<forall>c \<in> set (c # w). TOKEN c \<noteq> NUL" using assms(1) k by (simp add: plain_name_def list_all_iff)
  have "parses S mx data Q s_header_value_discard_ws Map.empty ?P1 (set_field k u) (v @ CRLF @ rest)"
  proof (cases v)
    case Nil
    let ?P2 = "?P1\<lparr>p_flags := p_flags ?P1 OR header_flags (p_header_state ?P1), p_state := s_header_field_start\<rparr>"
    have "parses S mx data Q s_header_field_start Map.empty ?P2 (set_value v (set_field k u)) rest"
      using P1(2,3) name_state_flags [OF P1(4)] by (intro assms(10)) (simp_all add: same_head_def)
    then have "parses S mx data Q s_header_value_discard_ws Map.empty ?P1 (set_field k u) (CRLF @ d # ds)"
      using assms(5,7) rest ok P1(5) Nil by (intro parses_empty_value) simp_all
    then show ?thesis using Nil rest by simp
  next
    case (Cons b bs)
    let ?P2 = "?P1\<lparr>p_index := 0, p_header_state := h_general\<rparr>"
    have b: "list_all value_char (b # bs)" "b \<noteq> SP" "b \<noteq> HT" using assms(2) Cons by (simp_all add: plain_value_def)
    let ?P3 = "?P2\<lparr>p_header_state := h_general, p_state := s_header_almost_done\<rparr>"
    have "parses S mx data Q s_header_field_start Map.empty
        (?P3\<lparr>p_flags := p_flags ?P3 OR header_flags (p_header_state ?P3)\<rparr>) (set_value v (set_field k u)) rest"
      using P1(2,3) by (intro assms(10)) (simp_all add: same_head_def header_flags_def)
    then have "parses S mx data Q s_header_value_lws Map.empty ?P3
        (set_value (b # bs) (set_field k u)) (d # ds)"
      using assms(5,7) rest Cons by (intro parses_after_value) simp_all
    moreover have "exec_header_value_start x = Next (x\<lparr>cst := s_header_value, marks := [M_header_value \<mapsto> pos x], prs := ?P2\<rparr>)"
      if "cst x = s_header_value_discard_ws" "prs x = ?P1" "marks x = Map.empty" for x :: "'u xst"
      using name_state_start [of "map TOKEN k" ?P1 "p_index P1" x] P1(4,5) that by simp
    moreover have "drop (length data - length (b # bs @ CRLF @ d # ds)) data = b # bs @ CRLF @ d # ds"
      using drop_tail [of data "k @ '':'' @ sep" "v @ CRLF @ rest"] assms(9) Cons rest by simp
    ultimately have "parses S mx data Q s_header_value_discard_ws Map.empty ?P1 (set_field k u) (b # bs @ CRLF @ d # ds)"
      using b assms(5) rest ok by (intro parses_value [where h = h_general and ?P2.0 = ?P2 and ?P1.0 = ?P2]) (auto simp: hv_chars_general)
    then show ?thesis using Cons rest by simp
  qed
  then have "parses S mx data Q s_header_value_discard_ws Map.empty ?P1 (set_field k u) (sep @ v @ CRLF @ rest)"
    using assms(5,8) rest by (auto intro!: parses_blank)
  then have "parses S mx data Q s_header_field_start Map.empty P u (c # w @ CHR '':'' # sep @ v @ CRLF @ rest)"
    using tok assms(5,9) k ok P1(1) by (intro parses_field) simp_all
  then show ?thesis using k by simp
qed

text \<open>A line \<open>k: v\<close> with a name and a value the parser looks into.\<close>

lemma parses_special_line:
  assumes "\<forall>a \<in> set (c # w). TOKEN a \<noteq> NUL"
    and "hf_chars w (P\<lparr>p_index := 0, p_header_state := first_header_state (TOKEN c)\<rparr>) = Some P1" "http_errno P1 = HPE_OK"
    and "\<And>x :: 'u xst. cst x = s_header_value_discard_ws \<Longrightarrow>
      prs x = P1\<lparr>p_state := s_header_value_discard_ws\<rparr> \<Longrightarrow> marks x = Map.empty \<Longrightarrow> cur_ch x = b \<Longrightarrow>
      exec_header_value_start x = Next (x\<lparr>cst := s_header_value, marks := [M_header_value \<mapsto> pos x], prs := P2\<rparr>)"
    and "hv_chars bs (p_header_state P2) P2 = Some (h, P3)" "http_errno P3 = HPE_OK"
    and "list_all value_char (b # bs)" "b \<noteq> SP" "b \<noteq> HT"
    and "length data \<le> unat mx + length (tl rest)" "rest \<noteq> []" "hd rest \<notin> {SP, HT, LF}"
    and "drop (length data - length ((c # w) @ '': '' @ (b # bs) @ CRLF @ rest)) data = (c # w) @ '': '' @ (b # bs) @ CRLF @ rest"
    and "parses S mx data Q s_header_field_start Map.empty
      (P3\<lparr>p_header_state := h, p_state := s_header_almost_done, p_flags := p_flags P3 OR header_flags h\<rparr>)
      (set_value (b # bs) (set_field (c # w) u)) rest"
  shows "parses S mx data Q s_header_field_start Map.empty P u ((c # w) @ '': '' @ (b # bs) @ CRLF @ rest)"
proof -
  let ?k = "c # w" and ?v = "b # bs"
  obtain d ds where rest: "rest = d # ds" using assms(11) by (cases rest) auto
  let ?P1 = "P1\<lparr>p_state := s_header_value_discard_ws\<rparr>" and ?u = "set_field (c # w) u"
  have dr: "drop (length data - length (?v @ CRLF @ rest)) data = ?v @ CRLF @ rest"
    using drop_tail [of data "?k @ '': ''" "?v @ CRLF @ rest"] assms(13) by simp
  have "parses S mx data Q s_header_value_lws Map.empty (P3\<lparr>p_header_state := h, p_state := s_header_almost_done\<rparr>)
      (set_value (b # bs) ?u) (d # ds)"
    using assms(10,12,14) rest by (intro parses_after_value) simp_all
  then have "parses S mx data Q s_header_value_discard_ws Map.empty ?P1 ?u (b # bs @ CRLF @ d # ds)"
    using assms(4-10) rest dr by (intro parses_value [where ?P2.0 = P3 and ?P1.0 = P2 and h = h]) simp_all
  then have "parses S mx data Q s_header_value_discard_ws Map.empty ?P1 ?u (SP # b # bs @ CRLF @ d # ds)"
    using assms(10) rest by (intro parses_blank) simp_all
  then have "parses S mx data Q s_header_field_start Map.empty P u (c # w @ CHR '':'' # SP # b # bs @ CRLF @ d # ds)"
    using assms(1,10,13) rest by (intro parses_field [OF _ _ assms(3) _ assms(2)]) simp_all
  then show ?thesis using rest by simp
qed

lemma parses_connection_line:
  assumes "http_errno P = HPE_OK" "\<not> uses_transfer_encoding P"
    and "length data \<le> unat mx + length (tl rest)" "rest \<noteq> []" "hd rest \<notin> {SP, HT, LF}"
    and "drop (length data - length (''connection: '' @ connection_value close @ CRLF @ rest)) data =
      ''connection: '' @ connection_value close @ CRLF @ rest"
    and "\<And>P'. same_head (P\<lparr>p_flags := p_flags P OR connection_flag close\<rparr>) P' \<Longrightarrow> \<not> uses_transfer_encoding P' \<Longrightarrow>
      parses S mx data Q s_header_field_start Map.empty P'
        (set_value (connection_value close) (set_field ''connection'' u)) rest"
  shows "parses S mx data Q s_header_field_start Map.empty P u
    (''connection: '' @ connection_value close @ CRLF @ rest)"
proof -
  let ?b = "if close then CHR ''c'' else CHR ''k''" and ?bs = "tl (connection_value close)"
  let ?m = "if close then h_matching_connection_close else h_matching_connection_keep_alive"
  let ?h = "if close then h_connection_close else h_connection_keep_alive"
  let ?P1 = "P\<lparr>p_index := 9, p_header_state := h_connection\<rparr>"
  let ?P2 = "?P1\<lparr>p_state := s_header_value_discard_ws, p_header_state := ?m, p_index := 0\<rparr>"
  let ?P3 = "?P2\<lparr>p_index := (if close then 4 else 9)\<rparr>"
  have tok: "\<forall>a \<in> set ''connection''. TOKEN a \<noteq> NUL" by (simp add: token_letters)
  have first: "first_header_state (TOKEN CHR ''c'') = h_C" by (simp add: token_letters first_header_state_def)
  have v: "connection_value close = ?b # ?bs" by (rule connection_value_plain(2))
  have "parses S mx data Q s_header_field_start Map.empty P u (''connection'' @ '': '' @ (?b # ?bs) @ CRLF @ rest)"
  proof (rule parses_special_line [OF tok, unfolded first, OF hf_chars_connection, where ?P2.0 = ?P2 and h = ?h and ?P3.0 = ?P3])
    show "hv_chars ?bs (p_header_state ?P2) ?P2 = Some (?h, ?P3)"
      using connection_value_chars [of close ?P2] by simp
    show "list_all value_char (?b # ?bs)" using connection_value_plain(1) [of close] v by simp
    have "header_flags ?h = connection_flag close" by (simp add: header_flags_def connection_flag_def)
    then have "same_head (P\<lparr>p_flags := p_flags P OR connection_flag close\<rparr>)
        (?P3\<lparr>p_header_state := ?h, p_state := s_header_almost_done, p_flags := p_flags ?P3 OR header_flags ?h\<rparr>)"
      by (simp add: same_head_def)
    from assms(7) [OF this] assms(2) v show "parses S mx data Q s_header_field_start Map.empty
        (?P3\<lparr>p_header_state := ?h, p_state := s_header_almost_done, p_flags := p_flags ?P3 OR header_flags ?h\<rparr>)
        (set_value (?b # ?bs) (set_field ''connection'' u)) rest" by simp
    show "exec_header_value_start x = Next (x\<lparr>cst := s_header_value, marks := [M_header_value \<mapsto> pos x], prs := ?P2\<rparr>)"
      if "cst x = s_header_value_discard_ws" "prs x = ?P1\<lparr>p_state := s_header_value_discard_ws\<rparr>"
        "marks x = Map.empty" "cur_ch x = ?b" for x :: "'u xst"
      using connection_start [of "?P1\<lparr>p_state := s_header_value_discard_ws\<rparr>" x close] that by simp
  qed (use assms(1,3-6) v in simp_all)
  then show ?thesis using v by simp
qed

lemma parses_content_length_line:
  assumes "http_errno P = HPE_OK" "\<not> uses_transfer_encoding P" "\<not> has_flag (p_flags P) F_CONTENTLENGTH"
    and "n < 18446744073709551610"
    and "length data \<le> unat mx + length (tl rest)" "rest \<noteq> []" "hd rest \<notin> {SP, HT, LF}"
    and "drop (length data - length (''content-length: '' @ dec n @ CRLF @ rest)) data = ''content-length: '' @ dec n @ CRLF @ rest"
    and "\<And>P' v. same_head (P\<lparr>p_flags := p_flags P OR F_CONTENTLENGTH, content_length := v\<rparr>) P' \<Longrightarrow> unat v = n \<Longrightarrow>
      \<not> uses_transfer_encoding P' \<Longrightarrow>
      parses S mx data Q s_header_field_start Map.empty P' (set_value (dec n) (set_field ''content-length'' u)) rest"
  shows "parses S mx data Q s_header_field_start Map.empty P u
    (''content-length: '' @ dec n @ CRLF @ rest)"
proof -
  obtain d ds where v: "dec n = d # ds" using dec_nonempty [of n] by (cases "dec n") auto
  have num: "IS_NUM d" "\<forall>c \<in> set ds. IS_NUM c" using dec_digits [of n] v by auto
  let ?P1 = "P\<lparr>p_index := 13, p_header_state := h_content_length\<rparr>"
  let ?P2 = "?P1\<lparr>p_state := s_header_value_discard_ws, p_index := 0, p_flags := p_flags P OR F_CONTENTLENGTH,
    content_length := of_nat (digit_val d), p_header_state := h_content_length_num\<rparr>"
  have "unat (content_length ?P2) = digit_val d"
    using digit_val_le_9 [OF num(1)] by (simp add: unat_of_nat)
  then have val: "digits_value 10 (unat (content_length ?P2)) (map digit_val ds) = n"
    using dec_value [of n] v by simp
  have "unat (content_length ?P2) < 18446744073709551610"
    using \<open>unat (content_length ?P2) = digit_val d\<close> digit_val_le_9 [OF num(1)] by simp
  from content_length_value [OF num(2) val [symmetric] this] assms(4)
  obtain w where w: "content_length_chars ds ?P2 = Hv_ok h_content_length_num (?P2\<lparr>content_length := w\<rparr>)" "unat w = n" by auto
  let ?P3 = "?P2\<lparr>content_length := w\<rparr>"
  have tok: "\<forall>a \<in> set ''content-length''. TOKEN a \<noteq> NUL" by (simp add: token_letters)
  have first: "first_header_state (TOKEN CHR ''c'') = h_C" by (simp add: token_letters first_header_state_def)
  have "parses S mx data Q s_header_field_start Map.empty P u (''content-length'' @ '': '' @ (d # ds) @ CRLF @ rest)"
  proof (rule parses_special_line [OF tok, unfolded first, OF hf_chars_content_length, where ?P2.0 = ?P2
        and h = h_content_length_num and ?P3.0 = ?P3])
    show "hv_chars ds (p_header_state ?P2) ?P2 = Some (h_content_length_num, ?P3)"
      using hv_chars_digits [OF num(2) w(1)] by simp
    show "list_all value_char (d # ds)" using num num_value_char by (auto simp: list_all_iff)
    have "same_head (P\<lparr>p_flags := p_flags P OR F_CONTENTLENGTH, content_length := w\<rparr>)
        (?P3\<lparr>p_header_state := h_content_length_num, p_state := s_header_almost_done,
          p_flags := p_flags ?P3 OR header_flags h_content_length_num\<rparr>)"
      by (simp add: same_head_def header_flags_def)
    from assms(9) [OF this w(2)] assms(2) v show "parses S mx data Q s_header_field_start Map.empty
        (?P3\<lparr>p_header_state := h_content_length_num, p_state := s_header_almost_done,
          p_flags := p_flags ?P3 OR header_flags h_content_length_num\<rparr>)
        (set_value (d # ds) (set_field ''content-length'' u)) rest" by simp
    show "exec_header_value_start x = Next (x\<lparr>cst := s_header_value, marks := [M_header_value \<mapsto> pos x], prs := ?P2\<rparr>)"
      if "cst x = s_header_value_discard_ws" "prs x = ?P1\<lparr>p_state := s_header_value_discard_ws\<rparr>"
        "marks x = Map.empty" "cur_ch x = d" for x :: "'u xst"
      using that assms(3) num(1) by (simp add: exec_header_value_start_def MARK_def Let_def)
  qed (use assms(1,5-8) v num num_value_char [OF num(1)] in simp_all)
  then show ?thesis using v by simp
qed

lemma parses_header_lines:
  assumes "list_all plain_entry es" "http_errno P = HPE_OK" "\<not> uses_transfer_encoding P"
    and "length data \<le> unat mx + length (tl rest)" "rest \<noteq> []" "hd rest \<notin> {SP, HT, LF}" "sep \<in> {[], [SP]}"
    and "drop (length data - length (concat (map (header_line sep) es) @ rest)) data = concat (map (header_line sep) es) @ rest"
    and "\<And>P'. same_head P P' \<Longrightarrow> \<not> uses_transfer_encoding P' \<Longrightarrow>
      parses S mx data Q s_header_field_start Map.empty P' (fold (\<lambda>(k, v) u. set_value v (set_field k u)) (own_entries es) u) rest"
  shows "parses S mx data Q s_header_field_start Map.empty P u (concat (map (header_line sep) es) @ rest)"
  using assms(1-3,8,9)
proof (induction es arbitrary: P u)
  case Nil
  from Nil.prems(5) [of P] Nil.prems(3) show ?case by (simp add: same_head_def)
next
  case (Cons e es)
  obtain k v where e: "e = (k, v)" by force
  let ?rest = "concat (map (header_line sep) es) @ rest"
  have es: "list_all plain_entry es" using Cons.prems(1) by simp
  have dr: "drop (length data - length ?rest) data = ?rest"
    using drop_tail [of data "header_line sep e" ?rest] Cons.prems(4) by simp
  show ?case
  proof (cases "is_connection k")
    case True
    then show ?thesis
      using Cons.IH [OF es Cons.prems(2,3) dr] Cons.prems(5) e by simp
  next
    case False
    have kv: "plain_name k" "plain_value v" using Cons.prems(1) e False by (simp_all add: plain_entry_def)
    have IH: "parses S mx data Q s_header_field_start Map.empty P' (set_value v (set_field k u)) ?rest"
      if "same_head P P'" "\<not> uses_transfer_encoding P'" for P'
    proof (rule Cons.IH [OF es _ that(2) dr])
      show "http_errno P' = HPE_OK" using that(1) Cons.prems(2) by (simp add: same_head_def)
      show "parses S mx data Q s_header_field_start Map.empty P''
          (fold (\<lambda>(k, v) u. set_value v (set_field k u)) (own_entries es) (set_value v (set_field k u))) rest"
        if "same_head P' P''" "\<not> uses_transfer_encoding P''" for P''
        using Cons.prems(5) [OF same_head_trans [OF \<open>same_head P P'\<close> that(1)] that(2)] e False
        by simp
    qed
    have "parses S mx data Q s_header_field_start Map.empty P u (k @ '':'' @ sep @ v @ CRLF @ ?rest)"
      by (rule parses_plain_line [OF kv Cons.prems(2,3) _ _ _ assms(7) _ IH])
        (use header_lines_start [OF es assms(5,6)] assms(4) Cons.prems(4) e False in auto)
    then show ?thesis using e False by simp
  qed
qed

end

end
