(* ===== verification/HttpRoundtrip.thy ===== *)
theory HttpRoundtrip
  imports HttpRunHeaders
begin

text \<open>
  A request that is printed (\<^verbatim>\<open>HttpRequest::dump\<close>) and parsed again (\<^verbatim>\<open>HttpRequestParser\<close>): the parser accepts
  the text whole and stores the request that was printed.
\<close>

section \<open>The callbacks of the request parser\<close>

definition rq_set_field :: "string \<Rightarrow> 'm HttpRequestParser_data \<Rightarrow> 'm HttpRequestParser_data" where
  "rq_set_field k u = u\<lparr>rq_field := k\<rparr>"

definition rq_set_value :: "'m map_ops \<Rightarrow> string \<Rightarrow> 'm HttpRequestParser_data \<Rightarrow> 'm HttpRequestParser_data" where
  "rq_set_value ops v u = u\<lparr>rq_data := setHeader ops (rq_field u) v (rq_data u)\<rparr>"

interpretation request_headers: header_client "s_request_settings ops" rq_set_field "rq_set_value ops" for ops
  by unfold_locales (simp_all add: fun_eq_iff rq_set_field_def rq_set_value_def on_request_header_field_cb_def
    on_request_header_value_cb_def)

abbreviation set_headers :: "'m map_ops \<Rightarrow> (string \<times> string) list \<Rightarrow> 'm HttpRequestParser_data \<Rightarrow> 'm HttpRequestParser_data" where
  "set_headers ops es u \<equiv> fold (\<lambda>(k, v) u. rq_set_value ops v (rq_set_field k u)) es u"

lemma set_headers_data:
  "rq_data (set_headers ops es u) = (rq_data u)
     \<lparr>req_headers := fold (\<lambda>(k, v) m. map_set ops m k v) es (req_headers (rq_data u))\<rparr>"
  "rq_error (set_headers ops es u) = rq_error u"
  by (induction es arbitrary: u) (auto simp: rq_set_field_def rq_set_value_def setHeader_def)

section \<open>The end of the head and the body\<close>

text \<open>The parser a head leaves behind that asks for nothing special.\<close>

definition plain_head :: "http_parser \<Rightarrow> bool" where
  "plain_head P \<longleftrightarrow> http_errno P = HPE_OK \<and> p_type P = HTTP_REQUEST \<and> \<not> uses_transfer_encoding P \<and>
     p_method P \<noteq> HTTP_CONNECT \<and> \<not> has_flag (p_flags P) F_CHUNKED \<and> \<not> has_flag (p_flags P) F_UPGRADE \<and>
     \<not> has_flag (p_flags P) F_TRAILING \<and> \<not> has_flag (p_flags P) F_SKIPBODY"

definition finished_request :: "http_parser \<Rightarrow> string \<Rightarrow> 'm HttpRequestParser_data \<Rightarrow> 'm HttpRequestParser_data" where
  "finished_request P body u = u\<lparr>rq_data := (rq_data u)\<lparr>req_version := parsed_version P,
     req_method := http_method_num (p_method P), req_body := req_body (rq_data u) @ body\<rparr>, rq_finished := True\<rparr>"

lemma headers_almost_done_plain:
  assumes "plain_head (prs x)" "cst x = s_headers_almost_done" "cur_ch x = LF"
  shows "exec_switch (s_request_settings ops) mx data x =
    Reexecute (x\<lparr>cst := s_headers_done, prs := (prs x)\<lparr>upgrade := False\<rparr>,
      usr := (usr x)\<lparr>rq_data := (rq_data (usr x))\<lparr>req_version := parsed_version (prs x),
        req_method := http_method_num (p_method (prs x))\<rparr>\<rparr>\<rparr>)"
  using assms
  by (simp add: exec_switch_def exec_headers_almost_done_def STRICT_CHECK_def plain_head_def exec_headers_complete_def
      on_request_headers_complete_cb_def parsed_version_def Let_def)

lemma headers_done_no_body:
  assumes "plain_head (prs x)" "cst x = s_headers_done" "cur_ch x = LF" "content_length (prs x) = ULLONG_MAX" "\<not> upgrade (prs x)"
  shows "\<exists>y. exec_switch (s_request_settings ops) mx data x = Next y \<and> pos y = pos x \<and> marks y = marks x \<and>
    http_errno (prs y) = HPE_OK \<and> \<not> upgrade (prs y) \<and> usr y = (usr x)\<lparr>rq_finished := True\<rparr>"
  using assms
  by (simp add: exec_switch_def exec_headers_done_def STRICT_CHECK_def plain_head_def CALLBACK_NOTIFY_gen_def
      on_request_message_complete_cb_def http_message_needs_eof_def Let_def)

lemma headers_done_body:
  assumes "plain_head (prs x)" "cst x = s_headers_done" "cur_ch x = LF" "\<not> upgrade (prs x)"
    "content_length (prs x) \<noteq> ULLONG_MAX" "content_length (prs x) \<noteq> 0"
  shows "exec_switch (s_request_settings ops) mx data x =
    Next (x\<lparr>nread := 0, prs := (prs x)\<lparr>p_nread := 0\<rparr>, cst := s_body_identity\<rparr>)"
  using assms
  by (simp add: exec_switch_def exec_headers_done_def STRICT_CHECK_def plain_head_def Let_def)

text \<open>Reading the whole body of known length.\<close>

lemma body_round:
  fixes ops :: "'m map_ops" and x :: "'m HttpRequestParser_data xst"
  assumes "cst x = s_body_identity" "marks x = Map.empty" "plain_head (prs x)" "\<not> upgrade (prs x)"
    and "pos x < length data" "unat (content_length (prs x)) = length data - pos x" "content_length (prs x) \<noteq> ULLONG_MAX"
  shows "\<exists>y. exec_reexecute reexecute_fuel (s_request_settings ops) mx data x = Next y \<and>
    Suc (pos y) = length data \<and> marks y = Map.empty \<and> http_errno (prs y) = HPE_OK \<and> \<not> upgrade (prs y) \<and>
    usr y = (usr x)\<lparr>rq_data := (rq_data (usr x))\<lparr>req_body := req_body (rq_data (usr x)) @ drop (pos x) data\<rparr>, rq_finished := True\<rparr>"
proof -
  let ?S = "s_request_settings ops"
  let ?y = "x\<lparr>prs := (prs x)\<lparr>content_length := 0\<rparr>, marks := [M_body \<mapsto> pos x], pos := length data - 1\<rparr>"
  let ?u = "(usr x)\<lparr>rq_data := (rq_data (usr x))\<lparr>req_body := req_body (rq_data (usr x)) @ drop (pos x) data\<rparr>\<rparr>"
  let ?P = "(prs x)\<lparr>content_length := 0, p_state := s_message_done\<rparr>"
  let ?z = "?y\<lparr>prs := ?P, usr := ?u, cst := s_message_done, marks := Map.empty\<rparr>"
  have n: "to_read data x = length data - pos x" using assms(6) by (simp add: to_read_def)
  have c: "content_length (prs x) \<noteq> 0" using assms(5,6) by auto
  have cl: "of_nat (length data - pos x) = content_length (prs x)" by (simp add: assms(6) [symmetric])
  have y: "take_body data x = ?y"
    using n c cl assms(2,5) by (simp add: take_body_def MARK_def Let_def)
  have all: "slice_of (pos x) (length data - pos x) data = drop (pos x) data" by (simp add: slice_of_def)
  have last: "Suc (length data - Suc 0) = length data" using assms(5) by simp
  have 1: "exec_switch ?S mx data x = Reexecute ?z"
    using assms(1-3,5,7) c all last
    by (simp add: exec_switch_def exec_body_identity_def y Let_def CALLBACK_DATA_gen_def on_request_body_cb_def plain_head_def)
  let ?w = "?z\<lparr>prs := ?P\<lparr>p_state := NEW_MESSAGE ?P\<rparr>, usr := ?u\<lparr>rq_finished := True\<rparr>, cst := NEW_MESSAGE ?P\<rparr>"
  have 2: "exec_switch ?S mx data ?z = Next ?w"
    using assms(3,4)
    by (simp add: exec_switch_def exec_message_done_def CALLBACK_NOTIFY_gen_def Let_def plain_head_def
        on_request_message_complete_cb_def)
  have "exec_reexecute reexecute_fuel ?S mx data x = Next ?w"
    using 1 2 by (simp add: reexecute_fuel_def numeral_eq_Suc)
  then show ?thesis using assms(3-5) by (simp add: plain_head_def)
qed

lemma body_yields:
  fixes ops :: "'m map_ops" and x :: "'m HttpRequestParser_data xst"
  assumes "cst x = s_body_identity" "marks x = Map.empty" "plain_head (prs x)" "\<not> upgrade (prs x)"
    and "pos x < length data" "unat (content_length (prs x)) = length data - pos x" "content_length (prs x) \<noteq> ULLONG_MAX"
    and "\<And>P. http_errno P = HPE_OK \<Longrightarrow> \<not> upgrade P \<Longrightarrow> Q (length data) P ((usr x)\<lparr>rq_data :=
      (rq_data (usr x))\<lparr>req_body := req_body (rq_data (usr x)) @ drop (pos x) data\<rparr>, rq_finished := True\<rparr>)"
  shows "yields (s_request_settings ops) mx data Q x"
  unfolding yields_def
proof (intro allI impI)
  fix n
  assume n: "length data - pos x \<le> n"
  then obtain k where k: "n = Suc k" using assms(5) by (cases n) auto
  let ?x = "x\<lparr>cur_ch := data ! pos x\<rparr>"
  obtain y where y: "exec_reexecute reexecute_fuel (s_request_settings ops) mx data ?x = Next y"
      "Suc (pos y) = length data" "marks y = Map.empty" "http_errno (prs y) = HPE_OK" "\<not> upgrade (prs y)"
      "usr y = (usr x)\<lparr>rq_data := (rq_data (usr x))
        \<lparr>req_body := req_body (rq_data (usr x)) @ drop (pos x) data\<rparr>, rq_finished := True\<rparr>"
    using body_round [of ?x data ops mx] assms(1-7) by auto
  have "exec_loop n (s_request_settings ops) mx data x = exec_loop k (s_request_settings ops) mx data (y\<lparr>pos := length data\<rparr>)"
    using y(1,2) assms(1,5) unfolding k
    by (subst exec_loop.simps) (simp add: PARSING_HEADER_iff Let_def)
  moreover have "yields (s_request_settings ops) mx data Q (y\<lparr>pos := length data\<rparr>)"
    using y assms(8) by (intro yields_end) simp_all
  ultimately show "case exec_loop n (s_request_settings ops) mx data x of Return k P u \<Rightarrow> Q k P u | _ \<Rightarrow> False"
    by (simp add: yields_def)
qed

text \<open>The empty line and the body: the parser returns, has consumed everything and finished the request.\<close>

lemma parses_end:
  fixes ops :: "'m map_ops"
  assumes "plain_head P" "length data \<le> unat mx + length body"
    and "if body = [] then content_length P = ULLONG_MAX
      else unat (content_length P) = length body \<and> content_length P \<noteq> ULLONG_MAX"
    and "\<And>P'. http_errno P' = HPE_OK \<Longrightarrow> \<not> upgrade P' \<Longrightarrow> Q (length data) P' (finished_request P body u)"
  shows "parses (s_request_settings ops) mx data Q s_header_field_start Map.empty P u (CRLF @ body)"
proof -
  let ?S = "s_request_settings ops"
  have "parses ?S mx data Q s_headers_almost_done Map.empty P u (LF # body)"
    unfolding parses_def
  proof (intro allI impI)
    fix x :: "'m HttpRequestParser_data xst"
    assume x: "at data s_headers_almost_done Map.empty P u (LF # body) x"
    have p: "pos x < length data" "data ! pos x = LF" "drop (Suc (pos x)) data = body"
      "length data = pos x + Suc (length body)"
      using at_nth [OF x] at_pos [OF x] by auto
    let ?x = "x\<lparr>cur_ch := LF, nread := nread x + 1\<rparr>"
    let ?d = "(rq_data u)\<lparr>req_version := parsed_version P, req_method := http_method_num (p_method P)\<rparr>"
    let ?y = "?x\<lparr>cst := s_headers_done, prs := P\<lparr>upgrade := False\<rparr>, usr := u\<lparr>rq_data := ?d\<rparr>\<rparr>"
    have le: "nread x + 1 \<le> mx"
      using of_nat_le_word [of "Suc (pos x)" mx] p(4) assms(2) x by (simp add: at_def add.commute)
    have 1: "exec_switch ?S mx data ?x = Reexecute ?y"
      using headers_almost_done_plain [of ?x ops mx data] x assms(1) by (simp add: at_def)
    have round: "yields ?S mx data Q x"
      if "exec_reexecute reexecute_fuel ?S mx data ?x = Next y" "pos y = pos x" "yields ?S mx data Q (y\<lparr>pos := Suc (pos y)\<rparr>)" for y
    proof (rule yields_round [OF p(1) _ le _ _ that(3)])
      show "PARSING_HEADER (cst x)" using x by (simp add: at_def PARSING_HEADER_iff)
    qed (simp_all only: p(2) that order.refl)
    have plain: "plain_head (P\<lparr>upgrade := False\<rparr>)" "plain_head (P\<lparr>upgrade := False, p_nread := 0\<rparr>)"
      using assms(1) by (simp_all add: plain_head_def)
    show "yields ?S mx data Q x"
    proof (cases "body = []")
      case True
      obtain y where y: "exec_switch ?S mx data ?y = Next y" "pos y = pos x" "marks y = Map.empty"
          "http_errno (prs y) = HPE_OK" "\<not> upgrade (prs y)" "usr y = u\<lparr>rq_data := ?d, rq_finished := True\<rparr>"
        using headers_done_no_body [of ?y ops mx data] x assms(3) plain True by (auto simp: at_def)
      have 2: "exec_reexecute reexecute_fuel ?S mx data ?x = Next y"
        using 1 y(1) by (simp add: reexecute_fuel_def numeral_eq_Suc)
      have "yields ?S mx data Q (y\<lparr>pos := Suc (pos y)\<rparr>)"
        using y p True assms(4) by (intro yields_end) (simp_all add: finished_request_def)
      then show ?thesis by (rule round [OF 2 y(2)])
    next
      case False
      let ?z = "?y\<lparr>nread := 0, prs := P\<lparr>upgrade := False, p_nread := 0\<rparr>, cst := s_body_identity\<rparr>"
      have cl: "content_length P \<noteq> ULLONG_MAX" "unat (content_length P) = length body" "content_length P \<noteq> 0"
        using assms(3) False by auto
      have "exec_switch ?S mx data ?y = Next ?z"
        using headers_done_body [of ?y ops mx data] plain cl by simp
      then have 2: "exec_reexecute reexecute_fuel ?S mx data ?x = Next ?z"
        using 1 by (simp add: reexecute_fuel_def numeral_eq_Suc)
      have "yields ?S mx data Q (?z\<lparr>pos := Suc (pos ?z)\<rparr>)"
        using plain(2) cl p(3,4) False x assms(4)
        by (intro body_yields) (auto simp: at_def finished_request_def)
      then show ?thesis by (intro round [OF 2]) simp_all
    qed
  qed
  then have "parses ?S mx data Q s_header_field_start Map.empty P u (CR # LF # body)"
    by (rule parses_step [rotated 3])
      (use assms(2) in \<open>auto simp: PARSING_HEADER_iff exec_switch_def exec_header_field_start_def\<close>)
  then show ?thesis by simp
qed

section \<open>Printed requests\<close>

text \<open>The end of a printed request: the length of the body, if there is one, and the body.\<close>

definition printed_body :: "string \<Rightarrow> string" where
  "printed_body body = (if body \<noteq> [] then ''content-length: '' @ dec (length body) @ CRLF @ CRLF @ body else CRLF)"

definition body_entries :: "string \<Rightarrow> (string \<times> string) list" where
  "body_entries body = (if body = [] then [] else [(''content-length'', dec (length body))])"

lemma parses_printed_body:
  fixes ops :: "'m map_ops"
  assumes "plain_head P" "\<not> has_flag (p_flags P) F_CONTENTLENGTH" "content_length P = ULLONG_MAX"
    and "length body < 18446744073709551610" "length data \<le> unat mx + length body"
    and "drop (length data - length (printed_body body)) data = printed_body body"
    and "\<And>P' P''. same_head (P\<lparr>p_flags := p_flags P', content_length := content_length P'\<rparr>) P' \<Longrightarrow>
      http_errno P'' = HPE_OK \<Longrightarrow> \<not> upgrade P'' \<Longrightarrow>
      Q (length data) P'' (finished_request P' body (set_headers ops (body_entries body) u))"
  shows "parses (s_request_settings ops) mx data Q s_header_field_start Map.empty P u (printed_body body)"
proof (cases "body = []")
  case True
  have "parses (s_request_settings ops) mx data Q s_header_field_start Map.empty P u (CRLF @ body)"
    using assms(1,3,5) assms(7) [of P] True
    by (intro parses_end) (simp_all add: same_head_def body_entries_def)
  then show ?thesis using True by (simp add: printed_body_def)
next
  case False
  have "parses (s_request_settings ops) mx data Q s_header_field_start Map.empty P u
      (''content-length: '' @ dec (length body) @ CRLF @ CRLF @ body)"
  proof (rule request_headers.parses_content_length_line [OF _ _ assms(2,4)])
    fix P' v
    assume P': "same_head (P\<lparr>p_flags := p_flags P OR F_CONTENTLENGTH, content_length := v\<rparr>) P'"
      "unat v = length body" "\<not> uses_transfer_encoding P'"
    have "unat ULLONG_MAX = 18446744073709551615" by (simp add: unsigned_minus_1_eq_mask mask_eq_exp_minus_1)
    then have "v \<noteq> ULLONG_MAX" using P'(2) assms(4) by force
    moreover have "plain_head P'"
      using P'(1,3) assms(1) by (simp add: plain_head_def same_head_def content_length_flag)
    ultimately show "parses (s_request_settings ops) mx data Q s_header_field_start Map.empty P'
        (rq_set_value ops (dec (length body)) (rq_set_field ''content-length'' u)) (CRLF @ body)"
      using P' assms(5) assms(7) [of P'] False
      by (intro parses_end) (auto simp: same_head_def body_entries_def)
  qed (use assms(1,5,6) False in \<open>simp_all add: plain_head_def printed_body_def\<close>)
  then show ?thesis using False by (simp add: printed_body_def)
qed

definition printable_request :: "'m map_ops \<Rightarrow> 'm HttpRequest \<Rightarrow> bool" where
  "printable_request ops r \<longleftrightarrow> req_method r < 5 \<and> printable_url (req_path r) (req_query r) (req_fragment r) \<and>
     unat (drop_bit 4 (req_version r)) < 10 \<and> unat (req_version r AND 0x0F) < 10 \<and>
     list_all plain_entry (map_entries ops (req_headers r)) \<and> length (req_body r) < 18446744073709551610"

text \<open>What a printed request says: the entries it sends, and the request they make.\<close>

definition sent_entries :: "'m map_ops \<Rightarrow> 'm HttpRequest \<Rightarrow> (string \<times> string) list" where
  "sent_entries ops r = (''connection'', connection_value (req_close r)) #
     own_entries (map_entries ops (req_headers r)) @ body_entries (req_body r)"

definition sent_request :: "'m map_ops \<Rightarrow> 'm HttpRequest \<Rightarrow> 'm HttpRequest" where
  "sent_request ops r = (new_HttpRequest ops (req_version r) True)
     \<lparr>req_method := req_method r, req_path := req_path r, req_query := req_query r, req_fragment := req_fragment r,
      req_body := req_body r,
      req_headers := fold (\<lambda>(k, v) m. map_set ops m k v) (sent_entries ops r) (map_empty ops)\<rparr>"

lemma printed_method:
  assumes "m < 5"
  shows "\<exists>meth \<in> {HTTP_DELETE, HTTP_GET, HTTP_HEAD, HTTP_POST, HTTP_PUT}.
    HttpMethodToString m = method_strings meth \<and> http_method_num meth = m"
proof -
  have "m \<in> {0, 1, 2, 3, 4}" using assms by auto
  then show ?thesis by (auto simp: HttpMethodToString_def s_method_string_def HTTP_METHOD_MAP_def)
qed

lemma dump_parts:
  assumes "HttpMethodToString (req_method r) = method_strings meth"
  shows "dump ops r = method_strings meth @ SP # url_text (req_path r) (req_query r) (req_fragment r) @ SP # ''HTTP/'' @
    dec (unat (drop_bit 4 (req_version r))) @ ''.'' @ dec (unat (req_version r AND 0x0F)) @ CRLF @
    ''connection: '' @ connection_value (req_close r) @ CRLF @
    concat (map (header_line []) (map_entries ops (req_headers r))) @ printed_body (req_body r)"
proof -
  have "header_line [] = (\<lambda>(k, v). if is_connection k then [] else k @ '':'' @ v @ CRLF)" by (auto simp: fun_eq_iff)
  then show ?thesis
    using assms by (simp add: dump_def url_text_def version_string_def connection_value_def printed_body_def)
qed

text \<open>The loop over a printed request.\<close>

definition request_result :: "'m map_ops \<Rightarrow> 'm HttpRequest \<Rightarrow> nat \<Rightarrow> http_parser \<Rightarrow> 'm HttpRequestParser_data \<Rightarrow> bool" where
  "request_result ops r n P u \<longleftrightarrow> n = length (dump ops r) \<and> http_errno P = HPE_OK \<and> \<not> upgrade P \<and>
     rq_data u = sent_request ops r \<and> rq_finished u \<and> rq_error u = HPE_OK"

lemma parses_printed_head:
  fixes ops :: "'m map_ops"
  assumes "printable_request ops r" "length (dump ops r) \<le> unat mx + length (req_body r)"
    and "plain_head P" "p_flags P = 0" "content_length P = ULLONG_MAX" "http_method_num (p_method P) = req_method r"
    and "http_major P = of_nat (unat (drop_bit 4 (req_version r)))" "http_minor P = of_nat (unat (req_version r AND 0x0F))"
    and "rq_data u = (new_HttpRequest ops 0x11 True)
      \<lparr>req_path := req_path r, req_query := req_query r, req_fragment := req_fragment r\<rparr>" "rq_error u = HPE_OK"
    and "lines = concat (map (header_line []) (map_entries ops (req_headers r))) @ printed_body (req_body r)"
    and "drop (length (dump ops r) - length (''connection: '' @ connection_value (req_close r) @ CRLF @ lines)) (dump ops r) =
      ''connection: '' @ connection_value (req_close r) @ CRLF @ lines"
  shows "parses (s_request_settings ops) mx (dump ops r) (request_result ops r) s_header_field_start Map.empty P u
    (''connection: '' @ connection_value (req_close r) @ CRLF @ lines)"
proof -
  let ?es = "map_entries ops (req_headers r)" and ?body = "req_body r" and ?data = "dump ops r"
  let ?v = "connection_value (req_close r)"
  have body: "printed_body ?body \<noteq> []" "hd (printed_body ?body) \<notin> {SP, HT, LF}"
    "length ?body \<le> length (tl (printed_body ?body))"
    by (simp_all add: printed_body_def)
  have es: "list_all plain_entry ?es" "length ?body < 18446744073709551610"
    using assms(1) by (simp_all add: printable_request_def)
  have start: "lines \<noteq> [] \<and> hd lines \<notin> {SP, HT, LF} \<and> length (tl (printed_body ?body)) \<le> length (tl lines)"
    using header_lines_start [OF es(1) body(1,2)] assms(11) by simp
  have dr: "drop (length ?data - length lines) ?data = lines"
    using drop_tail [of ?data "''connection: '' @ ?v @ CRLF" lines] assms(12) by simp
  have dr2: "drop (length ?data - length (printed_body ?body)) ?data = printed_body ?body"
    using drop_tail [of ?data "concat (map (header_line []) ?es)" "printed_body ?body"] dr assms(11) by simp
  show ?thesis
  proof (rule request_headers.parses_connection_line)
    fix P1
    assume P1: "same_head (P\<lparr>p_flags := p_flags P OR connection_flag (req_close r)\<rparr>) P1" "\<not> uses_transfer_encoding P1"
    let ?u1 = "rq_set_value ops ?v (rq_set_field ''connection'' u)"
    have "parses (s_request_settings ops) mx ?data (request_result ops r) s_header_field_start Map.empty P1 ?u1
        (concat (map (header_line []) ?es) @ printed_body ?body)"
    proof (rule request_headers.parses_header_lines [OF es(1)])
      fix P2
      assume P2: "same_head P1 P2" "\<not> uses_transfer_encoding P2"
      have plain: "plain_head P2" "\<not> has_flag (p_flags P2) F_CONTENTLENGTH" "content_length P2 = ULLONG_MAX"
        using P1(1) P2 assms(3-5) by (simp_all add: plain_head_def same_head_def connection_flag_other)
      show "parses (s_request_settings ops) mx ?data (request_result ops r) s_header_field_start Map.empty P2
          (set_headers ops (own_entries ?es) ?u1) (printed_body ?body)"
      proof (rule parses_printed_body [OF plain es(2) assms(2) dr2])
        fix P' P'' :: http_parser
        assume P': "same_head (P2\<lparr>p_flags := p_flags P', content_length := content_length P'\<rparr>) P'"
          "http_errno P'' = HPE_OK" "\<not> upgrade P''"
        let ?u = "set_headers ops (body_entries ?body) (set_headers ops (own_entries ?es) ?u1)"
        have "parsed_version P' = req_version r" "http_method_num (p_method P') = req_method r"
          using P1(1) P2(1) P'(1) assms(6-8) parsed_version_nibbles [of P' "req_version r"] by (simp_all add: same_head_def)
        moreover have "set_headers ops (sent_entries ops r) u = ?u"
          by (simp add: sent_entries_def)
        ultimately have "rq_data (finished_request P' ?body ?u) = sent_request ops r" "rq_error (finished_request P' ?body ?u) = HPE_OK"
          using assms(9,10) set_headers_data [of ops "sent_entries ops r" u]
          by (simp_all add: finished_request_def sent_request_def new_HttpRequest_def)
        then show "request_result ops r (length ?data) P'' (finished_request P' ?body ?u)"
          using P'(2,3) by (simp add: request_result_def finished_request_def)
      qed
    qed (use P1 assms(2,3) body dr assms(11) in \<open>simp_all add: plain_head_def same_head_def\<close>)
    then show "parses (s_request_settings ops) mx ?data (request_result ops r) s_header_field_start Map.empty P1 ?u1 lines"
      by (simp add: assms(11))
  qed (use assms(2,3,12) start body(3) in \<open>auto simp: plain_head_def\<close>)
qed

lemma parses_printed_request:
  fixes ops :: "'m map_ops"
  assumes "printable_request ops r" "length (dump ops r) \<le> unat mx + length (req_body r)"
  shows "parses (s_request_settings ops) mx (dump ops r) (request_result ops r) s_start_req Map.empty
    (http_parser_init HTTP_REQUEST) (rq_user (new_HttpRequestParser ops)) (dump ops r)"
proof -
  let ?S = "s_request_settings ops" and ?data = "dump ops r" and ?Q = "request_result ops r"
  let ?u = "rq_user (new_HttpRequestParser ops)" and ?url = "url_text (req_path r) (req_query r) (req_fragment r)"
  let ?a = "unat (drop_bit 4 (req_version r))" and ?b = "unat (req_version r AND 0x0F)"
  define lines where "lines = concat (map (header_line []) (map_entries ops (req_headers r))) @ printed_body (req_body r)"
  define rest where "rest = ''connection: '' @ connection_value (req_close r) @ CRLF @ lines"
  obtain meth where meth: "meth \<in> {HTTP_DELETE, HTTP_GET, HTTP_HEAD, HTTP_POST, HTTP_PUT}"
      "HttpMethodToString (req_method r) = method_strings meth" "http_method_num meth = req_method r"
    using printed_method assms(1) unfolding printable_request_def by blast
  have data: "?data = method_strings meth @ SP # ?url @ SP # ''HTTP/'' @ dec ?a @ ''.'' @ dec ?b @ CRLF @ rest"
    unfolding rest_def lines_def by (rule dump_parts [OF meth(2)])
  have "length (req_body r) \<le> length rest" by (simp add: rest_def lines_def printed_body_def)
  then have fits: "length ?data \<le> unat mx + length (w @ rest)" for w using assms(2) by simp
  have url: "printable_url (req_path r) (req_query r) (req_fragment r)" and ab: "?a < 10" "?b < 10"
    using assms(1) by (simp_all add: printable_request_def)
  then have hd: "?url \<noteq> []" "hd ?url \<in> {CHR ''/'', CHR ''*''}" by (auto simp: printable_url_def url_text_def)
  let ?u' = "?u\<lparr>rq_data := (rq_data ?u)\<lparr>req_path := req_path r, req_query := req_query r, req_fragment := req_fragment r\<rparr>\<rparr>"
  have dr: "drop (length ?data - length (w @ rest)) ?data = w @ rest" if "?data = v @ w @ rest" for v w
    using that by simp
  obtain res where res: "http_parser_parse_url ?url False http_parser_url_init = Url_ok res"
    using parse_url_text [OF url] by blast
  have "parses ?S mx ?data ?Q s_req_spaces_before_url Map.empty (method_chosen (http_parser_init HTTP_REQUEST) meth i) ?u
      (?url @ SP # ''HTTP/'' @ dec ?a @ ''.'' @ dec ?b @ CRLF @ rest)" for i
  proof -
    let ?P = "(method_chosen (http_parser_init HTTP_REQUEST) meth i)\<lparr>p_state := s_req_http_start\<rparr>"
    let ?P' = "?P\<lparr>http_major := of_nat ?a, http_minor := of_nat ?b\<rparr>"
    have P': "plain_head ?P'" "p_flags ?P' = 0" "content_length ?P' = ULLONG_MAX" "p_method ?P' = meth"
      using meth(1) by (auto simp: plain_head_def method_chosen_def reset_message_def http_parser_init_def has_flag_def
          F_CHUNKED_def F_UPGRADE_def F_TRAILING_def F_SKIPBODY_def)
    have "parses ?S mx ?data ?Q s_header_field_start Map.empty ?P' ?u' rest"
      unfolding rest_def
    proof (rule parses_printed_head [OF assms P'(1-3) _ _ _ _ _ lines_def])
      show "drop (length ?data - length (''connection: '' @ connection_value (req_close r) @ CRLF @ lines)) ?data =
          ''connection: '' @ connection_value (req_close r) @ CRLF @ lines"
        unfolding rest_def [symmetric] by (rule drop_rest [where a = "method_strings meth @ SP # ?url @ SP # ''HTTP/'' @
          dec ?a @ ''.'' @ dec ?b @ CRLF"]) (use data in simp)
    qed (use P'(4) meth(3) in \<open>simp_all add: new_HttpRequestParser_def\<close>)
    then have "parses ?S mx ?data ?Q s_req_http_major Map.empty ?P ?u' (dec ?a @ ''.'' @ dec ?b @ CRLF @ rest)"
      using fits [of "[]"] ab by (intro parses_version) simp_all
    then have "parses ?S mx ?data ?Q s_req_http_start Map.empty ?P ?u' (''HTTP/'' @ dec ?a @ ''.'' @ dec ?b @ CRLF @ rest)"
      using fits [of "dec ?a @ ''.'' @ dec ?b @ CRLF"] by (intro parses_HTTP) simp_all
    then show ?thesis
      using fits [of "''HTTP/'' @ dec ?a @ ''.'' @ dec ?b @ CRLF"] meth(1) data hd
        request_url_cb [OF url, of ?u ?P]
      by (intro parses_url [OF res])
        (auto simp: method_chosen_def reset_message_def http_parser_init_def new_HttpRequestParser_def new_HttpRequest_def)
  qed
  then have "parses ?S mx ?data ?Q s_start_req Map.empty (http_parser_init HTTP_REQUEST) ?u
      (method_strings meth @ SP # ?url @ SP # ''HTTP/'' @ dec ?a @ ''.'' @ dec ?b @ CRLF @ rest)"
    using fits [of "?url @ SP # ''HTTP/'' @ dec ?a @ ''.'' @ dec ?b @ CRLF"]
    by (intro parses_method [OF meth(1)]) (simp_all add: http_parser_init_def)
  then show ?thesis using data by simp
qed

lemma printed_request_parsed:
  assumes "printable_request ops r" "length (dump ops r) \<le> unat mx + length (req_body r)"
  shows "\<exists>p. HttpRequestParser_execute ops mx (dump ops r) (new_HttpRequestParser ops) =
      Some (length (dump ops r), dump ops r, p) \<and>
    rq_error (rq_user p) = HPE_OK \<and> rq_finished (rq_user p) \<and> rq_data (rq_user p) = sent_request ops r"
proof -
  let ?S = "s_request_settings ops" and ?data = "dump ops r"
  let ?P = "http_parser_init HTTP_REQUEST" and ?u = "rq_user (new_HttpRequestParser ops)"
  have "at ?data s_start_req Map.empty ?P ?u ?data (initial_xst ?P ?u)"
    by (simp add: at_def initial_xst_def http_parser_init_def initial_marks_def)
  then have "yields ?S mx ?data (request_result ops r) (initial_xst ?P ?u)"
    using parses_printed_request [OF assms] by (simp add: parses_def)
  then have "case exec_loop (length ?data) ?S mx ?data (initial_xst ?P ?u) of Return n P u \<Rightarrow> request_result ops r n P u | _ \<Rightarrow> False"
    by (simp add: yields_def)
  then obtain n P u where run: "exec_loop (length ?data) ?S mx ?data (initial_xst ?P ?u) = Return n P u"
      and res: "request_result ops r n P u"
    by (cases "exec_loop (length ?data) ?S mx ?data (initial_xst ?P ?u)") simp_all
  have "?data \<noteq> []" by (simp add: dump_def version_string_def)
  then have "http_parser_execute ?S mx ?P ?u ?data = Return n P u"
    using run by (simp add: http_parser_execute_def http_parser_init_def)
  then show ?thesis
    using res by (simp add: HttpRequestParser_execute_def new_HttpRequestParser_def request_result_def)
qed

text \<open>
  C2. A request that is printed and parsed again comes back: for a request with one of the five methods, a
  path, query and fragment of URL characters, and headers with ordinary names and values, whose head fits
  into the maximum header size, the request parser consumes exactly the bytes \<^verbatim>\<open>dump\<close> prints, reports no
  error, is finished, and holds a request with the same method, version, path, query, fragment and body, and
  with the headers that were printed.
\<close>

theorem request_roundtrip:
  assumes "printable_request ops r" "length (dump ops r) \<le> unat mx + length (req_body r)"
  shows "\<exists>p. HttpRequestParser_execute ops mx (dump ops r) (new_HttpRequestParser ops) =
      Some (length (dump ops r), dump ops r, p) \<and>
    rq_error (rq_user p) = HPE_OK \<and> rq_finished (rq_user p) \<and> rq_data (rq_user p) = sent_request ops r"
  by (rule printed_request_parsed [OF assms])

definition sample_request :: "(string \<times> string) list HttpRequest" where
  "sample_request = (new_HttpRequest alist_ops 0x11 False)\<lparr>req_method := 3, req_path := ''/a'', req_query := ''b=c'',
     req_body := ''hi'', req_headers := [(''host'', ''me''), (''Connection'', ''x''), (''c'', [])]\<rparr>"

lemma sample_request_printable: "printable_request alist_ops sample_request"
proof -
  have "list_all plain_entry [(''host'', ''me''), (''Connection'', ''x''), (''c'', [])]" by code_simp
  moreover have "IS_URL_CHAR CHR ''a''" "IS_URL_CHAR CHR ''b''" "IS_URL_CHAR CHR ''c''" "IS_URL_CHAR CHR ''=''" by code_simp+
  ultimately show ?thesis
    by (simp add: printable_request_def printable_url_def url_text_def sample_request_def new_HttpRequest_def alist_ops_def)
qed

lemma sample_request_dump:
  "dump alist_ops sample_request =
   ''POST /a?b=c HTTP/1.1'' @ CRLF @ ''connection: keep-alive'' @ CRLF @ ''host:me'' @ CRLF @ ''c:'' @ CRLF @
   ''content-length: 2'' @ CRLF @ CRLF @ ''hi''"
  by code_simp

theorem request_roundtrip_witness:
  "\<exists>p. HttpRequestParser_execute alist_ops 1000 (dump alist_ops sample_request) (new_HttpRequestParser alist_ops) =
      Some (length (dump alist_ops sample_request), dump alist_ops sample_request, p) \<and>
    rq_data (rq_user p) = sent_request alist_ops sample_request"
proof -
  have "length (dump alist_ops sample_request) \<le> unat (1000 :: u32) + length (req_body sample_request)"
    by (simp add: sample_request_dump)
  from request_roundtrip [OF sample_request_printable this] show ?thesis by blast
qed

end
