(* ===== verification/ByteArray.thy ===== *)
theory ByteArray
  imports Prelude
begin

text \<open>
  \<^verbatim>\<open>bytearray.cpp\<close> and \<^verbatim>\<open>endian.h\<close>: a growing array of bytes kept as a chain of nodes of equal
  size.  The chain is the list \<open>m_nodes\<close> (node 0 is \<^verbatim>\<open>m_root\<close>), the pointer \<^verbatim>\<open>m_cur\<close> is an index into
  it (\<open>None\<close> is the null pointer), and a byte of a node that was never written is \<open>None\<close>.  Sizes are
  natural numbers; the one subtraction that could wrap around is written out.  A thrown
  \<^verbatim>\<open>std::out_of_range\<close>, an access through a null pointer or outside an array, and the use of an
  unwritten byte as a number are the three errors.  The host is little endian, as
  \<^verbatim>\<open>SYLAR_BYTE_ORDER\<close> is on the platforms the build targets.
\<close>

section \<open>Byte order\<close>

definition SYLAR_LITTLE_ENDIAN :: nat where "SYLAR_LITTLE_ENDIAN = 1"
definition SYLAR_BIG_ENDIAN :: nat where "SYLAR_BIG_ENDIAN = 2"
definition SYLAR_BYTE_ORDER :: nat where "SYLAR_BYTE_ORDER = SYLAR_LITTLE_ENDIAN"

text \<open>The object representation of an integer, lowest address first, and back.\<close>

definition to_le :: "'a::len word \<Rightarrow> u8 list" where
  "to_le w = map (\<lambda>i. ucast (drop_bit (8 * i) w)) [0..<LENGTH('a) div 8]"

primrec from_le :: "u8 list \<Rightarrow> 'a::len word" where
  "from_le [] = 0"
| "from_le (b # bs) = ucast b OR push_bit 8 (from_le bs)"

definition byteswap :: "'a::len word \<Rightarrow> 'a word" where
  "byteswap w = from_le (rev (to_le w))"

definition byteswapOnLittleEndian :: "'a::len word \<Rightarrow> 'a word" where
  "byteswapOnLittleEndian w = (if SYLAR_BYTE_ORDER = SYLAR_BIG_ENDIAN then w else byteswap w)"

definition byteswapOnBigEndian :: "'a::len word \<Rightarrow> 'a word" where
  "byteswapOnBigEndian w = (if SYLAR_BYTE_ORDER = SYLAR_BIG_ENDIAN then byteswap w else w)"

section \<open>State\<close>

datatype ba_error = Out_of_range | Bad_access | Indeterminate

type_synonym node = "u8 option list"

record byte_array =
  m_baseSize :: nat
  m_position :: nat
  m_capacity :: nat
  m_size :: nat
  m_endian :: nat
  m_nodes :: "node list"
  m_cur :: "nat option"

definition new_node :: "nat \<Rightarrow> node" where
  "new_node s = replicate s None"

definition ByteArray_new :: "nat \<Rightarrow> byte_array" where
  "ByteArray_new base_size =
    \<lparr>m_baseSize = base_size, m_position = 0, m_capacity = base_size, m_size = 0,
     m_endian = SYLAR_BIG_ENDIAN, m_nodes = [new_node base_size], m_cur = Some 0\<rparr>"

definition isLittleEndian :: "byte_array \<Rightarrow> bool" where
  "isLittleEndian b \<longleftrightarrow> m_endian b = SYLAR_LITTLE_ENDIAN"

definition setIsLittleEndian :: "bool \<Rightarrow> byte_array \<Rightarrow> byte_array" where
  "setIsLittleEndian v b = b\<lparr>m_endian := (if v then SYLAR_LITTLE_ENDIAN else SYLAR_BIG_ENDIAN)\<rparr>"

text \<open>\<^verbatim>\<open>size_t\<close> subtraction.\<close>

definition size_sub :: "nat \<Rightarrow> nat \<Rightarrow> nat" where
  "size_sub a b = (if b \<le> a then a - b else a + 2 ^ 64 - b)"

definition getReadSize :: "byte_array \<Rightarrow> nat" where
  "getReadSize b = size_sub (m_size b) (m_position b)"

definition getCapacity :: "byte_array \<Rightarrow> nat" where
  "getCapacity b = size_sub (m_capacity b) (m_position b)"

text \<open>\<^verbatim>\<open>node->next\<close> for the node with index \<open>c\<close>.\<close>

definition next_node :: "byte_array \<Rightarrow> nat \<Rightarrow> nat option" where
  "next_node b c = (if c + 1 < length (m_nodes b) then Some (c + 1) else None)"

definition ba_clear :: "byte_array \<Rightarrow> byte_array" where
  "ba_clear b = b\<lparr>m_position := 0, m_size := 0, m_nodes := take 1 (m_nodes b), m_cur := Some 0\<rparr>"

section \<open>Writing and reading bytes\<close>

definition addCapacity :: "nat \<Rightarrow> byte_array \<Rightarrow> byte_array" where
  "addCapacity sz b =
    (let old_cap = getCapacity b in
     if sz = 0 \<or> old_cap \<ge> sz then b
     else
       let sz = sz - old_cap;
           count = sz div m_baseSize b + (if sz mod m_baseSize b > old_cap then 1 else 0);
           first = (if count = 0 then None else Some (length (m_nodes b)))
       in b\<lparr>m_nodes := m_nodes b @ replicate count (new_node (m_baseSize b)),
            m_capacity := m_capacity b + count * m_baseSize b,
            m_cur := (if old_cap = 0 then first else m_cur b)\<rparr>)"

text \<open>\<^verbatim>\<open>memcpy(node->ptr + npos, src, n)\<close>, where \<open>src\<close> are the \<open>n\<close> bytes copied.\<close>

definition node_store :: "nat \<Rightarrow> u8 list \<Rightarrow> node \<Rightarrow> node" where
  "node_store npos src nd = take npos nd @ map Some src @ drop (npos + length src) nd"

text \<open>The loop of \<^verbatim>\<open>write\<close>.  The last copy takes its bytes from \<^verbatim>\<open>buf + npos\<close>, the others from
  \<^verbatim>\<open>buf + bpos\<close>.\<close>

function write_loop ::
  "u8 list \<Rightarrow> nat \<Rightarrow> nat \<Rightarrow> nat \<Rightarrow> nat \<Rightarrow> byte_array \<Rightarrow> ba_error + byte_array" where
  "write_loop buf npos ncap bpos sz b =
    (if sz = 0 then Inr b
     else case m_cur b of
         None \<Rightarrow> Inl Bad_access
       | Some c \<Rightarrow>
           if c \<ge> length (m_nodes b) then Inl Bad_access
           else
             let nd = m_nodes b ! c in
             if ncap \<ge> sz then
               if npos + sz > length nd \<or> npos + sz > length buf then Inl Bad_access
               else Inr (b\<lparr>m_nodes := (m_nodes b)[c := node_store npos (take sz (drop npos buf)) nd],
                           m_cur := (if length nd = npos + sz then next_node b c else Some c),
                           m_position := m_position b + sz\<rparr>)
             else if npos + ncap > length nd \<or> bpos + ncap > length buf then Inl Bad_access
             else
               let b' = b\<lparr>m_nodes := (m_nodes b)[c := node_store npos (take ncap (drop bpos buf)) nd],
                          m_cur := next_node b c, m_position := m_position b + ncap\<rparr>
               in case next_node b c of
                    None \<Rightarrow> Inl Bad_access
                  | Some c' \<Rightarrow>
                      write_loop buf 0 (length (m_nodes b ! c')) (bpos + ncap) (sz - ncap) b')"
  by pat_completeness auto
termination
  by (relation "measure (\<lambda>(buf, npos, ncap, bpos, sz, b).
        case m_cur b of None \<Rightarrow> 0 | Some c \<Rightarrow> length (m_nodes b) - c)")
    (auto simp: next_node_def split: if_splits)

declare write_loop.simps [simp del]

definition ba_write :: "u8 list \<Rightarrow> byte_array \<Rightarrow> ba_error + byte_array" where
  "ba_write buf b =
    (if length buf = 0 then Inr b
     else if m_baseSize b = 0 then Inl Bad_access
     else
       let b = addCapacity (length buf) b; npos = m_position b mod m_baseSize b in
       case m_cur b of
         None \<Rightarrow> Inl Bad_access
       | Some c \<Rightarrow>
           if c \<ge> length (m_nodes b) then Inl Bad_access
           else
             (case write_loop buf npos (size_sub (length (m_nodes b ! c)) npos) 0 (length buf) b of
                Inl e \<Rightarrow> Inl e
              | Inr b \<Rightarrow> Inr (if m_position b > m_size b then b\<lparr>m_size := m_position b\<rparr> else b)))"

text \<open>The loop of the two \<^verbatim>\<open>read\<close> functions and of the \<^verbatim>\<open>iovec\<close> functions walks the chain from a node
  \<open>cur\<close> and an offset in it; it delivers the segments (node, offset, length) in order and the node
  it ends at.\<close>

function segments ::
  "byte_array \<Rightarrow> nat option \<Rightarrow> nat \<Rightarrow> nat \<Rightarrow> nat \<Rightarrow> ((nat \<times> nat \<times> nat) list \<times> nat option) option" where
  "segments b cur npos ncap sz =
    (if sz = 0 then Some ([], cur)
     else case cur of
         None \<Rightarrow> None
       | Some c \<Rightarrow>
           if c \<ge> length (m_nodes b) then None
           else if ncap \<ge> sz then
             if npos + sz > length (m_nodes b ! c) then None
             else Some ([(c, npos, sz)],
                    if length (m_nodes b ! c) = npos + sz then next_node b c else Some c)
           else if npos + ncap > length (m_nodes b ! c) then None
           else (case next_node b c of
                   None \<Rightarrow> None
                 | Some c' \<Rightarrow>
                     (case segments b (Some c') 0 (length (m_nodes b ! c')) (sz - ncap) of
                        None \<Rightarrow> None
                      | Some (sgs, e) \<Rightarrow> Some ((c, npos, ncap) # sgs, e))))"
  by pat_completeness auto
termination
  by (relation "measure (\<lambda>(b, cur, npos, ncap, sz).
        case cur of None \<Rightarrow> 0 | Some c \<Rightarrow> length (m_nodes b) - c)")
    (auto simp: next_node_def split: if_splits)

declare segments.simps [simp del]

definition segment_cells :: "byte_array \<Rightarrow> nat \<times> nat \<times> nat \<Rightarrow> u8 option list" where
  "segment_cells b = (\<lambda>(c, npos, n). take n (drop npos (m_nodes b ! c)))"

definition segments_from ::
  "byte_array \<Rightarrow> nat option \<Rightarrow> nat \<Rightarrow> nat \<Rightarrow> ba_error + ((nat \<times> nat \<times> nat) list \<times> nat option)" where
  "segments_from b cur npos sz =
    (case cur of
       None \<Rightarrow> Inl Bad_access
     | Some c \<Rightarrow>
         if c \<ge> length (m_nodes b) then Inl Bad_access
         else case segments b cur npos (size_sub (length (m_nodes b ! c)) npos) sz of
                None \<Rightarrow> Inl Bad_access
              | Some r \<Rightarrow> Inr r)"

text \<open>\<^verbatim>\<open>read(buf, size)\<close> and \<^verbatim>\<open>read(buf, size, position)\<close>; the second starts at the current node
  whatever the position is.\<close>

definition ba_read :: "nat \<Rightarrow> byte_array \<Rightarrow> ba_error + (u8 option list \<times> byte_array)" where
  "ba_read sz b =
    (if sz > getReadSize b then Inl Out_of_range
     else if m_baseSize b = 0 then Inl Bad_access
     else case segments_from b (m_cur b) (m_position b mod m_baseSize b) sz of
            Inl e \<Rightarrow> Inl e
          | Inr (sgs, e) \<Rightarrow> Inr (concat (map (segment_cells b) sgs),
                             b\<lparr>m_cur := e, m_position := m_position b + sz\<rparr>))"

definition read_at :: "nat \<Rightarrow> nat \<Rightarrow> byte_array \<Rightarrow> ba_error + u8 option list" where
  "read_at sz position b =
    (if sz > getReadSize b then Inl Out_of_range
     else if m_baseSize b = 0 then Inl Bad_access
     else case segments_from b (m_cur b) (position mod m_baseSize b) sz of
            Inl e \<Rightarrow> Inl e
          | Inr (sgs, e) \<Rightarrow> Inr (concat (map (segment_cells b) sgs)))"

text \<open>The loop of \<^verbatim>\<open>setPosition\<close>.\<close>

fun position_loop :: "node list \<Rightarrow> nat \<Rightarrow> nat \<Rightarrow> ba_error + nat option" where
  "position_loop [] c val = Inl Bad_access"
| "position_loop (nd # nds) c val =
    (if val > length nd then position_loop nds (c + 1) (val - length nd)
     else if val = length nd then Inr (if nds = [] then None else Some (c + 1))
     else Inr (Some c))"

definition setPosition :: "nat \<Rightarrow> byte_array \<Rightarrow> ba_error + byte_array" where
  "setPosition val b =
    (if val > m_capacity b then Inl Out_of_range
     else
       let b = b\<lparr>m_position := val, m_size := (if val > m_size b then val else m_size b)\<rparr>
       in case position_loop (m_nodes b) 0 val of
            Inl e \<Rightarrow> Inl e
          | Inr cur \<Rightarrow> Inr (b\<lparr>m_cur := cur\<rparr>))"

definition toString :: "byte_array \<Rightarrow> ba_error + u8 option list" where
  "toString b =
    (if getReadSize b = 0 then Inr [] else read_at (getReadSize b) (m_position b) b)"

text \<open>The \<^verbatim>\<open>iovec\<close> functions; an \<^verbatim>\<open>iovec\<close> is a segment.\<close>

definition getReadBuffers ::
  "nat \<Rightarrow> byte_array \<Rightarrow> ba_error + ((nat \<times> nat \<times> nat) list \<times> nat)" where
  "getReadBuffers len b =
    (let len = (if len > getReadSize b then getReadSize b else len) in
     if len = 0 then Inr ([], 0)
     else if m_baseSize b = 0 then Inl Bad_access
     else case segments_from b (m_cur b) (m_position b mod m_baseSize b) len of
            Inl e \<Rightarrow> Inl e
          | Inr (sgs, _) \<Rightarrow> Inr (sgs, len))"

definition getReadBuffers_at ::
  "nat \<Rightarrow> nat \<Rightarrow> byte_array \<Rightarrow> ba_error + ((nat \<times> nat \<times> nat) list \<times> nat)" where
  "getReadBuffers_at len position b =
    (let len = (if len > getReadSize b then getReadSize b else len) in
     if len = 0 then Inr ([], 0)
     else if m_baseSize b = 0 then Inl Bad_access
     else
       let count = position div m_baseSize b in
       if count \<ge> length (m_nodes b) then Inl Bad_access
       else case segments_from b (Some count) (position mod m_baseSize b) len of
              Inl e \<Rightarrow> Inl e
            | Inr (sgs, _) \<Rightarrow> Inr (sgs, len))"

definition getWriteBuffers ::
  "nat \<Rightarrow> byte_array \<Rightarrow> ba_error + ((nat \<times> nat \<times> nat) list \<times> nat \<times> byte_array)" where
  "getWriteBuffers len b =
    (if len = 0 then Inr ([], 0, b)
     else if m_baseSize b = 0 then Inl Bad_access
     else
       let b = addCapacity len b in
       case segments_from b (m_cur b) (m_position b mod m_baseSize b) len of
         Inl e \<Rightarrow> Inl e
       | Inr (sgs, _) \<Rightarrow> Inr (sgs, len, b))"

section \<open>Integers of fixed width\<close>

definition write_fixed :: "'a::len word \<Rightarrow> byte_array \<Rightarrow> ba_error + byte_array" where
  "write_fixed v b = ba_write (to_le (if m_endian b \<noteq> SYLAR_BYTE_ORDER then byteswap v else v)) b"

definition writeFint8 :: "u8 \<Rightarrow> byte_array \<Rightarrow> ba_error + byte_array" where
  "writeFint8 v b = ba_write [v] b"

definition writeFuint8 :: "u8 \<Rightarrow> byte_array \<Rightarrow> ba_error + byte_array" where
  "writeFuint8 v b = ba_write [v] b"

definition writeFint16 :: "u16 \<Rightarrow> byte_array \<Rightarrow> ba_error + byte_array" where
  "writeFint16 v b = write_fixed v b"

text \<open>\<^verbatim>\<open>writeFuint16\<close> swaps its argument and writes nothing.\<close>

definition writeFuint16 :: "u16 \<Rightarrow> byte_array \<Rightarrow> ba_error + byte_array" where
  "writeFuint16 v b = (let v' = (if m_endian b \<noteq> SYLAR_BYTE_ORDER then byteswap v else v) in Inr b)"

definition writeFint32 :: "u32 \<Rightarrow> byte_array \<Rightarrow> ba_error + byte_array" where
  "writeFint32 v b = write_fixed v b"

definition writeFuint32 :: "u32 \<Rightarrow> byte_array \<Rightarrow> ba_error + byte_array" where
  "writeFuint32 v b = write_fixed v b"

definition writeFint64 :: "u64 \<Rightarrow> byte_array \<Rightarrow> ba_error + byte_array" where
  "writeFint64 v b = write_fixed v b"

definition writeFuint64 :: "u64 \<Rightarrow> byte_array \<Rightarrow> ba_error + byte_array" where
  "writeFuint64 v b = write_fixed v b"

text \<open>The macro \<^verbatim>\<open>XX\<close> of the readers.\<close>

definition read_bytes :: "nat \<Rightarrow> byte_array \<Rightarrow> ba_error + (u8 list \<times> byte_array)" where
  "read_bytes n b =
    (case ba_read n b of
       Inl e \<Rightarrow> Inl e
     | Inr (cells, b') \<Rightarrow>
         if None \<in> set cells then Inl Indeterminate else Inr (map the cells, b'))"

definition read_fixed :: "byte_array \<Rightarrow> ba_error + ('a::len word \<times> byte_array)" where
  "read_fixed b =
    (case read_bytes (LENGTH('a) div 8) b of
       Inl e \<Rightarrow> Inl e
     | Inr (bs, b') \<Rightarrow>
         Inr (if m_endian b = SYLAR_BYTE_ORDER then from_le bs else byteswap (from_le bs), b'))"

definition readFuint8 :: "byte_array \<Rightarrow> ba_error + (u8 \<times> byte_array)" where
  "readFuint8 b =
    (case read_bytes 1 b of Inl e \<Rightarrow> Inl e | Inr (bs, b') \<Rightarrow> Inr (hd bs, b'))"

definition readFint8 :: "byte_array \<Rightarrow> ba_error + (u8 \<times> byte_array)" where
  "readFint8 b = readFuint8 b"

definition readFuint16 :: "byte_array \<Rightarrow> ba_error + (u16 \<times> byte_array)" where
  "readFuint16 b = read_fixed b"

definition readFint16 :: "byte_array \<Rightarrow> ba_error + (u16 \<times> byte_array)" where
  "readFint16 b = read_fixed b"

definition readFuint32 :: "byte_array \<Rightarrow> ba_error + (u32 \<times> byte_array)" where
  "readFuint32 b = read_fixed b"

definition readFint32 :: "byte_array \<Rightarrow> ba_error + (u32 \<times> byte_array)" where
  "readFint32 b = read_fixed b"

definition readFuint64 :: "byte_array \<Rightarrow> ba_error + (u64 \<times> byte_array)" where
  "readFuint64 b = read_fixed b"

definition readFint64 :: "byte_array \<Rightarrow> ba_error + (u64 \<times> byte_array)" where
  "readFint64 b = read_fixed b"

section \<open>Integers of variable width\<close>

text \<open>\<^verbatim>\<open>-val\<close> of the smallest \<^verbatim>\<open>int32_t\<close> wraps around here (it is undefined in C++).\<close>

definition EncodeZigzag32 :: "u32 \<Rightarrow> u32" where
  "EncodeZigzag32 val = (if val <s 0 then (- val) * 2 - 1 else val * 2)"

text \<open>The result type of \<^verbatim>\<open>EncodeZigzag64\<close> is \<^verbatim>\<open>int32_t\<close>.\<close>

definition EncodeZigzag64 :: "u64 \<Rightarrow> u32" where
  "EncodeZigzag64 val = ucast (if val <s 0 then (- val) * 2 - 1 else val * 2)"

definition DecodeZigzag32 :: "u32 \<Rightarrow> u32" where
  "DecodeZigzag32 val = drop_bit 1 val XOR - (val AND 1)"

definition DecodeZigzag64 :: "u64 \<Rightarrow> u64" where
  "DecodeZigzag64 val = drop_bit 1 val XOR - (val AND 1)"

text \<open>The bytes \<^verbatim>\<open>writeUint32\<close> and \<^verbatim>\<open>writeUint64\<close> collect in \<^verbatim>\<open>tmp\<close>.\<close>

function varint32 :: "u32 \<Rightarrow> u8 list" where
  "varint32 v =
    (if v \<ge> 0x80 then ucast ((v AND 0x7F) OR 0x80) # varint32 (drop_bit 7 v) else [ucast v])"
  by pat_completeness auto
termination
  by (relation "measure unat") (auto simp: unat_drop_bit_eq drop_bit_nat_def word_le_nat_alt)

function varint64 :: "u64 \<Rightarrow> u8 list" where
  "varint64 v =
    (if v \<ge> 0x80 then ucast ((v AND 0x7F) OR 0x80) # varint64 (drop_bit 7 v) else [ucast v])"
  by pat_completeness auto
termination
  by (relation "measure unat") (auto simp: unat_drop_bit_eq drop_bit_nat_def word_le_nat_alt)

declare varint32.simps [simp del] varint64.simps [simp del]

text \<open>A \<^verbatim>\<open>tmp\<close> array that is too short is an access out of bounds.\<close>

definition writeUint32 :: "u32 \<Rightarrow> byte_array \<Rightarrow> ba_error + byte_array" where
  "writeUint32 v b = (if length (varint32 v) > 5 then Inl Bad_access else ba_write (varint32 v) b)"

definition writeUint64 :: "u64 \<Rightarrow> byte_array \<Rightarrow> ba_error + byte_array" where
  "writeUint64 v b = (if length (varint64 v) > 10 then Inl Bad_access else ba_write (varint64 v) b)"

definition writeInt32 :: "u32 \<Rightarrow> byte_array \<Rightarrow> ba_error + byte_array" where
  "writeInt32 v b = writeUint32 (EncodeZigzag32 (EncodeZigzag32 v)) b"

definition writeInt64 :: "u64 \<Rightarrow> byte_array \<Rightarrow> ba_error + byte_array" where
  "writeInt64 v b = writeUint64 (scast (EncodeZigzag64 v)) b"

text \<open>The loop of \<^verbatim>\<open>readUint32\<close>: it reads five bytes whatever their top bits are.\<close>

primrec read_varint32 :: "nat list \<Rightarrow> u32 \<Rightarrow> byte_array \<Rightarrow> ba_error + (u32 \<times> byte_array)" where
  "read_varint32 [] result b = Inr (result, b)"
| "read_varint32 (i # is) result b =
    (case readFuint8 b of
       Inl e \<Rightarrow> Inl e
     | Inr (x, b') \<Rightarrow>
         if x < 0x80 then read_varint32 is (result OR push_bit i (ucast x)) b'
         else read_varint32 is (result OR push_bit i (ucast (x AND 0x7F))) b')"

definition readUint32 :: "byte_array \<Rightarrow> ba_error + (u32 \<times> byte_array)" where
  "readUint32 b = read_varint32 [0, 7, 14, 21, 28] 0 b"

text \<open>The loop of \<^verbatim>\<open>readUint64\<close>, which ends at the first byte below \<^verbatim>\<open>0x80\<close>.\<close>

primrec read_varint64 :: "nat list \<Rightarrow> u64 \<Rightarrow> byte_array \<Rightarrow> ba_error + (u64 \<times> byte_array)" where
  "read_varint64 [] result b = Inr (result, b)"
| "read_varint64 (i # is) result b =
    (case readFuint8 b of
       Inl e \<Rightarrow> Inl e
     | Inr (x, b') \<Rightarrow>
         if x < 0x80 then Inr (result OR push_bit i (ucast x), b')
         else read_varint64 is (result OR push_bit i (ucast (x AND 0x7F))) b')"

definition readUint64 :: "byte_array \<Rightarrow> ba_error + (u64 \<times> byte_array)" where
  "readUint64 b = read_varint64 [0, 7, 14, 21, 28, 35, 42, 49, 56, 63] 0 b"

definition readInt32 :: "byte_array \<Rightarrow> ba_error + (u32 \<times> byte_array)" where
  "readInt32 b = map_sum id (map_prod DecodeZigzag32 id) (readUint32 b)"

definition readInt64 :: "byte_array \<Rightarrow> ba_error + (u64 \<times> byte_array)" where
  "readInt64 b = map_sum id (map_prod DecodeZigzag64 id) (readUint64 b)"

section \<open>Floating point numbers and strings\<close>

text \<open>Floating point numbers are handled by their bit patterns.\<close>

definition writeFloat :: "u32 \<Rightarrow> byte_array \<Rightarrow> ba_error + byte_array" where
  "writeFloat v b = writeFuint32 v b"

definition writeDouble :: "u64 \<Rightarrow> byte_array \<Rightarrow> ba_error + byte_array" where
  "writeDouble v b = writeFuint64 v b"

definition readFloat :: "byte_array \<Rightarrow> ba_error + (u32 \<times> byte_array)" where
  "readFloat b = readFuint32 b"

definition readDouble :: "byte_array \<Rightarrow> ba_error + (u64 \<times> byte_array)" where
  "readDouble b = readFuint64 b"

definition then_write ::
  "ba_error + byte_array \<Rightarrow> u8 list \<Rightarrow> ba_error + byte_array" where
  "then_write r s = (case r of Inl e \<Rightarrow> Inl e | Inr b \<Rightarrow> ba_write s b)"

definition writeStringF16 :: "u8 list \<Rightarrow> byte_array \<Rightarrow> ba_error + byte_array" where
  "writeStringF16 s b = then_write (writeFuint16 (of_nat (length s)) b) s"

definition writeStringF32 :: "u8 list \<Rightarrow> byte_array \<Rightarrow> ba_error + byte_array" where
  "writeStringF32 s b = then_write (writeFuint32 (of_nat (length s)) b) s"

definition writeStringF64 :: "u8 list \<Rightarrow> byte_array \<Rightarrow> ba_error + byte_array" where
  "writeStringF64 s b = then_write (writeFuint64 (of_nat (length s)) b) s"

definition writeStringVint :: "u8 list \<Rightarrow> byte_array \<Rightarrow> ba_error + byte_array" where
  "writeStringVint s b = then_write (writeUint64 (of_nat (length s)) b) s"

definition writeStringWithoutLength :: "u8 list \<Rightarrow> byte_array \<Rightarrow> ba_error + byte_array" where
  "writeStringWithoutLength s b = ba_write s b"

definition then_read ::
  "ba_error + ('a::len word \<times> byte_array) \<Rightarrow> ba_error + (u8 option list \<times> byte_array)" where
  "then_read r = (case r of Inl e \<Rightarrow> Inl e | Inr (len, b) \<Rightarrow> ba_read (unat len) b)"

definition readStringF16 :: "byte_array \<Rightarrow> ba_error + (u8 option list \<times> byte_array)" where
  "readStringF16 b = then_read (readFuint16 b)"

definition readStringF32 :: "byte_array \<Rightarrow> ba_error + (u8 option list \<times> byte_array)" where
  "readStringF32 b = then_read (readFuint32 b)"

definition readStringF64 :: "byte_array \<Rightarrow> ba_error + (u8 option list \<times> byte_array)" where
  "readStringF64 b = then_read (readFuint64 b)"

definition readStringVint :: "byte_array \<Rightarrow> ba_error + (u8 option list \<times> byte_array)" where
  "readStringVint b = then_read (readUint64 b)"

end
