(* ===== verification/ByteArrayProps.thy ===== *)
theory ByteArrayProps
  imports ByteArray
begin

text \<open>
  The byte array against a flat sequence of bytes: \<open>flat\<close> is the concatenation of the nodes and
  \<open>wf_ba\<close> ties the current node to the position.  Reads, positions, buffers and writes at a node
  boundary refine the operations on the sequence; \<open>codec\<close> is the contract of a writer and a reader of
  values, interpreted for the integers of fixed and of variable width.
\<close>

section \<open>Byte order\<close>

lemma bit_from_le:
  "bit (from_le bs :: 'a::len word) n \<longleftrightarrow>
     n < LENGTH('a) \<and> n div 8 < length bs \<and> bit (bs ! (n div 8)) (n mod 8)"
proof (induction bs arbitrary: n)
  case (Cons b bs)
  show ?case
  proof (cases "n < 8")
    case True
    then show ?thesis by (auto simp: bit_or_iff bit_push_bit_iff bit_unsigned_iff)
  next
    case False
    then obtain k where k: "n = k + 8" by (metis le_add_diff_inverse2 not_less)
    then have "n div 8 = Suc (k div 8)" by simp
    have "\<not> bit b n" using False by (auto dest: bit_imp_le_length)
    then show ?thesis
      using Cons.IH [of k] k \<open>n div 8 = Suc (k div 8)\<close>
      by (auto simp: bit_or_iff bit_push_bit_iff bit_unsigned_iff)
  qed
qed simp

lemma length_to_le [simp]: "length (to_le (w::'a::len word)) = LENGTH('a) div 8"
  by (simp add: to_le_def)

lemma bit_to_le:
  "i < LENGTH('a) div 8 \<Longrightarrow> bit (to_le (w::'a::len word) ! i) n \<longleftrightarrow> n < 8 \<and> bit w (8 * i + n)"
  by (auto simp: to_le_def bit_unsigned_iff bit_drop_bit_eq)

lemma from_to_le:
  assumes "8 dvd LENGTH('a)"
  shows "from_le (to_le w) = (w::'a::len word)"
proof (rule bit_word_eqI)
  fix n assume "n < LENGTH('a)"
  with assms have "n div 8 < LENGTH('a) div 8"
    by (metis div_less_iff_less_mult dvd_div_mult_self zero_less_numeral)
  with \<open>n < LENGTH('a)\<close> show "bit (from_le (to_le w) :: 'a word) n = bit w n"
    by (simp add: bit_from_le bit_to_le)
qed

lemma to_from_le:
  assumes "length bs * 8 = LENGTH('a)"
  shows "to_le (from_le bs :: 'a::len word) = bs"
proof (rule nth_equalityI)
  have len: "LENGTH('a) div 8 = length bs" using assms by (metis nonzero_mult_div_cancel_right zero_neq_numeral)
  then show "length (to_le (from_le bs :: 'a word)) = length bs" by simp
  fix i assume "i < length (to_le (from_le bs :: 'a word))"
  then have i: "i < length bs" using len by simp
  show "to_le (from_le bs :: 'a word) ! i = bs ! i"
  proof (rule bit_word_eqI)
    fix n assume "n < LENGTH(8)"
    then have "(8 * i + n) div 8 = i" "(8 * i + n) mod 8 = n" "8 * i + n < LENGTH('a)"
      using i assms by auto
    with i len \<open>n < LENGTH(8)\<close> show "bit (to_le (from_le bs :: 'a word) ! i) n = bit (bs ! i) n"
      by (simp add: bit_to_le bit_from_le)
  qed
qed

lemma byteswap_byteswap:
  assumes "8 dvd LENGTH('a)"
  shows "byteswap (byteswap w) = (w::'a::len word)"
proof -
  have "length (rev (to_le w)) * 8 = LENGTH('a)" using assms by simp
  then show ?thesis by (simp add: byteswap_def to_from_le from_to_le assms)
qed

section \<open>The array as one sequence of bytes\<close>

definition flat :: "byte_array \<Rightarrow> u8 option list" where
  "flat b = concat (m_nodes b)"

text \<open>The node a position lies in; the null pointer behind the last node.\<close>

definition cur_at :: "byte_array \<Rightarrow> nat \<Rightarrow> nat option" where
  "cur_at b p = (if p div m_baseSize b < length (m_nodes b) then Some (p div m_baseSize b) else None)"

definition nodes_ok :: "byte_array \<Rightarrow> bool" where
  "nodes_ok b \<longleftrightarrow> 0 < m_baseSize b \<and> m_nodes b \<noteq> [] \<and>
     (\<forall>nd \<in> set (m_nodes b). length nd = m_baseSize b)"

definition wf_ba :: "byte_array \<Rightarrow> bool" where
  "wf_ba b \<longleftrightarrow> nodes_ok b \<and> m_capacity b = length (m_nodes b) * m_baseSize b \<and>
     m_position b \<le> m_size b \<and> m_size b \<le> m_capacity b \<and> m_cur b = cur_at b (m_position b)"

lemma length_concat_same:
  "\<forall>nd \<in> set nds. length nd = n \<Longrightarrow> length (concat nds) = length nds * n"
  by (induction nds) auto

lemma drop_concat_same:
  "\<forall>nd \<in> set nds. length nd = n \<Longrightarrow> c < length nds \<Longrightarrow>
   drop (c * n) (concat nds) = nds ! c @ concat (drop (Suc c) nds)"
proof (induction nds arbitrary: c)
  case (Cons nd nds)
  then show ?case by (cases c) (auto simp: algebra_simps)
qed simp

lemma node_of_flat:
  assumes "nodes_ok b" "c < length (m_nodes b)" "npos + n \<le> m_baseSize b"
  shows "take n (drop (c * m_baseSize b + npos) (flat b)) = take n (drop npos (m_nodes b ! c))"
proof -
  have len: "length (m_nodes b ! c) = m_baseSize b" using assms(1,2) by (auto simp: nodes_ok_def)
  have "drop (c * m_baseSize b + npos) (flat b) = drop npos (drop (c * m_baseSize b) (flat b))"
    by (simp add: add.commute)
  also have "\<dots> = drop npos (m_nodes b ! c @ concat (drop (Suc c) (m_nodes b)))"
    using assms(1,2) by (simp add: flat_def drop_concat_same nodes_ok_def)
  finally show ?thesis using assms(3) len by simp
qed

lemma cur_at_inside:
  "nodes_ok b \<Longrightarrow> c < length (m_nodes b) \<Longrightarrow> npos < m_baseSize b \<Longrightarrow>
   cur_at b (c * m_baseSize b + npos) = Some c"
  by (simp add: cur_at_def nodes_ok_def)

lemma cur_at_next:
  "nodes_ok b \<Longrightarrow> cur_at b (c * m_baseSize b + m_baseSize b) = next_node b c"
  by (simp add: cur_at_def next_node_def nodes_ok_def)

lemma segments_ok:
  assumes "nodes_ok b" "c < length (m_nodes b)" "npos < m_baseSize b"
    and "c * m_baseSize b + npos + sz \<le> length (m_nodes b) * m_baseSize b"
  shows "\<exists>sgs. segments b (Some c) npos (m_baseSize b - npos) sz =
      Some (sgs, cur_at b (c * m_baseSize b + npos + sz)) \<and>
    concat (map (segment_cells b) sgs) = take sz (drop (c * m_baseSize b + npos) (flat b)) \<and>
    sum_list (map (\<lambda>(c, npos, n). n) sgs) = sz \<and>
    (\<forall>(c, off, n) \<in> set sgs. c < length (m_nodes b) \<and> off + n \<le> m_baseSize b)"
  using assms
proof (induction "length (m_nodes b) - c" arbitrary: c npos sz)
  case 0
  then show ?case by simp
next
  case (Suc k)
  let ?B = "m_baseSize b" and ?nd = "m_nodes b ! c"
  have len: "length (m_nodes b ! i) = ?B" if "i < length (m_nodes b)" for i
    using that Suc.prems(1) by (simp add: nodes_ok_def)
  show ?case
  proof (cases "sz \<le> ?B - npos")
    case True
    have fl: "take sz (drop (c * ?B + npos) (flat b)) = take sz (drop npos ?nd)"
      using True Suc.prems(3) by (intro node_of_flat [OF Suc.prems(1,2)]) simp
    show ?thesis
    proof (cases "sz = 0")
      case True
      then show ?thesis
        using cur_at_inside [OF Suc.prems(1,2,3)] by (subst segments.simps) simp
    next
      case False
      have e: "cur_at b (c * ?B + npos + sz) = (if ?B = npos + sz then next_node b c else Some c)"
        using True Suc.prems(3) cur_at_next [OF Suc.prems(1), of c]
          cur_at_inside [OF Suc.prems(1,2), of "npos + sz"]
        by (auto simp: add.assoc)
      show ?thesis
        using True False Suc.prems(2,3) len [OF Suc.prems(2)] fl e
        by (subst segments.simps) (auto simp: segment_cells_def)
    qed
  next
    case False
    then have c': "c + 1 < length (m_nodes b)"
    proof -
      have "c * ?B + ?B < length (m_nodes b) * ?B"
        using False Suc.prems(3,4) by linarith
      then have "(c + 1) * ?B < length (m_nodes b) * ?B" by simp
      then show ?thesis using mult_less_cancel2 by blast
    qed
    let ?n = "?B - npos"
    have pos: "(c + 1) * ?B + 0 = c * ?B + npos + ?n" using Suc.prems(3) by simp
    have "c + 1 < length (m_nodes b)" "0 < ?B" "k = length (m_nodes b) - (c + 1)"
      "(c + 1) * ?B + 0 + (sz - ?n) \<le> length (m_nodes b) * ?B"
      using c' Suc.hyps(2) Suc.prems False by auto
    then obtain sgs where sgs: "segments b (Some (c + 1)) 0 (?B - 0) (sz - ?n) =
        Some (sgs, cur_at b ((c + 1) * ?B + 0 + (sz - ?n)))"
      "concat (map (segment_cells b) sgs) = take (sz - ?n) (drop ((c + 1) * ?B + 0) (flat b))"
      "sum_list (map (\<lambda>(c, npos, n). n) sgs) = sz - ?n"
      "\<forall>(c, off, n) \<in> set sgs. c < length (m_nodes b) \<and> off + n \<le> ?B"
      using Suc.hyps(1) [OF _ Suc.prems(1), of "c + 1" 0 "sz - ?n"] by metis
    have fl: "take ?n (drop (c * ?B + npos) (flat b)) = take ?n (drop npos ?nd)"
      using Suc.prems(3) by (intro node_of_flat [OF Suc.prems(1,2)]) simp
    have "take sz (drop (c * ?B + npos) (flat b)) =
        take ?n (drop npos ?nd) @ take (sz - ?n) (drop ((c + 1) * ?B + 0) (flat b))"
      unfolding pos fl [symmetric] using False
      by (simp add: take_add [symmetric] add.commute flip: drop_drop)
    moreover have "segments b (Some c) npos ?n sz = Some ((c, npos, ?n) # sgs, cur_at b (c * ?B + npos + sz))"
    proof -
      have e: "(c + 1) * ?B + 0 + (sz - ?n) = c * ?B + npos + sz" using pos False by linarith
      have "sz \<noteq> 0" "\<not> sz \<le> ?n" "\<not> length (m_nodes b) \<le> c" "\<not> ?B < npos + ?n"
        using False Suc.prems(2,3) by simp_all
      moreover have "next_node b c = Some (c + 1)" using c' by (simp add: next_node_def)
      moreover have "segments b (Some (c + 1)) 0 ?B (sz - ?n) = Some (sgs, cur_at b (c * ?B + npos + sz))"
        using sgs(1) unfolding e by (simp only: diff_zero)
      ultimately show ?thesis
        using len [OF Suc.prems(2)] len [OF c']
        by (subst segments.simps) (simp only: if_False option.case prod.case)
    qed
    ultimately show ?thesis
      using sgs(2-4) False Suc.prems(2,3) by (auto simp: segment_cells_def)
  qed
qed

lemma getReadSize_wf: "wf_ba b \<Longrightarrow> getReadSize b = m_size b - m_position b"
  by (simp add: getReadSize_def size_sub_def wf_ba_def)

lemma getCapacity_wf: "wf_ba b \<Longrightarrow> getCapacity b = m_capacity b - m_position b"
  by (simp add: getCapacity_def size_sub_def wf_ba_def)

lemma length_flat: "wf_ba b \<Longrightarrow> length (flat b) = m_capacity b"
  by (simp add: flat_def wf_ba_def nodes_ok_def length_concat_same)

lemma segments_from_ok:
  assumes "nodes_ok b" "p + sz \<le> length (m_nodes b) * m_baseSize b"
    and "p < length (m_nodes b) * m_baseSize b"
  shows "\<exists>sgs. segments_from b (cur_at b p) (p mod m_baseSize b) sz = Inr (sgs, cur_at b (p + sz)) \<and>
    concat (map (segment_cells b) sgs) = take sz (drop p (flat b)) \<and>
    sum_list (map (\<lambda>(c, npos, n). n) sgs) = sz \<and>
    (\<forall>(c, off, n) \<in> set sgs. c < length (m_nodes b) \<and> off + n \<le> m_baseSize b)"
proof -
  let ?B = "m_baseSize b" and ?c = "p div m_baseSize b"
  have B: "0 < ?B" and len: "i < length (m_nodes b) \<Longrightarrow> length (m_nodes b ! i) = ?B" for i
    using assms(1) by (simp_all add: nodes_ok_def)
  have c: "?c < length (m_nodes b)" using assms(3) B by (simp add: div_less_iff_less_mult)
  have "?c * ?B + p mod ?B = p" by simp
  moreover have "p mod ?B < ?B" using B by simp
  ultimately have "\<exists>sgs. segments b (Some ?c) (p mod ?B) (?B - p mod ?B) sz = Some (sgs, cur_at b (p + sz)) \<and>
      concat (map (segment_cells b) sgs) = take sz (drop p (flat b)) \<and>
      sum_list (map (\<lambda>(c, npos, n). n) sgs) = sz \<and>
      (\<forall>(c, off, n) \<in> set sgs. c < length (m_nodes b) \<and> off + n \<le> ?B)"
    using segments_ok [OF assms(1) c, of "p mod ?B" sz] assms(2) by metis
  moreover have "cur_at b p = Some ?c" using c by (simp add: cur_at_def)
  ultimately show ?thesis
    using c len [OF c] \<open>p mod ?B < ?B\<close> by (auto simp: segments_from_def size_sub_def)
qed

lemma cur_at_upd [simp]:
  "cur_at (b\<lparr>m_cur := x\<rparr>) = cur_at b" "cur_at (b\<lparr>m_position := y\<rparr>) = cur_at b"
  "cur_at (b\<lparr>m_size := z\<rparr>) = cur_at b"
  "nodes_ok (b\<lparr>m_cur := x\<rparr>) = nodes_ok b" "nodes_ok (b\<lparr>m_position := y\<rparr>) = nodes_ok b"
  "nodes_ok (b\<lparr>m_size := z\<rparr>) = nodes_ok b"
  by (simp_all add: cur_at_def nodes_ok_def fun_eq_iff)

lemma read_flat:
  assumes "wf_ba b" "m_position b < m_capacity b"
  shows "if n \<le> m_size b - m_position b
    then \<exists>b'. ba_read n b = Inr (take n (drop (m_position b) (flat b)), b') \<and> wf_ba b' \<and>
           flat b' = flat b \<and> m_position b' = m_position b + n \<and> m_size b' = m_size b
    else ba_read n b = Inl Out_of_range"
proof (cases "n \<le> m_size b - m_position b")
  case True
  then have n: "m_position b + n \<le> m_size b" using assms(1) unfolding wf_ba_def by linarith
  have "nodes_ok b" "m_position b + n \<le> length (m_nodes b) * m_baseSize b"
    "m_position b < length (m_nodes b) * m_baseSize b" "0 < m_baseSize b"
    using assms n by (simp_all add: wf_ba_def nodes_ok_def)
  then obtain sgs where "segments_from b (m_cur b) (m_position b mod m_baseSize b) n =
      Inr (sgs, cur_at b (m_position b + n))"
    "concat (map (segment_cells b) sgs) = take n (drop (m_position b) (flat b))"
    using segments_from_ok [of b "m_position b" n] assms(1) by (auto simp: wf_ba_def)
  then have "ba_read n b = Inr (take n (drop (m_position b) (flat b)),
      b\<lparr>m_cur := cur_at b (m_position b + n), m_position := m_position b + n\<rparr>)"
    using True assms(1) \<open>0 < m_baseSize b\<close> by (simp add: ba_read_def getReadSize_wf)
  with True n assms(1) show ?thesis by (simp add: wf_ba_def flat_def)
next
  case False
  with assms(1) show ?thesis by (simp add: ba_read_def getReadSize_wf)
qed

lemma read_end:
  assumes "wf_ba b" "m_position b = m_capacity b"
  shows "ba_read 0 b = Inl Bad_access"
proof -
  have "m_cur b = None" "0 < m_baseSize b" using assms by (auto simp: wf_ba_def nodes_ok_def cur_at_def)
  then show ?thesis using assms by (simp add: ba_read_def segments_from_def)
qed

text \<open>
  C9. Reading refines reading from a flat sequence of bytes: on a well-formed array a request that
  asks for more than there is raises \<^verbatim>\<open>out_of_range\<close>; any other request returns the next bytes
  of the sequence, however they are spread over the nodes, and moves the position past them, unless the position
  is at the very end of the nodes, where the only request left, one of no bytes, goes through the null pointer
  \<^verbatim>\<open>m_cur\<close>.
\<close>

theorem read_refines:
  assumes "wf_ba b"
  shows "if m_size b - m_position b < n then ba_read n b = Inl Out_of_range
    else if m_position b = m_capacity b then ba_read n b = Inl Bad_access
    else \<exists>b'. ba_read n b = Inr (take n (drop (m_position b) (flat b)), b') \<and> wf_ba b' \<and>
      flat b' = flat b \<and> m_position b' = m_position b + n \<and> m_size b' = m_size b"
proof (cases "m_position b = m_capacity b")
  case True
  then have "m_size b - m_position b = 0" using assms by (simp add: wf_ba_def)
  then show ?thesis
    using read_end [OF assms True] assms True by (cases "n = 0") (simp_all add: ba_read_def getReadSize_wf)
next
  case False
  then have "m_position b < m_capacity b" using assms by (simp add: wf_ba_def)
  from read_flat [OF assms this, of n] show ?thesis using False by (auto simp: not_less)
qed

lemma position_loop_ok:
  assumes "0 < B" "nds \<noteq> []" "\<forall>nd \<in> set nds. length nd = B" "val \<le> length nds * B"
  shows "position_loop nds c val =
    Inr (if val div B < length nds then Some (c + val div B) else None)"
  using assms(2-4)
proof (induction nds arbitrary: c val)
  case (Cons nd nds)
  show ?case
  proof (cases "val > B")
    case True
    then have "nds \<noteq> []" "val - B \<le> length nds * B" using Cons.prems(3) by auto
    moreover have "val div B = Suc ((val - B) div B)"
      using True assms(1) by (metis div_if le_div_geq less_imp_le not_less_iff_gr_or_eq)
    ultimately show ?thesis
      using True Cons.IH [of "val - B" "c + 1"] Cons.prems(2) by simp
  next
    case False
    then show ?thesis
      using Cons.prems assms(1) by (cases "val = B") auto
  qed
qed simp

lemma setPosition_flat:
  assumes "wf_ba b"
  shows "if val \<le> m_capacity b
    then \<exists>b'. setPosition val b = Inr b' \<and> wf_ba b' \<and> flat b' = flat b \<and> m_position b' = val \<and>
           m_size b' = max val (m_size b)
    else setPosition val b = Inl Out_of_range"
proof (cases "val \<le> m_capacity b")
  case True
  let ?b = "b\<lparr>m_position := val, m_size := (if val > m_size b then val else m_size b)\<rparr>"
  have "position_loop (m_nodes b) 0 val = Inr (cur_at b val)"
    using position_loop_ok [of "m_baseSize b" "m_nodes b" val 0] assms True
    by (simp add: wf_ba_def nodes_ok_def cur_at_def)
  then have "setPosition val b = Inr (?b\<lparr>m_cur := cur_at b val\<rparr>)"
    using True by (simp add: setPosition_def Let_def)
  with True assms show ?thesis by (auto simp: wf_ba_def flat_def)
qed (simp add: setPosition_def)

text \<open>
  \<^verbatim>\<open>setPosition\<close> to any position within the capacity finds the node the position lies in, keeps
  the array well formed and its bytes unchanged, and raises the size if the position is behind it;
  a position behind the capacity is refused.
\<close>

theorem setPosition_ok:
  assumes "wf_ba b"
  shows "if val \<le> m_capacity b
    then \<exists>b'. setPosition val b = Inr b' \<and> wf_ba b' \<and> flat b' = flat b \<and> m_position b' = val \<and>
           m_size b' = max val (m_size b)
    else setPosition val b = Inl Out_of_range"
  by (rule setPosition_flat [OF assms])

section \<open>Room for more bytes\<close>

lemma addCapacity_wf:
  assumes "wf_ba b"
  shows "wf_ba (addCapacity sz b)" "m_position (addCapacity sz b) = m_position b"
    "m_size (addCapacity sz b) = m_size b" "m_baseSize (addCapacity sz b) = m_baseSize b"
    "m_endian (addCapacity sz b) = m_endian b"
    "\<exists>k. flat (addCapacity sz b) = flat b @ replicate k None"
proof -
  let ?B = "m_baseSize b" and ?old = "m_capacity b - m_position b"
  show "m_position (addCapacity sz b) = m_position b" "m_size (addCapacity sz b) = m_size b"
    "m_baseSize (addCapacity sz b) = m_baseSize b" "m_endian (addCapacity sz b) = m_endian b"
    by (simp_all add: addCapacity_def Let_def)
  have "concat (replicate n (new_node ?B)) = replicate (n * ?B) None" for n
    by (induction n) (simp_all add: new_node_def replicate_add)
  then show "\<exists>k. flat (addCapacity sz b) = flat b @ replicate k None"
    by (auto simp: addCapacity_def Let_def flat_def intro: exI [of _ 0])
  note W = assms [unfolded wf_ba_def nodes_ok_def]
  have div: "m_position b div ?B < length (m_nodes b) \<longleftrightarrow> ?old \<noteq> 0"
    using W by (auto simp: div_less_iff_less_mult)
  have full: "m_position b div ?B = length (m_nodes b)" if "?old = 0"
  proof -
    have "m_position b = length (m_nodes b) * ?B" using that W by linarith
    then show ?thesis using W by simp
  qed
  show "wf_ba (addCapacity sz b)"
    using W div full assms
    by (auto simp: addCapacity_def Let_def wf_ba_def nodes_ok_def cur_at_def getCapacity_wf new_node_def
          algebra_simps)
qed

lemma addCapacity_room:
  assumes "wf_ba b"
  shows "wf_ba (addCapacity sz b) \<and>
    (sz \<le> getCapacity (addCapacity sz b) \<longleftrightarrow>
      sz \<le> getCapacity b \<or> (sz - getCapacity b) mod m_baseSize b = 0 \<or>
      getCapacity b < (sz - getCapacity b) mod m_baseSize b)"
proof (cases "sz \<le> getCapacity b")
  case True
  then have "addCapacity sz b = b" by (simp add: addCapacity_def)
  with True assms show ?thesis by simp
next
  case False
  let ?B = "m_baseSize b" and ?old = "getCapacity b" and ?m = "sz - getCapacity b"
  let ?count = "?m div ?B + (if ?m mod ?B > ?old then 1 else 0)"
  have pos: "m_position b \<le> m_capacity b" "0 < ?B" using assms by (auto simp: wf_ba_def nodes_ok_def)
  have cap: "getCapacity (addCapacity sz b) = ?old + ?count * ?B"
  proof -
    have "m_capacity (addCapacity sz b) = m_capacity b + ?count * ?B"
      using False by (simp add: addCapacity_def Let_def del: mult_Suc)
    then show ?thesis
      using pos(1) addCapacity_wf(2) [OF assms, of sz]
      unfolding getCapacity_wf [OF addCapacity_wf(1) [OF assms]] getCapacity_wf [OF assms] by linarith
  qed
  define q r where "q = ?m div ?B" and "r = ?m mod ?B"
  have "?m = q * ?B + r" unfolding q_def r_def by simp
  then have m: "sz = ?old + (q * ?B + r)" using False by linarith
  have r: "r < ?B" using pos by (simp add: r_def)
  have "sz \<le> ?old + (q + (if r > ?old then 1 else 0)) * ?B \<longleftrightarrow> r = 0 \<or> ?old < r"
    using m r by (auto simp: algebra_simps)
  then have "sz \<le> ?old + ?count * ?B \<longleftrightarrow> ?m mod ?B = 0 \<or> ?old < ?m mod ?B"
    unfolding q_def r_def .
  then show ?thesis using cap addCapacity_wf(1) [OF assms] False by simp
qed

text \<open>
  \<^verbatim>\<open>addCapacity\<close> keeps the array well formed, and it makes room for \<open>sz\<close> more bytes exactly when
  the missing number of bytes is zero, a multiple of the node size, or leaves a remainder larger
  than the room there was before: the test of the remainder compares with \<^verbatim>\<open>old_cap\<close> and not with 0.
\<close>

theorem addCapacity_enough_iff:
  assumes "wf_ba b"
  shows "wf_ba (addCapacity sz b) \<and>
    (sz \<le> getCapacity (addCapacity sz b) \<longleftrightarrow>
      sz \<le> getCapacity b \<or> (sz - getCapacity b) mod m_baseSize b = 0 \<or>
      getCapacity b < (sz - getCapacity b) mod m_baseSize b)"
  by (rule addCapacity_room [OF assms])

lemma concat_update_same:
  "\<forall>nd \<in> set nds. length nd = n \<Longrightarrow> c < length nds \<Longrightarrow>
   concat (nds[c := x]) = take (c * n) (concat nds) @ x @ drop (c * n + n) (concat nds)"
proof (induction nds arbitrary: c)
  case (Cons nd nds)
  then show ?case by (cases c) (auto simp: algebra_simps)
qed simp

lemma addCapacity_aligned:
  assumes "wf_ba b" "m_position b mod m_baseSize b = 0" "sz \<le> m_baseSize b"
  shows "m_position b + sz \<le> m_capacity (addCapacity sz b)"
    "0 < sz \<Longrightarrow> m_position b < m_capacity (addCapacity sz b)"
proof -
  let ?B = "m_baseSize b" and ?old = "getCapacity b"
  have W: "m_capacity b = length (m_nodes b) * ?B" "m_position b \<le> m_capacity b" "0 < ?B"
    using assms(1) by (auto simp: wf_ba_def nodes_ok_def)
  have "?B dvd ?old" using W(1) assms(2) by (simp add: getCapacity_wf [OF assms(1)] mod_0_imp_dvd)
  then have "?old = 0 \<or> ?B \<le> ?old" by (auto dest: dvd_imp_le)
  then have "sz \<le> getCapacity (addCapacity sz b)"
    using addCapacity_room [OF assms(1), of sz] assms(3) by auto
  then show le: "m_position b + sz \<le> m_capacity (addCapacity sz b)"
    using addCapacity_wf(1-3) [OF assms(1), of sz] getCapacity_wf [OF addCapacity_wf(1) [OF assms(1)], of sz]
    by (simp add: wf_ba_def) linarith
  then show "0 < sz \<Longrightarrow> m_position b < m_capacity (addCapacity sz b)" by simp
qed

lemma write_flat:
  assumes "wf_ba b" "m_position b mod m_baseSize b = 0" "buf \<noteq> []" "length buf \<le> m_baseSize b"
  shows "\<exists>b' k. ba_write buf b = Inr b' \<and> wf_ba b' \<and> m_position b' = m_position b + length buf \<and>
    m_size b' = max (m_size b) (m_position b + length buf) \<and> m_endian b' = m_endian b \<and>
    flat b' = take (m_position b) (flat b) @ map Some buf @
      drop (m_position b + length buf) (flat b @ replicate k None)"
proof -
  let ?a = "addCapacity (length buf) b" and ?B = "m_baseSize b" and ?p = "m_position b"
  note A = addCapacity_wf [OF assms(1), of "length buf"]
  have room: "?p + length buf \<le> m_capacity ?a" "?p < m_capacity ?a"
    using addCapacity_aligned [OF assms(1,2,4)] assms(3) by auto
  let ?c = "?p div ?B"
  have W: "0 < ?B" "\<forall>nd \<in> set (m_nodes ?a). length nd = ?B" "m_capacity ?a = length (m_nodes ?a) * ?B"
    "m_cur ?a = cur_at ?a ?p" "m_size ?a \<le> m_capacity ?a" "nodes_ok ?a"
    using A by (auto simp: wf_ba_def nodes_ok_def)
  have c: "?c < length (m_nodes ?a)" "?p = ?c * ?B"
    using W(1,3) room(2) assms(2) by (simp_all add: div_less_iff_less_mult) auto
  then have cur: "m_cur ?a = Some ?c" and len: "length (m_nodes ?a ! ?c) = ?B"
    using W(2,4) A(4) by (simp_all add: cur_at_def)
  let ?b1 = "?a\<lparr>m_nodes := (m_nodes ?a)[?c := node_store 0 buf (m_nodes ?a ! ?c)],
      m_cur := (if ?B = length buf then next_node ?a ?c else Some ?c),
      m_position := ?p + length buf\<rparr>"
  let ?b' = "if m_position ?b1 > m_size ?b1 then ?b1\<lparr>m_size := m_position ?b1\<rparr> else ?b1"
  have loop: "write_loop buf 0 ?B 0 (length buf) ?a = Inr ?b1"
    using assms(3,4) cur c(1) len A(2) by (subst write_loop.simps) (simp add: Let_def)
  have run: "ba_write buf b = Inr ?b'"
    using assms(2,3) W(1) cur c(1) len loop A(2,4)
    by (simp add: ba_write_def Let_def size_sub_def)
  obtain k where k: "flat ?a = flat b @ replicate k None" using A(6) by blast
  have fl: "flat ?b1 = take ?p (flat ?a) @ map Some buf @ drop (?p + length buf) (flat ?a)"
  proof -
    have rest: "drop (?c * ?B) (flat ?a) = m_nodes ?a ! ?c @ concat (drop (Suc ?c) (m_nodes ?a))"
      using drop_concat_same [OF W(2) c(1)] by (simp add: flat_def)
    have "drop (?p + length buf) (flat ?a) = drop (length buf) (drop (?c * ?B) (flat ?a))"
      using c(2) by (simp add: add.commute)
    also have "\<dots> = drop (length buf) (m_nodes ?a ! ?c) @ drop (?c * ?B + ?B) (flat ?a)"
      using rest len assms(4) by (simp add: add.commute flip: drop_drop)
    finally show ?thesis
      using concat_update_same [OF W(2) c(1), of "node_store 0 buf (m_nodes ?a ! ?c)"] c(2)
      by (simp add: flat_def node_store_def)
  qed
  have "nodes_ok ?b1"
    using W(2,6) len c(1) assms(4) A(4)
    by (auto simp: nodes_ok_def node_store_def dest!: set_update_subset_insert [THEN subsetD])
  moreover have "cur_at ?b1 (?p + length buf) = (if ?B = length buf then next_node ?a ?c else Some ?c)"
  proof -
    have "cur_at ?b1 = cur_at ?a" by (simp add: cur_at_def fun_eq_iff)
    moreover have "cur_at ?a (?c * ?B + length buf) = (if ?B = length buf then next_node ?a ?c else Some ?c)"
      using cur_at_next [OF W(6), of ?c] cur_at_inside [OF W(6) c(1), of "length buf"] assms(4)
      unfolding A(4) by (cases "?B = length buf") simp_all
    ultimately show ?thesis using c(2) by simp
  qed
  ultimately have "wf_ba ?b'"
    using A(1-4) room(1) W(3) by (auto simp: wf_ba_def)
  moreover have "flat ?b' = flat ?b1" by (simp add: flat_def)
  moreover have "take ?p (flat ?a) = take ?p (flat b)"
    using k length_flat [OF assms(1)] assms(1) by (simp add: wf_ba_def)
  ultimately show ?thesis
    using run fl k A(2,3,5) by (intro exI [of _ ?b'] exI [of _ k]) auto
qed

text \<open>
  A write at the start of a node that fits into one node stores its bytes: the array stays well
  formed, the bytes are found at the old position, everything else is unchanged (new cells are
  unwritten), and position and size move past the written bytes.
\<close>

theorem write_at_node_start:
  assumes "wf_ba b" "m_position b mod m_baseSize b = 0" "buf \<noteq> []" "length buf \<le> m_baseSize b"
  shows "\<exists>b' k. ba_write buf b = Inr b' \<and> wf_ba b' \<and> m_position b' = m_position b + length buf \<and>
    m_size b' = max (m_size b) (m_position b + length buf) \<and> m_endian b' = m_endian b \<and>
    flat b' = take (m_position b) (flat b) @ map Some buf @
      drop (m_position b + length buf) (flat b @ replicate k None)"
  by (rule write_flat [OF assms])

text \<open>
  A write that starts inside a node and fits into the rest of it reads its source outside the
  buffer it was given: the copy starts at \<^verbatim>\<open>buf + npos\<close>, where \<^verbatim>\<open>npos\<close> is the offset in the node.
\<close>

theorem write_inside_node_bad:
  assumes "wf_ba b" "m_position b mod m_baseSize b \<noteq> 0" "buf \<noteq> []"
    and "m_position b mod m_baseSize b + length buf \<le> m_baseSize b"
  shows "ba_write buf b = Inl Bad_access"
proof -
  let ?B = "m_baseSize b" and ?p = "m_position b" and ?c = "m_position b div m_baseSize b"
  have W: "0 < ?B" "\<forall>nd \<in> set (m_nodes b). length nd = ?B" "m_capacity b = length (m_nodes b) * ?B"
    "m_cur b = cur_at b ?p" "?p \<le> m_capacity b"
    using assms(1) by (auto simp: wf_ba_def nodes_ok_def)
  have "?p \<noteq> m_capacity b" using assms(2) W(3) by auto
  then have c: "?c < length (m_nodes b)" using W(1,3,5) by (simp add: div_less_iff_less_mult)
  then have "(?c + 1) * ?B \<le> m_capacity b" unfolding W(3) by (intro mult_le_mono1) simp
  moreover have "?p = ?c * ?B + ?p mod ?B" by simp
  ultimately have "?p + length buf \<le> m_capacity b"
    using assms(4) unfolding add_mult_distrib mult_1 by linarith
  then have "addCapacity (length buf) b = b"
    by (simp add: addCapacity_def getCapacity_wf [OF assms(1)] Let_def)
  moreover have "length (m_nodes b ! ?c) = ?B" "m_cur b = Some ?c" using W(2,4) c by (simp_all add: cur_at_def)
  moreover have "write_loop buf (?p mod ?B) (?B - ?p mod ?B) 0 (length buf) b = Inl Bad_access"
    using assms(2-4) c calculation by (subst write_loop.simps) (simp add: Let_def)
  ultimately show ?thesis
    using assms(3,4) W(1) c by (simp add: ba_write_def Let_def size_sub_def)
qed

section \<open>Round trips\<close>

lemma write_back:
  assumes "wf_ba b" "m_position b mod m_baseSize b = 0" "buf \<noteq> []" "length buf \<le> m_baseSize b"
  shows "\<exists>b1 b2. ba_write buf b = Inr b1 \<and> setPosition (m_position b) b1 = Inr b2 \<and> wf_ba b2 \<and>
    m_endian b2 = m_endian b \<and> m_position b2 = m_position b \<and>
    m_position b + length buf \<le> m_size b2 \<and>
    take (length buf) (drop (m_position b) (flat b2)) = map Some buf"
proof -
  let ?p = "m_position b"
  obtain b1 k where b1: "ba_write buf b = Inr b1" "wf_ba b1" "m_position b1 = ?p + length buf"
    "m_size b1 = max (m_size b) (?p + length buf)" "m_endian b1 = m_endian b"
    "flat b1 = take ?p (flat b) @ map Some buf @ drop (?p + length buf) (flat b @ replicate k None)"
    using write_flat [OF assms] by blast
  have "?p \<le> m_capacity b1" using b1(2,3) by (auto simp: wf_ba_def)
  then obtain b2 where b2: "setPosition ?p b1 = Inr b2" "wf_ba b2" "flat b2 = flat b1" "m_position b2 = ?p"
    "m_size b2 = max ?p (m_size b1)"
    using setPosition_flat [OF b1(2), of ?p] by auto
  have e: "m_endian b2 = m_endian b1" using b2(1) by (auto simp: setPosition_def Let_def split: if_splits sum.splits)
  have "length (take ?p (flat b)) = ?p" using assms(1) length_flat [OF assms(1)] by (simp add: wf_ba_def)
  then have "take (length buf) (drop ?p (flat b2)) = map Some buf" using b1(6) b2(3) by simp
  with b1 b2 e show ?thesis by auto
qed

text \<open>
  The contract between a writer and a reader of values: the reader returns the value whose encoding
  lies at the current position.  Every such pair survives a round trip through the array.
\<close>

locale codec =
  fixes encode :: "nat \<Rightarrow> 'v \<Rightarrow> u8 list"
    and reader :: "byte_array \<Rightarrow> ba_error + ('v \<times> byte_array)"
  assumes encode_nonempty: "encode en v \<noteq> []"
    and reader_decodes:
      "wf_ba b \<Longrightarrow> m_position b + length (encode (m_endian b) v) \<le> m_size b \<Longrightarrow>
       take (length (encode (m_endian b) v)) (drop (m_position b) (flat b)) =
         map Some (encode (m_endian b) v) \<Longrightarrow>
       \<exists>b'. reader b = Inr (v, b') \<and> m_position b' = m_position b + length (encode (m_endian b) v)"
begin

lemma roundtrip:
  assumes "wf_ba b" "m_position b mod m_baseSize b = 0"
    and "length (encode (m_endian b) v) \<le> m_baseSize b"
  shows "\<exists>b1 b2 b3. ba_write (encode (m_endian b) v) b = Inr b1 \<and>
    setPosition (m_position b) b1 = Inr b2 \<and> reader b2 = Inr (v, b3) \<and>
    m_position b3 = m_position b + length (encode (m_endian b) v)"
proof -
  obtain b1 b2 where "ba_write (encode (m_endian b) v) b = Inr b1" "setPosition (m_position b) b1 = Inr b2"
    "wf_ba b2" "m_endian b2 = m_endian b" "m_position b2 = m_position b"
    "m_position b + length (encode (m_endian b) v) \<le> m_size b2"
    "take (length (encode (m_endian b) v)) (drop (m_position b) (flat b2)) = map Some (encode (m_endian b) v)"
    using write_back [OF assms(1,2) encode_nonempty assms(3)] by blast
  with reader_decodes [of b2 v] show ?thesis by auto
qed

end

definition fixed_bytes :: "nat \<Rightarrow> 'a::len word \<Rightarrow> u8 list" where
  "fixed_bytes en v = to_le (if en \<noteq> SYLAR_BYTE_ORDER then byteswap v else v)"

lemma write_fixed_bytes: "write_fixed v b = ba_write (fixed_bytes (m_endian b) v) b"
  by (simp add: write_fixed_def fixed_bytes_def)

lemma read_fixed_decodes:
  fixes v :: "'a::len word"
  assumes "8 dvd LENGTH('a)" "wf_ba b"
    and "m_position b + length (fixed_bytes (m_endian b) v) \<le> m_size b"
    and "take (length (fixed_bytes (m_endian b) v)) (drop (m_position b) (flat b)) =
           map Some (fixed_bytes (m_endian b) v)"
  shows "\<exists>b'. read_fixed b = Inr (v, b') \<and> m_position b' = m_position b + length (fixed_bytes (m_endian b) v)"
proof -
  have len: "length (fixed_bytes (m_endian b) v) = LENGTH('a) div 8" by (simp add: fixed_bytes_def)
  have "8 \<le> LENGTH('a)" using assms(1) by (simp add: dvd_imp_le)
  then have "0 < LENGTH('a) div 8" by simp
  then have "m_position b < m_capacity b" using assms(2,3) len unfolding wf_ba_def by linarith
  then obtain b' where b': "ba_read (LENGTH('a) div 8) b = Inr (map Some (fixed_bytes (m_endian b) v), b')"
    "m_position b' = m_position b + LENGTH('a) div 8"
    using read_flat [OF assms(2), of "LENGTH('a) div 8"] assms(3,4) len by (auto split: if_split_asm)
  then have "read_bytes (LENGTH('a) div 8) b = Inr (fixed_bytes (m_endian b) v, b')"
    by (auto simp: read_bytes_def comp_def)
  then show ?thesis
    using b'(2) len
    by (auto simp: read_fixed_def fixed_bytes_def from_to_le [OF assms(1)] byteswap_byteswap [OF assms(1)])
qed

lemma fixed_bytes_nonempty:
  "8 dvd LENGTH('a) \<Longrightarrow> fixed_bytes en (v::'a::len word) \<noteq> []"
  using dvd_imp_le [of 8 "LENGTH('a)"] by (auto simp: fixed_bytes_def to_le_def)

interpretation fixed16: codec fixed_bytes "readFint16"
  by unfold_locales (simp_all add: fixed_bytes_nonempty readFint16_def read_fixed_decodes)

interpretation fixed32: codec fixed_bytes "readFuint32"
  by unfold_locales (simp_all add: fixed_bytes_nonempty readFuint32_def read_fixed_decodes)

interpretation fixed64: codec fixed_bytes "readFuint64"
  by unfold_locales (simp_all add: fixed_bytes_nonempty readFuint64_def read_fixed_decodes)

interpretation fixed8: codec "\<lambda>_ v. [v]" readFuint8
proof
  show "\<exists>b'. readFuint8 b = Inr (v, b') \<and> m_position b' = m_position b + length [v]"
    if "wf_ba b" "m_position b + length [v] \<le> m_size b" "take (length [v]) (drop (m_position b) (flat b)) = map Some [v]"
    for b and v :: u8
  proof -
    have "m_position b < m_capacity b" "Suc 0 \<le> m_size b - m_position b" using that(1,2) by (auto simp: wf_ba_def)
    then show ?thesis
      using read_flat [OF that(1), of "Suc 0"] that(3) by (auto simp: readFuint8_def read_bytes_def)
  qed
qed simp

interpretation fixed32s: codec fixed_bytes "readFint32"
  by unfold_locales (simp_all add: fixed_bytes_nonempty readFint32_def read_fixed_decodes)

interpretation fixed64s: codec fixed_bytes "readFint64"
  by unfold_locales (simp_all add: fixed_bytes_nonempty readFint64_def read_fixed_decodes)

text \<open>What is written is read again from the same position, and takes \<open>n\<close> bytes.\<close>

definition comes_back ::
  "('v \<Rightarrow> byte_array \<Rightarrow> ba_error + byte_array) \<Rightarrow> (byte_array \<Rightarrow> ba_error + ('v \<times> byte_array)) \<Rightarrow> nat \<Rightarrow>
   'v \<Rightarrow> byte_array \<Rightarrow> bool" where
  "comes_back writer reader n v b \<longleftrightarrow>
    (\<exists>b1 b2 b3. writer v b = Inr b1 \<and> setPosition (m_position b) b1 = Inr b2 \<and> reader b2 = Inr (v, b3) \<and>
      m_position b3 = m_position b + n)"

text \<open>
  C24. Integers of fixed width survive a round trip: written at the start of a node that has room for them and
  read back from the same position, signed and unsigned integers of 8, 32 and 64 bits and signed ones of 16 bits
  come back the same, for either byte order of the array, and take as many bytes as their width.  The one
  exception is \<^verbatim>\<open>writeFuint16\<close>, which leaves the array as it was.
\<close>

theorem fixed_roundtrip:
  assumes "wf_ba b" "m_position b mod m_baseSize b = 0"
  shows "comes_back writeFint8 readFint8 1 c b \<and> comes_back writeFuint8 readFuint8 1 c b \<and>
    (2 \<le> m_baseSize b \<longrightarrow> comes_back writeFint16 readFint16 2 v b) \<and>
    (4 \<le> m_baseSize b \<longrightarrow> comes_back writeFint32 readFint32 4 w b \<and> comes_back writeFuint32 readFuint32 4 w b) \<and>
    (8 \<le> m_baseSize b \<longrightarrow> comes_back writeFint64 readFint64 8 z b \<and> comes_back writeFuint64 readFuint64 8 z b) \<and>
    writeFuint16 v b = Inr b"
proof -
  have "1 \<le> m_baseSize b" using assms(1) by (auto simp: wf_ba_def nodes_ok_def)
  then have "comes_back writeFint8 readFint8 1 c b" "comes_back writeFuint8 readFuint8 1 c b"
    using fixed8.roundtrip [OF assms(1,2), of c]
    by (simp_all add: comes_back_def writeFint8_def writeFuint8_def readFint8_def [abs_def])
  moreover have "comes_back writeFint16 readFint16 2 v b" if "2 \<le> m_baseSize b"
    using fixed16.roundtrip [OF assms(1,2), of v] that
    by (simp add: comes_back_def writeFint16_def write_fixed_bytes) (simp add: fixed_bytes_def)
  moreover have "comes_back writeFint32 readFint32 4 w b" "comes_back writeFuint32 readFuint32 4 w b" if "4 \<le> m_baseSize b"
    using fixed32.roundtrip [OF assms(1,2), of w] fixed32s.roundtrip [OF assms(1,2), of w] that
    by (simp_all add: comes_back_def writeFint32_def writeFuint32_def write_fixed_bytes) (simp_all add: fixed_bytes_def)
  moreover have "comes_back writeFint64 readFint64 8 z b" "comes_back writeFuint64 readFuint64 8 z b" if "8 \<le> m_baseSize b"
    using fixed64.roundtrip [OF assms(1,2), of z] fixed64s.roundtrip [OF assms(1,2), of z] that
    by (simp_all add: comes_back_def writeFint64_def writeFuint64_def write_fixed_bytes) (simp_all add: fixed_bytes_def)
  ultimately show ?thesis by (simp add: writeFuint16_def Let_def)
qed

lemma unat_drop_seven: "unat (drop_bit 7 (w::'a::len word)) = unat w div 128"
  by (simp add: unat_drop_bit_eq drop_bit_nat_def)

lemma u8_low_half: "(x::u8) < 0x80 \<longleftrightarrow> \<not> bit x 7"
proof -
  have "bit x 7 \<longleftrightarrow> bit (unat x) 7" by (simp add: bit_unsigned_iff)
  also have "\<dots> \<longleftrightarrow> odd (unat x div 128)" by (simp add: bit_iff_odd)
  finally have "bit x 7 \<longleftrightarrow> odd (unat x div 128)" .
  moreover have "unat x < 256" using unsigned_less [of x, where 'a = nat] by simp
  then have "unat x div 128 = 0 \<or> unat x div 128 = 1" by auto
  ultimately show ?thesis by (auto simp: word_less_nat_alt)
qed

lemma varint_byte:
  fixes w :: u64
  shows "\<not> (ucast ((w AND 0x7F) OR 0x80) :: u8) < 0x80"
    "ucast ((ucast ((w AND 0x7F) OR 0x80) :: u8) AND 0x7F) = w AND 0x7F"
    "w < 0x80 \<Longrightarrow> (ucast w :: u8) < 0x80" "w < 0x80 \<Longrightarrow> ucast (ucast w :: u8) = w"
proof -
  have m: "(0x7F::u64) = mask 7" "(0x7F::u8) = mask 7"
    by (simp_all add: mask_eq_exp_minus_1)
  have "(0x80::u64) = 2 ^ 7" by simp
  then have top: "bit (0x80::u64) n \<longleftrightarrow> n = 7" for n
    by (simp only: bit_exp_iff) auto
  have "(0x80::u8) = 2 ^ 7" by simp
  then have top8: "bit (0x80::u8) n \<longleftrightarrow> n = 7" for n
    by (simp only: bit_exp_iff) auto
  have "(0x80::int) = 2 ^ 7" by simp
  then have topi: "bit (0x80::int) n \<longleftrightarrow> n = 7" for n
    by (simp only: bit_exp_iff) auto
  show "\<not> (ucast ((w AND 0x7F) OR 0x80) :: u8) < 0x80"
    unfolding u8_low_half m by (simp add: bit_simps top)
  show "ucast ((ucast ((w AND 0x7F) OR 0x80) :: u8) AND 0x7F) = w AND 0x7F"
    unfolding m by (rule bit_word_eqI) (auto simp: bit_simps top top8 topi)
  assume "w < 0x80"
  then have *: "unat w < 128" by (simp add: word_less_nat_alt)
  then show "(ucast w :: u8) < 0x80" by (simp add: word_less_nat_alt unsigned_ucast_eq take_bit_nat_eq_self)
  show "ucast (ucast w :: u8) = w"
    using * by (simp add: word_unat_eq_iff unsigned_ucast_eq unsigned_take_bit_eq take_bit_nat_eq_self)
qed

lemma length_varint64: "unat v < 128 ^ k \<Longrightarrow> 0 < k \<Longrightarrow> length (varint64 v) \<le> k"
proof (induction v arbitrary: k rule: varint64.induct)
  case (1 v)
  show ?case
  proof (cases "v \<ge> 0x80")
    case True
    then have "128 \<le> unat v" by (simp add: word_le_nat_alt)
    then obtain j where j: "k = Suc (Suc j)"
      using "1.prems" by (cases k; cases "k - 1") auto
    have "unat (drop_bit 7 v) < 128 ^ Suc j"
      unfolding unat_drop_seven using "1.prems"(1) j by (simp add: less_mult_imp_div_less mult.commute)
    with "1.IH" [OF True, of "Suc j"] True j show ?thesis by (subst varint64.simps) simp
  next
    case False
    with "1.prems" show ?thesis by (subst varint64.simps) simp
  qed
qed

lemma length_varint32: "unat v < 128 ^ k \<Longrightarrow> 0 < k \<Longrightarrow> length (varint32 v) \<le> k"
proof (induction v arbitrary: k rule: varint32.induct)
  case (1 v)
  show ?case
  proof (cases "v \<ge> 0x80")
    case True
    then have "128 \<le> unat v" by (simp add: word_le_nat_alt)
    then obtain j where j: "k = Suc (Suc j)"
      using "1.prems" by (cases k; cases "k - 1") auto
    have "unat (drop_bit 7 v) < 128 ^ Suc j"
      unfolding unat_drop_seven using "1.prems"(1) j by (simp add: less_mult_imp_div_less mult.commute)
    with "1.IH" [OF True, of "Suc j"] True j show ?thesis by (subst varint32.simps) simp
  next
    case False
    with "1.prems" show ?thesis by (subst varint32.simps) simp
  qed
qed

text \<open>
  The temporary arrays are large enough: an encoded 32-bit number has at most five bytes and an
  encoded 64-bit number at most ten, so \<^verbatim>\<open>writeUint32\<close> and \<^verbatim>\<open>writeUint64\<close> never write past them.
\<close>

theorem varint_fits:
  "length (varint32 v) \<le> 5 \<and> writeUint32 v b = ba_write (varint32 v) b \<and>
   length (varint64 w) \<le> 10 \<and> writeUint64 w b = ba_write (varint64 w) b"
proof -
  have "unat v < 128 ^ 5" using unsigned_less [of v, where 'a = nat] by simp
  then have "length (varint32 v) \<le> 5" by (rule length_varint32) simp
  moreover have "unat w < 128 ^ 10" using unsigned_less [of w, where 'a = nat] by simp
  then have "length (varint64 w) \<le> 10" by (rule length_varint64) simp
  ultimately show ?thesis by (simp add: writeUint32_def writeUint64_def)
qed

lemma readFuint8_flat:
  assumes "wf_ba b" "m_position b < m_size b" "flat b ! m_position b = Some x"
  shows "\<exists>b'. readFuint8 b = Inr (x, b') \<and> wf_ba b' \<and> flat b' = flat b \<and>
    m_position b' = m_position b + 1 \<and> m_size b' = m_size b"
proof -
  have cap: "m_position b < m_capacity b" using assms(1,2) by (simp add: wf_ba_def)
  have "take 1 (drop (m_position b) (flat b)) = [Some x]"
    using assms(3) cap length_flat [OF assms(1)] by (simp add: take_Suc_conv_app_nth hd_drop_conv_nth take_Suc)
  then show ?thesis
    using read_flat [OF assms(1) cap, of 1] assms(2)
    by (auto simp: readFuint8_def read_bytes_def split: if_split_asm)
qed

lemma seven_bit_split: "push_bit i (w AND 0x7F) OR push_bit (i + 7) (drop_bit 7 w) = push_bit i (w::u64)"
proof -
  have m: "(0x7F::u64) = mask 7" by (simp add: mask_eq_exp_minus_1)
  show ?thesis
  proof (rule bit_word_eqI)
    fix n
    have "7 + (n - (i + 7)) = n - i" if "i + 7 \<le> n" using that by simp
    then show "bit (push_bit i (w AND 0x7F) OR push_bit (i + 7) (drop_bit 7 w)) n = bit (push_bit i w) n"
      unfolding m by (cases "n < i + 7") (auto simp: bit_simps not_less)
  qed
qed

lemma read_varint64_ok:
  assumes "wf_ba b" "j < 10" "unat w < 128 ^ (10 - j)"
    and "m_position b + length (varint64 w) \<le> m_size b"
    and "take (length (varint64 w)) (drop (m_position b) (flat b)) = map Some (varint64 w)"
  shows "\<exists>b'. read_varint64 (map (\<lambda>k. 7 * k) [j..<10]) res b = Inr (res OR push_bit (7 * j) w, b') \<and>
    m_position b' = m_position b + length (varint64 w)"
  using assms
proof (induction w arbitrary: b j res rule: varint64.induct)
  case (1 w)
  let ?p = "m_position b"
  have upt: "map (\<lambda>k. 7 * k) [j..<10] = 7 * j # map (\<lambda>k. 7 * k) [j + 1..<10]"
    using "1.prems"(2) by (simp add: upt_conv_Cons)
  have cell: "?p < m_size b \<and> flat b ! ?p = Some (hd (varint64 w))"
  proof -
    have ne: "varint64 w \<noteq> []" by (subst varint64.simps) simp
    then have lt: "?p < m_size b" using "1.prems"(4) by (cases "varint64 w") auto
    have "?p < length (flat b)" using lt length_flat [OF "1.prems"(1)] "1.prems"(1) by (simp add: wf_ba_def)
    then have "hd (take (length (varint64 w)) (drop ?p (flat b))) = flat b ! ?p"
      using ne by (simp add: hd_drop_conv_nth)
    with "1.prems"(5) ne lt show ?thesis by (simp add: hd_map)
  qed
  then obtain b' where b': "readFuint8 b = Inr (hd (varint64 w), b')" "wf_ba b'" "flat b' = flat b"
    "m_position b' = ?p + 1" "m_size b' = m_size b"
    using readFuint8_flat [OF "1.prems"(1)] by blast
  show ?case
  proof (cases "w \<ge> 0x80")
    case True
    let ?x = "ucast ((w AND 0x7F) OR 0x80) :: u8" and ?w = "drop_bit 7 w"
    have v: "varint64 w = ?x # varint64 ?w" using True by (subst varint64.simps) simp
    obtain i where i: "10 - j = Suc (Suc i)"
    proof (cases "10 - j = 1")
      case True
      with "1.prems"(3) \<open>w \<ge> 0x80\<close> show ?thesis by (simp add: word_le_nat_alt)
    next
      case False
      with "1.prems"(2) that [of "8 - j"] show ?thesis by simp
    qed
    have lt: "unat ?w < 128 ^ (10 - (j + 1))" "j + 1 < 10"
    proof -
      have "10 - (j + 1) = Suc i" using i by simp
      then show "unat ?w < 128 ^ (10 - (j + 1))" "j + 1 < 10"
        unfolding unat_drop_seven using "1.prems"(3) i by (simp_all add: less_mult_imp_div_less mult.commute)
    qed
    have "take (length (varint64 ?w)) (drop (?p + 1) (flat b)) = map Some (varint64 ?w)"
      using arg_cong [OF "1.prems"(5), of tl] v by (simp add: tl_take drop_Suc [symmetric] tl_drop flip: drop_drop)
    then have "\<exists>b''. read_varint64 (map (\<lambda>k. 7 * k) [j + 1..<10]) (res OR push_bit (7 * j) (w AND 0x7F)) b' =
        Inr ((res OR push_bit (7 * j) (w AND 0x7F)) OR push_bit (7 * (j + 1)) ?w, b'') \<and>
        m_position b'' = m_position b' + length (varint64 ?w)"
      using b' "1.prems"(4) v lt by (intro "1.IH" [OF True b'(2)]) simp_all
    then show ?thesis
      using b' v seven_bit_split [of "7 * j" w] unfolding upt
      by (auto simp: varint_byte or.assoc add.commute)
  next
    case False
    then have "varint64 w = [ucast w]" by (subst varint64.simps) simp
    with b' False show ?thesis unfolding upt by (simp add: varint_byte)
  qed
qed

lemma readUint64_decodes:
  assumes "wf_ba b" "m_position b + length (varint64 v) \<le> m_size b"
    and "take (length (varint64 v)) (drop (m_position b) (flat b)) = map Some (varint64 v)"
  shows "\<exists>b'. readUint64 b = Inr (v, b') \<and> m_position b' = m_position b + length (varint64 v)"
proof -
  have "unat v < 128 ^ 10" using unsigned_less [of v, where 'a = nat] by simp
  moreover have "map (\<lambda>k. 7 * k) [0..<10] = [0, 7, 14, 21, 28, 35, 42, 49, 56, 63::nat]" by (simp add: upt_rec)
  ultimately show ?thesis
    using read_varint64_ok [OF assms(1), of 0 v 0] assms(2,3) by (auto simp: readUint64_def)
qed

lemma varint64_nonempty: "varint64 v \<noteq> []"
  by (subst varint64.simps) simp

interpretation var64: codec "\<lambda>en. varint64" readUint64
  by unfold_locales (simp_all add: varint64_nonempty readUint64_decodes)

text \<open>
  64-bit numbers of variable width survive a round trip: \<^verbatim>\<open>writeUint64\<close> at the start of a node
  of at least ten bytes, then \<^verbatim>\<open>readUint64\<close> from the same position, gives the same number and leaves
  the position behind its last byte.
\<close>

theorem varint64_roundtrip:
  assumes "wf_ba b" "m_position b mod m_baseSize b = 0" "10 \<le> m_baseSize b"
  shows "\<exists>b1 b2 b3. writeUint64 v b = Inr b1 \<and> setPosition (m_position b) b1 = Inr b2 \<and>
    readUint64 b2 = Inr (v, b3) \<and> m_position b3 = m_position b + length (varint64 v)"
proof -
  have "unat v < 128 ^ 10" using unsigned_less [of v, where 'a = nat] by simp
  then have len: "length (varint64 v) \<le> 10" by (rule length_varint64) simp
  with var64.roundtrip [OF assms(1,2), of v] assms(3) show ?thesis by (simp add: writeUint64_def)
qed

section \<open>Zigzag numbers\<close>

text \<open>Decoding after encoding, for any word length.\<close>

lemma zigzag_decode:
  fixes v :: "'a::len word"
  assumes "e = (if v <s 0 then (- v) * 2 - 1 else v * 2)"
  shows "drop_bit 1 e XOR - (e AND 1) = v"
proof -
  have neg: "v <s 0 \<longleftrightarrow> bit v (LENGTH('a) - 1)"
    by (simp add: word_sless_alt bit_last_iff)
  have twice: "v * 2 = push_bit 1 v" by (simp add: push_bit_eq_mult)
  have bits: "bit (v * 2) n \<longleftrightarrow> 0 < n \<and> n < LENGTH('a) \<and> bit v (n - 1)" for n
    unfolding twice by (simp only: bit_push_bit_iff possible_bit_word) auto
  have last: "n = LENGTH('a) - 1" if "n < LENGTH('a)" "\<not> Suc n < LENGTH('a)" for n
    using that by simp
  show ?thesis
  proof (cases "v <s 0")
    case True
    have "e = NOT (v * 2)"
      using True assms by (simp add: not_eq_complement)
    moreover have "NOT (v * 2) AND 1 = 1"
      by (rule bit_word_eqI) (auto simp: bit_simps bits)
    ultimately show ?thesis
      using True neg last by (intro bit_word_eqI) (auto simp: bit_simps bits)
  next
    case False
    then have "e = v * 2" using assms by simp
    moreover have "v * 2 AND 1 = 0"
      by (rule bit_word_eqI) (auto simp: bit_simps bits)
    ultimately show ?thesis
      using False neg last by (intro bit_word_eqI) (auto simp: bit_simps bits)
  qed
qed

lemma zigzag64_small:
  fixes w :: u64
  assumes "- (2 ^ 30) \<le> sint w" "sint w < 2 ^ 30"
  shows "scast (EncodeZigzag64 w) = (if w <s 0 then (- w) * 2 - 1 else w * 2)"
proof -
  let ?k = "sint w"
  define m :: int where "m = (if ?k < 0 then - ?k * 2 - 1 else ?k * 2)"
  have m: "0 \<le> m" "m < 2 ^ 31" using assms by (auto simp: m_def)
  have w: "w = word_of_int ?k" by simp
  have z: "(if w <s 0 then (- w) * 2 - 1 else w * 2) = word_of_int m"
    unfolding m_def by (subst (2 3) w) (simp add: word_sless_alt)
  have "EncodeZigzag64 w = word_of_int m"
    unfolding EncodeZigzag64_def z using m by (simp add: unsigned_of_int take_bit_int_eq_self)
  moreover have "sint (word_of_int m :: u32) = m"
    using m by (simp add: signed_of_int signed_take_bit_int_eq_self)
  ultimately show ?thesis unfolding z by (metis scast_eq)
qed

text \<open>
  The zigzag code of 32-bit numbers is inverted by its decoder on every number; the 64-bit code,
  whose result type has only 32 bits, on the numbers from \<open>- 2 ^ 30\<close> up to \<open>2 ^ 30 - 1\<close>.
\<close>

theorem zigzag_inverse:
  "DecodeZigzag32 (EncodeZigzag32 v) = v \<and>
   (- (2 ^ 30) \<le> sint w \<and> sint w < 2 ^ 30 \<longrightarrow> DecodeZigzag64 (scast (EncodeZigzag64 w)) = w)"
  unfolding DecodeZigzag32_def EncodeZigzag32_def DecodeZigzag64_def
  using zigzag_decode [OF refl, of v] zigzag_decode [OF zigzag64_small, of w] by blast

section \<open>Buffers for vectored input and output\<close>

lemma wf_ba_read_room:
  assumes "wf_ba b" "0 < n" "n \<le> m_size b - m_position b"
  shows "nodes_ok b" "m_position b + n \<le> length (m_nodes b) * m_baseSize b"
    "m_position b < length (m_nodes b) * m_baseSize b" "0 < m_baseSize b" "m_cur b = cur_at b (m_position b)"
  using assms by (auto simp: wf_ba_def nodes_ok_def)

text \<open>
  \<^verbatim>\<open>getReadBuffers\<close> describes exactly the bytes a read would return: the buffers lie inside their
  nodes, their lengths add up to the returned number (the request cut down to what there is), and
  their contents one after the other are the next bytes of the array; \<^verbatim>\<open>toString\<close> returns all
  remaining bytes and changes nothing.
\<close>

theorem getReadBuffers_refines:
  assumes "wf_ba b" "n = min len (m_size b - m_position b)"
  shows "(\<exists>sgs. getReadBuffers len b = Inr (sgs, n) \<and>
      sum_list (map (\<lambda>(c, off, k). k) sgs) = n \<and>
      concat (map (segment_cells b) sgs) = take n (drop (m_position b) (flat b)) \<and>
      (\<forall>(c, off, k) \<in> set sgs. c < length (m_nodes b) \<and> off + k \<le> m_baseSize b)) \<and>
    toString b = Inr (take (m_size b - m_position b) (drop (m_position b) (flat b)))"
proof
  show "\<exists>sgs. getReadBuffers len b = Inr (sgs, n) \<and> sum_list (map (\<lambda>(c, off, k). k) sgs) = n \<and>
      concat (map (segment_cells b) sgs) = take n (drop (m_position b) (flat b)) \<and>
      (\<forall>(c, off, k) \<in> set sgs. c < length (m_nodes b) \<and> off + k \<le> m_baseSize b)"
  proof (cases "n = 0")
    case True
    then show ?thesis using assms by (auto simp: getReadBuffers_def getReadSize_wf Let_def min_def split: if_splits)
  next
    case False
    have len: "(if len > getReadSize b then getReadSize b else len) = n"
      using assms by (simp add: getReadSize_wf min_def)
    have R: "nodes_ok b" "m_position b + n \<le> length (m_nodes b) * m_baseSize b"
      "m_position b < length (m_nodes b) * m_baseSize b" "0 < m_baseSize b" "m_cur b = cur_at b (m_position b)"
      using wf_ba_read_room [OF assms(1), of n] False assms(2) by auto
    show ?thesis
      using segments_from_ok [OF R(1-3)] R(4,5) False
      by (auto simp: getReadBuffers_def Let_def len)
  qed
  show "toString b = Inr (take (m_size b - m_position b) (drop (m_position b) (flat b)))"
  proof (cases "m_size b - m_position b = 0")
    case True
    then show ?thesis using assms(1) by (simp add: toString_def getReadSize_wf)
  next
    case False
    have R: "nodes_ok b" "m_position b + (m_size b - m_position b) \<le> length (m_nodes b) * m_baseSize b"
      "m_position b < length (m_nodes b) * m_baseSize b" "0 < m_baseSize b" "m_cur b = cur_at b (m_position b)"
      using wf_ba_read_room [OF assms(1), of "m_size b - m_position b"] False by auto
    show ?thesis
      using segments_from_ok [OF R(1-3)] R(4,5) False assms(1)
      by (auto simp: toString_def read_at_def getReadSize_wf)
  qed
qed

section \<open>Instances\<close>

lemma wf_ba_new: "0 < n \<Longrightarrow> wf_ba (ByteArray_new n)"
  by (simp add: wf_ba_def nodes_ok_def cur_at_def ByteArray_new_def new_node_def)

text \<open>\<^verbatim>\<open>clear\<close> frees all nodes but the first and keeps \<^verbatim>\<open>m_capacity\<close>, so a later write can run off the
  chain.\<close>

lemma clear_keeps_capacity:
  "case getWriteBuffers 8 (ByteArray_new 4) of
     Inr (sgs, n, b) \<Rightarrow> ba_write [1, 2, 3, 4, 5] (ba_clear b) = Inl Bad_access
   | Inl e \<Rightarrow> False"
  by code_simp

text \<open>\<^verbatim>\<open>writeStringF16\<close> writes no length, and \<^verbatim>\<open>writeStringF32\<close> fails on its second write.\<close>

lemma strings_broken:
  "map_sum id flat (writeStringF16 [7, 8] (ByteArray_new 8)) =
     Inr [Some 7, Some 8, None, None, None, None, None, None]"
  "writeStringF32 [7, 8] (ByteArray_new 8) = Inl Bad_access"
  by code_simp+

text \<open>\<^verbatim>\<open>EncodeZigzag64\<close> cuts its result to 32 bits.\<close>

lemma zigzag64_truncates: "DecodeZigzag64 (scast (EncodeZigzag64 0x80000000)) = 0"
  by code_simp

text \<open>\<^verbatim>\<open>writeInt32\<close> encodes twice, so \<^verbatim>\<open>readInt32\<close> does not give the number back.\<close>

lemma writeInt32_encodes_twice:
  "writeInt32 1 b = writeUint32 4 b" "DecodeZigzag32 4 = 2"
  by (simp_all add: writeInt32_def EncodeZigzag32_def DecodeZigzag32_def word_sless_alt)

definition sample_ba :: byte_array where
  "sample_ba =
    \<lparr>m_baseSize = 2, m_position = 1, m_capacity = 4, m_size = 4, m_endian = 2,
     m_nodes = [[Some 1, Some 2], [Some 3, Some 4]], m_cur = Some 0\<rparr>"

lemma sample_ba_wf: "wf_ba sample_ba"
  by (simp add: wf_ba_def nodes_ok_def cur_at_def sample_ba_def)

theorem read_refines_witness:
  "\<exists>b'. ba_read 2 sample_ba = Inr ([Some 2, Some 3], b') \<and> wf_ba b' \<and> m_position b' = 3"
  using read_refines [OF sample_ba_wf, of 2] by (auto simp: sample_ba_def flat_def)

theorem setPosition_ok_witness:
  "\<exists>b'. setPosition 2 sample_ba = Inr b' \<and> wf_ba b' \<and> m_position b' = 2"
  using setPosition_ok [OF sample_ba_wf, of 2] by (auto simp: sample_ba_def)

theorem addCapacity_enough_iff_witness:
  "wf_ba (addCapacity 4 sample_ba) \<and> \<not> 4 \<le> getCapacity (addCapacity 4 sample_ba)"
  using addCapacity_enough_iff [OF sample_ba_wf, of 4]
  by (simp add: getCapacity_wf [OF sample_ba_wf]) (simp add: sample_ba_def)

theorem write_at_node_start_witness:
  "\<exists>b'. ba_write [5, 6, 7] (ByteArray_new 4) = Inr b' \<and> wf_ba b' \<and> m_position b' = 3 \<and>
     take 3 (flat b') = [Some 5, Some 6, Some 7]"
  using write_at_node_start [OF wf_ba_new, of 4 "[5, 6, 7]"]
  by (auto simp: ByteArray_new_def)

theorem write_inside_node_bad_witness: "ba_write [9] sample_ba = Inl Bad_access"
  using write_inside_node_bad [OF sample_ba_wf, of "[9]"] by (simp add: sample_ba_def)

theorem fixed_roundtrip_witness:
  "comes_back writeFint8 readFint8 1 5 (ByteArray_new 8) \<and> comes_back writeFint16 readFint16 2 0x0102 (ByteArray_new 8) \<and>
   comes_back writeFuint32 readFuint32 4 0x01020304 (ByteArray_new 8) \<and>
   comes_back writeFint64 readFint64 8 (- 1) (ByteArray_new 8)"
  using fixed_roundtrip [OF wf_ba_new, of 8 5 "0x0102" "0x01020304" "- 1"] by (simp add: ByteArray_new_def)

theorem varint64_roundtrip_witness:
  "\<exists>b1 b2 b3. writeUint64 300 (ByteArray_new 16) = Inr b1 \<and> setPosition 0 b1 = Inr b2 \<and>
     readUint64 b2 = Inr (300, b3)"
  using varint64_roundtrip [OF wf_ba_new, of 16 300] by (auto simp: ByteArray_new_def)

theorem zigzag_inverse_witness:
  "DecodeZigzag32 (EncodeZigzag32 (- 5)) = - 5 \<and> DecodeZigzag64 (scast (EncodeZigzag64 (- 5))) = - 5"
  using zigzag_inverse [of "- 5" "- 5"] by simp

theorem getReadBuffers_refines_witness:
  "\<exists>sgs. getReadBuffers 2 sample_ba = Inr (sgs, 2) \<and>
     concat (map (segment_cells sample_ba) sgs) = [Some 2, Some 3]"
  using getReadBuffers_refines [OF sample_ba_wf, of 2 2] by (auto simp: sample_ba_def flat_def)

end
