(* ===== verification/StdSet.thy ===== *)
theory StdSet
  imports Prelude
begin

text \<open>
  \<^verbatim>\<open>std::set\<close> and \<^verbatim>\<open>std::map\<close> with a user-supplied comparison: the container is the list of its
  elements in order, and its operations only use the comparison \<open>lt\<close>.  The locale \<open>std_set\<close> is what
  the standard requires of the comparison, with what the container then guarantees.
\<close>

section \<open>Operations\<close>

primrec set_insert :: "('a \<Rightarrow> 'a \<Rightarrow> bool) \<Rightarrow> 'a \<Rightarrow> 'a list \<Rightarrow> 'a list" where
  "set_insert lt x [] = [x]"
| "set_insert lt x (y # ys) =
    (if lt y x then y # set_insert lt x ys else if lt x y then x # y # ys else y # ys)"

text \<open>\<^verbatim>\<open>lower_bound\<close> as the elements before it and the elements from it on.\<close>

definition below_bound :: "('a \<Rightarrow> 'a \<Rightarrow> bool) \<Rightarrow> 'a \<Rightarrow> 'a list \<Rightarrow> 'a list" where
  "below_bound lt x ys = takeWhile (\<lambda>y. lt y x) ys"

definition from_bound :: "('a \<Rightarrow> 'a \<Rightarrow> bool) \<Rightarrow> 'a \<Rightarrow> 'a list \<Rightarrow> 'a list" where
  "from_bound lt x ys = dropWhile (\<lambda>y. lt y x) ys"

text \<open>\<^verbatim>\<open>find\<close>: the element at the lower bound, if it is not above \<open>x\<close>.\<close>

definition set_find :: "('a \<Rightarrow> 'a \<Rightarrow> bool) \<Rightarrow> 'a \<Rightarrow> 'a list \<Rightarrow> 'a option" where
  "set_find lt x ys =
    (case from_bound lt x ys of [] \<Rightarrow> None | y # _ \<Rightarrow> if lt x y then None else Some y)"

definition set_erase :: "'a \<Rightarrow> 'a list \<Rightarrow> 'a list" where
  "set_erase x ys = remove1 x ys"

section \<open>The contract\<close>

text \<open>A strict order in which two different elements are always comparable.\<close>

locale std_set =
  fixes lt :: "'a \<Rightarrow> 'a \<Rightarrow> bool"
  assumes lt_irrefl: "\<not> lt x x"
    and lt_trans: "lt x y \<Longrightarrow> lt y z \<Longrightarrow> lt x z"
    and lt_total: "x \<noteq> y \<Longrightarrow> lt x y \<or> lt y x"
begin

lemma lt_asym: "lt x y \<Longrightarrow> \<not> lt y x"
  using lt_irrefl lt_trans by blast

lemma sorted_distinct: "sorted_wrt lt xs \<Longrightarrow> distinct xs"
  by (induction xs) (auto simp: lt_irrefl)

lemma set_set_insert: "set (set_insert lt x xs) = insert x (set xs)"
  by (induction xs) (use lt_total in auto)

lemma set_insert_sorted: "sorted_wrt lt xs \<Longrightarrow> sorted_wrt lt (set_insert lt x xs)"
  by (induction xs) (auto simp: set_set_insert dest: lt_trans)

lemma set_insert_at_front:
  "sorted_wrt lt xs \<Longrightarrow> x \<notin> set xs \<Longrightarrow> hd (set_insert lt x xs) = x \<longleftrightarrow> (\<forall>y \<in> set xs. lt x y)"
  by (cases xs) (use lt_total lt_asym in \<open>auto dest: lt_trans\<close>)

lemma set_find_iff:
  assumes "sorted_wrt lt xs"
  shows "set_find lt x xs = (if x \<in> set xs then Some x else None)"
  using assms
proof (induction xs)
  case (Cons y ys)
  show ?case
  proof (cases "lt y x")
    case True
    then have "set_find lt x (y # ys) = set_find lt x ys" by (simp add: set_find_def from_bound_def)
    with Cons True lt_irrefl show ?thesis by auto
  next
    case False
    then have "set_find lt x (y # ys) = (if lt x y then None else Some y)"
      by (simp add: set_find_def from_bound_def)
    moreover have "x \<notin> set ys" using Cons.prems False by auto
    ultimately show ?thesis using False lt_total lt_irrefl by auto
  qed
qed (simp add: set_find_def from_bound_def)

lemma set_erase_sorted: "sorted_wrt lt xs \<Longrightarrow> sorted_wrt lt (set_erase x xs)"
  by (induction xs) (auto simp: set_erase_def dest: set_remove1_subset [THEN subsetD])

lemma set_set_erase: "sorted_wrt lt xs \<Longrightarrow> set (set_erase x xs) = set xs - {x}"
  using sorted_distinct [of xs] by (simp add: set_erase_def)

end

end
