(* ===== verification/Address.thy ===== *)
theory Address
  imports ByteArrayProps StdSet Http
begin

text \<open>
  \<^verbatim>\<open>address.cpp\<close> and \<^verbatim>\<open>address.h\<close>: socket addresses.  The class hierarchy below \<^verbatim>\<open>Address\<close> is a
  datatype, the C structures the classes wrap are records, and \<^verbatim>\<open>const sockaddr*\<close>, through which the
  code and the system exchange addresses of any family, is the sequence of bytes it points to; a cast to
  a concrete structure decodes these bytes.  Undefined shifts, accesses outside of an array and the
  thrown \<^verbatim>\<open>std::logic_error\<close> are errors.  \<^verbatim>\<open>getaddrinfo\<close>, \<^verbatim>\<open>getifaddrs\<close> and \<^verbatim>\<open>inet_pton\<close> are arguments.
\<close>

section \<open>Masks\<close>

datatype addr_error = Undefined_shift | Out_of_bounds | Null_pointer | Path_too_long

text \<open>
  \<^verbatim>\<open>1 << n\<close> is a shift of an \<^verbatim>\<open>int\<close>: from 32 bits on it is undefined, and for 31 bits the subtraction that
  follows overflows.  The shift count is computed as a \<^verbatim>\<open>size_t\<close>.
\<close>

definition CreateMask :: "u32 \<Rightarrow> addr_error + 'a::len word" where
  "CreateMask bits =
    (let n = of_nat LENGTH('a) - (ucast bits :: u64) in
     if n < 31 then Inr (of_nat (2 ^ unat n - 1)) else Inl Undefined_shift)"

lemma unat_and_le: "unat (a AND b) \<le> unat (b::'a::len word)"
  by (metis word_and_le1 word_le_nat_alt)

lemma clear_lowest_less: "w \<noteq> 0 \<Longrightarrow> unat (w AND (w - 1)) < unat (w::'a::len word)"
  using unat_and_le [of w "w - 1"] unat_gt_0 [of w] by (auto simp: unat_minus_one)

function count_loop :: "'a::len word \<Rightarrow> u32 \<Rightarrow> u32" where
  "count_loop value result =
    (if value = 0 then result else count_loop (value AND (value - 1)) (result + 1))"
  by auto
termination
  by (relation "measure (\<lambda>(value, _). unat value)") (auto simp: clear_lowest_less)

declare count_loop.simps [simp del]

definition CountBytes :: "'a::len word \<Rightarrow> u32" where
  "CountBytes value = count_loop value 0"

section \<open>Structures\<close>

definition AF_UNSPEC :: u16 where "AF_UNSPEC = 0"
definition AF_UNIX :: u16 where "AF_UNIX = 1"
definition AF_INET :: u16 where "AF_INET = 2"
definition AF_INET6 :: u16 where "AF_INET6 = 10"

record sockaddr_in =
  sin_family :: u16
  sin_port :: u16
  s_addr :: u32
  sin_zero :: "u8 list"

record sockaddr_in6 =
  sin6_family :: u16
  sin6_port :: u16
  sin6_flowinfo :: u32
  s6_addr :: "u8 list"
  sin6_scope_id :: u32

record sockaddr_un =
  sun_family :: u16
  sun_path :: "char list"

record sockaddr =
  sa_family :: u16
  sa_data :: "u8 list"

datatype Address =
    IPv4Address sockaddr_in
  | IPv6Address sockaddr_in6
  | UnixAddress sockaddr_un u32
  | UnknownAddress sockaddr

text \<open>The bytes of the structures, and the structures that given bytes are read as.\<close>

definition bytes_in :: "sockaddr_in \<Rightarrow> u8 list" where
  "bytes_in a = to_le (sin_family a) @ to_le (sin_port a) @ to_le (s_addr a) @ sin_zero a"

definition bytes_in6 :: "sockaddr_in6 \<Rightarrow> u8 list" where
  "bytes_in6 a = to_le (sin6_family a) @ to_le (sin6_port a) @ to_le (sin6_flowinfo a) @ s6_addr a @
    to_le (sin6_scope_id a)"

definition bytes_un :: "sockaddr_un \<Rightarrow> u8 list" where
  "bytes_un a = to_le (sun_family a) @ map of_char (sun_path a)"

definition bytes_sa :: "sockaddr \<Rightarrow> u8 list" where
  "bytes_sa a = to_le (sa_family a) @ sa_data a"

definition as_in :: "u8 list \<Rightarrow> addr_error + sockaddr_in" where
  "as_in bs =
    (if length bs < 16 then Inl Out_of_bounds
     else Inr \<lparr>sin_family = from_le (take 2 bs), sin_port = from_le (slice_of 2 2 bs),
               s_addr = from_le (slice_of 4 4 bs), sin_zero = slice_of 8 8 bs\<rparr>)"

definition as_in6 :: "u8 list \<Rightarrow> addr_error + sockaddr_in6" where
  "as_in6 bs =
    (if length bs < 28 then Inl Out_of_bounds
     else Inr \<lparr>sin6_family = from_le (take 2 bs), sin6_port = from_le (slice_of 2 2 bs),
               sin6_flowinfo = from_le (slice_of 4 4 bs), s6_addr = slice_of 8 16 bs,
               sin6_scope_id = from_le (slice_of 24 4 bs)\<rparr>)"

definition getAddr :: "Address \<Rightarrow> u8 list" where
  "getAddr a = (case a of
      IPv4Address s \<Rightarrow> bytes_in s
    | IPv6Address s \<Rightarrow> bytes_in6 s
    | UnixAddress s _ \<Rightarrow> bytes_un s
    | UnknownAddress s \<Rightarrow> bytes_sa s)"

definition getAddrLen :: "Address \<Rightarrow> u32" where
  "getAddrLen a = (case a of
      IPv4Address _ \<Rightarrow> 16 | IPv6Address _ \<Rightarrow> 28 | UnixAddress _ n \<Rightarrow> n | UnknownAddress _ \<Rightarrow> 16)"

definition family_of :: "u8 list \<Rightarrow> u16" where
  "family_of bs = from_le (take 2 bs)"

definition getFamily :: "Address \<Rightarrow> u16" where
  "getFamily a = family_of (getAddr a)"

section \<open>Comparison\<close>

fun cmp_bytes :: "u8 list \<Rightarrow> u8 list \<Rightarrow> int" where
  "cmp_bytes (x # xs) (y # ys) = (if x < y then -1 else if y < x then 1 else cmp_bytes xs ys)"
| "cmp_bytes _ _ = 0"

definition memcmp :: "u8 list \<Rightarrow> u8 list \<Rightarrow> u32 \<Rightarrow> addr_error + int" where
  "memcmp xs ys n =
    (if unat n \<le> length xs \<and> unat n \<le> length ys then Inr (cmp_bytes (take (unat n) xs) (take (unat n) ys))
     else Inl Out_of_bounds)"

definition Address_less :: "Address \<Rightarrow> Address \<Rightarrow> addr_error + bool" where
  "Address_less a rhs =
    (case memcmp (getAddr a) (getAddr rhs) (min (getAddrLen a) (getAddrLen rhs)) of
       Inl e \<Rightarrow> Inl e
     | Inr result \<Rightarrow>
         Inr (if result < 0 then True else if result > 0 then False else getAddrLen a < getAddrLen rhs))"

definition Address_eq :: "Address \<Rightarrow> Address \<Rightarrow> addr_error + bool" where
  "Address_eq a rhs =
    (if getAddrLen a \<noteq> getAddrLen rhs then Inr False
     else case memcmp (getAddr a) (getAddr rhs) (getAddrLen a) of
            Inl e \<Rightarrow> Inl e | Inr result \<Rightarrow> Inr (result = 0))"

definition Address_ne :: "Address \<Rightarrow> Address \<Rightarrow> addr_error + bool" where
  "Address_ne a rhs = (case Address_eq a rhs of Inl e \<Rightarrow> Inl e | Inr b \<Rightarrow> Inr (\<not> b))"

definition Address_Create :: "u8 list option \<Rightarrow> addr_error + Address option" where
  "Address_Create addr = (case addr of
      None \<Rightarrow> Inr None
    | Some bs \<Rightarrow>
        if family_of bs = AF_INET then
          (case as_in bs of Inl e \<Rightarrow> Inl e | Inr s \<Rightarrow> Inr (Some (IPv4Address s)))
        else if family_of bs = AF_INET6 then
          (case as_in6 bs of Inl e \<Rightarrow> Inl e | Inr s \<Rightarrow> Inr (Some (IPv6Address s)))
        else Inr None)"

section \<open>IPv4 addresses\<close>

definition new_IPv4Address :: "u32 \<Rightarrow> u32 \<Rightarrow> sockaddr_in" where
  "new_IPv4Address address port =
    \<lparr>sin_family = AF_INET, sin_port = ucast (byteswapOnLittleEndian port),
     s_addr = byteswapOnLittleEndian address, sin_zero = replicate 8 0\<rparr>"

text \<open>\<^verbatim>\<open>inet_pton\<close> for a family: the result and the bytes it stores.\<close>

definition IPv4Address_Create :: "(string \<Rightarrow> int \<times> u32) \<Rightarrow> string \<Rightarrow> u32 \<Rightarrow> Address option" where
  "IPv4Address_Create inet_pton address port =
    (let rt = (new_IPv4Address 0 0)\<lparr>sin_port := ucast (byteswapOnLittleEndian port)\<rparr>;
         (result, a) = inet_pton address
     in if result \<le> 0 then None else Some (IPv4Address (rt\<lparr>s_addr := a\<rparr>)))"

definition insert_v4 :: "sockaddr_in \<Rightarrow> string" where
  "insert_v4 a =
    (let addr = byteswapOnLittleEndian (s_addr a) in
     dec (unat (drop_bit 24 addr AND 0xff)) @ ''.'' @ dec (unat (drop_bit 16 addr AND 0xff)) @ ''.'' @
     dec (unat (drop_bit 8 addr AND 0xff)) @ ''.'' @ dec (unat (addr AND 0xff)) @
     '':'' @ dec (unat (byteswapOnLittleEndian (sin_port a))))"

definition broadcastAddress4 :: "u32 \<Rightarrow> sockaddr_in \<Rightarrow> addr_error + sockaddr_in option" where
  "broadcastAddress4 prefix_len a =
    (if prefix_len > 32 then Inr None
     else case CreateMask prefix_len of
         Inl e \<Rightarrow> Inl e
       | Inr m \<Rightarrow> Inr (Some (a\<lparr>s_addr := s_addr a OR byteswapOnLittleEndian m\<rparr>)))"

definition networdAddress4 :: "u32 \<Rightarrow> sockaddr_in \<Rightarrow> addr_error + sockaddr_in option" where
  "networdAddress4 prefix_len a =
    (if prefix_len > 32 then Inr None
     else case CreateMask prefix_len of
         Inl e \<Rightarrow> Inl e
       | Inr m \<Rightarrow> Inr (Some (a\<lparr>s_addr := s_addr a AND byteswapOnLittleEndian m\<rparr>)))"

definition subnetMask4 :: "u32 \<Rightarrow> addr_error + sockaddr_in" where
  "subnetMask4 prefix_len =
    (case CreateMask prefix_len of
       Inl e \<Rightarrow> Inl e
     | Inr m \<Rightarrow> Inr \<lparr>sin_family = AF_INET, sin_port = 0, s_addr = NOT (byteswapOnLittleEndian m),
                    sin_zero = replicate 8 0\<rparr>)"

definition getPort4 :: "sockaddr_in \<Rightarrow> u32" where
  "getPort4 a = ucast (byteswapOnLittleEndian (sin_port a))"

definition setPort4 :: "u32 \<Rightarrow> sockaddr_in \<Rightarrow> sockaddr_in" where
  "setPort4 val a = a\<lparr>sin_port := ucast (byteswapOnLittleEndian val)\<rparr>"

section \<open>IPv6 addresses\<close>

definition new_IPv6Address :: sockaddr_in6 where
  "new_IPv6Address = \<lparr>sin6_family = AF_INET6, sin6_port = 0, sin6_flowinfo = 0,
     s6_addr = replicate 16 0, sin6_scope_id = 0\<rparr>"

definition IPv6Address_of :: "u8 list \<Rightarrow> u32 \<Rightarrow> sockaddr_in6" where
  "IPv6Address_of address port =
    new_IPv6Address\<lparr>sin6_port := ucast (byteswapOnLittleEndian port), s6_addr := take 16 address\<rparr>"

definition IPv6Address_Create :: "(string \<Rightarrow> int \<times> u8 list) \<Rightarrow> string \<Rightarrow> u32 \<Rightarrow> Address option" where
  "IPv6Address_Create inet_pton address port =
    (let rt = new_IPv6Address\<lparr>sin6_port := ucast (byteswapOnLittleEndian port)\<rparr>;
         (result, a) = inet_pton address
     in if result \<le> 0 then None else Some (IPv6Address (rt\<lparr>s6_addr := a\<rparr>)))"

fun hex :: "nat \<Rightarrow> string" where
  "hex n = (if n < 16 then [''0123456789abcdef'' ! n] else hex (n div 16) @ [''0123456789abcdef'' ! (n mod 16)])"

declare hex.simps [simp del]

text \<open>The address as eight 16-bit numbers as they lie in memory.\<close>

definition groups :: "sockaddr_in6 \<Rightarrow> u16 list" where
  "groups a = map (\<lambda>i. from_le (slice_of (2 * i) 2 (s6_addr a))) [0..<8]"

function insert6_loop :: "u16 list \<Rightarrow> nat \<Rightarrow> bool \<Rightarrow> string \<times> bool" where
  "insert6_loop addr i used_zeros =
    (if i \<ge> 8 then ([], used_zeros)
     else if addr ! i = 0 \<and> \<not> used_zeros then insert6_loop addr (i + 1) used_zeros
     else
       let zeros = i \<noteq> 0 \<and> addr ! (i - 1) = 0 \<and> \<not> used_zeros;
           (rest, used) = insert6_loop addr (i + 1) (used_zeros \<or> zeros)
       in ((if zeros then '':'' else []) @ (if i \<noteq> 0 then '':'' else []) @
           hex (unat (byteswapOnLittleEndian (addr ! i))) @ rest, used))"
  by auto
termination
  by (relation "measure (\<lambda>(_, i, _). 8 - i)") auto

declare insert6_loop.simps [simp del]

definition insert_v6 :: "sockaddr_in6 \<Rightarrow> string" where
  "insert_v6 a =
    (let addr = groups a; (text, used_zeros) = insert6_loop addr 0 False in
     ''['' @ text @ (if \<not> used_zeros \<and> addr ! 7 = 0 then ''::'' else []) @
     '']:'' @ dec (unat (byteswapOnLittleEndian (sin6_port a))))"

text \<open>Assignment of a byte and of all bytes after it.\<close>

definition set_byte :: "nat \<Rightarrow> u8 \<Rightarrow> sockaddr_in6 \<Rightarrow> addr_error + sockaddr_in6" where
  "set_byte i v a = (if i < 16 then Inr (a\<lparr>s6_addr := (s6_addr a)[i := v]\<rparr>) else Inl Out_of_bounds)"

definition fill_from :: "nat \<Rightarrow> u8 \<Rightarrow> sockaddr_in6 \<Rightarrow> sockaddr_in6" where
  "fill_from i v a = a\<lparr>s6_addr := take i (s6_addr a) @ replicate (16 - i) v\<rparr>"

definition broadcastAddress6 :: "u32 \<Rightarrow> sockaddr_in6 \<Rightarrow> addr_error + sockaddr_in6" where
  "broadcastAddress6 prefix_len a =
    (let i = unat prefix_len div 8 in
     case CreateMask (prefix_len mod 8) of
       Inl e \<Rightarrow> Inl e
     | Inr m \<Rightarrow>
         (case set_byte i (s6_addr a ! i OR m) a of
            Inl e \<Rightarrow> Inl e | Inr b \<Rightarrow> Inr (fill_from (i + 1) 0xff b)))"

definition networdAddress6 :: "u32 \<Rightarrow> sockaddr_in6 \<Rightarrow> addr_error + sockaddr_in6" where
  "networdAddress6 prefix_len a =
    (let i = unat prefix_len div 8 in
     case CreateMask (prefix_len mod 8) of
       Inl e \<Rightarrow> Inl e
     | Inr m \<Rightarrow>
         (case set_byte i (s6_addr a ! i AND m) a of
            Inl e \<Rightarrow> Inl e | Inr b \<Rightarrow> Inr (fill_from (i + 1) 0 b)))"

definition subnetMask6 :: "u32 \<Rightarrow> addr_error + sockaddr_in6" where
  "subnetMask6 prefix_len =
    (let i = unat prefix_len div 8 in
     case CreateMask (prefix_len mod 8) of
       Inl e \<Rightarrow> Inl e
     | Inr m \<Rightarrow>
         (case set_byte i (NOT m) new_IPv6Address of
            Inl e \<Rightarrow> Inl e
          | Inr b \<Rightarrow> Inr (b\<lparr>s6_addr := replicate i 0xff @ drop i (s6_addr b)\<rparr>)))"

definition getPort6 :: "sockaddr_in6 \<Rightarrow> u32" where
  "getPort6 a = ucast (byteswapOnLittleEndian (sin6_port a))"

definition setPort6 :: "u32 \<Rightarrow> sockaddr_in6 \<Rightarrow> sockaddr_in6" where
  "setPort6 v a = a\<lparr>sin6_port := ucast (byteswapOnLittleEndian v)\<rparr>"

section \<open>Unix and unknown addresses\<close>

definition MAX_PATH_LEN :: nat where "MAX_PATH_LEN = 107"

definition new_UnixAddress :: Address where
  "new_UnixAddress =
    UnixAddress \<lparr>sun_family = AF_UNIX, sun_path = replicate 108 NUL\<rparr> (of_nat (2 + MAX_PATH_LEN))"

text \<open>The C string of a path, its terminating NUL included, is copied up to \<^verbatim>\<open>m_length\<close> bytes.\<close>

definition UnixAddress_of :: "string \<Rightarrow> addr_error + Address" where
  "UnixAddress_of path =
    (let n = of_nat (length path) + (1 :: u32);
         m_length = (if path \<noteq> [] \<and> path ! 0 = NUL then n - 1 else n)
     in if m_length > 108 then Inl Path_too_long
        else Inr (UnixAddress
          \<lparr>sun_family = AF_UNIX,
           sun_path = take (unat m_length) (path @ [NUL]) @ replicate (108 - unat m_length) NUL\<rparr>
          (m_length + 2)))"

definition setAddrLen :: "u32 \<Rightarrow> Address \<Rightarrow> Address" where
  "setAddrLen val a = (case a of UnixAddress s _ \<Rightarrow> UnixAddress s val | _ \<Rightarrow> a)"

definition insert_un :: "sockaddr_un \<Rightarrow> u32 \<Rightarrow> addr_error + string" where
  "insert_un a m_length =
    (if m_length > 2 \<and> sun_path a ! 0 = NUL then
       let n = unat (m_length - 3) in
       if 1 + n > length (sun_path a) then Inl Out_of_bounds
       else Inr ([CHR 0x5C, CHR ''0''] @ slice_of 1 n (sun_path a))
     else if NUL \<notin> set (sun_path a) then Inl Out_of_bounds
     else Inr (c_str (sun_path a)))"

definition new_UnknownAddress :: "u16 \<Rightarrow> Address" where
  "new_UnknownAddress family = UnknownAddress \<lparr>sa_family = family, sa_data = replicate 14 0\<rparr>"

definition insert_unknown :: "sockaddr \<Rightarrow> string" where
  "insert_unknown a = ''[UnknownAddress family='' @ dec (unat (sa_family a)) @ '']''"

definition Address_toString :: "Address \<Rightarrow> addr_error + string" where
  "Address_toString a = (case a of
      IPv4Address s \<Rightarrow> Inr (insert_v4 s)
    | IPv6Address s \<Rightarrow> Inr (insert_v6 s)
    | UnixAddress s n \<Rightarrow> insert_un s n
    | UnknownAddress s \<Rightarrow> Inr (insert_unknown s))"

section \<open>Ports of IP addresses\<close>

definition is_ip :: "Address \<Rightarrow> bool" where
  "is_ip a = (case a of IPv4Address _ \<Rightarrow> True | IPv6Address _ \<Rightarrow> True | _ \<Rightarrow> False)"

definition getPort :: "Address \<Rightarrow> u32" where
  "getPort a = (case a of IPv4Address s \<Rightarrow> getPort4 s | IPv6Address s \<Rightarrow> getPort6 s | _ \<Rightarrow> 0)"

definition setPort :: "u32 \<Rightarrow> Address \<Rightarrow> Address" where
  "setPort v a = (case a of
      IPv4Address s \<Rightarrow> IPv4Address (setPort4 v s) | IPv6Address s \<Rightarrow> IPv6Address (setPort6 v s) | _ \<Rightarrow> a)"

section \<open>Looking up names\<close>

text \<open>
  \<^verbatim>\<open>getaddrinfo\<close> gets the node, the service and the hints and answers an error or the list of the addresses
  found, of which only the bytes matter.
\<close>

record hints =
  ai_flags :: int
  ai_family :: u16
  ai_socktype :: int
  ai_protocol :: int

type_synonym getaddrinfo = "string \<Rightarrow> string option \<Rightarrow> hints \<Rightarrow> int + u8 list list"

definition memchr :: "char \<Rightarrow> string \<Rightarrow> nat option" where
  "memchr c s = (if c \<in> set s then Some (length (takeWhile (\<lambda>d. d \<noteq> c) s)) else None)"

definition split_host :: "string \<Rightarrow> string \<times> string option" where
  "split_host host =
    (let (node, service) =
       (if host \<noteq> [] \<and> host ! 0 = CHR ''['' then
          case memchr (CHR '']'') (drop 1 host) of
            None \<Rightarrow> ([], None)
          | Some j \<Rightarrow> (slice_of 1 j host, if cchar host (j + 2) = CHR '':'' then Some (drop (j + 3) host) else None)
        else ([], None));
      (node, service) =
       (if node = [] then
          case memchr (CHR '':'') host of
            None \<Rightarrow> (node, None)
          | Some k \<Rightarrow>
              if memchr (CHR '':'') (drop (k + 1) host) = None then (take k host, Some (drop (k + 1) host))
              else (node, Some (drop k host))
        else (node, service))
     in (if node = [] then host else node, service))"

primrec create_all :: "u8 list list \<Rightarrow> addr_error + Address option list" where
  "create_all [] = Inr []"
| "create_all (bs # bss) =
    (case Address_Create (Some bs) of
       Inl e \<Rightarrow> Inl e
     | Inr a \<Rightarrow> (case create_all bss of Inl e \<Rightarrow> Inl e | Inr as \<Rightarrow> Inr (a # as)))"

definition LookUp ::
  "getaddrinfo \<Rightarrow> Address option list \<Rightarrow> string \<Rightarrow> u16 \<Rightarrow> int \<Rightarrow> int
   \<Rightarrow> addr_error + bool \<times> Address option list" where
  "LookUp gai result host family type protocol =
    (let (node, service) = split_host host in
     case gai (c_str node) (map_option c_str service)
            \<lparr>ai_flags = 0, ai_family = family, ai_socktype = type, ai_protocol = protocol\<rparr> of
       Inl error \<Rightarrow> Inr (False, result)
     | Inr results \<Rightarrow>
         (case create_all results of Inl e \<Rightarrow> Inl e | Inr as \<Rightarrow> Inr (True, result @ as)))"

definition LookUpAny :: "getaddrinfo \<Rightarrow> string \<Rightarrow> u16 \<Rightarrow> int \<Rightarrow> int \<Rightarrow> addr_error + Address option" where
  "LookUpAny gai host family type protocol =
    (case LookUp gai [] host family type protocol of
       Inl e \<Rightarrow> Inl e
     | Inr (False, _) \<Rightarrow> Inr None
     | Inr (True, result) \<Rightarrow> if result = [] then Inl Out_of_bounds else Inr (result ! 0))"

definition LookUpAnyIPAddress ::
  "getaddrinfo \<Rightarrow> string \<Rightarrow> u16 \<Rightarrow> int \<Rightarrow> int \<Rightarrow> addr_error + Address option" where
  "LookUpAnyIPAddress gai host family type protocol =
    (case LookUp gai [] host family type protocol of
       Inl e \<Rightarrow> Inl e
     | Inr (False, _) \<Rightarrow> Inr None
     | Inr (True, result) \<Rightarrow>
         Inr (case filter (\<lambda>r. case r of None \<Rightarrow> False | Some a \<Rightarrow> is_ip a) result of [] \<Rightarrow> None | r # _ \<Rightarrow> r))"

definition AI_NUMERICHOST :: int where "AI_NUMERICHOST = 4"

definition IPAddress_Create :: "getaddrinfo \<Rightarrow> string \<Rightarrow> u32 \<Rightarrow> addr_error + Address option" where
  "IPAddress_Create gai address port =
    (case gai address None \<lparr>ai_flags = AI_NUMERICHOST, ai_family = AF_UNSPEC, ai_socktype = 0, ai_protocol = 0\<rparr> of
       Inl error \<Rightarrow> Inr None
     | Inr [] \<Rightarrow> Inl Null_pointer
     | Inr (bs # _) \<Rightarrow>
         (case Address_Create (Some bs) of
            Inl e \<Rightarrow> Inl e
          | Inr a \<Rightarrow> Inr (map_option (setPort port) a)))"

section \<open>Interface addresses\<close>

record ifaddrs =
  ifa_name :: string
  ifa_addr :: "u8 list option"
  ifa_netmask :: "u8 list option"

text \<open>A \<^verbatim>\<open>multimap\<close> is the function from a key to its values in the order of their insertion.\<close>

type_synonym iface_map = "string \<Rightarrow> (Address \<times> u32) list"

text \<open>The address and prefix length of one interface; \<open>None\<close> if its family is not supported.\<close>

definition interface_address :: "u8 list \<Rightarrow> u8 list option \<Rightarrow> addr_error + (Address \<times> u32) option" where
  "interface_address bs netmask =
    (if family_of bs = AF_INET then
       case Address_Create (Some bs) of
         Inl e \<Rightarrow> Inl e
       | Inr addr \<Rightarrow>
           (case netmask of
              None \<Rightarrow> Inl Null_pointer
            | Some ms \<Rightarrow>
                (case as_in ms of
                   Inl e \<Rightarrow> Inl e
                 | Inr m \<Rightarrow> Inr (map_option (\<lambda>a. (a, CountBytes (s_addr m))) addr)))
     else if family_of bs = AF_INET6 then
       case Address_Create (Some bs) of
         Inl e \<Rightarrow> Inl e
       | Inr addr \<Rightarrow>
           (case netmask of
              None \<Rightarrow> Inl Null_pointer
            | Some ms \<Rightarrow>
                (case as_in6 ms of
                   Inl e \<Rightarrow> Inl e
                 | Inr m \<Rightarrow>
                     Inr (map_option (\<lambda>a. (a, foldl (\<lambda>n b. n + CountBytes b) 0 (s6_addr m))) addr)))
     else Inr None)"

fun interfaces_loop :: "u16 \<Rightarrow> ifaddrs list \<Rightarrow> iface_map \<Rightarrow> addr_error + iface_map" where
  "interfaces_loop family [] result = Inr result"
| "interfaces_loop family (i # rest) result =
    (case ifa_addr i of
       None \<Rightarrow> Inl Null_pointer
     | Some bs \<Rightarrow>
         if family \<noteq> AF_UNSPEC \<and> family \<noteq> family_of bs then interfaces_loop family rest result
         else
           (case interface_address bs (ifa_netmask i) of
              Inl e \<Rightarrow> Inl e
            | Inr None \<Rightarrow> interfaces_loop family rest result
            | Inr (Some x) \<Rightarrow>
                interfaces_loop family rest (result(ifa_name i := result (ifa_name i) @ [x]))))"

text \<open>\<^verbatim>\<open>getifaddrs\<close> gives the list of the interfaces, or fails (\<open>None\<close>).\<close>

definition GetInterfaceAddresses :: "ifaddrs list option \<Rightarrow> u16 \<Rightarrow> iface_map \<Rightarrow> addr_error + bool \<times> iface_map" where
  "GetInterfaceAddresses ifs family result =
    (case ifs of
       None \<Rightarrow> Inr (False, result)
     | Some results \<Rightarrow>
         (case interfaces_loop family results result of Inl e \<Rightarrow> Inl e | Inr r \<Rightarrow> Inr (True, r)))"

definition GetInterfaceAddress ::
  "ifaddrs list option \<Rightarrow> string \<Rightarrow> u16 \<Rightarrow> (Address \<times> u32) list \<Rightarrow> addr_error + bool \<times> (Address \<times> u32) list" where
  "GetInterfaceAddress ifs iface family result =
    (if iface = [] \<or> iface = ''*'' then
       Inr (True, result @
         (if family = AF_INET \<or> family = AF_UNSPEC then [(IPv4Address (new_IPv4Address 0 0), 0)] else []) @
         (if family = AF_INET6 \<or> family = AF_UNSPEC then [(IPv6Address new_IPv6Address, 0)] else []))
     else
       case GetInterfaceAddresses ifs family (\<lambda>_. []) of
         Inl e \<Rightarrow> Inl e
       | Inr (False, _) \<Rightarrow> Inr (False, result)
       | Inr (True, results) \<Rightarrow> Inr (True, result @ results iface))"


section \<open>Bits of words in network order\<close>

lemma bit_byteswap:
  assumes "8 dvd LENGTH('a)"
  shows "bit (byteswap (w::'a::len word)) n \<longleftrightarrow>
    n < LENGTH('a) \<and> bit w (8 * (LENGTH('a) div 8 - Suc (n div 8)) + n mod 8)"
proof (cases "n < LENGTH('a)")
  case True
  then have "n div 8 < LENGTH('a) div 8"
    using assms by (metis div_less_iff_less_mult dvd_div_mult_self zero_less_numeral)
  with True show ?thesis
    by (simp add: byteswap_def bit_from_le rev_nth bit_to_le)
qed (auto dest: bit_imp_le_length)

lemma swapped_bit_less:
  assumes "8 dvd LENGTH('a)" "n < LENGTH('a)"
  shows "8 * (LENGTH('a::len) div 8 - Suc (n div 8)) + n mod 8 < LENGTH('a)"
proof -
  have "n div 8 < LENGTH('a) div 8"
    using assms by (metis div_less_iff_less_mult dvd_div_mult_self zero_less_numeral)
  moreover have "n mod 8 < 8" by simp
  moreover have "8 * (LENGTH('a) div 8) = LENGTH('a)" using assms(1) by simp
  ultimately show ?thesis by linarith
qed

lemma byteswap_or:
  "8 dvd LENGTH('a) \<Longrightarrow> byteswap (a OR b) = byteswap a OR byteswap (b::'a::len word)"
  by (rule bit_word_eqI) (simp add: bit_byteswap bit_or_iff)

lemma byteswap_and:
  "8 dvd LENGTH('a) \<Longrightarrow> byteswap (a AND b) = byteswap a AND byteswap (b::'a::len word)"
  by (rule bit_word_eqI) (simp add: bit_byteswap bit_and_iff)

lemma byteswap_not: "8 dvd LENGTH('a) \<Longrightarrow> byteswap (NOT a) = NOT (byteswap (a::'a::len word))"
  by (rule bit_word_eqI) (simp add: bit_byteswap bit_not_iff swapped_bit_less)

lemma byteswapOnLittleEndian_byteswap [simp]: "byteswapOnLittleEndian w = byteswap w"
  by (simp add: byteswapOnLittleEndian_def SYLAR_BYTE_ORDER_def SYLAR_LITTLE_ENDIAN_def SYLAR_BIG_ENDIAN_def)

section \<open>Ports\<close>

lemma port_roundtrip_bits: "byteswap (ucast (byteswap (v::u32)) :: u16) = ucast (drop_bit 16 v)"
proof (rule bit_word_eqI)
  fix n assume n: "n < LENGTH(16)"
  then have "n div 8 = 0 \<or> n div 8 = 1" by auto
  moreover have "n mod 8 < 16" using mod_less_divisor [of 8 n] by linarith
  ultimately show "bit (byteswap (ucast (byteswap v) :: u16)) n = bit (ucast (drop_bit 16 v) :: u16) n"
    using n by (auto simp: bit_byteswap bit_unsigned_iff bit_drop_bit_eq) (simp_all add: add.commute)
qed

lemma getPort_setPort: "is_ip a \<Longrightarrow> getPort (setPort p a) = drop_bit 16 p"
proof -
  have "ucast (ucast (drop_bit 16 p) :: u16) = drop_bit 16 p"
    by (rule bit_word_eqI) (auto simp: bit_unsigned_iff bit_drop_bit_eq dest: bit_imp_le_length)
  then show "is_ip a \<Longrightarrow> getPort (setPort p a) = drop_bit 16 p"
    by (cases a) (simp_all add: is_ip_def getPort_def setPort_def getPort4_def setPort4_def getPort6_def
        setPort6_def port_roundtrip_bits)
qed

lemma drop_small: "p < 65536 \<Longrightarrow> drop_bit 16 (p::u32) = 0"
  by (simp add: word_unat_eq_iff drop_bit_eq_div unat_div word_less_nat_alt)

text \<open>
  The port of an IP address is lost: \<^verbatim>\<open>setPort\<close>, and with it \<^verbatim>\<open>IPAddress::Create\<close>, swaps the bytes of the
  32-bit argument before cutting it to 16 bits, so that what \<^verbatim>\<open>getPort\<close> reads back is the upper half of the
  number, which is zero for every port.
\<close>

theorem port_lost:
  "(is_ip a \<longrightarrow> getPort (setPort p a) = drop_bit 16 p \<and> (p < 65536 \<longrightarrow> getPort (setPort p a) = 0)) \<and>
   (IPAddress_Create gai s p = Inr (Some b) \<and> p < 65536 \<longrightarrow> getPort b = 0)"
proof -
  have "getPort b = 0" if "IPAddress_Create gai s p = Inr (Some b)" "p < 65536"
    using that getPort_setPort drop_small
    by (auto simp: IPAddress_Create_def Address_Create_def is_ip_def
        split: sum.splits list.splits if_splits)
  then show ?thesis by (simp add: getPort_setPort drop_small)
qed


text \<open>A resolver that knows one address.\<close>

definition sample_gai :: getaddrinfo where
  "sample_gai node service h = Inr [bytes_in (new_IPv4Address 0x7F000001 0)]"

theorem port_lost_witness:
  "getPort (setPort 80 (IPv4Address (new_IPv4Address 0x7F000001 0))) = 0 \<and>
   IPAddress_Create sample_gai ''127.0.0.1'' 80 = Inr (Some (IPv4Address (new_IPv4Address 0x7F000001 0))) \<and>
   getPort (IPv4Address (new_IPv4Address 0x7F000001 0)) = 0"
proof -
  have "IPAddress_Create sample_gai ''127.0.0.1'' 80 = Inr (Some (IPv4Address (new_IPv4Address 0x7F000001 0)))"
    by code_simp
  then show ?thesis
    using port_lost [of "IPv4Address (new_IPv4Address 0x7F000001 0)" 80 sample_gai "''127.0.0.1''"
        "IPv4Address (new_IPv4Address 0x7F000001 0)"]
    by (simp add: is_ip_def word_less_nat_alt)
qed

section \<open>Counting bits\<close>

fun popcount :: "nat \<Rightarrow> nat" where
  "popcount n = (if n = 0 then 0 else n mod 2 + popcount (n div 2))"

declare popcount.simps [simp del]

lemma popcount_double: "popcount (2 * m) = popcount m" "popcount (2 * m + 1) = popcount m + 1"
  by (subst popcount.simps, simp add: popcount.simps [of 0])+

lemma and_pred_even: "2 * m AND (2 * m - 1) = 2 * (m AND (m - 1))" for m :: nat
  by (subst and_rec) (cases m, simp_all)

lemma and_pred_odd: "(2 * m + 1) AND (2 * m) = 2 * m" for m :: nat
  by (subst and_rec) simp

lemma popcount_clear: "n > 0 \<Longrightarrow> popcount (n AND (n - 1)) + 1 = popcount n"
proof (induction n rule: less_induct)
  case (less n)
  show ?case
  proof (cases "odd n")
    case True
    then obtain m where "n = 2 * m + 1" by (auto elim: oddE)
    then show ?thesis by (simp add: and_pred_odd [simplified] popcount_double [simplified])
  next
    case False
    then obtain m where m: "n = 2 * m" by (auto elim: evenE)
    with less.prems have "m > 0" "m < n" by auto
    with less.IH [of m] show ?thesis by (simp add: m and_pred_even [simplified] popcount_double)
  qed
qed

lemma bits_of_half: "{i. bit n i} = (if odd n then {0} else {}) \<union> Suc ` {i. bit (n div 2) i}" for n :: nat
  by (auto simp: bit_0 bit_Suc image_iff) (metis bit_0 bit_Suc not0_implies_Suc)+

lemma finite_bits: "finite {i. bit (n::nat) i}"
proof (induction n rule: less_induct)
  case (less n)
  then show ?case by (cases "n = 0") (simp, subst bits_of_half, simp)
qed

lemma popcount_card: "popcount n = card {i. bit n i}"
proof (induction n rule: less_induct)
  case (less n)
  show ?case
  proof (cases "n = 0")
    case False
    then have "popcount n = n mod 2 + card {i. bit (n div 2) i}" using less by (subst popcount.simps) simp
    also have "\<dots> = card {i. bit n i}"
      by (subst (2) bits_of_half) (simp add: card_image finite_bits mod_2_eq_odd)
    finally show ?thesis .
  qed (simp add: popcount.simps)
qed

lemma count_loop_card: "count_loop (w::'a::len word) r = r + of_nat (popcount (unat w))"
proof (induction w r rule: count_loop.induct)
  case (1 w r)
  show ?case
  proof (cases "w = 0")
    case False
    then have "unat w > 0" by (simp add: unat_gt_0)
    moreover have "unat (w AND (w - 1)) = unat w AND (unat w - 1)"
      using False by (simp add: unsigned_and_eq unat_minus_one)
    ultimately have "popcount (unat w) = popcount (unat (w AND (w - 1))) + 1"
      using popcount_clear [of "unat w"] by simp
    with 1 [OF False] False show ?thesis by (simp add: count_loop.simps [of w])
  qed (simp add: count_loop.simps popcount.simps)
qed

definition bits_set :: "'a::len word \<Rightarrow> nat set" where
  "bits_set w = {i. bit w i}"

lemma CountBytes_card: "CountBytes w = of_nat (card (bits_set w))"
  by (simp add: CountBytes_def count_loop_card popcount_card bits_set_def bit_unsigned_iff)

lemma bits_set_less: "bits_set (w::'a::len word) \<subseteq> {..<LENGTH('a)}"
  by (auto simp: bits_set_def dest: bit_imp_le_length)

lemma finite_bits_set [simp]: "finite (bits_set w)"
  using bits_set_less by (rule finite_subset) simp

lemma card_bits_not: "card (bits_set (NOT (w::'a::len word))) = LENGTH('a) - card (bits_set w)"
proof -
  have "bits_set (NOT w) = {..<LENGTH('a)} - bits_set w"
    by (auto simp: bits_set_def bit_not_iff dest: bit_imp_le_length)
  then show ?thesis using bits_set_less [of w] by (simp add: card_Diff_subset)
qed

lemma card_bits_byteswap_le:
  assumes "8 dvd LENGTH('a)"
  shows "card (bits_set (byteswap (w::'a::len word))) \<le> card (bits_set w)"
proof (rule card_inj_on_le)
  let ?f = "\<lambda>n. 8 * (LENGTH('a) div 8 - Suc (n div 8)) + n mod 8"
  have "n = m" if "?f n = ?f m" "n < LENGTH('a)" "m < LENGTH('a)" for n m
  proof -
    have "n div 8 < LENGTH('a) div 8" "m div 8 < LENGTH('a) div 8"
      using that(2,3) assms by (metis div_less_iff_less_mult dvd_div_mult_self zero_less_numeral)+
    moreover have "?f n div 8 = ?f m div 8" "?f n mod 8 = ?f m mod 8" using that(1) by simp_all
    then have "LENGTH('a) div 8 - Suc (n div 8) = LENGTH('a) div 8 - Suc (m div 8)" "n mod 8 = m mod 8" by simp_all
    ultimately have "n div 8 = m div 8" by linarith
    with \<open>n mod 8 = m mod 8\<close> show ?thesis by (metis div_mult_mod_eq)
  qed
  then show "inj_on ?f (bits_set (byteswap w))"
    by (rule inj_onI) (use bits_set_less [of "byteswap w"] in auto)
  show "?f ` bits_set (byteswap w) \<subseteq> bits_set w"
    using bit_byteswap [OF assms, of w] by (auto simp: bits_set_def)
qed simp

lemma card_bits_byteswap:
  assumes "8 dvd LENGTH('a)"
  shows "card (bits_set (byteswap (w::'a::len word))) = card (bits_set w)"
  using card_bits_byteswap_le [OF assms, of w] card_bits_byteswap_le [OF assms, of "byteswap w"]
    byteswap_byteswap [OF assms, of w] by simp


section \<open>Prefixes\<close>

lemma CreateMask32:
  assumes "2 \<le> p" "p \<le> 32"
  shows "CreateMask p = Inr (mask (32 - unat p) :: u32)"
proof -
  have p: "2 \<le> unat p" "unat p \<le> 32" using assms by (simp_all add: word_le_nat_alt)
  then have u: "unat (ucast p :: u64) = unat p" by (simp add: unsigned_ucast_eq take_bit_nat_eq_self)
  then have n: "unat (32 - (ucast p :: u64)) = 32 - unat p"
    using p by (simp add: unat_sub word_le_nat_alt)
  moreover have "32 - (ucast p :: u64) < 31" using p n by (simp add: word_less_nat_alt)
  ultimately show ?thesis by (simp add: CreateMask_def Let_def mask_eq_exp_minus_1 of_nat_diff)
qed

lemma CreateMask32_undefined: "p < 2 \<Longrightarrow> (CreateMask p :: addr_error + u32) = Inl Undefined_shift"
proof -
  assume "p < 2"
  then have "unat p = 0 \<or> unat p = 1" by (auto simp: word_less_nat_alt)
  then have "p = 0 \<or> p = 1" by (auto simp: word_unat_eq_iff)
  then show ?thesis by (auto simp: CreateMask_def Let_def word_less_nat_alt unat_sub)
qed

lemma card_bits_mask: "n \<le> LENGTH('a) \<Longrightarrow> card (bits_set (mask n :: 'a::len word)) = n"
proof -
  assume "n \<le> LENGTH('a)"
  then have "bits_set (mask n :: 'a word) = {..<n}" by (auto simp: bits_set_def bit_mask_iff)
  then show ?thesis by simp
qed

text \<open>
  Prefix lengths of IPv4 networks from 2 to 32: the broadcast address keeps the upper bits and has all
  others set, and the bits that \<^verbatim>\<open>GetInterfaceAddress\<close> counts in the subnet mask are the prefix length; but the
  network address keeps the host part of the address instead of its network part.  For the lengths 0
  and 1 all of them are undefined.
\<close>

theorem ipv4_prefix:
  "(2 \<le> p \<and> p \<le> 32 \<longrightarrow>
      (\<exists>b n m. broadcastAddress4 p a = Inr (Some b) \<and> networdAddress4 p a = Inr (Some n) \<and> subnetMask4 p = Inr m \<and>
         byteswap (s_addr b) = byteswap (s_addr a) OR mask (32 - unat p) \<and>
         byteswap (s_addr n) = byteswap (s_addr a) AND mask (32 - unat p) \<and>
         byteswap (s_addr m) = NOT (mask (32 - unat p)) \<and> CountBytes (s_addr m) = p)) \<and>
   (p < 2 \<longrightarrow> broadcastAddress4 p a = Inl Undefined_shift \<and> networdAddress4 p a = Inl Undefined_shift \<and>
      subnetMask4 p = Inl Undefined_shift)"
proof (intro conjI impI)
  assume p: "2 \<le> p \<and> p \<le> 32"
  have "card (bits_set (NOT (byteswap (mask (32 - unat p) :: u32)))) = 32 - (32 - unat p)"
    by (simp add: card_bits_not card_bits_byteswap card_bits_mask)
  moreover have "unat p \<le> 32" using p by (simp add: word_le_nat_alt)
  ultimately have "CountBytes (NOT (byteswap (mask (32 - unat p) :: u32))) = p"
    by (simp add: CountBytes_card)
  then show "\<exists>b n m. broadcastAddress4 p a = Inr (Some b) \<and> networdAddress4 p a = Inr (Some n) \<and> subnetMask4 p = Inr m \<and>
         byteswap (s_addr b) = byteswap (s_addr a) OR mask (32 - unat p) \<and>
         byteswap (s_addr n) = byteswap (s_addr a) AND mask (32 - unat p) \<and>
         byteswap (s_addr m) = NOT (mask (32 - unat p)) \<and> CountBytes (s_addr m) = p"
    using p by (simp add: broadcastAddress4_def networdAddress4_def subnetMask4_def CreateMask32 not_less
        byteswap_or byteswap_and byteswap_not byteswap_byteswap)
next
  assume "p < 2"
  then have "\<not> p > 32" by (simp add: word_less_nat_alt)
  with \<open>p < 2\<close> show "broadcastAddress4 p a = Inl Undefined_shift" "networdAddress4 p a = Inl Undefined_shift"
      "subnetMask4 p = Inl Undefined_shift"
    by (simp_all add: broadcastAddress4_def networdAddress4_def subnetMask4_def CreateMask32_undefined)
qed

theorem ipv4_prefix_witness:
  "\<exists>n. networdAddress4 24 (new_IPv4Address 0xC0A80117 0) = Inr (Some n) \<and> byteswap (s_addr n) = 0x17"
proof -
  have "byteswap (s_addr (new_IPv4Address 0xC0A80117 0)) AND mask (32 - unat (24::u32)) = 0x17" by code_simp
  then show ?thesis
    using ipv4_prefix [of 24 "new_IPv4Address 0xC0A80117 0"] by (auto simp: word_le_nat_alt)
qed


section \<open>The order on addresses\<close>

text \<open>
  The part of an address that is compared, and the order on byte sequences that the comparison amounts
  to; it satisfies what \<^verbatim>\<open>std::set\<close> and \<^verbatim>\<open>std::map\<close> require of a comparison.
\<close>

definition addr_key :: "Address \<Rightarrow> u8 list" where
  "addr_key a = take (unat (getAddrLen a)) (getAddr a)"

definition key_less :: "u8 list \<Rightarrow> u8 list \<Rightarrow> bool" where
  "key_less xs ys \<longleftrightarrow> (let n = min (length xs) (length ys); r = cmp_bytes (take n xs) (take n ys) in
     r < 0 \<or> r = 0 \<and> length xs < length ys)"

definition wf_address :: "Address \<Rightarrow> bool" where
  "wf_address a \<longleftrightarrow> (case a of
      IPv4Address s \<Rightarrow> sin_family s = AF_INET \<and> length (sin_zero s) = 8
    | IPv6Address s \<Rightarrow> sin6_family s = AF_INET6 \<and> length (s6_addr s) = 16
    | UnixAddress s n \<Rightarrow> length (sun_path s) = 108 \<and> n \<le> 110
    | UnknownAddress s \<Rightarrow> length (sa_data s) = 14)"

lemma key_less_Nil [simp]: "\<not> key_less xs []" "key_less [] (y # ys)"
  by (simp_all add: key_less_def)

lemma key_less_Cons [simp]: "key_less (x # xs) (y # ys) \<longleftrightarrow> x < y \<or> x = y \<and> key_less xs ys"
  by (auto simp: key_less_def Let_def)

lemma key_less_trans: "key_less xs ys \<Longrightarrow> key_less ys zs \<Longrightarrow> key_less xs zs"
proof (induction xs arbitrary: ys zs)
  case Nil
  then show ?case by (cases ys; cases zs) auto
next
  case (Cons x xs)
  then show ?case by (cases ys; cases zs) (auto 4 3)
qed

lemma key_less_total: "xs \<noteq> ys \<Longrightarrow> key_less xs ys \<or> key_less ys xs"
proof (induction xs arbitrary: ys)
  case Nil
  then show ?case by (cases ys) auto
next
  case (Cons x xs)
  then show ?case by (cases ys) auto
qed

lemma key_less_irrefl: "\<not> key_less xs xs"
  by (induction xs) auto

interpretation address_order: std_set key_less
  by unfold_locales (simp add: key_less_irrefl, erule (1) key_less_trans, erule key_less_total)

lemma addr_len: "wf_address a \<Longrightarrow> unat (getAddrLen a) \<le> length (getAddr a)"
  by (cases a) (simp_all add: wf_address_def getAddrLen_def getAddr_def bytes_in_def bytes_in6_def
      bytes_un_def bytes_sa_def word_le_nat_alt)

lemma length_addr_key: "wf_address a \<Longrightarrow> length (addr_key a) = unat (getAddrLen a)"
  by (simp add: addr_key_def addr_len)

lemma cmp_bytes_eq: "length xs = length ys \<Longrightarrow> cmp_bytes xs ys = 0 \<longleftrightarrow> xs = ys"
  by (induction xs ys rule: list_induct2) auto

lemma Address_less_key:
  assumes "wf_address a" "wf_address b"
  shows "Address_less a b = Inr (key_less (addr_key a) (addr_key b))"
proof -
  let ?n = "min (unat (getAddrLen a)) (unat (getAddrLen b))"
  have n: "unat (min (getAddrLen a) (getAddrLen b)) = ?n"
    by (simp add: min_def word_le_nat_alt)
  have "take ?n (addr_key a) = take ?n (getAddr a)" "take ?n (addr_key b) = take ?n (getAddr b)"
    by (simp_all add: addr_key_def)
  then show ?thesis
    using assms addr_len [OF assms(1)] addr_len [OF assms(2)]
    by (auto simp: Address_less_def memcmp_def n key_less_def Let_def length_addr_key word_less_nat_alt)
qed

lemma Address_eq_key:
  assumes "wf_address a" "wf_address b"
  shows "Address_eq a b = Inr (addr_key a = addr_key b)"
proof (cases "getAddrLen a = getAddrLen b")
  case True
  then show ?thesis
    using addr_len [OF assms(1)] addr_len [OF assms(2)]
    by (simp add: Address_eq_def memcmp_def cmp_bytes_eq addr_key_def)
next
  case False
  then have "length (addr_key a) \<noteq> length (addr_key b)"
    by (simp add: length_addr_key assms word_unat_eq_iff)
  with False show ?thesis by (auto simp: Address_eq_def)
qed

text \<open>
  C33. The comparison operators of \<^verbatim>\<open>Address\<close> make addresses usable as keys: \<^verbatim>\<open><\<close> never reads outside of the
  two addresses, is transitive, and of two addresses exactly one is below the other unless \<^verbatim>\<open>==\<close> says they
  are equal.
\<close>

theorem address_ordered:
  assumes "wf_address a" "wf_address b" "wf_address c"
  shows "\<exists>lt gt eq. Address_less a b = Inr lt \<and> Address_less b a = Inr gt \<and> Address_eq a b = Inr eq \<and>
    Address_ne a b = Inr (\<not> eq) \<and> (lt \<and> \<not> gt \<and> \<not> eq \<or> \<not> lt \<and> gt \<and> \<not> eq \<or> \<not> lt \<and> \<not> gt \<and> eq) \<and>
    (lt \<and> Address_less b c = Inr True \<longrightarrow> Address_less a c = Inr True)"
proof -
  have "key_less (addr_key a) (addr_key c)" if "key_less (addr_key a) (addr_key b)" "key_less (addr_key b) (addr_key c)"
    using that by (rule address_order.lt_trans)
  moreover have "addr_key a \<noteq> addr_key b \<Longrightarrow> key_less (addr_key a) (addr_key b) \<noteq> key_less (addr_key b) (addr_key a)"
    using address_order.lt_total [of "addr_key a" "addr_key b"] address_order.lt_asym by blast
  moreover have "\<not> key_less (addr_key a) (addr_key a)" by (rule address_order.lt_irrefl)
  ultimately show ?thesis
    by (cases "addr_key a = addr_key b") (auto simp: Address_less_key Address_eq_key Address_ne_def assms)
qed

theorem address_ordered_witness:
  "Address_less (IPv4Address (new_IPv4Address 1 0)) (new_UnknownAddress 3) = Inr True \<and>
   Address_eq (IPv4Address (new_IPv4Address 1 0)) (new_UnknownAddress 3) = Inr False"
proof -
  have "Address_less (IPv4Address (new_IPv4Address 1 0)) (new_UnknownAddress 3) = Inr True" by code_simp
  then show ?thesis
    using address_ordered [of "IPv4Address (new_IPv4Address 1 0)" "new_UnknownAddress 3" "new_UnknownAddress 3"]
    by (auto simp: wf_address_def new_IPv4Address_def new_UnknownAddress_def)
qed

section \<open>Addresses and their bytes\<close>

lemma from_to_le16 [simp]: "from_le (to_le (w::u16)) = w"
  by (rule from_to_le) simp

lemma from_to_le32 [simp]: "from_le (to_le (w::u32)) = w"
  by (rule from_to_le) simp

lemma as_in_bytes: "length (sin_zero s) = 8 \<Longrightarrow> as_in (bytes_in s) = Inr s"
  by (simp add: as_in_def bytes_in_def slice_of_def)

lemma as_in6_bytes: "length (s6_addr s) = 16 \<Longrightarrow> as_in6 (bytes_in6 s) = Inr s"
  by (simp add: as_in6_def bytes_in6_def slice_of_def)

lemma family_of_bytes:
  "family_of (bytes_in s) = sin_family s" "family_of (bytes_in6 t) = sin6_family t"
  "family_of (bytes_un u) = sun_family u" "family_of (bytes_sa v) = sa_family v"
  by (simp_all add: family_of_def bytes_in_def bytes_in6_def bytes_un_def bytes_sa_def)

text \<open>
  An IP address handed to the system with \<^verbatim>\<open>getAddr\<close> and taken back with \<^verbatim>\<open>Address::Create\<close> is the
  same address; for the other families \<^verbatim>\<open>Create\<close> makes no object.
\<close>

theorem create_getAddr:
  assumes "wf_address a" "\<not> is_ip a \<longrightarrow> getFamily a \<notin> {AF_INET, AF_INET6}"
  shows "Address_Create (Some (getAddr a)) = Inr (if is_ip a then Some a else None)"
  using assms
  by (cases a) (simp_all add: wf_address_def Address_Create_def getAddr_def is_ip_def getFamily_def family_of_bytes
      as_in_bytes as_in6_bytes AF_INET_def AF_INET6_def)

theorem create_getAddr_witness:
  "Address_Create (Some (getAddr (IPv6Address new_IPv6Address))) = Inr (Some (IPv6Address new_IPv6Address))"
  using create_getAddr [of "IPv6Address new_IPv6Address"]
  by (simp add: wf_address_def new_IPv6Address_def is_ip_def)


section \<open>The text of an IPv6 address\<close>

definition group_text :: "u16 \<Rightarrow> string" where
  "group_text g = hex (unat (byteswap g))"

primrec join_colon :: "string list \<Rightarrow> string" where
  "join_colon [] = []"
| "join_colon (x # xs) = x @ concat (map (\<lambda>y. '':'' @ y) xs)"

text \<open>
  The reference: the groups in hexadecimal separated by colons, with the first run of zero groups, if there
  is one, replaced by two colons.
\<close>

definition compressed :: "u16 list \<Rightarrow> string" where
  "compressed gs =
    (let pre = takeWhile (\<lambda>g. g \<noteq> 0) gs; rest = dropWhile (\<lambda>g. g \<noteq> 0) gs in
     if rest = [] then join_colon (map group_text pre)
     else join_colon (map group_text pre) @ ''::'' @ join_colon (map group_text (dropWhile (\<lambda>g. g = 0) rest)))"

abbreviation colon_texts :: "u16 list \<Rightarrow> string" where
  "colon_texts gs \<equiv> concat (map (\<lambda>g. '':'' @ group_text g) gs)"

lemma join_colon_map: "join_colon (map group_text (g # gs)) = group_text g @ colon_texts gs"
  by (simp add: comp_def)

lemma insert6_end: "length gs = 8 \<Longrightarrow> i \<ge> 8 \<Longrightarrow> insert6_loop gs i u = ([], u)"
  by (simp add: insert6_loop.simps)

text \<open>After the run of zeros was replaced, every group is printed.\<close>

lemma insert6_used:
  "length gs = 8 \<Longrightarrow> 0 < i \<Longrightarrow> insert6_loop gs i True = (colon_texts (drop i gs), True)"
proof (induction "8 - i" arbitrary: i)
  case 0
  then show ?case by (simp add: insert6_end)
next
  case (Suc n)
  then have "i < 8" by simp
  with Suc show ?case
    by (subst insert6_loop.simps) (simp add: Cons_nth_drop_Suc [symmetric] group_text_def)
qed

text \<open>Behind a zero group that was not printed yet.\<close>

lemma insert6_zeros:
  "length gs = 8 \<Longrightarrow> 0 < i \<Longrightarrow> gs ! (i - 1) = 0 \<Longrightarrow>
   insert6_loop gs i False =
     (case dropWhile (\<lambda>g. g = 0) (drop i gs) of
        [] \<Rightarrow> ([], False) | p # ps \<Rightarrow> ('':'' @ colon_texts (p # ps), True))"
proof (induction "8 - i" arbitrary: i)
  case 0
  then show ?case by (simp add: insert6_end)
next
  case (Suc n)
  then have i: "i < 8" by simp
  have d: "drop i gs = gs ! i # drop (Suc i) gs" using i Suc.prems(1) by (simp add: Cons_nth_drop_Suc)
  show ?case
  proof (cases "gs ! i = 0")
    case True
    with Suc.hyps(1) [of "Suc i"] Suc.hyps(2) Suc.prems(1) i d show ?thesis
      by (subst insert6_loop.simps) simp
  next
    case False
    with Suc.prems i d show ?thesis
      by (subst insert6_loop.simps) (simp add: insert6_used group_text_def)
  qed
qed

text \<open>Behind a group that was printed, and at the start.\<close>

lemma insert6_plain:
  "length gs = 8 \<Longrightarrow> 0 < i \<longrightarrow> gs ! (i - 1) \<noteq> 0 \<Longrightarrow>
   insert6_loop gs i False =
     (let pre = takeWhile (\<lambda>g. g \<noteq> 0) (drop i gs); rest = dropWhile (\<lambda>g. g \<noteq> 0) (drop i gs);
          t = (if i = 0 then join_colon (map group_text pre) else colon_texts pre)
      in case dropWhile (\<lambda>g. g = 0) rest of
           [] \<Rightarrow> (t, False) | p # ps \<Rightarrow> (t @ '':'' @ colon_texts (p # ps), True))"
proof (induction "8 - i" arbitrary: i)
  case 0
  then show ?case by (simp add: insert6_end)
next
  case (Suc n)
  then have i: "i < 8" by simp
  have d: "drop i gs = gs ! i # drop (Suc i) gs" using i Suc.prems(1) by (simp add: Cons_nth_drop_Suc)
  show ?case
  proof (cases "gs ! i = 0")
    case True
    then have "insert6_loop gs i False = insert6_loop gs (Suc i) False"
      using i by (subst insert6_loop.simps) simp
    with True Suc.prems i d insert6_zeros [of gs "Suc i"] show ?thesis
      by (cases "dropWhile (\<lambda>g. g = 0) (drop (Suc i) gs)")
        (simp_all add: Let_def del: dropWhile_eq_Nil_conv)
  next
    case False
    let ?c = "if i = 0 then [] else '':''"
    have "insert6_loop gs i False =
        (case insert6_loop gs (Suc i) False of (rest, u) \<Rightarrow> (?c @ group_text (gs ! i) @ rest, u))"
      using False i Suc.prems(2) by (subst insert6_loop.simps) (auto simp: Let_def group_text_def)
    with False Suc.hyps(1) [of "Suc i"] Suc.hyps(2) Suc.prems i d show ?thesis
      by (cases "dropWhile (\<lambda>g. g = 0) (dropWhile (\<lambda>g. g \<noteq> 0) (drop (Suc i) gs))")
        (simp_all add: Let_def comp_def del: dropWhile_eq_Nil_conv)
  qed
qed

lemma trailing_zeros:
  assumes "rest = dropWhile (\<lambda>g. g \<noteq> 0) gs" "dropWhile (\<lambda>g. g = 0) rest = []" "gs \<noteq> []"
  shows "last gs = 0 \<longleftrightarrow> rest \<noteq> []"
proof (cases "rest = []")
  case True
  then have "dropWhile (\<lambda>g. g \<noteq> 0) gs = []" using assms(1) by simp
  then have "\<forall>g \<in> set gs. g \<noteq> 0" by simp
  with True last_in_set [OF assms(3)] show ?thesis by auto
next
  case False
  then have "last rest = last gs" using assms(1) by (metis last_append takeWhile_dropWhile_id)
  moreover have "last rest = 0" using assms(2) False by (auto simp: dropWhile_eq_Nil_conv)
  ultimately show ?thesis using False by simp
qed

text \<open>
  C34. An IPv6 address is printed in the compressed notation: the text between the brackets is exactly the
  groups in hexadecimal separated by colons with the first run of zero groups replaced by two colons,
  wherever that run stands.
\<close>

theorem ipv6_text:
  "insert_v6 a = ''['' @ compressed (groups a) @ '']:'' @ dec (unat (byteswap (sin6_port a)))"
proof -
  let ?g = "groups a"
  have l: "length ?g = 8" by (simp add: groups_def)
  have last: "?g ! 7 = last ?g" using l by (simp add: last_conv_nth flip: length_greater_0_conv)
  define rest where "rest = dropWhile (\<lambda>g. g \<noteq> 0) ?g"
  show ?thesis
  proof (cases "dropWhile (\<lambda>g. g = 0) rest")
    case Nil
    then have "last ?g = 0 \<longleftrightarrow> rest \<noteq> []" using trailing_zeros [OF rest_def] l by fastforce
    with Nil show ?thesis
      using insert6_plain [OF l, of 0] by (simp add: insert_v6_def compressed_def Let_def last flip: rest_def
          del: dropWhile_eq_Nil_conv)
  next
    case (Cons p ps)
    then have "rest \<noteq> []" by auto
    with Cons show ?thesis
      using insert6_plain [OF l, of 0]
      by (simp add: insert_v6_def compressed_def Let_def join_colon_map comp_def flip: rest_def)
  qed
qed

section \<open>Splitting host names\<close>

lemma memchr_append: "c \<notin> set xs \<Longrightarrow> memchr c (xs @ c # ys) = Some (length xs)"
  by (auto simp: memchr_def takeWhile_append)

lemma memchr_notin: "c \<notin> set xs \<Longrightarrow> memchr c xs = None"
  by (simp add: memchr_def)

lemma memchr_None: "memchr c xs = None \<longleftrightarrow> c \<notin> set xs"
  by (simp add: memchr_def)

text \<open>
  The forms of a host name that \<^verbatim>\<open>Address::LookUp\<close> understands: a name, a name with a port, a bracketed IPv6
  address with and without a port; what it asks \<^verbatim>\<open>getaddrinfo\<close> for are the name and the port.  A bare IPv6
  address, which contains two colons, is passed on whole, but with its part from the first colon on as
  the service.
\<close>

theorem split_host_forms:
  "(CHR '':'' \<notin> set n \<and> CHR '':'' \<notin> set p \<and> n \<noteq> [] \<and> hd n \<noteq> CHR ''['' \<longrightarrow>
      split_host n = (n, None) \<and> split_host (n @ '':'' @ p) = (n, Some p)) \<and>
   (CHR '']'' \<notin> set v \<and> v \<noteq> [] \<longrightarrow>
      split_host (''['' @ v @ '']'') = (v, None) \<and> split_host (''['' @ v @ '']:'' @ p) = (v, Some p)) \<and>
   (CHR '':'' \<notin> set n \<and> CHR '':'' \<in> set q \<and> (n = [] \<or> hd n \<noteq> CHR ''['') \<longrightarrow>
      split_host (n @ '':'' @ q) = (n @ '':'' @ q, Some ('':'' @ q)))"
proof (intro conjI impI)
  assume a: "CHR '':'' \<notin> set n \<and> CHR '':'' \<notin> set p \<and> n \<noteq> [] \<and> hd n \<noteq> CHR ''[''"
  then have "n ! 0 \<noteq> CHR ''[''" by (metis hd_conv_nth)
  with a show "split_host n = (n, None)" "split_host (n @ '':'' @ p) = (n, Some p)"
    by (simp_all add: split_host_def memchr_notin memchr_append nth_append)
next
  assume v: "CHR '']'' \<notin> set v \<and> v \<noteq> []"
  then show "split_host (''['' @ v @ '']'') = (v, None)" "split_host (''['' @ v @ '']:'' @ p) = (v, Some p)"
    by (simp_all add: split_host_def memchr_append slice_of_def cchar_def nth_append eval_nat_numeral)
next
  assume a: "CHR '':'' \<notin> set n \<and> CHR '':'' \<in> set q \<and> (n = [] \<or> hd n \<noteq> CHR ''['')"
  then have "(n @ '':'' @ q) ! 0 \<noteq> CHR ''[''" by (auto simp: hd_conv_nth nth_append)
  with a show "split_host (n @ '':'' @ q) = (n @ '':'' @ q, Some ('':'' @ q))"
    by (simp add: split_host_def memchr_None memchr_append)
qed

theorem split_host_forms_witness:
  "split_host ''www.sylar.top:80'' = (''www.sylar.top'', Some ''80'') \<and>
   split_host ''[fe80::1]:80'' = (''fe80::1'', Some ''80'') \<and> split_host ''fe80::1'' = (''fe80::1'', Some ''::1'')"
  using split_host_forms [of "''www.sylar.top''" "''80''" "''fe80::1''" "''::1''"]
    split_host_forms [of "''fe80''" "''80''" "''fe80::1''" "'':1''"] by simp

section \<open>Unix addresses\<close>

lemma c_str_append: "NUL \<notin> set p \<Longrightarrow> c_str (p @ NUL # r) = p"
  unfolding c_str_def by (induction p) auto

text \<open>
  The path of a Unix address is printed back: a path of at most 107 characters without NUL as it is, an
  abstract name, which starts with NUL, with the NUL written as \<^verbatim>\<open>\0\<close>; longer paths are refused.
\<close>

theorem unix_path_roundtrip:
  assumes "length path < 2 ^ 32 - 1"
  shows "case UnixAddress_of path of
      Inl e \<Rightarrow> e = Path_too_long \<and> length path > 107
    | Inr a \<Rightarrow> wf_address a \<and> getFamily a = AF_UNIX \<and>
        (path \<noteq> [] \<and> NUL \<notin> set path \<longrightarrow> length path \<le> 107 \<and> Address_toString a = Inr path) \<and>
        (path \<noteq> [] \<and> hd path = NUL \<longrightarrow> length path \<le> 108 \<and> Address_toString a = Inr (CHR 0x5C # CHR ''0'' # tl path))"
proof -
  define m where "m = (if path \<noteq> [] \<and> path ! 0 = NUL then length path else length path + 1)"
  have m: "m < 2 ^ 32" "0 < m" using assms by (auto simp: m_def)
  have w: "(if path \<noteq> [] \<and> path ! 0 = NUL then of_nat (length path) + 1 - 1 else of_nat (length path) + 1) =
      (of_nat m :: u32)"
    by (simp add: m_def)
  have u: "unat (of_nat m :: u32) = m" using m by (simp add: unat_of_nat)
  show ?thesis
  proof (cases "m > 108")
    case True
    then have "UnixAddress_of path = Inl Path_too_long"
      by (simp add: UnixAddress_of_def Let_def w word_less_nat_alt u)
    with True show ?thesis by (auto simp: m_def split: if_splits)
  next
    case False
    then have o: "UnixAddress_of path = Inr (UnixAddress \<lparr>sun_family = AF_UNIX,
        sun_path = take m (path @ [NUL]) @ replicate (108 - m) NUL\<rparr> (of_nat m + 2))"
      by (simp add: UnixAddress_of_def Let_def w word_less_nat_alt u)
    have "(of_nat m :: u32) \<noteq> 0" using u m(2) by (metis unat_0 less_irrefl)
    then have l: "unat (of_nat m + 2 :: u32) = m + 2" "unat (of_nat m - 1 :: u32) = m - 1"
      using False m(2) by (simp_all add: unat_word_ariths u unat_minus_one)
    have printed: "Address_toString (UnixAddress s (of_nat m + 2)) =
        (if sun_path s ! 0 = NUL then Inr ([CHR 0x5C, CHR ''0''] @ slice_of 1 (m - 1) (sun_path s))
         else if NUL \<notin> set (sun_path s) then Inl Out_of_bounds else Inr (c_str (sun_path s)))"
      if "length (sun_path s) = 108" for s
      using that False m(2) by (auto simp: Address_toString_def insert_un_def Let_def word_less_nat_alt l)
    have "m \<le> length path + 1" by (simp add: m_def)
    have wf: "wf_address (UnixAddress \<lparr>sun_family = AF_UNIX, sun_path = take m (path @ [NUL]) @ replicate (108 - m) NUL\<rparr> (of_nat m + 2))"
      using False \<open>m \<le> length path + 1\<close> by (auto simp: wf_address_def word_le_nat_alt l min_def)
    have txt_eq: "Address_toString (UnixAddress \<lparr>sun_family = AF_UNIX, sun_path = take m (path @ [NUL]) @ replicate (108 - m) NUL\<rparr> (of_nat m + 2)) =
        (if (take m (path @ [NUL]) @ replicate (108 - m) NUL) ! 0 = NUL
         then Inr ([CHR 0x5C, CHR ''0''] @ slice_of 1 (m - 1) (take m (path @ [NUL]) @ replicate (108 - m) NUL))
         else if NUL \<notin> set (take m (path @ [NUL]) @ replicate (108 - m) NUL) then Inl Out_of_bounds
         else Inr (c_str (take m (path @ [NUL]) @ replicate (108 - m) NUL)))"
      using wf by (subst printed) (simp_all add: wf_address_def)
    show ?thesis
    proof (cases "path \<noteq> [] \<and> path ! 0 = NUL")
      case True
      then have "m = length path" "hd path = NUL" "NUL \<in> set path"
        by (auto simp: m_def hd_conv_nth in_set_conv_nth)
      with True False wf txt_eq show ?thesis
        by (simp add: o getFamily_def getAddr_def family_of_bytes nth_append slice_of_def drop_Suc)
    next
      case nul: False
      then have "m = length path + 1" "path \<noteq> [] \<Longrightarrow> hd path \<noteq> NUL" by (auto simp: m_def hd_conv_nth)
      with nul False wf txt_eq show ?thesis
        by (auto simp: o getFamily_def getAddr_def family_of_bytes nth_append c_str_append)
    qed
  qed
qed


theorem unix_path_roundtrip_witness:
  "\<exists>a b. UnixAddress_of ''/tmp/s'' = Inr a \<and> Address_toString a = Inr ''/tmp/s'' \<and>
     UnixAddress_of [NUL, CHR ''x''] = Inr b \<and> Address_toString b = Inr [CHR 0x5C, CHR ''0'', CHR ''x'']"
  using unix_path_roundtrip [of "''/tmp/s''"] unix_path_roundtrip [of "[NUL, CHR ''x'']"]
  by (simp split: sum.splits)

end
