(* ===== verification/FdManager.thy ===== *)
theory FdManager
  imports Prelude
begin

text \<open>
  \<^verbatim>\<open>fd_manager.cpp\<close> and \<^verbatim>\<open>fd_manager.h\<close>: what the process remembers about its file descriptors.  The
  kernel calls it makes are arguments: \<open>sys_issock\<close> is \<^verbatim>\<open>fstat\<close> followed by \<^verbatim>\<open>S_ISSOCK\<close> (\<open>None\<close> when it fails),
  \<open>sys_getfl\<close> and \<open>sys_setfl\<close> are \<^verbatim>\<open>fcntl\<close> with \<^verbatim>\<open>F_GETFL\<close> and \<^verbatim>\<open>F_SETFL\<close>.  The table of contexts is a vector of
  pointers; \<open>None\<close> as the result of an operation is an access outside of it.
\<close>

record 'k sys =
  sys_issock :: "int \<Rightarrow> 'k \<Rightarrow> bool option"
  sys_getfl :: "int \<Rightarrow> 'k \<Rightarrow> u32"
  sys_setfl :: "int \<Rightarrow> u32 \<Rightarrow> 'k \<Rightarrow> int \<times> 'k"

definition O_NONBLOCK :: u32 where "O_NONBLOCK = 0x800"
definition SO_RCVTIMEO :: int where "SO_RCVTIMEO = 20"
definition SO_SNDTIMEO :: int where "SO_SNDTIMEO = 21"

record FdCtx =
  m_isInit :: bool
  m_isSocket :: bool
  m_sysNonblock :: bool
  m_userNonblock :: bool
  m_isClosed :: bool
  m_fd :: int
  m_recvTimeout :: u64
  m_sendTimeout :: u64

definition FdCtx_init :: "'k sys \<Rightarrow> FdCtx \<Rightarrow> 'k \<Rightarrow> bool \<times> FdCtx \<times> 'k" where
  "FdCtx_init sys c k =
    (if m_isInit c then (True, c, k)
     else
       let c1 = c\<lparr>m_recvTimeout := - 1, m_sendTimeout := - 1\<rparr>;
           c2 = (case sys_issock sys (m_fd c) k of
                   None \<Rightarrow> c1\<lparr>m_isInit := False, m_isSocket := False\<rparr>
                 | Some b \<Rightarrow> c1\<lparr>m_isInit := True, m_isSocket := b\<rparr>);
           (c3, k1) =
             (if m_isSocket c2 then
                let flags = sys_getfl sys (m_fd c) k in
                (c2\<lparr>m_sysNonblock := True\<rparr>,
                 if \<not> has_flag flags O_NONBLOCK then snd (sys_setfl sys (m_fd c) (flags OR O_NONBLOCK) k) else k)
              else (c2\<lparr>m_sysNonblock := False\<rparr>, k))
       in (m_isInit c3, c3\<lparr>m_userNonblock := False, m_isClosed := False\<rparr>, k1))"

definition new_FdCtx :: "'k sys \<Rightarrow> int \<Rightarrow> 'k \<Rightarrow> FdCtx \<times> 'k" where
  "new_FdCtx sys fd k =
    snd (FdCtx_init sys
      \<lparr>m_isInit = False, m_isSocket = False, m_sysNonblock = False, m_userNonblock = False,
       m_isClosed = False, m_fd = fd, m_recvTimeout = ULLONG_MAX, m_sendTimeout = ULLONG_MAX\<rparr> k)"

definition setTimeout :: "int \<Rightarrow> u64 \<Rightarrow> FdCtx \<Rightarrow> FdCtx" where
  "setTimeout type val c =
    (if type = SO_RCVTIMEO then c\<lparr>m_recvTimeout := val\<rparr> else c\<lparr>m_sendTimeout := val\<rparr>)"

definition getTimeout :: "int \<Rightarrow> FdCtx \<Rightarrow> u64" where
  "getTimeout type c = (if type = SO_RCVTIMEO then m_recvTimeout c else m_sendTimeout c)"

type_synonym FdManager = "FdCtx option list"

definition new_FdManager :: FdManager where
  "new_FdManager = replicate 64 None"

text \<open>\<^verbatim>\<open>m_datas.size() <= fd\<close> compares as unsigned numbers, so a negative descriptor is a large one.\<close>

definition out_of_table :: "int \<Rightarrow> FdManager \<Rightarrow> bool" where
  "out_of_table fd D \<longleftrightarrow> fd < 0 \<or> nat fd \<ge> length D"

definition fd_get :: "'k sys \<Rightarrow> int \<Rightarrow> bool \<Rightarrow> FdManager \<Rightarrow> 'k \<Rightarrow> (FdCtx option \<times> FdManager \<times> 'k) option" where
  "fd_get sys fd auto_create D k =
    (if out_of_table fd D \<and> \<not> auto_create then Some (None, D, k)
     else if out_of_table fd D then None
     else if D ! nat fd \<noteq> None \<or> \<not> auto_create then Some (D ! nat fd, D, k)
     else
       let (ctx, k1) = new_FdCtx sys fd k
       in Some (Some ctx, D[nat fd := Some ctx], k1))"

definition fd_del :: "int \<Rightarrow> FdManager \<Rightarrow> FdManager" where
  "fd_del fd D = (if out_of_table fd D then D else D[nat fd := None])"

section \<open>Properties\<close>

text \<open>The contexts of the table: a descriptor's context is its own, and a socket's context says that the
  kernel side is non-blocking.\<close>

definition slot_ok :: "nat \<Rightarrow> FdCtx \<Rightarrow> bool" where
  "slot_ok i c \<longleftrightarrow> m_fd c = int i \<and> \<not> m_isClosed c \<and> m_sysNonblock c = m_isSocket c"

definition fds_ok :: "FdManager \<Rightarrow> bool" where
  "fds_ok D \<longleftrightarrow> length D = 64 \<and> (\<forall>i < length D. \<forall>c. D ! i = Some c \<longrightarrow> slot_ok i c)"

lemma fds_ok_update:
  assumes "fds_ok D" "\<And>c. v = Some c \<Longrightarrow> slot_ok j c"
  shows "fds_ok (D[j := v])"
proof -
  have "slot_ok i c" if "i < length D" "D[j := v] ! i = Some c" for i c
    using assms that by (cases "i = j") (auto simp: fds_ok_def)
  then show ?thesis using assms(1) by (simp add: fds_ok_def)
qed

lemma new_FdCtx_ok:
  "m_fd (fst (new_FdCtx sys fd k)) = fd \<and> \<not> m_isClosed (fst (new_FdCtx sys fd k)) \<and>
   m_sysNonblock (fst (new_FdCtx sys fd k)) = m_isSocket (fst (new_FdCtx sys fd k))"
  by (simp add: new_FdCtx_def FdCtx_init_def Let_def split: option.split)

lemma fd_get_ok:
  assumes ok: "fds_ok D" and get: "fd_get sys fd auto_create D k = Some (r, D', k')"
  shows "fds_ok D'" and "r = Some c \<Longrightarrow> m_fd c = fd \<and> slot_ok (nat fd) c"
proof -
  have "fds_ok D' \<and> (\<forall>c. r = Some c \<longrightarrow> m_fd c = fd \<and> slot_ok (nat fd) c)"
  proof (cases "out_of_table fd D")
    case True
    then show ?thesis using ok get by (auto simp: fd_get_def split: if_split_asm)
  next
    case False
    then have fd: "0 \<le> fd" "nat fd < length D" by (auto simp: out_of_table_def)
    show ?thesis
    proof (cases "D ! nat fd \<noteq> None \<or> \<not> auto_create")
      case True
      then have "D' = D" "r = D ! nat fd" using get False by (auto simp: fd_get_def)
      then show ?thesis using ok fd by (auto simp: fds_ok_def slot_ok_def)
    next
      case new: False
      let ?c = "fst (new_FdCtx sys fd k)"
      have eq: "D' = D[nat fd := Some ?c]" "r = Some ?c"
        using get new False by (auto simp: fd_get_def Let_def split: prod.split_asm)
      have "slot_ok (nat fd) ?c" "m_fd ?c = fd" using new_FdCtx_ok [of sys fd k] fd by (auto simp: slot_ok_def)
      then show ?thesis using fds_ok_update [OF ok] eq by auto
    qed
  qed
  then show "fds_ok D'" and "r = Some c \<Longrightarrow> m_fd c = fd \<and> slot_ok (nat fd) c" by auto
qed

lemma fd_del_ok: "fds_ok D \<Longrightarrow> fds_ok (fd_del fd D)"
  by (auto simp: fd_del_def intro: fds_ok_update)

inductive fds_reachable :: "'k sys \<Rightarrow> FdManager \<Rightarrow> bool" for sys where
  Start: "fds_reachable sys new_FdManager"
| Get: "fds_reachable sys D \<Longrightarrow> fd_get sys fd b D k = Some (r, D', k') \<Longrightarrow> fds_reachable sys D'"
| Del: "fds_reachable sys D \<Longrightarrow> fds_reachable sys (fd_del fd D)"
| Time: "fds_reachable sys D \<Longrightarrow> i < length D \<Longrightarrow> D ! i = Some c \<Longrightarrow>
    fds_reachable sys (D[i := Some (setTimeout type val c)])"
| Nonblock: "fds_reachable sys D \<Longrightarrow> i < length D \<Longrightarrow> D ! i = Some c \<Longrightarrow>
    fds_reachable sys (D[i := Some (c\<lparr>m_userNonblock := b\<rparr>)])"

lemma fds_reachable_ok: "fds_reachable sys D \<Longrightarrow> fds_ok D"
proof (induction rule: fds_reachable.induct)
  case Start
  then show ?case by (simp add: fds_ok_def new_FdManager_def)
next
  case (Get D fd b k r D' k')
  show ?case by (rule fd_get_ok(1) [OF Get.IH Get.hyps(2)])
next
  case (Del D fd)
  then show ?case by (simp add: fd_del_ok)
next
  case (Time D i c type val)
  then have "slot_ok i c" by (simp add: fds_ok_def)
  then show ?case using Time.IH by (intro fds_ok_update) (auto simp: slot_ok_def setTimeout_def split: if_split_asm)
next
  case (Nonblock D i c b)
  then have "slot_ok i c" by (simp add: fds_ok_def)
  then show ?case using Nonblock.IH by (intro fds_ok_update) (auto simp: slot_ok_def)
qed

text \<open>
  The table of descriptors never grows beyond the 64 entries it starts with: creating the context of
  a descriptor accesses the table outside of its bounds exactly when the descriptor is not below 64, and
  looking one up without creating it never does; what is found is the descriptor's own context, and a
  socket's context always records that the descriptor is non-blocking for the kernel.
\<close>

theorem fd_table_bounds:
  assumes "fds_reachable sys D"
  shows "(fd_get sys fd auto_create D k = None \<longleftrightarrow> auto_create \<and> \<not> (0 \<le> fd \<and> fd < 64)) \<and>
    (\<forall>c D' k'. fd_get sys fd auto_create D k = Some (Some c, D', k') \<longrightarrow>
       m_fd c = fd \<and> \<not> m_isClosed c \<and> m_sysNonblock c = m_isSocket c)"
proof (intro conjI allI impI)
  have ok: "fds_ok D" using fds_reachable_ok [OF assms] .
  then have "length D = 64" by (simp add: fds_ok_def)
  then show "fd_get sys fd auto_create D k = None \<longleftrightarrow> auto_create \<and> \<not> (0 \<le> fd \<and> fd < 64)"
    by (auto simp: fd_get_def out_of_table_def Let_def split: prod.split)
  fix c D' k' assume "fd_get sys fd auto_create D k = Some (Some c, D', k')"
  from fd_get_ok(2) [OF ok this refl]
  show "m_fd c = fd" "\<not> m_isClosed c" "m_sysNonblock c = m_isSocket c" by (auto simp: slot_ok_def)
qed

definition sample_sys :: "unit sys" where
  "sample_sys = \<lparr>sys_issock = (\<lambda>fd k. Some True), sys_getfl = (\<lambda>fd k. 2), sys_setfl = (\<lambda>fd f k. (0, k))\<rparr>"

theorem fd_table_bounds_witness:
  "fd_get sample_sys 64 True new_FdManager () = None \<and> fd_get sample_sys 63 True new_FdManager () \<noteq> None"
  using fd_table_bounds [OF fds_reachable.Start, of sample_sys 64 True "()"]
    fd_table_bounds [OF fds_reachable.Start, of sample_sys 63 True "()"] by simp

end
