(* ===== verification/Fiber.thy ===== *)
theory Fiber
  imports Prelude
begin

text \<open>
  \<^verbatim>\<open>fiber.cpp\<close> and \<^verbatim>\<open>fiber.h\<close>: the fibers of one thread.  Fiber objects live in a heap under their
  addresses.  The machine context in \<^verbatim>\<open>m_ctx\<close> is described by the execution it resumes: a fresh
  context made by \<^verbatim>\<open>makecontext\<close> starts the fiber's own entry function, a saved one continues the
  execution that was running when \<^verbatim>\<open>swapcontext\<close> stored it.  An execution is named by the address of
  the fiber it belongs to, and \<open>running\<close> is the one on the processor.  Operations return \<open>None\<close>
  when an assertion fails or a null pointer is used; \<^verbatim>\<open>getcontext\<close>, \<^verbatim>\<open>swapcontext\<close> and \<^verbatim>\<open>malloc\<close> are
  taken to succeed, and log output is left out.
\<close>

section \<open>State\<close>

datatype State = INIT | HOLD | EXEC | State_TERM | READY | EXCEPT

datatype entry = Main_func | Caller_main_func

datatype context_t = Unset | Fresh entry | Saved nat

record 'c Fiber =
  fb_id :: u64
  fb_stacksize :: u32
  fb_state :: State
  fb_ctx :: context_t
  fb_stack :: bool
  fb_cb :: "'c option"

text \<open>The globals of \<^verbatim>\<open>fiber.cpp\<close>, the scheduler's main fiber of the thread (\<^verbatim>\<open>t_fiber\<close> of
  \<^verbatim>\<open>scheduler.cpp\<close>) and the execution on the processor.\<close>

record 'c fiber_thread =
  heap :: "nat \<rightharpoonup> 'c Fiber"
  s_fiber_id :: u64
  s_fiber_count :: u64
  t_fiber :: "nat option"
  t_threadFiber :: "nat option"
  main_fiber :: "nat option"
  running :: nat

definition upd_fiber :: "nat \<Rightarrow> ('c Fiber \<Rightarrow> 'c Fiber) \<Rightarrow> 'c fiber_thread \<Rightarrow> 'c fiber_thread" where
  "upd_fiber a f T = T\<lparr>heap := (heap T)(a := map_option f (heap T a))\<rparr>"

section \<open>Operations\<close>

definition SetThis :: "nat option \<Rightarrow> 'c fiber_thread \<Rightarrow> 'c fiber_thread" where
  "SetThis f T = T\<lparr>t_fiber := f\<rparr>"

definition GetFiberId :: "'c fiber_thread \<Rightarrow> u64" where
  "GetFiberId T = (case t_fiber T of None \<Rightarrow> 0 | Some a \<Rightarrow> fb_id (the (heap T a)))"

text \<open>The private constructor: the main fiber of the thread, for the execution that is running.\<close>

definition new_main_Fiber :: "nat \<Rightarrow> 'c fiber_thread \<Rightarrow> 'c fiber_thread" where
  "new_main_Fiber a T =
    (SetThis (Some a) T)
      \<lparr>heap := (heap T)(a \<mapsto> \<lparr>fb_id = 0, fb_stacksize = 0, fb_state = EXEC, fb_ctx = Saved (running T),
                         fb_stack = False, fb_cb = None\<rparr>),
       s_fiber_count := s_fiber_count T + 1\<rparr>"

definition new_Fiber ::
  "u32 \<Rightarrow> nat \<Rightarrow> 'c option \<Rightarrow> u64 \<Rightarrow> bool \<Rightarrow> 'c fiber_thread \<Rightarrow> 'c fiber_thread" where
  "new_Fiber g_stack_size a cb stacksize use_caller T =
    T\<lparr>s_fiber_id := s_fiber_id T + 1, s_fiber_count := s_fiber_count T + 1,
      heap := (heap T)(a \<mapsto>
        \<lparr>fb_id = s_fiber_id T + 1,
         fb_stacksize = (if stacksize \<noteq> 0 then ucast stacksize else g_stack_size),
         fb_state = INIT, fb_ctx = Fresh (if use_caller then Caller_main_func else Main_func),
         fb_stack = True, fb_cb = cb\<rparr>)\<rparr>"

definition destroy_Fiber :: "nat \<Rightarrow> 'c fiber_thread \<Rightarrow> 'c fiber_thread option" where
  "destroy_Fiber a T =
    (case heap T a of
       None \<Rightarrow> None
     | Some f \<Rightarrow>
         let T1 = T\<lparr>s_fiber_count := s_fiber_count T - 1, heap := (heap T)(a := None)\<rparr> in
         if fb_stack f then
           if fb_state f \<in> {State_TERM, INIT, EXCEPT} then Some T1 else None
         else if fb_cb f \<noteq> None \<or> fb_state f \<noteq> EXEC then None
         else Some (if t_fiber T = Some a then SetThis None T1 else T1))"

definition reset_fiber :: "nat \<Rightarrow> 'c option \<Rightarrow> 'c fiber_thread \<Rightarrow> 'c fiber_thread option" where
  "reset_fiber a cb T =
    (case heap T a of
       None \<Rightarrow> None
     | Some f \<Rightarrow>
         if \<not> fb_stack f \<or> fb_state f \<notin> {State_TERM, EXCEPT, INIT} then None
         else Some (upd_fiber a (\<lambda>f. f\<lparr>fb_cb := cb, fb_ctx := Fresh Main_func, fb_state := INIT\<rparr>) T))"

text \<open>\<^verbatim>\<open>swapcontext\<close>: the running execution is stored in the first fiber's context, the second one's
  continues.\<close>

definition swapcontext :: "nat \<Rightarrow> nat \<Rightarrow> 'c fiber_thread \<Rightarrow> 'c fiber_thread option" where
  "swapcontext save load T =
    (if heap T save = None then None
     else
       let T1 = upd_fiber save (\<lambda>f. f\<lparr>fb_ctx := Saved (running T)\<rparr>) T in
       case heap T1 load of
         None \<Rightarrow> None
       | Some f \<Rightarrow>
           (case fb_ctx f of
              Unset \<Rightarrow> None
            | Fresh _ \<Rightarrow> Some (T1\<lparr>running := load\<rparr>)
            | Saved e \<Rightarrow> Some (T1\<lparr>running := e\<rparr>)))"

definition set_state :: "nat \<Rightarrow> State \<Rightarrow> 'c fiber_thread \<Rightarrow> 'c fiber_thread" where
  "set_state a s T = upd_fiber a (\<lambda>f. f\<lparr>fb_state := s\<rparr>) T"

definition fiber_call :: "nat \<Rightarrow> 'c fiber_thread \<Rightarrow> 'c fiber_thread option" where
  "fiber_call a T =
    (let T1 = set_state a EXEC (SetThis (Some a) T) in
     case t_threadFiber T of None \<Rightarrow> None | Some m \<Rightarrow> swapcontext m a T1)"

definition fiber_back :: "nat \<Rightarrow> 'c fiber_thread \<Rightarrow> 'c fiber_thread option" where
  "fiber_back a T =
    (let T1 = SetThis (t_threadFiber T) T in
     case t_threadFiber T of None \<Rightarrow> None | Some m \<Rightarrow> swapcontext a m T1)"

definition swapIn :: "nat \<Rightarrow> 'c fiber_thread \<Rightarrow> 'c fiber_thread option" where
  "swapIn a T =
    (case heap T a of
       None \<Rightarrow> None
     | Some f \<Rightarrow>
         if fb_state f = EXEC then None
         else
           let T1 = set_state a EXEC (SetThis (Some a) T) in
           case main_fiber T of None \<Rightarrow> None | Some m \<Rightarrow> swapcontext m a T1)"

definition swapOut :: "nat \<Rightarrow> 'c fiber_thread \<Rightarrow> 'c fiber_thread option" where
  "swapOut a T =
    (let T1 = SetThis (main_fiber T) T in
     case main_fiber T of None \<Rightarrow> None | Some m \<Rightarrow> swapcontext a m T1)"

text \<open>\<^verbatim>\<open>GetThis\<close>; the address is used when the main fiber has to be created.\<close>

definition GetThis :: "nat \<Rightarrow> 'c fiber_thread \<Rightarrow> nat \<times> 'c fiber_thread" where
  "GetThis a T =
    (case t_fiber T of
       Some f \<Rightarrow> (f, T)
     | None \<Rightarrow> (a, (new_main_Fiber a T)\<lparr>t_threadFiber := Some a\<rparr>))"

definition YieldToReady :: "nat \<Rightarrow> 'c fiber_thread \<Rightarrow> 'c fiber_thread option" where
  "YieldToReady a T = (let (cur, T1) = GetThis a T in swapOut cur (set_state cur READY T1))"

definition YieldToHold :: "nat \<Rightarrow> 'c fiber_thread \<Rightarrow> 'c fiber_thread option" where
  "YieldToHold a T = (let (cur, T1) = GetThis a T in swapOut cur (set_state cur HOLD T1))"

definition TotalFibers :: "'c fiber_thread \<Rightarrow> u64" where
  "TotalFibers T = s_fiber_count T"

text \<open>The end of \<^verbatim>\<open>MainFunc\<close> and \<^verbatim>\<open>CallerMainFunc\<close>: the callback returned or threw.\<close>

datatype cb_result = Returned | Threw

definition finish_cb :: "cb_result \<Rightarrow> nat \<Rightarrow> 'c fiber_thread \<Rightarrow> 'c fiber_thread" where
  "finish_cb r a T =
    (case r of
       Returned \<Rightarrow> upd_fiber a (\<lambda>f. f\<lparr>fb_cb := None, fb_state := State_TERM\<rparr>) T
     | Threw \<Rightarrow> set_state a EXCEPT T)"

definition MainFunc :: "cb_result \<Rightarrow> nat \<Rightarrow> 'c fiber_thread \<Rightarrow> 'c fiber_thread option" where
  "MainFunc r a T = (let (cur, T1) = GetThis a T in swapOut cur (finish_cb r cur T1))"

definition CallerMainFunc :: "cb_result \<Rightarrow> nat \<Rightarrow> 'c fiber_thread \<Rightarrow> 'c fiber_thread option" where
  "CallerMainFunc r a T = (let (cur, T1) = GetThis a T in fiber_back cur (finish_cb r cur T1))"

section \<open>Use of the fibers by one worker thread\<close>

text \<open>
  How \<^verbatim>\<open>Scheduler::run\<close> and the code it runs use these operations on a thread of its own: the main
  fiber creates, resets, destroys and resumes fibers, a resumed fiber yields or ends.
  A fiber that \<^verbatim>\<open>IOManager::idle\<close> swaps out as it is stays in \<^verbatim>\<open>EXEC\<close> until the scheduler sets it to
  \<^verbatim>\<open>HOLD\<close>.
\<close>

inductive fiber_step :: "nat \<Rightarrow> 'c fiber_thread \<Rightarrow> 'c fiber_thread \<Rightarrow> bool" for m where
  New: "running T = m \<Longrightarrow> heap T a = None \<Longrightarrow> fiber_step m T (new_Fiber g a cb n False T)"
| Reset: "running T = m \<Longrightarrow> reset_fiber a cb T = Some T' \<Longrightarrow> fiber_step m T T'"
| Destroy: "running T = m \<Longrightarrow> a \<noteq> m \<Longrightarrow> destroy_Fiber a T = Some T' \<Longrightarrow> fiber_step m T T'"
| Resume: "running T = m \<Longrightarrow> heap T a = Some f \<Longrightarrow> fb_state f \<notin> {State_TERM, EXCEPT} \<Longrightarrow>
    swapIn a T = Some T' \<Longrightarrow> fiber_step m T T'"
| Ready: "running T \<noteq> m \<Longrightarrow> YieldToReady b T = Some T' \<Longrightarrow> fiber_step m T T'"
| Hold: "running T \<noteq> m \<Longrightarrow> YieldToHold b T = Some T' \<Longrightarrow> fiber_step m T T'"
| Finish: "running T \<noteq> m \<Longrightarrow> MainFunc r b T = Some T' \<Longrightarrow> fiber_step m T T'"
| Swap_hold: "running T \<noteq> m \<Longrightarrow> swapOut (running T) T = Some T1 \<Longrightarrow>
    fiber_step m T (set_state (running T) HOLD T1)"

inductive fibers_reachable :: "nat \<Rightarrow> 'c fiber_thread \<Rightarrow> bool" for m where
  Start: "T = (snd (GetThis m \<lparr>heap = H, s_fiber_id = i, s_fiber_count = n, t_fiber = None,
      t_threadFiber = None, main_fiber = Some m, running = m\<rparr>)) \<Longrightarrow> H = Map.empty \<Longrightarrow> fibers_reachable m T"
| Step: "fibers_reachable m T \<Longrightarrow> fiber_step m T T' \<Longrightarrow> fibers_reachable m T'"

text \<open>The invariant: \<^verbatim>\<open>t_fiber\<close> is the execution on the processor, it is marked as executing, nothing else
  is except the main fiber, and every suspended fiber's context resumes that fiber and no other.\<close>

definition resumes :: "nat \<Rightarrow> 'c Fiber \<Rightarrow> bool" where
  "resumes a f \<longleftrightarrow> fb_ctx f = (if fb_state f = INIT then Fresh Main_func else Saved a)"

definition fiber_ok :: "nat \<Rightarrow> nat \<Rightarrow> nat \<Rightarrow> 'c Fiber \<Rightarrow> bool" where
  "fiber_ok m r a f \<longleftrightarrow>
    (a = m \<or> fb_stack f) \<and> (a \<noteq> r \<longrightarrow> resumes a f) \<and> (fb_state f = EXEC \<longrightarrow> a = m \<or> a = r)"

definition fibers_ok :: "nat \<Rightarrow> 'c fiber_thread \<Rightarrow> bool" where
  "fibers_ok m T \<longleftrightarrow>
    t_fiber T = Some (running T) \<and> main_fiber T = Some m \<and> t_threadFiber T = Some m \<and>
    (\<exists>f. heap T m = Some f \<and> fb_state f = EXEC \<and> \<not> fb_stack f \<and> fb_cb f = None) \<and>
    (\<exists>f. heap T (running T) = Some f \<and> fb_state f = EXEC) \<and>
    (\<forall>a f. heap T a = Some f \<longrightarrow> fiber_ok m (running T) a f)"

lemma fibers_okI:
  assumes "t_fiber T = Some (running T)" "main_fiber T = Some m" "t_threadFiber T = Some m"
    "heap T m = Some f" "fb_state f = EXEC" "\<not> fb_stack f" "fb_cb f = None"
    "heap T (running T) = Some g" "fb_state g = EXEC"
    and "\<And>a f. heap T a = Some f \<Longrightarrow> fiber_ok m (running T) a f"
  shows "fibers_ok m T"
  using assms unfolding fibers_ok_def by blast

lemmas fiber_defs = SetThis_def set_state_def upd_fiber_def Let_def

text \<open>A switch between two fibers of which the second can be resumed.\<close>

lemma swapcontext_eq:
  assumes "heap T save = Some f" "heap T load = Some g" "save \<noteq> load"
    and "resumes load g"
  shows "swapcontext save load T =
    Some (T\<lparr>heap := (heap T)(save \<mapsto> f\<lparr>fb_ctx := Saved (running T)\<rparr>), running := load\<rparr>)"
  using assms by (simp add: swapcontext_def fiber_defs resumes_def)

lemma fibers_okD:
  assumes "fibers_ok m T"
  obtains f g where "t_fiber T = Some (running T)" "main_fiber T = Some m" "t_threadFiber T = Some m"
    "heap T m = Some f" "fb_state f = EXEC" "\<not> fb_stack f" "fb_cb f = None"
    "heap T (running T) = Some g" "fb_state g = EXEC"
  using assms unfolding fibers_ok_def by blast

lemma fibers_ok_heap:
  assumes "fibers_ok m T" "heap T a = Some f"
  shows "a = m \<or> fb_stack f" and "a \<noteq> running T \<Longrightarrow> resumes a f"
    and "fb_state f = EXEC \<Longrightarrow> a = m \<or> a = running T"
  using assms unfolding fibers_ok_def fiber_ok_def by blast+

lemma resume_ok:
  assumes ok: "fibers_ok m T" and m: "running T = m" and f: "heap T a = Some f"
    and st: "fb_state f \<noteq> EXEC"
  obtains T' where "swapIn a T = Some T'" "fibers_ok m T'" "running T' = a" "dom (heap T') = dom (heap T)"
    "\<And>b. b \<noteq> a \<Longrightarrow> b \<noteq> m \<Longrightarrow> heap T' b = heap T b"
proof -
  from ok obtain g where g: "heap T m = Some g" "fb_state g = EXEC" "\<not> fb_stack g" "fb_cb g = None"
    and glob: "main_fiber T = Some m" "t_threadFiber T = Some m"
    by (elim fibers_okD) simp
  have am: "a \<noteq> m" using f g st by auto
  have r: "resumes a f" using fibers_ok_heap(2) [OF ok f] am m by simp
  have "fb_state f = INIT \<and> fb_ctx f = Fresh Main_func \<or> fb_state f \<noteq> INIT \<and> fb_ctx f = Saved a"
    using r by (auto simp: resumes_def)
  then have run: "swapIn a T = Some (T\<lparr>t_fiber := Some a,
      heap := (heap T)(a \<mapsto> f\<lparr>fb_state := EXEC\<rparr>, m \<mapsto> g\<lparr>fb_ctx := Saved m\<rparr>), running := a\<rparr>)"
    using f g st am glob m by (auto simp: swapIn_def swapcontext_def fiber_defs)
  let ?T = "T\<lparr>t_fiber := Some a,
      heap := (heap T)(a \<mapsto> f\<lparr>fb_state := EXEC\<rparr>, m \<mapsto> g\<lparr>fb_ctx := Saved m\<rparr>), running := a\<rparr>"
  have "fibers_ok m ?T"
  proof (rule fibers_okI [where f = "g\<lparr>fb_ctx := Saved m\<rparr>" and g = "f\<lparr>fb_state := EXEC\<rparr>"])
    fix b k assume b: "heap ?T b = Some k"
    consider "b = m" | "b = a" "b \<noteq> m" | "b \<noteq> m" "b \<noteq> a" "heap T b = Some k"
      using b by (cases "b = m"; cases "b = a") auto
    then show "fiber_ok m (running ?T) b k"
    proof cases
      case 1
      then show ?thesis using b g by (auto simp: fiber_ok_def resumes_def)
    next
      case 2
      then show ?thesis using b fibers_ok_heap(1) [OF ok f] by (auto simp: fiber_ok_def)
    next
      case 3
      then show ?thesis using fibers_ok_heap [OF ok 3(3)] m by (auto simp: fiber_ok_def)
    qed
  qed (use g glob am in simp_all)
  moreover have "dom (heap ?T) = dom (heap T)" using f g by auto
  ultimately show thesis using that run by simp
qed

definition suspended :: "nat \<Rightarrow> nat \<Rightarrow> 'c Fiber \<Rightarrow> 'c fiber_thread \<Rightarrow> 'c fiber_thread" where
  "suspended m a h T =
    T\<lparr>t_fiber := Some m, heap := (heap T)(a \<mapsto> h\<lparr>fb_ctx := Saved a\<rparr>), running := m\<rparr>"

lemma swapOut_eq:
  assumes ok: "fibers_ok m T" and a: "running T = a" "a \<noteq> m"
  shows "swapOut a (T\<lparr>heap := (heap T)(a \<mapsto> h)\<rparr>) = Some (suspended m a h T)"
proof -
  from ok obtain g where g: "heap T m = Some g" and glob: "main_fiber T = Some m"
    by (elim fibers_okD) simp
  have "resumes m g" using fibers_ok_heap(2) [OF ok g] a by simp
  then show ?thesis
    using swapcontext_eq [of "SetThis (Some m) (T\<lparr>heap := (heap T)(a \<mapsto> h)\<rparr>)" a h m g] g a glob
    by (simp add: swapOut_def suspended_def fiber_defs)
qed

lemma suspended_ok:
  assumes ok: "fibers_ok m T" and a: "running T = a" "a \<noteq> m"
    and st: "fb_state h \<notin> {EXEC, INIT}" and hs: "fb_stack h"
  shows "fibers_ok m (suspended m a h T)"
proof -
  from ok obtain g where g: "heap T m = Some g" "fb_state g = EXEC" "\<not> fb_stack g" "fb_cb g = None"
    and glob: "main_fiber T = Some m" "t_threadFiber T = Some m"
    by (elim fibers_okD) simp
  show ?thesis
  proof (rule fibers_okI)
    fix b k assume b: "heap (suspended m a h T) b = Some k"
    show "fiber_ok m (running (suspended m a h T)) b k"
    proof (cases "b = a")
      case True
      then show ?thesis using b st hs a by (auto simp: suspended_def fiber_ok_def resumes_def)
    next
      case False
      then have k: "heap T b = Some k" using b by (simp add: suspended_def)
      show ?thesis using fibers_ok_heap [OF ok k] False a(1) by (auto simp: suspended_def fiber_ok_def)
    qed
  qed (use g glob a in \<open>simp_all add: suspended_def\<close>)
qed

text \<open>Yielding and ending are suspensions of the running fiber.\<close>

lemma suspend_forms:
  assumes "fibers_ok m T" and "heap T (running T) = Some f"
  shows "YieldToReady b T = swapOut (running T) (T\<lparr>heap := (heap T)(running T \<mapsto> f\<lparr>fb_state := READY\<rparr>)\<rparr>)"
    and "YieldToHold b T = swapOut (running T) (T\<lparr>heap := (heap T)(running T \<mapsto> f\<lparr>fb_state := HOLD\<rparr>)\<rparr>)"
    and "MainFunc Returned b T =
      swapOut (running T) (T\<lparr>heap := (heap T)(running T \<mapsto> f\<lparr>fb_cb := None, fb_state := State_TERM\<rparr>)\<rparr>)"
    and "MainFunc Threw b T =
      swapOut (running T) (T\<lparr>heap := (heap T)(running T \<mapsto> f\<lparr>fb_state := EXCEPT\<rparr>)\<rparr>)"
  using assms by (simp_all add: fibers_ok_def YieldToReady_def YieldToHold_def MainFunc_def finish_cb_def
      GetThis_def fiber_defs)

lemma running_fiber:
  assumes "fibers_ok m T" "running T \<noteq> m"
  obtains f where "heap T (running T) = Some f" "fb_stack f" "fb_state f = EXEC"
  using assms fibers_ok_heap(1) [OF assms(1)] by (elim fibers_okD) blast

text \<open>Changes of fibers that are neither the main nor the running one.\<close>

lemma other_fiber_ok:
  assumes ok: "fibers_ok m T" and a: "a \<noteq> m" "a \<noteq> running T"
    and h: "\<And>f. h = Some f \<Longrightarrow> fiber_ok m (running T) a f"
  shows "fibers_ok m (T\<lparr>s_fiber_id := i, s_fiber_count := n, heap := (heap T)(a := h)\<rparr>)"
proof -
  have "fiber_ok m (running T) b k" if "((heap T)(a := h)) b = Some k" for b k
    using that h ok by (cases "b = a") (auto simp: fibers_ok_def)
  then show ?thesis using ok a by (simp add: fibers_ok_def)
qed

lemma fiber_step_ok:
  assumes "fiber_step m T T'" "fibers_ok m T"
  shows "fibers_ok m T'"
  using assms
proof (induction rule: fiber_step.induct)
  case (New T a g cb n)
  then have "a \<noteq> m" "a \<noteq> running T" by (auto simp: fibers_ok_def)
  then show ?case
    unfolding new_Fiber_def
    by (intro other_fiber_ok [OF New(3)]) (auto simp: fiber_ok_def resumes_def)
next
  case (Reset T a cb T')
  then obtain f where f: "heap T a = Some f" "fb_stack f" "fb_state f \<noteq> EXEC"
    and T': "T' = upd_fiber a (\<lambda>f. f\<lparr>fb_cb := cb, fb_ctx := Fresh Main_func, fb_state := INIT\<rparr>) T"
    by (auto simp: reset_fiber_def split: option.split_asm if_split_asm)
  have "a \<noteq> m" using f Reset(3) by (auto simp: fibers_ok_def)
  then show ?case
    using other_fiber_ok [OF Reset(3), where a = a and i = "s_fiber_id T" and n = "s_fiber_count T" and
        h = "Some (f\<lparr>fb_cb := cb, fb_ctx := Fresh Main_func, fb_state := INIT\<rparr>)"] Reset(1) f
    by (auto simp: T' upd_fiber_def fiber_ok_def resumes_def)
next
  case (Destroy T a T')
  then have "T' = T\<lparr>s_fiber_count := s_fiber_count T - 1, heap := (heap T)(a := None)\<rparr>"
    by (auto simp: destroy_Fiber_def fibers_ok_def fiber_defs split: option.split_asm if_split_asm)
  then show ?case
    using other_fiber_ok [OF Destroy(4), where a = a and h = None and i = "s_fiber_id T" and n = "s_fiber_count T - 1"] Destroy(1,2) by simp
next
  case (Resume T a f T')
  then have "fb_state f \<noteq> EXEC" by (auto simp: swapIn_def)
  then show ?case using resume_ok [OF Resume(5) Resume(1,2)] Resume(4) by (metis option.inject)
next
  case (Ready T b T')
  then obtain f where "heap T (running T) = Some f" "fb_stack f" by (metis running_fiber)
  then show ?case
    using Ready suspend_forms(1) [OF Ready(3)] swapOut_eq [OF Ready(3) refl Ready(1)]
      suspended_ok [OF Ready(3) refl Ready(1), of "f\<lparr>fb_state := READY\<rparr>"] by simp
next
  case (Hold T b T')
  then obtain f where "heap T (running T) = Some f" "fb_stack f" by (metis running_fiber)
  then show ?case
    using Hold suspend_forms(2) [OF Hold(3)] swapOut_eq [OF Hold(3) refl Hold(1)]
      suspended_ok [OF Hold(3) refl Hold(1), of "f\<lparr>fb_state := HOLD\<rparr>"] by simp
next
  case (Finish T r b T')
  then obtain f where f: "heap T (running T) = Some f" "fb_stack f" by (metis running_fiber)
  then show ?case
    using Finish suspend_forms(3,4) [OF Finish(3)] swapOut_eq [OF Finish(3) refl Finish(1)]
      suspended_ok [OF Finish(3) refl Finish(1), of "f\<lparr>fb_cb := None, fb_state := State_TERM\<rparr>"]
      suspended_ok [OF Finish(3) refl Finish(1), of "f\<lparr>fb_state := EXCEPT\<rparr>"]
    by (cases r) simp_all
next
  case (Swap_hold T T1)
  then obtain f where f: "heap T (running T) = Some f" "fb_stack f" by (metis running_fiber)
  have "T\<lparr>heap := (heap T)(running T \<mapsto> f)\<rparr> = T" using f(1) by (simp add: map_upd_triv)
  then have "T1 = suspended m (running T) f T"
    using swapOut_eq [OF Swap_hold(3) refl Swap_hold(1), of f] Swap_hold(2) by simp
  then have "set_state (running T) HOLD T1 = suspended m (running T) (f\<lparr>fb_state := HOLD\<rparr>) T"
    by (cases f) (simp add: suspended_def fiber_defs)
  then show ?case using suspended_ok [OF Swap_hold(3) refl Swap_hold(1), of "f\<lparr>fb_state := HOLD\<rparr>"] f(2) by simp
qed

lemma fibers_reachable_ok: "fibers_reachable m T \<Longrightarrow> fibers_ok m T"
proof (induction rule: fibers_reachable.induct)
  case (Start T H i n)
  then show ?case
    by (simp add: GetThis_def new_main_Fiber_def SetThis_def fibers_ok_def fiber_ok_def)
next
  case (Step T T')
  then show ?case using fiber_step_ok by blast
qed

section \<open>Properties\<close>

text \<open>
  C21. In every state a worker thread reaches, \<^verbatim>\<open>Fiber::GetThis\<close> is the fiber that is on the processor; it
  is in state \<^verbatim>\<open>EXEC\<close>, as is no other fiber than the thread's main fiber; a fiber in \<^verbatim>\<open>INIT\<close> starts
  its callback from the beginning when it is resumed, and any other suspended fiber continues its own
  execution, never that of another fiber.
\<close>

theorem fibers_reachable_inv:
  assumes "fibers_reachable m T"
  shows "fst (GetThis b T) = running T \<and>
    (\<exists>f. heap T (running T) = Some f \<and> fb_state f = EXEC) \<and>
    (\<forall>a f. heap T a = Some f \<and> a \<noteq> running T \<longrightarrow>
       (fb_state f = EXEC \<longrightarrow> a = m) \<and>
       fb_ctx f = (if fb_state f = INIT then Fresh Main_func else Saved a))"
proof -
  have ok: "fibers_ok m T" using fibers_reachable_ok [OF assms] .
  then have "fst (GetThis b T) = running T" by (simp add: fibers_ok_def GetThis_def)
  moreover have "(fb_state f = EXEC \<longrightarrow> a = m) \<and> resumes a f" if "heap T a = Some f" "a \<noteq> running T" for a f
    using fibers_ok_heap [OF ok that(1)] that(2) by auto
  moreover have "\<exists>f. heap T (running T) = Some f \<and> fb_state f = EXEC" using ok by (simp add: fibers_ok_def)
  ultimately show ?thesis unfolding resumes_def by blast
qed

definition sample_start :: "string fiber_thread" where
  "sample_start = snd (GetThis 0 \<lparr>heap = Map.empty, s_fiber_id = 0, s_fiber_count = 0, t_fiber = None,
      t_threadFiber = None, main_fiber = Some 0, running = 0\<rparr>)"

definition sample_run :: "string fiber_thread" where
  "sample_run = the (swapIn 1 (new_Fiber 1024 1 (Some ''task'') 0 False sample_start))"

lemma sample_run_reachable: "fibers_reachable 0 sample_run" "running sample_run = 1"
proof -
  let ?T = "new_Fiber 1024 1 (Some ''task'') 0 False sample_start"
  have start: "fibers_reachable 0 sample_start"
    by (rule fibers_reachable.Start [where H = Map.empty and i = 0 and n = 0]) (simp_all add: sample_start_def)
  have T: "fibers_reachable 0 ?T"
    by (rule fibers_reachable.Step [OF start], rule fiber_step.New)
      (simp_all add: sample_start_def GetThis_def new_main_Fiber_def SetThis_def)
  have run: "\<exists>T. swapIn 1 ?T = Some T \<and> running T = 1"
    by (simp add: swapIn_def swapcontext_def sample_start_def GetThis_def new_main_Fiber_def
        new_Fiber_def fiber_defs)
  show "running sample_run = 1" using run by (auto simp: sample_run_def)
  show "fibers_reachable 0 sample_run"
    by (rule fibers_reachable.Step [OF T], rule fiber_step.Resume [of _ _ 1])
      (use run in \<open>auto simp: sample_run_def sample_start_def GetThis_def new_main_Fiber_def
        new_Fiber_def SetThis_def\<close>)
qed

theorem fibers_reachable_inv_witness:
  "fst (GetThis 7 sample_run) = 1 \<and> (\<exists>f. heap sample_run 1 = Some f \<and> fb_state f = EXEC)"
  using fibers_reachable_inv [OF sample_run_reachable(1), of 7] sample_run_reachable(2) by simp

text \<open>
  C22. Yielding and resuming: a running fiber that yields to hold gives the processor back to the main
  fiber without failing an assertion, and of all objects only its own changes: its state is \<^verbatim>\<open>HOLD\<close> and its
  context continues it.  Resumed by the main fiber it is the running fiber again, and the thread is exactly what it
  was before, its own object and every other included, but for the contexts saved in the two fibers,
  each of which continues the fiber it is saved in.
\<close>

theorem yield_resume:
  assumes "fibers_reachable m T" and "running T \<noteq> m"
  shows "\<exists>f g T1. heap T (running T) = Some f \<and> heap T m = Some g \<and>
    YieldToHold b T = Some T1 \<and> running T1 = m \<and> t_fiber T1 = Some m \<and>
    heap T1 = (heap T)(running T \<mapsto> f\<lparr>fb_state := HOLD, fb_ctx := Saved (running T)\<rparr>) \<and>
    swapIn (running T) T1 = Some (T\<lparr>heap := (heap T)
      (running T \<mapsto> f\<lparr>fb_ctx := Saved (running T)\<rparr>, m \<mapsto> g\<lparr>fb_ctx := Saved m\<rparr>)\<rparr>)"
proof -
  have ok: "fibers_ok m T" using fibers_reachable_ok [OF assms(1)] .
  obtain f where f: "heap T (running T) = Some f" "fb_stack f" "fb_state f = EXEC" using running_fiber [OF ok assms(2)] .
  obtain g where g: "heap T m = Some g" "main_fiber T = Some m" "t_fiber T = Some (running T)" using ok by (elim fibers_okD) simp
  let ?T1 = "suspended m (running T) (f\<lparr>fb_state := HOLD\<rparr>) T"
  have "YieldToHold b T = Some ?T1"
    using suspend_forms(2) [OF ok f(1)] swapOut_eq [OF ok refl assms(2)] by simp
  moreover have "swapIn (running T) ?T1 = Some (T\<lparr>heap := (heap T)
      (running T \<mapsto> f\<lparr>fb_ctx := Saved (running T)\<rparr>, m \<mapsto> g\<lparr>fb_ctx := Saved m\<rparr>)\<rparr>)"
    using assms(2) f g by (cases f; cases T) (simp add: swapIn_def swapcontext_def suspended_def fiber_defs)
  ultimately show ?thesis using f(1) g(1) by (auto simp: suspended_def)
qed

theorem yield_resume_witness:
  "\<exists>T1 T2 f. YieldToHold 5 sample_run = Some T1 \<and> running T1 = 0 \<and> swapIn 1 T1 = Some T2 \<and>
     running T2 = 1 \<and> heap sample_run 1 = Some f \<and> heap T2 1 = Some (f\<lparr>fb_ctx := Saved 1\<rparr>)"
  using yield_resume [OF sample_run_reachable(1), of 5] sample_run_reachable(2) by auto

end
