(* ===== verification/Scheduler.thy ===== *)
theory Scheduler
  imports Fiber
begin

text \<open>
  \<^verbatim>\<open>scheduler.cpp\<close> and \<^verbatim>\<open>scheduler.h\<close>: the queue of tasks of a scheduler and the loop in which a worker
  thread takes tasks from it and runs them.  A task names a fiber (by its address) or a callback, and
  the thread it is bound to, -1 for any.  The functions that run under the mutex are single
  definitions; a round of a worker is one too, since a worker alone is looked at, with what others schedule
  meanwhile among the calls of its task (\<open>task_call\<close>).  Whether \<^verbatim>\<open>tickle\<close> is called is part of the results, because it is a virtual function.
  Thread creation and joining are left to the thread library; the identities of new threads are
  arguments.
\<close>

section \<open>State\<close>

record 'c FiberAndThread =
  ft_fiber :: "nat option"
  ft_cb :: "'c option"
  ft_thread :: int

record 'c Scheduler =
  m_fibers :: "'c FiberAndThread list"
  m_threads :: "int list"
  m_threadIds :: "int list"
  m_threadCount :: nat
  m_activeThreadCount :: u64
  m_idleThreadCount :: u64
  m_stopping :: bool
  m_autoStop :: bool
  m_rootThread :: int
  m_rootFiber :: "nat option"

abbreviation fiber_task :: "nat option \<Rightarrow> int \<Rightarrow> 'c FiberAndThread" where
  "fiber_task f thr \<equiv> \<lparr>ft_fiber = f, ft_cb = None, ft_thread = thr\<rparr>"

abbreviation cb_task :: "'c option \<Rightarrow> int \<Rightarrow> 'c FiberAndThread" where
  "cb_task f thr \<equiv> \<lparr>ft_fiber = None, ft_cb = f, ft_thread = thr\<rparr>"

text \<open>The constructor; with \<^verbatim>\<open>use_caller\<close> the calling thread \<open>tid\<close> becomes the root thread and \<open>root\<close> its root
  fiber.\<close>

definition new_Scheduler :: "nat \<Rightarrow> bool \<Rightarrow> int \<Rightarrow> nat \<Rightarrow> 'c Scheduler option" where
  "new_Scheduler threads use_caller tid root =
    (if threads = 0 then None
     else Some \<lparr>m_fibers = [], m_threads = [], m_threadIds = (if use_caller then [tid] else []),
       m_threadCount = (if use_caller then threads - 1 else threads), m_activeThreadCount = 0,
       m_idleThreadCount = 0, m_stopping = True, m_autoStop = False,
       m_rootThread = (if use_caller then tid else -1),
       m_rootFiber = (if use_caller then Some root else None)\<rparr>)"

section \<open>Scheduling\<close>

definition scheduleNoLock :: "'c FiberAndThread \<Rightarrow> 'c Scheduler \<Rightarrow> bool \<times> 'c Scheduler" where
  "scheduleNoLock ft S =
    (m_fibers S = [],
     if ft_fiber ft \<noteq> None \<or> ft_cb ft \<noteq> None then S\<lparr>m_fibers := m_fibers S @ [ft]\<rparr> else S)"

definition schedule :: "'c FiberAndThread \<Rightarrow> 'c Scheduler \<Rightarrow> bool \<times> 'c Scheduler" where
  "schedule ft S = scheduleNoLock ft S"

text \<open>The overload for a range of callbacks.\<close>

fun schedule_range :: "'c FiberAndThread list \<Rightarrow> bool \<Rightarrow> 'c Scheduler \<Rightarrow> bool \<times> 'c Scheduler" where
  "schedule_range [] need_tickle S = (need_tickle, S)"
| "schedule_range (ft # fts) need_tickle S =
    (let (b, S1) = scheduleNoLock ft S in schedule_range fts (b \<or> need_tickle) S1)"

definition hasIdleThreads :: "'c Scheduler \<Rightarrow> bool" where
  "hasIdleThreads S \<longleftrightarrow> m_idleThreadCount S > 0"

definition stopping :: "'c Scheduler \<Rightarrow> bool" where
  "stopping S \<longleftrightarrow> m_autoStop S \<and> m_stopping S \<and> m_fibers S = [] \<and> m_activeThreadCount S = 0"

definition start :: "int list \<Rightarrow> 'c Scheduler \<Rightarrow> 'c Scheduler option" where
  "start new_ids S =
    (if \<not> m_stopping S then Some S
     else if m_threads S \<noteq> [] then None
     else Some (S\<lparr>m_stopping := False, m_threads := take (m_threadCount S) new_ids,
       m_threadIds := m_threadIds S @ take (m_threadCount S) new_ids\<rparr>))"

text \<open>
  \<^verbatim>\<open>stop\<close> up to the point where the root fiber is called: the number of \<^verbatim>\<open>tickle\<close> calls and whether the root
  fiber is to be called.  \<^verbatim>\<open>stopping\<close> is virtual and therefore an argument, \<open>own\<close> says whether the caller's
  scheduler is this one.
\<close>

datatype stop_action = Stop_done | Stop_wait nat bool

definition stop_begin ::
  "('c Scheduler \<Rightarrow> bool) \<Rightarrow> bool \<Rightarrow> State \<Rightarrow> 'c Scheduler \<Rightarrow> (stop_action \<times> 'c Scheduler) option" where
  "stop_begin stp own root_state S =
    (let S1 = S\<lparr>m_autoStop := True\<rparr>;
         alone = (m_rootFiber S \<noteq> None \<and> m_threadCount S = 0 \<and> root_state \<in> {State_TERM, INIT});
         S2 = (if alone then S1\<lparr>m_stopping := True\<rparr> else S1)
     in if alone \<and> stp S2 then Some (Stop_done, S2)
        else if (m_rootThread S \<noteq> -1) \<noteq> own then None
        else
          let S3 = S2\<lparr>m_stopping := True\<rparr> in
          if m_rootFiber S \<noteq> None
          then Some (Stop_wait (m_threadCount S + 1) (\<not> stp S3), S3)
          else Some (Stop_wait (m_threadCount S) False, S3))"

text \<open>The rest of \<^verbatim>\<open>stop\<close>: the threads to be joined.\<close>

definition stop_end :: "'c Scheduler \<Rightarrow> int list \<times> 'c Scheduler" where
  "stop_end S = (m_threads S, S\<lparr>m_threads := []\<rparr>)"

section \<open>Taking a task\<close>

text \<open>The scan of the queue by thread \<open>tid\<close>: the task taken, the remaining queue and \<^verbatim>\<open>tickle_me\<close>; \<open>None\<close> is
  the failed assertion on an empty task.\<close>

fun pick_task ::
  "int \<Rightarrow> (nat \<Rightarrow> State) \<Rightarrow> 'c FiberAndThread list
   \<Rightarrow> ('c FiberAndThread option \<times> 'c FiberAndThread list \<times> bool) option" where
  "pick_task tid st [] = Some (None, [], False)"
| "pick_task tid st (it # its) =
    (if ft_thread it \<noteq> -1 \<and> ft_thread it \<noteq> tid then
       map_option (\<lambda>(t, q, _). (t, it # q, True)) (pick_task tid st its)
     else if ft_fiber it = None \<and> ft_cb it = None then None
     else if (case ft_fiber it of None \<Rightarrow> False | Some f \<Rightarrow> st f = EXEC) then
       map_option (\<lambda>(t, q, b). (t, it # q, b)) (pick_task tid st its)
     else Some (Some it, its, False))"

section \<open>The worker loop\<close>

text \<open>
  The code a fiber runs between being resumed and giving the processor back is an argument: the calls of
  \<^verbatim>\<open>schedule\<close> that are made meanwhile, by it or by other threads, the fibers that are made, at which
  addresses, and how it gives the processor back.
\<close>

datatype give_back = Yield_ready | Yield_hold | Swap_out | Ended cb_result

datatype 'c task_call = Call_schedule "'c FiberAndThread" | Make_fiber nat "'c option" u64

type_synonym 'c behaviour = "nat \<Rightarrow> 'c Scheduler \<Rightarrow> 'c task_call list \<times> give_back"

fun do_calls ::
  "u32 \<Rightarrow> 'c task_call list \<Rightarrow> 'c Scheduler \<Rightarrow> 'c fiber_thread \<Rightarrow> 'c Scheduler \<times> 'c fiber_thread" where
  "do_calls g [] S T = (S, T)"
| "do_calls g (Call_schedule ft # cs) S T = do_calls g cs (snd (schedule ft S)) T"
| "do_calls g (Make_fiber b cb n # cs) S T = do_calls g cs S (new_Fiber g b cb n False T)"

record 'c worker =
  w_sched :: "'c Scheduler"
  w_fibers :: "'c fiber_thread"
  w_cb_fiber :: "nat option"
  w_idle_fiber :: nat

definition fiber_state :: "'c fiber_thread \<Rightarrow> nat \<Rightarrow> State" where
  "fiber_state T a = (case heap T a of None \<Rightarrow> State_TERM | Some f \<Rightarrow> fb_state f)"

text \<open>
  Resuming a fiber; the execution of one that has ended runs into the assertion after its last switch, and
  one that starts without a callback ends with the exception of the empty \<^verbatim>\<open>std::function\<close>.
\<close>

definition no_callback :: "'c fiber_thread \<Rightarrow> nat \<Rightarrow> bool" where
  "no_callback T a = (case heap T a of None \<Rightarrow> False | Some f \<Rightarrow> fb_state f = INIT \<and> fb_cb f = None)"

definition conduct :: "'c behaviour \<Rightarrow> nat \<Rightarrow> 'c Scheduler \<Rightarrow> 'c fiber_thread \<Rightarrow> 'c task_call list \<times> give_back" where
  "conduct bh a S T = (if no_callback T a then ([], Ended Threw) else bh a S)"

definition resume ::
  "'c behaviour \<Rightarrow> u32 \<Rightarrow> nat \<Rightarrow> 'c Scheduler \<Rightarrow> 'c fiber_thread \<Rightarrow> ('c Scheduler \<times> 'c fiber_thread) option" where
  "resume bh g_stack_size a S T =
    (case (if fiber_state T a \<in> {State_TERM, EXCEPT} then None else swapIn a T) of
       None \<Rightarrow> None
     | Some T1 \<Rightarrow>
         let (calls, how) = conduct bh a S T; (S1, T2) = do_calls g_stack_size calls S T1 in
         map_option (Pair S1)
           (case how of
              Yield_ready \<Rightarrow> YieldToReady a T2
            | Yield_hold \<Rightarrow> YieldToHold a T2
            | Swap_out \<Rightarrow> swapOut a T2
            | Ended r \<Rightarrow> MainFunc r a T2))"

datatype 'c run_result = Run_failed | Run_stop "'c worker" | Run_next "'c worker"

definition run_fiber_task :: "'c behaviour \<Rightarrow> u32 \<Rightarrow> nat \<Rightarrow> 'c worker \<Rightarrow> 'c run_result" where
  "run_fiber_task bh g_stack_size f W =
    (case resume bh g_stack_size f (w_sched W) (w_fibers W) of
       None \<Rightarrow> Run_failed
     | Some (S, T) \<Rightarrow>
         let S1 = S\<lparr>m_activeThreadCount := m_activeThreadCount S - 1\<rparr> in
         if fiber_state T f = READY then
           Run_next (W\<lparr>w_sched := snd (schedule (fiber_task (Some f) (-1)) S1), w_fibers := T\<rparr>)
         else if fiber_state T f \<noteq> State_TERM \<and> fiber_state T f \<noteq> EXCEPT then
           Run_next (W\<lparr>w_sched := S1, w_fibers := set_state f HOLD T\<rparr>)
         else Run_next (W\<lparr>w_sched := S1, w_fibers := T\<rparr>))"

definition run_cb_task :: "'c behaviour \<Rightarrow> u32 \<Rightarrow> nat \<Rightarrow> 'c \<Rightarrow> 'c worker \<Rightarrow> 'c run_result" where
  "run_cb_task bh g_stack_size a cb W =
    (let (f, T0) =
           (case w_cb_fiber W of
              Some f \<Rightarrow> (f, reset_fiber f (Some cb) (w_fibers W))
            | None \<Rightarrow> (a, Some (new_Fiber g_stack_size a (Some cb) 0 False (w_fibers W))))
     in case T0 of
          None \<Rightarrow> Run_failed
        | Some T1 \<Rightarrow>
            (case resume bh g_stack_size f (w_sched W) T1 of
               None \<Rightarrow> Run_failed
             | Some (S, T) \<Rightarrow>
                 let S1 = S\<lparr>m_activeThreadCount := m_activeThreadCount S - 1\<rparr> in
                 if fiber_state T f = READY then
                   Run_next (W\<lparr>w_sched := snd (schedule (fiber_task (Some f) (-1)) S1),
                     w_fibers := T, w_cb_fiber := None\<rparr>)
                 else if fiber_state T f = EXCEPT \<or> fiber_state T f = State_TERM then
                   (case reset_fiber f None T of
                      None \<Rightarrow> Run_failed
                    | Some T2 \<Rightarrow> Run_next (W\<lparr>w_sched := S1, w_fibers := T2, w_cb_fiber := Some f\<rparr>))
                 else Run_next (W\<lparr>w_sched := S1, w_fibers := set_state f HOLD T, w_cb_fiber := None\<rparr>)))"

definition run_idle :: "'c behaviour \<Rightarrow> u32 \<Rightarrow> 'c worker \<Rightarrow> 'c run_result" where
  "run_idle bh g_stack_size W =
    (let i = w_idle_fiber W; S = w_sched W in
     if fiber_state (w_fibers W) i = State_TERM then Run_stop W
     else
       case resume bh g_stack_size i (S\<lparr>m_idleThreadCount := m_idleThreadCount S + 1\<rparr>) (w_fibers W) of
         None \<Rightarrow> Run_failed
       | Some (S1, T) \<Rightarrow>
           Run_next (W\<lparr>w_sched := S1\<lparr>m_idleThreadCount := m_idleThreadCount S1 - 1\<rparr>,
             w_fibers := (if fiber_state T i \<noteq> State_TERM \<and> fiber_state T i \<noteq> EXCEPT then set_state i HOLD T
                          else T)\<rparr>))"

text \<open>The beginning of \<^verbatim>\<open>run\<close>: the main fiber, on another thread than the root thread that of the thread, and the
  idle fiber.\<close>

definition run_begin ::
  "u32 \<Rightarrow> int \<Rightarrow> nat \<Rightarrow> nat \<Rightarrow> 'c \<Rightarrow> 'c Scheduler \<Rightarrow> 'c fiber_thread \<Rightarrow> 'c worker" where
  "run_begin g_stack_size tid m i idle_cb S T =
    (let T1 = (if tid \<noteq> m_rootThread S then (let (cur, T') = GetThis m T in T'\<lparr>main_fiber := Some cur\<rparr>) else T)
     in \<lparr>w_sched = S, w_fibers = new_Fiber g_stack_size i (Some idle_cb) 0 False T1, w_cb_fiber = None,
         w_idle_fiber = i\<rparr>)"

text \<open>One round of the loop of \<^verbatim>\<open>run\<close>; \<open>a\<close> is the address of a fiber that may have to be created.\<close>

definition run_once :: "'c behaviour \<Rightarrow> u32 \<Rightarrow> int \<Rightarrow> nat \<Rightarrow> 'c worker \<Rightarrow> 'c run_result" where
  "run_once bh g_stack_size tid a W =
    (let S = w_sched W; T = w_fibers W in
     case pick_task tid (fiber_state T) (m_fibers S) of
       None \<Rightarrow> Run_failed
     | Some (None, q, tickle_me) \<Rightarrow> run_idle bh g_stack_size (W\<lparr>w_sched := S\<lparr>m_fibers := q\<rparr>\<rparr>)
     | Some (Some ft, q, tickle_me) \<Rightarrow>
         let S1 = S\<lparr>m_fibers := q, m_activeThreadCount := m_activeThreadCount S + 1\<rparr>; W1 = W\<lparr>w_sched := S1\<rparr> in
         (case ft_fiber ft of
            Some f \<Rightarrow>
              if fiber_state T f \<noteq> State_TERM \<and> fiber_state T f \<noteq> EXCEPT then run_fiber_task bh g_stack_size f W1
              else (case ft_cb ft of
                      Some cb \<Rightarrow> run_cb_task bh g_stack_size a cb W1
                    | None \<Rightarrow> Run_next (W1\<lparr>w_sched := S1\<lparr>m_activeThreadCount := m_activeThreadCount S1 - 1\<rparr>\<rparr>))
          | None \<Rightarrow>
              (case ft_cb ft of
                 Some cb \<Rightarrow> run_cb_task bh g_stack_size a cb W1
               | None \<Rightarrow> Run_next (W1\<lparr>w_sched := S1\<lparr>m_activeThreadCount := m_activeThreadCount S1 - 1\<rparr>\<rparr>))))"

text \<open>The idle fiber of the base class: \<^verbatim>\<open>idle\<close> yields until the scheduler stops.\<close>

definition idle :: "'c Scheduler \<Rightarrow> give_back \<times> 'c Scheduler" where
  "idle S = (if stopping S then Ended Returned else Yield_hold, S)"

section \<open>The queue\<close>

definition takeable :: "int \<Rightarrow> (nat \<Rightarrow> State) \<Rightarrow> 'c FiberAndThread \<Rightarrow> bool" where
  "takeable tid st ft \<longleftrightarrow> ft_thread ft \<in> {-1, tid} \<and> (\<forall>f. ft_fiber ft = Some f \<longrightarrow> st f \<noteq> EXEC)"

definition nonempty_task :: "'c FiberAndThread \<Rightarrow> bool" where
  "nonempty_task ft \<longleftrightarrow> ft_fiber ft \<noteq> None \<or> ft_cb ft \<noteq> None"

text \<open>A worker takes the first task it may take and leaves the others in their order.\<close>

lemma pick_task_first:
  assumes "\<forall>t \<in> set q. nonempty_task t"
  shows "(\<exists>b. pick_task tid st q = Some (None, q, b)) \<and> (\<forall>t \<in> set q. \<not> takeable tid st t) \<or>
    (\<exists>xs t ys b. q = xs @ t # ys \<and> pick_task tid st q = Some (Some t, xs @ ys, b) \<and>
       takeable tid st t \<and> (\<forall>x \<in> set xs. \<not> takeable tid st x))"
  using assms
proof (induction q)
  case (Cons it its)
  show ?case
  proof (cases "takeable tid st it")
    case True
    then have "pick_task tid st (it # its) = Some (Some it, its, False)"
      using Cons.prems by (auto simp: takeable_def nonempty_task_def split: option.split)
    then show ?thesis using True by (metis append_Nil empty_iff empty_set)
  next
    case False
    then have step: "\<exists>c. \<forall>t q b. pick_task tid st its = Some (t, q, b) \<longrightarrow>
        (\<exists>b'. pick_task tid st (it # its) = Some (t, it # q, b'))"
      using Cons.prems by (auto simp: takeable_def nonempty_task_def split: option.split)
    have "\<forall>t\<in>set its. nonempty_task t" using Cons.prems by simp
    from Cons.IH [OF this] show ?thesis
    proof
      assume "(\<exists>b. pick_task tid st its = Some (None, its, b)) \<and> (\<forall>t\<in>set its. \<not> takeable tid st t)"
      then show ?thesis using step False by auto
    next
      assume "\<exists>xs t ys b. its = xs @ t # ys \<and> pick_task tid st its = Some (Some t, xs @ ys, b) \<and>
         takeable tid st t \<and> (\<forall>x\<in>set xs. \<not> takeable tid st x)"
      then obtain xs t ys b where *: "its = xs @ t # ys" "pick_task tid st its = Some (Some t, xs @ ys, b)"
        "takeable tid st t" "\<forall>x\<in>set xs. \<not> takeable tid st x" by blast
      then obtain b' where "pick_task tid st (it # its) = Some (Some t, (it # xs) @ ys, b')" using step by auto
      moreover have "it # its = (it # xs) @ t # ys" using * by simp
      moreover have "\<forall>x\<in>set (it # xs). \<not> takeable tid st x" using * False by simp
      ultimately show ?thesis using *(3) by blast
    qed
  qed
qed auto

text \<open>The tasks a worker takes in successive rounds; before each round the states of the fibers may have
  changed and after it tasks may have been appended.\<close>

fun rounds ::
  "int \<Rightarrow> ((nat \<Rightarrow> State) \<times> 'c FiberAndThread list) list \<Rightarrow> 'c FiberAndThread list
   \<Rightarrow> 'c FiberAndThread option list" where
  "rounds tid [] q = []"
| "rounds tid ((st, new) # rs) q =
    (case pick_task tid st q of None \<Rightarrow> [] | Some (t, q', _) \<Rightarrow> t # rounds tid rs (q' @ new))"

lemma rounds_take:
  assumes "i < length q" "i < length rs" "\<forall>t \<in> set q. nonempty_task t"
    and "\<forall>(st, new) \<in> set rs. takeable tid st (q ! i) \<and> (\<forall>t \<in> set new. nonempty_task t)"
  shows "Some (q ! i) \<in> set (take (Suc i) (rounds tid rs q))"
  using assms
proof (induction rs arbitrary: q i)
  case (Cons r rs)
  obtain st new where r: "r = (st, new)" by force
  have tk: "takeable tid st (q ! i)" and new: "\<forall>t \<in> set new. nonempty_task t" using Cons.prems(4) r by auto
  have "q ! i \<in> set q" using Cons.prems(1) by simp
  then obtain xs t ys b where q: "q = xs @ t # ys" "pick_task tid st q = Some (Some t, xs @ ys, b)"
    "\<forall>x \<in> set xs. \<not> takeable tid st x"
    using pick_task_first [OF Cons.prems(3), of tid st] tk by blast
  have le: "length xs \<le> i"
  proof (rule ccontr)
    assume "\<not> length xs \<le> i"
    then have "q ! i \<in> set xs" using q(1) by (simp add: nth_append)
    then show False using q(3) tk by blast
  qed
  show ?case
  proof (cases "i = length xs")
    case True
    then show ?thesis using q r by (simp add: nth_append)
  next
    case False
    then obtain k where k: "i = Suc k" "length xs \<le> k" using le by (cases i) auto
    let ?q = "(xs @ ys) @ new"
    have at: "?q ! k = q ! i" "k < length ?q"
      using q(1) k Cons.prems(1) by (auto simp: nth_append nth_Cons')
    have "Some (?q ! k) \<in> set (take (Suc k) (rounds tid rs ?q))"
      using Cons.prems at k q(1) new by (intro Cons.IH) auto
    then show ?thesis using q r k at by simp
  qed
qed simp

section \<open>The worker\<close>

text \<open>
  What the code that runs while a worker waits for a fiber may do: it schedules callbacks and fibers that exist,
  but not the worker's idle fiber \<open>i\<close>, which is a local variable of \<^verbatim>\<open>run\<close>, and a new fiber is made where
  there is none.  \<open>D\<close> are the addresses of the fibers.
\<close>

fun calls_ok :: "nat \<Rightarrow> nat set \<Rightarrow> 'c task_call list \<Rightarrow> bool" where
  "calls_ok i D [] = True"
| "calls_ok i D (Call_schedule ft # cs) = ((\<forall>f. ft_fiber ft = Some f \<longrightarrow> f \<in> D - {i}) \<and> calls_ok i D cs)"
| "calls_ok i D (Make_fiber b cb n # cs) = (b \<notin> D \<and> calls_ok i (insert b D) cs)"

definition tasks_ok :: "nat set \<Rightarrow> 'c FiberAndThread list \<Rightarrow> bool" where
  "tasks_ok D q \<longleftrightarrow> (\<forall>t \<in> set q. nonempty_task t \<and> (\<forall>f. ft_fiber t = Some f \<longrightarrow> f \<in> D))"

definition same_counts :: "'c Scheduler \<Rightarrow> 'c Scheduler \<Rightarrow> bool" where
  "same_counts S S' \<longleftrightarrow> m_activeThreadCount S' = m_activeThreadCount S \<and> m_idleThreadCount S' = m_idleThreadCount S"

lemma tasks_ok_append [simp]: "tasks_ok D (q @ r) \<longleftrightarrow> tasks_ok D q \<and> tasks_ok D r"
  by (auto simp: tasks_ok_def)

lemma tasks_ok_fiber [simp]: "tasks_ok D [fiber_task (Some f) n] \<longleftrightarrow> f \<in> D"
  by (simp add: tasks_ok_def nonempty_task_def)

lemma tasks_ok_mono: "tasks_ok D q \<Longrightarrow> D \<subseteq> E \<Longrightarrow> tasks_ok E q"
  by (auto simp: tasks_ok_def)

lemma tasks_ok_schedule:
  "tasks_ok D (m_fibers (snd (schedule ft S))) \<longleftrightarrow>
    tasks_ok D (m_fibers S) \<and> (nonempty_task ft \<longrightarrow> tasks_ok D [ft])"
  "same_counts S0 (snd (schedule ft S)) = same_counts S0 S"
  by (auto simp: schedule_def scheduleNoLock_def nonempty_task_def same_counts_def tasks_ok_def)

lemma new_Fiber_ok:
  assumes "fibers_ok m T" "b \<notin> dom (heap T)"
  shows "fibers_ok m (new_Fiber g b cb n False T)"
proof -
  have "b \<noteq> m" "b \<noteq> running T" using assms by (auto simp: fibers_ok_def)
  then show ?thesis
    unfolding new_Fiber_def
    by (intro other_fiber_ok [OF assms(1)]) (auto simp: fiber_ok_def resumes_def)
qed

lemma do_calls_ok:
  assumes "fibers_ok m T" "calls_ok i (dom (heap T)) cs" "tasks_ok (dom (heap T) - {i}) (m_fibers S)" "i \<in> dom (heap T)"
  shows "case do_calls g cs S T of (S', T') \<Rightarrow>
    fibers_ok m T' \<and> running T' = running T \<and> same_counts S S' \<and> dom (heap T) \<subseteq> dom (heap T') \<and>
    (\<forall>b \<in> dom (heap T). heap T' b = heap T b) \<and> tasks_ok (dom (heap T') - {i}) (m_fibers S')"
  using assms
proof (induction g cs S T rule: do_calls.induct)
  case (2 g ft cs S T)
  have "tasks_ok (dom (heap T) - {i}) (m_fibers (snd (schedule ft S)))"
    using "2.prems"(2,3) by (simp add: tasks_ok_schedule) (simp add: tasks_ok_def)
  from "2.IH" [OF "2.prems"(1) _ this "2.prems"(4)] "2.prems"(2) show ?case
    by (auto simp: same_counts_def schedule_def scheduleNoLock_def split: prod.splits if_splits)
next
  case (3 g b cb n cs S T)
  let ?T = "new_Fiber g b cb n False T"
  have d: "dom (heap ?T) = insert b (dom (heap T))" "running ?T = running T"
    "\<forall>k \<in> dom (heap T). heap ?T k = heap T k"
    using "3.prems"(2) by (auto simp: new_Fiber_def)
  have "tasks_ok (dom (heap ?T) - {i}) (m_fibers S)"
    using "3.prems"(3) by (rule tasks_ok_mono) (auto simp: d(1))
  then have "case do_calls g cs S ?T of (S', T') \<Rightarrow>
      fibers_ok m T' \<and> running T' = running ?T \<and> same_counts S S' \<and> dom (heap ?T) \<subseteq> dom (heap T') \<and>
      (\<forall>b \<in> dom (heap ?T). heap T' b = heap ?T b) \<and> tasks_ok (dom (heap T') - {i}) (m_fibers S')"
    using "3.prems" new_Fiber_ok [OF "3.prems"(1)] by (intro "3.IH") (simp_all add: d(1))
  then show ?case using d by (auto split: prod.splits)
qed (simp add: same_counts_def)

text \<open>Resuming a fiber and running it until it gives the processor back.\<close>

definition back_state :: "give_back \<Rightarrow> State" where
  "back_state how = (case how of Yield_ready \<Rightarrow> READY | Yield_hold \<Rightarrow> HOLD | Swap_out \<Rightarrow> EXEC
     | Ended Returned \<Rightarrow> State_TERM | Ended Threw \<Rightarrow> EXCEPT)"

lemma resume_total:
  assumes ok: "fibers_ok m T" and m: "running T = m" and f: "heap T a = Some f" "fb_state f \<notin> {EXEC, State_TERM, EXCEPT}"
    and calls: "calls_ok i (dom (heap T)) (fst (conduct bh a S T))"
    and q: "tasks_ok (dom (heap T) - {i}) (m_fibers S)" and i: "i \<in> dom (heap T)"
  obtains S' T' g where "resume bh n a S T = Some (S', T')" "running T' = m" "heap T' a = Some g" "fb_stack g"
    "fb_state g = back_state (snd (conduct bh a S T))"
    "fibers_ok m (set_state a HOLD T')" "fb_state g \<noteq> EXEC \<longrightarrow> fibers_ok m T'" "dom (heap T) \<subseteq> dom (heap T')"
    "\<forall>b \<in> dom (heap T). b \<noteq> a \<and> b \<noteq> m \<longrightarrow> heap T' b = heap T b"
    "same_counts S S'" "tasks_ok (dom (heap T') - {i}) (m_fibers S')"
proof -
  obtain T0 where T0: "swapIn a T = Some T0" "fibers_ok m T0" "running T0 = a" "dom (heap T0) = dom (heap T)"
    "\<And>b. b \<noteq> a \<Longrightarrow> b \<noteq> m \<Longrightarrow> heap T0 b = heap T b"
    using resume_ok [OF ok m f(1)] f(2) by blast
  define how where "how = snd (conduct bh a S T)"
  obtain S' T1 where do: "do_calls n (fst (conduct bh a S T)) S T0 = (S', T1)" by force
  have T1: "fibers_ok m T1" "running T1 = a" "same_counts S S'" "dom (heap T) \<subseteq> dom (heap T1)"
    "\<forall>b \<in> dom (heap T). heap T1 b = heap T0 b" "tasks_ok (dom (heap T1) - {i}) (m_fibers S')"
    using do_calls_ok [OF T0(2), of i "fst (conduct bh a S T)" S n] T0(3,4) calls q i do by simp_all
  have am: "a \<noteq> m" using ok f by (auto simp: fibers_ok_def)
  then obtain f1 where f1: "heap T1 a = Some f1" "fb_stack f1" "fb_state f1 = EXEC"
    using running_fiber [OF T1(1)] T1(2) by metis
  define h where "h = (case how of
      Yield_ready \<Rightarrow> f1\<lparr>fb_state := READY\<rparr> | Yield_hold \<Rightarrow> f1\<lparr>fb_state := HOLD\<rparr> | Swap_out \<Rightarrow> f1
    | Ended Returned \<Rightarrow> f1\<lparr>fb_cb := None, fb_state := State_TERM\<rparr> | Ended Threw \<Rightarrow> f1\<lparr>fb_state := EXCEPT\<rparr>)"
  have "T1\<lparr>heap := (heap T1)(a \<mapsto> f1)\<rparr> = T1" using f1(1) by (simp add: map_upd_triv)
  then have "(case how of Yield_ready \<Rightarrow> YieldToReady a T1 | Yield_hold \<Rightarrow> YieldToHold a T1 | Swap_out \<Rightarrow> swapOut a T1
      | Ended r \<Rightarrow> MainFunc r a T1) = Some (suspended m a h T1)"
    using suspend_forms [OF T1(1), of f1 a] swapOut_eq [OF T1(1,2) am] f1(1) T1(2)
    by (cases how) (auto simp: h_def split: cb_result.split, metis)
  then have run: "resume bh n a S T = Some (S', suspended m a h T1)"
    using f T0(1) do by (cases "conduct bh a S T") (simp add: resume_def fiber_state_def how_def)
  have st: "fb_stack h" "fb_state h = back_state how"
    using f1 by (auto simp: h_def back_state_def split: give_back.split cb_result.split)
  have hold: "set_state a HOLD (suspended m a h T1) = suspended m a (h\<lparr>fb_state := HOLD\<rparr>) T1"
    by (cases h) (simp add: suspended_def fiber_defs)
  have ni: "fb_state h \<noteq> INIT" using st(2) by (auto simp: back_state_def split: give_back.split cb_result.split)
  have dom: "dom (heap (suspended m a h T1)) = dom (heap T1)" using f1(1) by (auto simp: suspended_def)
  show thesis
  proof (rule that [OF run])
    show "fibers_ok m (set_state a HOLD (suspended m a h T1))"
      unfolding hold using suspended_ok [OF T1(1,2) am] st(1) by simp
    show "fb_state (h\<lparr>fb_ctx := Saved a\<rparr>) \<noteq> EXEC \<longrightarrow> fibers_ok m (suspended m a h T1)"
      using suspended_ok [OF T1(1,2) am] st(1) ni by simp
    show "dom (heap T) \<subseteq> dom (heap (suspended m a h T1))" using T1(4) dom by simp
    show "\<forall>b \<in> dom (heap T). b \<noteq> a \<and> b \<noteq> m \<longrightarrow> heap (suspended m a h T1) b = heap T b"
      using T0(5) T1(5) by (simp add: suspended_def)
    show "tasks_ok (dom (heap (suspended m a h T1)) - {i}) (m_fibers S')" using T1(6) dom by simp
  qed (use st T1(3) in \<open>simp_all add: suspended_def how_def\<close>)
qed

text \<open>
  The invariant of a worker between two rounds: its main fiber is running, the idle fiber is suspended or
  has ended, a spare callback fiber has ended or has no callback, and every task in the queue is a
  callback or names a fiber that is not the idle fiber.
\<close>

definition user_fibers :: "'c worker \<Rightarrow> nat set" where
  "user_fibers W = dom (heap (w_fibers W)) - {w_idle_fiber W}"

definition spare_fiber :: "'c Fiber \<Rightarrow> bool" where
  "spare_fiber f \<longleftrightarrow> fb_stack f \<and> (fb_state f \<in> {State_TERM, EXCEPT} \<or> fb_state f = INIT \<and> fb_cb f = None)"

definition worker_ok :: "nat \<Rightarrow> 'c worker \<Rightarrow> bool" where
  "worker_ok m W \<longleftrightarrow>
    fibers_ok m (w_fibers W) \<and> running (w_fibers W) = m \<and>
    tasks_ok (user_fibers W) (m_fibers (w_sched W)) \<and> w_cb_fiber W \<noteq> Some (w_idle_fiber W) \<and>
    (\<exists>f. heap (w_fibers W) (w_idle_fiber W) = Some f \<and> fb_state f \<notin> {EXEC, EXCEPT} \<and>
      (fb_state f = INIT \<longrightarrow> fb_cb f \<noteq> None)) \<and>
    (\<forall>a. w_cb_fiber W = Some a \<longrightarrow> (\<exists>f. heap (w_fibers W) a = Some f \<and> spare_fiber f))"

text \<open>What a worker relies on: the code it runs keeps to \<open>calls_ok\<close>, and the idle function does not throw.\<close>

definition well_behaved :: "'c behaviour \<Rightarrow> nat \<Rightarrow> nat set \<Rightarrow> bool" where
  "well_behaved bh i D \<longleftrightarrow>
    (\<forall>x S. calls_ok i (insert x D) (fst (bh x S)) \<and> (x = i \<longrightarrow> snd (bh x S) \<noteq> Ended Threw))"

definition run_ok :: "nat \<Rightarrow> 'c Scheduler \<Rightarrow> 'c run_result \<Rightarrow> bool" where
  "run_ok m S r \<longleftrightarrow>
    (case r of Run_failed \<Rightarrow> False
     | Run_stop W \<Rightarrow> worker_ok m W \<and> same_counts S (w_sched W)
     | Run_next W \<Rightarrow> worker_ok m W \<and> same_counts S (w_sched W))"

lemma worker_okD:
  assumes "worker_ok m W"
  shows "fibers_ok m (w_fibers W)" "running (w_fibers W) = m"
    "tasks_ok (user_fibers W) (m_fibers (w_sched W))" "w_cb_fiber W \<noteq> Some (w_idle_fiber W)"
    "\<exists>f. heap (w_fibers W) (w_idle_fiber W) = Some f \<and> fb_state f \<notin> {EXEC, EXCEPT} \<and>
      (fb_state f = INIT \<longrightarrow> fb_cb f \<noteq> None)"
    "w_idle_fiber W \<noteq> m" "w_idle_fiber W \<in> dom (heap (w_fibers W))"
    "\<And>a. w_cb_fiber W = Some a \<Longrightarrow> \<exists>f. heap (w_fibers W) a = Some f \<and> spare_fiber f"
  using assms by (auto simp: worker_ok_def fibers_ok_def)

lemma conduct_ok:
  assumes "well_behaved bh i D" "insert a D \<subseteq> dom (heap T)" "dom (heap T) \<subseteq> insert a D"
  shows "calls_ok i (dom (heap T)) (fst (conduct bh a S T))"
proof -
  have "dom (heap T) = insert a D" using assms(2,3) by blast
  then show ?thesis using assms(1) by (simp add: conduct_def well_behaved_def)
qed

text \<open>A worker after the fiber \<open>a\<close> gave the processor back, other fibers being as they were.\<close>

lemma worker_ok_after:
  assumes W: "worker_ok m W" and T: "fibers_ok m T" "running T = m"
    and same: "\<And>b. b \<noteq> a \<Longrightarrow> b \<noteq> m \<Longrightarrow> b \<in> dom (heap (w_fibers W)) \<Longrightarrow> heap T b = heap (w_fibers W) b"
    and i: "a \<noteq> w_idle_fiber W"
    and q: "tasks_ok (dom (heap T) - {w_idle_fiber W}) (m_fibers S)"
    and c: "c = None \<or> c = Some a \<and> (\<exists>f. heap T a = Some f \<and> spare_fiber f) \<or> c = w_cb_fiber W \<and> c \<noteq> Some a"
  shows "worker_ok m (W\<lparr>w_sched := S, w_fibers := T, w_cb_fiber := c\<rparr>)"
proof -
  note D = worker_okD [OF W]
  obtain f where f: "heap (w_fibers W) (w_idle_fiber W) = Some f" "fb_state f \<notin> {EXEC, EXCEPT}"
      "fb_state f = INIT \<longrightarrow> fb_cb f \<noteq> None"
    using D(5) by blast
  have "heap T (w_idle_fiber W) = Some f" using same [of "w_idle_fiber W"] i f D(6) by auto
  moreover have "\<exists>f. heap T b = Some f \<and> spare_fiber f" if "c = Some b" for b
  proof (cases "b = a")
    case False
    then have b: "w_cb_fiber W = Some b" using c that by auto
    then obtain g where g: "heap (w_fibers W) b = Some g" "spare_fiber g" using D(8) by blast
    moreover have "b \<noteq> m" using g W by (auto simp: worker_ok_def fibers_ok_def spare_fiber_def)
    ultimately show ?thesis using same [of b] False by auto
  qed (use c that in auto)
  moreover have "c \<noteq> Some (w_idle_fiber W)" using c i D(4) by auto
  ultimately show ?thesis using T q f by (simp add: worker_ok_def user_fibers_def)
qed

text \<open>A worker thread starts in its invariant.\<close>

lemma run_begin_ok:
  assumes "tid \<noteq> m_rootThread S" "m \<noteq> i" "\<forall>t \<in> set (m_fibers S). ft_fiber t = None \<and> ft_cb t \<noteq> None"
  shows "worker_ok m (run_begin n tid m i cb S \<lparr>heap = Map.empty, s_fiber_id = j, s_fiber_count = k,
    t_fiber = None, t_threadFiber = None, main_fiber = None, running = m\<rparr>)"
  using assms
  by (auto simp: worker_ok_def run_begin_def new_Fiber_def GetThis_def new_main_Fiber_def SetThis_def
      fibers_ok_def fiber_ok_def resumes_def tasks_ok_def nonempty_task_def)

lemma dom_set_state [simp]: "dom (heap (set_state a s T)) = dom (heap T)"
  by (auto simp: set_state_def upd_fiber_def)

lemma set_state_other [simp]: "b \<noteq> a \<Longrightarrow> heap (set_state a s T) b = heap T b"
  "running (set_state a s T) = running T"
  by (simp_all add: set_state_def upd_fiber_def)

lemma run_fiber_task_ok:
  assumes W: "worker_ok m W" and f: "f \<in> user_fibers W" "fiber_state (w_fibers W) f \<notin> {EXEC, State_TERM, EXCEPT}"
    and bh: "well_behaved bh (w_idle_fiber W) (dom (heap (w_fibers W)))"
  shows "\<exists>W'. run_fiber_task bh n f W = Run_next W' \<and> worker_ok m W' \<and>
    m_activeThreadCount (w_sched W') = m_activeThreadCount (w_sched W) - 1 \<and>
    m_idleThreadCount (w_sched W') = m_idleThreadCount (w_sched W)"
proof -
  let ?T = "w_fibers W" and ?S = "w_sched W" and ?i = "w_idle_fiber W"
  note D = worker_okD [OF W]
  obtain g0 where g0: "heap ?T f = Some g0" and fi: "f \<noteq> ?i" using f(1) by (auto simp: user_fibers_def)
  have st0: "fb_state g0 \<notin> {EXEC, State_TERM, EXCEPT}" using f(2) g0 by (simp add: fiber_state_def)
  have calls: "calls_ok ?i (dom (heap ?T)) (fst (conduct bh f ?S ?T))"
    by (rule conduct_ok [OF bh]) (use g0 in auto)
  obtain S T g where run: "resume bh n f ?S ?T = Some (S, T)" "running T = m" "heap T f = Some g"
    "fb_stack g" "fb_state g = back_state (snd (conduct bh f ?S ?T))" "fibers_ok m (set_state f HOLD T)"
    "fb_state g \<noteq> EXEC \<longrightarrow> fibers_ok m T" "dom (heap ?T) \<subseteq> dom (heap T)"
    "\<forall>b \<in> dom (heap ?T). b \<noteq> f \<and> b \<noteq> m \<longrightarrow> heap T b = heap ?T b" "same_counts ?S S"
    "tasks_ok (dom (heap T) - {?i}) (m_fibers S)"
    using resume_total [OF D(1,2) g0 st0 calls D(3) [unfolded user_fibers_def] D(7)] .
  have fs: "fiber_state T f = fb_state g" using run(3) by (simp add: fiber_state_def)
  have spare: "fb_state g = EXCEPT" if "w_cb_fiber W = Some f"
  proof -
    have "no_callback ?T f" using D(8) [OF that] g0 st0 by (auto simp: no_callback_def spare_fiber_def)
    then show ?thesis using run(5) by (simp add: conduct_def back_state_def)
  qed
  let ?S1 = "S\<lparr>m_activeThreadCount := m_activeThreadCount S - 1\<rparr>"
  have next_ok: "worker_ok m (W\<lparr>w_sched := S', w_fibers := T'\<rparr>)"
    if "T' = T \<and> fb_state g \<noteq> EXEC \<or> T' = set_state f HOLD T \<and> fb_state g \<notin> {State_TERM, EXCEPT}"
      "tasks_ok (dom (heap T) - {?i}) (m_fibers S')" for S' T'
  proof -
    have d: "dom (heap T') = dom (heap T)" using that(1) by (metis dom_set_state)
    have "worker_ok m (W\<lparr>w_sched := S', w_fibers := T', w_cb_fiber := w_cb_fiber W\<rparr>)"
    proof (rule worker_ok_after [OF W, where a = f])
      show "fibers_ok m T'" using that(1) run(6,7) by auto
      show "running T' = m" using that(1) run(2) by auto
      show "heap T' b = heap ?T b" if "b \<noteq> f" "b \<noteq> m" "b \<in> dom (heap ?T)" for b
        using \<open>T' = T \<and> fb_state g \<noteq> EXEC \<or> _\<close> run(9) that by auto
      show "tasks_ok (dom (heap T') - {?i}) (m_fibers S')" using that(2) d by simp
      show "w_cb_fiber W = None \<or> w_cb_fiber W = Some f \<and> (\<exists>f'. heap T' f = Some f' \<and> spare_fiber f') \<or>
          w_cb_fiber W = w_cb_fiber W \<and> w_cb_fiber W \<noteq> Some f"
      proof (cases "w_cb_fiber W = Some f")
        case True
        then have "T' = T" "spare_fiber g" using that(1) spare run(4) by (auto simp: spare_fiber_def)
        then show ?thesis using True run(3) by blast
      qed simp
    qed (rule fi)
    then show ?thesis by simp
  qed
  have "tasks_ok (dom (heap T) - {?i}) (m_fibers (snd (schedule (fiber_task (Some f) (-1)) ?S1)))"
    using run(3,11) fi by (auto simp: tasks_ok_schedule)
  moreover have "tasks_ok (dom (heap T) - {?i}) (m_fibers ?S1)" using run(11) by simp
  ultimately show ?thesis
    using next_ok [of T] next_ok [of "set_state f HOLD T"] run(10) fs run(1)
    by (auto simp: run_fiber_task_def Let_def same_counts_def schedule_def scheduleNoLock_def)
qed

text \<open>The fiber that is to run a callback, new or reset.\<close>

lemma cb_fiber_ready:
  assumes W: "worker_ok m W" and a: "heap (w_fibers W) a = None"
  obtains f T g where "(case w_cb_fiber W of
        Some f \<Rightarrow> (f, reset_fiber f (Some cb) (w_fibers W))
      | None \<Rightarrow> (a, Some (new_Fiber n a (Some cb) 0 False (w_fibers W)))) = (f, Some T)"
    "fibers_ok m T" "running T = m" "heap T f = Some g" "fb_state g = INIT" "fb_stack g"
    "dom (heap T) = insert f (dom (heap (w_fibers W)))" "\<forall>b. b \<noteq> f \<longrightarrow> heap T b = heap (w_fibers W) b"
    "f \<noteq> w_idle_fiber W"
proof (cases "w_cb_fiber W")
  case None
  let ?T = "new_Fiber n a (Some cb) 0 False (w_fibers W)"
  have "fiber_step m (w_fibers W) ?T" using worker_okD(2) [OF W] a by (rule fiber_step.New)
  then have "fibers_ok m ?T" using worker_okD(1) [OF W] by (rule fiber_step_ok)
  moreover have "a \<noteq> w_idle_fiber W" using a worker_okD(5) [OF W] by auto
  ultimately show thesis
    using that [of a ?T] None worker_okD(2) [OF W] by (simp add: new_Fiber_def)
next
  case (Some f)
  then obtain g where g: "heap (w_fibers W) f = Some g" "fb_stack g" "fb_state g \<in> {State_TERM, EXCEPT, INIT}"
    using worker_okD(8) [OF W] by (auto simp: spare_fiber_def)
  let ?T = "upd_fiber f (\<lambda>f. f\<lparr>fb_cb := Some cb, fb_ctx := Fresh Main_func, fb_state := INIT\<rparr>) (w_fibers W)"
  have r: "reset_fiber f (Some cb) (w_fibers W) = Some ?T" using g by (auto simp: reset_fiber_def)
  have "fiber_step m (w_fibers W) ?T" using worker_okD(2) [OF W] r by (rule fiber_step.Reset)
  then have "fibers_ok m ?T" using worker_okD(1) [OF W] by (rule fiber_step_ok)
  then show thesis
    using that [of f ?T] Some g r worker_okD(2,4) [OF W] by (auto simp: upd_fiber_def)
qed

lemma reset_ended:
  assumes "fibers_ok m T" "running T = m" "heap T f = Some g" "fb_stack g" "fb_state g \<in> {EXCEPT, State_TERM}"
  obtains T' g' where "reset_fiber f None T = Some T'" "fibers_ok m T'" "running T' = m" "heap T' f = Some g'"
    "spare_fiber g'" "dom (heap T') = dom (heap T)" "\<And>b. b \<noteq> f \<Longrightarrow> heap T' b = heap T b"
proof -
  let ?T = "upd_fiber f (\<lambda>f. f\<lparr>fb_cb := None, fb_ctx := Fresh Main_func, fb_state := INIT\<rparr>) T"
  have r: "reset_fiber f None T = Some ?T" using assms by (auto simp: reset_fiber_def)
  have "fiber_step m T ?T" using assms(2) r by (rule fiber_step.Reset)
  then have "fibers_ok m ?T" using assms(1) by (rule fiber_step_ok)
  then show thesis using that [OF r] assms by (auto simp: upd_fiber_def spare_fiber_def)
qed

lemma run_cb_task_ok:
  assumes W: "worker_ok m W" and a: "heap (w_fibers W) a = None"
    and bh: "well_behaved bh (w_idle_fiber W) (dom (heap (w_fibers W)))"
  shows "\<exists>W'. run_cb_task bh n a cb W = Run_next W' \<and> worker_ok m W' \<and>
    m_activeThreadCount (w_sched W') = m_activeThreadCount (w_sched W) - 1 \<and>
    m_idleThreadCount (w_sched W') = m_idleThreadCount (w_sched W)"
proof -
  let ?S = "w_sched W" and ?i = "w_idle_fiber W"
  note D = worker_okD [OF W]
  obtain f T1 g1 where T1: "(case w_cb_fiber W of
        Some f \<Rightarrow> (f, reset_fiber f (Some cb) (w_fibers W))
      | None \<Rightarrow> (a, Some (new_Fiber n a (Some cb) 0 False (w_fibers W)))) = (f, Some T1)"
    "fibers_ok m T1" "running T1 = m" "heap T1 f = Some g1" "fb_state g1 = INIT" "fb_stack g1"
    "dom (heap T1) = insert f (dom (heap (w_fibers W)))" "\<forall>b. b \<noteq> f \<longrightarrow> heap T1 b = heap (w_fibers W) b"
    "f \<noteq> ?i"
    using cb_fiber_ready [OF W a, where cb = cb and n = n] .
  have calls: "calls_ok ?i (dom (heap T1)) (fst (conduct bh f ?S T1))"
    by (rule conduct_ok [OF bh]) (simp_all add: T1(7))
  have q1: "tasks_ok (dom (heap T1) - {?i}) (m_fibers ?S)"
    using D(3) by (rule tasks_ok_mono) (auto simp: user_fibers_def T1(7))
  have st1: "fb_state g1 \<notin> {EXEC, State_TERM, EXCEPT}" and i1: "?i \<in> dom (heap T1)" using T1(5,7) D(7) by auto
  obtain S T g where run: "resume bh n f ?S T1 = Some (S, T)" "running T = m" "heap T f = Some g" "fb_stack g"
    "fb_state g = back_state (snd (conduct bh f ?S T1))"
    "fibers_ok m (set_state f HOLD T)" "fb_state g \<noteq> EXEC \<longrightarrow> fibers_ok m T" "dom (heap T1) \<subseteq> dom (heap T)"
    "\<forall>b \<in> dom (heap T1). b \<noteq> f \<and> b \<noteq> m \<longrightarrow> heap T b = heap T1 b" "same_counts ?S S"
    "tasks_ok (dom (heap T) - {?i}) (m_fibers S)"
    using resume_total [OF T1(2-4) st1 calls q1 i1] .
  have fs: "fiber_state T f = fb_state g" using run(3) by (simp add: fiber_state_def)
  let ?S1 = "S\<lparr>m_activeThreadCount := m_activeThreadCount S - 1\<rparr>"
  have step: "worker_ok m (W\<lparr>w_sched := S', w_fibers := T', w_cb_fiber := c\<rparr>)"
    if "fibers_ok m T'" "running T' = m" "dom (heap T') = dom (heap T)" "\<And>b. b \<noteq> f \<Longrightarrow> heap T' b = heap T b"
      "tasks_ok (dom (heap T) - {?i}) (m_fibers S')"
      "c = None \<or> c = Some f \<and> (\<exists>k. heap T' f = Some k \<and> spare_fiber k)" for S' T' c
  proof (rule worker_ok_after [OF W, where a = f])
    show "heap T' b = heap (w_fibers W) b" if "b \<noteq> f" "b \<noteq> m" "b \<in> dom (heap (w_fibers W))" for b
      using \<open>\<And>b. b \<noteq> f \<Longrightarrow> heap T' b = heap T b\<close> that run(9) T1(7,8) by simp
  qed (use that T1(9) in auto)
  consider "fb_state g = READY" | "fb_state g \<in> {EXCEPT, State_TERM}" | "fb_state g \<in> {HOLD, EXEC}"
    using run(5) by (auto simp: back_state_def split: give_back.split_asm cb_result.split_asm)
  then show ?thesis
  proof cases
    case 1
    have "tasks_ok (dom (heap T) - {?i}) (m_fibers (snd (schedule (fiber_task (Some f) (-1)) ?S1)))"
      using run(3,11) T1(9) by (auto simp: tasks_ok_schedule)
    from step [OF _ run(2) refl refl this] show ?thesis
      using 1 run(1,7,10) fs
      by (auto simp: run_cb_task_def T1(1) Let_def same_counts_def schedule_def scheduleNoLock_def)
  next
    case 2
    have "fibers_ok m T" using run(7) 2 by auto
    then obtain T2 g2 where T2: "reset_fiber f None T = Some T2" "fibers_ok m T2" "running T2 = m" "heap T2 f = Some g2"
      "spare_fiber g2" "dom (heap T2) = dom (heap T)" "\<And>b. b \<noteq> f \<Longrightarrow> heap T2 b = heap T b"
      using reset_ended [OF _ run(2-4) 2] by blast
    have "tasks_ok (dom (heap T) - {?i}) (m_fibers ?S1)" using run(11) by simp
    from step [OF T2(2,3,6,7) this] show ?thesis
      using 2 run(1,10) fs T2
      by (auto simp: run_cb_task_def T1(1) Let_def same_counts_def)
  next
    case 3
    have "tasks_ok (dom (heap T) - {?i}) (m_fibers ?S1)" using run(11) by simp
    from step [OF run(6) _ _ _ this] show ?thesis
      using 3 run(1,2,10) fs
      by (auto simp: run_cb_task_def T1(1) Let_def same_counts_def)
  qed
qed

lemma run_idle_ok:
  assumes W: "worker_ok m W" and bh: "well_behaved bh (w_idle_fiber W) (dom (heap (w_fibers W)))"
  shows "run_ok m (w_sched W) (run_idle bh n W)"
proof (cases "fiber_state (w_fibers W) (w_idle_fiber W) = State_TERM")
  case True
  then show ?thesis using W by (simp add: run_idle_def run_ok_def same_counts_def)
next
  case False
  let ?i = "w_idle_fiber W"
  let ?S = "(w_sched W)\<lparr>m_idleThreadCount := m_idleThreadCount (w_sched W) + 1\<rparr>"
  note D = worker_okD [OF W]
  obtain f where f: "heap (w_fibers W) ?i = Some f" "fb_state f \<notin> {EXEC, State_TERM, EXCEPT}"
      "fb_state f = INIT \<longrightarrow> fb_cb f \<noteq> None"
    using D(5) False by (auto simp: fiber_state_def)
  have calls: "calls_ok ?i (dom (heap (w_fibers W))) (fst (conduct bh ?i ?S (w_fibers W)))"
    by (rule conduct_ok [OF bh]) (use D(7) in auto)
  have q: "tasks_ok (dom (heap (w_fibers W)) - {?i}) (m_fibers ?S)" using D(3) by (simp add: user_fibers_def)
  obtain S1 T g where run: "resume bh n ?i ?S (w_fibers W) = Some (S1, T)" "running T = m" "heap T ?i = Some g"
    "fb_stack g" "fb_state g = back_state (snd (conduct bh ?i ?S (w_fibers W)))" "fibers_ok m (set_state ?i HOLD T)"
    "fb_state g \<noteq> EXEC \<longrightarrow> fibers_ok m T" "dom (heap (w_fibers W)) \<subseteq> dom (heap T)"
    "\<forall>b \<in> dom (heap (w_fibers W)). b \<noteq> ?i \<and> b \<noteq> m \<longrightarrow> heap T b = heap (w_fibers W) b" "same_counts ?S S1"
    "tasks_ok (dom (heap T) - {?i}) (m_fibers S1)"
    using resume_total [OF D(1,2) f(1,2) calls q D(7)] .
  have "snd (conduct bh ?i ?S (w_fibers W)) \<noteq> Ended Threw"
    using bh f by (auto simp: conduct_def no_callback_def well_behaved_def)
  then have st: "fb_state g \<notin> {EXCEPT, INIT}"
    using run(5) by (auto simp: back_state_def split: give_back.split_asm cb_result.split_asm)
  define T' where "T' = (if fiber_state T ?i \<noteq> State_TERM \<and> fiber_state T ?i \<noteq> EXCEPT then set_state ?i HOLD T else T)"
  have T': "fibers_ok m T'" "running T' = m" "dom (heap T') = dom (heap T)"
    "\<exists>f. heap T' ?i = Some f \<and> fb_state f \<notin> {EXEC, EXCEPT, INIT}"
    using run(2,3,6,7) st by (auto simp: T'_def fiber_state_def set_state_def upd_fiber_def)
  have cb: "heap T' b = heap (w_fibers W) b" if "w_cb_fiber W = Some b" for b
  proof -
    obtain k where "heap (w_fibers W) b = Some k" "spare_fiber k" using D(8) [OF \<open>w_cb_fiber W = Some b\<close>] by blast
    then have "b \<noteq> ?i" "b \<noteq> m" "b \<in> dom (heap (w_fibers W))"
      using that D(4) W by (auto simp: worker_ok_def fibers_ok_def spare_fiber_def)
    then show ?thesis using run(9) by (simp add: T'_def)
  qed
  have "worker_ok m (W\<lparr>w_sched := S, w_fibers := T'\<rparr>)" if "m_fibers S = m_fibers S1" for S
    using T' D(4,8) cb run(11) that by (auto simp: worker_ok_def user_fibers_def)
  then show ?thesis
    using False run(1,10)
    by (simp add: run_idle_def run_ok_def Let_def same_counts_def T'_def)
qed

section \<open>Properties\<close>

text \<open>
  C6. A round of \<^verbatim>\<open>Scheduler::run\<close> on the only worker thread of a scheduler fails none of the assertions of the
  scheduler and of the fibers it switches to: it ends with the worker's main fiber running, the
  invariant of the worker restored and the counters of active and idle threads balanced.  Meanwhile the task
  and other threads may schedule any callbacks and any existing fibers but the worker's idle fiber, the
  running one included, whether it yields, ends or throws, and make new fibers at addresses that are
  free; the idle function may do the same but not throw.  That the scheduler has no other worker matters: the
  state of a fiber is looked at before it is resumed, so a fiber that is in the queue twice can be resumed by
  two workers.
\<close>

theorem run_once_safe:
  assumes W: "worker_ok m W" and bh: "well_behaved bh (w_idle_fiber W) (dom (heap (w_fibers W)))"
    and a: "heap (w_fibers W) a = None"
  shows "case run_once bh n tid a W of
      Run_failed \<Rightarrow> False
    | Run_stop W' \<Rightarrow> worker_ok m W' \<and> same_counts (w_sched W) (w_sched W')
    | Run_next W' \<Rightarrow> worker_ok m W' \<and> same_counts (w_sched W) (w_sched W')"
proof -
  let ?S = "w_sched W" and ?T = "w_fibers W"
  note D = worker_okD [OF W]
  have restrict: "worker_ok m (W\<lparr>w_sched := S\<rparr>)" "user_fibers (W\<lparr>w_sched := S\<rparr>) = user_fibers W"
    if "set (m_fibers S) \<subseteq> set (m_fibers ?S)" for S
    using W that by (auto simp: worker_ok_def tasks_ok_def user_fibers_def)
  have "\<forall>t \<in> set (m_fibers ?S). nonempty_task t" using D(3) by (simp add: tasks_ok_def)
  from pick_task_first [OF this, of tid "fiber_state ?T"]
  consider (idle) b where "pick_task tid (fiber_state ?T) (m_fibers ?S) = Some (None, m_fibers ?S, b)"
    | (task) xs t ys b where "m_fibers ?S = xs @ t # ys"
      "pick_task tid (fiber_state ?T) (m_fibers ?S) = Some (Some t, xs @ ys, b)" "takeable tid (fiber_state ?T) t"
    by blast
  then have "run_ok m ?S (run_once bh n tid a W)"
  proof cases
    case idle
    then show ?thesis using run_idle_ok [OF W bh] by (simp add: run_once_def)
  next
    case (task xs t ys b)
    let ?S1 = "?S\<lparr>m_fibers := xs @ ys, m_activeThreadCount := m_activeThreadCount ?S + 1\<rparr>"
    let ?W = "W\<lparr>w_sched := ?S1\<rparr>"
    have W1: "worker_ok m ?W" "user_fibers ?W = user_fibers W" using restrict [of ?S1] task(1) by auto
    have bh1: "well_behaved bh (w_idle_fiber ?W) (dom (heap (w_fibers ?W)))" using bh by simp
    have cb: "run_ok m ?S (run_cb_task bh n a c ?W)" for c
      using run_cb_task_ok [OF W1(1) _ bh1, of a n c] a by (auto simp: run_ok_def same_counts_def)
    have t: "nonempty_task t" "\<And>f. ft_fiber t = Some f \<Longrightarrow> f \<in> user_fibers W"
      using D(3) task(1) by (auto simp: tasks_ok_def)
    have fib: "run_ok m ?S (run_fiber_task bh n f ?W)"
      if "ft_fiber t = Some f" "fiber_state ?T f \<noteq> State_TERM" "fiber_state ?T f \<noteq> EXCEPT" for f
      using run_fiber_task_ok [OF W1(1) _ _ bh1, where f = f and n = n] t(2) [OF that(1)] that task(3) W1(2)
      by (auto simp: run_ok_def same_counts_def takeable_def)
    have drop: "run_ok m ?S (Run_next (?W\<lparr>w_sched := ?S1\<lparr>m_activeThreadCount := m_activeThreadCount ?S1 - 1\<rparr>\<rparr>))"
      using restrict [of "?S1\<lparr>m_activeThreadCount := m_activeThreadCount ?S1 - 1\<rparr>"] task(1)
      by (auto simp: run_ok_def same_counts_def)
    show ?thesis
      using cb fib drop task(2) by (simp add: run_once_def Let_def split: option.split)
  qed
  then show ?thesis by (simp add: run_ok_def)
qed

definition sample_worker :: "string worker" where
  "sample_worker =
    \<lparr>w_sched = snd (schedule (cb_task (Some ''hello'') (-1)) (the (new_Scheduler 2 False 7 0))),
     w_fibers = new_Fiber 1024 1 (Some ''idle'') 0 False sample_start, w_cb_fiber = None, w_idle_fiber = 1\<rparr>"

text \<open>Callbacks that make a fiber, schedule it and themselves, and end.\<close>

definition sample_behaviour :: "string behaviour" where
  "sample_behaviour x S =
    (if x = 1 then ([], Yield_hold)
     else ([Make_fiber (x + 2) (Some ''new'') 0, Call_schedule (fiber_task (Some (x + 2)) (-1)), Call_schedule (fiber_task (Some x) 5)],
       Ended Returned))"

lemma sample_worker_ok: "worker_ok 0 sample_worker"
  by (auto simp: worker_ok_def sample_worker_def schedule_def scheduleNoLock_def new_Scheduler_def new_Fiber_def
      sample_start_def GetThis_def new_main_Fiber_def SetThis_def fibers_ok_def fiber_ok_def resumes_def
      tasks_ok_def nonempty_task_def user_fibers_def)

theorem run_once_safe_witness:
  "case run_once sample_behaviour 1024 5 2 sample_worker of
      Run_failed \<Rightarrow> False
    | Run_stop W' \<Rightarrow> worker_ok 0 W' \<and> same_counts (w_sched sample_worker) (w_sched W')
    | Run_next W' \<Rightarrow> worker_ok 0 W' \<and> same_counts (w_sched sample_worker) (w_sched W')"
proof (rule run_once_safe [OF sample_worker_ok])
  show "well_behaved sample_behaviour (w_idle_fiber sample_worker) (dom (heap (w_fibers sample_worker)))"
    by (auto simp: well_behaved_def sample_behaviour_def sample_worker_def new_Fiber_def sample_start_def GetThis_def
        new_main_Fiber_def SetThis_def)
  show "heap (w_fibers sample_worker) 2 = None"
    by (simp add: sample_worker_def new_Fiber_def sample_start_def GetThis_def new_main_Fiber_def SetThis_def)
qed

text \<open>
  C13. No task starves: a task at position \<open>i\<close> of the queue that a worker may run is taken by that worker
  within its next \<open>i + 1\<close> rounds, however the states of other fibers change and whatever tasks are
  appended in between.
\<close>

theorem no_starvation:
  assumes "i < length q" "i < length rs" "\<forall>t \<in> set q. nonempty_task t"
    and "\<forall>(st, new) \<in> set rs. takeable tid st (q ! i) \<and> (\<forall>t \<in> set new. nonempty_task t)"
  shows "\<exists>k \<le> i. k < length (rounds tid rs q) \<and> rounds tid rs q ! k = Some (q ! i)"
  using rounds_take [OF assms] by (auto simp: in_set_conv_nth less_Suc_eq_le)

theorem no_starvation_witness:
  "\<exists>k \<le> 1. k < length (rounds 5 [((\<lambda>_. HOLD), []), ((\<lambda>_. HOLD), [cb_task (Some ''c'') 5])]
      [cb_task (Some ''a'') 5, cb_task (Some ''b'') (-1)]) \<and>
    rounds 5 [((\<lambda>_. HOLD), []), ((\<lambda>_. HOLD), [cb_task (Some ''c'') 5])]
      [cb_task (Some ''a'') 5, cb_task (Some ''b'') (-1)] ! k = Some (cb_task (Some ''b'') (-1))"
  using no_starvation [of 1 "[cb_task (Some ''a'') 5, cb_task (Some ''b'') (-1)]"
      "[((\<lambda>_. HOLD), []), ((\<lambda>_. HOLD), [cb_task (Some ''c'') 5])]" 5]
  by (simp add: nonempty_task_def takeable_def)

end
