(* ===== verification/Timer.thy ===== *)
theory Timer
  imports StdSet
begin

text \<open>
  \<^verbatim>\<open>timer.cpp\<close> and \<^verbatim>\<open>timer.h\<close>: timers and the timer manager.  A timer object is found in the heap of the
  manager under its address; \<^verbatim>\<open>m_timers\<close> is the ordered set of the addresses of the pending timers.
  Times are 64-bit milliseconds and wrap around as in the code.  The current time and the addresses
  of new objects are arguments.  An operation is the part of a function that runs under the
  manager's lock: a collection of expired timers is a check under the read lock and, later, a step under the
  write lock, with steps of other threads between (\<open>tm_run\<close>).  \<open>None\<close> is undefined behaviour (erasing the end iterator, looking at the first
  element of an empty set).
\<close>

section \<open>State\<close>

text \<open>A callback is the user's function, or the function bound to a condition by
  \<^verbatim>\<open>addConditionTimer\<close>.\<close>

datatype ('w, 'c) timer_cb = Plain 'c | On_timer 'w "'c option"

record ('w, 'c) timer =
  m_recurring :: bool
  m_ms :: u64
  m_next :: u64
  m_cb :: "('w, 'c) timer_cb option"

type_synonym ('w, 'c) timer_heap = "nat \<rightharpoonup> ('w, 'c) timer"

record ('w, 'c) timer_manager =
  timer_heap :: "('w, 'c) timer_heap"
  m_timers :: "nat list"
  m_tickled :: bool
  m_previouseTime :: u64

text \<open>\<^verbatim>\<open>Timer::Comparator\<close> on two pointers, null included.\<close>

definition Comparator :: "('w, 'c) timer_heap \<Rightarrow> nat option \<Rightarrow> nat option \<Rightarrow> bool" where
  "Comparator H lhs rhs =
    (case lhs of
       None \<Rightarrow> rhs \<noteq> None
     | Some l \<Rightarrow>
         (case rhs of
            None \<Rightarrow> False
          | Some r \<Rightarrow>
              let ln = m_next (the (H l)); rn = m_next (the (H r)) in
              if ln < rn then True else if rn < ln then False else l < r))"

abbreviation before :: "('w, 'c) timer_heap \<Rightarrow> nat \<Rightarrow> nat \<Rightarrow> bool" where
  "before H a b \<equiv> Comparator H (Some a) (Some b)"

section \<open>Operations\<close>

definition new_Timer :: "u64 \<Rightarrow> u64 \<Rightarrow> ('w, 'c) timer_cb option \<Rightarrow> bool \<Rightarrow> ('w, 'c) timer" where
  "new_Timer now ms cb recurring =
    \<lparr>m_recurring = recurring, m_ms = ms, m_next = now + ms, m_cb = cb\<rparr>"

definition new_Timer_at :: "u64 \<Rightarrow> ('w, 'c) timer" where
  "new_Timer_at next = \<lparr>m_recurring = False, m_ms = 0, m_next = next, m_cb = None\<rparr>"

definition TimerManager_new :: "u64 \<Rightarrow> ('w, 'c) timer_manager" where
  "TimerManager_new now =
    \<lparr>timer_heap = Map.empty, m_timers = [], m_tickled = False, m_previouseTime = now\<rparr>"

text \<open>The protected \<^verbatim>\<open>addTimer\<close>; the result says whether \<^verbatim>\<open>onTimerInsertedAtFront\<close> is called.\<close>

definition addTimer_locked :: "nat \<Rightarrow> ('w, 'c) timer_manager \<Rightarrow> bool \<times> ('w, 'c) timer_manager" where
  "addTimer_locked a M =
    (let ts = set_insert (before (timer_heap M)) a (m_timers M);
         at_front = (hd ts = a \<and> \<not> m_tickled M)
     in (at_front, M\<lparr>m_timers := ts, m_tickled := (at_front \<or> m_tickled M)\<rparr>))"

definition addTimer ::
  "u64 \<Rightarrow> nat \<Rightarrow> u64 \<Rightarrow> ('w, 'c) timer_cb option \<Rightarrow> bool \<Rightarrow> ('w, 'c) timer_manager
   \<Rightarrow> bool \<times> ('w, 'c) timer_manager" where
  "addTimer now a ms cb recurring M =
    addTimer_locked a (M\<lparr>timer_heap := (timer_heap M)(a \<mapsto> new_Timer now ms cb recurring)\<rparr>)"

definition addConditionTimer ::
  "u64 \<Rightarrow> nat \<Rightarrow> u64 \<Rightarrow> 'c option \<Rightarrow> 'w \<Rightarrow> bool \<Rightarrow> ('w, 'c) timer_manager
   \<Rightarrow> bool \<times> ('w, 'c) timer_manager" where
  "addConditionTimer now a ms cb weak_cond recurring M =
    addTimer now a ms (Some (On_timer weak_cond cb)) recurring M"

text \<open>\<^verbatim>\<open>OnTimer\<close>: which function a callback runs, if any, given which conditions are still alive.\<close>

definition OnTimer :: "('w \<Rightarrow> bool) \<Rightarrow> ('w, 'c) timer_cb \<Rightarrow> 'c option" where
  "OnTimer alive cb =
    (case cb of Plain f \<Rightarrow> Some f | On_timer w f \<Rightarrow> if alive w then f else None)"

definition cancel :: "nat \<Rightarrow> ('w, 'c) timer_manager \<Rightarrow> (bool \<times> ('w, 'c) timer_manager) option" where
  "cancel a M =
    (case timer_heap M a of
       None \<Rightarrow> None
     | Some t \<Rightarrow>
         if m_cb t = None then Some (False, M)
         else
           let H = (timer_heap M)(a \<mapsto> t\<lparr>m_cb := None\<rparr>) in
           case set_find (before H) a (m_timers M) of
             None \<Rightarrow> None
           | Some b \<Rightarrow> Some (True, M\<lparr>timer_heap := H, m_timers := set_erase b (m_timers M)\<rparr>))"

definition refresh ::
  "u64 \<Rightarrow> nat \<Rightarrow> ('w, 'c) timer_manager \<Rightarrow> (bool \<times> ('w, 'c) timer_manager) option" where
  "refresh now a M =
    (case timer_heap M a of
       None \<Rightarrow> None
     | Some t \<Rightarrow>
         if m_cb t = None then Some (False, M)
         else case set_find (before (timer_heap M)) a (m_timers M) of
             None \<Rightarrow> Some (False, M)
           | Some b \<Rightarrow>
               let H = (timer_heap M)(a \<mapsto> t\<lparr>m_next := now + m_ms t\<rparr>) in
               Some (True, M\<lparr>timer_heap := H,
                 m_timers := set_insert (before H) a (set_erase b (m_timers M))\<rparr>))"

text \<open>The second component says whether \<^verbatim>\<open>onTimerInsertedAtFront\<close> is called.\<close>

definition reset ::
  "u64 \<Rightarrow> u64 \<Rightarrow> bool \<Rightarrow> nat \<Rightarrow> ('w, 'c) timer_manager
   \<Rightarrow> (bool \<times> bool \<times> ('w, 'c) timer_manager) option" where
  "reset now ms from_now a M =
    (case timer_heap M a of
       None \<Rightarrow> None
     | Some t \<Rightarrow>
         if m_ms t = ms \<and> \<not> from_now then Some (True, False, M)
         else if m_cb t = None then Some (False, False, M)
         else case set_find (before (timer_heap M)) a (m_timers M) of
             None \<Rightarrow> Some (False, False, M)
           | Some b \<Rightarrow>
               let start = (if from_now then now else m_next t - m_ms t);
                   H = (timer_heap M)(a \<mapsto> t\<lparr>m_ms := ms, m_next := start + ms\<rparr>);
                   (front, M') = addTimer_locked a
                     (M\<lparr>timer_heap := H, m_timers := set_erase b (m_timers M)\<rparr>)
               in Some (True, front, M'))"

definition getNextTimer :: "u64 \<Rightarrow> ('w, 'c) timer_manager \<Rightarrow> u64 \<times> ('w, 'c) timer_manager" where
  "getNextTimer now M =
    (let M' = M\<lparr>m_tickled := False\<rparr> in
     case m_timers M of
       [] \<Rightarrow> (ULLONG_MAX, M')
     | a # _ \<Rightarrow>
         let next = m_next (the (timer_heap M a)) in
         (if now \<ge> next then 0 else next - now, M'))"

definition detectClockRollover :: "u64 \<Rightarrow> ('w, 'c) timer_manager \<Rightarrow> bool \<times> ('w, 'c) timer_manager" where
  "detectClockRollover now M =
    (now < m_previouseTime M \<and> now < m_previouseTime M - 60 * 60 * 1000,
     M\<lparr>m_previouseTime := now\<rparr>)"

text \<open>The loop over the expired timers: collect the callbacks, put recurring timers back.\<close>

fun expire :: "u64 \<Rightarrow> nat list \<Rightarrow> ('w, 'c) timer_manager
    \<Rightarrow> ('w, 'c) timer_cb option list \<times> ('w, 'c) timer_manager" where
  "expire now [] M = ([], M)"
| "expire now (a # as) M =
    (let t = the (timer_heap M a);
         M' = (if m_recurring t then
                 let H = (timer_heap M)(a \<mapsto> t\<lparr>m_next := now + m_ms t\<rparr>)
                 in M\<lparr>timer_heap := H, m_timers := set_insert (before H) a (m_timers M)\<rparr>
               else M\<lparr>timer_heap := (timer_heap M)(a \<mapsto> t\<lparr>m_cb := None\<rparr>)\<rparr>);
         (cbs, M'') = expire now as M'
     in (m_cb t # cbs, M''))"

text \<open>The part of \<^verbatim>\<open>listExpiredCb\<close> under the write lock; \<open>n\<close> is the address of \<^verbatim>\<open>now_timer\<close>.  With no
  rollover the first element of an empty set is looked at.\<close>

definition listExpiredCb_locked ::
  "u64 \<Rightarrow> nat \<Rightarrow> ('w, 'c) timer_manager
   \<Rightarrow> (('w, 'c) timer_cb option list \<times> ('w, 'c) timer_manager) option" where
  "listExpiredCb_locked now n M =
    (let (rollover, M) = detectClockRollover now M in
     if \<not> rollover \<and> m_timers M = [] then None
     else if \<not> rollover \<and> m_next (the (timer_heap M (hd (m_timers M)))) > now then Some ([], M)
     else
       let H = (timer_heap M)(n \<mapsto> new_Timer_at now);
           lower = (if rollover then m_timers M else below_bound (before H) n (m_timers M));
           rest = (if rollover then [] else from_bound (before H) n (m_timers M));
           more = takeWhile (\<lambda>a. m_next (the (timer_heap M a)) = now) rest;
           it = dropWhile (\<lambda>a. m_next (the (timer_heap M a)) = now) rest
       in Some (expire now (lower @ more) (M\<lparr>m_timers := it\<rparr>)))"

text \<open>The part of \<^verbatim>\<open>listExpiredCb\<close> under the read lock: whether it goes on.\<close>

definition listExpiredCb_check :: "('w, 'c) timer_manager \<Rightarrow> bool" where
  "listExpiredCb_check M \<longleftrightarrow> m_timers M \<noteq> []"

text \<open>A call that no other thread comes between.\<close>

definition listExpiredCb ::
  "u64 \<Rightarrow> nat \<Rightarrow> ('w, 'c) timer_manager
   \<Rightarrow> (('w, 'c) timer_cb option list \<times> ('w, 'c) timer_manager) option" where
  "listExpiredCb now n M = (if listExpiredCb_check M then listExpiredCb_locked now n M else Some ([], M))"

definition hasTimer :: "('w, 'c) timer_manager \<Rightarrow> bool" where
  "hasTimer M \<longleftrightarrow> m_timers M \<noteq> []"

section \<open>The order of the timers\<close>

interpretation timer_order: std_set "before H" for H
  by unfold_locales (auto simp: Comparator_def Let_def split: if_splits)

lemma before_iff:
  "before H a b \<longleftrightarrow> m_next (the (H a)) < m_next (the (H b)) \<or>
     m_next (the (H a)) = m_next (the (H b)) \<and> a < b"
  by (auto simp: Comparator_def Let_def)

text \<open>An update of an object outside the set does not touch the order inside it.\<close>

lemma sorted_before_upd:
  "a \<notin> set xs \<Longrightarrow> sorted_wrt (before (H(a := v))) xs = sorted_wrt (before H) xs"
  by (induction xs) (auto simp: before_iff)

lemma sorted_before_same_next:
  assumes "m_next (the (H a)) = m_next t"
  shows "sorted_wrt (before (H(a \<mapsto> t))) xs = sorted_wrt (before H) xs"
proof -
  have "m_next (the ((H(a \<mapsto> t)) x)) = m_next (the (H x))" for x using assms by simp
  then have "before (H(a \<mapsto> t)) = before H" by (intro ext) (simp only: before_iff)
  then show ?thesis by simp
qed

section \<open>Invariant\<close>

text \<open>The pending timers are in order and are objects of the heap; every timer that still has a
  callback is pending, apart from those in \<open>out\<close>.\<close>

definition wf_pending :: "nat set \<Rightarrow> ('w, 'c) timer_manager \<Rightarrow> bool" where
  "wf_pending out M \<longleftrightarrow> sorted_wrt (before (timer_heap M)) (m_timers M) \<and>
     set (m_timers M) \<subseteq> dom (timer_heap M) \<and>
     (\<forall>a t. timer_heap M a = Some t \<longrightarrow> m_cb t \<noteq> None \<longrightarrow> a \<in> set (m_timers M) \<union> out)"

abbreviation wf_tm :: "('w, 'c) timer_manager \<Rightarrow> bool" where
  "wf_tm \<equiv> wf_pending {}"

lemma wf_pendingD:
  assumes "wf_pending out M"
  shows "sorted_wrt (before (timer_heap M)) (m_timers M)" "set (m_timers M) \<subseteq> dom (timer_heap M)"
    "timer_heap M a = Some t \<Longrightarrow> m_cb t \<noteq> None \<Longrightarrow> a \<in> set (m_timers M) \<union> out"
  using assms by (auto simp: wf_pending_def)

lemma wf_tm_new: "wf_tm (TimerManager_new now)"
  by (simp add: wf_pending_def TimerManager_new_def)

lemma wf_insert:
  assumes "sorted_wrt (before H) ts" "set ts \<subseteq> dom H" "a \<in> dom H"
    and "\<And>b t. H b = Some t \<Longrightarrow> m_cb t \<noteq> None \<Longrightarrow> b \<in> insert a (set ts \<union> out)"
  shows "wf_pending out (M\<lparr>timer_heap := H, m_timers := set_insert (before H) a ts\<rparr>)"
  using assms
  by (auto simp: wf_pending_def timer_order.set_insert_sorted timer_order.set_set_insert)

lemma addTimer_locked_simp:
  "snd (addTimer_locked a M) =
     M\<lparr>timer_heap := timer_heap M, m_timers := set_insert (before (timer_heap M)) a (m_timers M),
       m_tickled := m_tickled (snd (addTimer_locked a M))\<rparr>"
  by (simp add: addTimer_locked_def Let_def)

lemma wf_pending_upd [simp]:
  "wf_pending out (M\<lparr>m_tickled := b\<rparr>) = wf_pending out M"
  "wf_pending out (M\<lparr>m_previouseTime := p\<rparr>) = wf_pending out M"
  by (simp_all add: wf_pending_def)

lemma addTimer_wf:
  assumes "wf_tm M" "a \<notin> dom (timer_heap M)"
  shows "wf_tm (snd (addTimer now a ms cb recurring M))"
proof -
  let ?H = "(timer_heap M)(a \<mapsto> new_Timer now ms cb recurring)"
  have na: "a \<notin> set (m_timers M)" using assms wf_pendingD(2) by blast
  have "wf_tm (M\<lparr>timer_heap := ?H, m_timers := set_insert (before ?H) a (m_timers M)\<rparr>)"
    using wf_pendingD [OF assms(1)] na
    by (intro wf_insert) (auto simp: sorted_before_upd split: if_splits)
  then show ?thesis
    unfolding addTimer_def by (subst addTimer_locked_simp) simp
qed

text \<open>The body shared by \<^verbatim>\<open>refresh\<close> and \<^verbatim>\<open>reset\<close>: take a pending timer out, change it, put it back.\<close>

lemma reinsert_wf:
  assumes "wf_tm M" "timer_heap M a = Some t" "m_cb t \<noteq> None" "m_cb t' = m_cb t"
  shows "wf_tm (M\<lparr>timer_heap := (timer_heap M)(a \<mapsto> t'),
      m_timers := set_insert (before ((timer_heap M)(a \<mapsto> t'))) a (set_erase a (m_timers M))\<rparr>)"
proof -
  note W = wf_pendingD [OF assms(1)]
  have e: "set (set_erase a (m_timers M)) = set (m_timers M) - {a}"
    by (rule timer_order.set_set_erase [OF W(1)])
  have "sorted_wrt (before ((timer_heap M)(a \<mapsto> t'))) (set_erase a (m_timers M))"
    using timer_order.set_erase_sorted [OF W(1)] e by (simp add: sorted_before_upd)
  then show ?thesis
    using W(2,3) assms e by (intro wf_insert) (auto split: if_splits)
qed

lemma find_pending:
  assumes "wf_tm M" "timer_heap M a = Some t" "m_cb t \<noteq> None"
  shows "set_find (before (timer_heap M)) a (m_timers M) = Some a"
  using timer_order.set_find_iff [OF wf_pendingD(1) [OF assms(1)]] wf_pendingD(3) [OF assms] by simp

lemma refresh_ok:
  assumes "wf_tm M" "timer_heap M a = Some t"
  shows "\<exists>r M'. refresh now a M = Some (r, M') \<and> wf_tm M' \<and> (r \<longleftrightarrow> m_cb t \<noteq> None) \<and>
    (r \<longrightarrow> timer_heap M' a = Some (t\<lparr>m_next := now + m_ms t\<rparr>) \<and> a \<in> set (m_timers M'))"
proof (cases "m_cb t = None")
  case True
  with assms have "refresh now a M = Some (False, M)" by (simp add: refresh_def)
  with True assms show ?thesis by blast
next
  case False
  let ?t = "t\<lparr>m_next := now + m_ms t\<rparr>"
  let ?M = "M\<lparr>timer_heap := (timer_heap M)(a \<mapsto> ?t),
      m_timers := set_insert (before ((timer_heap M)(a \<mapsto> ?t))) a (set_erase a (m_timers M))\<rparr>"
  have "refresh now a M = Some (True, ?M)"
    using False assms(2) find_pending [OF assms False] by (simp add: refresh_def Let_def)
  moreover have "wf_tm ?M" by (rule reinsert_wf [OF assms False]) simp
  ultimately show ?thesis using False by (auto simp: timer_order.set_set_insert)
qed

lemma reset_ok:
  assumes "wf_tm M" "timer_heap M a = Some t"
  shows "\<exists>r f M'. reset now ms from_now a M = Some (r, f, M') \<and> wf_tm M' \<and>
    (r \<longleftrightarrow> m_ms t = ms \<and> \<not> from_now \<or> m_cb t \<noteq> None)"
proof (cases "m_ms t = ms \<and> \<not> from_now \<or> m_cb t = None")
  case True
  with assms show ?thesis by (auto simp: reset_def)
next
  case False
  then have cb: "m_cb t \<noteq> None" by simp
  let ?t = "t\<lparr>m_ms := ms, m_next := (if from_now then now else m_next t - m_ms t) + ms\<rparr>"
  let ?M = "M\<lparr>timer_heap := (timer_heap M)(a \<mapsto> ?t), m_timers := set_erase a (m_timers M)\<rparr>"
  have "reset now ms from_now a M =
      Some (True, fst (addTimer_locked a ?M), snd (addTimer_locked a ?M))"
    using False assms(2) find_pending [OF assms cb]
    by (auto simp: reset_def Let_def split_beta)
  moreover have "wf_tm (snd (addTimer_locked a ?M))"
    using reinsert_wf [OF assms cb, of ?t] by (subst addTimer_locked_simp) simp
  ultimately show ?thesis using cb by blast
qed

lemma cancel_ok:
  assumes "wf_tm M" "timer_heap M a = Some t"
  shows "\<exists>M'. cancel a M = Some (m_cb t \<noteq> None, M') \<and> wf_tm M' \<and>
    timer_heap M' = (timer_heap M)(a \<mapsto> t\<lparr>m_cb := None\<rparr>) \<and>
    set (m_timers M') = (if m_cb t = None then set (m_timers M) else set (m_timers M) - {a})"
proof (cases "m_cb t = None")
  case True
  then have "t\<lparr>m_cb := None\<rparr> = t" by simp
  then have "(timer_heap M)(a \<mapsto> t\<lparr>m_cb := None\<rparr>) = timer_heap M" using assms(2) by (simp add: fun_upd_idem)
  moreover have "cancel a M = Some (False, M)" using True assms(2) by (simp add: cancel_def)
  ultimately show ?thesis using True assms(1) by auto
next
  case False
  let ?H = "(timer_heap M)(a \<mapsto> t\<lparr>m_cb := None\<rparr>)"
  note W = wf_pendingD [OF assms(1)]
  have s: "sorted_wrt (before ?H) (m_timers M)"
    using W(1) assms(2) by (simp add: sorted_before_same_next)
  have "set_find (before ?H) a (m_timers M) = Some a"
    using timer_order.set_find_iff [OF s] W(3) [OF assms(2) False] by simp
  moreover have e: "set (set_erase a (m_timers M)) = set (m_timers M) - {a}"
    by (rule timer_order.set_set_erase [OF s])
  have cb: "b \<in> set (m_timers M) - {a}" if "?H b = Some u" "m_cb u \<noteq> None" for b u
    using that W(3) [of b u] by (cases "b = a") auto
  moreover have "wf_tm (M\<lparr>timer_heap := ?H, m_timers := set_erase a (m_timers M)\<rparr>)"
    unfolding wf_pending_def
  proof (intro conjI allI impI)
    show "sorted_wrt (before (timer_heap (M\<lparr>timer_heap := ?H, m_timers := set_erase a (m_timers M)\<rparr>)))
        (m_timers (M\<lparr>timer_heap := ?H, m_timers := set_erase a (m_timers M)\<rparr>))"
      using timer_order.set_erase_sorted [OF s] by simp
  qed (use W(2) e cb in auto)
  ultimately show ?thesis using False assms(2) e by (auto simp: cancel_def)
qed

section \<open>Expired timers\<close>

text \<open>What happens to one expired timer.\<close>

definition after_expiry :: "u64 \<Rightarrow> ('w, 'c) timer \<Rightarrow> ('w, 'c) timer" where
  "after_expiry now t = (if m_recurring t then t\<lparr>m_next := now + m_ms t\<rparr> else t\<lparr>m_cb := None\<rparr>)"

lemma expire_ok:
  assumes "wf_pending (set as) M" "distinct as" "set as \<inter> set (m_timers M) = {}" "set as \<subseteq> dom (timer_heap M)"
  shows "\<exists>M'. expire now as M = (map (\<lambda>a. m_cb (the (timer_heap M a))) as, M') \<and> wf_tm M' \<and>
    set (m_timers M') = set (m_timers M) \<union> {a \<in> set as. m_recurring (the (timer_heap M a))} \<and>
    timer_heap M' = (\<lambda>a. if a \<in> set as then map_option (after_expiry now) (timer_heap M a) else timer_heap M a)"
  using assms
proof (induction as arbitrary: M)
  case Nil
  then show ?case by simp
next
  case (Cons a as)
  note W = wf_pendingD [OF Cons.prems(1)]
  obtain t where t: "timer_heap M a = Some t" using Cons.prems(4) by auto
  let ?H = "(timer_heap M)(a \<mapsto> after_expiry now t)"
  let ?ts = "if m_recurring t then set_insert (before ?H) a (m_timers M) else m_timers M"
  let ?M = "M\<lparr>timer_heap := ?H, m_timers := ?ts\<rparr>"
  have a: "a \<notin> set (m_timers M)" "a \<notin> set as" using Cons.prems(2,3) by auto
  have s: "sorted_wrt (before ?H) (m_timers M)" using W(1) a by (simp add: sorted_before_upd)
  have sts: "set ?ts = set (m_timers M) \<union> (if m_recurring t then {a} else {})"
    by (simp add: timer_order.set_set_insert)
  have "sorted_wrt (before ?H) ?ts" using s by (simp add: timer_order.set_insert_sorted)
  moreover have "b \<in> set ?ts \<union> set as" if "?H b = Some u" "m_cb u \<noteq> None" for b u
  proof (cases "b = a")
    case True
    with that show ?thesis by (auto simp: sts after_expiry_def split: if_splits)
  next
    case False
    with that W(3) [of b u] show ?thesis by (auto simp: sts)
  qed
  moreover have "set ?ts \<subseteq> dom ?H" using W(2) sts by auto
  ultimately have wf: "wf_pending (set as) ?M" by (simp add: wf_pending_def)
  have step: "expire now (a # as) M = (case expire now as ?M of (cbs, M') \<Rightarrow> (m_cb t # cbs, M'))"
    using t by (simp add: after_expiry_def Let_def)
  have "distinct as" "set as \<inter> set (m_timers ?M) = {}" "set as \<subseteq> dom (timer_heap ?M)"
    using Cons.prems(2-4) a sts by auto
  from Cons.IH [OF wf this] obtain M' where M':
    "expire now as ?M = (map (\<lambda>a. m_cb (the (timer_heap ?M a))) as, M')" "wf_tm M'"
    "set (m_timers M') = set (m_timers ?M) \<union> {a \<in> set as. m_recurring (the (timer_heap ?M a))}"
    "timer_heap M' = (\<lambda>a. if a \<in> set as then map_option (after_expiry now) (timer_heap ?M a) else timer_heap ?M a)"
    by blast
  have cbs: "map (\<lambda>b. m_cb (the (timer_heap ?M b))) as = map (\<lambda>b. m_cb (the (timer_heap M b))) as"
    using a(2) by auto
  have "expire now (a # as) M = (map (\<lambda>b. m_cb (the (timer_heap M b))) (a # as), M')"
    unfolding step M'(1) cbs using t by simp
  moreover have "set (m_timers M') = set (m_timers M) \<union> {b \<in> set (a # as). m_recurring (the (timer_heap M b))}"
    unfolding M'(3) using a(2) t sts by auto
  moreover have "timer_heap M' = (\<lambda>b. if b \<in> set (a # as) then map_option (after_expiry now) (timer_heap M b)
      else timer_heap M b)"
    unfolding M'(4) using a(2) t by auto
  ultimately show ?case using M'(2) by blast
qed

text \<open>On timers in order, the lower bound and the following loop together find the timers that are due.\<close>

lemma sorted_from_now:
  fixes f :: "'a \<Rightarrow> 'b::linorder"
  assumes "sorted (map f ys)" "\<forall>y \<in> set ys. now \<le> f y"
  shows "takeWhile (\<lambda>a. f a = now) ys = filter (\<lambda>a. f a \<le> now) ys \<and>
    dropWhile (\<lambda>a. f a = now) ys = filter (\<lambda>a. \<not> f a \<le> now) ys"
  using assms
proof (induction ys)
  case (Cons y ys)
  show ?case
  proof (cases "f y = now")
    case True
    with Cons show ?thesis by simp
  next
    case False
    then have "now < f y" using Cons.prems(2) by auto
    then have "\<forall>z \<in> set ys. \<not> f z \<le> now" using Cons.prems(1) by auto
    with \<open>now < f y\<close> show ?thesis by (auto simp: filter_empty_conv filter_id_conv [THEN iffD2])
  qed
qed simp

lemma sorted_due:
  fixes f :: "'a \<Rightarrow> 'b::linorder"
  assumes "sorted (map f ts)" "\<forall>a \<in> set ts. q a \<longrightarrow> f a \<le> now" "\<forall>a \<in> set ts. \<not> q a \<longrightarrow> now \<le> f a"
  shows "takeWhile q ts @ takeWhile (\<lambda>a. f a = now) (dropWhile q ts) = filter (\<lambda>a. f a \<le> now) ts \<and>
    dropWhile (\<lambda>a. f a = now) (dropWhile q ts) = filter (\<lambda>a. \<not> f a \<le> now) ts"
  using assms
proof (induction ts)
  case (Cons x xs)
  show ?case
  proof (cases "q x")
    case True
    with Cons show ?thesis by simp
  next
    case False
    then have "\<forall>y \<in> set (x # xs). now \<le> f y" using Cons.prems by auto
    with False sorted_from_now [OF Cons.prems(1)] show ?thesis by simp
  qed
qed simp

lemma sorted_next:
  "sorted_wrt (before H) ts \<Longrightarrow> sorted (map (\<lambda>a. m_next (the (H a))) ts)"
  by (induction ts) (auto simp: before_iff)

lemma due_prefix:
  assumes "sorted_wrt (before H) ts" "n \<notin> set ts" "H' = H(n \<mapsto> new_Timer_at now)"
  shows "below_bound (before H') n ts @
      takeWhile (\<lambda>a. m_next (the (H a)) = now) (from_bound (before H') n ts) =
      filter (\<lambda>a. m_next (the (H a)) \<le> now) ts"
    and "dropWhile (\<lambda>a. m_next (the (H a)) = now) (from_bound (before H') n ts) =
      filter (\<lambda>a. \<not> m_next (the (H a)) \<le> now) ts"
proof -
  have "before H' a n \<longleftrightarrow> m_next (the (H a)) < now \<or> m_next (the (H a)) = now \<and> a < n"
    if "a \<in> set ts" for a
    using that assms(2,3) by (auto simp: before_iff new_Timer_at_def)
  then have "\<forall>a \<in> set ts. before H' a n \<longrightarrow> m_next (the (H a)) \<le> now"
    "\<forall>a \<in> set ts. \<not> before H' a n \<longrightarrow> now \<le> m_next (the (H a))"
    by (auto simp: not_less)
  from sorted_due [OF sorted_next [OF assms(1)] this]
  show "below_bound (before H') n ts @
      takeWhile (\<lambda>a. m_next (the (H a)) = now) (from_bound (before H') n ts) =
      filter (\<lambda>a. m_next (the (H a)) \<le> now) ts"
    and "dropWhile (\<lambda>a. m_next (the (H a)) = now) (from_bound (before H') n ts) =
      filter (\<lambda>a. \<not> m_next (the (H a)) \<le> now) ts"
    by (simp_all add: below_bound_def from_bound_def)
qed

text \<open>The timers a call of \<^verbatim>\<open>listExpiredCb\<close> takes: all of them after a clock rollover, else those that are
  due.\<close>

definition due :: "u64 \<Rightarrow> ('w, 'c) timer_manager \<Rightarrow> nat \<Rightarrow> bool" where
  "due now M a \<longleftrightarrow> fst (detectClockRollover now M) \<or> m_next (the (timer_heap M a)) \<le> now"

lemma listExpired_split:
  assumes "wf_tm M" "n \<notin> set (m_timers M)" "m_timers M \<noteq> []"
  shows "listExpiredCb_locked now n M =
    Some (expire now (filter (due now M) (m_timers M))
      (M\<lparr>m_previouseTime := now, m_timers := filter (\<lambda>a. \<not> due now M a) (m_timers M)\<rparr>))"
proof (cases "fst (detectClockRollover now M)")
  case True
  then have "due now M = (\<lambda>a. True)" by (auto simp: due_def)
  with True assms(3) show ?thesis
    by (simp add: listExpiredCb_locked_def detectClockRollover_def)
next
  case False
  let ?f = "\<lambda>a. m_next (the (timer_heap M a))" and ?ts = "m_timers M"
  have due: "due now M = (\<lambda>a. ?f a \<le> now)" using False by (auto simp: due_def)
  have s: "sorted (map ?f ?ts)" by (rule sorted_next [OF wf_pendingD(1) [OF assms(1)]])
  note P = due_prefix [OF wf_pendingD(1) [OF assms(1)] assms(2) refl, of now]
  show ?thesis
  proof (cases "?f (hd ?ts) > now")
    case True
    have "\<forall>a \<in> set ?ts. \<not> ?f a \<le> now"
      using True s assms(3) by (cases ?ts) auto
    then have "filter (due now M) ?ts = []" "filter (\<lambda>a. \<not> due now M a) ?ts = ?ts"
      by (simp_all add: due filter_empty_conv)
    with True False assms(3) show ?thesis
      by (simp add: listExpiredCb_locked_def detectClockRollover_def)
  next
    case not_late: False
    have "detectClockRollover now M = (False, M\<lparr>m_previouseTime := now\<rparr>)"
      using False by (auto simp: detectClockRollover_def)
    with not_late assms(3) P show ?thesis
      by (simp add: listExpiredCb_locked_def due Let_def)
  qed
qed

lemma listExpired_ok:
  assumes "wf_tm M" "n \<notin> set (m_timers M)"
  shows "\<exists>M'. listExpiredCb now n M =
      Some (map (\<lambda>a. m_cb (the (timer_heap M a))) (filter (due now M) (m_timers M)), M') \<and> wf_tm M' \<and>
    set (m_timers M') = {a \<in> set (m_timers M). due now M a \<longrightarrow> m_recurring (the (timer_heap M a))} \<and>
    timer_heap M' = (\<lambda>a. if a \<in> set (m_timers M) \<and> due now M a
      then map_option (after_expiry now) (timer_heap M a) else timer_heap M a)"
proof (cases "m_timers M = []")
  case True
  with assms(1) show ?thesis by (simp add: listExpiredCb_def listExpiredCb_check_def)
next
  case False
  let ?as = "filter (due now M) (m_timers M)"
  let ?M = "M\<lparr>m_previouseTime := now, m_timers := filter (\<lambda>a. \<not> due now M a) (m_timers M)\<rparr>"
  note W = wf_pendingD [OF assms(1)]
  have "wf_pending (set ?as) ?M"
    using W(2,3) sorted_wrt_filter [OF W(1)] by (auto simp: wf_pending_def)
  moreover have "distinct ?as" using timer_order.sorted_distinct [OF W(1)] by simp
  moreover have "set ?as \<inter> set (m_timers ?M) = {}" "set ?as \<subseteq> dom (timer_heap ?M)" using W(2) by auto
  ultimately obtain M' where M': "expire now ?as ?M = (map (\<lambda>a. m_cb (the (timer_heap ?M a))) ?as, M')"
    "wf_tm M'" "set (m_timers M') = set (m_timers ?M) \<union> {a \<in> set ?as. m_recurring (the (timer_heap ?M a))}"
    "timer_heap M' = (\<lambda>a. if a \<in> set ?as then map_option (after_expiry now) (timer_heap ?M a) else timer_heap ?M a)"
    using expire_ok by blast
  have "listExpiredCb now n M = Some (map (\<lambda>a. m_cb (the (timer_heap M a))) ?as, M')"
    using False listExpired_split [OF assms False, of now] M'(1) by (simp add: listExpiredCb_def listExpiredCb_check_def)
  moreover have "set (m_timers M') = {a \<in> set (m_timers M). due now M a \<longrightarrow> m_recurring (the (timer_heap M a))}"
    unfolding M'(3) by auto
  moreover have "timer_heap M' = (\<lambda>a. if a \<in> set (m_timers M) \<and> due now M a
      then map_option (after_expiry now) (timer_heap M a) else timer_heap M a)"
    unfolding M'(4) by auto
  ultimately show ?thesis using M'(2) by blast
qed

section \<open>The timer manager as a state machine\<close>

text \<open>The operations that take the lock once; the addresses of new objects are fresh.\<close>

inductive tm_step :: "('w, 'c) timer_manager \<Rightarrow> ('w, 'c) timer_manager \<Rightarrow> bool" where
  step_add: "a \<notin> dom (timer_heap M) \<Longrightarrow> tm_step M (snd (addTimer now a ms cb recurring M))"
| step_cancel: "cancel a M = Some (r, M') \<Longrightarrow> tm_step M M'"
| step_refresh: "refresh now a M = Some (r, M') \<Longrightarrow> tm_step M M'"
| step_reset: "reset now ms from_now a M = Some (r, f, M') \<Longrightarrow> tm_step M M'"
| step_next: "tm_step M (snd (getNextTimer now M))"

text \<open>
  Any interleaving of threads.  A call of \<^verbatim>\<open>listExpiredCb\<close> takes the lock twice: \<open>ws\<close> are the calls, by their
  \<^verbatim>\<open>now_ms\<close>, that have found timers under the read lock and wait for the write lock.
\<close>

inductive tm_run :: "('w, 'c) timer_manager \<Rightarrow> u64 list \<Rightarrow> bool" where
  run_new: "tm_run (TimerManager_new now) []"
| run_step: "tm_run M ws \<Longrightarrow> tm_step M M' \<Longrightarrow> tm_run M' ws"
| run_check: "tm_run M ws \<Longrightarrow> listExpiredCb_check M \<Longrightarrow> tm_run M (now # ws)"
| run_collect: "tm_run M ws \<Longrightarrow> now \<in> set ws \<Longrightarrow> n \<notin> dom (timer_heap M) \<Longrightarrow>
    listExpiredCb_locked now n M = Some (cbs, M') \<Longrightarrow> tm_run M' (remove1 now ws)"

definition tm_reachable :: "('w, 'c) timer_manager \<Rightarrow> bool" where
  "tm_reachable M \<longleftrightarrow> (\<exists>ws. tm_run M ws)"

inductive_cases tm_stepE: "tm_step M M'"

lemma getNextTimer_wf: "wf_tm M \<Longrightarrow> wf_tm (snd (getNextTimer now M))"
  by (auto simp: getNextTimer_def Let_def split: list.split)

lemma tm_step_wf:
  assumes "tm_step M M'" "wf_tm M"
  shows "wf_tm M'"
  using assms
proof cases
  case (step_cancel a r)
  then obtain t where "timer_heap M a = Some t" by (auto simp: cancel_def split: option.splits)
  with cancel_ok [OF assms(2) this] step_cancel show ?thesis by auto
next
  case (step_refresh now a r)
  then obtain t where "timer_heap M a = Some t" by (auto simp: refresh_def split: option.splits)
  with refresh_ok [OF assms(2) this, of now] step_refresh show ?thesis by auto
next
  case (step_reset now ms from_now a r f)
  then obtain t where "timer_heap M a = Some t" by (auto simp: reset_def split: option.splits)
  with reset_ok [OF assms(2) this, of now ms from_now] step_reset show ?thesis by auto
qed (auto simp: addTimer_wf getNextTimer_wf assms(2))

text \<open>Collecting, with whatever timers are left when the write lock has been taken.\<close>

lemma collect_none_iff:
  assumes "wf_tm M" "n \<notin> set (m_timers M)"
  shows "listExpiredCb_locked now n M = None \<longleftrightarrow> m_timers M = [] \<and> \<not> fst (detectClockRollover now M)"
proof (cases "m_timers M = []")
  case False
  then show ?thesis using listExpired_split [OF assms False] by simp
qed (simp add: listExpiredCb_locked_def detectClockRollover_def)

lemma collect_wf:
  assumes "wf_tm M" "n \<notin> set (m_timers M)" "listExpiredCb_locked now n M = Some (cbs, M')"
  shows "wf_tm M'"
proof (cases "m_timers M = []")
  case True
  then have "M' = M\<lparr>m_previouseTime := now, m_timers := m_timers M\<rparr>"
    using assms(3) by (auto simp: listExpiredCb_locked_def detectClockRollover_def split: if_split_asm)
  with assms(1) show ?thesis by (simp add: wf_pending_def)
next
  case False
  then have "listExpiredCb now n M = Some (cbs, M')"
    using assms(3) by (simp add: listExpiredCb_def listExpiredCb_check_def)
  with listExpired_ok [OF assms(1,2), of now] show ?thesis by auto
qed

lemma tm_run_wf: "tm_run M ws \<Longrightarrow> wf_tm M"
proof (induction rule: tm_run.induct)
  case (run_collect M ws now n cbs M')
  then have "n \<notin> set (m_timers M)" using wf_pendingD(2) by blast
  with collect_wf run_collect show ?case by blast
qed (auto simp: wf_tm_new tm_step_wf)

lemma tm_reachable_wf: "tm_reachable M \<Longrightarrow> wf_tm M"
  by (auto simp: tm_reachable_def tm_run_wf)

text \<open>
  C23. However threads interleave, the pending timers are in the order of their times, are live objects, and
  every timer that still has a callback is pending; therefore no \<^verbatim>\<open>cancel\<close>, \<^verbatim>\<open>refresh\<close> or \<^verbatim>\<open>reset\<close> of a live timer
  erases the end of the set.  A collection of expired timers that has seen a timer under the read lock
  looks at the first element of an empty set in exactly one case: other threads have emptied the set before it
  got the write lock, and the clock has not been set back.
\<close>

theorem timers_reachable:
  assumes "tm_run M ws"
  shows "wf_tm M \<and> (\<forall>a \<in> dom (timer_heap M). cancel a M \<noteq> None \<and> refresh now a M \<noteq> None \<and>
      reset now ms from_now a M \<noteq> None) \<and>
    (\<forall>t \<in> set ws. n \<notin> dom (timer_heap M) \<longrightarrow>
      (listExpiredCb_locked t n M = None \<longleftrightarrow> \<not> listExpiredCb_check M \<and> \<not> fst (detectClockRollover t M)))"
proof (intro conjI ballI impI)
  show wf: "wf_tm M" by (rule tm_run_wf [OF assms])
  fix a assume "a \<in> dom (timer_heap M)"
  then obtain t where t: "timer_heap M a = Some t" by blast
  show "cancel a M \<noteq> None" using cancel_ok [OF wf t] by auto
  show "refresh now a M \<noteq> None" using refresh_ok [OF wf t, of now] by auto
  show "reset now ms from_now a M \<noteq> None" using reset_ok [OF wf t, of now ms from_now] by auto
next
  fix t assume "n \<notin> dom (timer_heap M)"
  then have "n \<notin> set (m_timers M)" using wf_pendingD(2) [OF tm_run_wf [OF assms]] by blast
  from collect_none_iff [OF tm_run_wf [OF assms] this, of t]
  show "listExpiredCb_locked t n M = None \<longleftrightarrow> \<not> listExpiredCb_check M \<and> \<not> fst (detectClockRollover t M)"
    by (simp add: listExpiredCb_check_def)
qed

text \<open>
  C10. \<^verbatim>\<open>listExpiredCb\<close> hands out exactly the callbacks of the timers that are due (all timers after a
  clock rollover), in the order of their times, wherever the helper timer was allocated; due timers
  that do not recur lose their callback and are no longer pending, due recurring timers are pending
  again one period from now, and the others are untouched.
\<close>

theorem listExpired_exact:
  assumes "tm_reachable M" "n \<notin> dom (timer_heap M)"
  shows "\<exists>M'. listExpiredCb now n M =
      Some (map (\<lambda>a. m_cb (the (timer_heap M a))) (filter (due now M) (m_timers M)), M') \<and>
    sorted (map (\<lambda>a. m_next (the (timer_heap M a))) (filter (due now M) (m_timers M))) \<and>
    set (m_timers M') = {a \<in> set (m_timers M). due now M a \<longrightarrow> m_recurring (the (timer_heap M a))} \<and>
    timer_heap M' = (\<lambda>a. if a \<in> set (m_timers M) \<and> due now M a
      then map_option (after_expiry now) (timer_heap M a) else timer_heap M a)"
proof -
  have wf: "wf_tm M" by (rule tm_reachable_wf [OF assms(1)])
  then have "n \<notin> set (m_timers M)" using assms(2) wf_pendingD(2) by blast
  moreover have "sorted (map (\<lambda>a. m_next (the (timer_heap M a))) (filter (due now M) (m_timers M)))"
    by (intro sorted_next sorted_wrt_filter wf_pendingD(1) [OF wf])
  ultimately show ?thesis using listExpired_ok [OF wf, of n now] by blast
qed

text \<open>
  A cancelled timer stays silent: \<^verbatim>\<open>cancel\<close> reports success exactly when the timer still had a
  callback, takes it out of the set, and no later collection of expired timers touches it; a second
  \<^verbatim>\<open>cancel\<close> and a \<^verbatim>\<open>refresh\<close> report failure.
\<close>

theorem cancel_silences:
  assumes "tm_reachable M" "timer_heap M a = Some t"
  shows "\<exists>M'. cancel a M = Some (m_cb t \<noteq> None, M') \<and>
    (m_cb t \<noteq> None \<longrightarrow> a \<notin> set (m_timers M') \<and>
      (\<forall>now. a \<notin> set (filter (due now M') (m_timers M')))) \<and>
    cancel a M' = Some (False, M') \<and> refresh now a M' = Some (False, M')"
proof -
  from cancel_ok [OF tm_reachable_wf [OF assms(1)] assms(2)] obtain M' where
    M': "cancel a M = Some (m_cb t \<noteq> None, M')" "timer_heap M' = (timer_heap M)(a \<mapsto> t\<lparr>m_cb := None\<rparr>)"
    "set (m_timers M') = (if m_cb t = None then set (m_timers M) else set (m_timers M) - {a})"
    by blast
  then have "cancel a M' = Some (False, M')" "refresh now a M' = Some (False, M')"
    by (simp_all add: cancel_def refresh_def)
  with M'(1,3) show ?thesis by (auto split: if_split_asm)
qed

text \<open>
  \<^verbatim>\<open>getNextTimer\<close> is the time to wait for the first timer: the largest number if nothing is pending,
  zero if some timer is due, and otherwise the distance to the earliest of the pending times.
\<close>

theorem getNextTimer_earliest:
  assumes "tm_reachable M" "(d, M') = getNextTimer now M"
  shows "(m_timers M = [] \<longrightarrow> d = ULLONG_MAX) \<and>
    (m_timers M \<noteq> [] \<longrightarrow>
      (if \<exists>a \<in> set (m_timers M). m_next (the (timer_heap M a)) \<le> now then d = 0
       else (\<exists>a \<in> set (m_timers M). m_next (the (timer_heap M a)) = now + d) \<and>
         (\<forall>a \<in> set (m_timers M). now + d \<le> m_next (the (timer_heap M a)))))"
proof (cases "m_timers M")
  case Nil
  with assms(2) show ?thesis by (simp add: getNextTimer_def)
next
  case (Cons x xs)
  let ?f = "\<lambda>a. m_next (the (timer_heap M a))"
  have s: "sorted (map ?f (x # xs))"
    using sorted_next [OF wf_pendingD(1) [OF tm_reachable_wf [OF assms(1)]]] Cons by simp
  show ?thesis
  proof (cases "?f x \<le> now")
    case True
    with assms(2) Cons show ?thesis by (auto simp: getNextTimer_def Let_def)
  next
    case False
    then have "d = ?f x - now" using assms(2) Cons by (auto simp: getNextTimer_def Let_def)
    moreover have "\<forall>a \<in> set xs. \<not> ?f a \<le> now" using s False by auto
    ultimately show ?thesis using Cons s False by auto
  qed
qed

section \<open>Instances\<close>

definition sample_tm :: "(nat, nat) timer_manager" where
  "sample_tm = snd (addTimer 100 7 50 (Some (Plain 1)) False (TimerManager_new 100))"

lemma sample_tm_run: "tm_run sample_tm []"
  unfolding sample_tm_def
  by (rule run_step [OF run_new step_add]) (simp add: TimerManager_new_def)

lemma sample_tm_reachable: "tm_reachable sample_tm"
  using sample_tm_run by (auto simp: tm_reachable_def)

lemma sample_tm_simps:
  "m_timers sample_tm = [7]" "m_previouseTime sample_tm = 100"
  "timer_heap sample_tm = [7 \<mapsto> new_Timer 100 50 (Some (Plain 1)) False]"
  by (simp_all add: sample_tm_def addTimer_def addTimer_locked_def TimerManager_new_def Let_def)

theorem listExpired_exact_witness:
  "\<exists>M'. listExpiredCb 160 9 sample_tm = Some ([Some (Plain 1)], M') \<and> m_timers M' = []"
proof -
  have due: "due 160 sample_tm 7"
    by (simp add: sample_tm_simps due_def detectClockRollover_def new_Timer_def)
  have "9 \<notin> dom (timer_heap sample_tm)" by (simp add: sample_tm_simps)
  from listExpired_exact [OF sample_tm_reachable this, of 160] obtain M' where
    "listExpiredCb 160 9 sample_tm = Some ([Some (Plain 1)], M')"
    "set (m_timers M') = {a \<in> {7}. due 160 sample_tm a \<longrightarrow> m_recurring (the (timer_heap sample_tm a))}"
    using due by (auto simp: sample_tm_simps new_Timer_def)
  moreover from this(2) have "set (m_timers M') = {}"
    using due by (auto simp: sample_tm_simps new_Timer_def)
  ultimately show ?thesis by simp
qed

theorem cancel_silences_witness:
  "\<exists>M'. cancel 7 sample_tm = Some (True, M') \<and> 7 \<notin> set (m_timers M')"
  using cancel_silences [OF sample_tm_reachable, of 7 "new_Timer 100 50 (Some (Plain 1)) False" 0]
  by (auto simp: sample_tm_simps new_Timer_def)

theorem getNextTimer_earliest_witness: "fst (getNextTimer 120 sample_tm) = 30"
  using getNextTimer_earliest [OF sample_tm_reachable prod.collapse, of 120]
  by (simp add: sample_tm_simps new_Timer_def)

text \<open>
  Between the two locks of \<^verbatim>\<open>listExpiredCb\<close> another thread cancels the last timer; the collection
  then looks at the first element of an empty set.
\<close>

definition raced_tm :: "(nat, nat) timer_manager" where
  "raced_tm = snd (the (cancel 7 sample_tm))"

lemma raced_tm_simps:
  "cancel 7 sample_tm = Some (True, raced_tm)" "m_timers raced_tm = []" "dom (timer_heap raced_tm) = {7}"
  "m_previouseTime raced_tm = 100"
  by (simp_all add: raced_tm_def cancel_def sample_tm_simps new_Timer_def Let_def set_find_def from_bound_def
      set_erase_def Comparator_def)

theorem timers_reachable_witness: "wf_tm raced_tm \<and> cancel 7 raced_tm \<noteq> None \<and> listExpiredCb_locked 160 9 raced_tm = None"
proof -
  have "tm_run sample_tm [160]"
    by (rule run_check [OF sample_tm_run]) (simp add: listExpiredCb_check_def sample_tm_simps)
  then have "tm_run raced_tm [160]" using raced_tm_simps(1) by (blast intro: run_step step_cancel)
  from timers_reachable [OF this, of 0 0 False 9] show ?thesis
    by (simp add: raced_tm_simps listExpiredCb_check_def detectClockRollover_def)
qed

end
