(* ===== verification/IOManager.thy ===== *)
theory IOManager
  imports Scheduler Timer
begin

text \<open>
  \<^verbatim>\<open>iomanager.cpp\<close> and \<^verbatim>\<open>iomanager.h\<close>: the I/O manager, a scheduler with timers that waits for file
  descriptors with \<^verbatim>\<open>epoll\<close>.  Each descriptor has a context that records the events someone waits for
  and, per event, the scheduler and the fiber or callback to wake up.  Schedulers are named by
  numbers, so that an event may belong to another scheduler than the manager itself.  The kernel's side is the
  argument \<open>ctl\<close> (\<^verbatim>\<open>epoll_ctl\<close>: operation, descriptor and event mask) on a kernel state;
  \<open>None\<close> stands for a failed assertion or an access outside of \<^verbatim>\<open>m_fdContexts\<close>.  What happens under one hold of a
  lock is one definition: \<^verbatim>\<open>addEvent\<close> looks the context up under the read lock of the table, makes the table longer
  under its write lock, and does the rest under the mutex of the context.  The other operations keep the
  context that they found under the read lock, so for them it is enough to model the part under its mutex.  Events
  of \<^verbatim>\<open>epoll_wait\<close> carry the context of their descriptor or the read end of the pipe.
\<close>

section \<open>State\<close>

type_synonym Event = u32

definition NONE :: Event where "NONE = 0"
definition READ :: Event where "READ = 0x1"
definition WRITE :: Event where "WRITE = 0x4"

definition EPOLLIN :: u32 where "EPOLLIN = 0x1"
definition EPOLLOUT :: u32 where "EPOLLOUT = 0x4"
definition EPOLLERR :: u32 where "EPOLLERR = 0x8"
definition EPOLLHUP :: u32 where "EPOLLHUP = 0x10"
definition EPOLLET :: u32 where "EPOLLET = 0x80000000"

datatype ctl_op = EPOLL_CTL_ADD | EPOLL_CTL_MOD | EPOLL_CTL_DEL

type_synonym 'k epoll_ctl = "ctl_op \<Rightarrow> int \<Rightarrow> u32 \<Rightarrow> 'k \<Rightarrow> bool \<times> 'k"

record 'c EventContext =
  ec_scheduler :: "nat option"
  ec_fiber :: "nat option"
  ec_cb :: "'c option"

record 'c FdContext =
  fc_read :: "'c EventContext"
  fc_write :: "'c EventContext"
  fc_fd :: int
  fc_events :: Event

record ('w, 'c, 'k) IOManager =
  io_self :: nat
  io_scheds :: "nat \<Rightarrow> ('w, 'c) timer_cb Scheduler"
  io_timers :: "('w, 'c) timer_manager"
  m_fdContexts :: "('w, 'c) timer_cb FdContext list"
  m_pendingEventCount :: u64
  m_epfd :: int
  m_tickleFds :: "int \<times> int"
  io_pipe :: nat
  io_kernel :: 'k

definition empty_context :: "'c EventContext" where
  "empty_context = \<lparr>ec_scheduler = None, ec_fiber = None, ec_cb = None\<rparr>"

definition new_FdContext :: "nat \<Rightarrow> 'c FdContext" where
  "new_FdContext i = \<lparr>fc_read = empty_context, fc_write = empty_context, fc_fd = int i, fc_events = NONE\<rparr>"

section \<open>Contexts of descriptors\<close>

definition getContext :: "Event \<Rightarrow> 'c FdContext \<Rightarrow> 'c EventContext option" where
  "getContext event c =
    (if event = READ then Some (fc_read c) else if event = WRITE then Some (fc_write c) else None)"

definition setContext :: "Event \<Rightarrow> 'c EventContext \<Rightarrow> 'c FdContext \<Rightarrow> 'c FdContext" where
  "setContext event e c = (if event = READ then c\<lparr>fc_read := e\<rparr> else c\<lparr>fc_write := e\<rparr>)"

definition resetContext :: "'c EventContext \<Rightarrow> 'c EventContext" where
  "resetContext e = e\<lparr>ec_scheduler := None, ec_fiber := None, ec_cb := None\<rparr>"

definition tickle :: "('w, 'c, 'k) IOManager \<Rightarrow> ('w, 'c, 'k) IOManager" where
  "tickle M = (if hasIdleThreads (io_scheds M (io_self M)) then M\<lparr>io_pipe := io_pipe M + 1\<rparr> else M)"

text \<open>\<^verbatim>\<open>schedule\<close> on one of the schedulers.\<close>

definition schedule_on ::
  "nat \<Rightarrow> ('w, 'c) timer_cb FiberAndThread \<Rightarrow> ('w, 'c, 'k) IOManager \<Rightarrow> ('w, 'c, 'k) IOManager" where
  "schedule_on s ft M =
    (let (need_tickle, S) = schedule ft (io_scheds M s);
         M1 = M\<lparr>io_scheds := (io_scheds M)(s := S)\<rparr>
     in if need_tickle \<and> s = io_self M then tickle M1 else M1)"

text \<open>\<^verbatim>\<open>triggerEvent\<close> on the context at index \<open>i\<close>: the callback or the fiber moves from the context to its
  scheduler's queue.\<close>

definition triggerEvent :: "nat \<Rightarrow> Event \<Rightarrow> ('w, 'c, 'k) IOManager \<Rightarrow> ('w, 'c, 'k) IOManager option" where
  "triggerEvent i event M =
    (let c = m_fdContexts M ! i in
     if \<not> has_flag (fc_events c) event then None
     else
       case getContext event c of
         None \<Rightarrow> None
       | Some e \<Rightarrow>
           (case ec_scheduler e of
              None \<Rightarrow> None
            | Some s \<Rightarrow>
                let (ft, e') = (if ec_cb e \<noteq> None then (cb_task (ec_cb e) (-1), e\<lparr>ec_cb := None\<rparr>)
                                else (fiber_task (ec_fiber e) (-1), e\<lparr>ec_fiber := None\<rparr>));
                    c' = setContext event (e'\<lparr>ec_scheduler := None\<rparr>)
                           (c\<lparr>fc_events := fc_events c AND NOT event\<rparr>)
                in Some (schedule_on s ft (M\<lparr>m_fdContexts := (m_fdContexts M)[i := c']\<rparr>))))"

definition contextResize :: "nat \<Rightarrow> ('w, 'c, 'k) IOManager \<Rightarrow> ('w, 'c, 'k) IOManager" where
  "contextResize n M =
    M\<lparr>m_fdContexts := take n (m_fdContexts M) @ map new_FdContext [length (m_fdContexts M)..<n]\<rparr>"

section \<open>Operations\<close>

text \<open>
  \<open>addEvent\<close> in its parts, one for each lock it takes: under the read lock, the index of the context if the table is
  long enough; under the write lock, the longer table; under the mutex of the context, the rest.  The arguments
  besides the descriptor, the event and the callback are the scheduler, the fiber and the fiber's state of the
  calling thread.
\<close>

definition addEvent_find :: "int \<Rightarrow> ('w, 'c, 'k) IOManager \<Rightarrow> nat option" where
  "addEvent_find fd M = (if int (length (m_fdContexts M)) > fd then Some (nat fd) else None)"

definition addEvent_grow :: "int \<Rightarrow> ('w, 'c, 'k) IOManager \<Rightarrow> nat \<times> ('w, 'c, 'k) IOManager" where
  "addEvent_grow fd M = (nat fd, contextResize (nat fd * 3 div 2) M)"

definition addEvent_locked ::
  "'k epoll_ctl \<Rightarrow> nat option \<Rightarrow> nat \<Rightarrow> State \<Rightarrow> int \<Rightarrow> nat \<Rightarrow> Event \<Rightarrow> ('w, 'c) timer_cb option
   \<Rightarrow> ('w, 'c, 'k) IOManager \<Rightarrow> (int \<times> ('w, 'c, 'k) IOManager) option" where
  "addEvent_locked ctl sched fiber state fd i event cb M =
    (let c = m_fdContexts M ! i in
     if has_flag (fc_events c) event then None
     else
       let op = (if fc_events c \<noteq> 0 then EPOLL_CTL_MOD else EPOLL_CTL_ADD);
           (ok, k) = ctl op fd (EPOLLET OR fc_events c OR event) (io_kernel M);
           M1 = M\<lparr>io_kernel := k\<rparr>
       in if \<not> ok then Some (-1, M1)
          else
            case getContext event c of
              None \<Rightarrow> None
            | Some e \<Rightarrow>
                if ec_scheduler e \<noteq> None \<or> ec_fiber e \<noteq> None \<or> ec_cb e \<noteq> None then None
                else if cb = None \<and> state \<noteq> EXEC then None
                else
                  let e' = (if cb \<noteq> None then e\<lparr>ec_scheduler := sched, ec_cb := cb\<rparr>
                            else e\<lparr>ec_scheduler := sched, ec_fiber := Some fiber\<rparr>);
                      c' = setContext event e' (c\<lparr>fc_events := fc_events c OR event\<rparr>)
                  in Some (0, M1\<lparr>m_pendingEventCount := m_pendingEventCount M + 1,
                                m_fdContexts := (m_fdContexts M)[i := c']\<rparr>))"

text \<open>The whole call, with nothing in between.\<close>

definition addEvent ::
  "'k epoll_ctl \<Rightarrow> nat option \<Rightarrow> nat \<Rightarrow> State \<Rightarrow> int \<Rightarrow> Event \<Rightarrow> ('w, 'c) timer_cb option
   \<Rightarrow> ('w, 'c, 'k) IOManager \<Rightarrow> (int \<times> ('w, 'c, 'k) IOManager) option" where
  "addEvent ctl sched fiber state fd event cb M0 =
    (case (case addEvent_find fd M0 of Some i \<Rightarrow> (i, M0) | None \<Rightarrow> addEvent_grow fd M0) of (i, M) \<Rightarrow>
       if fd < 0 \<or> i \<ge> length (m_fdContexts M) then None
       else addEvent_locked ctl sched fiber state fd i event cb M)"

definition delEvent ::
  "'k epoll_ctl \<Rightarrow> int \<Rightarrow> Event \<Rightarrow> ('w, 'c, 'k) IOManager \<Rightarrow> (bool \<times> ('w, 'c, 'k) IOManager) option" where
  "delEvent ctl fd event M =
    (if int (length (m_fdContexts M)) < fd then Some (False, M)
     else if fd < 0 \<or> nat fd \<ge> length (m_fdContexts M) then None
     else
       let i = nat fd; c = m_fdContexts M ! i in
       if \<not> has_flag (fc_events c) event then Some (False, M)
       else
         let new_events = fc_events c AND NOT event;
             op = (if new_events \<noteq> 0 then EPOLL_CTL_MOD else EPOLL_CTL_DEL);
             (ok, k) = ctl op fd (EPOLLET OR new_events) (io_kernel M);
             M1 = M\<lparr>io_kernel := k\<rparr>
         in if \<not> ok then Some (False, M1)
            else
              case getContext event c of
                None \<Rightarrow> None
              | Some e \<Rightarrow>
                  let c' = setContext event (resetContext e) (c\<lparr>fc_events := new_events\<rparr>)
                  in Some (True, M1\<lparr>m_pendingEventCount := m_pendingEventCount M - 1,
                                    m_fdContexts := (m_fdContexts M)[i := c']\<rparr>))"

definition dec_pending :: "('w, 'c, 'k) IOManager \<Rightarrow> ('w, 'c, 'k) IOManager" where
  "dec_pending M = M\<lparr>m_pendingEventCount := m_pendingEventCount M - 1\<rparr>"

definition cancelEvent ::
  "'k epoll_ctl \<Rightarrow> int \<Rightarrow> Event \<Rightarrow> ('w, 'c, 'k) IOManager \<Rightarrow> (bool \<times> ('w, 'c, 'k) IOManager) option" where
  "cancelEvent ctl fd event M =
    (if int (length (m_fdContexts M)) \<le> fd then Some (False, M)
     else if fd < 0 then None
     else
       let i = nat fd; c = m_fdContexts M ! i in
       if \<not> has_flag (fc_events c) event then Some (False, M)
       else
         let new_events = fc_events c AND NOT event;
             op = (if new_events \<noteq> 0 then EPOLL_CTL_MOD else EPOLL_CTL_DEL);
             (ok, k) = ctl op fd (EPOLLET OR new_events) (io_kernel M);
             M1 = M\<lparr>io_kernel := k\<rparr>
         in if \<not> ok then Some (False, M1)
            else map_option (\<lambda>M2. (True, dec_pending M2)) (triggerEvent i event M1))"

text \<open>The conditional \<^verbatim>\<open>triggerEvent\<close> calls of \<^verbatim>\<open>cancelAll\<close> and \<^verbatim>\<open>idle\<close>.\<close>

definition trigger_if ::
  "bool \<Rightarrow> nat \<Rightarrow> Event \<Rightarrow> ('w, 'c, 'k) IOManager \<Rightarrow> ('w, 'c, 'k) IOManager option" where
  "trigger_if b i event M = (if b then map_option dec_pending (triggerEvent i event M) else Some M)"

definition cancelAll ::
  "'k epoll_ctl \<Rightarrow> int \<Rightarrow> ('w, 'c, 'k) IOManager \<Rightarrow> (bool \<times> ('w, 'c, 'k) IOManager) option" where
  "cancelAll ctl fd M =
    (if int (length (m_fdContexts M)) \<le> fd then Some (False, M)
     else if fd < 0 then None
     else
       let i = nat fd in
       if fc_events (m_fdContexts M ! i) = 0 then Some (False, M)
       else
         let (ok, k) = ctl EPOLL_CTL_DEL fd 0 (io_kernel M); M1 = M\<lparr>io_kernel := k\<rparr> in
         if \<not> ok then Some (False, M1)
         else
           case trigger_if (has_flag (fc_events (m_fdContexts M1 ! i)) READ) i READ M1 of
             None \<Rightarrow> None
           | Some M2 \<Rightarrow>
               (case trigger_if (has_flag (fc_events (m_fdContexts M2 ! i)) WRITE) i WRITE M2 of
                  None \<Rightarrow> None
                | Some M3 \<Rightarrow>
                    if fc_events (m_fdContexts M3 ! i) \<noteq> 0 then None else Some (True, M3)))"

section \<open>Waiting\<close>

datatype ep_event = Ep_tickle | Ep_fd nat u32

text \<open>The part of \<^verbatim>\<open>idle\<close> that handles one event of \<^verbatim>\<open>epoll_wait\<close>.\<close>

definition real_events_of :: "u32 \<Rightarrow> Event" where
  "real_events_of evs =
    (let ev = (if has_flag evs (EPOLLERR OR EPOLLHUP) then evs OR EPOLLIN OR EPOLLOUT else evs)
     in (if has_flag ev EPOLLIN then READ else NONE) OR (if has_flag ev EPOLLOUT then WRITE else NONE))"

definition handle_event ::
  "'k epoll_ctl \<Rightarrow> ep_event \<Rightarrow> ('w, 'c, 'k) IOManager \<Rightarrow> ('w, 'c, 'k) IOManager option" where
  "handle_event ctl ev M =
    (case ev of
       Ep_tickle \<Rightarrow> Some (M\<lparr>io_pipe := 0\<rparr>)
     | Ep_fd i evs \<Rightarrow>
         let c = m_fdContexts M ! i; real_events = real_events_of evs in
         if fc_events c AND real_events = NONE then Some M
         else
           let left_events = fc_events c AND NOT real_events;
               op = (if left_events \<noteq> 0 then EPOLL_CTL_MOD else EPOLL_CTL_DEL);
               (ok, k) = ctl op (fc_fd c) (EPOLLET OR left_events) (io_kernel M);
               M1 = M\<lparr>io_kernel := k\<rparr>
           in if \<not> ok then Some M1
              else
                case trigger_if (has_flag real_events READ) i READ M1 of
                  None \<Rightarrow> None
                | Some M2 \<Rightarrow> trigger_if (has_flag real_events WRITE) i WRITE M2)"

fun handle_events ::
  "'k epoll_ctl \<Rightarrow> ep_event list \<Rightarrow> ('w, 'c, 'k) IOManager \<Rightarrow> ('w, 'c, 'k) IOManager option" where
  "handle_events ctl [] M = Some M"
| "handle_events ctl (ev # evs) M =
    (case handle_event ctl ev M of None \<Rightarrow> None | Some M1 \<Rightarrow> handle_events ctl evs M1)"

definition IOManager_stopping ::
  "u64 \<Rightarrow> ('w, 'c, 'k) IOManager \<Rightarrow> u64 \<times> bool \<times> ('w, 'c, 'k) IOManager" where
  "IOManager_stopping now M =
    (let (timeout, t) = getNextTimer now (io_timers M); M1 = M\<lparr>io_timers := t\<rparr> in
     (timeout, timeout = ULLONG_MAX \<and> m_pendingEventCount M1 = 0 \<and> stopping (io_scheds M1 (io_self M1)), M1))"

text \<open>The timeout passed to \<^verbatim>\<open>epoll_wait\<close>.\<close>

definition wait_timeout :: "u64 \<Rightarrow> u64" where
  "wait_timeout next_timeout =
    (if next_timeout \<noteq> ULLONG_MAX then if next_timeout > 3000 then 3000 else next_timeout else 3000)"

text \<open>One round of \<^verbatim>\<open>idle\<close> after \<^verbatim>\<open>epoll_wait\<close> returned: the callbacks of the expired timers are scheduled,
  then the events are handled.  \<open>n\<close> is a free address for the timer made by \<^verbatim>\<open>listExpiredCb\<close>.\<close>

definition idle_round ::
  "'k epoll_ctl \<Rightarrow> u64 \<Rightarrow> nat \<Rightarrow> ep_event list \<Rightarrow> ('w, 'c, 'k) IOManager
   \<Rightarrow> ('w, 'c, 'k) IOManager option" where
  "idle_round ctl now n evs M =
    (case listExpiredCb now n (io_timers M) of
       None \<Rightarrow> None
     | Some (cbs, t) \<Rightarrow>
         let M1 = M\<lparr>io_timers := t\<rparr>;
             (need_tickle, S) = schedule_range (map (\<lambda>cb. cb_task cb (-1)) cbs) False (io_scheds M1 (io_self M1));
             M2 = M1\<lparr>io_scheds := (io_scheds M1)(io_self M1 := S)\<rparr>
         in handle_events ctl evs (if cbs \<noteq> [] then if need_tickle then tickle M2 else M2 else M1))"

text \<open>One turn of the loop of \<^verbatim>\<open>idle\<close>, from one switch to the next: \<open>wait\<close> is what \<^verbatim>\<open>epoll_wait\<close> delivers for a
  timeout, and the time when it returns.\<close>

definition IOManager_idle ::
  "'k epoll_ctl \<Rightarrow> u64 \<Rightarrow> (u64 \<Rightarrow> ep_event list \<times> u64) \<Rightarrow> nat \<Rightarrow> ('w, 'c, 'k) IOManager
   \<Rightarrow> (give_back \<times> ('w, 'c, 'k) IOManager) option" where
  "IOManager_idle ctl now wait n M =
    (let (next_timeout, stop, M1) = IOManager_stopping now M in
     if stop then Some (Ended Returned, M1)
     else
       let (evs, later) = wait (wait_timeout next_timeout) in
       map_option (Pair Swap_out) (idle_round ctl later n evs M1))"

definition onTimerInsertedAtFront :: "('w, 'c, 'k) IOManager \<Rightarrow> ('w, 'c, 'k) IOManager" where
  "onTimerInsertedAtFront M = tickle M"

text \<open>
  The constructor: the epoll instance and the pipe, whose read end is made non-blocking and registered (with the
  descriptor itself as the data of its events, not with a context), the first contexts, and the base scheduler is
  started on new threads.
\<close>

record 'k io_sys =
  is_epoll_create :: "int \<Rightarrow> 'k \<Rightarrow> int \<times> 'k"
  is_pipe :: "'k \<Rightarrow> (int \<times> int) option \<times> 'k"
  is_set_nonblock :: "int \<Rightarrow> 'k \<Rightarrow> bool \<times> 'k"
  is_ctl_add_fd :: "int \<Rightarrow> int \<Rightarrow> u32 \<Rightarrow> 'k \<Rightarrow> bool \<times> 'k"

definition open_tickle :: "'k io_sys \<Rightarrow> 'k \<Rightarrow> (int \<times> (int \<times> int) \<times> 'k) option" where
  "open_tickle sys k =
    (case is_epoll_create sys 5000 k of (epfd, k1) \<Rightarrow>
       if \<not> epfd > 0 then None
       else
         case is_pipe sys k1 of
           (None, k2) \<Rightarrow> None
         | (Some fds, k2) \<Rightarrow>
             (case is_set_nonblock sys (fst fds) k2 of (ok, k3) \<Rightarrow>
                if \<not> ok then None
                else
                  case is_ctl_add_fd sys epfd (fst fds) (EPOLLIN OR EPOLLET) k3 of (ok, k4) \<Rightarrow>
                    if \<not> ok then None else Some (epfd, fds, k4)))"

definition new_IOManager ::
  "'k io_sys \<Rightarrow> nat \<Rightarrow> (nat \<Rightarrow> ('w, 'c) timer_cb Scheduler) \<Rightarrow> u64 \<Rightarrow> int list \<Rightarrow> 'k
   \<Rightarrow> ('w, 'c, 'k) IOManager option" where
  "new_IOManager sys self scheds now new_ids k =
    (case open_tickle sys k of
       None \<Rightarrow> None
     | Some (epfd, fds, k1) \<Rightarrow>
         let M = contextResize 32
           \<lparr>io_self = self, io_scheds = scheds, io_timers = TimerManager_new now, m_fdContexts = [],
            m_pendingEventCount = 0, m_epfd = epfd, m_tickleFds = fds, io_pipe = 0, io_kernel = k1\<rparr>
         in case start new_ids (io_scheds M self) of
              None \<Rightarrow> None
            | Some S \<Rightarrow> Some (M\<lparr>io_scheds := (io_scheds M)(self := S)\<rparr>))"

section \<open>Invariant\<close>

lemmas event_consts [simp] = NONE_def READ_def WRITE_def

definition armed :: "'c EventContext \<Rightarrow> bool" where
  "armed e \<longleftrightarrow> ec_scheduler e \<noteq> None \<and> (ec_cb e = None) = (ec_fiber e \<noteq> None)"

definition event_ok :: "Event \<Rightarrow> Event \<Rightarrow> 'c EventContext \<Rightarrow> bool" where
  "event_ok evs event e \<longleftrightarrow> (if has_flag evs event then armed e else e = empty_context)"

definition ctx_ok :: "'c FdContext \<Rightarrow> bool" where
  "ctx_ok c \<longleftrightarrow> fc_events c \<in> {0, 1, 4, 5} \<and> event_ok (fc_events c) READ (fc_read c) \<and>
     event_ok (fc_events c) WRITE (fc_write c)"

text \<open>How many events a context waits for.\<close>

definition waiting :: "'c FdContext \<Rightarrow> nat" where
  "waiting c = (if has_flag (fc_events c) READ then 1 else 0) + (if has_flag (fc_events c) WRITE then 1 else 0)"

text \<open>What the kernel has registered for a descriptor that waits for the given events.\<close>

definition registered :: "Event \<Rightarrow> u32 option" where
  "registered evs = (if evs = 0 then None else Some (EPOLLET OR evs))"

text \<open>
  \<open>interest k fd\<close> is the event mask registered in kernel state \<open>k\<close> with the context of \<open>fd\<close>.  Documented behaviour
  of \<^verbatim>\<open>epoll_ctl\<close>: a successful call adds, changes or removes the registration of its descriptor, a
  failed one changes nothing.
\<close>

definition epoll_ok :: "'k epoll_ctl \<Rightarrow> ('k \<Rightarrow> int \<Rightarrow> u32 option) \<Rightarrow> bool" where
  "epoll_ok ctl interest \<longleftrightarrow>
    (\<forall>op fd evs k. let (ok, k') = ctl op fd evs k in
       interest k' = (if \<not> ok then interest k
                      else (interest k)(fd := if op = EPOLL_CTL_DEL then None else Some evs)))"

definition contexts_ok ::
  "('k \<Rightarrow> int \<Rightarrow> u32 option) \<Rightarrow> 'c FdContext list \<Rightarrow> u64 \<Rightarrow> 'k \<Rightarrow> bool" where
  "contexts_ok interest cs pending k \<longleftrightarrow>
    32 \<le> length cs \<and>
    (\<forall>i < length cs. ctx_ok (cs ! i) \<and> fc_fd (cs ! i) = int i \<and>
       interest k (int i) = registered (fc_events (cs ! i))) \<and>
    (\<forall>i \<ge> length cs. interest k (int i) = None) \<and>
    pending = of_nat (sum_list (map waiting cs))"

abbreviation io_ok :: "('k \<Rightarrow> int \<Rightarrow> u32 option) \<Rightarrow> ('w, 'c, 'k) IOManager \<Rightarrow> bool" where
  "io_ok interest M \<equiv> contexts_ok interest (m_fdContexts M) (m_pendingEventCount M) (io_kernel M)"

lemma contexts_okD:
  assumes "contexts_ok interest cs pending k" "i < length cs"
  shows "ctx_ok (cs ! i)" "fc_fd (cs ! i) = int i" "interest k (int i) = registered (fc_events (cs ! i))"
  using assms by (auto simp: contexts_ok_def)

text \<open>Changing one context together with its registration and the count.\<close>

lemma contexts_ok_update:
  assumes ok: "contexts_ok interest cs pending k" and i: "i < length cs"
    and c: "ctx_ok c" "fc_fd c = int i" and k: "interest k' = (interest k)(int i := registered (fc_events c))"
  shows "contexts_ok interest (cs[i := c]) (pending + of_nat (waiting c) - of_nat (waiting (cs ! i))) k'"
proof -
  have "waiting (cs ! i) \<le> sum_list (map waiting cs)"
    using i by (simp add: member_le_sum_list)
  then have "sum_list (map waiting (cs[i := c])) = sum_list (map waiting cs) + waiting c - waiting (cs ! i)"
    using i by (simp add: map_update sum_list_update)
  then have "of_nat (sum_list (map waiting (cs[i := c]))) =
      (of_nat (sum_list (map waiting cs)) + of_nat (waiting c) - of_nat (waiting (cs ! i)) :: u64)"
    using \<open>waiting (cs ! i) \<le> sum_list (map waiting cs)\<close> by (simp add: of_nat_diff)
  then show ?thesis
    using ok i c k by (auto simp: contexts_ok_def nth_list_update)
qed

text \<open>The kernel's failures change nothing.\<close>

lemma epoll_okD:
  assumes "epoll_ok ctl interest" "ctl op fd evs k = (ok, k')"
  shows "\<not> ok \<Longrightarrow> interest k' = interest k"
    and "ok \<Longrightarrow> interest k' = (interest k)(fd := if op = EPOLL_CTL_DEL then None else Some evs)"
proof -
  have "let (ok, k') = ctl op fd evs k in
      interest k' = (if \<not> ok then interest k
                     else (interest k)(fd := if op = EPOLL_CTL_DEL then None else Some evs))"
    using assms(1) unfolding epoll_ok_def by blast
  then show "\<not> ok \<Longrightarrow> interest k' = interest k"
    and "ok \<Longrightarrow> interest k' = (interest k)(fd := if op = EPOLL_CTL_DEL then None else Some evs)"
    using assms(2) by simp_all
qed

lemma contexts_ok_kernel:
  "contexts_ok interest cs pending k \<Longrightarrow> interest k' = interest k \<Longrightarrow> contexts_ok interest cs pending k'"
  by (simp add: contexts_ok_def)

lemma new_context_ok: "ctx_ok (new_FdContext i)" "waiting (new_FdContext i) = 0"
  by (simp_all add: new_FdContext_def ctx_ok_def event_ok_def waiting_def has_flag_def)

lemma new_context_fields:
  "registered (fc_events (new_FdContext i)) = None" "fc_fd (new_FdContext i) = int i"
  by (simp_all add: new_FdContext_def registered_def)

lemma nth_contextResize:
  "length (m_fdContexts M) \<le> n \<Longrightarrow> i < n \<Longrightarrow> m_fdContexts (contextResize n M) ! i =
     (if i < length (m_fdContexts M) then m_fdContexts M ! i else new_FdContext i)"
  by (simp add: contextResize_def nth_append)

lemma contextResize_ok:
  assumes "io_ok interest M" "length (m_fdContexts M) \<le> n"
  shows "io_ok interest (contextResize n M)"
proof -
  have len: "length (m_fdContexts (contextResize n M)) = n" using assms(2) by (simp add: contextResize_def)
  have keep: "m_pendingEventCount (contextResize n M) = m_pendingEventCount M"
    "io_kernel (contextResize n M) = io_kernel M" by (simp_all add: contextResize_def)
  have "sum_list (map waiting (m_fdContexts (contextResize n M))) = sum_list (map waiting (m_fdContexts M))"
    using assms(2) by (simp add: contextResize_def new_context_ok)
  then show ?thesis
    using assms unfolding contexts_ok_def len keep
    by (auto simp: nth_contextResize new_context_ok new_context_fields)
qed

lemma event_cases:
  assumes "ctx_ok c" "event \<in> {READ, WRITE}"
  obtains "event = READ" "getContext event c = Some (fc_read c)" "event_ok (fc_events c) READ (fc_read c)"
    | "event = WRITE" "getContext event c = Some (fc_write c)" "event_ok (fc_events c) WRITE (fc_write c)"
  using assms by (auto simp: getContext_def ctx_ok_def)

text \<open>Setting and clearing one event of a context.\<close>

lemma set_event_ok:
  assumes c: "ctx_ok c" and ev: "event \<in> {READ, WRITE}" "\<not> has_flag (fc_events c) event" and e: "armed e"
  shows "ctx_ok (setContext event e (c\<lparr>fc_events := fc_events c OR event\<rparr>))"
    and "waiting (setContext event e (c\<lparr>fc_events := fc_events c OR event\<rparr>)) = waiting c + 1"
    and "fc_events (setContext event e (c\<lparr>fc_events := fc_events c OR event\<rparr>)) = fc_events c OR event"
    and "fc_events c OR event \<noteq> 0"
  using assms by (auto simp: ctx_ok_def setContext_def event_ok_def waiting_def has_flag_def)

lemma clear_event_ok:
  assumes c: "ctx_ok c" and ev: "event \<in> {READ, WRITE}" "has_flag (fc_events c) event"
  shows "ctx_ok (setContext event empty_context (c\<lparr>fc_events := fc_events c AND NOT event\<rparr>))"
    and "waiting (setContext event empty_context (c\<lparr>fc_events := fc_events c AND NOT event\<rparr>)) + 1 = waiting c"
    and "fc_events (setContext event empty_context (c\<lparr>fc_events := fc_events c AND NOT event\<rparr>)) =
      fc_events c AND NOT event"
  using assms by (auto simp: ctx_ok_def setContext_def event_ok_def waiting_def has_flag_def)

lemma addEvent_locked_ok:
  assumes ok: "io_ok interest M" and ctl: "epoll_ok ctl interest" and i: "i < length (m_fdContexts M)"
    and ev: "event \<in> {READ, WRITE}" and cb: "cb \<noteq> None \<or> state = EXEC"
    and free: "\<not> has_flag (fc_events (m_fdContexts M ! i)) event"
  obtains r M' where "addEvent_locked ctl (Some s) fiber state (int i) i event cb M = Some (r, M')" "io_ok interest M'"
    "io_scheds M' = io_scheds M" "r \<in> {0, -1}"
    "r = 0 \<longrightarrow> (\<exists>e. getContext event (m_fdContexts M' ! i) = Some e \<and> ec_scheduler e = Some s \<and>
       ec_cb e = cb \<and> ec_fiber e = (if cb = None then Some fiber else None) \<and>
       has_flag (fc_events (m_fdContexts M' ! i)) event)"
proof -
  let ?c = "m_fdContexts M ! i"
  note c = contexts_okD [OF ok i]
  define op where "op = (if fc_events ?c \<noteq> 0 then EPOLL_CTL_MOD else EPOLL_CTL_ADD)"
  obtain okb k where k: "ctl op (int i) (EPOLLET OR fc_events ?c OR event) (io_kernel M) = (okb, k)" by force
  show thesis
  proof (cases okb)
    case False
    then have "addEvent_locked ctl (Some s) fiber state (int i) i event cb M = Some (-1, M\<lparr>io_kernel := k\<rparr>)"
      using free k unfolding addEvent_locked_def Let_def op_def by simp
    moreover have "io_ok interest (M\<lparr>io_kernel := k\<rparr>)"
      using ok contexts_ok_kernel epoll_okD(1) [OF ctl k] False by simp
    ultimately show thesis using that by simp
  next
    case True
    obtain e0 where e0: "getContext event ?c = Some e0" "e0 = empty_context"
      using event_cases [OF c(1) ev] free by (metis event_ok_def)
    define e where "e = (if cb \<noteq> None then e0\<lparr>ec_scheduler := Some s, ec_cb := cb\<rparr>
                         else e0\<lparr>ec_scheduler := Some s, ec_fiber := Some fiber\<rparr>)"
    define c' where "c' = setContext event e (?c\<lparr>fc_events := fc_events ?c OR event\<rparr>)"
    have e: "armed e" "ec_scheduler e = Some s" "ec_cb e = cb" "ec_fiber e = (if cb = None then Some fiber else None)"
      by (auto simp: e_def e0(2) armed_def empty_context_def)
    note c' = set_event_ok [OF c(1) ev free e(1), folded c'_def]
    have run: "addEvent_locked ctl (Some s) fiber state (int i) i event cb M =
        Some (0, M\<lparr>io_kernel := k, m_pendingEventCount := m_pendingEventCount M + 1,
                    m_fdContexts := (m_fdContexts M)[i := c']\<rparr>)"
      using free k True e0 cb unfolding addEvent_locked_def Let_def op_def c'_def e_def
      by (auto simp: empty_context_def)
    have "interest k = (interest (io_kernel M))(int i := registered (fc_events c'))"
      using epoll_okD(2) [OF ctl k] True c'(3,4) by (simp add: op_def registered_def)
    moreover have "fc_fd c' = int i" using c(2) by (simp add: c'_def setContext_def)
    ultimately have "contexts_ok interest ((m_fdContexts M)[i := c'])
        (m_pendingEventCount M + of_nat (waiting c') - of_nat (waiting ?c)) k"
      by (intro contexts_ok_update [OF ok i c'(1)])
    then have io: "io_ok interest (M\<lparr>io_kernel := k, m_pendingEventCount := m_pendingEventCount M + 1,
                    m_fdContexts := (m_fdContexts M)[i := c']\<rparr>)"
      using c'(2) by (simp add: algebra_simps)
    have "getContext event c' = Some e" using ev by (auto simp: c'_def setContext_def getContext_def)
    moreover have "has_flag (fc_events c') event" using ev c'(3) by (auto simp: has_flag_def)
    ultimately show thesis
      using that [OF run io] e i by simp
  qed
qed

text \<open>Growing the table, when the descriptor is still outside of it.\<close>

lemma addEvent_grow_ok:
  assumes "io_ok interest M" "int (length (m_fdContexts M)) \<le> fd" "addEvent_grow fd M = (i, M')"
  shows "io_ok interest M'" "i < length (m_fdContexts M')" "int i = fd" "io_scheds M' = io_scheds M"
proof -
  have "32 \<le> length (m_fdContexts M)" using assms(1) by (simp add: contexts_ok_def)
  moreover from this obtain n where "fd = int n" using assms(2) by (cases fd) auto
  ultimately have "length (m_fdContexts M) \<le> nat fd * 3 div 2" "nat fd < nat fd * 3 div 2" "fd \<ge> 0" using assms(2) by auto
  then show "io_ok interest M'" "i < length (m_fdContexts M')" "int i = fd" "io_scheds M' = io_scheds M"
    using assms(1,3) contextResize_ok [OF assms(1), of "nat fd * 3 div 2"]
    by (auto simp: addEvent_grow_def contextResize_def)
qed

text \<open>A call of \<^verbatim>\<open>addEvent\<close> is its parts.\<close>

lemma addEvent_parts:
  assumes "addEvent ctl s fiber state fd event cb M = Some (r, M')"
  shows "\<exists>M1. (M1 = M \<or> int (length (m_fdContexts M)) \<le> fd \<and> M1 = snd (addEvent_grow fd M)) \<and>
    nat fd < length (m_fdContexts M1) \<and> int (nat fd) = fd \<and>
    addEvent_locked ctl s fiber state fd (nat fd) event cb M1 = Some (r, M')"
  using assms
  by (auto simp: addEvent_def addEvent_find_def addEvent_grow_def split: if_split_asm)

text \<open>The queue of a scheduler, and the task that an event of a context adds to it.\<close>

definition queue :: "('w, 'c, 'k) IOManager \<Rightarrow> nat \<Rightarrow> ('w, 'c) timer_cb FiberAndThread list" where
  "queue M s = m_fibers (io_scheds M s)"

definition woken :: "bool \<Rightarrow> Event \<Rightarrow> 'c FdContext \<Rightarrow> nat \<Rightarrow> 'c FiberAndThread list" where
  "woken b event c s =
    (case getContext event c of
       Some e \<Rightarrow> if b \<and> ec_scheduler e = Some s
                 then [\<lparr>ft_fiber = ec_fiber e, ft_cb = ec_cb e, ft_thread = -1\<rparr>] else []
     | None \<Rightarrow> [])"

lemma schedule_on_keeps [simp]:
  "m_fdContexts (schedule_on s ft M) = m_fdContexts M" "io_kernel (schedule_on s ft M) = io_kernel M"
  "m_pendingEventCount (schedule_on s ft M) = m_pendingEventCount M"
  by (simp_all add: schedule_on_def schedule_def scheduleNoLock_def tickle_def Let_def)

lemma queue_schedule_on:
  "nonempty_task ft \<Longrightarrow> queue (schedule_on s ft M) s' = queue M s' @ (if s' = s then [ft] else [])"
  by (simp add: queue_def schedule_on_def schedule_def scheduleNoLock_def tickle_def nonempty_task_def Let_def)

lemma queue_keeps [simp]:
  "queue (dec_pending M) = queue M" "queue (M\<lparr>m_fdContexts := cs\<rparr>) = queue M"
  "queue (M\<lparr>io_kernel := k\<rparr>) = queue M" "queue (M\<lparr>m_pendingEventCount := n\<rparr>) = queue M"
  by (simp_all add: queue_def dec_pending_def fun_eq_iff)

lemma trigger_if_ok:
  assumes i: "i < length (m_fdContexts M)" "m_fdContexts M ! i = c" and c: "ctx_ok c"
    and ev: "event \<in> {READ, WRITE}" "b \<Longrightarrow> has_flag (fc_events c) event"
  obtains M' c' where "trigger_if b i event M = Some M'" "m_fdContexts M' = (m_fdContexts M)[i := c']"
    "ctx_ok c'" "fc_fd c' = fc_fd c" "fc_events c' = (if b then fc_events c AND NOT event else fc_events c)"
    "m_pendingEventCount M' = m_pendingEventCount M + of_nat (waiting c') - of_nat (waiting c)"
    "io_kernel M' = io_kernel M" "\<forall>s. queue M' s = queue M s @ woken b event c s"
    "\<forall>ev'. ev' \<in> {READ, WRITE} \<and> ev' \<noteq> event \<longrightarrow> getContext ev' c' = getContext ev' c"
proof (cases b)
  case False
  have "(m_fdContexts M)[i := c] = m_fdContexts M" using i by auto
  then show thesis
    using that [of M c] False i c by (auto simp: trigger_if_def woken_def split: option.split)
next
  case True
  obtain e where e: "getContext event c = Some e" "armed e"
    using event_cases [OF c ev(1)] ev(2) True by (metis event_ok_def)
  then obtain s where s: "ec_scheduler e = Some s" by (auto simp: armed_def)
  define c' where "c' = setContext event empty_context (c\<lparr>fc_events := fc_events c AND NOT event\<rparr>)"
  define ft where "ft = (\<lparr>ft_fiber = ec_fiber e, ft_cb = ec_cb e, ft_thread = -1\<rparr> :: ('a, 'b) timer_cb FiberAndThread)"
  note c' = clear_event_ok [OF c ev(1) ev(2) [OF True], folded c'_def]
  have empty: "e\<lparr>ec_cb := None, ec_scheduler := None\<rparr> = empty_context \<or> ec_cb e = None"
    "e\<lparr>ec_fiber := None, ec_scheduler := None\<rparr> = empty_context \<or> ec_cb e \<noteq> None"
    using e(2) by (cases e; auto simp: armed_def empty_context_def)+
  have run: "triggerEvent i event M = Some (schedule_on s ft (M\<lparr>m_fdContexts := (m_fdContexts M)[i := c']\<rparr>))"
    using i e s ev(2) [OF True] empty
    by (cases "ec_cb e = None") (auto simp: triggerEvent_def ft_def c'_def armed_def Let_def)
  have ft: "nonempty_task ft" using e(2) by (auto simp: ft_def armed_def nonempty_task_def)
  have woken: "woken b event c s' = (if s' = s then [ft] else [])" for s'
    using True e s by (simp add: woken_def ft_def)
  have cnt: "- 1 = of_nat (waiting c') - (of_nat (waiting c) :: u64)" using c'(2) [symmetric] by simp
  show thesis
  proof (rule that [of "dec_pending (schedule_on s ft (M\<lparr>m_fdContexts := (m_fdContexts M)[i := c']\<rparr>))" c'])
    show "\<forall>s'. queue (dec_pending (schedule_on s ft (M\<lparr>m_fdContexts := (m_fdContexts M)[i := c']\<rparr>))) s' =
        queue M s' @ woken b event c s'"
      by (simp add: queue_schedule_on [OF ft] woken)
    show "m_pendingEventCount (dec_pending (schedule_on s ft (M\<lparr>m_fdContexts := (m_fdContexts M)[i := c']\<rparr>))) =
        m_pendingEventCount M + of_nat (waiting c') - of_nat (waiting c)"
      using cnt by (simp add: dec_pending_def algebra_simps)
    show "\<forall>ev'. ev' \<in> {READ, WRITE} \<and> ev' \<noteq> event \<longrightarrow> getContext ev' c' = getContext ev' c"
      using ev(1) by (auto simp: c'_def setContext_def getContext_def)
  qed (use True run c' in \<open>simp_all add: trigger_if_def dec_pending_def c'_def setContext_def\<close>)
qed

lemma not_registered_queue: "woken False event c s = []"
  by (simp add: woken_def split: option.split)

text \<open>Both events of a context in turn, as in \<^verbatim>\<open>cancelAll\<close> and \<^verbatim>\<open>idle\<close>; \<open>k\<close> is the kernel after the
  registration was changed.\<close>

lemma trigger_both_ok:
  assumes io: "contexts_ok interest (m_fdContexts M) (m_pendingEventCount M) k0"
    and i: "i < length (m_fdContexts M)" "m_fdContexts M ! i = c"
    and r: "r \<Longrightarrow> has_flag (fc_events c) READ" and w: "w \<Longrightarrow> has_flag (fc_events c) WRITE"
    and rest: "rest = fc_events c AND NOT ((if r then READ else 0) OR (if w then WRITE else 0))"
    and k: "interest (io_kernel M) = (interest k0)(int i := registered rest)"
  obtains M1 M2 where "trigger_if r i READ M = Some M1" "trigger_if w i WRITE M1 = Some M2" "io_ok interest M2"
    "fc_events (m_fdContexts M1 ! i) = (if r then fc_events c AND NOT READ else fc_events c)"
    "fc_events (m_fdContexts M2 ! i) = rest" "length (m_fdContexts M2) = length (m_fdContexts M)"
    "\<forall>j. j \<noteq> i \<longrightarrow> m_fdContexts M2 ! j = m_fdContexts M ! j" "io_kernel M2 = io_kernel M"
    "\<forall>s. queue M2 s = queue M s @ woken r READ c s @ woken w WRITE c s"
proof -
  have c: "ctx_ok c" "fc_fd c = int i" using contexts_okD [OF io i(1)] i(2) by simp_all
  obtain M1 c1 where M1: "trigger_if r i READ M = Some M1" "m_fdContexts M1 = (m_fdContexts M)[i := c1]" "ctx_ok c1"
    "fc_fd c1 = fc_fd c" "fc_events c1 = (if r then fc_events c AND NOT READ else fc_events c)"
    "m_pendingEventCount M1 = m_pendingEventCount M + of_nat (waiting c1) - of_nat (waiting c)"
    "io_kernel M1 = io_kernel M" "\<forall>s. queue M1 s = queue M s @ woken r READ c s"
    "\<forall>ev'. ev' \<in> {READ, WRITE} \<and> ev' \<noteq> READ \<longrightarrow> getContext ev' c1 = getContext ev' c"
    using trigger_if_ok [OF i c(1) insertI1 r] .
  have w1: "has_flag (fc_events c1) WRITE" if w using w [OF that] c(1) M1(5)
    by (auto simp: ctx_ok_def has_flag_def)
  have i1: "i < length (m_fdContexts M1)" "m_fdContexts M1 ! i = c1" using i M1(2) by simp_all
  obtain M2 c2 where M2: "trigger_if w i WRITE M1 = Some M2" "m_fdContexts M2 = (m_fdContexts M1)[i := c2]" "ctx_ok c2"
    "fc_fd c2 = fc_fd c1" "fc_events c2 = (if w then fc_events c1 AND NOT WRITE else fc_events c1)"
    "m_pendingEventCount M2 = m_pendingEventCount M1 + of_nat (waiting c2) - of_nat (waiting c1)"
    "io_kernel M2 = io_kernel M1" "\<forall>s. queue M2 s = queue M1 s @ woken w WRITE c1 s"
    "\<forall>ev'. ev' \<in> {READ, WRITE} \<and> ev' \<noteq> WRITE \<longrightarrow> getContext ev' c2 = getContext ev' c1"
    using trigger_if_ok [OF i1 M1(3) insertI2 [OF insertI1] w1] .
  have ev: "fc_events c2 = rest" using M2(5) M1(5) c(1) rest by (auto simp: ctx_ok_def)
  have "contexts_ok interest ((m_fdContexts M)[i := c2])
      (m_pendingEventCount M + of_nat (waiting c2) - of_nat (waiting (m_fdContexts M ! i))) (io_kernel M)"
    using M2(3,4) M1(4) c(2) k ev by (intro contexts_ok_update [OF io i(1)]) simp_all
  moreover have "m_pendingEventCount M2 = m_pendingEventCount M + of_nat (waiting c2) - of_nat (waiting c)"
    using M1(6) M2(6) by simp
  ultimately have "io_ok interest M2" using M1(2,7) M2(2,7) i(2) by simp
  moreover have "woken w WRITE c1 s = woken w WRITE c s" for s using M1(9) by (simp add: woken_def)
  ultimately show thesis using that [OF M1(1) M2(1)] M1 M2 ev i by simp
qed

lemma cancelAll_ok:
  assumes ok: "io_ok interest M" and ctl: "epoll_ok ctl interest" and fd: "fd \<ge> 0"
  obtains b M' where "cancelAll ctl fd M = Some (b, M')" "io_ok interest M'"
    "b \<longleftrightarrow> nat fd < length (m_fdContexts M) \<and> fc_events (m_fdContexts M ! nat fd) \<noteq> 0 \<and>
       fst (ctl EPOLL_CTL_DEL fd 0 (io_kernel M))"
    "b \<longrightarrow> fc_events (m_fdContexts M' ! nat fd) = 0 \<and> length (m_fdContexts M') = length (m_fdContexts M) \<and>
       (\<forall>j. j \<noteq> nat fd \<longrightarrow> m_fdContexts M' ! j = m_fdContexts M ! j)"
    "\<not> b \<longrightarrow> m_fdContexts M' = m_fdContexts M \<and> m_pendingEventCount M' = m_pendingEventCount M"
    "\<forall>s. queue M' s = queue M s @ (if b then
       woken (has_flag (fc_events (m_fdContexts M ! nat fd)) READ) READ (m_fdContexts M ! nat fd) s @
       woken (has_flag (fc_events (m_fdContexts M ! nat fd)) WRITE) WRITE (m_fdContexts M ! nat fd) s else [])"
proof (cases "nat fd < length (m_fdContexts M) \<and> fc_events (m_fdContexts M ! nat fd) \<noteq> 0")
  case False
  then have "cancelAll ctl fd M = Some (False, M)" using fd by (auto simp: cancelAll_def)
  then show thesis using that [of False M] ok False by auto
next
  case True
  let ?i = "nat fd" and ?c = "m_fdContexts M ! nat fd"
  let ?r = "has_flag (fc_events ?c) READ" and ?w = "has_flag (fc_events ?c) WRITE"
  have i: "?i < length (m_fdContexts M)" "\<not> int (length (m_fdContexts M)) \<le> fd" using True fd by auto
  note c = contexts_okD [OF ok i(1)]
  obtain okb k where k: "ctl EPOLL_CTL_DEL fd 0 (io_kernel M) = (okb, k)" by force
  show thesis
  proof (cases okb)
    case False
    then have "cancelAll ctl fd M = Some (False, M\<lparr>io_kernel := k\<rparr>)" using fd i True k by (simp add: cancelAll_def)
    moreover have "io_ok interest (M\<lparr>io_kernel := k\<rparr>)"
      using ok contexts_ok_kernel epoll_okD(1) [OF ctl k] False by simp
    ultimately show thesis using that [of False] False k by simp
  next
    case okb: True
    have rest: "0 = fc_events ?c AND NOT ((if ?r then READ else 0) OR (if ?w then WRITE else 0))"
      using c(1) by (auto simp: ctx_ok_def has_flag_def)
    obtain M1 M2 where M: "trigger_if ?r ?i READ (M\<lparr>io_kernel := k\<rparr>) = Some M1"
      "trigger_if ?w ?i WRITE M1 = Some M2" "io_ok interest M2"
      "fc_events (m_fdContexts M1 ! ?i) = (if ?r then fc_events ?c AND NOT READ else fc_events ?c)"
      "fc_events (m_fdContexts M2 ! ?i) = 0" "length (m_fdContexts M2) = length (m_fdContexts M)"
      "\<forall>j. j \<noteq> ?i \<longrightarrow> m_fdContexts M2 ! j = m_fdContexts M ! j"
      "\<forall>s. queue M2 s = queue (M\<lparr>io_kernel := k\<rparr>) s @ woken ?r READ ?c s @ woken ?w WRITE ?c s"
    proof (rule trigger_both_ok [of interest "M\<lparr>io_kernel := k\<rparr>" "io_kernel M" ?i ?c ?r ?w 0])
      show "interest (io_kernel (M\<lparr>io_kernel := k\<rparr>)) = (interest (io_kernel M))(int ?i := registered 0)"
        using epoll_okD(2) [OF ctl k okb] fd by (simp add: registered_def)
    qed (use ok i rest in simp_all)
    have "has_flag (fc_events (m_fdContexts M1 ! ?i)) WRITE = ?w"
      using M(4) c(1) by (auto simp: ctx_ok_def has_flag_def)
    then have "cancelAll ctl fd M = Some (True, M2)"
      using fd i True k okb M by (simp add: cancelAll_def Let_def)
    then show thesis using that [of True M2] M i True k okb by simp
  qed
qed

lemma clear_op:
  assumes ctl: "epoll_ok ctl interest"
    and k: "ctl (if rest \<noteq> 0 then EPOLL_CTL_MOD else EPOLL_CTL_DEL) fd (EPOLLET OR rest) k0 = (True, k)"
  shows "interest k = (interest k0)(fd := registered rest)"
  using epoll_okD(2) [OF ctl k] by (simp add: registered_def)

lemma cancelEvent_ok:
  assumes ok: "io_ok interest M" and ctl: "epoll_ok ctl interest" and fd: "fd \<ge> 0" and ev: "event \<in> {READ, WRITE}"
  obtains b M' where "cancelEvent ctl fd event M = Some (b, M')" "io_ok interest M'"
    "b \<longrightarrow> nat fd < length (m_fdContexts M) \<and> has_flag (fc_events (m_fdContexts M ! nat fd)) event \<and>
       \<not> has_flag (fc_events (m_fdContexts M' ! nat fd)) event"
    "\<forall>s. queue M' s = queue M s @ woken b event (m_fdContexts M ! nat fd) s"
proof (cases "nat fd < length (m_fdContexts M) \<and> has_flag (fc_events (m_fdContexts M ! nat fd)) event")
  case False
  then have "cancelEvent ctl fd event M = Some (False, M)" using fd by (auto simp: cancelEvent_def)
  then show thesis using that [of False M] ok by (simp add: not_registered_queue)
next
  case True
  let ?i = "nat fd" and ?c = "m_fdContexts M ! nat fd"
  have i: "?i < length (m_fdContexts M)" "\<not> int (length (m_fdContexts M)) \<le> fd" using True fd by auto
  note c = contexts_okD [OF ok i(1)]
  define rest where "rest = fc_events ?c AND NOT event"
  obtain okb k where k: "ctl (if rest \<noteq> 0 then EPOLL_CTL_MOD else EPOLL_CTL_DEL) fd (EPOLLET OR rest) (io_kernel M) = (okb, k)"
    by force
  show thesis
  proof (cases okb)
    case False
    then have "cancelEvent ctl fd event M = Some (False, M\<lparr>io_kernel := k\<rparr>)"
      using fd i True k by (simp add: cancelEvent_def rest_def Let_def)
    moreover have "io_ok interest (M\<lparr>io_kernel := k\<rparr>)"
      using ok contexts_ok_kernel epoll_okD(1) [OF ctl k] False by simp
    ultimately show thesis using that [of False] by (simp add: not_registered_queue)
  next
    case okb: True
    obtain M' c' where M': "trigger_if True ?i event (M\<lparr>io_kernel := k\<rparr>) = Some M'"
      "m_fdContexts M' = (m_fdContexts (M\<lparr>io_kernel := k\<rparr>))[?i := c']"
      "ctx_ok c'" "fc_fd c' = fc_fd ?c" "fc_events c' = (if True then fc_events ?c AND NOT event else fc_events ?c)"
      "m_pendingEventCount M' = m_pendingEventCount (M\<lparr>io_kernel := k\<rparr>) + of_nat (waiting c') - of_nat (waiting ?c)"
      "io_kernel M' = io_kernel (M\<lparr>io_kernel := k\<rparr>)"
      "\<forall>s. queue M' s = queue (M\<lparr>io_kernel := k\<rparr>) s @ woken True event ?c s"
      "\<forall>ev'. ev' \<in> {READ, WRITE} \<and> ev' \<noteq> event \<longrightarrow> getContext ev' c' = getContext ev' ?c"
    proof (rule trigger_if_ok [of ?i "M\<lparr>io_kernel := k\<rparr>" ?c event True])
    qed (use i c ev True in simp_all)
    have "contexts_ok interest ((m_fdContexts M)[?i := c'])
        (m_pendingEventCount M + of_nat (waiting c') - of_nat (waiting ?c)) k"
      using M'(3,4,5) c(2) clear_op [OF ctl k [unfolded okb [THEN eqTrueI]]] fd
      by (intro contexts_ok_update [OF ok i(1)]) (simp_all add: rest_def)
    then have "io_ok interest M'" using M'(2,6,7) by simp
    moreover have "cancelEvent ctl fd event M = Some (True, M')"
      using fd i True k okb M'(1) by (auto simp: cancelEvent_def rest_def Let_def trigger_if_def)
    moreover have "\<not> has_flag (fc_events c') event"
      using M'(5) ev c(1) by (auto simp: has_flag_def ctx_ok_def)
    ultimately show thesis using that [of True M'] M' i True by simp
  qed
qed

lemma delEvent_ok:
  assumes ok: "io_ok interest M" and ctl: "epoll_ok ctl interest" and fd: "fd \<ge> 0" "fd \<noteq> int (length (m_fdContexts M))"
    and ev: "event \<in> {READ, WRITE}"
  obtains b M' where "delEvent ctl fd event M = Some (b, M')" "io_ok interest M'"
    "b \<longrightarrow> nat fd < length (m_fdContexts M) \<and> has_flag (fc_events (m_fdContexts M ! nat fd)) event \<and>
       \<not> has_flag (fc_events (m_fdContexts M' ! nat fd)) event"
    "\<forall>s. queue M' s = queue M s"
proof (cases "nat fd < length (m_fdContexts M) \<and> has_flag (fc_events (m_fdContexts M ! nat fd)) event")
  case False
  then have "delEvent ctl fd event M = Some (False, M)" using fd by (auto simp: delEvent_def)
  then show thesis using that [of False M] ok by simp
next
  case True
  let ?i = "nat fd" and ?c = "m_fdContexts M ! nat fd"
  have i: "?i < length (m_fdContexts M)" "\<not> int (length (m_fdContexts M)) < fd" using True fd by auto
  note c = contexts_okD [OF ok i(1)]
  define rest where "rest = fc_events ?c AND NOT event"
  obtain okb k where k: "ctl (if rest \<noteq> 0 then EPOLL_CTL_MOD else EPOLL_CTL_DEL) fd (EPOLLET OR rest) (io_kernel M) = (okb, k)"
    by force
  show thesis
  proof (cases okb)
    case False
    then have "delEvent ctl fd event M = Some (False, M\<lparr>io_kernel := k\<rparr>)"
      using fd i True k by (simp add: delEvent_def rest_def Let_def)
    moreover have "io_ok interest (M\<lparr>io_kernel := k\<rparr>)"
      using ok contexts_ok_kernel epoll_okD(1) [OF ctl k] False by simp
    ultimately show thesis using that [of False] by simp
  next
    case okb: True
    obtain e where e: "getContext event ?c = Some e" using event_cases [OF c(1) ev] by metis
    have reset: "resetContext e = empty_context" by (cases e) (simp add: resetContext_def empty_context_def)
    define c' where "c' = setContext event empty_context (?c\<lparr>fc_events := rest\<rparr>)"
    note c' = clear_event_ok [OF c(1) ev, folded rest_def c'_def]
    have "fc_fd c' = int ?i" using c(2) fd by (simp add: c'_def setContext_def)
    then have "contexts_ok interest ((m_fdContexts M)[?i := c'])
        (m_pendingEventCount M + of_nat (waiting c') - of_nat (waiting ?c)) k"
      using c' True clear_op [OF ctl k [unfolded okb [THEN eqTrueI]]] fd
      by (intro contexts_ok_update [OF ok i(1)]) simp_all
    moreover have "of_nat (waiting ?c) = (of_nat (waiting c') + 1 :: u64)" using c'(2) True by (metis of_nat_1 of_nat_add)
    ultimately have "io_ok interest (M\<lparr>io_kernel := k, m_pendingEventCount := m_pendingEventCount M - 1,
        m_fdContexts := (m_fdContexts M)[?i := c']\<rparr>)" by simp
    moreover have "delEvent ctl fd event M = Some (True, M\<lparr>io_kernel := k,
        m_pendingEventCount := m_pendingEventCount M - 1, m_fdContexts := (m_fdContexts M)[?i := c']\<rparr>)"
      using fd i True k okb e reset by (simp add: delEvent_def rest_def Let_def c'_def)
    moreover have "\<not> has_flag (fc_events c') event"
      using c'(3) ev c(1) True by (auto simp: has_flag_def ctx_ok_def rest_def)
    ultimately show thesis using that [of True] i True by simp
  qed
qed

lemma real_events_cases: "real_events_of evs \<in> {0, 1, 4, 5}"
  by (simp add: real_events_of_def Let_def)

text \<open>An event of \<^verbatim>\<open>epoll_wait\<close> whose readiness does not exceed what is waited for.\<close>

lemma handle_event_ok:
  assumes ok: "io_ok interest M" and ctl: "epoll_ok ctl interest" and i: "i < length (m_fdContexts M)"
    and sub: "real_events_of evs AND NOT (fc_events (m_fdContexts M ! i)) = 0"
  obtains b M' where "handle_event ctl (Ep_fd i evs) M = Some M'" "io_ok interest M'"
    "\<forall>s. queue M' s = queue M s @
       woken (b \<and> has_flag (real_events_of evs) READ) READ (m_fdContexts M ! i) s @
       woken (b \<and> has_flag (real_events_of evs) WRITE) WRITE (m_fdContexts M ! i) s"
    "b \<longrightarrow> fc_events (m_fdContexts M' ! i) = fc_events (m_fdContexts M ! i) AND NOT (real_events_of evs)"
proof (cases "fc_events (m_fdContexts M ! i) AND real_events_of evs = 0")
  case True
  then show thesis
    using that [of M False] ok by (simp add: handle_event_def Let_def not_registered_queue)
next
  case False
  let ?c = "m_fdContexts M ! i" and ?re = "real_events_of evs"
  let ?r = "has_flag ?re READ" and ?w = "has_flag ?re WRITE"
  note c = contexts_okD [OF ok i]
  define rest where "rest = fc_events ?c AND NOT ?re"
  obtain okb k where k: "ctl (if rest \<noteq> 0 then EPOLL_CTL_MOD else EPOLL_CTL_DEL) (fc_fd ?c) (EPOLLET OR rest) (io_kernel M) = (okb, k)"
    by force
  show thesis
  proof (cases okb)
    case notok: False
    then have "handle_event ctl (Ep_fd i evs) M = Some (M\<lparr>io_kernel := k\<rparr>)"
      using False k by (simp add: handle_event_def rest_def Let_def)
    moreover have "io_ok interest (M\<lparr>io_kernel := k\<rparr>)"
      using ok contexts_ok_kernel epoll_okD(1) [OF ctl k] notok by simp
    ultimately show thesis using that [of "M\<lparr>io_kernel := k\<rparr>" False] by (simp add: not_registered_queue)
  next
    case okb: True
    have rw: "?r \<Longrightarrow> has_flag (fc_events ?c) READ" "?w \<Longrightarrow> has_flag (fc_events ?c) WRITE"
      "rest = fc_events ?c AND NOT ((if ?r then READ else 0) OR (if ?w then WRITE else 0))"
      using c(1) sub real_events_cases [of evs] by (auto simp: ctx_ok_def has_flag_def rest_def)
    obtain M1 M2 where M: "trigger_if ?r i READ (M\<lparr>io_kernel := k\<rparr>) = Some M1"
      "trigger_if ?w i WRITE M1 = Some M2" "io_ok interest M2"
      "fc_events (m_fdContexts M2 ! i) = rest"
      "\<forall>s. queue M2 s = queue (M\<lparr>io_kernel := k\<rparr>) s @ woken ?r READ ?c s @ woken ?w WRITE ?c s"
    proof (rule trigger_both_ok [of interest "M\<lparr>io_kernel := k\<rparr>" "io_kernel M" i ?c ?r ?w rest])
      show "interest (io_kernel (M\<lparr>io_kernel := k\<rparr>)) = (interest (io_kernel M))(int i := registered rest)"
        using clear_op [OF ctl k [unfolded okb [THEN eqTrueI]]] c(2) by simp
    qed (use ok i rw in simp_all)
    have "handle_event ctl (Ep_fd i evs) M = Some M2"
      using False k okb M by (simp add: handle_event_def rest_def Let_def)
    then show thesis using that [of M2 True] M rest_def by simp
  qed
qed

text \<open>When something else is ready as well, an assertion fails or nothing happens.\<close>

lemma handle_event_exceeds:
  assumes ok: "io_ok interest M" and i: "i < length (m_fdContexts M)"
    and more: "real_events_of evs AND NOT (fc_events (m_fdContexts M ! i)) \<noteq> 0"
    and some: "handle_event ctl (Ep_fd i evs) M = Some M'"
  shows "\<exists>k. fc_events (m_fdContexts M ! i) AND real_events_of evs = 0 \<and> M' = M \<or>
    M' = M\<lparr>io_kernel := k\<rparr> \<and> (\<exists>op fd m. ctl op fd m (io_kernel M) = (False, k))"
proof (rule ccontr)
  let ?c = "m_fdContexts M ! i" and ?re = "real_events_of evs"
  assume no: "\<not> ?thesis"
  note c = contexts_okD [OF ok i]
  define rest where "rest = fc_events ?c AND NOT ?re"
  obtain okb k where k: "ctl (if rest \<noteq> 0 then EPOLL_CTL_MOD else EPOLL_CTL_DEL) (fc_fd ?c) (EPOLLET OR rest) (io_kernel M) = (okb, k)"
    by force
  have some': "fc_events ?c AND ?re \<noteq> 0" using no some by (auto simp: handle_event_def Let_def)
  have okb
  proof (rule ccontr)
    assume "\<not> okb"
    then have "M' = M\<lparr>io_kernel := k\<rparr>" using some some' k by (simp add: handle_event_def rest_def Let_def)
    with no k \<open>\<not> okb\<close> show False by auto
  qed
  let ?r = "has_flag ?re READ" and ?w = "has_flag ?re WRITE"
  from some some' k \<open>okb\<close> obtain M1 where M1: "trigger_if ?r i READ (M\<lparr>io_kernel := k\<rparr>) = Some M1"
    and M2: "trigger_if ?w i WRITE M1 = Some M'"
    by (auto simp: handle_event_def rest_def Let_def split: option.split_asm)
  have r: "?r \<Longrightarrow> has_flag (fc_events ?c) READ"
    using M1 by (auto simp: trigger_if_def triggerEvent_def Let_def split: if_split_asm)
  obtain M1' c1 where t: "trigger_if ?r i READ (M\<lparr>io_kernel := k\<rparr>) = Some M1'"
      "m_fdContexts M1' = (m_fdContexts (M\<lparr>io_kernel := k\<rparr>))[i := c1]"
      "fc_events c1 = (if ?r then fc_events ?c AND NOT READ else fc_events ?c)"
    by (rule trigger_if_ok [of i "M\<lparr>io_kernel := k\<rparr>" ?c READ ?r]) (use i c r in auto)
  then have "m_fdContexts M1 ! i = c1" using M1 i by simp
  then have "?w \<Longrightarrow> has_flag (fc_events c1) WRITE"
    using M2 by (auto simp: trigger_if_def triggerEvent_def Let_def split: if_split_asm)
  then show False
    using more r t(3) c(1) real_events_cases [of evs] by (auto simp: ctx_ok_def has_flag_def)
qed

section \<open>Reachable states\<close>

text \<open>
  Steps of any threads, in any order.  The parts of \<^verbatim>\<open>addEvent\<close> are steps of their own, so that other threads may come in
  between; only a table that has become long enough for its descriptor in the meantime is not made longer once
  more, which \<^verbatim>\<open>addEvent\<close> does not prevent (\<open>grow_race\<close>).
\<close>

inductive io_step :: "'k epoll_ctl \<Rightarrow> ('w, 'c, 'k) IOManager \<Rightarrow> ('w, 'c, 'k) IOManager \<Rightarrow> bool" for ctl where
  Grow: "int (length (m_fdContexts M)) \<le> fd \<Longrightarrow> addEvent_grow fd M = (i, M') \<Longrightarrow> io_step ctl M M'"
| Add: "i < length (m_fdContexts M) \<Longrightarrow> event \<in> {READ, WRITE} \<Longrightarrow> cb \<noteq> None \<or> state = EXEC \<Longrightarrow>
    addEvent_locked ctl (Some s) fiber state (int i) i event cb M = Some (r, M') \<Longrightarrow> io_step ctl M M'"
| Del: "fd \<ge> 0 \<Longrightarrow> event \<in> {READ, WRITE} \<Longrightarrow> delEvent ctl fd event M = Some (b, M') \<Longrightarrow> io_step ctl M M'"
| Cancel: "fd \<ge> 0 \<Longrightarrow> event \<in> {READ, WRITE} \<Longrightarrow> cancelEvent ctl fd event M = Some (b, M') \<Longrightarrow> io_step ctl M M'"
| CancelAll: "fd \<ge> 0 \<Longrightarrow> cancelAll ctl fd M = Some (b, M') \<Longrightarrow> io_step ctl M M'"
| Event: "i < length (m_fdContexts M) \<Longrightarrow> handle_event ctl (Ep_fd i evs) M = Some M' \<Longrightarrow> io_step ctl M M'"
| Tickled: "handle_event ctl Ep_tickle M = Some M' \<Longrightarrow> io_step ctl M M'"
| Scheds: "io_step ctl M (M\<lparr>io_scheds := S, io_timers := t, io_pipe := n\<rparr>)"

inductive io_reachable ::
  "'k epoll_ctl \<Rightarrow> 'k \<Rightarrow> ('w, 'c, 'k) IOManager \<Rightarrow> bool" for ctl k where
  Start: "new_IOManager sys self S now ids k0 = Some M \<Longrightarrow> io_kernel M = k \<Longrightarrow> io_reachable ctl k M"
| Step: "io_reachable ctl k M \<Longrightarrow> io_step ctl M M' \<Longrightarrow> io_reachable ctl k M'"

lemma io_step_ok:
  assumes "io_step ctl M M'" "epoll_ok ctl interest" "io_ok interest M"
  shows "io_ok interest M'"
  using assms
proof (induction rule: io_step.induct)
  case (Grow M fd i M')
  then show ?case using addEvent_grow_ok(1) by blast
next
  case (Add i M event cb state s fiber r M')
  have "\<not> has_flag (fc_events (m_fdContexts M ! i)) event"
    using Add.hyps(4) by (auto simp: addEvent_locked_def Let_def split: if_split_asm)
  then show ?case
    using addEvent_locked_ok [OF Add.prems(2,1) Add.hyps(1-3), of s fiber] Add.hyps(4) by (metis Pair_inject option.inject)
next
  case (Del fd event M b M')
  then have "fd \<noteq> int (length (m_fdContexts M))" by (auto simp: delEvent_def)
  then show ?case
    using delEvent_ok [OF Del.prems(2,1) Del.hyps(1) _ Del.hyps(2)] Del.hyps(3) by (metis Pair_inject option.inject)
next
  case (Cancel fd event M b M')
  then show ?case using cancelEvent_ok [OF Cancel.prems(2,1) Cancel.hyps(1,2)] by (metis Pair_inject option.inject)
next
  case (CancelAll fd M b M')
  then show ?case using cancelAll_ok [OF CancelAll.prems(2,1) CancelAll.hyps(1)] by (metis Pair_inject option.inject)
next
  case (Event i M evs M')
  show ?case
  proof (cases "real_events_of evs AND NOT (fc_events (m_fdContexts M ! i)) = 0")
    case True
    then show ?thesis using handle_event_ok [OF Event.prems(2,1) Event.hyps(1)] Event.hyps(2) by (metis option.inject)
  next
    case False
    obtain k where "M' = M \<or> M' = M\<lparr>io_kernel := k\<rparr> \<and> (\<exists>op fd m. ctl op fd m (io_kernel M) = (False, k))"
      using handle_event_exceeds [OF Event.prems(2) Event.hyps(1) False Event.hyps(2)] by blast
    moreover have "interest k = interest (io_kernel M)" if "ctl op fd m (io_kernel M) = (False, k)" for op fd m
      using epoll_okD(1) [OF Event.prems(1) that] by simp
    ultimately show ?thesis using Event.prems(2) contexts_ok_kernel [OF Event.prems(2)] by auto
  qed
next
  case (Tickled M M')
  then show ?case by (auto simp: handle_event_def)
qed simp

lemma io_reachable_ok:
  assumes "io_reachable ctl k M" "epoll_ok ctl interest" "interest k = (\<lambda>fd. None)"
  shows "io_ok interest M"
  using assms
proof (induction rule: io_reachable.induct)
  case (Start sys self S now ids k0 M)
  then have ctxs: "m_fdContexts M = map new_FdContext [0..<32]" and pending: "m_pendingEventCount M = 0"
    by (auto simp: new_IOManager_def contextResize_def Let_def split: option.split_asm prod.split_asm)
  have none: "sum_list (map waiting (map new_FdContext xs)) = 0" for xs
    by (induction xs) (simp_all add: new_context_ok)
  show ?case
    using Start.prems(2) unfolding contexts_ok_def ctxs none pending Start.hyps(2)
    by (simp add: new_context_ok new_context_fields)
next
  case (Step M M')
  then show ?case using io_step_ok by blast
qed

text \<open>A call of \<^verbatim>\<open>addEvent\<close> that nothing comes in between of is one or two steps.\<close>

lemma addEvent_reachable:
  assumes "io_reachable ctl k M" "event \<in> {READ, WRITE}" "cb \<noteq> None \<or> state = EXEC"
    and "addEvent ctl (Some s) fiber state fd event cb M = Some (r, M')"
  shows "io_reachable ctl k M'"
proof -
  from assms(4) obtain M1 where M1: "M1 = M \<or> int (length (m_fdContexts M)) \<le> fd \<and> M1 = snd (addEvent_grow fd M)"
    and locked: "nat fd < length (m_fdContexts M1)" "int (nat fd) = fd"
      "addEvent_locked ctl (Some s) fiber state fd (nat fd) event cb M1 = Some (r, M')"
    using addEvent_parts [OF assms(4)] by blast
  have "io_reachable ctl k M1"
  proof (cases "M1 = M")
    case False
    with M1 have "io_step ctl M M1" by (auto intro: io_step.Grow [where i = "fst (addEvent_grow fd M)"])
    then show ?thesis by (rule io_reachable.Step [OF assms(1)])
  qed (use assms(1) in simp)
  moreover have "io_step ctl M1 M'"
    using io_step.Add [of "nat fd" M1 event cb state ctl s fiber r M'] locked assms(2,3) by simp
  ultimately show ?thesis by (rule io_reachable.Step)
qed

text \<open>
  Two threads that find the table too short both make it longer: when the one with the larger descriptor comes
  first, the other cuts the table again, so that the descriptor it was made longer for is outside of it, and
  the context of that descriptor, with whoever waits in it, is lost.
\<close>

theorem grow_race:
  assumes "length (m_fdContexts M) = 32" "addEvent_find 40 M = None" "addEvent_find 100 M = None"
    and "addEvent_grow 100 M = (i, M1)" "addEvent_grow 40 M1 = (j, M2)"
  shows "i < length (m_fdContexts M1) \<and> \<not> i < length (m_fdContexts M2) \<and> j < length (m_fdContexts M2)"
  using assms by (auto simp: addEvent_grow_def contextResize_def)

section \<open>Properties\<close>

text \<open>
  C8. The I/O manager and the kernel agree: in every state reached from the constructor by adding, deleting,
  cancelling and delivering events, the events recorded in the context of a descriptor are exactly those registered
  with \<^verbatim>\<open>epoll\<close>, every recorded event has a scheduler and either a fiber or a callback to wake up, no other
  event has any, and \<^verbatim>\<open>m_pendingEventCount\<close> is the number of recorded events.  The steps of different threads may
  alternate, as long as no table is made longer for a descriptor that it has room for by then (\<open>io_step\<close>).
\<close>

theorem io_reachable_inv:
  assumes "io_reachable ctl k M" "epoll_ok ctl interest" "interest k = (\<lambda>fd. None)"
  shows "m_pendingEventCount M = of_nat (sum_list (map waiting (m_fdContexts M))) \<and>
    (\<forall>i < length (m_fdContexts M). let c = m_fdContexts M ! i in
       interest (io_kernel M) (int i) = (if fc_events c = NONE then None else Some (EPOLLET OR fc_events c)) \<and>
       (has_flag (fc_events c) READ \<longrightarrow> armed (fc_read c)) \<and>
       (has_flag (fc_events c) WRITE \<longrightarrow> armed (fc_write c)) \<and>
       (\<not> has_flag (fc_events c) READ \<longrightarrow> fc_read c = empty_context) \<and>
       (\<not> has_flag (fc_events c) WRITE \<longrightarrow> fc_write c = empty_context))"
  using io_reachable_ok [OF assms]
  by (simp add: contexts_ok_def ctx_ok_def event_ok_def registered_def Let_def)

text \<open>A kernel that accepts every call, and a manager in which fiber 3 waits to read from descriptor 7.\<close>

definition no_interest :: "int \<Rightarrow> u32 option" where
  "no_interest fd = None"

definition sample_ctl :: "(int \<Rightarrow> u32 option) epoll_ctl" where
  "sample_ctl op fd evs k = (True, k(fd := if op = EPOLL_CTL_DEL then None else Some evs))"

text \<open>A system in which the epoll instance is 3 and the pipe 4 and 5.\<close>

definition sample_io_sys :: "'k io_sys" where
  "sample_io_sys = \<lparr>is_epoll_create = (\<lambda>_ k. (3, k)), is_pipe = (\<lambda>k. (Some (4, 5), k)), is_set_nonblock = (\<lambda>_ k. (True, k)),
     is_ctl_add_fd = (\<lambda>_ _ _ k. (True, k))\<rparr>"

definition sample_scheds :: "nat \<Rightarrow> (nat, nat) timer_cb Scheduler" where
  "sample_scheds s = the (new_Scheduler 1 False 0 0)"

definition sample_io :: "(nat, nat, int \<Rightarrow> u32 option) IOManager" where
  "sample_io = snd (the (addEvent sample_ctl (Some 0) 3 EXEC 7 READ None
     (the (new_IOManager sample_io_sys 0 sample_scheds 100 [11] no_interest))))"

lemma sample_epoll: "epoll_ok sample_ctl (\<lambda>k. k)"
  by (simp add: epoll_ok_def sample_ctl_def)

lemma no_interest_none: "no_interest = (\<lambda>fd. None)"
  by (simp add: no_interest_def fun_eq_iff)

lemma sample_start_io:
  obtains M where "new_IOManager sample_io_sys 0 sample_scheds 100 [11] no_interest = Some M"
    "m_fdContexts M = map new_FdContext [0..<32]" "io_kernel M = no_interest"
  by (simp add: new_IOManager_def open_tickle_def sample_io_sys_def start_def sample_scheds_def new_Scheduler_def contextResize_def)

lemma sample_io_reachable:
  "io_reachable sample_ctl no_interest sample_io" "fc_events (m_fdContexts sample_io ! 7) = READ"
  "length (m_fdContexts sample_io) = 32"
proof -
  obtain M where M: "new_IOManager sample_io_sys 0 sample_scheds 100 [11] no_interest = Some M"
    "m_fdContexts M = map new_FdContext [0..<32]" "io_kernel M = no_interest" by (rule sample_start_io)
  have ctx: "m_fdContexts M ! 7 = new_FdContext 7" "length (m_fdContexts M) = 32"
    by (simp_all add: M(2) nth_append del: upt_Suc)
  have add: "\<exists>r M'. addEvent sample_ctl (Some 0) 3 EXEC 7 READ None M = Some (r, M') \<and>
      fc_events (m_fdContexts M' ! 7) = READ \<and> length (m_fdContexts M') = 32"
    by (simp add: addEvent_def addEvent_find_def addEvent_locked_def sample_ctl_def ctx new_FdContext_def getContext_def setContext_def empty_context_def Let_def)
  then show "fc_events (m_fdContexts sample_io ! 7) = READ" "length (m_fdContexts sample_io) = 32"
    by (auto simp: sample_io_def M(1))
  obtain r where "addEvent sample_ctl (Some 0) 3 EXEC 7 READ None M = Some (r, sample_io)"
    using add by (auto simp: sample_io_def M(1))
  from addEvent_reachable [OF io_reachable.Start [OF M(1,3)] _ _ this]
  show "io_reachable sample_ctl no_interest sample_io" by simp
qed

theorem io_reachable_inv_witness:
  "m_pendingEventCount sample_io = of_nat (sum_list (map waiting (m_fdContexts sample_io))) \<and>
   io_kernel sample_io 7 = Some (EPOLLET OR READ) \<and> armed (fc_read (m_fdContexts sample_io ! 7))"
proof -
  note inv = io_reachable_inv [OF sample_io_reachable(1), where interest = "\<lambda>k. k", OF sample_epoll no_interest_none]
  show ?thesis
    using inv [THEN conjunct1] inv [THEN conjunct2, rule_format, of 7] sample_io_reachable(2,3)
    by (simp add: Let_def has_flag_def)
qed

text \<open>
  C19. \<^verbatim>\<open>cancelAll\<close>, which closing a descriptor calls, wakes up every waiter exactly once and no one else.  It returns
  without failing an assertion, and reports success exactly when some event was recorded and the kernel took the
  descriptor out.  Then the fiber or callback of each recorded event has been appended to the queue of its own
  scheduler, reader first; nothing is recorded for the descriptor any more, neither an event nor whom to wake
  up, and the events of the other descriptors are as before; the kernel has no registration for it; and the
  number of pending events is less by the number of events there were.  Otherwise no queue, no context and
  no count has changed.
\<close>

theorem cancelAll_wakes:
  assumes "io_reachable ctl k M" "epoll_ok ctl interest" "interest k = (\<lambda>fd. None)" "fd \<ge> 0" and c: "c = m_fdContexts M ! nat fd"
  shows "\<exists>b M'. cancelAll ctl fd M = Some (b, M') \<and>
    (b \<longleftrightarrow> nat fd < length (m_fdContexts M) \<and> fc_events c \<noteq> NONE \<and> fst (ctl EPOLL_CTL_DEL fd 0 (io_kernel M))) \<and>
    (b \<longrightarrow> m_fdContexts M' = (m_fdContexts M)[nat fd := new_FdContext (nat fd)] \<and> interest (io_kernel M') fd = None \<and>
       m_pendingEventCount M' = m_pendingEventCount M - of_nat (waiting c)) \<and>
    (\<not> b \<longrightarrow> m_fdContexts M' = m_fdContexts M \<and> m_pendingEventCount M' = m_pendingEventCount M) \<and>
    (\<forall>s. m_fibers (io_scheds M' s) = m_fibers (io_scheds M s) @
       (if b then woken (has_flag (fc_events c) READ) READ c s @ woken (has_flag (fc_events c) WRITE) WRITE c s else []))"
proof -
  let ?i = "nat fd"
  note io = io_reachable_ok [OF assms(1-3)]
  obtain b M' where r: "cancelAll ctl fd M = Some (b, M')" "io_ok interest M'"
    "b \<longleftrightarrow> ?i < length (m_fdContexts M) \<and> fc_events c \<noteq> 0 \<and> fst (ctl EPOLL_CTL_DEL fd 0 (io_kernel M))"
    "b \<longrightarrow> fc_events (m_fdContexts M' ! ?i) = 0 \<and> length (m_fdContexts M') = length (m_fdContexts M) \<and>
       (\<forall>j. j \<noteq> ?i \<longrightarrow> m_fdContexts M' ! j = m_fdContexts M ! j)"
    "\<not> b \<longrightarrow> m_fdContexts M' = m_fdContexts M \<and> m_pendingEventCount M' = m_pendingEventCount M"
    "\<forall>s. queue M' s = queue M s @ (if b then
       woken (has_flag (fc_events c) READ) READ c s @ woken (has_flag (fc_events c) WRITE) WRITE c s else [])"
    using cancelAll_ok [OF io assms(2,4)] unfolding c by metis
  have cleared: "m_fdContexts M' = (m_fdContexts M)[?i := new_FdContext ?i]" "interest (io_kernel M') fd = None"
    "m_pendingEventCount M' = m_pendingEventCount M - of_nat (waiting c)" if b
  proof -
    have i: "?i < length (m_fdContexts M)" "?i < length (m_fdContexts M')" using r(3,4) that by simp_all
    note c' = contexts_okD [OF r(2) i(2)]
    have "fc_events (m_fdContexts M' ! ?i) = 0" using r(4) that by simp
    then have new: "m_fdContexts M' ! ?i = new_FdContext ?i"
      using c'(1,2) by (simp add: ctx_ok_def event_ok_def has_flag_def new_FdContext_def)
    then show eq: "m_fdContexts M' = (m_fdContexts M)[?i := new_FdContext ?i]"
      using r(4) that i by (intro nth_equalityI) (auto simp: nth_list_update)
    show "interest (io_kernel M') fd = None" using c'(3) assms(4) by (simp add: new new_context_fields)
    have "waiting c \<le> sum_list (map waiting (m_fdContexts M))" using i(1) c by (simp add: member_le_sum_list)
    moreover have "sum_list (map waiting (m_fdContexts M')) = sum_list (map waiting (m_fdContexts M)) - waiting c"
      using i(1) c by (simp add: eq map_update sum_list_update new_context_ok)
    ultimately show "m_pendingEventCount M' = m_pendingEventCount M - of_nat (waiting c)"
      using io r(2) by (simp add: contexts_ok_def of_nat_diff)
  qed
  show ?thesis
    using r(1,3,5,6) cleared by (intro exI [of _ b] exI [of _ M']) (simp add: queue_def)
qed

theorem cancelAll_wakes_witness:
  "\<exists>M'. cancelAll sample_ctl 7 sample_io = Some (True, M') \<and>
    m_fdContexts M' = (m_fdContexts sample_io)[7 := new_FdContext 7] \<and> io_kernel M' 7 = None"
  using cancelAll_wakes [OF sample_io_reachable(1), where interest = "\<lambda>k. k", OF sample_epoll no_interest_none _ refl, where fd = 7]
    sample_io_reachable(2,3)
  by (auto simp: sample_ctl_def)

text \<open>
  A hang-up kills the server: when a descriptor that is waited for only for reading (or only for
  writing) reports an error or a hang-up, \<^verbatim>\<open>idle\<close> turns this into readiness for both, triggers the event
  that nobody waits for as well and fails the assertion in \<^verbatim>\<open>triggerEvent\<close>, unless \<^verbatim>\<open>epoll_ctl\<close> fails.
\<close>

theorem hangup_fails:
  assumes "io_reachable ctl k M" "epoll_ok ctl interest" "interest k = (\<lambda>fd. None)"
    and "i < length (m_fdContexts M)" "fc_events (m_fdContexts M ! i) \<in> {READ, WRITE}"
    and "has_flag evs (EPOLLERR OR EPOLLHUP)" and "\<And>op fd m. fst (ctl op fd m (io_kernel M))"
  shows "handle_event ctl (Ep_fd i evs) M = None"
proof (rule ccontr)
  assume "handle_event ctl (Ep_fd i evs) M \<noteq> None"
  then obtain M' where M': "handle_event ctl (Ep_fd i evs) M = Some M'" by blast
  have re: "real_events_of evs = 5"
    using assms(6) by (simp add: real_events_of_def Let_def EPOLLIN_def EPOLLOUT_def has_flag_def [of 5])
  note io = io_reachable_ok [OF assms(1-3)]
  have "real_events_of evs AND NOT (fc_events (m_fdContexts M ! i)) \<noteq> 0" using assms(5) re by auto
  from handle_event_exceeds [OF io assms(4) this M'] assms(7)
  have "fc_events (m_fdContexts M ! i) AND real_events_of evs = 0" by (metis fst_conv)
  then show False using assms(5) re by auto
qed

theorem hangup_fails_witness: "handle_event sample_ctl (Ep_fd 7 EPOLLHUP) sample_io = None"
  by (rule hangup_fails [OF sample_io_reachable(1), where interest = "\<lambda>k. k", OF sample_epoll no_interest_none])
    (simp_all add: sample_io_reachable(2,3) EPOLLERR_def EPOLLHUP_def has_flag_def sample_ctl_def)


definition sample_stopped :: "(nat, nat, int \<Rightarrow> u32 option) IOManager" where
  "sample_stopped = (the (new_IOManager sample_io_sys 0 sample_scheds 100 [11] no_interest))
     \<lparr>io_scheds := (\<lambda>s. (sample_scheds s)\<lparr>m_stopping := True, m_autoStop := True\<rparr>),
      io_timers := TimerManager_new 100, io_pipe := 0\<rparr>"

lemma sample_stopped_reachable:
  "io_reachable sample_ctl no_interest sample_stopped" "length (m_fdContexts sample_stopped) = 32"
  "\<exists>M'. IOManager_idle sample_ctl 100 (\<lambda>t. ([], 200)) 5 sample_stopped = Some (Ended Returned, M')"
proof -
  obtain M where M: "new_IOManager sample_io_sys 0 sample_scheds 100 [11] no_interest = Some M"
    "m_fdContexts M = map new_FdContext [0..<32]" "io_kernel M = no_interest" by (rule sample_start_io)
  show "io_reachable sample_ctl no_interest sample_stopped"
    unfolding sample_stopped_def M(1) option.sel
    by (rule io_reachable.Step [OF io_reachable.Start [OF M(1,3)] io_step.Scheds])
  show "length (m_fdContexts sample_stopped) = 32" by (simp add: sample_stopped_def M)
  have "m_pendingEventCount M = 0"
    using M(1) by (auto simp: new_IOManager_def contextResize_def Let_def split: option.split_asm prod.split_asm)
  then show "\<exists>M'. IOManager_idle sample_ctl 100 (\<lambda>t. ([], 200)) 5 sample_stopped = Some (Ended Returned, M')"
    by (simp add: IOManager_idle_def IOManager_stopping_def sample_stopped_def M(1) getNextTimer_def
        TimerManager_new_def sample_scheds_def new_Scheduler_def stopping_def)
qed


end
