(* ===== verification/Socket.thy ===== *)
theory Socket
  imports Address FdManager IOManager
begin

text \<open>
  \<^verbatim>\<open>socket.cpp\<close> and \<^verbatim>\<open>socket.h\<close>: the socket class.  The functions of the C library that it calls, which are
  those of the hook when hooking is enabled, are the fields of a record \<open>net\<close>, each a function on the state
  of the rest of the program and the kernel; \<open>net_fd\<close> is \<^verbatim>\<open>FdMgr::GetInstance().get\<close>.  A member function takes
  the object and returns it changed.
\<close>

section \<open>What the class calls\<close>

datatype optval = Opt_int int | Opt_timeval int int

record 'w net =
  net_socket :: "int \<Rightarrow> int \<Rightarrow> int \<Rightarrow> 'w \<Rightarrow> int \<times> 'w"
  net_bind :: "int \<Rightarrow> u8 list \<Rightarrow> u32 \<Rightarrow> 'w \<Rightarrow> int \<times> 'w"
  net_connect :: "int \<Rightarrow> u8 list \<Rightarrow> u32 \<Rightarrow> 'w \<Rightarrow> int \<times> 'w"
  net_connect_with_timeout :: "int \<Rightarrow> u8 list \<Rightarrow> u32 \<Rightarrow> u64 \<Rightarrow> 'w \<Rightarrow> int \<times> 'w"
  net_listen :: "int \<Rightarrow> int \<Rightarrow> 'w \<Rightarrow> int \<times> 'w"
  net_accept :: "int \<Rightarrow> 'w \<Rightarrow> int \<times> 'w"
  net_close :: "int \<Rightarrow> 'w \<Rightarrow> int \<times> 'w"
  net_send :: "int \<Rightarrow> bytes \<Rightarrow> int \<Rightarrow> 'w \<Rightarrow> int \<times> 'w"
  net_sendto :: "int \<Rightarrow> bytes \<Rightarrow> int \<Rightarrow> u8 list \<Rightarrow> u32 \<Rightarrow> 'w \<Rightarrow> int \<times> 'w"
  net_sendmsg :: "int \<Rightarrow> (u8 list \<times> u32) option \<Rightarrow> bytes list \<Rightarrow> int \<Rightarrow> 'w \<Rightarrow> int \<times> 'w"
  net_recv :: "int \<Rightarrow> nat \<Rightarrow> int \<Rightarrow> 'w \<Rightarrow> int \<times> bytes \<times> 'w"
  net_recvfrom :: "int \<Rightarrow> nat \<Rightarrow> int \<Rightarrow> u32 \<Rightarrow> 'w \<Rightarrow> int \<times> bytes \<times> u8 list \<times> 'w"
  net_recvmsg :: "int \<Rightarrow> u32 option \<Rightarrow> nat list \<Rightarrow> int \<Rightarrow> 'w \<Rightarrow> int \<times> bytes list \<times> u8 list \<times> 'w"
  net_getpeername :: "int \<Rightarrow> u32 \<Rightarrow> 'w \<Rightarrow> int \<times> u8 list \<times> u32"
  net_getsockname :: "int \<Rightarrow> u32 \<Rightarrow> 'w \<Rightarrow> int \<times> u8 list \<times> u32"
  net_setsockopt :: "int \<Rightarrow> int \<Rightarrow> int \<Rightarrow> optval \<Rightarrow> 'w \<Rightarrow> int \<times> 'w"
  net_getsockopt :: "int \<Rightarrow> int \<Rightarrow> int \<Rightarrow> 'w \<Rightarrow> int \<times> int \<times> 'w"
  net_fd :: "int \<Rightarrow> 'w \<Rightarrow> FdCtx option"

definition SOL_SOCKET :: int where "SOL_SOCKET = 1"
definition SO_REUSEADDR :: int where "SO_REUSEADDR = 2"
definition SO_ERROR :: int where "SO_ERROR = 4"
definition IPPROTO_TCP :: int where "IPPROTO_TCP = 6"
definition TCP_NODELAY :: int where "TCP_NODELAY = 1"
definition SOCK_STREAM :: int where "SOCK_STREAM = 1"
definition SOCK_DGRAM :: int where "SOCK_DGRAM = 2"
definition SOMAXCONN :: int where "SOMAXCONN = 4096"

section \<open>The object\<close>

record Socket =
  m_sock :: int
  m_family :: int
  m_type :: int
  m_protocol :: int
  m_isConnected :: bool
  m_localAddress :: "Address option"
  m_remoteAddress :: "Address option"

definition new_Socket :: "int \<Rightarrow> int \<Rightarrow> int \<Rightarrow> Socket" where
  "new_Socket family type protocol =
    \<lparr>m_sock = -1, m_family = family, m_type = type, m_protocol = protocol, m_isConnected = False,
     m_localAddress = None, m_remoteAddress = None\<rparr>"

definition CreateTCP :: "Address \<Rightarrow> Socket" where
  "CreateTCP address = new_Socket (uint (getFamily address)) SOCK_STREAM 0"

definition CreateUDP :: "Address \<Rightarrow> Socket" where
  "CreateUDP address = new_Socket (uint (getFamily address)) SOCK_DGRAM 0"

definition CreateTCPSocket :: Socket where "CreateTCPSocket = new_Socket (uint AF_INET) SOCK_STREAM 0"
definition CreateUDPSocket :: Socket where "CreateUDPSocket = new_Socket (uint AF_INET) SOCK_DGRAM 0"
definition CreateTCPSocket6 :: Socket where "CreateTCPSocket6 = new_Socket (uint AF_INET6) SOCK_STREAM 0"
definition CreateUDPSocket6 :: Socket where "CreateUDPSocket6 = new_Socket (uint AF_INET6) SOCK_DGRAM 0"
definition CreateUnixTCPSocket :: Socket where "CreateUnixTCPSocket = new_Socket (uint AF_UNIX) SOCK_STREAM 0"
definition CreateUnixUDPSocket :: Socket where "CreateUnixUDPSocket = new_Socket (uint AF_UNIX) SOCK_DGRAM 0"

definition isValid :: "Socket \<Rightarrow> bool" where
  "isValid s \<longleftrightarrow> m_sock s \<noteq> -1"

section \<open>Options and timeouts\<close>

definition setOption :: "'w net \<Rightarrow> int \<Rightarrow> int \<Rightarrow> optval \<Rightarrow> Socket \<Rightarrow> 'w \<Rightarrow> bool \<times> 'w" where
  "setOption net level option val s w = (case net_setsockopt net (m_sock s) level option val w of (ret, w) \<Rightarrow> (ret = 0, w))"

definition getOption :: "'w net \<Rightarrow> int \<Rightarrow> int \<Rightarrow> Socket \<Rightarrow> 'w \<Rightarrow> bool \<times> int \<times> 'w" where
  "getOption net level option s w = (case net_getsockopt net (m_sock s) level option w of (ret, r, w) \<Rightarrow> (ret = 0, r, w))"

definition int32 :: "int \<Rightarrow> int" where
  "int32 x = sint (word_of_int x :: 32 word)"

text \<open>Division and remainder of C, which truncate towards zero.\<close>

definition cdiv :: "int \<Rightarrow> int \<Rightarrow> int" where
  "cdiv a b = sgn a * sgn b * (\<bar>a\<bar> div \<bar>b\<bar>)"

definition cmod :: "int \<Rightarrow> int \<Rightarrow> int" where
  "cmod a b = a - cdiv a b * b"

definition timeval_of :: "int \<Rightarrow> optval" where
  "timeval_of val = Opt_timeval (int32 (cdiv val 1000)) (int32 (cmod val 1000 * 1000))"

definition getSendTimeout :: "'w net \<Rightarrow> Socket \<Rightarrow> 'w \<Rightarrow> int" where
  "getSendTimeout net s w = (case net_fd net (m_sock s) w of
      Some ctx \<Rightarrow> sint (getTimeout SO_SNDTIMEO ctx) | None \<Rightarrow> -1)"

definition setSendTimeout :: "'w net \<Rightarrow> int \<Rightarrow> Socket \<Rightarrow> 'w \<Rightarrow> 'w" where
  "setSendTimeout net val s w = snd (setOption net SOL_SOCKET SO_RCVTIMEO (timeval_of val) s w)"

definition getRecvTimeout :: "'w net \<Rightarrow> Socket \<Rightarrow> 'w \<Rightarrow> int" where
  "getRecvTimeout net s w = (case net_fd net (m_sock s) w of
      Some ctx \<Rightarrow> sint (getTimeout SO_SNDTIMEO ctx) | None \<Rightarrow> -1)"

definition setRecvTimeout :: "'w net \<Rightarrow> int \<Rightarrow> Socket \<Rightarrow> 'w \<Rightarrow> 'w" where
  "setRecvTimeout net val s w = snd (setOption net SOL_SOCKET SO_RCVTIMEO (timeval_of val) s w)"

definition getError :: "'w net \<Rightarrow> Socket \<Rightarrow> 'w \<Rightarrow> int \<times> 'w" where
  "getError net s w =
    (case getOption net SOL_SOCKET SO_ERROR s w of (ret, error, w) \<Rightarrow> (if ret then -1 else 0, w))"

section \<open>Addresses\<close>

definition empty_address :: "int \<Rightarrow> Address" where
  "empty_address family =
    (if family = uint AF_INET then IPv4Address (new_IPv4Address 0 0)
     else if family = uint AF_INET6 then IPv6Address new_IPv6Address
     else if family = uint AF_UNIX then new_UnixAddress
     else new_UnknownAddress (word_of_int family))"

text \<open>What the address is after the system has stored bytes at its start.\<close>

definition store_addr :: "u8 list \<Rightarrow> Address \<Rightarrow> Address" where
  "store_addr bs a =
    (let new = take (length (getAddr a)) (bs @ drop (length bs) (getAddr a)) in
     case a of
       IPv4Address s \<Rightarrow> (case as_in new of Inr t \<Rightarrow> IPv4Address t | Inl _ \<Rightarrow> a)
     | IPv6Address s \<Rightarrow> (case as_in6 new of Inr t \<Rightarrow> IPv6Address t | Inl _ \<Rightarrow> a)
     | UnixAddress s n \<Rightarrow>
         UnixAddress \<lparr>sun_family = from_le (take 2 new), sun_path = map (\<lambda>b. char_of (unat b)) (drop 2 new)\<rparr> n
     | UnknownAddress s \<Rightarrow> UnknownAddress \<lparr>sa_family = from_le (take 2 new), sa_data = drop 2 new\<rparr>)"

text \<open>The common part of \<^verbatim>\<open>getRemoteAddress\<close> and \<^verbatim>\<open>getLocalAddress\<close>: the address found, if the call succeeds.\<close>

definition query_address ::
  "(int \<Rightarrow> u32 \<Rightarrow> 'w \<Rightarrow> int \<times> u8 list \<times> u32) \<Rightarrow> Socket \<Rightarrow> 'w \<Rightarrow> Address option" where
  "query_address call s w =
    (let result = empty_address (m_family s);
         (ret, bs, addrlen) = call (m_sock s) (getAddrLen result) w;
         found = store_addr bs result
     in if ret \<noteq> 0 then None
        else Some (if m_family s = uint AF_UNIX then setAddrLen addrlen found else found))"

definition getRemoteAddress :: "'w net \<Rightarrow> Socket \<Rightarrow> 'w \<Rightarrow> Address \<times> Socket" where
  "getRemoteAddress net s w = (case m_remoteAddress s of
      Some a \<Rightarrow> (a, s)
    | None \<Rightarrow>
        (case query_address (net_getpeername net) s w of
           None \<Rightarrow> (new_UnknownAddress (word_of_int (m_family s)), s)
         | Some a \<Rightarrow> (a, s\<lparr>m_remoteAddress := Some a\<rparr>)))"

definition getLocalAddress :: "'w net \<Rightarrow> Socket \<Rightarrow> 'w \<Rightarrow> Address \<times> Socket" where
  "getLocalAddress net s w = (case m_localAddress s of
      Some a \<Rightarrow> (a, s)
    | None \<Rightarrow>
        (case query_address (net_getsockname net) s w of
           None \<Rightarrow> (new_UnknownAddress (word_of_int (m_family s)), s)
         | Some a \<Rightarrow> (a, s\<lparr>m_localAddress := Some a\<rparr>)))"

section \<open>Opening and closing\<close>

definition initSock :: "'w net \<Rightarrow> Socket \<Rightarrow> 'w \<Rightarrow> 'w" where
  "initSock net s w =
    (let w1 = snd (setOption net SOL_SOCKET SO_REUSEADDR (Opt_int 1) s w) in
     if m_type s = SOCK_STREAM then snd (setOption net IPPROTO_TCP TCP_NODELAY (Opt_int 1) s w1) else w1)"

definition newSock :: "'w net \<Rightarrow> Socket \<Rightarrow> 'w \<Rightarrow> Socket \<times> 'w" where
  "newSock net s w =
    (let (fd, w1) = net_socket net (m_family s) (m_type s) (m_protocol s) w; s1 = s\<lparr>m_sock := fd\<rparr> in
     if fd \<noteq> -1 then (s1, initSock net s1 w1) else (s1, w1))"

definition Socket_init :: "'w net \<Rightarrow> int \<Rightarrow> Socket \<Rightarrow> 'w \<Rightarrow> bool \<times> Socket \<times> 'w" where
  "Socket_init net sock s w = (case net_fd net sock w of
      None \<Rightarrow> (False, s, w)
    | Some ctx \<Rightarrow>
        if m_isSocket ctx \<and> \<not> m_isClosed ctx then
          let s1 = s\<lparr>m_sock := sock, m_isConnected := True\<rparr>;
              w1 = initSock net s1 w;
              s2 = snd (getLocalAddress net s1 w1);
              s3 = snd (getRemoteAddress net s2 w1)
          in (True, s3, w1)
        else (False, s, w))"

definition Socket_accept :: "'w net \<Rightarrow> Socket \<Rightarrow> 'w \<Rightarrow> Socket option \<times> 'w" where
  "Socket_accept net s w =
    (let sock = new_Socket (m_family s) (m_type s) (m_protocol s); (fd, w1) = net_accept net (m_sock s) w in
     if fd = -1 then (None, w1)
     else case Socket_init net fd sock w1 of (ok, sock, w2) \<Rightarrow> (if ok then Some sock else None, w2))"

text \<open>The start of \<^verbatim>\<open>bind\<close> and \<^verbatim>\<open>connect\<close>: a descriptor is created when there is none.\<close>

definition ensure_sock :: "'w net \<Rightarrow> Socket \<Rightarrow> 'w \<Rightarrow> Socket \<times> 'w" where
  "ensure_sock net s w = (if isValid s then (s, w) else newSock net s w)"

definition Socket_bind :: "'w net \<Rightarrow> Address \<Rightarrow> Socket \<Rightarrow> 'w \<Rightarrow> bool \<times> Socket \<times> 'w" where
  "Socket_bind net addr s w =
    (case ensure_sock net s w of (s, w) \<Rightarrow>
       if \<not> isValid s then (False, s, w)
       else if uint (getFamily addr) \<noteq> m_family s then (False, s, w)
       else case net_bind net (m_sock s) (getAddr addr) (getAddrLen addr) w of (ret, w) \<Rightarrow>
         if ret \<noteq> 0 then (False, s, w) else (True, snd (getLocalAddress net s w), w))"

definition Socket_close :: "'w net \<Rightarrow> Socket \<Rightarrow> 'w \<Rightarrow> bool \<times> Socket \<times> 'w" where
  "Socket_close net s w =
    (if \<not> m_isConnected s \<and> m_sock s = -1 then (True, s, w)
     else
       let s1 = s\<lparr>m_isConnected := False\<rparr> in
       if m_sock s \<noteq> -1 then (False, s1\<lparr>m_sock := -1\<rparr>, snd (net_close net (m_sock s) w)) else (False, s1, w))"

definition Socket_connect :: "'w net \<Rightarrow> Address \<Rightarrow> u64 \<Rightarrow> Socket \<Rightarrow> 'w \<Rightarrow> bool \<times> Socket \<times> 'w" where
  "Socket_connect net addr timeout_ms s w =
    (case ensure_sock net s w of (s, w) \<Rightarrow>
       if \<not> isValid s then (False, s, w)
       else if uint (getFamily addr) \<noteq> m_family s then (False, s, w)
       else
         case (if timeout_ms = -1 then net_connect net (m_sock s) (getAddr addr) (getAddrLen addr) w
               else net_connect_with_timeout net (m_sock s) (getAddr addr) (getAddrLen addr) timeout_ms w) of
           (ret, w) \<Rightarrow>
             if ret \<noteq> 0 then (case Socket_close net s w of (_, s, w) \<Rightarrow> (False, s, w))
             else
               let s1 = s\<lparr>m_isConnected := True\<rparr>;
                   s2 = snd (getRemoteAddress net s1 w);
                   s3 = snd (getLocalAddress net s2 w)
               in (True, s3, w))"

definition Socket_listen :: "'w net \<Rightarrow> int \<Rightarrow> Socket \<Rightarrow> 'w \<Rightarrow> bool \<times> 'w" where
  "Socket_listen net backlog s w =
    (if \<not> isValid s then (False, w)
     else case net_listen net (m_sock s) backlog w of (ret, w) \<Rightarrow> (ret = 0, w))"

definition destroy_Socket :: "'w net \<Rightarrow> Socket \<Rightarrow> 'w \<Rightarrow> 'w" where
  "destroy_Socket net s w = snd (net_close net (m_sock s) w)"

section \<open>Sending and receiving\<close>

definition Socket_send :: "'w net \<Rightarrow> bytes \<Rightarrow> int \<Rightarrow> Socket \<Rightarrow> 'w \<Rightarrow> int \<times> 'w" where
  "Socket_send net buffer flags s w =
    (if m_isConnected s then net_send net (m_sock s) buffer flags w else (-1, w))"

definition Socket_send_iov :: "'w net \<Rightarrow> bytes list \<Rightarrow> int \<Rightarrow> Socket \<Rightarrow> 'w \<Rightarrow> int \<times> 'w" where
  "Socket_send_iov net buffers flags s w =
    (if m_isConnected s then net_sendmsg net (m_sock s) None buffers flags w else (-1, w))"

definition Socket_sendTo :: "'w net \<Rightarrow> bytes \<Rightarrow> Address \<Rightarrow> int \<Rightarrow> Socket \<Rightarrow> 'w \<Rightarrow> int \<times> 'w" where
  "Socket_sendTo net buffer to flags s w =
    (if m_isConnected s then net_sendto net (m_sock s) buffer flags (getAddr to) (getAddrLen to) w else (-1, w))"

definition Socket_sendTo_iov :: "'w net \<Rightarrow> bytes list \<Rightarrow> Address \<Rightarrow> int \<Rightarrow> Socket \<Rightarrow> 'w \<Rightarrow> int \<times> 'w" where
  "Socket_sendTo_iov net buffers to flags s w =
    (if m_isConnected s then net_sendmsg net (m_sock s) (Some (getAddr to, getAddrLen to)) buffers flags w
     else (-1, w))"

definition Socket_recv :: "'w net \<Rightarrow> nat \<Rightarrow> int \<Rightarrow> Socket \<Rightarrow> 'w \<Rightarrow> int \<times> bytes \<times> 'w" where
  "Socket_recv net len flags s w =
    (if m_isConnected s then net_recv net (m_sock s) len flags w else (-1, [], w))"

definition Socket_recv_iov :: "'w net \<Rightarrow> nat list \<Rightarrow> int \<Rightarrow> Socket \<Rightarrow> 'w \<Rightarrow> int \<times> bytes list \<times> 'w" where
  "Socket_recv_iov net lens flags s w =
    (if m_isConnected s then
       case net_recvmsg net (m_sock s) None lens flags w of (ret, bss, _, w) \<Rightarrow> (ret, bss, w)
     else (-1, [], w))"

definition Socket_recvFrom ::
  "'w net \<Rightarrow> nat \<Rightarrow> Address \<Rightarrow> int \<Rightarrow> Socket \<Rightarrow> 'w \<Rightarrow> int \<times> bytes \<times> Address \<times> 'w" where
  "Socket_recvFrom net len from flags s w =
    (if m_isConnected s then
       case net_recvfrom net (m_sock s) len flags (getAddrLen from) w of
         (ret, bs, a, w) \<Rightarrow> (ret, bs, store_addr a from, w)
     else (-1, [], from, w))"

definition Socket_recvFrom_iov ::
  "'w net \<Rightarrow> nat list \<Rightarrow> Address \<Rightarrow> int \<Rightarrow> Socket \<Rightarrow> 'w \<Rightarrow> int \<times> bytes list \<times> Address \<times> 'w" where
  "Socket_recvFrom_iov net lens from flags s w =
    (if m_isConnected s then
       case net_recvmsg net (m_sock s) (Some (getAddrLen from)) lens flags w of
         (ret, bss, a, w) \<Rightarrow> (ret, bss, store_addr a from, w)
     else (-1, [], from, w))"

section \<open>Cancelling\<close>

definition cancelRead ::
  "'k epoll_ctl \<Rightarrow> Socket \<Rightarrow> ('v, 'c, 'k) IOManager \<Rightarrow> (bool \<times> ('v, 'c, 'k) IOManager) option" where
  "cancelRead ctl s M = cancelEvent ctl (m_sock s) READ M"

definition cancelWrite ::
  "'k epoll_ctl \<Rightarrow> Socket \<Rightarrow> ('v, 'c, 'k) IOManager \<Rightarrow> (bool \<times> ('v, 'c, 'k) IOManager) option" where
  "cancelWrite ctl s M = cancelEvent ctl (m_sock s) WRITE M"

definition cancelAccept ::
  "'k epoll_ctl \<Rightarrow> Socket \<Rightarrow> ('v, 'c, 'k) IOManager \<Rightarrow> (bool \<times> ('v, 'c, 'k) IOManager) option" where
  "cancelAccept ctl s M = cancelEvent ctl (m_sock s) READ M"

definition Socket_cancelAll ::
  "'k epoll_ctl \<Rightarrow> Socket \<Rightarrow> ('v, 'c, 'k) IOManager \<Rightarrow> (bool \<times> ('v, 'c, 'k) IOManager) option" where
  "Socket_cancelAll ctl s M = cancelAll ctl (m_sock s) M"

section \<open>Printing\<close>

definition dec_int :: "int \<Rightarrow> string" where
  "dec_int i = (if i < 0 then ''-'' @ dec (nat (- i)) else dec (nat i))"

text \<open>\<open>None\<close> when the text of an address cannot be made.\<close>

definition address_part :: "string \<Rightarrow> Address option \<Rightarrow> string option" where
  "address_part label addr = (case addr of
      None \<Rightarrow> Some []
    | Some a \<Rightarrow> (case Address_toString a of Inl _ \<Rightarrow> None | Inr t \<Rightarrow> Some (label @ t)))"

definition Socket_dump :: "Socket \<Rightarrow> string option" where
  "Socket_dump s =
    (case (address_part '' local_address='' (m_localAddress s), address_part '' remote_address='' (m_remoteAddress s)) of
       (Some l, Some r) \<Rightarrow>
         Some (''[Socket sock='' @ dec_int (m_sock s) @ '' is_connected='' @ (if m_isConnected s then ''1'' else ''0'') @
           '' family='' @ dec_int (m_family s) @ '' type='' @ dec_int (m_type s) @ '' protocol='' @ dec_int (m_protocol s) @
           l @ r @ '']'')
     | _ \<Rightarrow> None)"


section \<open>The life of a socket\<close>

lemmas address_defs = getRemoteAddress_def getLocalAddress_def query_address_def Let_def

lemma get_address_keeps [simp]:
  "m_sock (snd (getRemoteAddress net s w)) = m_sock s" "m_sock (snd (getLocalAddress net s w)) = m_sock s"
  "m_isConnected (snd (getRemoteAddress net s w)) = m_isConnected s"
  "m_isConnected (snd (getLocalAddress net s w)) = m_isConnected s"
  "m_family (snd (getRemoteAddress net s w)) = m_family s" "m_family (snd (getLocalAddress net s w)) = m_family s"
  "m_remoteAddress (snd (getLocalAddress net s w)) = m_remoteAddress s"
  by (simp_all add: address_defs split: option.split prod.split)

lemma newSock_keeps [simp]:
  "m_isConnected (fst (newSock net s w)) = m_isConnected s" "m_family (fst (newSock net s w)) = m_family s"
  "m_remoteAddress (fst (newSock net s w)) = m_remoteAddress s"
  by (simp_all add: newSock_def Let_def split: prod.split)

lemma ensure_sock_keeps [simp]:
  "m_isConnected (fst (ensure_sock net s w)) = m_isConnected s" "m_family (fst (ensure_sock net s w)) = m_family s"
  "m_remoteAddress (fst (ensure_sock net s w)) = m_remoteAddress s"
  by (simp_all add: ensure_sock_def)

text \<open>Every object a program can hold, with the state of the rest of the program changing as it likes.\<close>

inductive socket_reachable :: "'w net \<Rightarrow> Socket \<Rightarrow> bool" for net where
  New: "socket_reachable net (new_Socket family type protocol)"
| Accept: "socket_reachable net s \<Longrightarrow> Socket_accept net s w = (Some c, w') \<Longrightarrow> socket_reachable net c"
| Bind: "socket_reachable net s \<Longrightarrow> Socket_bind net addr s w = (ok, s', w') \<Longrightarrow> socket_reachable net s'"
| Connect: "socket_reachable net s \<Longrightarrow> Socket_connect net addr ms s w = (ok, s', w') \<Longrightarrow> socket_reachable net s'"
| Close: "socket_reachable net s \<Longrightarrow> Socket_close net s w = (ok, s', w') \<Longrightarrow> socket_reachable net s'"
| Remote: "socket_reachable net s \<Longrightarrow> getRemoteAddress net s w = (a, s') \<Longrightarrow> socket_reachable net s'"
| Local: "socket_reachable net s \<Longrightarrow> getLocalAddress net s w = (a, s') \<Longrightarrow> socket_reachable net s'"

lemma Socket_close_closed:
  "Socket_close net s w = (ok, s', w') \<Longrightarrow> \<not> m_isConnected s' \<and> m_sock s' = -1 \<and> m_remoteAddress s' = m_remoteAddress s"
  by (auto simp: Socket_close_def Let_def split: if_split_asm)

lemma Socket_connect_cases:
  assumes "Socket_connect net addr ms s w = (ok, s', w')"
  shows "(ok \<longrightarrow> m_isConnected s' \<and> m_sock s' \<noteq> -1) \<and>
    (\<not> ok \<longrightarrow> \<not> m_isConnected s' \<and> m_sock s' = -1 \<or>
      m_isConnected s' = m_isConnected s \<and> (m_sock s' \<noteq> -1 \<or> m_sock s = -1)) \<and>
    (m_remoteAddress s \<noteq> None \<longrightarrow> m_remoteAddress s' = m_remoteAddress s)"
proof (cases "ensure_sock net s w")
  case (Pair s1 w1)
  have c: "m_isConnected s1 = m_isConnected s" "m_family s1 = m_family s" "m_remoteAddress s1 = m_remoteAddress s"
    using ensure_sock_keeps [of net s w] Pair by simp_all
  have v: "m_sock s1 \<noteq> -1 \<or> m_sock s = -1" using Pair by (auto simp: ensure_sock_def isValid_def split: if_split_asm)
  have r: "m_remoteAddress t \<noteq> None \<Longrightarrow> m_remoteAddress (snd (getRemoteAddress net t w)) = m_remoteAddress t" for t w
    by (auto simp: getRemoteAddress_def)
  show ?thesis
    using assms Pair c v
    by (auto simp: Socket_connect_def isValid_def Let_def r split: if_split_asm prod.split_asm
        dest!: Socket_close_closed)
qed

lemma Socket_bind_cases:
  assumes "Socket_bind net addr s w = (ok, s', w')"
  shows "m_isConnected s' = m_isConnected s \<and> (m_sock s' \<noteq> -1 \<or> m_sock s = -1) \<and> (ok \<longrightarrow> m_sock s' \<noteq> -1)"
proof (cases "ensure_sock net s w")
  case (Pair s1 w1)
  have "m_isConnected s1 = m_isConnected s" using ensure_sock_keeps [of net s w] Pair by simp
  moreover have "m_sock s1 \<noteq> -1 \<or> m_sock s = -1"
    using Pair by (auto simp: ensure_sock_def isValid_def split: if_split_asm)
  ultimately show ?thesis
    using assms Pair by (auto simp: Socket_bind_def isValid_def split: if_split_asm prod.split_asm)
qed

lemma socket_reachable_ok: "socket_reachable net s \<Longrightarrow> m_isConnected s \<longrightarrow> m_sock s \<noteq> -1"
proof (induction rule: socket_reachable.induct)
  case (Accept s w c w')
  then show ?case
    by (auto simp: Socket_accept_def Socket_init_def new_Socket_def Let_def
        split: if_split_asm prod.split_asm option.split_asm)
next
  case (Bind s addr w ok s' w')
  then show ?case using Socket_bind_cases [OF Bind.hyps(2)] by auto
next
  case (Connect s addr ms w ok s' w')
  then show ?case using Socket_connect_cases [OF Connect.hyps(2)] by auto
next
  case (Close s w ok s' w')
  then show ?case using Socket_close_closed [OF Close.hyps(2)] by simp
next
  case (Remote s w a s')
  then show ?case using get_address_keeps(1,3) [of net s w] by simp
next
  case (Local s w a s')
  then show ?case using get_address_keeps(2,4) [of net s w] by simp
qed (simp add: new_Socket_def)


text \<open>
  C32. The life of a socket: a connected socket has a descriptor; closing it leaves it unconnected and without
  one; \<^verbatim>\<open>connect\<close> on a socket that is not connected reports success exactly when the socket is connected
  afterwards; and on a socket that is not connected, nothing is sent or received and no system call made.
\<close>

theorem socket_lifecycle:
  assumes "socket_reachable net s"
  shows "(m_isConnected s \<longrightarrow> m_sock s \<noteq> -1) \<and>
    (case Socket_close net s w of (_, s', _) \<Rightarrow> \<not> m_isConnected s' \<and> m_sock s' = -1) \<and>
    (\<not> m_isConnected s \<longrightarrow>
       (case Socket_connect net addr ms s w of (ok, s', _) \<Rightarrow> ok \<longleftrightarrow> m_isConnected s') \<and>
       Socket_send net buffer flags s w = (-1, w) \<and> Socket_sendTo net buffer to flags s w = (-1, w) \<and>
       Socket_recv net len flags s w = (-1, [], w) \<and> Socket_recvFrom net len from flags s w = (-1, [], from, w))"
proof (intro conjI impI)
  show "m_isConnected s \<Longrightarrow> m_sock s \<noteq> -1" using socket_reachable_ok [OF assms] by simp
  show "case Socket_close net s w of (_, s', _) \<Rightarrow> \<not> m_isConnected s' \<and> m_sock s' = -1"
    using Socket_close_closed [of net s w] by (cases "Socket_close net s w") auto
  show "\<not> m_isConnected s \<Longrightarrow> case Socket_connect net addr ms s w of (ok, s', _) \<Rightarrow> ok \<longleftrightarrow> m_isConnected s'"
    using Socket_connect_cases [of net addr ms s w] by (cases "Socket_connect net addr ms s w") auto
qed (simp_all add: Socket_send_def Socket_sendTo_def Socket_recv_def Socket_recvFrom_def)

text \<open>A network in which every call succeeds and the descriptor is always 7.\<close>

definition sample_net :: "unit net" where
  "sample_net = \<lparr>net_socket = (\<lambda>_ _ _ w. (7, w)), net_bind = (\<lambda>_ _ _ w. (0, w)), net_connect = (\<lambda>_ _ _ w. (0, w)),
     net_connect_with_timeout = (\<lambda>_ _ _ _ w. (0, w)), net_listen = (\<lambda>_ _ w. (0, w)), net_accept = (\<lambda>_ w. (8, w)),
     net_close = (\<lambda>_ w. (0, w)), net_send = (\<lambda>_ bs _ w. (int (length bs), w)),
     net_sendto = (\<lambda>_ bs _ _ _ w. (int (length bs), w)), net_sendmsg = (\<lambda>_ _ bss _ w. (int (length (concat bss)), w)),
     net_recv = (\<lambda>_ _ _ w. (0, [], w)), net_recvfrom = (\<lambda>_ _ _ _ w. (0, [], [], w)),
     net_recvmsg = (\<lambda>_ _ _ _ w. (0, [], [], w)), net_getpeername = (\<lambda>_ n w. (0, [], n)),
     net_getsockname = (\<lambda>_ n w. (0, [], n)), net_setsockopt = (\<lambda>_ _ _ _ w. (0, w)),
     net_getsockopt = (\<lambda>_ _ _ w. (0, 0, w)), net_fd = (\<lambda>_ _. None)\<rparr>"

theorem socket_lifecycle_witness:
  "case Socket_connect sample_net (IPv4Address (new_IPv4Address 0 0)) (-1) CreateTCPSocket () of
     (ok, s', _) \<Rightarrow> ok \<longleftrightarrow> m_isConnected s'"
  using socket_lifecycle [OF socket_reachable.New [of sample_net "uint AF_INET" SOCK_STREAM 0],
      where w = "()" and addr = "IPv4Address (new_IPv4Address 0 0)" and ms = "-1"]
  by (simp add: CreateTCPSocket_def new_Socket_def)

text \<open>
  A datagram socket that is bound but not connected cannot be used: \<^verbatim>\<open>sendTo\<close> and \<^verbatim>\<open>recvFrom\<close> refuse to work on
  it although the system would let them.
\<close>

theorem bound_udp_unusable:
  assumes "Socket_bind net addr (CreateUDP addr) w = (True, s, w')"
  shows "m_sock s \<noteq> -1 \<and> Socket_sendTo net buffer to flags s w' = (-1, w') \<and>
    Socket_sendTo_iov net buffers to flags s w' = (-1, w') \<and>
    Socket_recvFrom net len from flags s w' = (-1, [], from, w') \<and>
    Socket_recvFrom_iov net lens from flags s w' = (-1, [], from, w')"
  using Socket_bind_cases [OF assms]
  by (simp add: CreateUDP_def new_Socket_def Socket_sendTo_def Socket_sendTo_iov_def Socket_recvFrom_def
      Socket_recvFrom_iov_def)

theorem bound_udp_unusable_witness:
  "case Socket_bind sample_net (IPv4Address (new_IPv4Address 0 0)) (CreateUDP (IPv4Address (new_IPv4Address 0 0))) () of
     (ok, s, w') \<Rightarrow> ok \<and> Socket_sendTo sample_net ''x'' (IPv4Address (new_IPv4Address 0 0)) 0 s w' = (-1, w')"
proof -
  let ?a = "IPv4Address (new_IPv4Address 0 0)"
  have "fst (Socket_bind sample_net ?a (CreateUDP ?a) ())" by code_simp
  then obtain s where s: "Socket_bind sample_net ?a (CreateUDP ?a) () = (True, s, ())"
    by (cases "Socket_bind sample_net ?a (CreateUDP ?a) ()") auto
  show ?thesis using bound_udp_unusable [OF s, of "''x''" ?a 0] by (simp add: s)
qed

section \<open>Further observations\<close>

text \<open>A socket that is closed and connected again still reports its first peer.\<close>

lemma stale_remote_address:
  assumes "m_remoteAddress s = Some a" "Socket_close net s w = (b, s1, w1)" "Socket_connect net addr ms s1 w1 = (True, s2, w2)"
  shows "fst (getRemoteAddress net s2 w) = a"
  using Socket_close_closed [OF assms(2)] Socket_connect_cases [OF assms(3)] assms(1)
  by (auto simp: getRemoteAddress_def)

text \<open>The timeout for sending is never set, and that for receiving never read.\<close>

lemma timeouts_mixed_up:
  "setSendTimeout net val s w = setRecvTimeout net val s w" "getRecvTimeout net s w = getSendTimeout net s w"
  by (simp_all add: setSendTimeout_def setRecvTimeout_def getRecvTimeout_def getSendTimeout_def)

end
