(* ===== verification/Streams.thy ===== *)
theory Streams
  imports Socket ByteArrayProps
begin

text \<open>
  \<^verbatim>\<open>stream.cpp\<close>, \<^verbatim>\<open>socket_stream.cpp\<close> and their headers: reading and writing a fixed number of bytes, and
  streams over a socket.  The loops of \<^verbatim>\<open>readFixSize\<close> and \<^verbatim>\<open>writeFixSize\<close> keep the result of \<^verbatim>\<open>read\<close> and \<^verbatim>\<open>write\<close> in a
  \<^verbatim>\<open>size_t\<close>; it is a 64-bit word here.  They may run forever, so they have fuel.  \<open>Fix_bad\<close> is an access
  outside of the buffer or an exception of the byte array.
\<close>

section \<open>Fixed sizes\<close>

datatype 'x fix_result = Fix_return int 'x | Fix_bad | Fix_running

type_synonym 'w reader = "nat \<Rightarrow> 'w \<Rightarrow> int \<times> bytes \<times> 'w"
type_synonym 'w writer = "bytes \<Rightarrow> 'w \<Rightarrow> int \<times> 'w"

fun readFix_loop :: "nat \<Rightarrow> 'w reader \<Rightarrow> nat \<Rightarrow> u64 \<Rightarrow> u64 \<Rightarrow> bytes \<Rightarrow> 'w \<Rightarrow> (bytes \<times> 'w) fix_result" where
  "readFix_loop fuel rd len_total offset left buffer w =
    (if left = 0 then Fix_return (int32 (int len_total)) (buffer, w)
     else case fuel of
         0 \<Rightarrow> Fix_running
       | Suc n \<Rightarrow>
           (case rd (unat left) w of (ret, bs, w1) \<Rightarrow>
              let len = word_of_int ret :: u64;
                  buffer1 = take (unat offset) buffer @ bs @ drop (unat offset + length bs) buffer
              in if bs \<noteq> [] \<and> unat offset + length bs > length buffer then Fix_bad
                 else if len = 0 then Fix_return 0 (buffer1, w1)
                 else readFix_loop n rd len_total (offset + len) (left - len) buffer1 w1))"

definition readFixSize :: "nat \<Rightarrow> 'w reader \<Rightarrow> bytes \<Rightarrow> nat \<Rightarrow> 'w \<Rightarrow> (bytes \<times> 'w) fix_result" where
  "readFixSize fuel rd buffer len w = readFix_loop fuel rd len 0 (of_nat len) buffer w"

fun writeFix_loop :: "nat \<Rightarrow> 'w writer \<Rightarrow> bytes \<Rightarrow> u64 \<Rightarrow> u64 \<Rightarrow> 'w \<Rightarrow> 'w fix_result" where
  "writeFix_loop fuel wr buffer offset left w =
    (if left = 0 then Fix_return (int32 (int (length buffer))) w
     else case fuel of
         0 \<Rightarrow> Fix_running
       | Suc n \<Rightarrow>
           if unat offset + unat left > length buffer then Fix_bad
           else
             (case wr (slice_of (unat offset) (unat left) buffer) w of (ret, w1) \<Rightarrow>
                let len = word_of_int ret :: u64 in
                if len = 0 then Fix_return 0 w1
                else writeFix_loop n wr buffer (offset + len) (left - len) w1))"

declare readFix_loop.simps [simp del] writeFix_loop.simps [simp del]

definition writeFixSize :: "nat \<Rightarrow> 'w writer \<Rightarrow> bytes \<Rightarrow> 'w \<Rightarrow> 'w fix_result" where
  "writeFixSize fuel wr buffer w = writeFix_loop fuel wr buffer 0 (of_nat (length buffer)) w"

text \<open>The versions for a byte array: the operation on the array keeps its own position.\<close>

type_synonym 'w ba_op = "nat \<Rightarrow> byte_array \<Rightarrow> 'w \<Rightarrow> ba_error + int \<times> byte_array \<times> 'w"

fun fixSize_ba_loop ::
  "nat \<Rightarrow> 'w ba_op \<Rightarrow> nat \<Rightarrow> u64 \<Rightarrow> byte_array \<Rightarrow> 'w \<Rightarrow> (byte_array \<times> 'w) fix_result" where
  "fixSize_ba_loop fuel f len_total left ba w =
    (if left = 0 then Fix_return (int32 (int len_total)) (ba, w)
     else case fuel of
         0 \<Rightarrow> Fix_running
       | Suc n \<Rightarrow>
           (case f (unat left) ba w of
              Inl e \<Rightarrow> Fix_bad
            | Inr (ret, ba1, w1) \<Rightarrow>
                let len = word_of_int ret :: u64 in
                if len = 0 then Fix_return 0 (ba1, w1)
                else fixSize_ba_loop n f len_total (left - len) ba1 w1))"

declare fixSize_ba_loop.simps [simp del]

definition readFixSize_ba :: "nat \<Rightarrow> 'w ba_op \<Rightarrow> byte_array \<Rightarrow> nat \<Rightarrow> 'w \<Rightarrow> (byte_array \<times> 'w) fix_result" where
  "readFixSize_ba fuel rd ba len w = fixSize_ba_loop fuel rd len (of_nat len) ba w"

definition writeFixSize_ba :: "nat \<Rightarrow> 'w ba_op \<Rightarrow> byte_array \<Rightarrow> nat \<Rightarrow> 'w \<Rightarrow> (byte_array \<times> 'w) fix_result" where
  "writeFixSize_ba fuel wr ba len w = fixSize_ba_loop fuel wr len (of_nat len) ba w"

section \<open>Streams over a socket\<close>

record SocketStream =
  m_socket :: "Socket option"
  m_owner :: bool

definition stream_connected :: "SocketStream \<Rightarrow> bool" where
  "stream_connected S \<longleftrightarrow> (case m_socket S of None \<Rightarrow> False | Some s \<Rightarrow> m_isConnected s)"

definition stream_close :: "'w net \<Rightarrow> SocketStream \<Rightarrow> 'w \<Rightarrow> SocketStream \<times> 'w" where
  "stream_close net S w = (case m_socket S of
      None \<Rightarrow> (S, w)
    | Some s \<Rightarrow> (case Socket_close net s w of (_, s', w') \<Rightarrow> (S\<lparr>m_socket := Some s'\<rparr>, w')))"

definition destroy_SocketStream :: "'w net \<Rightarrow> SocketStream \<Rightarrow> 'w \<Rightarrow> SocketStream \<times> 'w" where
  "destroy_SocketStream net S w = (if m_owner S \<and> m_socket S \<noteq> None then stream_close net S w else (S, w))"

definition stream_read :: "'w net \<Rightarrow> SocketStream \<Rightarrow> 'w reader" where
  "stream_read net S len w =
    (if \<not> stream_connected S then (-1, [], w) else Socket_recv net len 0 (the (m_socket S)) w)"

definition stream_write :: "'w net \<Rightarrow> SocketStream \<Rightarrow> 'w writer" where
  "stream_write net S buffer w =
    (if \<not> stream_connected S then (-1, w) else Socket_send net buffer 0 (the (m_socket S)) w)"

text \<open>Bytes that the system stores at the places an \<^verbatim>\<open>iovec\<close> array describes.\<close>

fun store_segments :: "(nat \<times> nat \<times> nat) list \<Rightarrow> bytes list \<Rightarrow> byte_array \<Rightarrow> byte_array" where
  "store_segments ((c, npos, n) # sgs) (bs # bss) b =
    store_segments sgs bss
      (b\<lparr>m_nodes := (m_nodes b)[c := take npos (m_nodes b ! c) @ map (\<lambda>ch. Some (of_char ch)) (take n bs) @
         drop (npos + length (take n bs)) (m_nodes b ! c)]\<rparr>)"
| "store_segments _ _ b = b"

definition stream_read_ba :: "'w net \<Rightarrow> SocketStream \<Rightarrow> 'w ba_op" where
  "stream_read_ba net S len ba w =
    (if \<not> stream_connected S then Inr (-1, ba, w)
     else case getWriteBuffers len ba of
         Inl e \<Rightarrow> Inl e
       | Inr (sgs, _, ba1) \<Rightarrow>
           (case Socket_recv_iov net (map (\<lambda>(_, _, n). n) sgs) 0 (the (m_socket S)) w of (ret, bss, w1) \<Rightarrow>
              let ba2 = store_segments sgs bss ba1 in
              if ret > 0 then
                (case setPosition (m_position ba2 + nat ret) ba2 of Inl e \<Rightarrow> Inl e | Inr ba3 \<Rightarrow> Inr (ret, ba3, w1))
              else Inr (ret, ba2, w1)))"

text \<open>The bytes of a byte array in segments; an unwritten byte has some value or other, here zero.\<close>

definition segment_bytes :: "byte_array \<Rightarrow> nat \<times> nat \<times> nat \<Rightarrow> bytes" where
  "segment_bytes b sg = map (\<lambda>c. case c of None \<Rightarrow> NUL | Some v \<Rightarrow> char_of (unat v)) (segment_cells b sg)"

definition stream_write_ba :: "'w net \<Rightarrow> SocketStream \<Rightarrow> 'w ba_op" where
  "stream_write_ba net S len ba w =
    (if \<not> stream_connected S then Inr (-1, ba, w)
     else case getReadBuffers len ba of
         Inl e \<Rightarrow> Inl e
       | Inr (sgs, _) \<Rightarrow>
           (case Socket_send_iov net (map (segment_bytes ba) sgs) 0 (the (m_socket S)) w of (ret, w1) \<Rightarrow>
              if ret > 0 then
                (case setPosition (m_position ba + nat ret) ba of Inl e \<Rightarrow> Inl e | Inr ba2 \<Rightarrow> Inr (ret, ba2, w1))
              else Inr (ret, ba, w1)))"

section \<open>Properties\<close>

text \<open>
  A writer that takes at least one byte of what it is given and appends what it takes to what has been
  sent: \<^verbatim>\<open>send\<close> on a connection that does not fail.
\<close>

definition accepting :: "'w writer \<Rightarrow> ('w \<Rightarrow> bytes) \<Rightarrow> bool" where
  "accepting wr sent \<longleftrightarrow> (\<forall>bs w. bs \<noteq> [] \<longrightarrow>
     (case wr bs w of (n, w') \<Rightarrow> 1 \<le> n \<and> n \<le> int (length bs) \<and> sent w' = sent w @ take (nat n) bs))"

lemma int32_small: "- (2 ^ 31) \<le> i \<Longrightarrow> i < 2 ^ 31 \<Longrightarrow> int32 i = i"
  unfolding int32_def by (simp add: sint_sbintrunc' signed_take_bit_int_eq_self)

text \<open>
  The loop with a writer that takes at least one byte: it returns, and every relation between the state
  before and after that is kept by one call, and composes, holds for the whole.
\<close>

lemma writeFix_loop_returns:
  assumes step: "\<And>bs w. bs \<noteq> [] \<Longrightarrow>
      (case wr bs w of (n, w') \<Rightarrow> 1 \<le> n \<and> n \<le> int (length bs) \<and> R w (take (nat n) bs) w')"
    and refl: "\<And>w. R w [] w" and trans: "\<And>w xs w1 ys w2. R w xs w1 \<Longrightarrow> R w1 ys w2 \<Longrightarrow> R w (xs @ ys) w2"
    and len_buffer: "length buffer < 2 ^ 63"
  shows "off \<le> length buffer \<Longrightarrow> length buffer - off \<le> fuel \<Longrightarrow>
    \<exists>w'. writeFix_loop fuel wr buffer (of_nat off) (of_nat (length buffer - off)) w =
      Fix_return (int32 (int (length buffer))) w' \<and> R w (drop off buffer) w'"
proof (induction fuel arbitrary: off w)
  case 0
  then show ?case using refl by (simp add: writeFix_loop.simps)
next
  case (Suc fuel)
  have u: "unat (of_nat n :: u64) = n" if "n \<le> length buffer" for n
    using that len_buffer by (simp add: unat_of_nat)
  show ?case
  proof (cases "off = length buffer")
    case True
    then show ?thesis using refl by (simp add: writeFix_loop.simps)
  next
    case False
    let ?left = "length buffer - off"
    have left: "0 < ?left" "?left \<le> length buffer" using False Suc.prems(1) by auto
    have nz: "(of_nat ?left :: u64) \<noteq> 0" using u [OF left(2)] left(1) by (metis unat_0 less_irrefl)
    have sl: "slice_of off ?left buffer = drop off buffer" by (simp add: slice_of_def)
    obtain n w1 where wr: "wr (drop off buffer) w = (n, w1)" by fastforce
    have n: "1 \<le> n" "n \<le> int ?left" "R w (take (nat n) (drop off buffer)) w1"
      using step [of "drop off buffer" w] wr False Suc.prems(1) by auto
    have len: "(word_of_int n :: u64) = of_nat (nat n)" using n(1) by (metis int_nat_eq of_int_of_nat_eq zero_le_one order_trans)
    have b: "off + nat n \<le> length buffer" "length buffer - (off + nat n) \<le> fuel"
      using Suc.prems n(1,2) by linarith+
    have "unat (of_nat (nat n) :: u64) = nat n" using n(2) left(2) by (intro u) linarith
    then have "(of_nat (nat n) :: u64) \<noteq> 0" using n(1) by (intro notI) simp
    moreover have "(of_nat off + of_nat (nat n) :: u64) = of_nat (off + nat n)"
      "(of_nat ?left - of_nat (nat n) :: u64) = of_nat (length buffer - (off + nat n))"
      using n by (simp_all add: of_nat_diff)
    moreover obtain w' where "writeFix_loop fuel wr buffer (of_nat (off + nat n)) (of_nat (length buffer - (off + nat n))) w1 =
        Fix_return (int32 (int (length buffer))) w'" "R w1 (drop (off + nat n) buffer) w'"
      using Suc.IH [OF b, of w1] by blast
    moreover have "take (nat n) (drop off buffer) @ drop (off + nat n) buffer = drop off buffer"
      by (metis append_take_drop_id drop_drop add.commute)
    then have "R w (drop off buffer) w'" using trans [OF n(3) \<open>R w1 _ w'\<close>] by simp
    ultimately show ?thesis
      using u [OF Suc.prems(1)] u [OF left(2)] Suc.prems(1) nz
      by (subst writeFix_loop.simps) (auto simp: sl wr len Let_def)
  qed
qed

text \<open>
  \<^verbatim>\<open>writeFixSize\<close> sends everything: on a connection that takes at least one byte of what it is given it
  returns after at most as many calls of \<^verbatim>\<open>write\<close> as there are bytes, reports their number, and exactly these
  bytes have been sent, in order.
\<close>

theorem writeFixSize_sends_all:
  assumes "accepting wr sent" "length buffer < 2 ^ 31"
  shows "\<exists>w'. writeFixSize (length buffer) wr buffer w = Fix_return (int (length buffer)) w' \<and> sent w' = sent w @ buffer"
proof -
  have "int32 (int (length buffer)) = int (length buffer)"
    using assms(2) by (intro int32_small) auto
  moreover have len: "length buffer < 2 ^ 63" using assms(2) by simp
  have step: "case wr bs w of (n, w') \<Rightarrow> 1 \<le> n \<and> n \<le> int (length bs) \<and> sent w' = sent w @ take (nat n) bs"
    if "bs \<noteq> []" for bs w
    using assms(1) that by (simp add: accepting_def)
  ultimately show ?thesis
    using writeFix_loop_returns [where R = "\<lambda>w xs w'. sent w' = sent w @ xs", OF step _ _ len, of 0 "length buffer" w]
    by (simp add: writeFixSize_def)
qed

text \<open>A connection that takes at most two bytes at a time.\<close>

definition slow_writer :: "bytes writer" where
  "slow_writer bs w = (int (min 2 (length bs)), w @ take 2 bs)"

lemma slow_writer_accepting: "accepting slow_writer (\<lambda>w. w)"
  by (auto simp: accepting_def slow_writer_def min_def neq_Nil_conv)

theorem writeFixSize_sends_all_witness:
  "\<exists>w'. writeFixSize (length ''hello'') slow_writer ''hello'' [] = Fix_return (int (length ''hello'')) w' \<and>
     w' = [] @ ''hello''"
  by (rule writeFixSize_sends_all [OF slow_writer_accepting]) simp

text \<open>
  A failing \<^verbatim>\<open>write\<close> goes unnoticed: when it returns -1 after some bytes have been sent, \<^verbatim>\<open>writeFixSize\<close> goes
  back one byte and sends the last byte once more; when it fails at once, it goes on in front of the buffer.
\<close>

theorem write_error_unnoticed:
  assumes "k < length buffer" "length buffer < 2 ^ 63" "wr (drop k buffer) w = (-1, w1)"
  shows "writeFix_loop (Suc (Suc n)) wr buffer (of_nat k) (of_nat (length buffer - k)) w =
    (if k = 0 then Fix_bad
     else writeFix_loop (Suc n) wr buffer (of_nat (k - 1)) (of_nat (length buffer - (k - 1))) w1)"
proof -
  have u: "unat (of_nat m :: u64) = m" if "m \<le> length buffer" for m
    using that assms(2) by (simp add: unat_of_nat)
  have left: "unat (of_nat (length buffer - k) :: u64) = length buffer - k" "unat (of_nat k :: u64) = k"
    using u [OF diff_le_self, of k] u [of k] assms(1) by simp_all
  then have nz: "(of_nat (length buffer - k) :: u64) \<noteq> 0" using assms(1) by (intro notI) simp
  have step: "writeFix_loop (Suc m) wr buffer (of_nat k) (of_nat (length buffer - k)) w =
      writeFix_loop m wr buffer (of_nat k - 1) (of_nat (length buffer - k) + 1) w1" for m
    using assms(1,3) left nz by (subst writeFix_loop.simps) (simp add: slice_of_def Let_def)
  show ?thesis
  proof (cases "k = 0")
    case True
    have "unat (of_nat (length buffer) + 1 :: u64) = length buffer + 1"
      using assms(2) u [of "length buffer"] by (simp add: unat_word_ariths)
    moreover from this have "(of_nat (length buffer) + 1 :: u64) \<noteq> 0" by (intro notI) simp
    moreover have "unat (- 1 :: u64) = 2 ^ 64 - 1" by (simp add: unsigned_minus_1_eq_mask mask_eq_exp_minus_1)
    ultimately have "writeFix_loop (Suc n) wr buffer (- 1) (of_nat (length buffer) + 1) w1 = Fix_bad"
      using assms(2) by (subst writeFix_loop.simps) simp
    with True show ?thesis using step [of "Suc n"] by simp
  next
    case False
    then have "(of_nat k - 1 :: u64) = of_nat (k - 1)"
      "(of_nat (length buffer - k) + 1 :: u64) = of_nat (length buffer - (k - 1))"
      using assms(1) by (simp_all add: of_nat_diff)
    with False show ?thesis using step [of "Suc n"] by simp
  qed
qed

text \<open>A connection that takes one byte, fails once and then takes everything.\<close>

definition hiccup_writer :: "(nat \<times> bytes) writer" where
  "hiccup_writer bs w = (case w of (n, sent) \<Rightarrow>
     if n = 0 then (1, 1, sent @ take 1 bs) else if n = 1 then (-1, 2, sent) else (int (length bs), n, sent @ bs))"

theorem write_error_unnoticed_witness:
  "writeFixSize 9 hiccup_writer ''abc'' (0, []) = Fix_return 3 (2, ''aabc'')"
proof -
  have "hiccup_writer (drop 1 ''abc'') (1, ''a'') = (-1, 2, ''a'')" by (simp add: hiccup_writer_def)
  from write_error_unnoticed [where k = 1 and buffer = "''abc''" and n = 6 and wr = hiccup_writer
      and w = "(1, ''a'')" and ?w1.0 = "(2, ''a'')", OF _ _ this]
  have "writeFix_loop 8 hiccup_writer ''abc'' 1 2 (1, ''a'') = writeFix_loop 7 hiccup_writer ''abc'' 0 3 (2, ''a'')"
    by simp
  moreover have "writeFix_loop 7 hiccup_writer ''abc'' 0 3 (2, ''a'') = Fix_return 3 (2, ''aabc'')"
    by code_simp
  moreover have "writeFixSize 9 hiccup_writer ''abc'' (0, []) = writeFix_loop 8 hiccup_writer ''abc'' 1 2 (1, ''a'')"
    by code_simp
  ultimately show ?thesis by simp
qed

end
