(* ===== verification/Servlet.thy ===== *)
theory Servlet
  imports Http
begin

text \<open>
  \<^verbatim>\<open>http/http_servlet.cpp\<close> and \<^verbatim>\<open>http/http_servlet.h\<close>: the servlets and their dispatcher.  A servlet is a
  callback, the servlet for unknown paths, or an object of a class a program derives from \<^verbatim>\<open>Servlet\<close>, which
  is its name and what its \<^verbatim>\<open>handle\<close> does.  A handler gets the request, the response and the state of the
  session and returns the response and that state changed.  \<^verbatim>\<open>fnmatch\<close> is an argument.
\<close>

section \<open>Servlets and creators\<close>

type_synonym ('m, 's) callback = "'m HttpRequest \<Rightarrow> 'm HttpResponse \<Rightarrow> 's \<Rightarrow> int \<times> 'm HttpResponse \<times> 's"

datatype ('m, 's) Servlet =
    FunctionServlet "('m, 's) callback"
  | NotFoundServlet string string
  | UserServlet string "('m, 's) callback"

text \<open>\<^verbatim>\<open>IServletCreator\<close>: the servlet that \<^verbatim>\<open>get\<close> returns, and the name.\<close>

record 'x IServletCreator =
  creator_get :: 'x
  creator_name :: string

definition servlet_name :: "('m, 's) Servlet \<Rightarrow> string" where
  "servlet_name s = (case s of
      FunctionServlet _ \<Rightarrow> ''FunctionServlet''
    | NotFoundServlet _ _ \<Rightarrow> ''NotFoundServlet''
    | UserServlet name _ \<Rightarrow> name)"

definition HoldServletCreator :: "('x \<Rightarrow> string) \<Rightarrow> 'x \<Rightarrow> 'x IServletCreator" where
  "HoldServletCreator name s = \<lparr>creator_get = s, creator_name = name s\<rparr>"

definition new_NotFoundServlet :: "string \<Rightarrow> ('m, 's) Servlet" where
  "new_NotFoundServlet name = NotFoundServlet name
    (''<html><head><title>404 Not Found</title></head><body><center><h1>404 Not Found</h1></center><hr><center>'' @
     name @ ''</center></body></html>'')"

section \<open>The dispatcher\<close>

record 'x ServletDispatch =
  datas :: "string \<rightharpoonup> 'x IServletCreator"
  globs :: "(string \<times> 'x IServletCreator) list"
  default_servlet :: "'x option"

definition new_ServletDispatch :: "('m, 's) Servlet ServletDispatch" where
  "new_ServletDispatch =
    \<lparr>datas = Map.empty, globs = [], default_servlet = Some (new_NotFoundServlet ''sylar/1.0'')\<rparr>"

definition setDefault :: "'x option \<Rightarrow> 'x ServletDispatch \<Rightarrow> 'x ServletDispatch" where
  "setDefault val D = D\<lparr>default_servlet := val\<rparr>"

definition addServletCreator :: "string \<Rightarrow> 'x IServletCreator \<Rightarrow> 'x ServletDispatch \<Rightarrow> 'x ServletDispatch" where
  "addServletCreator uri creator D = D\<lparr>datas := (datas D)(uri \<mapsto> creator)\<rparr>"

definition addServlet ::
  "string \<Rightarrow> ('m, 's) Servlet \<Rightarrow> ('m, 's) Servlet ServletDispatch \<Rightarrow> ('m, 's) Servlet ServletDispatch" where
  "addServlet uri slt D = D\<lparr>datas := (datas D)(uri \<mapsto> HoldServletCreator servlet_name slt)\<rparr>"

definition addServlet_cb ::
  "string \<Rightarrow> ('m, 's) callback \<Rightarrow> ('m, 's) Servlet ServletDispatch \<Rightarrow> ('m, 's) Servlet ServletDispatch" where
  "addServlet_cb uri cb D =
    D\<lparr>datas := (datas D)(uri \<mapsto> HoldServletCreator servlet_name (FunctionServlet cb))\<rparr>"

text \<open>The loop that erases the first pattern equal to \<open>uri\<close>.\<close>

primrec erase_glob :: "string \<Rightarrow> (string \<times> 'c) list \<Rightarrow> (string \<times> 'c) list" where
  "erase_glob uri [] = []"
| "erase_glob uri (it # its) = (if fst it = uri then its else it # erase_glob uri its)"

definition addGlobServletCreator ::
  "string \<Rightarrow> 'x IServletCreator \<Rightarrow> 'x ServletDispatch \<Rightarrow> 'x ServletDispatch" where
  "addGlobServletCreator uri creator D = D\<lparr>globs := erase_glob uri (globs D) @ [(uri, creator)]\<rparr>"

definition addGlobServlet ::
  "string \<Rightarrow> ('m, 's) Servlet \<Rightarrow> ('m, 's) Servlet ServletDispatch \<Rightarrow> ('m, 's) Servlet ServletDispatch" where
  "addGlobServlet uri slt D =
    D\<lparr>globs := erase_glob uri (globs D) @ [(uri, HoldServletCreator servlet_name slt)]\<rparr>"

definition addGlobServlet_cb ::
  "string \<Rightarrow> ('m, 's) callback \<Rightarrow> ('m, 's) Servlet ServletDispatch \<Rightarrow> ('m, 's) Servlet ServletDispatch" where
  "addGlobServlet_cb uri cb D = addGlobServlet uri (FunctionServlet cb) D"

definition delServlet :: "string \<Rightarrow> 'x ServletDispatch \<Rightarrow> 'x ServletDispatch" where
  "delServlet uri D = D\<lparr>datas := (datas D)(uri := None)\<rparr>"

definition delGlobServlet :: "string \<Rightarrow> 'x ServletDispatch \<Rightarrow> 'x ServletDispatch" where
  "delGlobServlet uri D = D\<lparr>globs := erase_glob uri (globs D)\<rparr>"

definition getServlet :: "string \<Rightarrow> 'x ServletDispatch \<Rightarrow> 'x option" where
  "getServlet uri D = map_option creator_get (datas D uri)"

primrec find_glob :: "(string \<Rightarrow> bool) \<Rightarrow> (string \<times> 'x IServletCreator) list \<Rightarrow> 'x option" where
  "find_glob p [] = None"
| "find_glob p (it # its) = (if p (fst it) then Some (creator_get (snd it)) else find_glob p its)"

definition getGlobServlet :: "string \<Rightarrow> 'x ServletDispatch \<Rightarrow> 'x option" where
  "getGlobServlet uri D = find_glob (\<lambda>k. k = uri) (globs D)"

definition getMatchedServlet ::
  "(string \<Rightarrow> string \<Rightarrow> int) \<Rightarrow> string \<Rightarrow> 'x ServletDispatch \<Rightarrow> 'x option" where
  "getMatchedServlet fnmatch uri D =
    (case datas D uri of
       Some c \<Rightarrow> Some (creator_get c)
     | None \<Rightarrow>
         (case find_glob (\<lambda>k. fnmatch (c_str k) (c_str uri) = 0) (globs D) of
            Some s \<Rightarrow> Some s
          | None \<Rightarrow> default_servlet D))"

definition listAllServletCreator ::
  "'x ServletDispatch \<Rightarrow> (string \<rightharpoonup> 'x IServletCreator) \<Rightarrow> (string \<rightharpoonup> 'x IServletCreator)" where
  "listAllServletCreator D infos = infos ++ datas D"

definition listAllGlobServletCreator ::
  "'x ServletDispatch \<Rightarrow> (string \<rightharpoonup> 'x IServletCreator) \<Rightarrow> (string \<rightharpoonup> 'x IServletCreator)" where
  "listAllGlobServletCreator D infos = foldl (\<lambda>m (k, c). m(k \<mapsto> c)) infos (globs D)"

section \<open>Handling a request\<close>

definition HTTP_NOT_FOUND :: HttpStatus where "HTTP_NOT_FOUND = 404"

definition NotFound_handle :: "'m map_ops \<Rightarrow> string \<Rightarrow> 'm HttpResponse \<Rightarrow> 'm HttpResponse" where
  "NotFound_handle ops content response =
    (let r1 = response\<lparr>rsp_status := HTTP_NOT_FOUND\<rparr>;
         r2 = rsp_setHeader ops ''Server'' ''sylar/1.0.0'' r1;
         r3 = rsp_setHeader ops ''Content-Type'' ''text/html'' r2
     in r3\<lparr>rsp_body := content\<rparr>)"

definition servlet_handle ::
  "'m map_ops \<Rightarrow> ('m, 's) Servlet \<Rightarrow> 'm HttpRequest \<Rightarrow> 'm HttpResponse \<Rightarrow> 's \<Rightarrow> int \<times> 'm HttpResponse \<times> 's" where
  "servlet_handle ops slt request response session = (case slt of
      FunctionServlet cb \<Rightarrow> cb request response session
    | NotFoundServlet name content \<Rightarrow> (0, NotFound_handle ops content response, session)
    | UserServlet name handle \<Rightarrow> handle request response session)"

definition ServletDispatch_handle ::
  "'m map_ops \<Rightarrow> (string \<Rightarrow> string \<Rightarrow> int) \<Rightarrow> ('m, 's) Servlet ServletDispatch
   \<Rightarrow> 'm HttpRequest \<Rightarrow> 'm HttpResponse \<Rightarrow> 's \<Rightarrow> int \<times> 'm HttpResponse \<times> 's" where
  "ServletDispatch_handle ops fnmatch D request response session =
    (case getMatchedServlet fnmatch (req_path request) D of
       None \<Rightarrow> (0, response, session)
     | Some slt \<Rightarrow> (0, snd (servlet_handle ops slt request response session)))"


section \<open>Registries\<close>

text \<open>
  The contract that the table of exact paths and the list of patterns share: the last registration under a
  key counts, and registrations under other keys do not matter.  \<open>val\<close> is what a creator gives.
\<close>

datatype 'c reg = Add string 'c | Del string

primrec reg_apply :: "(string \<Rightarrow> 'c \<Rightarrow> 'd \<Rightarrow> 'd) \<Rightarrow> (string \<Rightarrow> 'd \<Rightarrow> 'd) \<Rightarrow> 'c reg \<Rightarrow> 'd \<Rightarrow> 'd" where
  "reg_apply add del (Add k c) = add k c"
| "reg_apply add del (Del k) = del k"

primrec reg_step :: "string \<Rightarrow> 'c reg \<Rightarrow> 'c option \<Rightarrow> 'c option" where
  "reg_step key (Add k c) v = (if k = key then Some c else v)"
| "reg_step key (Del k) v = (if k = key then None else v)"

definition last_reg :: "string \<Rightarrow> 'c reg list \<Rightarrow> 'c option" where
  "last_reg key rs = fold (reg_step key) rs None"

locale registry =
  fixes add :: "string \<Rightarrow> 'c \<Rightarrow> 'd \<Rightarrow> 'd" and del :: "string \<Rightarrow> 'd \<Rightarrow> 'd"
    and get :: "string \<Rightarrow> 'd \<Rightarrow> 'v option" and val :: "'c \<Rightarrow> 'v" and ok :: "'d \<Rightarrow> bool"
  assumes add_ok: "ok d \<Longrightarrow> ok (add k c d)" and del_ok: "ok d \<Longrightarrow> ok (del k d)"
    and get_add: "ok d \<Longrightarrow> get key (add k c d) = (if k = key then Some (val c) else get key d)"
    and get_del: "ok d \<Longrightarrow> get key (del k d) = (if k = key then None else get key d)"
begin

lemma apply_ok: "ok d \<Longrightarrow> ok (reg_apply add del r d)"
  by (cases r) (simp_all add: add_ok del_ok)

lemma get_apply:
  "ok d \<Longrightarrow> get key d = map_option val v \<Longrightarrow> get key (reg_apply add del r d) = map_option val (reg_step key r v)"
  by (cases r) (simp_all add: get_add get_del)

text \<open>Operations that neither change what is found nor break the invariant may come in between.\<close>

lemma get_interleaved:
  assumes "ok d" "get key d = map_option val v"
    and "\<And>o' d. ok d \<Longrightarrow> ok (other o' d)" "\<And>o' d. get key (other o' d) = get key d"
  shows "ok (fold (case_sum (reg_apply add del) other) ops d) \<and>
    get key (fold (case_sum (reg_apply add del) other) ops d) =
      map_option val (fold (reg_step key) (concat (map (case_sum (\<lambda>r. [r]) (\<lambda>_. [])) ops)) v)"
  using assms(1,2)
proof (induction ops arbitrary: d v)
  case (Cons x ops)
  show ?case
  proof (cases x)
    case (Inl r)
    with Cons.IH [OF apply_ok [OF Cons.prems(1)] get_apply [OF Cons.prems]] show ?thesis by simp
  next
    case (Inr r)
    have "get key (other r d) = map_option val v" using assms(4) Cons.prems(2) by simp
    with Cons.IH [OF assms(3) [OF Cons.prems(1)]] Inr show ?thesis by simp
  qed
qed simp

end

interpretation exact: registry addServletCreator delServlet getServlet creator_get "\<lambda>_. True"
  by unfold_locales (simp_all add: addServletCreator_def delServlet_def getServlet_def)

definition globs_ok :: "'x ServletDispatch \<Rightarrow> bool" where
  "globs_ok D \<longleftrightarrow> distinct (map fst (globs D))"

lemma erase_glob_filter: "distinct (map fst gs) \<Longrightarrow> erase_glob uri gs = filter (\<lambda>g. fst g \<noteq> uri) gs"
proof (induction gs)
  case (Cons g gs)
  show ?case
  proof (cases "fst g = uri")
    case True
    with Cons.prems have "fst h \<noteq> uri" if "h \<in> set gs" for h using that by (auto simp: rev_image_eqI)
    then have "filter (\<lambda>h. fst h \<noteq> uri) gs = gs" by (simp add: filter_True)
    with True show ?thesis by simp
  qed (use Cons in simp)
qed simp

lemma find_glob_append: "find_glob p (xs @ ys) = (case find_glob p xs of None \<Rightarrow> find_glob p ys | Some s \<Rightarrow> Some s)"
  by (induction xs) auto

lemma find_glob_filter:
  "find_glob (\<lambda>k. k = uri) (filter (\<lambda>g. fst g \<noteq> k) gs) = (if k = uri then None else find_glob (\<lambda>k. k = uri) gs)"
  by (induction gs) auto

lemma distinct_filter_fst: "distinct (map fst gs) \<Longrightarrow> distinct (map fst (filter p gs))"
  by (induction gs) auto

interpretation glob: registry addGlobServletCreator delGlobServlet getGlobServlet creator_get globs_ok
proof unfold_locales
  show "globs_ok D \<Longrightarrow> globs_ok (addGlobServletCreator k c D)" for D :: "'x ServletDispatch" and k c
    by (auto simp: globs_ok_def addGlobServletCreator_def erase_glob_filter distinct_filter_fst)
  show "globs_ok D \<Longrightarrow> globs_ok (delGlobServlet k D)" for D :: "'x ServletDispatch" and k
    by (simp add: globs_ok_def delGlobServlet_def erase_glob_filter distinct_filter_fst)
  show "globs_ok D \<Longrightarrow> getGlobServlet key (addGlobServletCreator k c D) =
      (if k = key then Some (creator_get c) else getGlobServlet key D)" for D :: "'x ServletDispatch" and key k c
    by (simp add: globs_ok_def getGlobServlet_def addGlobServletCreator_def erase_glob_filter find_glob_append
        find_glob_filter split: option.splits)
  show "globs_ok D \<Longrightarrow> getGlobServlet key (delGlobServlet k D) = (if k = key then None else getGlobServlet key D)"
    for D :: "'x ServletDispatch" and key k
    by (simp add: globs_ok_def getGlobServlet_def delGlobServlet_def erase_glob_filter find_glob_filter)
qed


section \<open>What the dispatcher serves\<close>

text \<open>Registrations in any order: of exact paths on the left, of patterns on the right.\<close>

type_synonym 'x registration = "'x IServletCreator reg + 'x IServletCreator reg"

definition register_all :: "'x registration list \<Rightarrow> 'x ServletDispatch \<Rightarrow> 'x ServletDispatch" where
  "register_all = fold (case_sum (reg_apply addServletCreator delServlet)
     (reg_apply addGlobServletCreator delGlobServlet))"

definition exact_regs :: "'x registration list \<Rightarrow> 'x IServletCreator reg list" where
  "exact_regs rs = concat (map (case_sum (\<lambda>r. [r]) (\<lambda>_. [])) rs)"

definition glob_regs :: "'x registration list \<Rightarrow> 'x IServletCreator reg list" where
  "glob_regs rs = concat (map (case_sum (\<lambda>_. []) (\<lambda>r. [r])) rs)"

lemma addServlet_creator:
  "addServlet uri slt = addServletCreator uri (HoldServletCreator servlet_name slt)"
  "addServlet_cb uri cb = addServletCreator uri (HoldServletCreator servlet_name (FunctionServlet cb))"
  "addGlobServlet uri slt = addGlobServletCreator uri (HoldServletCreator servlet_name slt)"
  "addGlobServlet_cb uri cb = addGlobServletCreator uri (HoldServletCreator servlet_name (FunctionServlet cb))"
  by (simp_all add: fun_eq_iff addServlet_def addServlet_cb_def addServletCreator_def addGlobServlet_def
      addGlobServlet_cb_def addGlobServletCreator_def)

lemma exact_unaffected:
  "getServlet k (reg_apply addGlobServletCreator delGlobServlet r D) = getServlet k D"
  by (cases r) (simp_all add: getServlet_def addGlobServletCreator_def delGlobServlet_def)

lemma glob_unaffected:
  "getGlobServlet k (reg_apply addServletCreator delServlet r D) = getGlobServlet k D"
  "globs_ok (reg_apply addServletCreator delServlet r D) = globs_ok D"
  by (cases r; simp add: getGlobServlet_def globs_ok_def addServletCreator_def delServlet_def)+

lemma default_unaffected: "default_servlet (register_all rs D) = default_servlet D"
proof -
  have "default_servlet (reg_apply addServletCreator delServlet r D) = default_servlet D"
      "default_servlet (reg_apply addGlobServletCreator delGlobServlet r D) = default_servlet D"
    for r and D :: "'a ServletDispatch"
    by (cases r; simp add: addServletCreator_def delServlet_def addGlobServletCreator_def delGlobServlet_def)+
  then show ?thesis unfolding register_all_def by (induction rs arbitrary: D) (auto split: sum.splits)
qed

lemma register_swap:
  "register_all rs D = fold (case_sum (reg_apply addGlobServletCreator delGlobServlet)
     (reg_apply addServletCreator delServlet)) (map (case_sum Inr Inl) rs) D"
  unfolding register_all_def by (induction rs arbitrary: D) (auto split: sum.splits)

lemma glob_regs_swap:
  "concat (map (case_sum (\<lambda>r. [r]) (\<lambda>_. [])) (map (case_sum Inr Inl) rs)) = glob_regs rs"
  unfolding glob_regs_def by (induction rs) (auto split: sum.splits)

lemma registered:
  fixes rs :: "('m, 's) Servlet registration list"
  defines "D \<equiv> register_all rs new_ServletDispatch"
  shows "getServlet k D = map_option creator_get (last_reg k (exact_regs rs))"
    and "getGlobServlet k D = map_option creator_get (last_reg k (glob_regs rs))"
    and "globs_ok D"
proof -
  have "getServlet k (new_ServletDispatch :: ('m, 's) Servlet ServletDispatch) = map_option creator_get None"
    by (simp add: getServlet_def new_ServletDispatch_def)
  from exact.get_interleaved [OF TrueI this, of "reg_apply addGlobServletCreator delGlobServlet" rs]
  show "getServlet k D = map_option creator_get (last_reg k (exact_regs rs))"
    by (simp add: exact_unaffected D_def register_all_def exact_regs_def last_reg_def)
  have "globs_ok (new_ServletDispatch :: ('m, 's) Servlet ServletDispatch)"
    and "getGlobServlet k (new_ServletDispatch :: ('m, 's) Servlet ServletDispatch) = map_option creator_get None"
    by (simp_all add: getGlobServlet_def globs_ok_def new_ServletDispatch_def)
  from glob.get_interleaved [OF this, of "reg_apply addServletCreator delServlet" "map (case_sum Inr Inl) rs"]
  show "getGlobServlet k D = map_option creator_get (last_reg k (glob_regs rs))" "globs_ok D"
    by (simp_all add: glob_unaffected D_def register_swap glob_regs_swap last_reg_def del: map_map)
qed

lemma find_glob_Some: "find_glob p gs = Some s \<Longrightarrow> \<exists>k c. (k, c) \<in> set gs \<and> p k \<and> creator_get c = s"
  by (induction gs) (fastforce split: if_splits)+

lemma find_glob_None: "find_glob p gs = None \<longleftrightarrow> (\<forall>g \<in> set gs. \<not> p (fst g))"
  by (induction gs) auto

lemma getGlobServlet_mem:
  "globs_ok D \<Longrightarrow> (k, c) \<in> set (globs D) \<Longrightarrow> getGlobServlet k D = Some (creator_get c)"
proof -
  have "distinct (map fst gs) \<Longrightarrow> (k, c) \<in> set gs \<Longrightarrow> find_glob (\<lambda>j. j = k) gs = Some (creator_get c)" for gs
    by (induction gs) (auto simp: image_iff)
  then show "globs_ok D \<Longrightarrow> (k, c) \<in> set (globs D) \<Longrightarrow> getGlobServlet k D = Some (creator_get c)"
    by (simp add: globs_ok_def getGlobServlet_def)
qed

lemma getGlobServlet_Some: "getGlobServlet k D = Some s \<Longrightarrow> \<exists>c. (k, c) \<in> set (globs D)"
  unfolding getGlobServlet_def by (drule find_glob_Some) blast

section \<open>The operations of a dispatcher\<close>

text \<open>Every operation that changes a dispatcher.\<close>

datatype ('m, 's) dispatch_op =
    Op_addServlet string "('m, 's) Servlet"
  | Op_addServlet_cb string "('m, 's) callback"
  | Op_addServletCreator string "('m, 's) Servlet IServletCreator"
  | Op_delServlet string
  | Op_addGlobServlet string "('m, 's) Servlet"
  | Op_addGlobServlet_cb string "('m, 's) callback"
  | Op_addGlobServletCreator string "('m, 's) Servlet IServletCreator"
  | Op_delGlobServlet string
  | Op_setDefault "('m, 's) Servlet option"

primrec dispatch_do :: "('m, 's) dispatch_op \<Rightarrow> ('m, 's) Servlet ServletDispatch \<Rightarrow> ('m, 's) Servlet ServletDispatch" where
  "dispatch_do (Op_addServlet uri slt) = addServlet uri slt"
| "dispatch_do (Op_addServlet_cb uri cb) = addServlet_cb uri cb"
| "dispatch_do (Op_addServletCreator uri creator) = addServletCreator uri creator"
| "dispatch_do (Op_delServlet uri) = delServlet uri"
| "dispatch_do (Op_addGlobServlet uri slt) = addGlobServlet uri slt"
| "dispatch_do (Op_addGlobServlet_cb uri cb) = addGlobServlet_cb uri cb"
| "dispatch_do (Op_addGlobServletCreator uri creator) = addGlobServletCreator uri creator"
| "dispatch_do (Op_delGlobServlet uri) = delGlobServlet uri"
| "dispatch_do (Op_setDefault val) = setDefault val"

text \<open>What is promised of an operation: what it makes of the servlet under an exact path \<open>k\<close>, of the one under a pattern
  \<open>k\<close>, of the order of the patterns, and of the default.\<close>

definition exact_step :: "string \<Rightarrow> ('m, 's) dispatch_op \<Rightarrow> ('m, 's) Servlet option \<Rightarrow> ('m, 's) Servlet option" where
  "exact_step k op v = (case op of
      Op_addServlet uri slt \<Rightarrow> if uri = k then Some slt else v
    | Op_addServlet_cb uri cb \<Rightarrow> if uri = k then Some (FunctionServlet cb) else v
    | Op_addServletCreator uri creator \<Rightarrow> if uri = k then Some (creator_get creator) else v
    | Op_delServlet uri \<Rightarrow> if uri = k then None else v
    | _ \<Rightarrow> v)"

definition glob_step :: "string \<Rightarrow> ('m, 's) dispatch_op \<Rightarrow> ('m, 's) Servlet option \<Rightarrow> ('m, 's) Servlet option" where
  "glob_step k op v = (case op of
      Op_addGlobServlet uri slt \<Rightarrow> if uri = k then Some slt else v
    | Op_addGlobServlet_cb uri cb \<Rightarrow> if uri = k then Some (FunctionServlet cb) else v
    | Op_addGlobServletCreator uri creator \<Rightarrow> if uri = k then Some (creator_get creator) else v
    | Op_delGlobServlet uri \<Rightarrow> if uri = k then None else v
    | _ \<Rightarrow> v)"

definition order_step :: "('m, 's) dispatch_op \<Rightarrow> string list \<Rightarrow> string list" where
  "order_step op ks = (case op of
      Op_addGlobServlet uri slt \<Rightarrow> removeAll uri ks @ [uri]
    | Op_addGlobServlet_cb uri cb \<Rightarrow> removeAll uri ks @ [uri]
    | Op_addGlobServletCreator uri creator \<Rightarrow> removeAll uri ks @ [uri]
    | Op_delGlobServlet uri \<Rightarrow> removeAll uri ks
    | _ \<Rightarrow> ks)"

definition default_step :: "('m, 's) dispatch_op \<Rightarrow> ('m, 's) Servlet option \<Rightarrow> ('m, 's) Servlet option" where
  "default_step op v = (case op of Op_setDefault val \<Rightarrow> val | _ \<Rightarrow> v)"

lemma HoldServletCreator_get [simp]: "creator_get (HoldServletCreator name s) = s"
  by (simp add: HoldServletCreator_def)

lemma dispatch_exact: "getServlet k (dispatch_do op D) = exact_step k op (getServlet k D)"
proof (cases op)
  case (Op_setDefault v)
  then show ?thesis by (simp add: exact_step_def getServlet_def setDefault_def)
qed (use exact_unaffected [where r = "Add u c" and D = D for u c] exact_unaffected [where r = "Del u" and D = D for u] in
    \<open>simp_all add: exact_step_def addServlet_creator exact.get_add exact.get_del\<close>)

lemma dispatch_glob:
  assumes "globs_ok D"
  shows "getGlobServlet k (dispatch_do op D) = glob_step k op (getGlobServlet k D)" "globs_ok (dispatch_do op D)"
proof -
  have set: "getGlobServlet k (setDefault v D) = getGlobServlet k D" "globs_ok (setDefault v D)" for v
    using assms by (simp_all add: getGlobServlet_def globs_ok_def setDefault_def)
  note other = glob_unaffected [where r = "Add u c" and D = D for u c] glob_unaffected [where r = "Del u" and D = D for u]
  show "getGlobServlet k (dispatch_do op D) = glob_step k op (getGlobServlet k D)"
    using set other assms
    by (cases op) (simp_all add: glob_step_def addServlet_creator glob.get_add glob.get_del)
  show "globs_ok (dispatch_do op D)"
    using set other assms by (cases op) (simp_all add: addServlet_creator glob.add_ok glob.del_ok)
qed

lemma dispatch_order:
  assumes "globs_ok D"
  shows "map fst (globs (dispatch_do op D)) = order_step op (map fst (globs D))"
proof -
  have erase: "map fst (erase_glob uri (globs D)) = removeAll uri (map fst (globs D))" for uri
    using assms by (simp add: globs_ok_def erase_glob_filter removeAll_filter_not_eq filter_map comp_def)
      (metis (mono_tags, lifting))
  show ?thesis
    by (cases op) (simp_all add: order_step_def addServlet_creator addServletCreator_def addGlobServletCreator_def
        delServlet_def delGlobServlet_def setDefault_def erase)
qed

lemma dispatch_default: "default_servlet (dispatch_do op D) = default_step op (default_servlet D)"
  by (cases op) (simp_all add: default_step_def addServlet_creator addServletCreator_def addGlobServletCreator_def
      delServlet_def delGlobServlet_def setDefault_def)

text \<open>
  C14. The dispatcher refines two maps, an order and a default: after any sequence of its operations (\<^verbatim>\<open>addServlet\<close> with a
  servlet or a callback, \<^verbatim>\<open>addServletCreator\<close>, \<^verbatim>\<open>delServlet\<close>, their \<^verbatim>\<open>Glob\<close> variants and \<^verbatim>\<open>setDefault\<close>), an exact path and
  a pattern each give the servlet of the last registration under that very key, unless it was removed since; the
  list of patterns has each key once, in the order of the last registrations; and the default is the one last set.
\<close>

theorem registrations_refine:
  fixes ops :: "('m, 's) dispatch_op list"
  defines "D \<equiv> fold dispatch_do ops new_ServletDispatch"
  shows "getServlet k D = fold (exact_step k) ops None \<and>
    getGlobServlet k D = fold (glob_step k) ops None \<and>
    map fst (globs D) = fold order_step ops [] \<and> distinct (map fst (globs D)) \<and>
    default_servlet D = fold default_step ops (Some (new_NotFoundServlet ''sylar/1.0''))"
proof -
  have "getServlet k D = fold (exact_step k) ops None \<and> getGlobServlet k D = fold (glob_step k) ops None \<and>
      map fst (globs D) = fold order_step ops [] \<and> globs_ok D \<and>
      default_servlet D = fold default_step ops (Some (new_NotFoundServlet ''sylar/1.0''))"
    unfolding D_def
  proof (induction ops rule: rev_induct)
    case Nil
    show ?case by (simp add: new_ServletDispatch_def getServlet_def getGlobServlet_def globs_ok_def)
  next
    case (snoc op ops)
    then show ?case by (simp add: dispatch_exact dispatch_glob dispatch_order dispatch_default)
  qed
  then show ?thesis unfolding globs_ok_def by blast
qed



end
