(* ===== verification/HttpSession.thy ===== *)
theory HttpSession
  imports Streams Servlet HttpMessageParser
begin

text \<open>
  \<^verbatim>\<open>http/http_session.cpp\<close>, \<^verbatim>\<open>http/http_server.cpp\<close> and the receiving half of \<^verbatim>\<open>http/http_connection.cpp\<close>:
  receiving a message over a stream with a parser, answering a client, and the two ends of a connection.
  \<^verbatim>\<open>recvRequest\<close> and \<^verbatim>\<open>recvResponse\<close> are the same loop around different parsers, and the latter stores a
  terminating NUL behind what was read.  The loops run as long as the peer sends, so they have fuel; the
  theorems show that any bound on what the peer sends is fuel enough.
\<close>

section \<open>Receiving a message\<close>

record 'p parser_ops =
  po_execute :: "bytes \<Rightarrow> 'p \<Rightarrow> (nat \<times> bytes \<times> 'p) option"
  po_hasError :: "'p \<Rightarrow> bool"
  po_isFinished :: "'p \<Rightarrow> bool"

text \<open>\<open>Refused\<close> is the null pointer, with the stream closed; \<open>Recv_bad\<close> an access outside of the buffer or a
  failed assertion of the parser.\<close>

datatype ('p, 'w) recv_result =
    Received 'p SocketStream 'w
  | Refused SocketStream 'w
  | Recv_bad
  | Recv_running

definition refuse :: "'w net \<Rightarrow> SocketStream \<Rightarrow> 'w \<Rightarrow> ('p, 'w) recv_result" where
  "refuse net S w = (case stream_close net S w of (S', w') \<Rightarrow> Refused S' w')"

primrec recv_loop ::
  "nat \<Rightarrow> 'p parser_ops \<Rightarrow> bool \<Rightarrow> 'w net \<Rightarrow> SocketStream \<Rightarrow> nat \<Rightarrow> 'p \<Rightarrow> bytes \<Rightarrow> nat \<Rightarrow> 'w \<Rightarrow> ('p, 'w) recv_result" where
  "recv_loop 0 ops terminate net S buf_size p buffer offset w = Recv_running"
| "recv_loop (Suc n) ops terminate net S buf_size p buffer offset w =
    (case stream_read net S (buf_size - offset) w of (ret, bs, w1) \<Rightarrow>
       if ret \<le> 0 then refuse net S w1
       else
         let len = offset + nat ret;
             buffer1 = take offset buffer @ bs @ drop (offset + length bs) buffer
         in if terminate \<and> len \<ge> buf_size then Recv_bad
            else
              let buffer2 = (if terminate then buffer1[len := NUL] else buffer1) in
              (case po_execute ops (take len buffer2) p of
                 None \<Rightarrow> Recv_bad
               | Some (nparse, b, p') \<Rightarrow>
                   if po_hasError ops p' then refuse net S w1
                   else if len - nparse = buf_size then refuse net S w1
                   else if po_isFinished ops p' then Received p' S w1
                   else recv_loop n ops terminate net S buf_size p' (b @ drop len buffer2) (len - nparse) w1))"

definition request_ops :: "'m map_ops \<Rightarrow> u32 \<Rightarrow> 'm HttpRequestParser parser_ops" where
  "request_ops mops mx = \<lparr>po_execute = HttpRequestParser_execute mops mx,
     po_hasError = (\<lambda>p. rq_error (rq_user p) \<noteq> HPE_OK), po_isFinished = (\<lambda>p. rq_finished (rq_user p))\<rparr>"

definition response_ops :: "'m map_ops \<Rightarrow> u32 \<Rightarrow> 'm HttpResponseParser parser_ops" where
  "response_ops mops mx = \<lparr>po_execute = HttpResponseParser_execute mops mx,
     po_hasError = (\<lambda>p. rs_error (rs_user p) \<noteq> HPE_OK), po_isFinished = (\<lambda>p. rs_finished (rs_user p))\<rparr>"

text \<open>\<open>buf_size\<close> is the configuration variable \<^verbatim>\<open>http.request.buffer_size\<close>.\<close>

definition recvRequest ::
  "nat \<Rightarrow> 'm map_ops \<Rightarrow> u32 \<Rightarrow> 'w net \<Rightarrow> nat \<Rightarrow> SocketStream \<Rightarrow> 'w \<Rightarrow> ('m HttpRequest, 'w) recv_result" where
  "recvRequest fuel mops mx net buf_size S w =
    (case recv_loop fuel (request_ops mops mx) False net S buf_size (new_HttpRequestParser mops)
            (replicate buf_size NUL) 0 w of
       Received p S' w' \<Rightarrow> Received (HttpRequest_init mops (rq_data (rq_user p))) S' w'
     | Refused S' w' \<Rightarrow> Refused S' w'
     | Recv_bad \<Rightarrow> Recv_bad
     | Recv_running \<Rightarrow> Recv_running)"

text \<open>\<^verbatim>\<open>s_http_response_buffer_size\<close> is initialised with 0 and never assigned.\<close>

definition GetHttpResponseBufferSize :: nat where
  "GetHttpResponseBufferSize = 0"

definition recvResponse ::
  "nat \<Rightarrow> 'm map_ops \<Rightarrow> u32 \<Rightarrow> 'w net \<Rightarrow> SocketStream \<Rightarrow> 'w \<Rightarrow> ('m HttpResponse, 'w) recv_result" where
  "recvResponse fuel mops mx net S w =
    (let buf_size = GetHttpResponseBufferSize in
     case recv_loop fuel (response_ops mops mx) True net S buf_size (new_HttpResponseParser mops)
            (replicate buf_size NUL) 0 w of
       Received p S' w' \<Rightarrow> Received (rs_data (rs_user p)) S' w'
     | Refused S' w' \<Rightarrow> Refused S' w'
     | Recv_bad \<Rightarrow> Recv_bad
     | Recv_running \<Rightarrow> Recv_running)"

section \<open>Sending a message\<close>

definition sendResponse ::
  "nat \<Rightarrow> 'm map_ops \<Rightarrow> 'w net \<Rightarrow> 'm HttpResponse \<Rightarrow> SocketStream \<Rightarrow> 'w \<Rightarrow> 'w fix_result" where
  "sendResponse fuel mops net rsp S w = writeFixSize fuel (stream_write net S) (rsp_dump mops rsp) w"

definition sendRequest ::
  "nat \<Rightarrow> 'm map_ops \<Rightarrow> 'w net \<Rightarrow> 'm HttpRequest \<Rightarrow> SocketStream \<Rightarrow> 'w \<Rightarrow> 'w fix_result" where
  "sendRequest fuel mops net req S w = writeFixSize fuel (stream_write net S) (dump mops req) w"

section \<open>The server\<close>

record ('m, 's) HttpServer =
  isKeepAlive :: bool
  server_name :: string
  dispatch :: "('m, 's) Servlet ServletDispatch"

definition new_HttpServer :: "bool \<Rightarrow> ('m, 's) HttpServer" where
  "new_HttpServer keepAlive =
    \<lparr>isKeepAlive = keepAlive, server_name = ''sylar/1.0.0'', dispatch = new_ServletDispatch\<rparr>"

definition setName :: "string \<Rightarrow> ('m, 's) HttpServer \<Rightarrow> ('m, 's) HttpServer" where
  "setName v H = H\<lparr>server_name := v, dispatch := setDefault (Some (new_NotFoundServlet v)) (dispatch H)\<rparr>"

datatype 'w client_result = Client_done SocketStream 'w | Client_bad | Client_running

definition close_session :: "'w net \<Rightarrow> SocketStream \<Rightarrow> 'w \<Rightarrow> 'w client_result" where
  "close_session net S w = (case stream_close net S w of (S', w') \<Rightarrow> Client_done S' w')"

text \<open>What is outside of the loop: the parser's limits, the network, the configured size, \<^verbatim>\<open>fnmatch\<close>.\<close>

record ('m, 'w) environment =
  e_mops :: "'m map_ops"
  e_mx :: u32
  e_net :: "'w net"
  e_buf_size :: nat
  e_fnmatch :: "string \<Rightarrow> string \<Rightarrow> int"

definition make_response ::
  "('m, 'w) environment \<Rightarrow> ('m, SocketStream \<times> 'w) HttpServer \<Rightarrow> 'm HttpRequest \<Rightarrow> SocketStream \<Rightarrow> 'w
   \<Rightarrow> 'm HttpResponse \<times> SocketStream \<times> 'w" where
  "make_response E H req S w =
    (let rsp = new_HttpResponse (e_mops E) (req_version req) (req_close req \<or> \<not> isKeepAlive H);
         rsp = rsp_setHeader (e_mops E) ''Server'' (server_name H) rsp
     in snd (ServletDispatch_handle (e_mops E) (e_fnmatch E) (dispatch H) req rsp (S, w)))"

primrec client_loop ::
  "nat \<Rightarrow> nat \<Rightarrow> ('m, 'w) environment \<Rightarrow> ('m, SocketStream \<times> 'w) HttpServer \<Rightarrow> SocketStream \<Rightarrow> 'w \<Rightarrow> 'w client_result" where
  "client_loop 0 fuel E H S w = Client_running"
| "client_loop (Suc n) fuel E H S w =
    (case recvRequest fuel (e_mops E) (e_mx E) (e_net E) (e_buf_size E) S w of
       Recv_bad \<Rightarrow> Client_bad
     | Recv_running \<Rightarrow> Client_running
     | Refused S1 w1 \<Rightarrow> close_session (e_net E) S1 w1
     | Received req S1 w1 \<Rightarrow>
         (case make_response E H req S1 w1 of (rsp, S2, w2) \<Rightarrow>
            case sendResponse (length (rsp_dump (e_mops E) rsp)) (e_mops E) (e_net E) rsp S2 w2 of
              Fix_bad \<Rightarrow> Client_bad
            | Fix_running \<Rightarrow> Client_running
            | Fix_return _ w3 \<Rightarrow>
                if \<not> isKeepAlive H \<or> req_close req then close_session (e_net E) S2 w3
                else client_loop n fuel E H S2 w3))"

definition handleClient ::
  "nat \<Rightarrow> ('m, 'w) environment \<Rightarrow> ('m, SocketStream \<times> 'w) HttpServer \<Rightarrow> Socket \<Rightarrow> 'w \<Rightarrow> 'w client_result" where
  "handleClient fuel E H client w = client_loop fuel fuel E H \<lparr>m_socket = Some client, m_owner = True\<rparr> w"

section \<open>The receiving loop returns\<close>

text \<open>
  A peer that sends a limited amount: \<open>supply\<close> bounds the number of reads that still give something, and a
  read never gives more than was asked for.
\<close>

definition finite_supply :: "'w net \<Rightarrow> ('w \<Rightarrow> nat) \<Rightarrow> bool" where
  "finite_supply net supply \<longleftrightarrow> (\<forall>fd n flags w ret bs w'. net_recv net fd n flags w = (ret, bs, w') \<and> ret > 0 \<longrightarrow>
     length bs = nat ret \<and> nat ret \<le> n \<and> supply w' < supply w)"

lemma finite_supply_read:
  assumes "finite_supply net supply" "stream_read net S n w = (ret, bs, w1)" "ret > 0"
  shows "length bs = nat ret \<and> nat ret \<le> n \<and> supply w1 < supply w"
proof -
  have "net_recv net (m_sock (the (m_socket S))) n 0 w = (ret, bs, w1)"
    using assms(2,3) by (auto simp: stream_read_def Socket_recv_def split: if_split_asm)
  then show ?thesis using assms(1,3) unfolding finite_supply_def by blast
qed

lemma stream_close_closed: "stream_close net S w = (S', w') \<Longrightarrow> \<not> stream_connected S'"
  using Socket_close_closed
  by (fastforce simp: stream_close_def stream_connected_def split: option.split_asm prod.split_asm)

lemma refuse_closed: "\<exists>S' w'. refuse net S w = Refused S' w' \<and> \<not> stream_connected S'"
  by (auto simp: refuse_def stream_close_closed split: prod.split)

text \<open>What the loop needs of a parser.\<close>

locale receiver =
  fixes ops :: "'p parser_ops" and ok :: "'p \<Rightarrow> bool"
  assumes execute_ok: "ok p \<Longrightarrow> \<exists>n b p'. po_execute ops data p = Some (n, b, p') \<and> ok p' \<and>
    (\<not> po_hasError ops p' \<longrightarrow> n \<le> length data \<and> length b = length data)"
begin

lemma recv_loop_returns:
  assumes fin: "finite_supply net supply"
  shows "ok p \<Longrightarrow> offset \<le> buf_size \<Longrightarrow> length buffer = buf_size \<Longrightarrow> supply w < fuel \<Longrightarrow>
    (case recv_loop fuel ops terminate net S buf_size p buffer offset w of
       Received p' S' w' \<Rightarrow> ok p' \<and> \<not> po_hasError ops p' \<and> po_isFinished ops p' \<and> S' = S \<and> supply w' < supply w
     | Refused S' w' \<Rightarrow> \<not> stream_connected S'
     | Recv_bad \<Rightarrow> terminate
     | Recv_running \<Rightarrow> False)"
proof (induction fuel arbitrary: p buffer offset w)
  case (Suc fuel)
  obtain ret bs w1 where rd: "stream_read net S (buf_size - offset) w = (ret, bs, w1)" by (metis prod_cases3)
  have refused: "case refuse net S w1 of Received p' S' w' \<Rightarrow> Q p' S' w' | Refused S' w' \<Rightarrow> \<not> stream_connected S'
       | Recv_bad \<Rightarrow> terminate | Recv_running \<Rightarrow> False" for Q
    by (auto simp: refuse_def dest: stream_close_closed split: prod.split)
  show ?case
  proof (cases "ret \<le> 0 \<or> terminate \<and> offset + nat ret \<ge> buf_size")
    case True
    then show ?thesis using refused by (auto simp: rd Let_def)
  next
    case False
    let ?len = "offset + nat ret"
    let ?b1 = "take offset buffer @ bs @ drop (offset + length bs) buffer"
    let ?b2 = "if terminate then ?b1[?len := NUL] else ?b1"
    have bs: "length bs = nat ret" "nat ret \<le> buf_size - offset" "supply w1 < supply w"
      using finite_supply_read [OF fin rd] False by auto
    then have b2: "length ?b2 = buf_size" "?len \<le> buf_size" using Suc.prems(2,3) by auto
    obtain n b p' where ex: "po_execute ops (take ?len ?b2) p = Some (n, b, p')" "ok p'"
      "\<not> po_hasError ops p' \<longrightarrow> n \<le> length (take ?len ?b2) \<and> length b = length (take ?len ?b2)"
      using execute_ok [OF Suc.prems(1), of "take ?len ?b2"] by blast
    have l: "length (take ?len ?b2) = ?len" using b2 by simp
    have nb: "(terminate \<and> ?len \<ge> buf_size) = False" "(ret \<le> 0) = False" using False by simp_all
    have step: "recv_loop (Suc fuel) ops terminate net S buf_size p buffer offset w =
        (if po_hasError ops p' then refuse net S w1
         else if ?len - n = buf_size then refuse net S w1
         else if po_isFinished ops p' then Received p' S w1
         else recv_loop fuel ops terminate net S buf_size p' (b @ drop ?len ?b2) (?len - n) w1)"
      by (simp only: recv_loop.simps rd prod.case nb ex(1) option.case Let_def if_False)
    show ?thesis
    proof (cases "po_hasError ops p' \<or> ?len - n = buf_size \<or> po_isFinished ops p'")
      case True
      then show ?thesis using refused ex(2) bs(3) by (auto simp only: step recv_result.case split: if_split)
    next
      case cont: False
      have IH: "case recv_loop fuel ops terminate net S buf_size p' (b @ drop ?len ?b2) (?len - n) w1 of
          Received p' S' w' \<Rightarrow> ok p' \<and> \<not> po_hasError ops p' \<and> po_isFinished ops p' \<and> S' = S \<and> supply w' < supply w1
        | Refused S' w' \<Rightarrow> \<not> stream_connected S' | Recv_bad \<Rightarrow> terminate | Recv_running \<Rightarrow> False"
        using cont ex l b2 bs(3) Suc.prems(4) by (intro Suc.IH) auto
      define r where "r = recv_loop fuel ops terminate net S buf_size p' (b @ drop ?len ?b2) (?len - n) w1"
      have "recv_loop (Suc fuel) ops terminate net S buf_size p buffer offset w = r"
        using cont by (simp only: step r_def) simp
      with IH [folded r_def] bs(3) show ?thesis by (cases r) auto
    qed
  qed
qed simp

end

interpretation request_receiver: receiver "request_ops mops mx" "\<lambda>p. wf_parser mx (rq_parser p)" for mops mx
  using HttpRequestParser_execute_ok by unfold_locales (fastforce simp: request_ops_def)

interpretation response_receiver: receiver "response_ops mops mx" "\<lambda>p. wf_parser mx (rs_parser p)" for mops mx
  using HttpResponseParser_execute_ok by unfold_locales (fastforce simp: response_ops_def)

lemma recvRequest_ok:
  assumes "finite_supply net supply" "supply w < fuel"
  shows "case recvRequest fuel mops mx net buf_size S w of
      Received req S' w' \<Rightarrow> S' = S \<and> supply w' < supply w
    | Refused S' w' \<Rightarrow> \<not> stream_connected S'
    | Recv_bad \<Rightarrow> False
    | Recv_running \<Rightarrow> False"
proof -
  define r where "r = recv_loop fuel (request_ops mops mx) False net S buf_size (new_HttpRequestParser mops) (replicate buf_size NUL) 0 w"
  have "case r of Received p' S' w' \<Rightarrow> wf_parser mx (rq_parser p') \<and> \<not> po_hasError (request_ops mops mx) p' \<and>
        po_isFinished (request_ops mops mx) p' \<and> S' = S \<and> supply w' < supply w
     | Refused S' w' \<Rightarrow> \<not> stream_connected S' | Recv_bad \<Rightarrow> False | Recv_running \<Rightarrow> False"
    unfolding r_def by (rule request_receiver.recv_loop_returns [OF assms(1) new_parser_wf _ _ assms(2)]) simp_all
  then show ?thesis by (cases r) (auto simp: recvRequest_def simp flip: r_def)
qed

text \<open>
  \<^verbatim>\<open>HttpSession::recvRequest\<close> returns: with a peer that sends a limited amount of anything, no more reads are
  needed than the peer makes possible, no assertion fails and the buffer is not left; either there is a
  request, and the session is as it was, or the session has been closed.
\<close>

theorem recvRequest_returns:
  assumes "finite_supply net supply" "supply w < fuel"
  shows "case recvRequest fuel mops mx net buf_size S w of
      Received req S' w' \<Rightarrow> S' = S \<and> supply w' < supply w
    | Refused S' w' \<Rightarrow> \<not> stream_connected S'
    | Recv_bad \<Rightarrow> False
    | Recv_running \<Rightarrow> False"
  by (rule recvRequest_ok [OF assms])

text \<open>A peer whose bytes are given: the state is what it still has to send, and what was sent to it.\<close>

definition script_net :: "(bytes \<times> bytes) net" where
  "script_net = \<lparr>net_socket = (\<lambda>_ _ _ w. (7, w)), net_bind = (\<lambda>_ _ _ w. (0, w)), net_connect = (\<lambda>_ _ _ w. (0, w)),
     net_connect_with_timeout = (\<lambda>_ _ _ _ w. (0, w)), net_listen = (\<lambda>_ _ w. (0, w)), net_accept = (\<lambda>_ w. (8, w)),
     net_close = (\<lambda>_ w. (0, w)), net_send = (\<lambda>_ bs _ (i, t). (int (length bs), i, t @ bs)),
     net_sendto = (\<lambda>_ bs _ _ _ w. (int (length bs), w)), net_sendmsg = (\<lambda>_ _ bss _ w. (int (length (concat bss)), w)),
     net_recv = (\<lambda>_ n _ (i, t). (int (length (take n i)), take n i, drop n i, t)),
     net_recvfrom = (\<lambda>_ _ _ _ w. (0, [], [], w)),
     net_recvmsg = (\<lambda>_ _ _ _ w. (0, [], [], w)), net_getpeername = (\<lambda>_ n w. (0, [], n)),
     net_getsockname = (\<lambda>_ n w. (0, [], n)), net_setsockopt = (\<lambda>_ _ _ _ w. (0, w)),
     net_getsockopt = (\<lambda>_ _ _ w. (0, 0, w)), net_fd = (\<lambda>_ _. None)\<rparr>"

lemma script_supply: "finite_supply script_net (\<lambda>w. length (fst w))"
  by (auto simp: finite_supply_def script_net_def)

definition script_stream :: SocketStream where
  "script_stream = \<lparr>m_socket = Some (CreateTCPSocket\<lparr>m_sock := 8, m_isConnected := True\<rparr>), m_owner = True\<rparr>"

theorem recvRequest_returns_witness:
  "case recvRequest 20 alist_ops 8192 script_net 4096 script_stream (''GET / HTTP'', []) of
      Received req S' w' \<Rightarrow> S' = script_stream \<and> length (fst w') < length (fst (''GET / HTTP'', [] :: bytes))
    | Refused S' w' \<Rightarrow> \<not> stream_connected S'
    | Recv_bad \<Rightarrow> False
    | Recv_running \<Rightarrow> False"
  by (rule recvRequest_returns [OF script_supply]) simp

section \<open>Responses are never received\<close>

text \<open>
  A client never gets a response: the buffer of \<^verbatim>\<open>HttpConnection::recvResponse\<close> has the size 0 because its
  configured size is never set, so that the first read asks for nothing and, as it gets nothing, closes the
  connection.
\<close>

theorem response_never_received:
  assumes "\<And>fd flags w. fst (net_recv net fd 0 flags w) \<le> 0"
  shows "\<exists>S' w'. recvResponse (Suc fuel) mops mx net S w = Refused S' w' \<and> \<not> stream_connected S'"
proof -
  obtain ret bs w1 where rd: "stream_read net S 0 w = (ret, bs, w1)" by (metis prod_cases3)
  have "ret \<le> 0"
    using rd assms [of "m_sock (the (m_socket S))" 0 w] by (auto simp: stream_read_def Socket_recv_def split: if_split_asm)
  then show ?thesis
    by (auto simp: recvResponse_def GetHttpResponseBufferSize_def rd refuse_def Let_def dest: stream_close_closed
        split: prod.split)
qed

theorem response_never_received_witness:
  "\<exists>S' w'. recvResponse (Suc 9) alist_ops 8192 script_net script_stream (''HTTP/1.1 200 OK'', []) = Refused S' w' \<and>
     \<not> stream_connected S'"
  by (rule response_never_received) (auto simp: script_net_def)

section \<open>A sample server\<close>

definition script_env :: "((string \<times> string) list, bytes \<times> bytes) environment" where
  "script_env = \<lparr>e_mops = alist_ops, e_mx = 8192, e_net = script_net, e_buf_size = 4096,
     e_fnmatch = (\<lambda>k u. if k = u then 0 else 1)\<rparr>"

lemma dec_length: "length (dec n) \<le> n + 1"
proof (induction n rule: less_induct)
  case (less n)
  show ?case
  proof (cases "n < 10")
    case False
    then have "length (dec (n div 10)) \<le> n div 10 + 1" using less [of "n div 10"] by simp
    moreover have "n div 10 + 2 \<le> n" using False by linarith
    ultimately show ?thesis by (subst dec.simps) simp
  qed (simp add: dec.simps)
qed

lemma version_length: "length (version_string v) \<le> 600"
proof -
  have "unat x < 256" for x :: u8 using unsigned_less [where w = x] by simp
  then have "length (dec (unat x)) \<le> 256" for x :: u8 using dec_length [of "unat x"] by (metis Suc_eq_plus1 Suc_leI le_trans)
  from this [of "drop_bit 4 v"] this [of "v AND 0x0F"] show ?thesis by (simp add: version_string_def)
qed

end
