(* ===== verification/Uri.thy ===== *)
theory Uri
  imports HttpUrl Socket
begin

text \<open>
  \<^verbatim>\<open>uri.cpp\<close> and \<^verbatim>\<open>uri.h\<close>: URIs made from text with the URL parser, their default ports, their text and the
  address they denote.  The exceptions \<^verbatim>\<open>std::stoi\<close> and the constructors of \<^verbatim>\<open>std::string\<close> can throw are
  errors.
\<close>

section \<open>The library functions used\<close>

datatype uri_error = Invalid_argument | String_out_of_range | Parser_assert

definition isspace :: "char \<Rightarrow> bool" where
  "isspace c \<longleftrightarrow> c = SP \<or> 9 \<le> cval c \<and> cval c \<le> 13"

fun stoi_digits :: "string \<Rightarrow> int \<Rightarrow> int" where
  "stoi_digits [] v = v"
| "stoi_digits (c # cs) v = (if IS_NUM c then stoi_digits cs (v * 10 + int (cval c - 48)) else v)"

text \<open>\<^verbatim>\<open>std::stoi\<close>: blanks, a sign, digits; what follows is ignored.\<close>

definition stoi :: "string \<Rightarrow> uri_error + int" where
  "stoi str =
    (let s = dropWhile isspace str;
         neg = s \<noteq> [] \<and> hd s = CHR ''-'';
         ds = (if s \<noteq> [] \<and> hd s \<in> {CHR ''-'', CHR ''+''} then tl s else s)
     in if ds = [] \<or> \<not> IS_NUM (hd ds) then Inl Invalid_argument
        else
          let v = stoi_digits ds 0; v = (if neg then - v else v) in
          if v < - (2 ^ 31) \<or> v \<ge> 2 ^ 31 then Inl String_out_of_range else Inr v)"

text \<open>\<^verbatim>\<open>std::string(str, pos, n)\<close>.\<close>

definition string_sub :: "string \<Rightarrow> nat \<Rightarrow> nat \<Rightarrow> uri_error + string" where
  "string_sub s pos n = (if pos > length s then Inl String_out_of_range else Inr (slice_of pos n s))"

section \<open>URIs\<close>

record Uri =
  scheme :: string
  userInfo :: string
  host :: string
  path :: string
  query :: string
  fragment :: string
  port :: int

definition new_Uri :: Uri where
  "new_Uri = \<lparr>scheme = [], userInfo = [], host = [], path = [], query = [], fragment = [], port = 0\<rparr>"

definition default_port :: "Uri \<Rightarrow> Uri" where
  "default_port uri =
    (if scheme uri = ''http'' \<or> scheme uri = ''ws'' then uri\<lparr>port := 80\<rparr>
     else if scheme uri = ''https'' then uri\<lparr>port := 443\<rparr>
     else uri)"

definition set_field ::
  "bytes \<Rightarrow> http_parser_url \<Rightarrow> http_parser_url_fields \<Rightarrow> (string \<Rightarrow> Uri \<Rightarrow> Uri) \<Rightarrow> Uri \<Rightarrow> Uri" where
  "set_field urlstr parser uf upd uri = (if url_has parser uf then upd (url_slice urlstr parser uf) uri else uri)"

definition Uri_Create :: "string \<Rightarrow> uri_error + Uri option" where
  "Uri_Create urlstr =
    (case http_parser_parse_url urlstr False http_parser_url_init of
       Url_assert \<Rightarrow> Inl Parser_assert
     | Url_bad \<Rightarrow> Inr None
     | Url_ok parser \<Rightarrow>
         let uri = set_field urlstr parser UF_SCHEMA (\<lambda>s u. u\<lparr>scheme := s\<rparr>) new_Uri in
         case (if url_has parser UF_USERINFO then
                 case string_sub (c_str urlstr) (unat (uf_off (field_data parser UF_USERINFO)))
                        (unat (uf_len (field_data parser UF_USERINFO))) of
                   Inl e \<Rightarrow> Inl e | Inr s \<Rightarrow> Inr (uri\<lparr>userInfo := s\<rparr>)
               else Inr uri) of
           Inl e \<Rightarrow> Inl e
         | Inr uri \<Rightarrow>
             let uri = set_field urlstr parser UF_HOST (\<lambda>s u. u\<lparr>host := s\<rparr>) uri in
             case (if url_has parser UF_PORT then
                     case stoi (url_slice urlstr parser UF_PORT) of
                       Inl e \<Rightarrow> Inl e | Inr v \<Rightarrow> Inr (uri\<lparr>port := v\<rparr>)
                   else Inr (default_port uri)) of
               Inl e \<Rightarrow> Inl e
             | Inr uri \<Rightarrow>
                 let uri = set_field urlstr parser UF_PATH (\<lambda>s u. u\<lparr>path := s\<rparr>) uri;
                     uri = set_field urlstr parser UF_QUERY (\<lambda>s u. u\<lparr>query := s\<rparr>) uri
                 in Inr (Some (set_field urlstr parser UF_FRAGMENT (\<lambda>s u. u\<lparr>fragment := s\<rparr>) uri)))"

definition uri_getPort :: "Uri \<Rightarrow> int" where
  "uri_getPort u =
    (if port u \<noteq> 0 then port u
     else if scheme u = ''http'' \<or> scheme u = ''ws'' then 80
     else if scheme u = ''https'' \<or> scheme u = ''wss'' then 443
     else port u)"

definition uri_getPath :: "Uri \<Rightarrow> string" where
  "uri_getPath u = (if path u = [] then ''/'' else path u)"

definition isDefaultPort :: "Uri \<Rightarrow> bool" where
  "isDefaultPort u \<longleftrightarrow>
    (if scheme u = ''http'' \<or> scheme u = ''ws'' then port u = 80
     else if scheme u = ''https'' then port u = 443
     else False)"

definition uri_toString :: "Uri \<Rightarrow> string" where
  "uri_toString u =
    scheme u @ ''://'' @ userInfo u @ (if userInfo u = [] then [] else ''@'') @ host u @
    (if isDefaultPort u then [] else '':'' @ dec_int (port u)) @ uri_getPath u @
    (if query u = [] then [] else ''?'') @ query u @ (if fragment u = [] then [] else ''#'') @ fragment u"

text \<open>The port is assigned to a \<^verbatim>\<open>uint32_t\<close>.\<close>

definition uri_createAddress :: "getaddrinfo \<Rightarrow> Uri \<Rightarrow> addr_error + Address option" where
  "uri_createAddress gai u =
    (case LookUpAnyIPAddress gai (host u) AF_UNSPEC 0 0 of
       Inl e \<Rightarrow> Inl e
     | Inr addr \<Rightarrow> Inr (map_option (setPort (word_of_int (uri_getPort u))) addr))"

section \<open>Properties\<close>

lemma IS_NUM_range: "IS_NUM c \<longleftrightarrow> 48 \<le> cval c \<and> cval c \<le> 57"
  by (simp add: IS_NUM_def cval_def)

lemma num_not_space: "IS_NUM c \<Longrightarrow> \<not> isspace c \<and> c \<noteq> CHR ''-'' \<and> c \<noteq> CHR ''+''"
  by (auto simp: IS_NUM_range isspace_def cval_def)

lemma stoi_digits_value:
  "list_all IS_NUM cs \<Longrightarrow> stoi_digits cs (int v) = int (foldl (\<lambda>v c. 10 * v + digit_val c) v cs)"
proof (induction cs arbitrary: v)
  case (Cons c cs)
  then have "int (cval c - 48) = int (digit_val c)" by (simp add: digit_val_def cval_def)
  with Cons.IH [of "10 * v + digit_val c"] Cons.prems show ?case by (simp add: algebra_simps)
qed simp

lemma stoi_number:
  assumes "list_all IS_NUM cs" "cs \<noteq> []" "dec_value cs < 2 ^ 31"
  shows "stoi cs = Inr (int (dec_value cs))"
proof -
  obtain c r where c: "cs = c # r" using assms(2) by (cases cs) auto
  with assms(1) have n: "IS_NUM c" by simp
  with num_not_space [of c] show ?thesis
    using stoi_digits_value [OF assms(1), of 0] assms(3) by (simp add: stoi_def c dec_value_def Let_def)
qed

lemma c_str_no_nul: "NUL \<notin> set s \<Longrightarrow> c_str s = s"
  unfolding c_str_def by (induction s) auto

text \<open>The parts of the text a successful parse found, as the fields of a URI.\<close>

definition uri_parts :: "bytes \<Rightarrow> http_parser_url \<Rightarrow> Uri \<Rightarrow> bool" where
  "uri_parts urlstr p u \<longleftrightarrow>
    scheme u = (if url_has p UF_SCHEMA then url_slice urlstr p UF_SCHEMA else []) \<and>
    userInfo u = (if url_has p UF_USERINFO then url_slice urlstr p UF_USERINFO else []) \<and>
    host u = (if url_has p UF_HOST then url_slice urlstr p UF_HOST else []) \<and>
    path u = (if url_has p UF_PATH then url_slice urlstr p UF_PATH else []) \<and>
    query u = (if url_has p UF_QUERY then url_slice urlstr p UF_QUERY else []) \<and>
    fragment u = (if url_has p UF_FRAGMENT then url_slice urlstr p UF_FRAGMENT else []) \<and>
    port u = (if url_has p UF_PORT then int (unat (http_parser_url.port p))
              else if scheme u = ''http'' \<or> scheme u = ''ws'' then 80 else if scheme u = ''https'' then 443 else 0)"

lemma uri_parts_port:
  assumes "uri_parts urlstr p u"
  shows "port u \<in> {uint (http_parser_url.port p), 80, 443, 0}"
proof -
  have "port u = (if url_has p UF_PORT then int (unat (http_parser_url.port p))
    else if scheme u = ''http'' \<or> scheme u = ''ws'' then 80 else if scheme u = ''https'' then 443 else 0)"
    using assms unfolding uri_parts_def by (elim conjE)
  then show ?thesis by (simp split: if_splits)
qed

text \<open>What \<^verbatim>\<open>Uri::Create\<close> makes of a successful parse.\<close>

lemma Uri_Create_ok:
  assumes "http_parser_parse_url urlstr False http_parser_url_init = Url_ok p"
    and "length urlstr < 65536" "NUL \<notin> set urlstr"
  shows "\<exists>u. Uri_Create urlstr = Inr (Some u) \<and> uri_parts urlstr p u"
proof -
  let ?o = "unat (uf_off (field_data p UF_USERINFO))" and ?l = "unat (uf_len (field_data p UF_USERINFO))"
  have user: "string_sub (c_str urlstr) ?o ?l = Inr (url_slice urlstr p UF_USERINFO)" if "url_has p UF_USERINFO"
    using parse_url_fields_within [OF assms(1) that] assms(3)
    by (simp add: string_sub_def c_str_no_nul url_slice_def)
  have num: "stoi (url_slice urlstr p UF_PORT) = Inr (int (unat (http_parser_url.port p)))" if "url_has p UF_PORT"
  proof -
    have "unat (http_parser_url.port p) < 2 ^ LENGTH(16)" by (rule unsigned_less)
    then have "unat (http_parser_url.port p) < 2 ^ 31" by simp
    then show ?thesis
      using parse_url_port_digits [OF assms(1,2) that] stoi_number [of "url_slice urlstr p UF_PORT"] by simp
  qed
  show ?thesis
    using assms(1) user num
    by (cases "url_has p UF_USERINFO"; cases "url_has p UF_PORT")
      (simp_all add: uri_parts_def Uri_Create_def Let_def set_field_def default_port_def new_Uri_def)
qed

text \<open>
  C36. \<^verbatim>\<open>Uri::Create\<close> on a text shorter than 65536 bytes without NUL throws nothing; it makes a URI exactly when
  the URL parser accepts the text, each part of the URI is the part of the text the parser found, and the port
  is the number in the text or else the default of the scheme, always between 0 and 65535.
\<close>

theorem uri_create_parts:
  assumes "length urlstr < 65536" "NUL \<notin> set urlstr"
  shows "case http_parser_parse_url urlstr False http_parser_url_init of
      Url_ok p \<Rightarrow> \<exists>u. Uri_Create urlstr = Inr (Some u) \<and> uri_parts urlstr p u \<and> 0 \<le> port u \<and> port u \<le> 65535
    | Url_bad \<Rightarrow> Uri_Create urlstr = Inr None
    | Url_assert \<Rightarrow> False"
proof (cases "http_parser_parse_url urlstr False http_parser_url_init")
  case (Url_ok p)
  have "uint (http_parser_url.port p) < 2 ^ LENGTH(16)" by (rule unsigned_less)
  then have "uint (http_parser_url.port p) \<le> 65535" by simp
  moreover have "\<exists>u. Uri_Create urlstr = Inr (Some u) \<and> uri_parts urlstr p u"
    by (rule Uri_Create_ok [OF Url_ok assms])
  then obtain u where u: "Uri_Create urlstr = Inr (Some u)" "uri_parts urlstr p u"
    by (rule exE) (erule conjE, rule that, assumption+)
  ultimately have "0 \<le> port u \<and> port u \<le> 65535" using uri_parts_port [of urlstr p u] by auto
  with u have "\<exists>u. Uri_Create urlstr = Inr (Some u) \<and> uri_parts urlstr p u \<and> 0 \<le> port u \<and> port u \<le> 65535"
    by (intro exI [of _ u] conjI) simp_all
  then show ?thesis by (simp only: Url_ok url_result.case)
next
  case Url_bad
  then show ?thesis by (simp add: Uri_Create_def)
next
  case Url_assert
  then show ?thesis using parse_url_never_asserts by simp
qed

lemma LookUpAnyIPAddress_ip:
  assumes "LookUpAnyIPAddress gai h family type protocol = Inr (Some a)"
  shows "is_ip a"
proof -
  let ?p = "\<lambda>r. case r of None \<Rightarrow> False | Some a \<Rightarrow> is_ip a"
  from assms obtain rs xs where "filter ?p rs = Some a # xs"
    by (auto simp: LookUpAnyIPAddress_def split: sum.splits prod.splits bool.splits list.splits)
  then have "Some a \<in> set (filter ?p rs)" by simp
  then show ?thesis by simp
qed

text \<open>
  The address of a URI has the port 0: \<^verbatim>\<open>createAddress\<close> sets the port of the URI with \<^verbatim>\<open>setPort\<close>, which loses
  every port below 65536, so that a client never connects to the port its URI names.
\<close>

theorem uri_address_port_lost:
  assumes "uri_createAddress gai u = Inr (Some a)" "0 \<le> uri_getPort u" "uri_getPort u < 65536"
  shows "getPort a = 0"
proof -
  have small: "(word_of_int (uri_getPort u) :: u32) < 65536"
    using assms(2,3) by (simp add: word_less_nat_alt unat_eq_nat_uint uint_word_of_int)
  obtain b where b: "LookUpAnyIPAddress gai (host u) AF_UNSPEC 0 0 = Inr (Some b)"
    and a: "a = setPort (word_of_int (uri_getPort u)) b"
    using assms(1) by (auto simp: uri_createAddress_def split: sum.splits)
  have "is_ip b" using LookUpAnyIPAddress_ip [OF b] .
  then show ?thesis using small by (simp add: a getPort_setPort drop_small)
qed

theorem uri_create_parts_witness:
  "\<exists>u. Uri_Create example_url = Inr (Some u) \<and> scheme u = ''http'' \<and> host u = ''a.b'' \<and> port u = 80"
proof -
  have e: "length example_url < 65536" "NUL \<notin> set example_url" by (simp_all add: example_url_def)
  have "url_slice example_url example_url_result UF_SCHEMA = ''http''" "url_slice example_url example_url_result UF_HOST = ''a.b''"
    "url_has example_url_result UF_SCHEMA" "url_has example_url_result UF_HOST" "unat (http_parser_url.port example_url_result) = 80"
    by code_simp+
  moreover obtain u where u: "Uri_Create example_url = Inr (Some u)" "uri_parts example_url example_url_result u"
    using uri_create_parts [OF e] unfolding example_url_ok url_result.case by blast
  ultimately show ?thesis
    using u(2) example_url_has_port unfolding uri_parts_def by (intro exI [of _ u]) (simp add: u(1))
qed

theorem uri_address_port_lost_witness:
  "\<exists>a. uri_createAddress sample_gai (new_Uri\<lparr>host := ''localhost'', port := 8080\<rparr>) = Inr (Some a) \<and> getPort a = 0"
proof -
  let ?r = "uri_createAddress sample_gai (new_Uri\<lparr>host := ''localhost'', port := 8080\<rparr>)"
  have "case ?r of Inr (Some a) \<Rightarrow> True | _ \<Rightarrow> False" by code_simp
  then have "\<exists>a. ?r = Inr (Some a)" by (cases ?r) (auto split: option.splits)
  then obtain a where a: "uri_createAddress sample_gai (new_Uri\<lparr>host := ''localhost'', port := 8080\<rparr>) = Inr (Some a)" ..
  with uri_address_port_lost [OF a] show ?thesis by (simp add: uri_getPort_def)
qed

text \<open>A \<^verbatim>\<open>wss\<close> URI without a port has the port 443 but is printed with the port 0.\<close>

lemma char_of_zero: "char_of (48 :: nat) = CHR ''0''"
  by code_simp

lemma wss_port:
  "uri_getPort (new_Uri\<lparr>scheme := ''wss'', host := h\<rparr>) = 443"
  "uri_toString (new_Uri\<lparr>scheme := ''wss'', host := h\<rparr>) = ''wss://'' @ h @ '':0/''"
  by (simp_all add: uri_getPort_def uri_toString_def isDefaultPort_def uri_getPath_def new_Uri_def dec_int_def dec.simps char_of_zero)

end
