(* ===== verification/Locks.thy ===== *)
theory Locks
  imports Prelude
begin

text \<open>
  Locks and scoped locks (\<^verbatim>\<open>thread.h\<close>).  An operation on a lock either goes on, waits, throws, or is undefined.  Threads
  are numbered, and what several threads do is a list of steps.  The locale \<open>lockable\<close> is what a scoped lock needs of a
  lock for threads to exclude each other.
\<close>

section \<open>Outcomes\<close>

datatype 'a outcome = Went 'a | Waits | Throws string | Undefined

primrec then_do :: "'a outcome \<Rightarrow> ('a \<Rightarrow> 'b outcome) \<Rightarrow> 'b outcome" where
  "then_do (Went x) f = f x"
| "then_do Waits f = Waits"
| "then_do (Throws e) f = Throws e"
| "then_do Undefined f = Undefined"

lemma then_do_Went: "then_do x f = Went y \<longleftrightarrow> (\<exists>z. x = Went z \<and> f z = Went y)"
  by (cases x) auto

section \<open>Locks\<close>

datatype guard_kind = ReadGuard | WriteGuard

text \<open>
  A mutex and a spin lock of the thread library: the thread that has it.  Releasing one that another thread has, or
  nobody, is undefined.
\<close>

type_synonym exclusive = "nat option"

definition new_exclusive :: exclusive where "new_exclusive = None"

definition exclusive_lock :: "nat \<Rightarrow> exclusive \<Rightarrow> exclusive outcome" where
  "exclusive_lock t m = (case m of None \<Rightarrow> Went (Some t) | Some u \<Rightarrow> Waits)"

definition exclusive_unlock :: "nat \<Rightarrow> exclusive \<Rightarrow> exclusive outcome" where
  "exclusive_unlock t m = (if m = Some t then Went None else Undefined)"

definition Mutex_lock :: "nat \<Rightarrow> exclusive \<Rightarrow> exclusive outcome" where "Mutex_lock = exclusive_lock"
definition Mutex_unlock :: "nat \<Rightarrow> exclusive \<Rightarrow> exclusive outcome" where "Mutex_unlock = exclusive_unlock"
definition SpinLock_lock :: "nat \<Rightarrow> exclusive \<Rightarrow> exclusive outcome" where "SpinLock_lock = exclusive_lock"
definition SpinLock_unlock :: "nat \<Rightarrow> exclusive \<Rightarrow> exclusive outcome" where "SpinLock_unlock = exclusive_unlock"

text \<open>\<^verbatim>\<open>CASLock\<close> is an atomic flag; its loop ends when the flag is found clear.\<close>

definition new_CASLock :: bool where "new_CASLock = False"

definition CASLock_lock :: "nat \<Rightarrow> bool \<Rightarrow> bool outcome" where
  "CASLock_lock t flag = (let old = flag; new_flag = True in if old then Waits else Went new_flag)"

definition CASLock_unlock :: "nat \<Rightarrow> bool \<Rightarrow> bool outcome" where
  "CASLock_unlock t flag = Went False"

definition NullMutex_lock :: "nat \<Rightarrow> unit \<Rightarrow> unit outcome" where "NullMutex_lock t m = Went m"
definition NullMutex_unlock :: "nat \<Rightarrow> unit \<Rightarrow> unit outcome" where "NullMutex_unlock t m = Went m"

text \<open>A read-write lock: its writer and its readers.\<close>

record RWMutex =
  rw_writer :: "nat option"
  rw_readers :: "nat list"

definition new_RWMutex :: RWMutex where "new_RWMutex = \<lparr>rw_writer = None, rw_readers = []\<rparr>"

definition RWMutex_rdlock :: "nat \<Rightarrow> RWMutex \<Rightarrow> RWMutex outcome" where
  "RWMutex_rdlock t m = (if rw_writer m = None then Went (m\<lparr>rw_readers := t # rw_readers m\<rparr>) else Waits)"

definition RWMutex_wrlock :: "nat \<Rightarrow> RWMutex \<Rightarrow> RWMutex outcome" where
  "RWMutex_wrlock t m =
    (if rw_writer m = None \<and> rw_readers m = [] then Went (m\<lparr>rw_writer := Some t\<rparr>) else Waits)"

definition RWMutex_unlock :: "nat \<Rightarrow> RWMutex \<Rightarrow> RWMutex outcome" where
  "RWMutex_unlock t m =
    (if rw_writer m = Some t then Went (m\<lparr>rw_writer := None\<rparr>)
     else if t \<in> set (rw_readers m) then Went (m\<lparr>rw_readers := remove1 t (rw_readers m)\<rparr>) else Undefined)"

section \<open>Scoped locks\<close>

text \<open>
  The three templates only differ in the function that locks; a scoped lock is its \<^verbatim>\<open>m_locked\<close>.  The destructor unlocks
  without looking at it.
\<close>

definition guard_new :: "('m \<Rightarrow> 'm outcome) \<Rightarrow> 'm \<Rightarrow> ('m \<times> bool) outcome" where
  "guard_new acquire m = then_do (acquire m) (\<lambda>m1. Went (m1, True))"

definition guard_destroy :: "('m \<Rightarrow> 'm outcome) \<Rightarrow> 'm \<Rightarrow> 'm outcome" where
  "guard_destroy release m = release m"

definition guard_lock :: "('m \<Rightarrow> 'm outcome) \<Rightarrow> 'm \<Rightarrow> bool \<Rightarrow> ('m \<times> bool) outcome" where
  "guard_lock acquire m locked = (if \<not> locked then then_do (acquire m) (\<lambda>m1. Went (m1, True)) else Went (m, locked))"

definition guard_unlock :: "('m \<Rightarrow> 'm outcome) \<Rightarrow> 'm \<Rightarrow> bool \<Rightarrow> ('m \<times> bool) outcome" where
  "guard_unlock release m locked = (if locked then then_do (release m) (\<lambda>m1. Went (m1, False)) else Went (m, locked))"

text \<open>Threads with one scoped lock each on the same lock.\<close>

record 'm lock_system =
  ls_mutex :: 'm
  ls_guards :: "nat \<Rightarrow> (guard_kind \<times> bool) option"

datatype guard_op = Construct guard_kind | Lock_again | Unlock_early | Destroy

type_synonym 'm acquire_fun = "guard_kind \<Rightarrow> nat \<Rightarrow> 'm \<Rightarrow> 'm outcome"
type_synonym 'm release_fun = "nat \<Rightarrow> 'm \<Rightarrow> 'm outcome"

definition set_guard :: "nat \<Rightarrow> guard_kind \<Rightarrow> 'm lock_system \<Rightarrow> 'm \<times> bool \<Rightarrow> 'm lock_system" where
  "set_guard t k S r = S\<lparr>ls_mutex := fst r, ls_guards := (ls_guards S)(t \<mapsto> (k, snd r))\<rparr>"

fun guard_do ::
  "'m acquire_fun \<Rightarrow> 'm release_fun \<Rightarrow> nat \<Rightarrow> guard_op \<Rightarrow> 'm lock_system \<Rightarrow> 'm lock_system outcome" where
  "guard_do acq rel t op S =
    (case (op, ls_guards S t) of
       (Construct k, None) \<Rightarrow> then_do (guard_new (acq k t) (ls_mutex S)) (\<lambda>r. Went (set_guard t k S r))
     | (Lock_again, Some (k, l)) \<Rightarrow> then_do (guard_lock (acq k t) (ls_mutex S) l) (\<lambda>r. Went (set_guard t k S r))
     | (Unlock_early, Some (k, l)) \<Rightarrow> then_do (guard_unlock (rel t) (ls_mutex S) l) (\<lambda>r. Went (set_guard t k S r))
     | (Destroy, Some (k, l)) \<Rightarrow>
         then_do (guard_destroy (rel t) (ls_mutex S))
           (\<lambda>m. Went (S\<lparr>ls_mutex := m, ls_guards := (ls_guards S)(t := None)\<rparr>))
     | _ \<Rightarrow> Undefined)"

primrec guard_run ::
  "'m acquire_fun \<Rightarrow> 'm release_fun \<Rightarrow> (nat \<times> guard_op) list \<Rightarrow> 'm lock_system \<Rightarrow> 'm lock_system outcome" where
  "guard_run acq rel [] S = Went S"
| "guard_run acq rel (x # xs) S = then_do (guard_do acq rel (fst x) (snd x) S) (guard_run acq rel xs)"

definition new_lock_system :: "'m \<Rightarrow> 'm lock_system" where
  "new_lock_system m = \<lparr>ls_mutex = m, ls_guards = \<lambda>_. None\<rparr>"

text \<open>Who is in the section the lock protects, and how.\<close>

definition holds :: "'m lock_system \<Rightarrow> nat \<Rightarrow> guard_kind option" where
  "holds S t = (case ls_guards S t of Some (k, True) \<Rightarrow> Some k | _ \<Rightarrow> None)"

text \<open>A scoped lock is only destroyed while it is locked.\<close>

primrec orderly ::
  "'m acquire_fun \<Rightarrow> 'm release_fun \<Rightarrow> (nat \<times> guard_op) list \<Rightarrow> 'm lock_system \<Rightarrow> bool" where
  "orderly acq rel [] S \<longleftrightarrow> True"
| "orderly acq rel (x # xs) S \<longleftrightarrow>
    (snd x = Destroy \<longrightarrow> holds S (fst x) \<noteq> None) \<and>
    (case guard_do acq rel (fst x) (snd x) S of Went S1 \<Rightarrow> orderly acq rel xs S1 | _ \<Rightarrow> True)"

text \<open>Only readers are together in the section.\<close>

definition exclusion :: "(nat \<Rightarrow> guard_kind option) \<Rightarrow> bool" where
  "exclusion h \<longleftrightarrow> (\<forall>t u k l. t \<noteq> u \<longrightarrow> h t = Some k \<longrightarrow> h u = Some l \<longrightarrow> k = ReadGuard \<and> l = ReadGuard)"

text \<open>
  What a scoped lock needs of a lock: a relation between the threads in the section and its state that locking and
  unlocking keep, that lets nobody in who must not be, and lets everybody in when nobody is.
\<close>

locale lockable =
  fixes acq :: "'m acquire_fun" and rel :: "'m release_fun" and start :: 'm
    and agrees :: "(nat \<Rightarrow> guard_kind option) \<Rightarrow> 'm \<Rightarrow> bool"
  assumes start_agrees: "agrees (\<lambda>_. None) start"
    and acquire_keeps: "agrees h m \<Longrightarrow> h t = None \<Longrightarrow> acq k t m = Went m1 \<Longrightarrow> agrees (h(t \<mapsto> k)) m1"
    and release_keeps: "agrees h m \<Longrightarrow> h t \<noteq> None \<Longrightarrow> \<exists>m1. rel t m = Went m1 \<and> agrees (h(t := None)) m1"
    and agrees_exclusion: "agrees h m \<Longrightarrow> exclusion h"
    and free_enters: "agrees (\<lambda>_. None) m \<Longrightarrow> \<exists>m1. acq k t m = Went m1"
begin

lemma step_keeps:
  assumes "agrees (holds S) (ls_mutex S)" "op = Destroy \<longrightarrow> holds S t \<noteq> None" "guard_do acq rel t op S = Went S1"
  shows "agrees (holds S1) (ls_mutex S1)"
proof -
  have upd: "holds (set_guard t k S (m, l)) = (holds S)(t := if l then Some k else None)" for k m l
    by (auto simp: holds_def set_guard_def fun_eq_iff split: bool.split option.split)
  have del: "holds (S\<lparr>ls_mutex := m, ls_guards := (ls_guards S)(t := None)\<rparr>) = (holds S)(t := None)" for m
    by (auto simp: holds_def fun_eq_iff)
  have same: "(holds S)(t := holds S t) = holds S" by simp
  show ?thesis
  proof (cases "ls_guards S t")
    case None
    then have "holds S t = None" by (simp add: holds_def)
    with assms None acquire_keeps upd show ?thesis
      by (cases op) (auto simp: guard_new_def then_do_Went set_guard_def)
  next
    case (Some g)
    obtain k l where g: "g = (k, l)" by fastforce
    have h: "holds S t = (if l then Some k else None)" using Some g by (simp add: holds_def)
    show ?thesis
    proof (cases op)
      case (Construct x)
      with assms(3) Some show ?thesis by simp
    next
      case Lock_again
      show ?thesis
      proof (cases l)
        case True
        then have "S1 = set_guard t k S (ls_mutex S, True)"
          using assms(3) Lock_again Some g by (simp add: guard_lock_def)
        then show ?thesis using upd [of k "ls_mutex S" True] same h True assms(1) by (simp add: set_guard_def)
      next
        case False
        then obtain m1 where m1: "acq k t (ls_mutex S) = Went m1" "S1 = set_guard t k S (m1, True)"
          using assms(3) Lock_again Some g by (auto simp: guard_lock_def then_do_Went)
        then show ?thesis
          using upd [of k m1 True] acquire_keeps [OF assms(1) _ m1(1)] h False by (simp add: set_guard_def)
      qed
    next
      case Unlock_early
      show ?thesis
      proof (cases l)
        case True
        obtain m1 where "rel t (ls_mutex S) = Went m1" "agrees ((holds S)(t := None)) m1"
          using release_keeps [OF assms(1), of t] h True by auto
        with assms(3) Unlock_early Some g True upd show ?thesis by (auto simp: guard_unlock_def set_guard_def)
      next
        case False
        then have "agrees ((holds S)(t := None)) (ls_mutex S)" using assms(1) h by (metis fun_upd_triv)
        moreover have "S1 = set_guard t k S (ls_mutex S, False)"
          using assms(3) Unlock_early Some g False by (simp add: guard_unlock_def)
        ultimately show ?thesis using upd [of k "ls_mutex S" False] by (simp add: set_guard_def)
      qed
    next
      case Destroy
      obtain m1 where "rel t (ls_mutex S) = Went m1" "agrees ((holds S)(t := None)) m1"
        using release_keeps [OF assms(1), of t] assms(2) Destroy by auto
      with assms(3) Destroy Some g del show ?thesis by (auto simp: guard_destroy_def)
    qed
  qed
qed

lemma run_keeps:
  assumes "agrees (holds S) (ls_mutex S)" "orderly acq rel xs S" "guard_run acq rel xs S = Went S1"
  shows "agrees (holds S1) (ls_mutex S1)"
  using assms
proof (induction xs arbitrary: S)
  case (Cons x xs)
  from Cons.prems(3) obtain S2 where S2: "guard_do acq rel (fst x) (snd x) S = Went S2" "guard_run acq rel xs S2 = Went S1"
    by (auto simp: then_do_Went)
  have "agrees (holds S2) (ls_mutex S2)"
    by (rule step_keeps [OF Cons.prems(1) _ S2(1)]) (use Cons.prems(2) in simp)
  moreover have "orderly acq rel xs S2" using Cons.prems(2) S2(1) by simp
  ultimately show ?case using Cons.IH S2(2) by blast
qed simp

lemma holds_start: "holds (new_lock_system start) = (\<lambda>_. None)"
  by (simp add: holds_def new_lock_system_def fun_eq_iff)

lemma run_agrees:
  assumes "orderly acq rel xs (new_lock_system start)" "guard_run acq rel xs (new_lock_system start) = Went S"
  shows "agrees (holds S) (ls_mutex S)"
proof -
  have "agrees (holds (new_lock_system start)) (ls_mutex (new_lock_system start))"
    using start_agrees holds_start by (simp add: new_lock_system_def)
  from run_keeps [OF this assms] show ?thesis .
qed

lemma run_exclusion:
  assumes "orderly acq rel xs (new_lock_system start)" "guard_run acq rel xs (new_lock_system start) = Went S"
  shows "exclusion (holds S) \<and>
    (holds S = (\<lambda>_. None) \<longrightarrow> ls_guards S t = None \<longrightarrow> (\<exists>S1. guard_do acq rel t (Construct k) S = Went S1 \<and> holds S1 t = Some k))"
proof -
  note a = run_agrees [OF assms]
  moreover have "\<exists>S1. guard_do acq rel t (Construct k) S = Went S1 \<and> holds S1 t = Some k"
    if "holds S = (\<lambda>_. None)" "ls_guards S t = None"
    using free_enters [of "ls_mutex S" k t] a that by (auto simp: guard_new_def set_guard_def holds_def)
  ultimately show ?thesis using agrees_exclusion by blast
qed

end

section \<open>The locks of the program\<close>

definition at_most_one :: "(nat \<Rightarrow> guard_kind option) \<Rightarrow> bool" where
  "at_most_one h \<longleftrightarrow> (\<forall>t u. h t \<noteq> None \<longrightarrow> h u \<noteq> None \<longrightarrow> t = u)"

definition exclusive_agrees :: "(nat \<Rightarrow> guard_kind option) \<Rightarrow> exclusive \<Rightarrow> bool" where
  "exclusive_agrees h m \<longleftrightarrow> (\<forall>t. h t \<noteq> None \<longleftrightarrow> m = Some t)"

definition CAS_agrees :: "(nat \<Rightarrow> guard_kind option) \<Rightarrow> bool \<Rightarrow> bool" where
  "CAS_agrees h flag \<longleftrightarrow> at_most_one h \<and> flag = (\<exists>t. h t \<noteq> None)"

definition RW_agrees :: "(nat \<Rightarrow> guard_kind option) \<Rightarrow> RWMutex \<Rightarrow> bool" where
  "RW_agrees h m \<longleftrightarrow> distinct (rw_readers m) \<and> (rw_writer m \<noteq> None \<longrightarrow> rw_readers m = []) \<and>
    (\<forall>t. (h t = Some ReadGuard \<longleftrightarrow> t \<in> set (rw_readers m)) \<and> (h t = Some WriteGuard \<longleftrightarrow> rw_writer m = Some t))"

definition RWMutex_acquire :: "guard_kind \<Rightarrow> nat \<Rightarrow> RWMutex \<Rightarrow> RWMutex outcome" where
  "RWMutex_acquire k t m = (case k of ReadGuard \<Rightarrow> RWMutex_rdlock t m | WriteGuard \<Rightarrow> RWMutex_wrlock t m)"

lemma option_kind: "x = None \<or> x = Some ReadGuard \<or> x = Some WriteGuard"
  by (cases x) (use guard_kind.exhaust in auto)

interpretation exclusive: lockable "\<lambda>_. exclusive_lock" exclusive_unlock new_exclusive exclusive_agrees
proof unfold_locales
  show "exclusive_agrees (h(t \<mapsto> k)) m1" if "exclusive_agrees h m" "h t = None" "exclusive_lock t m = Went m1" for h m t k m1
    using that by (auto simp: exclusive_agrees_def exclusive_lock_def split: option.split_asm)
  show "\<exists>m1. exclusive_unlock t m = Went m1 \<and> exclusive_agrees (h(t := None)) m1"
    if "exclusive_agrees h m" "h t \<noteq> None" for h m t
    using that by (auto simp: exclusive_agrees_def exclusive_unlock_def)
  show "exclusion h" if "exclusive_agrees h m" for h m
    unfolding exclusion_def
  proof (intro allI impI)
    fix t u k l assume a: "t \<noteq> u" "h t = Some k" "h u = Some l"
    then have "m = Some t" "m = Some u" using that unfolding exclusive_agrees_def by (metis option.distinct(1))+
    with a(1) show "k = ReadGuard \<and> l = ReadGuard" by simp
  qed
  show "\<exists>m1. exclusive_lock t m = Went m1" if "exclusive_agrees (\<lambda>_. None) m" for m t
    using that by (cases m) (auto simp: exclusive_agrees_def exclusive_lock_def)
qed (simp add: exclusive_agrees_def new_exclusive_def)

interpretation CASLock: lockable "\<lambda>_. CASLock_lock" CASLock_unlock new_CASLock CAS_agrees
proof unfold_locales
  show "CAS_agrees (h(t \<mapsto> k)) m1" if "CAS_agrees h m" "h t = None" "CASLock_lock t m = Went m1" for h m t k m1
    using that by (auto simp: CAS_agrees_def CASLock_lock_def at_most_one_def split: if_split_asm)
  show "\<exists>m1. CASLock_unlock t m = Went m1 \<and> CAS_agrees (h(t := None)) m1" if "CAS_agrees h m" "h t \<noteq> None" for h m t
    using that by (auto simp: CAS_agrees_def CASLock_unlock_def at_most_one_def)
  show "exclusion h" if "CAS_agrees h m" for h m
    using that unfolding exclusion_def CAS_agrees_def at_most_one_def by (metis option.distinct(1))
qed (auto simp: CAS_agrees_def CASLock_lock_def new_CASLock_def at_most_one_def)

lemma RW_agreesD:
  assumes "RW_agrees h m"
  shows "distinct (rw_readers m)" "rw_writer m \<noteq> None \<Longrightarrow> rw_readers m = []"
    "h t = Some ReadGuard \<longleftrightarrow> t \<in> set (rw_readers m)" "h t = Some WriteGuard \<longleftrightarrow> rw_writer m = Some t"
  using assms by (auto simp: RW_agrees_def)

lemma RW_acquire_keeps:
  assumes "RW_agrees h m" "h t = None" "RWMutex_acquire k t m = Went m1"
  shows "RW_agrees (h(t \<mapsto> k)) m1"
proof -
  note D = RW_agreesD [OF assms(1)]
  have no: "t \<notin> set (rw_readers m)" using D(3) [of t] assms(2) by simp
  show ?thesis
  proof (cases k)
    case ReadGuard
    then have m: "rw_writer m = None" "m1 = m\<lparr>rw_readers := t # rw_readers m\<rparr>"
      using assms(3) by (simp_all add: RWMutex_acquire_def RWMutex_rdlock_def split: if_split_asm)
    show ?thesis unfolding RW_agrees_def using D(1) no ReadGuard m(1) D(3,4) by (simp add: m(2))
  next
    case WriteGuard
    then have m: "rw_writer m = None" "rw_readers m = []" "m1 = m\<lparr>rw_writer := Some t\<rparr>"
      using assms(3) by (simp_all add: RWMutex_acquire_def RWMutex_wrlock_def split: if_split_asm)
    show ?thesis unfolding RW_agrees_def using WriteGuard m(1,2) D(3,4) by (simp add: m(3))
  qed
qed

lemma RW_release_keeps:
  assumes "RW_agrees h m" "h t \<noteq> None"
  shows "\<exists>m1. RWMutex_unlock t m = Went m1 \<and> RW_agrees (h(t := None)) m1"
proof -
  note D = RW_agreesD [OF assms(1)]
  from assms(2) option_kind [of "h t"] consider "h t = Some WriteGuard" | "h t = Some ReadGuard" by auto
  then show ?thesis
  proof cases
    case 1
    then have w: "rw_writer m = Some t" "rw_readers m = []" using D(2,4) by auto
    have "RW_agrees (h(t := None)) (m\<lparr>rw_writer := None\<rparr>)"
      unfolding RW_agrees_def
    proof (intro conjI allI)
      show "((h(t := None)) x = Some WriteGuard) = (rw_writer (m\<lparr>rw_writer := None\<rparr>) = Some x)" for x
        using D(4) [of x] w(1) by simp
      show "((h(t := None)) x = Some ReadGuard) = (x \<in> set (rw_readers (m\<lparr>rw_writer := None\<rparr>)))" for x
        using D(3) [of x] w(2) by simp
    qed (use w in simp_all)
    then show ?thesis by (simp add: RWMutex_unlock_def w(1))
  next
    case 2
    then have r: "t \<in> set (rw_readers m)" "rw_writer m = None" using D(2,3) by force+
    have "RW_agrees (h(t := None)) (m\<lparr>rw_readers := remove1 t (rw_readers m)\<rparr>)"
      unfolding RW_agrees_def using r D(1,3,4) by simp
    then show ?thesis by (simp add: RWMutex_unlock_def r)
  qed
qed

lemma RW_exclusion:
  assumes "RW_agrees h m"
  shows "exclusion h"
  unfolding exclusion_def
proof (intro allI impI)
  fix t u k l
  assume a: "t \<noteq> u" "h t = Some k" "h u = Some l"
  have no_writer: "k \<noteq> WriteGuard" if "t \<noteq> u" "h t = Some k" "h u = Some l" for t u k l
  proof
    assume "k = WriteGuard"
    then have w: "rw_writer m = Some t" "rw_readers m = []" using RW_agreesD(2,4) [OF assms] that(2) by auto
    show False
      using RW_agreesD(3,4) [OF assms, of u] that(1,3) w by (cases l) auto
  qed
  from no_writer [OF a] no_writer [of u t l k] a show "k = ReadGuard \<and> l = ReadGuard"
    by (cases k; cases l) auto
qed

interpretation RWMutex: lockable RWMutex_acquire RWMutex_unlock new_RWMutex RW_agrees
proof unfold_locales
  show "\<exists>m1. RWMutex_acquire k t m = Went m1" if "RW_agrees (\<lambda>_. None) m" for m k t
  proof -
    have "rw_writer m = None" using RW_agreesD(4) [OF that] by (cases "rw_writer m") auto
    moreover have "rw_readers m = []" using RW_agreesD(3) [OF that] by (cases "rw_readers m") auto
    ultimately show ?thesis
      by (cases k) (simp_all add: RWMutex_acquire_def RWMutex_rdlock_def RWMutex_wrlock_def)
  qed
qed (simp_all add: RW_acquire_keeps RW_release_keeps [simplified] RW_exclusion, simp add: RW_agrees_def new_RWMutex_def)

text \<open>
  C26. Readers and writers: in any run of threads that use scoped locks on one read-write lock, unlocking and locking them
  again as they like, but destroying none that is unlocked, a writer is never together with another writer or a
  reader; and when nobody is in the section, the next thread enters at once.
\<close>

theorem readers_writers_exclusion:
  assumes "orderly RWMutex_acquire RWMutex_unlock xs (new_lock_system new_RWMutex)"
    "guard_run RWMutex_acquire RWMutex_unlock xs (new_lock_system new_RWMutex) = Went S"
  shows "(t \<noteq> u \<longrightarrow> holds S t = Some WriteGuard \<longrightarrow> holds S u = None) \<and>
    (holds S = (\<lambda>_. None) \<longrightarrow> ls_guards S t = None \<longrightarrow>
      (\<exists>S1. guard_do RWMutex_acquire RWMutex_unlock t (Construct k) S = Went S1 \<and> holds S1 t = Some k))"
  using RWMutex.run_exclusion [OF assms, of t k] unfolding exclusion_def
  by (metis guard_kind.distinct(1) not_None_eq)

theorem readers_writers_exclusion_witness:
  "\<exists>S. guard_run RWMutex_acquire RWMutex_unlock
      [(1, Construct ReadGuard), (2, Construct ReadGuard), (1, Unlock_early), (2, Destroy), (1, Lock_again), (1, Destroy),
       (3, Construct WriteGuard)] (new_lock_system new_RWMutex) = Went S \<and>
    holds S 3 = Some WriteGuard \<and> holds S 1 = None"
proof -
  let ?xs = "[(1, Construct ReadGuard), (2, Construct ReadGuard), (1, Unlock_early), (2, Destroy), (1, Lock_again), (1, Destroy),
       (3, Construct WriteGuard)]"
  note run = RWMutex_acquire_def RWMutex_rdlock_def RWMutex_wrlock_def RWMutex_unlock_def new_RWMutex_def new_lock_system_def
    guard_new_def guard_lock_def guard_unlock_def guard_destroy_def set_guard_def holds_def
  obtain S where S: "guard_run RWMutex_acquire RWMutex_unlock ?xs (new_lock_system new_RWMutex) = Went S"
    "holds S 3 = Some WriteGuard"
    by (simp add: run)
  have "orderly RWMutex_acquire RWMutex_unlock ?xs (new_lock_system new_RWMutex)" by (simp add: run)
  from readers_writers_exclusion [OF this S(1), of 3 1] S show ?thesis by auto
qed

text \<open>
  A scoped lock that was unlocked early still unlocks when it is destroyed.  With \<^verbatim>\<open>CASLock\<close> this lets the next thread
  into the section although another one is in it; with a mutex or a spin lock it is undefined, with or without
  another thread.
\<close>

theorem early_unlock_breaks_exclusion:
  assumes "ls_guards S t = Some (WriteGuard, False)" "holds S u = Some WriteGuard" "ls_guards S v = None" "t \<noteq> v"
  shows "(\<exists>S1 S2. guard_do (\<lambda>_. CASLock_lock) CASLock_unlock t Destroy S = Went S1 \<and>
      guard_do (\<lambda>_. CASLock_lock) CASLock_unlock v (Construct WriteGuard) S1 = Went S2 \<and> u \<noteq> v \<and>
      holds S2 u = Some WriteGuard \<and> holds S2 v = Some WriteGuard) \<and>
    guard_run (\<lambda>_. exclusive_lock) exclusive_unlock [(t, Construct WriteGuard), (t, Unlock_early), (t, Destroy)]
      (new_lock_system new_exclusive) = Undefined"
proof -
  let ?S1 = "S\<lparr>ls_mutex := False, ls_guards := (ls_guards S)(t := None)\<rparr>"
  have 1: "guard_do (\<lambda>_. CASLock_lock) CASLock_unlock t Destroy S = Went ?S1"
    using assms(1) by (simp add: guard_destroy_def CASLock_unlock_def)
  let ?S2 = "set_guard v WriteGuard ?S1 (True, True)"
  have 2: "guard_do (\<lambda>_. CASLock_lock) CASLock_unlock v (Construct WriteGuard) ?S1 = Went ?S2"
    using assms(3,4) by (simp add: guard_new_def CASLock_lock_def)
  have uv: "u \<noteq> v" "u \<noteq> t" using assms by (auto simp: holds_def)
  then have "holds ?S2 u = Some WriteGuard" "holds ?S2 v = Some WriteGuard"
    using assms(2) by (simp_all add: holds_def set_guard_def)
  with 1 2 uv have "\<exists>S1 S2. guard_do (\<lambda>_. CASLock_lock) CASLock_unlock t Destroy S = Went S1 \<and>
    guard_do (\<lambda>_. CASLock_lock) CASLock_unlock v (Construct WriteGuard) S1 = Went S2 \<and> u \<noteq> v \<and>
    holds S2 u = Some WriteGuard \<and> holds S2 v = Some WriteGuard" by blast
  moreover have "guard_run (\<lambda>_. exclusive_lock) exclusive_unlock [(t, Construct WriteGuard), (t, Unlock_early), (t, Destroy)]
      (new_lock_system new_exclusive) = Undefined"
    by (simp add: guard_new_def guard_unlock_def guard_destroy_def exclusive_lock_def exclusive_unlock_def
        new_exclusive_def new_lock_system_def set_guard_def)
  ultimately show ?thesis by blast
qed

theorem early_unlock_breaks_exclusion_witness:
  "\<exists>S S2. guard_run (\<lambda>_. CASLock_lock) CASLock_unlock
      [(1, Construct WriteGuard), (1, Unlock_early), (2, Construct WriteGuard)] (new_lock_system new_CASLock) = Went S \<and>
    guard_run (\<lambda>_. CASLock_lock) CASLock_unlock [(1, Destroy), (3, Construct WriteGuard)] S = Went S2 \<and>
    holds S2 2 = Some WriteGuard \<and> holds S2 3 = Some WriteGuard"
proof -
  note run = CASLock_lock_def CASLock_unlock_def new_CASLock_def new_lock_system_def guard_new_def guard_unlock_def set_guard_def
  obtain S where S: "guard_run (\<lambda>_. CASLock_lock) CASLock_unlock
      [(1, Construct WriteGuard), (1, Unlock_early), (2, Construct WriteGuard)] (new_lock_system new_CASLock) = Went S"
    "ls_guards S 1 = Some (WriteGuard, False)" "holds S 2 = Some WriteGuard" "ls_guards S 3 = None"
    by (simp add: run holds_def)
  from early_unlock_breaks_exclusion [THEN conjunct1, OF S(2-4)]
  obtain S1 S2 where "guard_do (\<lambda>_. CASLock_lock) CASLock_unlock 1 Destroy S = Went S1"
    "guard_do (\<lambda>_. CASLock_lock) CASLock_unlock 3 (Construct WriteGuard) S1 = Went S2"
    "holds S2 2 = Some WriteGuard" "holds S2 3 = Some WriteGuard" by auto
  then have "guard_run (\<lambda>_. CASLock_lock) CASLock_unlock [(1, Destroy), (3, Construct WriteGuard)] S = Went S2"
    by (simp del: guard_do.simps)
  with S(1) \<open>holds S2 2 = Some WriteGuard\<close> \<open>holds S2 3 = Some WriteGuard\<close> show ?thesis by blast
qed

text \<open>
  The same discipline gives mutual exclusion with a mutex, a spin lock and \<^verbatim>\<open>CASLock\<close>: of two threads, at most one is in
  the section.
\<close>

theorem mutual_exclusion:
  assumes "t \<noteq> u"
  shows "(orderly (\<lambda>_. exclusive_lock) exclusive_unlock xs (new_lock_system new_exclusive) \<longrightarrow>
      guard_run (\<lambda>_. exclusive_lock) exclusive_unlock xs (new_lock_system new_exclusive) = Went S \<longrightarrow>
      holds S t = None \<or> holds S u = None) \<and>
    (orderly (\<lambda>_. CASLock_lock) CASLock_unlock xs (new_lock_system new_CASLock) \<longrightarrow>
      guard_run (\<lambda>_. CASLock_lock) CASLock_unlock xs (new_lock_system new_CASLock) = Went R \<longrightarrow>
      holds R t = None \<or> holds R u = None)"
proof (intro conjI impI)
  assume "orderly (\<lambda>_. exclusive_lock) exclusive_unlock xs (new_lock_system new_exclusive)"
    "guard_run (\<lambda>_. exclusive_lock) exclusive_unlock xs (new_lock_system new_exclusive) = Went S"
  from exclusive.run_agrees [OF this] show "holds S t = None \<or> holds S u = None"
    using assms unfolding exclusive_agrees_def by (metis option.inject)
next
  assume "orderly (\<lambda>_. CASLock_lock) CASLock_unlock xs (new_lock_system new_CASLock)"
    "guard_run (\<lambda>_. CASLock_lock) CASLock_unlock xs (new_lock_system new_CASLock) = Went R"
  from CASLock.run_agrees [OF this] show "holds R t = None \<or> holds R u = None"
    using assms unfolding CAS_agrees_def at_most_one_def by metis
qed

theorem mutual_exclusion_witness:
  "\<exists>R. guard_run (\<lambda>_. CASLock_lock) CASLock_unlock
      [(1, Construct WriteGuard), (1, Unlock_early), (2, Construct WriteGuard)] (new_lock_system new_CASLock) = Went R \<and>
    holds R 1 = None \<and> holds R 2 = Some WriteGuard"
proof -
  let ?xs = "[(1, Construct WriteGuard), (1, Unlock_early), (2, Construct WriteGuard)]"
  note run = CASLock_lock_def CASLock_unlock_def new_CASLock_def new_lock_system_def guard_new_def guard_unlock_def
    set_guard_def holds_def
  obtain R where R: "guard_run (\<lambda>_. CASLock_lock) CASLock_unlock ?xs (new_lock_system new_CASLock) = Went R"
    "holds R 2 = Some WriteGuard"
    by (simp add: run)
  have ordered: "orderly (\<lambda>_. CASLock_lock) CASLock_unlock ?xs (new_lock_system new_CASLock)" by (simp add: run)
  have "1 \<noteq> (2 :: nat)" by simp
  from mutual_exclusion [OF this, THEN conjunct2, rule_format, OF ordered R(1)]
  have "holds R 1 = None \<or> holds R 2 = None" .
  with R show ?thesis by auto
qed

end
