(* ===== verification/HttpConnection.thy ===== *)
theory HttpConnection
  imports HttpSession Uri Locks
begin

text \<open>
  \<^verbatim>\<open>http/http_connection.cpp\<close>: requests made over a fresh connection and over a pool of connections.  The
  network, name resolution, the clock, \<^verbatim>\<open>errno\<close> and \<^verbatim>\<open>strerror\<close> are arguments (\<open>client\<close>).  Smart pointers that run
  out of scope destroy the stream and its socket; a \<^verbatim>\<open>std::map\<close> of headers is the list of its pairs in order.
\<close>

section \<open>Results\<close>

definition RESULT_OK :: nat where "RESULT_OK = 0"
definition INVALID_URL :: nat where "INVALID_URL = 1"
definition INVALID_HOST :: nat where "INVALID_HOST = 2"
definition CONNECT_FAIL :: nat where "CONNECT_FAIL = 3"
definition SEND_CLOSE_BY_PEER :: nat where "SEND_CLOSE_BY_PEER = 4"
definition SEND_SOCKET_ERROR :: nat where "SEND_SOCKET_ERROR = 5"
definition RESULT_TIMEOUT :: nat where "RESULT_TIMEOUT = 6"
definition CREATE_SOCKET_ERROR :: nat where "CREATE_SOCKET_ERROR = 7"
definition POOL_GET_CONNECTION :: nat where "POOL_GET_CONNECTION = 8"
definition POOL_INVALID_CONNECTION :: nat where "POOL_INVALID_CONNECTION = 9"

lemmas result_codes = RESULT_OK_def INVALID_URL_def INVALID_HOST_def CONNECT_FAIL_def SEND_CLOSE_BY_PEER_def
  SEND_SOCKET_ERROR_def RESULT_TIMEOUT_def CREATE_SOCKET_ERROR_def POOL_GET_CONNECTION_def POOL_INVALID_CONNECTION_def

record 'm HttpResult =
  r_result :: nat
  r_response :: "'m HttpResponse option"
  r_error :: string

definition fail_with :: "nat \<Rightarrow> string \<Rightarrow> 'm HttpResult" where
  "fail_with code msg = \<lparr>r_result = code, r_response = None, r_error = msg\<rparr>"

definition HttpResult_toString :: "'m map_ops \<Rightarrow> 'm HttpResult \<Rightarrow> string" where
  "HttpResult_toString mops r =
    ''[HttpResult result='' @ dec (r_result r) @ '' error='' @ r_error r @ '' response='' @
    (case r_response r of None \<Rightarrow> ''nullptr'' | Some rsp \<Rightarrow> rsp_dump mops rsp) @ '']''"

text \<open>\<open>Failed\<close> is an exception that leaves the function or an access that is undefined.\<close>

datatype ('r, 'w) outcome = Returned 'r 'w | Failed | Running

record ('m, 'w) client =
  c_mops :: "'m map_ops"
  c_mx :: u32
  c_net :: "'w net"
  c_gai :: getaddrinfo
  c_errno :: "'w \<Rightarrow> int"
  c_strerror :: "int \<Rightarrow> string"
  c_now :: "'w \<Rightarrow> u64"
  c_fuel :: nat

section \<open>The request\<close>

text \<open>One round of the loop over the headers: the request so far and \<^verbatim>\<open>has_host\<close>.\<close>

definition header_step ::
  "'m map_ops \<Rightarrow> string \<times> string \<Rightarrow> 'm HttpRequest \<times> bool \<Rightarrow> 'm HttpRequest \<times> bool" where
  "header_step mops h acc =
    (case h of (k, v) \<Rightarrow> case acc of (req, has_host) \<Rightarrow>
       if strcasecmp (c_str k) ''connection'' = 0 then
         (if strcasecmp (c_str v) ''keep-alive'' = 0 then req\<lparr>req_close := False\<rparr> else req, has_host)
       else
         (setHeader mops k v req,
          if \<not> has_host \<and> strcasecmp (c_str k) ''host'' = 0 then v \<noteq> [] else has_host))"

text \<open>What both functions \<^verbatim>\<open>DoRequest\<close> and \<^verbatim>\<open>doRequest\<close> do after the path is set, given the name of the host.\<close>

definition add_headers :: "'m map_ops \<Rightarrow> (string \<times> string) list \<Rightarrow> string \<Rightarrow> string \<Rightarrow> 'm HttpRequest \<Rightarrow> 'm HttpRequest" where
  "add_headers mops headers hostname body req0 =
    (case fold (header_step mops) headers (req0, False) of (req, has_host) \<Rightarrow>
       (if \<not> has_host then setHeader mops ''Host'' hostname req else req)\<lparr>req_body := body\<rparr>)"

definition make_request ::
  "'m map_ops \<Rightarrow> HttpMethod \<Rightarrow> Uri \<Rightarrow> (string \<times> string) list \<Rightarrow> string \<Rightarrow> 'm HttpRequest" where
  "make_request mops method uri headers body =
    add_headers mops headers (host uri) body
      ((new_HttpRequest mops 0x11 True)
        \<lparr>req_path := uri_getPath uri, req_query := query uri, req_fragment := fragment uri, req_method := method\<rparr>)"

section \<open>Requests over a connection of their own\<close>

definition end_connection :: "'w net \<Rightarrow> SocketStream \<Rightarrow> 'w \<Rightarrow> 'w" where
  "end_connection net S w = (case destroy_SocketStream net S w of (S', w') \<Rightarrow>
      case m_socket S' of None \<Rightarrow> w' | Some s \<Rightarrow> destroy_Socket net s w')"

definition errno_text :: "('m, 'w) client \<Rightarrow> 'w \<Rightarrow> string" where
  "errno_text E w = dec_int (c_errno E w) @ '' errstr='' @ c_strerror E (c_errno E w)"

text \<open>\<^verbatim>\<open>std::make_shared\<close> gives no null pointer, so \<^verbatim>\<open>CREATE_SOCKET_ERROR\<close> does not occur.\<close>

definition DoRequest_req ::
  "('m, 'w) client \<Rightarrow> 'm HttpRequest \<Rightarrow> Uri \<Rightarrow> u64 \<Rightarrow> 'w \<Rightarrow> ('m HttpResult, 'w) outcome" where
  "DoRequest_req E req uri timeout_ms w =
    (case uri_createAddress (c_gai E) uri of
       Inl e \<Rightarrow> Failed
     | Inr None \<Rightarrow> Returned (fail_with INVALID_HOST (''invalid host: '' @ host uri)) w
     | Inr (Some addr) \<Rightarrow>
         (case Socket_connect (c_net E) addr (-1) (CreateTCP addr) w of (ok, sock, w1) \<Rightarrow>
            if \<not> ok then
              (case Address_toString addr of
                 Inl e \<Rightarrow> Failed
               | Inr t \<Rightarrow> Returned (fail_with CONNECT_FAIL (''connect fail: '' @ t)) (destroy_Socket (c_net E) sock w1))
            else
              let w2 = setRecvTimeout (c_net E) (sint timeout_ms) sock w1;
                  conn = \<lparr>m_socket = Some sock, m_owner = True\<rparr>
              in (case sendRequest (c_fuel E) (c_mops E) (c_net E) req conn w2 of
                    Fix_bad \<Rightarrow> Failed
                  | Fix_running \<Rightarrow> Running
                  | Fix_return ret w3 \<Rightarrow>
                      if ret = 0 then
                        (case Address_toString addr of
                           Inl e \<Rightarrow> Failed
                         | Inr t \<Rightarrow> Returned (fail_with SEND_CLOSE_BY_PEER (''send request closed by peer: '' @ t))
                             (end_connection (c_net E) conn w3))
                      else if ret < 0 then
                        Returned (fail_with SEND_SOCKET_ERROR (''send request socket error errno='' @ errno_text E w3))
                          (end_connection (c_net E) conn w3)
                      else
                        (case recvResponse (c_fuel E) (c_mops E) (c_mx E) (c_net E) conn w3 of
                           Recv_bad \<Rightarrow> Failed
                         | Recv_running \<Rightarrow> Running
                         | Refused conn' w4 \<Rightarrow>
                             (case Address_toString addr of
                                Inl e \<Rightarrow> Failed
                              | Inr t \<Rightarrow> Returned (fail_with RESULT_TIMEOUT
                                    (''recv response timeout: '' @ t @ '' timeout_ms:'' @ dec (unat timeout_ms)))
                                  (end_connection (c_net E) conn' w4))
                         | Received rsp conn' w4 \<Rightarrow>
                             Returned \<lparr>r_result = RESULT_OK, r_response = Some rsp, r_error = ''ok''\<rparr>
                               (end_connection (c_net E) conn' w4)))))"

definition DoRequest ::
  "('m, 'w) client \<Rightarrow> HttpMethod \<Rightarrow> Uri \<Rightarrow> u64 \<Rightarrow> (string \<times> string) list \<Rightarrow> string \<Rightarrow> 'w \<Rightarrow> ('m HttpResult, 'w) outcome" where
  "DoRequest E method uri timeout_ms headers body w =
    DoRequest_req E (make_request (c_mops E) method uri headers body) uri timeout_ms w"

definition with_url ::
  "string \<Rightarrow> (Uri \<Rightarrow> 'w \<Rightarrow> ('m HttpResult, 'w) outcome) \<Rightarrow> 'w \<Rightarrow> ('m HttpResult, 'w) outcome" where
  "with_url url f w =
    (case Uri_Create url of
       Inl e \<Rightarrow> Failed
     | Inr None \<Rightarrow> Returned (fail_with INVALID_URL (''invalid url: '' @ url)) w
     | Inr (Some uri) \<Rightarrow> f uri w)"

definition DoRequest_url ::
  "('m, 'w) client \<Rightarrow> HttpMethod \<Rightarrow> string \<Rightarrow> u64 \<Rightarrow> (string \<times> string) list \<Rightarrow> string \<Rightarrow> 'w \<Rightarrow> ('m HttpResult, 'w) outcome" where
  "DoRequest_url E method url timeout_ms headers body w =
    with_url url (\<lambda>uri. DoRequest E method uri timeout_ms headers body) w"

definition METHOD_POST :: HttpMethod where "METHOD_POST = 3"

definition DoGet ::
  "('m, 'w) client \<Rightarrow> Uri \<Rightarrow> u64 \<Rightarrow> (string \<times> string) list \<Rightarrow> string \<Rightarrow> 'w \<Rightarrow> ('m HttpResult, 'w) outcome" where
  "DoGet E uri timeout_ms headers body w = DoRequest E METHOD_GET uri timeout_ms headers body w"

definition DoGet_url ::
  "('m, 'w) client \<Rightarrow> string \<Rightarrow> u64 \<Rightarrow> (string \<times> string) list \<Rightarrow> string \<Rightarrow> 'w \<Rightarrow> ('m HttpResult, 'w) outcome" where
  "DoGet_url E url timeout_ms headers body w = with_url url (\<lambda>uri. DoGet E uri timeout_ms headers body) w"

definition DoPost ::
  "('m, 'w) client \<Rightarrow> Uri \<Rightarrow> u64 \<Rightarrow> (string \<times> string) list \<Rightarrow> string \<Rightarrow> 'w \<Rightarrow> ('m HttpResult, 'w) outcome" where
  "DoPost E uri timeout_ms headers body w = DoRequest E METHOD_POST uri timeout_ms headers body w"

definition DoPost_url ::
  "('m, 'w) client \<Rightarrow> string \<Rightarrow> u64 \<Rightarrow> (string \<times> string) list \<Rightarrow> string \<Rightarrow> 'w \<Rightarrow> ('m HttpResult, 'w) outcome" where
  "DoPost_url E url timeout_ms headers body w = with_url url (\<lambda>uri. DoPost E uri timeout_ms headers body) w"

section \<open>The pool\<close>

record HttpConnection =
  hc_stream :: SocketStream
  hc_createTime :: u64
  hc_request :: u64

definition new_HttpConnection :: "Socket \<Rightarrow> HttpConnection" where
  "new_HttpConnection sock =
    \<lparr>hc_stream = \<lparr>m_socket = Some sock, m_owner = True\<rparr>, hc_createTime = 0, hc_request = 0\<rparr>"

record HttpConnectionPool =
  p_host :: string
  p_vhost :: string
  p_port :: u32
  p_maxSize :: u32
  p_maxAliveTime :: u32
  p_maxRequest :: u32
  p_conns :: "HttpConnection list"
  p_total :: u32

definition new_HttpConnectionPool :: "string \<Rightarrow> string \<Rightarrow> u32 \<Rightarrow> u32 \<Rightarrow> u32 \<Rightarrow> u32 \<Rightarrow> HttpConnectionPool" where
  "new_HttpConnectionPool hst vhost prt max_size max_alive_time max_request =
    \<lparr>p_host = hst, p_vhost = vhost, p_port = prt, p_maxSize = max_size, p_maxAliveTime = max_alive_time,
     p_maxRequest = max_request, p_conns = [], p_total = 0\<rparr>"

definition hc_connected :: "HttpConnection \<Rightarrow> bool" where
  "hc_connected c \<longleftrightarrow> stream_connected (hc_stream c)"

text \<open>The loop over the idle connections: the one taken, the ones found invalid, the ones left.\<close>

primrec take_conn ::
  "u32 \<Rightarrow> u64 \<Rightarrow> HttpConnection list \<Rightarrow> HttpConnection option \<times> HttpConnection list \<times> HttpConnection list" where
  "take_conn maxAliveTime now_ms [] = (None, [], [])"
| "take_conn maxAliveTime now_ms (conn # conns) =
    (if \<not> hc_connected conn \<or> hc_createTime conn + ucast maxAliveTime > now_ms then
       (case take_conn maxAliveTime now_ms conns of (ptr, invalid, rest) \<Rightarrow> (ptr, conn # invalid, rest))
     else (Some conn, [], conns))"

definition getConnection ::
  "('m, 'w) client \<Rightarrow> HttpConnectionPool \<Rightarrow> 'w \<Rightarrow> (addr_error + HttpConnection option) \<times> HttpConnectionPool \<times> 'w" where
  "getConnection E P w =
    (case take_conn (p_maxAliveTime P) (c_now E w) (p_conns P) of (ptr, invalid, rest) \<Rightarrow>
       let w1 = fold (\<lambda>c. end_connection (c_net E) (hc_stream c)) invalid w;
           P1 = P\<lparr>p_conns := rest, p_total := p_total P - of_nat (length invalid)\<rparr>
       in (case ptr of
             Some conn \<Rightarrow> (Inr (Some conn), P1, w1)
           | None \<Rightarrow>
               (case LookUpAnyIPAddress (c_gai E) (p_host P) AF_UNSPEC 0 0 of
                  Inl e \<Rightarrow> (Inl e, P1, w1)
                | Inr None \<Rightarrow> (Inr None, P1, w1)
                | Inr (Some addr0) \<Rightarrow>
                    let addr = setPort (p_port P) addr0 in
                    (case Socket_connect (c_net E) addr (-1) (CreateTCP addr) w1 of (ok, sock, w2) \<Rightarrow>
                       if \<not> ok then (Inr None, P1, destroy_Socket (c_net E) sock w2)
                       else (Inr (Some (new_HttpConnection sock)), P1\<lparr>p_total := p_total P1 + 1\<rparr>, w2)))))"

text \<open>
  \<open>getConnection\<close> says what a call computes when no other thread changes the pool meanwhile; \<open>take_conn\<close> is the part of it
  under the mutex.  What the call does with that mutex: the scoped lock is unlocked before the invalid connections
  are deleted, and destroyed when the function returns.
\<close>

definition getConnection_guard :: "nat \<Rightarrow> (nat \<times> guard_op) list" where
  "getConnection_guard t = [(t, Construct WriteGuard), (t, Unlock_early), (t, Destroy)]"

text \<open>Every call so unlocks the mutex twice, which is undefined the second time even without another thread.\<close>

theorem getConnection_unlocks_twice:
  "guard_run (\<lambda>_. Mutex_lock) Mutex_unlock (getConnection_guard t) (new_lock_system new_exclusive) = Undefined"
  by (simp add: getConnection_guard_def guard_new_def guard_unlock_def guard_destroy_def Mutex_lock_def Mutex_unlock_def
      exclusive_lock_def exclusive_unlock_def new_exclusive_def new_lock_system_def set_guard_def)

definition ReleasePtr :: "('m, 'w) client \<Rightarrow> HttpConnection \<Rightarrow> HttpConnectionPool \<Rightarrow> 'w \<Rightarrow> HttpConnectionPool \<times> 'w" where
  "ReleasePtr E ptr P w =
    (let c = ptr\<lparr>hc_request := hc_request ptr + 1\<rparr> in
     if \<not> hc_connected c \<or> hc_createTime c + ucast (p_maxAliveTime P) \<ge> c_now E w \<or>
        hc_request c \<ge> ucast (p_maxRequest P) then
       (P\<lparr>p_total := p_total P - 1\<rparr>, end_connection (c_net E) (hc_stream c) w)
     else (P\<lparr>p_conns := p_conns P @ [c]\<rparr>, w))"

definition pool_text :: "HttpConnectionPool \<Rightarrow> string" where
  "pool_text P = ''pool host:'' @ p_host P @ '' port:'' @ dec (unat (p_port P))"

text \<open>
  The address in the messages is looked up after the request, in the socket of the connection; the
  connection goes back to the pool when the function returns.
\<close>

definition peer_text :: "'w net \<Rightarrow> SocketStream \<Rightarrow> 'w \<Rightarrow> addr_error + string \<times> SocketStream" where
  "peer_text net S w =
    (case getRemoteAddress net (the (m_socket S)) w of (addr, sock) \<Rightarrow>
       case Address_toString addr of Inl e \<Rightarrow> Inl e | Inr t \<Rightarrow> Inr (t, S\<lparr>m_socket := Some sock\<rparr>))"

definition release_with ::
  "('m, 'w) client \<Rightarrow> HttpConnection \<Rightarrow> SocketStream \<Rightarrow> HttpConnectionPool \<Rightarrow> 'm HttpResult \<Rightarrow> 'w
   \<Rightarrow> ('m HttpResult \<times> HttpConnectionPool, 'w) outcome" where
  "release_with E conn S P res w =
    (case ReleasePtr E (conn\<lparr>hc_stream := S\<rparr>) P w of (P', w') \<Rightarrow> Returned (res, P') w')"

definition pool_doRequest_req ::
  "('m, 'w) client \<Rightarrow> 'm HttpRequest \<Rightarrow> u64 \<Rightarrow> HttpConnectionPool \<Rightarrow> 'w \<Rightarrow> ('m HttpResult \<times> HttpConnectionPool, 'w) outcome" where
  "pool_doRequest_req E req timeout_ms P w =
    (case getConnection E P w of
       (Inl e, P1, w1) \<Rightarrow> Failed
     | (Inr None, P1, w1) \<Rightarrow> Returned (fail_with POOL_GET_CONNECTION (pool_text P), P1) w1
     | (Inr (Some conn), P1, w1) \<Rightarrow>
         let S = hc_stream conn in
         (case m_socket S of
            None \<Rightarrow> release_with E conn S P1 (fail_with POOL_INVALID_CONNECTION (pool_text P)) w1
          | Some sock \<Rightarrow>
              let w2 = setRecvTimeout (c_net E) (sint timeout_ms) sock w1 in
              (case sendRequest (c_fuel E) (c_mops E) (c_net E) req S w2 of
                 Fix_bad \<Rightarrow> Failed
               | Fix_running \<Rightarrow> Running
               | Fix_return ret w3 \<Rightarrow>
                   if ret = 0 then
                     (case peer_text (c_net E) S w3 of
                        Inl e \<Rightarrow> Failed
                      | Inr (t, S') \<Rightarrow>
                          release_with E conn S' P1 (fail_with SEND_CLOSE_BY_PEER (''send request closed by peer: '' @ t)) w3)
                   else if ret < 0 then
                     release_with E conn S P1
                       (fail_with SEND_SOCKET_ERROR (''send request socket error errno='' @ errno_text E w3)) w3
                   else
                     (case recvResponse (c_fuel E) (c_mops E) (c_mx E) (c_net E) S w3 of
                        Recv_bad \<Rightarrow> Failed
                      | Recv_running \<Rightarrow> Running
                      | Refused S' w4 \<Rightarrow>
                          (case peer_text (c_net E) S' w4 of
                             Inl e \<Rightarrow> Failed
                           | Inr (t, S'') \<Rightarrow>
                               release_with E conn S'' P1 (fail_with RESULT_TIMEOUT
                                 (''recv response timeout: '' @ t @ '' timeout_ms:'' @ dec (unat timeout_ms))) w4)
                      | Received rsp S' w4 \<Rightarrow>
                          release_with E conn S' P1 \<lparr>r_result = RESULT_OK, r_response = Some rsp, r_error = ''ok''\<rparr> w4))))"

definition pool_make_request ::
  "'m map_ops \<Rightarrow> HttpMethod \<Rightarrow> string \<Rightarrow> (string \<times> string) list \<Rightarrow> string \<Rightarrow> HttpConnectionPool \<Rightarrow> 'm HttpRequest" where
  "pool_make_request mops method url headers body P =
    add_headers mops headers (if p_vhost P = [] then p_host P else p_vhost P) body
      ((new_HttpRequest mops 0x11 True)\<lparr>req_path := url, req_method := method\<rparr>)"

definition pool_doRequest_url ::
  "('m, 'w) client \<Rightarrow> HttpMethod \<Rightarrow> string \<Rightarrow> u64 \<Rightarrow> (string \<times> string) list \<Rightarrow> string \<Rightarrow> HttpConnectionPool \<Rightarrow> 'w
   \<Rightarrow> ('m HttpResult \<times> HttpConnectionPool, 'w) outcome" where
  "pool_doRequest_url E method url timeout_ms headers body P w =
    pool_doRequest_req E (pool_make_request (c_mops E) method url headers body P) timeout_ms P w"

definition relative_text :: "Uri \<Rightarrow> string" where
  "relative_text uri =
    uri_getPath uri @ (if query uri = [] then [] else ''?'') @ query uri @
    (if fragment uri = [] then [] else ''#'') @ fragment uri"

definition pool_doRequest ::
  "('m, 'w) client \<Rightarrow> HttpMethod \<Rightarrow> Uri \<Rightarrow> u64 \<Rightarrow> (string \<times> string) list \<Rightarrow> string \<Rightarrow> HttpConnectionPool \<Rightarrow> 'w
   \<Rightarrow> ('m HttpResult \<times> HttpConnectionPool, 'w) outcome" where
  "pool_doRequest E method uri = pool_doRequest_url E method (relative_text uri)"

definition pool_doGet_url ::
  "('m, 'w) client \<Rightarrow> string \<Rightarrow> u64 \<Rightarrow> (string \<times> string) list \<Rightarrow> string \<Rightarrow> HttpConnectionPool \<Rightarrow> 'w
   \<Rightarrow> ('m HttpResult \<times> HttpConnectionPool, 'w) outcome" where
  "pool_doGet_url E = pool_doRequest_url E METHOD_GET"

definition pool_doGet ::
  "('m, 'w) client \<Rightarrow> Uri \<Rightarrow> u64 \<Rightarrow> (string \<times> string) list \<Rightarrow> string \<Rightarrow> HttpConnectionPool \<Rightarrow> 'w
   \<Rightarrow> ('m HttpResult \<times> HttpConnectionPool, 'w) outcome" where
  "pool_doGet E uri = pool_doGet_url E (relative_text uri)"

definition pool_doPost_url ::
  "('m, 'w) client \<Rightarrow> string \<Rightarrow> u64 \<Rightarrow> (string \<times> string) list \<Rightarrow> string \<Rightarrow> HttpConnectionPool \<Rightarrow> 'w
   \<Rightarrow> ('m HttpResult \<times> HttpConnectionPool, 'w) outcome" where
  "pool_doPost_url E = pool_doRequest_url E METHOD_POST"

definition pool_doPost ::
  "('m, 'w) client \<Rightarrow> Uri \<Rightarrow> u64 \<Rightarrow> (string \<times> string) list \<Rightarrow> string \<Rightarrow> HttpConnectionPool \<Rightarrow> 'w
   \<Rightarrow> ('m HttpResult \<times> HttpConnectionPool, 'w) outcome" where
  "pool_doPost E uri = pool_doPost_url E (relative_text uri)"

section \<open>The request that is made\<close>

definition is_host :: "string \<Rightarrow> bool" where
  "is_host key \<longleftrightarrow> strcasecmp (c_str key) ''host'' = 0"

definition keeps_alive :: "string \<times> string \<Rightarrow> bool" where
  "keeps_alive h \<longleftrightarrow> is_connection (fst h) \<and> strcasecmp (c_str (snd h)) ''keep-alive'' = 0"

definition names_host :: "string \<times> string \<Rightarrow> bool" where
  "names_host h \<longleftrightarrow> is_host (fst h) \<and> snd h \<noteq> []"

lemma c_and_h: "char_of (104 :: nat) = CHR ''h''" "char_of (99 :: nat) = CHR ''c''"
  by code_simp+

lemma host_not_connection: "is_host k \<Longrightarrow> \<not> is_connection k"
  unfolding is_host_def is_connection_def
  by (cases "c_str k") (auto simp: tolower_def cval_def c_and_h split: if_split_asm)

lemma header_step_pair:
  "header_step mops (k, v) (req, hh) =
    (if is_connection k then req\<lparr>req_close := req_close req \<and> \<not> keeps_alive (k, v)\<rparr>
     else req\<lparr>req_headers := map_set mops (req_headers req) k v\<rparr>, hh \<or> names_host (k, v))"
  using host_not_connection [of k]
  by (auto simp: header_step_def setHeader_def keeps_alive_def names_host_def simp flip: is_host_def is_connection_def)

lemma header_loop:
  "fold (header_step mops) headers (req, hh) =
    (req\<lparr>req_close := req_close req \<and> \<not> list_ex keeps_alive headers,
       req_headers := foldl (\<lambda>m (k, v). map_set mops m k v) (req_headers req)
         (filter (\<lambda>(k, v). \<not> is_connection k) headers)\<rparr>,
     hh \<or> list_ex names_host headers)"
proof (induction headers arbitrary: req hh)
  case (Cons h hs)
  obtain k v where h: "h = (k, v)" by fastforce
  show ?case
    by (cases "is_connection k") (auto simp: h Cons.IH header_step_pair keeps_alive_def)
qed simp

text \<open>
  The request that is made of the headers a caller passes: all headers but \<^verbatim>\<open>connection\<close> are set, in order, a
  \<^verbatim>\<open>Host\<close> header with the name of the server is added unless one of them is a non-empty \<^verbatim>\<open>host\<close> header, and the
  connection is to be closed unless a \<^verbatim>\<open>connection: keep-alive\<close> header says otherwise, in any case of letters.
\<close>

theorem request_headers:
  "add_headers mops headers hostname body req0 =
    req0\<lparr>req_close := req_close req0 \<and> \<not> list_ex keeps_alive headers,
      req_headers := foldl (\<lambda>m (k, v). map_set mops m k v) (req_headers req0)
        (filter (\<lambda>(k, v). \<not> is_connection k) headers @
         (if list_ex names_host headers then [] else [(''Host'', hostname)])),
      req_body := body\<rparr>"
  by (simp add: add_headers_def header_loop setHeader_def)

section \<open>No request succeeds\<close>

lemma writeFix_loop_result:
  "writeFix_loop fuel wr buffer offset left w = Fix_return ret w' \<Longrightarrow> ret = 0 \<or> ret = int32 (int (length buffer))"
proof (induction fuel arbitrary: offset left w)
  case 0
  then show ?case by (subst (asm) writeFix_loop.simps) (simp split: if_split_asm)
next
  case (Suc fuel)
  then show ?case
    by (subst (asm) (2) writeFix_loop.simps) (auto simp: Let_def split: if_split_asm prod.split_asm)
qed

lemma sendRequest_result:
  "sendRequest fuel mops net req S w = Fix_return ret w' \<Longrightarrow> length (dump mops req) < 2 ^ 31 \<Longrightarrow> 0 \<le> ret"
  using int32_small [of "int (length (dump mops req))"]
  by (auto simp: sendRequest_def writeFixSize_def dest!: writeFix_loop_result)

lemma request_never_succeeds:
  assumes "\<And>fd flags w. fst (net_recv (c_net E) fd 0 flags w) \<le> 0" "length (dump (c_mops E) req) < 2 ^ 31"
    and "DoRequest_req (E\<lparr>c_fuel := Suc n\<rparr>) req uri timeout_ms w = Returned r w'"
  shows "r_response r = None \<and> r_result r \<in> {INVALID_HOST, CONNECT_FAIL, SEND_CLOSE_BY_PEER, RESULT_TIMEOUT}"
proof -
  have rcv: "\<exists>S' w'. recvResponse (Suc n) (c_mops E) (c_mx E) (c_net E) S w = Refused S' w'" for S w
    using response_never_received [of "c_net E" n "c_mops E" "c_mx E" S w] assms(1) by blast
  show ?thesis
  proof (cases "uri_createAddress (c_gai E) uri")
    case (Inr oa)
    show ?thesis
    proof (cases oa)
      case (Some addr)
      obtain ok sock w1 where c: "Socket_connect (c_net E) addr (-1) (CreateTCP addr) w = (ok, sock, w1)"
        by (metis prod_cases3)
      let ?conn = "\<lparr>m_socket = Some sock, m_owner = True\<rparr>"
      let ?s = "sendRequest (Suc n) (c_mops E) (c_net E) req ?conn (setRecvTimeout (c_net E) (sint timeout_ms) sock w1)"
      show ?thesis
      proof (cases "ok \<and> (\<exists>ret w3. ?s = Fix_return ret w3 \<and> ret \<noteq> 0)")
        case True
        then obtain ret w3 where s: "ok" "?s = Fix_return ret w3" "ret \<noteq> 0" by blast
        with sendRequest_result [OF s(2) assms(2)] have "ret > 0" by simp
        moreover obtain S' w4 where "recvResponse (Suc n) (c_mops E) (c_mx E) (c_net E) ?conn w3 = Refused S' w4"
          using rcv by blast
        ultimately show ?thesis
          using assms(3) s by (auto simp: DoRequest_req_def Inr Some c Let_def fail_with_def split: sum.split_asm)
      next
        case False
        then show ?thesis
          using assms(3)
          by (cases ?s) (auto simp: DoRequest_req_def Inr Some c Let_def fail_with_def split: sum.split_asm if_split_asm)
      qed
    qed (use assms(3) Inr in \<open>auto simp: DoRequest_req_def fail_with_def\<close>)
  qed (use assms(3) in \<open>simp add: DoRequest_req_def\<close>)
qed

text \<open>
  A network that takes at least one byte of what it is given and keeps what has been sent in order; nothing but
  sending changes what has been sent.
\<close>

definition delivering :: "'w net \<Rightarrow> ('w \<Rightarrow> bytes) \<Rightarrow> bool" where
  "delivering net sent \<longleftrightarrow>
    (\<forall>fd flags. accepting (\<lambda>bs. net_send net fd bs flags) sent) \<and>
    (\<forall>fd n flags w. sent (snd (snd (net_recv net fd n flags w))) = sent w) \<and>
    (\<forall>fd w. sent (snd (net_close net fd w)) = sent w) \<and>
    (\<forall>fd level option v w. sent (snd (net_setsockopt net fd level option v w)) = sent w)"

lemma delivering_keeps:
  assumes "delivering net sent"
  shows "sent (setRecvTimeout net val s w) = sent w"
    and "sent (end_connection net S w) = sent w"
    and "stream_close net S w = (S', w') \<Longrightarrow> sent w' = sent w"
    and "stream_connected S \<Longrightarrow> accepting (stream_write net S) sent"
proof -
  have so: "sent (snd (net_setsockopt net fd level option v w)) = sent w"
    and cl: "sent (snd (net_close net fd w)) = sent w"
    and ac: "accepting (\<lambda>bs. net_send net fd bs flags) sent" for fd level option v w flags
    using assms unfolding delivering_def by blast+
  have close: "Socket_close net s w = (ok, s', w') \<Longrightarrow> sent w' = sent w" for s w ok s' w'
    using cl by (auto simp: Socket_close_def Let_def split: if_split_asm)
  then show sc: "stream_close net S w = (S', w') \<Longrightarrow> sent w' = sent w" for S w S' w'
    by (auto simp: stream_close_def split: option.split_asm prod.split_asm)
  show "sent (setRecvTimeout net val s w) = sent w"
    using so [of "m_sock s" SOL_SOCKET SO_RCVTIMEO "timeval_of val" w]
    by (auto simp: setRecvTimeout_def setOption_def split: prod.split)
  have "sent (destroy_Socket net s w) = sent w" for s w
    using cl by (simp add: destroy_Socket_def)
  then show "sent (end_connection net S w) = sent w"
    by (auto simp: end_connection_def destroy_SocketStream_def dest: sc split: option.split prod.split if_split_asm)
  show "accepting (stream_write net S) sent" if c: "stream_connected S"
  proof (cases "m_socket S")
    case (Some s)
    then have "stream_write net S = (\<lambda>bs. net_send net (m_sock s) bs 0)"
      using c by (auto simp: stream_write_def Socket_send_def stream_connected_def fun_eq_iff)
    then show ?thesis using ac by simp
  qed (use c in \<open>simp add: stream_connected_def\<close>)
qed

text \<open>
  C31. A request over a connection that works is sent to the last byte and its answer thrown away: whatever the
  server answers, \<^verbatim>\<open>DoRequest\<close> reports that the response timed out, with no response.
\<close>

theorem request_delivered_in_vain:
  assumes "delivering (c_net E) sent" "\<And>fd flags w. fst (net_recv (c_net E) fd 0 flags w) \<le> 0"
    and "uri_createAddress (c_gai E) uri = Inr (Some addr)" "Address_toString addr = Inr t"
    and "Socket_connect (c_net E) addr (-1) (CreateTCP addr) w = (True, sock, w1)"
    and "0 < length (dump (c_mops E) req)" "length (dump (c_mops E) req) < 2 ^ 31"
    and "length (dump (c_mops E) req) \<le> c_fuel E"
  shows "\<exists>w'. DoRequest_req E req uri timeout_ms w =
      Returned (fail_with RESULT_TIMEOUT (''recv response timeout: '' @ t @ '' timeout_ms:'' @ dec (unat timeout_ms))) w' \<and>
    sent w' = sent w1 @ dump (c_mops E) req"
proof -
  let ?d = "dump (c_mops E) req" and ?S = "\<lparr>m_socket = Some sock, m_owner = True\<rparr>"
  let ?w2 = "setRecvTimeout (c_net E) (sint timeout_ms) sock w1"
  note keeps = delivering_keeps [OF assms(1)]
  have "m_isConnected sock" using Socket_connect_cases [OF assms(5)] by simp
  then have acc: "accepting (stream_write (c_net E) ?S) sent" by (intro keeps(4)) (simp add: stream_connected_def)
  have step: "case stream_write (c_net E) ?S bs w of (n, w') \<Rightarrow> 1 \<le> n \<and> n \<le> int (length bs) \<and> sent w' = sent w @ take (nat n) bs"
    if "bs \<noteq> []" for bs w
    using acc that by (simp add: accepting_def)
  have len: "length ?d < 2 ^ 63" "int32 (int (length ?d)) = int (length ?d)"
    using assms(7) by (auto intro: int32_small)
  obtain w3 where send: "sendRequest (c_fuel E) (c_mops E) (c_net E) req ?S ?w2 = Fix_return (int (length ?d)) w3"
    "sent w3 = sent w1 @ ?d"
    using writeFix_loop_returns [where R = "\<lambda>w xs w'. sent w' = sent w @ xs", OF step _ _ len(1), of 0 "c_fuel E" ?w2]
      len(2) assms(8) keeps(1) by (auto simp: sendRequest_def writeFixSize_def)
  obtain n where fuel: "c_fuel E = Suc n" using assms(6,8) by (cases "c_fuel E") auto
  obtain ret bs w4 where rd: "stream_read (c_net E) ?S 0 w3 = (ret, bs, w4)" by (metis prod_cases3)
  have "sent (snd (snd (net_recv (c_net E) (m_sock sock) 0 0 w3))) = sent w3"
    using assms(1) unfolding delivering_def by blast
  then have "ret \<le> 0" "sent w4 = sent w3"
    using rd assms(2) [of "m_sock sock" 0 w3] by (auto simp: stream_read_def Socket_recv_def split: if_split_asm)
  moreover obtain S5 w5 where "stream_close (c_net E) ?S w4 = (S5, w5)" by fastforce
  moreover from this have "sent w5 = sent w4" using keeps(3) by blast
  ultimately have "recvResponse (c_fuel E) (c_mops E) (c_mx E) (c_net E) ?S w3 = Refused S5 w5" "sent w5 = sent w3"
    by (simp_all add: recvResponse_def GetHttpResponseBufferSize_def rd refuse_def fuel Let_def)
  with send assms(3,4,5,6) keeps(2) show ?thesis by (simp add: DoRequest_req_def Let_def)
qed

lemma connect_works:
  assumes "\<And>family type protocol w. fst (net_socket net family type protocol w) \<noteq> -1"
    and "\<And>fd addr len w. fst (net_connect net fd addr len w) = 0"
  shows "fst (Socket_connect net addr (-1) (CreateTCP addr) w) = True"
proof -
  obtain s1 w1 where e: "ensure_sock net (CreateTCP addr) w = (s1, w1)" by fastforce
  have "m_family s1 = uint (getFamily addr)"
    using ensure_sock_keeps(2) [of net "CreateTCP addr" w] unfolding e by (simp add: CreateTCP_def new_Socket_def)
  moreover have "isValid s1"
    using e assms(1) [of "uint (getFamily addr)" SOCK_STREAM 0 w]
    by (auto simp: ensure_sock_def isValid_def newSock_def CreateTCP_def new_Socket_def Let_def split: prod.split_asm if_split_asm)
  moreover obtain w2 where "net_connect net (m_sock s1) (getAddr addr) (getAddrLen addr) w1 = (0, w2)"
    using assms(2) [of "m_sock s1" "getAddr addr" "getAddrLen addr" w1] by (metis prod.collapse)
  ultimately show ?thesis by (simp add: Socket_connect_def e Let_def)
qed

definition script_client :: "((string \<times> string) list, bytes \<times> bytes) client" where
  "script_client = \<lparr>c_mops = alist_ops, c_mx = 8192, c_net = script_net, c_gai = sample_gai, c_errno = (\<lambda>_. 0),
     c_strerror = (\<lambda>_. ''''), c_now = (\<lambda>_. 2 ^ 40), c_fuel = 100\<rparr>"

lemma script_delivering: "delivering script_net snd"
  by (auto simp: delivering_def accepting_def script_net_def Suc_le_eq)

theorem request_delivered_in_vain_witness:
  "\<exists>t sock w1 w'. Socket_connect script_net (IPv4Address (new_IPv4Address 0x7F000001 0)) (-1)
      (CreateTCP (IPv4Address (new_IPv4Address 0x7F000001 0))) (''HTTP/1.1 200 OK'', []) = (True, sock, w1) \<and>
    DoRequest_req script_client (new_HttpRequest alist_ops 0x11 True) (new_Uri\<lparr>host := ''localhost'', port := 80\<rparr>) 1000
      (''HTTP/1.1 200 OK'', []) =
      Returned (fail_with RESULT_TIMEOUT (''recv response timeout: '' @ t @ '' timeout_ms:'' @ dec (unat (1000 :: u64)))) w' \<and>
    snd w' = snd w1 @ dump alist_ops (new_HttpRequest alist_ops 0x11 True)"
proof -
  let ?a = "IPv4Address (new_IPv4Address 0x7F000001 0)" and ?w = "(''HTTP/1.1 200 OK'', []) :: bytes \<times> bytes"
  let ?d = "dump alist_ops (new_HttpRequest alist_ops 0x11 True)"
  obtain ok sock w1 where k: "Socket_connect script_net ?a (-1) (CreateTCP ?a) ?w = (ok, sock, w1)"
    by (rule prod_cases3)
  have "fst (Socket_connect script_net ?a (-1) (CreateTCP ?a) ?w) = True"
    by (rule connect_works) (simp_all add: script_net_def)
  then have c: "Socket_connect script_net ?a (-1) (CreateTCP ?a) ?w = (True, sock, w1)"
    unfolding k by (simp only: fst_conv)
  have u: "uri_createAddress (c_gai script_client) (new_Uri\<lparr>host := ''localhost'', port := 80\<rparr>) = Inr (Some ?a)"
    by code_simp
  have "case Address_toString ?a of Inr _ \<Rightarrow> True | _ \<Rightarrow> False" by code_simp
  then obtain t where t: "Address_toString ?a = Inr t" by (auto split: sum.splits)
  have "0 < length ?d \<and> length ?d \<le> 100" by code_simp
  then show ?thesis
    using request_delivered_in_vain [of script_client snd, OF _ _ u t, of ?w sock w1 "new_HttpRequest alist_ops 0x11 True" 1000]
      c script_delivering by (auto simp: script_client_def script_net_def)
qed

section \<open>The pool counts its connections and never ages them\<close>

text \<open>
  The states a program can bring a pool to, with the connections it has taken out: taking one, using it in any
  way that leaves the counters alone, giving it back; the rest of the program changes the world as it likes.
\<close>

inductive pool_reachable ::
  "('m, 'w) client \<Rightarrow> HttpConnectionPool \<Rightarrow> HttpConnection list \<Rightarrow> bool" for E where
  Start: "pool_reachable E (new_HttpConnectionPool hst vhost prt max_size max_alive_time max_request) []"
| Get: "pool_reachable E P out \<Longrightarrow> getConnection E P w = (Inr (Some c), P', w') \<Longrightarrow> pool_reachable E P' (c # out)"
| Get_none: "pool_reachable E P out \<Longrightarrow> getConnection E P w = (r, P', w') \<Longrightarrow> (\<And>c. r \<noteq> Inr (Some c)) \<Longrightarrow>
    pool_reachable E P' out"
| Use: "pool_reachable E P (xs @ c # ys) \<Longrightarrow> pool_reachable E P (xs @ c\<lparr>hc_stream := S\<rparr> # ys)"
| Release: "pool_reachable E P (xs @ c # ys) \<Longrightarrow> ReleasePtr E c P w = (P', w') \<Longrightarrow> pool_reachable E P' (xs @ ys)"

definition pool_ok :: "HttpConnectionPool \<Rightarrow> HttpConnection list \<Rightarrow> bool" where
  "pool_ok P out \<longleftrightarrow> p_total P = of_nat (length (p_conns P) + length out) \<and>
    (\<forall>c \<in> set (p_conns P @ out). hc_createTime c = 0) \<and>
    (\<forall>c \<in> set (p_conns P). hc_request c < ucast (p_maxRequest P))"

lemma take_conn_split:
  "take_conn m now conns = (ptr, invalid, rest) \<Longrightarrow>
    conns = invalid @ (case ptr of None \<Rightarrow> rest | Some c \<Rightarrow> c # rest) \<and> (ptr = None \<longrightarrow> rest = []) \<and>
    (\<forall>c \<in> set invalid. \<not> hc_connected c \<or> hc_createTime c + ucast m > now) \<and>
    (\<forall>c. ptr = Some c \<longrightarrow> hc_connected c \<and> \<not> hc_createTime c + ucast m > now)"
  by (induction conns arbitrary: ptr invalid rest) (auto split: if_split_asm prod.split_asm)

lemma getConnection_ok:
  assumes "pool_ok P out" "getConnection E P w = (r, P', w')"
  shows "case r of Inr (Some c) \<Rightarrow> pool_ok P' (c # out) | _ \<Rightarrow> pool_ok P' out"
proof -
  obtain ptr invalid rest where t: "take_conn (p_maxAliveTime P) (c_now E w) (p_conns P) = (ptr, invalid, rest)"
    by (metis prod_cases3)
  note s = take_conn_split [OF t]
  let ?P1 = "P\<lparr>p_conns := rest, p_total := p_total P - of_nat (length invalid)\<rparr>"
  show ?thesis
  proof (cases ptr)
    case (Some c)
    then have "r = Inr (Some c)" "P' = ?P1" using assms(2) by (simp_all add: getConnection_def t Let_def)
    moreover have "pool_ok ?P1 (c # out)" using s assms(1) Some by (auto simp: pool_ok_def)
    ultimately show ?thesis by simp
  next
    case None
    then have "pool_ok ?P1 out" using s assms(1) by (auto simp: pool_ok_def)
    moreover from this have "pool_ok (?P1\<lparr>p_total := p_total ?P1 + 1\<rparr>) (new_HttpConnection sock # out)" for sock
      by (auto simp: pool_ok_def new_HttpConnection_def)
    ultimately show ?thesis
      using assms(2) by (auto simp: getConnection_def t None Let_def split: sum.split_asm option.split_asm prod.split_asm if_split_asm)
  qed
qed

lemma ReleasePtr_ok:
  assumes "pool_ok P (xs @ c # ys)" "ReleasePtr E c P w = (P', w')"
  shows "pool_ok P' (xs @ ys)"
  using assms by (auto simp: ReleasePtr_def pool_ok_def Let_def not_le split: if_split_asm)

lemma pool_reachable_ok: "pool_reachable E P out \<Longrightarrow> pool_ok P out"
proof (induction rule: pool_reachable.induct)
  case (Get P out w c P' w')
  then show ?case using getConnection_ok [OF Get.IH Get.hyps(2)] by simp
next
  case (Get_none P out w r P' w')
  then show ?case using getConnection_ok [OF Get_none.IH Get_none.hyps(2)] by (auto split: sum.split_asm option.split_asm)
next
  case (Release P xs c ys w P' w')
  show ?case by (rule ReleasePtr_ok [OF Release.IH Release.hyps(2)])
qed (auto simp: pool_ok_def new_HttpConnectionPool_def)

lemma never_too_old:
  assumes "2 ^ 32 \<le> now"
  shows "\<not> now < (ucast (m :: u32) :: u64)" "\<not> now \<le> (ucast (m :: u32) :: u64)"
proof -
  have "unat m < 2 ^ LENGTH(32)" by (rule unsigned_less)
  moreover have "uint (ucast m :: u64) = uint m" by (rule uint_up_ucast) (simp add: is_up)
  ultimately have "unat (ucast m :: u64) < 2 ^ 32" by (simp add: unat_eq_nat_uint del: nat_uint_eq nat_less_numeral_power_cancel_iff)
  moreover have "2 ^ 32 \<le> unat now" using assms by (simp add: word_le_nat_alt)
  ultimately show "\<not> now < (ucast m :: u64)" "\<not> now \<le> (ucast m :: u64)"
    by (simp_all add: word_less_nat_alt word_le_nat_alt)
qed

text \<open>
  C30. The pool counts the connections that are idle or given out, and an idle one has been used less often than
  allowed.  Once the clock is past 32 bits of milliseconds no connection is ever too old, because the time it
  was made is never set and the comparison is the wrong way round: taking one drops just those that are not
  connected, up to the first that is, and one given back is kept if it is connected and may be used again.
\<close>

theorem pool_counts_never_ages:
  assumes "pool_reachable E P out" "2 ^ 32 \<le> c_now E w"
  shows "p_total P = of_nat (length (p_conns P) + length out) \<and>
    (\<forall>c \<in> set (p_conns P). hc_request c < ucast (p_maxRequest P)) \<and>
    take_conn (p_maxAliveTime P) (c_now E w) (p_conns P) =
      (List.find hc_connected (p_conns P), takeWhile (\<lambda>c. \<not> hc_connected c) (p_conns P),
       tl (dropWhile (\<lambda>c. \<not> hc_connected c) (p_conns P))) \<and>
    (\<forall>c \<in> set out. p_conns (fst (ReleasePtr E c P w)) = p_conns P @
        (if hc_connected c \<and> hc_request c + 1 < ucast (p_maxRequest P) then [c\<lparr>hc_request := hc_request c + 1\<rparr>] else []))"
proof (intro conjI ballI)
  note ok = pool_reachable_ok [OF assms(1)]
  show "p_total P = of_nat (length (p_conns P) + length out)" using ok unfolding pool_ok_def by blast
  show "hc_request c < ucast (p_maxRequest P)" if "c \<in> set (p_conns P)" for c
    using ok that unfolding pool_ok_def by blast
  note young = never_too_old [OF assms(2)]
  have "take_conn m (c_now E w) conns = (List.find hc_connected conns, takeWhile (\<lambda>c. \<not> hc_connected c) conns,
       tl (dropWhile (\<lambda>c. \<not> hc_connected c) conns))"
    if "\<forall>c \<in> set conns. hc_createTime c = 0" for m conns
    using that young [of m] by (induction conns) auto
  then show "take_conn (p_maxAliveTime P) (c_now E w) (p_conns P) =
      (List.find hc_connected (p_conns P), takeWhile (\<lambda>c. \<not> hc_connected c) (p_conns P),
       tl (dropWhile (\<lambda>c. \<not> hc_connected c) (p_conns P)))"
    using ok unfolding pool_ok_def by simp
  show "p_conns (fst (ReleasePtr E c P w)) = p_conns P @
      (if hc_connected c \<and> hc_request c + 1 < ucast (p_maxRequest P) then [c\<lparr>hc_request := hc_request c + 1\<rparr>] else [])"
    if "c \<in> set out" for c
    using that ok young [of "p_maxAliveTime P"] unfolding pool_ok_def ReleasePtr_def
    by (auto simp: Let_def hc_connected_def)
qed

text \<open>A pool of which one connection is given out.\<close>

definition sample_pool :: HttpConnectionPool where
  "sample_pool = new_HttpConnectionPool ''localhost'' [] 80 10 1000 3"

lemma sample_pool_get:
  "\<exists>c P w. getConnection script_client sample_pool ([], []) = (Inr (Some c), P, w)"
proof -
  have "LookUpAnyIPAddress sample_gai ''localhost'' AF_UNSPEC 0 0 = Inr (Some (IPv4Address (new_IPv4Address 0x7F000001 0)))"
    by code_simp
  moreover have "fst (Socket_connect script_net addr (-1) (CreateTCP addr) w) = True" for addr w
    by (rule connect_works) (simp_all add: script_net_def)
  ultimately show ?thesis
    by (simp add: getConnection_def sample_pool_def new_HttpConnectionPool_def script_client_def Let_def split: prod.split)
      (metis fst_conv)
qed

theorem pool_counts_never_ages_witness:
  "\<exists>P c. pool_reachable script_client P [c] \<and> p_total P = of_nat (length (p_conns P) + length [c]) \<and>
    p_conns (fst (ReleasePtr script_client c P ([], []))) = p_conns P @
      (if hc_connected c \<and> hc_request c + 1 < ucast (p_maxRequest P) then [c\<lparr>hc_request := hc_request c + 1\<rparr>] else [])"
proof -
  obtain c P w where g: "getConnection script_client sample_pool ([], []) = (Inr (Some c), P, w)"
    using sample_pool_get by blast
  have r: "pool_reachable script_client P [c]"
    by (rule pool_reachable.Get [OF _ g]) (simp add: sample_pool_def pool_reachable.Start)
  have "2 ^ 32 \<le> c_now script_client ([], [])" by (simp add: script_client_def)
  from r pool_counts_never_ages [OF r this] show ?thesis by (intro exI [of _ P] exI [of _ c]) simp
qed

end
