(* ===== verification/HttpExchange.thy ===== *)
theory HttpExchange
  imports HttpRoundtrip HttpConnection
begin

text \<open>
  A whole exchange: what a client prints (\<^verbatim>\<open>HttpRequest::dump\<close>) is what the server's session receives, the
  servlet registered for the path answers it, the response is sent whole, and the connection is closed.  This
  puts the request parser, the session, the dispatcher, the server and the streams together.  The last section
  is about any client: every request it sends is answered, in order, and then its connection is closed.
\<close>

section \<open>Receiving a printed request\<close>

text \<open>\<^verbatim>\<open>HttpRequest::init\<close> has nothing to do for a request fresh from the parser.\<close>

lemma init_sent_request: "HttpRequest_init ops (sent_request ops r) = sent_request ops r"
proof -
  have "(sent_request ops r)\<lparr>req_close := True\<rparr> = sent_request ops r"
    by (simp add: sent_request_def new_HttpRequest_def)
  then show ?thesis by (simp add: HttpRequest_init_def c_str_def tolower_def cval_def Let_def)
qed

lemma printed_request_received:
  assumes "printable_request ops r" "length (dump ops r) \<le> unat mx + length (req_body r)"
    and "stream_read net S buf_size w = (int (length (dump ops r)), dump ops r, w1)" "length (dump ops r) \<le> buf_size"
  shows "recvRequest (Suc fuel) ops mx net buf_size S w = Received (sent_request ops r) S w1"
proof -
  let ?d = "dump ops r"
  obtain p where p: "HttpRequestParser_execute ops mx ?d (new_HttpRequestParser ops) = Some (length ?d, ?d, p)"
      "rq_error (rq_user p) = HPE_OK" "rq_finished (rq_user p)" "rq_data (rq_user p) = sent_request ops r"
    using printed_request_parsed [OF assms(1,2)] by blast
  have pos: "0 < length ?d" by (simp add: dump_def version_string_def)
  then have "recv_loop (Suc fuel) (request_ops ops mx) False net S buf_size (new_HttpRequestParser ops)
      (replicate buf_size NUL) 0 w = Received p S w1"
    using assms(3,4) p(1-3) pos by (auto simp: request_ops_def Let_def)
  then show ?thesis using p(4) by (simp add: recvRequest_def init_sent_request)
qed

section \<open>Sending the response\<close>

lemma sendResponse_delivers:
  assumes "delivering net sent" "stream_connected S" "length (rsp_dump mops rsp) < 2 ^ 63"
  shows "\<exists>r w'. sendResponse (length (rsp_dump mops rsp)) mops net rsp S w = Fix_return r w' \<and>
    sent w' = sent w @ rsp_dump mops rsp"
proof -
  have step: "case stream_write net S bs w of (n, w') \<Rightarrow> 1 \<le> n \<and> n \<le> int (length bs) \<and> sent w' = sent w @ take (nat n) bs"
    if "bs \<noteq> []" for bs w
    using delivering_keeps(4) [OF assms(1,2)] that by (simp add: accepting_def)
  show ?thesis
    using writeFix_loop_returns [where R = "\<lambda>w xs w'. sent w' = sent w @ xs", OF step _ _ assms(3),
        of 0 "length (rsp_dump mops rsp)" w]
    by (auto simp: sendResponse_def writeFixSize_def)
qed

section \<open>A request and its response\<close>

text \<open>What the server hands to a servlet besides the request.\<close>

definition fresh_response :: "'m map_ops \<Rightarrow> ('m, 's) HttpServer \<Rightarrow> 'm HttpRequest \<Rightarrow> 'm HttpResponse" where
  "fresh_response ops H r = rsp_setHeader ops ''Server'' (server_name H) (new_HttpResponse ops (req_version r) True)"

lemma make_response_registered:
  assumes "getServlet (req_path r) (dispatch H) = Some s"
  shows "make_response E H (sent_request (e_mops E) r) S w =
    snd (servlet_handle (e_mops E) s (sent_request (e_mops E) r) (fresh_response (e_mops E) H r) (S, w))"
  using assms
  by (auto simp: getServlet_def make_response_def ServletDispatch_handle_def getMatchedServlet_def fresh_response_def
      sent_request_def new_HttpRequest_def Let_def)

text \<open>
  C3. A request that reaches the server whole is answered by its servlet.  When the bytes \<^verbatim>\<open>dump\<close> prints for a
  request (with its head within the parser's limit) all arrive by the first read on a new connection, so that
  they fit the buffer (one that arrives in pieces is not covered: the parser keeps pointers into the buffer,
  which the session moves), \<^verbatim>\<open>HttpServer::handleClient\<close> runs the servlet last registered for exactly its path on
  a request with the same method, version, path, query, fragment, body and headers.  If that servlet leaves
  the connection open and makes a response below 2^63 bytes, and the peer takes at least one byte of what it is
  sent, every byte of the response is sent, in order, and then the connection is closed, even if the client
  asked to keep it.
\<close>

theorem request_answered:
  assumes "printable_request (e_mops E) r" "length (dump (e_mops E) r) \<le> unat (e_mx E) + length (req_body r)"
    and "net_recv (e_net E) (m_sock client) (e_buf_size E) 0 w = (int (length (dump (e_mops E) r)), dump (e_mops E) r, w1)"
    and "length (dump (e_mops E) r) \<le> e_buf_size E" "m_isConnected client" "delivering (e_net E) sent"
    and "dispatch H = register_all rs new_ServletDispatch" "last_reg (req_path r) (exact_regs rs) = Some c"
    and "S = \<lparr>m_socket = Some client, m_owner = True\<rparr>"
    and "snd (servlet_handle (e_mops E) (creator_get c) (sent_request (e_mops E) r) (fresh_response (e_mops E) H r) (S, w1)) =
      (rsp, S, w2)"
    and "length (rsp_dump (e_mops E) rsp) < 2 ^ 63"
  shows "\<exists>S' w'. handleClient (Suc fuel) E H client w = Client_done S' w' \<and> \<not> stream_connected S' \<and>
    sent w' = sent w2 @ rsp_dump (e_mops E) rsp"
proof -
  have con: "stream_connected S" using assms(5,9) by (simp add: stream_connected_def)
  then have "stream_read (e_net E) S (e_buf_size E) w = (int (length (dump (e_mops E) r)), dump (e_mops E) r, w1)"
    using assms(3,5,9) by (simp add: stream_read_def Socket_recv_def)
  from printed_request_received [OF assms(1,2) this assms(4)]
  have recv: "recvRequest (Suc fuel) (e_mops E) (e_mx E) (e_net E) (e_buf_size E) S w =
      Received (sent_request (e_mops E) r) S w1" .
  have "getServlet (req_path r) (dispatch H) = Some (creator_get c)" using registered(1) [of "req_path r" rs] assms(7,8) by simp
  from make_response_registered [OF this, of E S w1] assms(10)
  have made: "make_response E H (sent_request (e_mops E) r) S w1 = (rsp, S, w2)" by simp
  obtain v w3 where send: "sendResponse (length (rsp_dump (e_mops E) rsp)) (e_mops E) (e_net E) rsp S w2 = Fix_return v w3"
      "sent w3 = sent w2 @ rsp_dump (e_mops E) rsp"
    using sendResponse_delivers [OF assms(6) con assms(11)] by blast
  obtain S' w' where close: "stream_close (e_net E) S w3 = (S', w')" by fastforce
  have "req_close (sent_request (e_mops E) r)" by (simp add: sent_request_def new_HttpRequest_def)
  then have "handleClient (Suc fuel) E H client w = Client_done S' w'"
    using recv made send(1) close assms(9) by (simp add: handleClient_def close_session_def)
  then show ?thesis
    using stream_close_closed [OF close] delivering_keeps(3) [OF assms(6) close] send(2) by simp
qed

text \<open>A server whose servlet answers with the body of the request as the reason.\<close>

definition sample_creator :: "((string \<times> string) list, SocketStream \<times> bytes \<times> bytes) Servlet IServletCreator" where
  "sample_creator = HoldServletCreator servlet_name (FunctionServlet (\<lambda>req rsp s. (0, rsp\<lparr>rsp_reason := req_body req\<rparr>, s)))"

definition sample_server :: "((string \<times> string) list, SocketStream \<times> bytes \<times> bytes) HttpServer" where
  "sample_server = (new_HttpServer True)\<lparr>dispatch := register_all [Inl (Add ''/a'' sample_creator)] new_ServletDispatch\<rparr>"

definition sample_response :: "(string \<times> string) list HttpResponse" where
  "sample_response = (fresh_response alist_ops sample_server sample_request)\<lparr>rsp_reason := ''hi''\<rparr>"

lemma sample_response_dump: "rsp_dump alist_ops sample_response =
  ''HTTP/1.1 200 hi'' @ CRLF @ ''Server: sylar/1.0.0'' @ CRLF @ ''connection: close'' @ CRLF @ CRLF"
  by code_simp

theorem request_answered_witness:
  "\<exists>S' w'. handleClient (Suc 0) script_env sample_server (CreateTCPSocket\<lparr>m_sock := 8, m_isConnected := True\<rparr>)
     (dump alist_ops sample_request, []) = Client_done S' w' \<and> \<not> stream_connected S' \<and>
     snd w' = [] @ rsp_dump alist_ops sample_response"
proof -
  let ?d = "dump alist_ops sample_request"
  let ?c = "CreateTCPSocket\<lparr>m_sock := 8, m_isConnected := True\<rparr>"
  have len: "length ?d \<le> 4096" "length ?d \<le> unat (8192 :: u32) + length (req_body sample_request)"
    by (simp_all add: sample_request_dump)
  have reg: "last_reg (req_path sample_request) (exact_regs [Inl (Add ''/a'' sample_creator)]) = Some sample_creator"
    by (simp add: sample_request_def last_reg_def exact_regs_def)
  have "\<exists>S' w'. handleClient (Suc 0) script_env sample_server ?c (?d, []) = Client_done S' w' \<and> \<not> stream_connected S' \<and>
      snd w' = snd ([] :: bytes, [] :: bytes) @ rsp_dump (e_mops script_env) sample_response"
  proof (rule request_answered [where r = sample_request and S = "\<lparr>m_socket = Some ?c, m_owner = True\<rparr>" and ?w1.0 = "([], [])" and ?w2.0 = "([], [])" and sent = snd
        and c = sample_creator and rs = "[Inl (Add ''/a'' sample_creator)]"])
    show "snd (servlet_handle (e_mops script_env) (creator_get sample_creator)
        (sent_request (e_mops script_env) sample_request) (fresh_response (e_mops script_env) sample_server sample_request)
        (\<lparr>m_socket = Some ?c, m_owner = True\<rparr>, ([], []))) = (sample_response, \<lparr>m_socket = Some ?c, m_owner = True\<rparr>, ([], []))"
      by (simp add: sample_creator_def HoldServletCreator_def servlet_handle_def script_env_def sample_response_def
          sent_request_def sample_request_def)
  qed (use reg len sample_request_printable script_delivering in
      \<open>simp_all add: script_env_def script_net_def sample_server_def sample_response_dump\<close>)
  then show ?thesis by (simp add: script_env_def)
qed

section \<open>Serving a client\<close>

text \<open>
  What a peer does with a connection: it sends a limited amount (\<open>supply\<close>), and takes at least one byte of whatever
  it is sent, in order (\<open>sent\<close>).
\<close>

definition good_peer :: "'w net \<Rightarrow> ('w \<Rightarrow> nat) \<Rightarrow> ('w \<Rightarrow> bytes) \<Rightarrow> bool" where
  "good_peer net supply sent \<longleftrightarrow> finite_supply net supply \<and> delivering net sent \<and>
    (\<forall>fd bs flags w. supply (snd (net_send net fd bs flags w)) \<le> supply w)"

text \<open>Servlets that leave the connection to the server and make no response too large to be sent.\<close>

definition quiet :: "('m, 'w) environment \<Rightarrow> ('m, SocketStream \<times> 'w) HttpServer \<Rightarrow> ('w \<Rightarrow> nat) \<Rightarrow> ('w \<Rightarrow> bytes) \<Rightarrow> bool" where
  "quiet E H supply sent \<longleftrightarrow> (\<forall>req S w rsp S' w'. make_response E H req S w = (rsp, S', w') \<longrightarrow>
     S' = S \<and> supply w' \<le> supply w \<and> sent w' = sent w \<and> length (rsp_dump (e_mops E) rsp) < 2 ^ 63)"

text \<open>The requests a connection receives and the responses the servlets make for them, until it is left to be closed.\<close>

inductive serves ::
  "('m, 'w) environment \<Rightarrow> ('m, SocketStream \<times> 'w) HttpServer \<Rightarrow> nat \<Rightarrow> SocketStream \<Rightarrow> 'w \<Rightarrow>
   ('m HttpRequest \<times> 'm HttpResponse) list \<Rightarrow> SocketStream \<Rightarrow> 'w \<Rightarrow> bool" for E H fuel where
  refused: "recvRequest fuel (e_mops E) (e_mx E) (e_net E) (e_buf_size E) S w = Refused S1 w1 \<Longrightarrow>
    serves E H fuel S w [] S1 w1"
| last: "recvRequest fuel (e_mops E) (e_mx E) (e_net E) (e_buf_size E) S w = Received req S1 w1 \<Longrightarrow>
    make_response E H req S1 w1 = (rsp, S2, w2) \<Longrightarrow>
    sendResponse (length (rsp_dump (e_mops E) rsp)) (e_mops E) (e_net E) rsp S2 w2 = Fix_return v w3 \<Longrightarrow>
    \<not> isKeepAlive H \<or> req_close req \<Longrightarrow> serves E H fuel S w [(req, rsp)] S2 w3"
| more: "recvRequest fuel (e_mops E) (e_mx E) (e_net E) (e_buf_size E) S w = Received req S1 w1 \<Longrightarrow>
    make_response E H req S1 w1 = (rsp, S2, w2) \<Longrightarrow>
    sendResponse (length (rsp_dump (e_mops E) rsp)) (e_mops E) (e_net E) rsp S2 w2 = Fix_return v w3 \<Longrightarrow>
    isKeepAlive H \<Longrightarrow> \<not> req_close req \<Longrightarrow> serves E H fuel S2 w3 log S' w' \<Longrightarrow>
    serves E H fuel S w ((req, rsp) # log) S' w'"

definition responses_text :: "'m map_ops \<Rightarrow> ('m HttpRequest \<times> 'm HttpResponse) list \<Rightarrow> bytes" where
  "responses_text mops log = concat (map (\<lambda>(req, rsp). rsp_dump mops rsp) log)"

text \<open>Receiving sends nothing.\<close>

definition nothing_sent :: "('w \<Rightarrow> bytes) \<Rightarrow> bytes \<Rightarrow> ('p, 'w) recv_result \<Rightarrow> bool" where
  "nothing_sent sent t r \<longleftrightarrow> (case r of Received p S w \<Rightarrow> sent w = t | Refused S w \<Rightarrow> sent w = t | _ \<Rightarrow> True)"

lemma recv_keeps_sent:
  assumes "delivering net sent"
  shows "nothing_sent sent (sent w) (recv_loop fuel ops terminate net S buf_size p buffer offset w)"
proof (induction fuel arbitrary: p buffer offset w)
  case (Suc fuel)
  obtain ret bs w1 where rd: "stream_read net S (buf_size - offset) w = (ret, bs, w1)" by (metis prod_cases3)
  have "sent (snd (snd (net_recv net fd n flags w))) = sent w" for fd n flags
    using assms unfolding delivering_def by blast
  from this [of "m_sock (the (m_socket S))" "buf_size - offset" 0] have s1: "sent w1 = sent w"
    using rd by (auto simp: stream_read_def Socket_recv_def split: if_split_asm)
  have refused: "nothing_sent sent (sent w) (refuse net S w1)"
    using delivering_keeps(3) [OF assms] s1 by (auto simp: nothing_sent_def refuse_def split: prod.split)
  have stop: "nothing_sent sent (sent w) Recv_bad" "nothing_sent sent (sent w) (Received p' S w1)" for p'
    using s1 by (simp_all add: nothing_sent_def)
  have again: "nothing_sent sent (sent w) (recv_loop fuel ops terminate net S buf_size p' b n w1)" for p' b n
    using Suc.IH [where p = p' and buffer = b and offset = n and w = w1] unfolding s1 .
  show ?case
    by (simp only: recv_loop.simps rd prod.case Let_def) (auto simp only: refused stop again split: option.split prod.split if_split)
qed (simp add: nothing_sent_def)

lemma received_sent:
  assumes "delivering net sent"
  shows "recvRequest fuel mops mx net buf_size S w = Received req S' w' \<Longrightarrow> sent w' = sent w"
    and "recvRequest fuel mops mx net buf_size S w = Refused S' w' \<Longrightarrow> sent w' = sent w"
  using recv_keeps_sent [OF assms, where fuel = fuel and ops = "request_ops mops mx" and terminate = False and S = S and buf_size = buf_size
      and p = "new_HttpRequestParser mops" and buffer = "replicate buf_size NUL" and offset = 0 and w = w]
  by (auto simp: nothing_sent_def recvRequest_def split: recv_result.split_asm)

lemma response_sent:
  assumes "good_peer net supply sent" "stream_connected S" "length (rsp_dump mops rsp) < 2 ^ 63"
  shows "\<exists>r w'. sendResponse (length (rsp_dump mops rsp)) mops net rsp S w = Fix_return r w' \<and>
    supply w' \<le> supply w \<and> sent w' = sent w @ rsp_dump mops rsp"
proof -
  have step: "case stream_write net S bs w of (n, w') \<Rightarrow> 1 \<le> n \<and> n \<le> int (length bs) \<and>
      supply w' \<le> supply w \<and> sent w' = sent w @ take (nat n) bs" if "bs \<noteq> []" for bs w
  proof -
    have "accepting (stream_write net S) sent" using assms(1,2) delivering_keeps(4) by (auto simp: good_peer_def)
    moreover have "supply (snd (stream_write net S bs w)) \<le> supply w"
      using assms(1,2) unfolding good_peer_def
      by (auto simp: stream_write_def Socket_send_def stream_connected_def split: option.split_asm)
    ultimately show ?thesis using that by (auto simp: accepting_def split: prod.splits)
  qed
  show ?thesis
    using writeFix_loop_returns [where R = "\<lambda>w xs w'. supply w' \<le> supply w \<and> sent w' = sent w @ xs", OF step _ _ assms(3),
        of 0 "length (rsp_dump mops rsp)" w]
    by (auto simp: sendResponse_def writeFixSize_def)
qed

lemma client_loop_serves:
  assumes peer: "good_peer (e_net E) supply sent" and quiet: "quiet E H supply sent"
  shows "stream_connected S \<Longrightarrow> supply w < n \<Longrightarrow> supply w < fuel \<Longrightarrow>
    \<exists>log S1 w1 S' w'. serves E H fuel S w log S1 w1 \<and> stream_close (e_net E) S1 w1 = (S', w') \<and>
      client_loop n fuel E H S w = Client_done S' w' \<and> sent w' = sent w @ responses_text (e_mops E) log"
proof (induction n arbitrary: S w)
  case (Suc n)
  have fin: "finite_supply (e_net E) supply" and del: "delivering (e_net E) sent"
    using peer by (simp_all add: good_peer_def)
  have closing: "\<exists>S' w'. stream_close (e_net E) T v = (S', w') \<and> close_session (e_net E) T v = Client_done S' w' \<and> sent w' = sent v"
    for T v
    using delivering_keeps(3) [OF del] by (cases "stream_close (e_net E) T v") (auto simp: close_session_def)
  define r where "r = recvRequest fuel (e_mops E) (e_mx E) (e_net E) (e_buf_size E) S w"
  have r: "case r of Received req S' w' \<Rightarrow> S' = S \<and> supply w' < supply w
      | Refused S' w' \<Rightarrow> \<not> stream_connected S' | Recv_bad \<Rightarrow> False | Recv_running \<Rightarrow> False"
    unfolding r_def by (rule recvRequest_ok [OF fin Suc.prems(3)])
  show ?case
  proof (cases r)
    case (Refused S1 w1)
    then have R: "recvRequest fuel (e_mops E) (e_mx E) (e_net E) (e_buf_size E) S w = Refused S1 w1" by (simp add: r_def)
    from serves.refused [OF this, of H] closing [of S1 w1] received_sent(2) [OF del R] R show ?thesis
      by (fastforce simp: responses_text_def)
  next
    case (Received req S1 w1)
    then have R: "recvRequest fuel (e_mops E) (e_mx E) (e_net E) (e_buf_size E) S w = Received req S1 w1" by (simp add: r_def)
    have s1: "S1 = S" "supply w1 < supply w" "sent w1 = sent w" using r Received received_sent(1) [OF del R] by simp_all
    obtain rsp S2 w2 where mk: "make_response E H req S1 w1 = (rsp, S2, w2)" by (metis prod_cases3)
    have s2: "S2 = S" "supply w2 \<le> supply w1" "sent w2 = sent w1" "length (rsp_dump (e_mops E) rsp) < 2 ^ 63"
      using quiet mk s1(1) unfolding quiet_def by blast+
    have con: "stream_connected S2" using Suc.prems(1) s2(1) by simp
    obtain v w3 where send: "sendResponse (length (rsp_dump (e_mops E) rsp)) (e_mops E) (e_net E) rsp S2 w2 = Fix_return v w3"
      "supply w3 \<le> supply w2" "sent w3 = sent w2 @ rsp_dump (e_mops E) rsp"
      using response_sent [OF peer con s2(4)] by blast
    show ?thesis
    proof (cases "\<not> isKeepAlive H \<or> req_close req")
      case True
      from serves.last [OF R mk send(1) this] closing [of S2 w3] show ?thesis
        using R mk send s1 s2 True by (fastforce simp: responses_text_def)
    next
      case False
      have "supply w3 < n" "supply w3 < fuel" using Suc.prems s1(2) s2(2) send(2) by simp_all
      from Suc.IH [OF con this] obtain log S3 w4 S' w' where IH: "serves E H fuel S2 w3 log S3 w4"
          "stream_close (e_net E) S3 w4 = (S', w')" "client_loop n fuel E H S2 w3 = Client_done S' w'"
          "sent w' = sent w3 @ responses_text (e_mops E) log"
        by blast
      have "serves E H fuel S w ((req, rsp) # log) S3 w4"
        using serves.more [OF R mk send(1) _ _ IH(1)] False by simp
      moreover have "client_loop (Suc n) fuel E H S w = Client_done S' w'" using R mk send(1) False IH(3) by simp
      moreover have "sent w' = sent w @ responses_text (e_mops E) ((req, rsp) # log)"
        using IH(4) send(3) s1(3) s2(3) by (simp add: responses_text_def)
      ultimately show ?thesis using IH(2) by blast
    qed
  qed (use r in simp_all)
qed simp

text \<open>
  C5. Every client is answered and its connection ended: with a peer that sends a limited amount and takes at least
  one byte of whatever it is sent, and servlets that leave the connection alone (they neither send nor close)
  and make responses below 2^63 bytes, \<^verbatim>\<open>HttpServer::handleClient\<close> returns, whatever the peer sends.  Every
  request it receives (\<open>log\<close>, up to the first that is refused, asks to close, or comes to a server that keeps
  no connection) is answered with exactly the bytes of the response the servlets make for it, in that order,
  nothing else is sent, and the socket is closed then.
\<close>

theorem client_served:
  assumes "good_peer (e_net E) supply sent" "quiet E H supply sent"
    and "m_isConnected client" "supply w < fuel"
  shows "\<exists>log S1 w1 S' w'. serves E H fuel \<lparr>m_socket = Some client, m_owner = True\<rparr> w log S1 w1 \<and>
    stream_close (e_net E) S1 w1 = (S', w') \<and> handleClient fuel E H client w = Client_done S' w' \<and>
    \<not> stream_connected S' \<and> sent w' = sent w @ responses_text (e_mops E) log"
proof -
  have "stream_connected \<lparr>m_socket = Some client, m_owner = True\<rparr>" using assms(3) by (simp add: stream_connected_def)
  from client_loop_serves [OF assms(1,2) this assms(4,4)] obtain log S1 w1 S' w' where
      "serves E H fuel \<lparr>m_socket = Some client, m_owner = True\<rparr> w log S1 w1" "stream_close (e_net E) S1 w1 = (S', w')"
      "client_loop fuel fuel E H \<lparr>m_socket = Some client, m_owner = True\<rparr> w = Client_done S' w'"
      "sent w' = sent w @ responses_text (e_mops E) log"
    by blast
  moreover from this(2) have "\<not> stream_connected S'" by (rule stream_close_closed)
  ultimately show ?thesis unfolding handleClient_def by blast
qed

lemma script_quiet: "quiet script_env (new_HttpServer False) (\<lambda>w. length (fst w)) snd"
proof -
  have *: "length (rsp_dump alist_ops r) < 2 ^ 63"
    if "r = NotFound_handle alist_ops c
      (rsp_setHeader alist_ops ''Server'' ''sylar/1.0.0'' (new_HttpResponse alist_ops v b))" "length c < 1000" for r c v b
    using that version_length [of v] dec_length [of 404] dec_length [of "length c"]
    by (simp add: rsp_dump_def NotFound_handle_def new_HttpResponse_def rsp_setHeader_def alist_ops_def
        HTTP_NOT_FOUND_def HttpStatusToString_def HTTP_STATUS_MAP_def)
  show ?thesis
    unfolding quiet_def
    by (auto simp: make_response_def script_env_def new_HttpServer_def ServletDispatch_handle_def
        getMatchedServlet_def new_ServletDispatch_def new_NotFoundServlet_def servlet_handle_def Let_def intro!: * [OF refl, simplified])
qed

lemma script_good_peer: "good_peer script_net (\<lambda>w. length (fst w)) snd"
  using script_supply script_delivering by (auto simp: good_peer_def script_net_def)

theorem client_served_witness:
  "\<exists>log S1 w1 S' w'. serves script_env (new_HttpServer False) 50 \<lparr>m_socket = Some (CreateTCPSocket\<lparr>m_sock := 8, m_isConnected := True\<rparr>),
      m_owner = True\<rparr> (''GET /x HTTP/1.1'' @ [CR, LF, CR, LF], []) log S1 w1 \<and>
    handleClient 50 script_env (new_HttpServer False) (CreateTCPSocket\<lparr>m_sock := 8, m_isConnected := True\<rparr>)
      (''GET /x HTTP/1.1'' @ [CR, LF, CR, LF], []) = Client_done S' w' \<and> snd w' = responses_text alist_ops log"
proof -
  let ?c = "CreateTCPSocket\<lparr>m_sock := 8, m_isConnected := True\<rparr>"
  let ?w = "(''GET /x HTTP/1.1'' @ [CR, LF, CR, LF], [] :: bytes)"
  have "good_peer (e_net script_env) (\<lambda>w. length (fst w)) snd" using script_good_peer by (simp add: script_env_def)
  from client_served [OF this script_quiet, of ?c ?w 50] obtain log S1 w1 S' w' where
    "serves script_env (new_HttpServer False) 50 \<lparr>m_socket = Some ?c, m_owner = True\<rparr> ?w log S1 w1"
    "handleClient 50 script_env (new_HttpServer False) ?c ?w = Client_done S' w'"
    "snd w' = snd ?w @ responses_text (e_mops script_env) log"
    by auto
  moreover have "e_mops script_env = alist_ops" "snd ?w = []" by (simp_all add: script_env_def)
  ultimately show ?thesis by (simp only: append_Nil) blast
qed
end
