(* ===== verification/HttpResponseRun.thy ===== *)
theory HttpResponseRun
  imports HttpRunHeaders
begin

text \<open>
  A response that is printed (\<^verbatim>\<open>HttpResponse::dump\<close>) and read by the library's own response parser
  (\<^verbatim>\<open>HttpResponseParser\<close>): the head arrives, but as the body is announced and never printed, and without a body
  its length is not announced, the parser goes on waiting.
\<close>

section \<open>The status line\<close>

lemma s_response_settings_simps [simp]:
  "on_message_begin (s_response_settings ops) = Some on_response_message_begin_cb"
  "on_headers_complete (s_response_settings ops) = Some on_response_headers_complete_cb"
  "on_message_complete (s_response_settings ops) = Some on_response_message_complete_cb"
  "on_status (s_response_settings ops) = Some on_response_status_cb"
  "on_header_field (s_response_settings ops) = Some on_response_header_field_cb"
  "on_header_value (s_response_settings ops) = Some (on_response_header_value_cb ops)"
  by (simp_all add: s_response_settings_def)

lemma parses_expect_res:
  assumes "parses S mx data Q s' m P u rest" "length data \<le> unat mx + length rest"
    and "(s, c, s') \<in> {(s_res_H, CHR ''T'', s_res_HT), (s_res_HT, CHR ''T'', s_res_HTT), (s_res_HTT, CHR ''P'', s_res_HTTP),
      (s_res_HTTP, CHR ''/'', s_res_http_major), (s_res_http_dot, CHR ''.'', s_res_http_minor),
      (s_res_http_end, SP, s_res_first_status_code), (s_res_status_code, SP, s_res_status_start),
      (s_res_line_almost_done, LF, s_header_field_start)}"
  shows "parses S mx data Q s m P u (c # rest)"
proof (rule parses_step [OF _ assms(2) _ assms(1)])
  show "PARSING_HEADER s" using assms(3) by (auto simp: PARSING_HEADER_iff)
  show "exec_switch S mx data x = Next (x\<lparr>cst := s', marks := m, prs := P, usr := u\<rparr>)"
    if "cst x = s" "marks x = m" "prs x = P" "usr x = u" "cur_ch x = c" for x
    using assms(3) that
    by (auto simp: exec_switch_def exec_expect_def STRICT_CHECK_def exec_http_dot_def exec_res_http_end_def
        exec_res_status_code_def IS_NUM_def cval_def)
qed

definition response_begun :: "http_parser \<Rightarrow> http_parser" where
  "response_begun P = (reset_message P)\<lparr>p_state := s_res_H\<rparr>"

lemma parses_HTTP_res:
  assumes "http_errno P = HPE_OK" "length data \<le> unat mx + length rest"
    and "parses (s_response_settings ops) mx data Q s_res_http_major m (response_begun P) u rest"
  shows "parses (s_response_settings ops) mx data Q s_start_res m P u (''HTTP/'' @ rest)"
proof -
  let ?S = "s_response_settings ops"
  have "parses ?S mx data Q s_res_H m (response_begun P) u (''TTP/'' @ rest)"
    using assms(2) by (simp, intro parses_expect_res [where s' = s_res_HT] parses_expect_res [where s' = s_res_HTT]
      parses_expect_res [where s' = s_res_HTTP] parses_expect_res [where s' = s_res_http_major] assms(3)) simp_all
  then have "parses ?S mx data Q s_start_res m P u (CHR ''H'' # ''TTP/'' @ rest)"
    by (rule parses_step [rotated 3])
      (use assms(1,2) in \<open>auto simp: PARSING_HEADER_iff exec_switch_def exec_start_res_def CALLBACK_NOTIFY_gen_def
        on_response_message_begin_cb_def response_begun_def reset_message_def Let_def\<close>)
  then show ?thesis by simp
qed

lemma parses_version_res:
  assumes "a < 10" "b < 10" "length data \<le> unat mx + length rest"
    and "parses S mx data Q s_res_first_status_code m (P\<lparr>http_major := of_nat a, http_minor := of_nat b\<rparr>) u rest"
  shows "parses S mx data Q s_res_http_major m P u (dec a @ ''.'' @ dec b @ SP # rest)"
proof -
  have num: "IS_NUM (char_of (n + 48))" "digit_val (char_of (n + 48)) = n" "dec n = [char_of (n + 48)]"
    if "n < 10" for n
    using that digit_char [OF that] by (simp_all add: dec.simps)
  let ?P = "P\<lparr>http_major := of_nat a\<rparr>"
  let ?R = "?P\<lparr>http_minor := of_nat b\<rparr>"
  have 1: "parses S mx data Q s_res_http_end m ?R u (SP # rest)"
    using assms(3,4) by (intro parses_expect_res [where s' = s_res_first_status_code]) simp_all
  have 2: "parses S mx data Q s_res_http_minor m ?P u (dec b @ SP # rest)"
    unfolding num(3) [OF assms(2)] append.simps
    by (rule parses_step [OF _ _ _ 1])
      (use assms num in \<open>simp_all add: PARSING_HEADER_iff exec_switch_def exec_http_minor_def\<close>)
  have 3: "parses S mx data Q s_res_http_dot m ?P u (CHR ''.'' # dec b @ SP # rest)"
    by (rule parses_expect_res [OF 2]) (use assms in simp_all)
  show ?thesis
    unfolding num(3) [OF assms(1)] append.simps
    by (rule parses_step [OF _ _ _ 3 [unfolded append.simps]])
      (use assms num in \<open>simp_all add: PARSING_HEADER_iff exec_switch_def exec_http_major_def\<close>)
qed

lemma parses_status_digits:
  assumes "\<forall>c \<in> set ds. IS_NUM c" "status_code P = of_nat v" "digits_value 10 v (map digit_val ds) = n" "n < 1000"
    and "length data \<le> unat mx + length rest"
    and "parses S mx data Q s_res_status_start m (P\<lparr>status_code := of_nat n\<rparr>) u rest"
  shows "parses S mx data Q s_res_status_code m P u (ds @ SP # rest)"
  using assms(1-3,6)
proof (induction ds arbitrary: P v)
  case Nil
  have "P\<lparr>status_code := of_nat n\<rparr> = P" using Nil.prems(2,3) by simp
  with Nil.prems(4) have "parses S mx data Q s_res_status_start m P u rest" by (simp only:)
  from parses_expect_res [OF this assms(5)] show ?case by simp
next
  case (Cons c ds)
  let ?w = "v * 10 + digit_val c"
  let ?P = "P\<lparr>status_code := of_nat ?w\<rparr>"
  have c: "IS_NUM c" using Cons.prems(1) by simp
  have "?w \<le> n" using Cons.prems(3) digits_value_ge [of 10 ?w "map digit_val ds"] by simp
  then have w: "?w < 1000" using assms(4) by simp
  have "\<not> (of_nat ?w :: u16) > 999" using w by (simp add: word_less_nat_alt unat_of_nat del: of_nat_add of_nat_mult)
  then have small: "\<not> (of_nat v * 10 + of_nat (digit_val c) :: u16) > 999" by simp
  have "parses S mx data Q s_res_status_code m ?P u (ds @ SP # rest)"
    using Cons.prems(1,3,4) by (intro Cons.IH [of ?P ?w]) simp_all
  then show ?case
    unfolding append.simps
    by (rule parses_step [rotated 3])
      (use assms(5) c Cons.prems(2) small in \<open>simp_all add: PARSING_HEADER_iff exec_switch_def exec_res_status_code_def Let_def\<close>)
qed

lemma parses_status:
  assumes "n < 1000" "length data \<le> unat mx + length rest"
    and "parses S mx data Q s_res_status_start m (P\<lparr>status_code := of_nat n\<rparr>) u rest"
  shows "parses S mx data Q s_res_first_status_code m P u (dec n @ SP # rest)"
proof -
  obtain d ds where v: "dec n = d # ds" using dec_nonempty [of n] by (cases "dec n") auto
  have num: "IS_NUM d" "\<forall>c \<in> set ds. IS_NUM c" using dec_digits [of n] v by auto
  have val: "digits_value 10 (digit_val d) (map digit_val ds) = n" using dec_value [of n] v by simp
  have "parses S mx data Q s_res_status_code m (P\<lparr>status_code := of_nat (digit_val d)\<rparr>) u (ds @ SP # rest)"
    using assms by (intro parses_status_digits [OF num(2) _ val]) simp_all
  then show ?thesis
    unfolding v append.simps
    by (rule parses_step [rotated 3])
      (use assms(2) num(1) in \<open>simp_all add: PARSING_HEADER_iff exec_switch_def exec_res_first_status_code_def\<close>)
qed

definition reason_text :: "string \<Rightarrow> bool" where
  "reason_text s \<longleftrightarrow> s \<noteq> [] \<and> CR \<notin> set s \<and> LF \<notin> set s"

lemma parses_reason_chars:
  assumes "CR \<notin> set w" "LF \<notin> set w" "length data \<le> unat mx + length rest"
    and "parses S mx data Q s_res_status m P u rest"
  shows "parses S mx data Q s_res_status m P u (w @ rest)"
  using assms(1,2)
proof (induction w)
  case (Cons c w)
  then show ?case
    unfolding append.simps using assms(3)
    by (intro parses_step [where s' = s_res_status and m' = m and P' = P and u' = u])
      (auto simp: PARSING_HEADER_iff exec_switch_def exec_res_status_def)
qed (use assms(4) in simp)

lemma parses_reason:
  fixes ops :: "'m map_ops"
  assumes "reason_text s" "length data \<le> unat mx + length rest" "http_errno P = HPE_OK"
    and "drop (length data - length (s @ CRLF @ rest)) data = s @ CRLF @ rest"
    and "parses (s_response_settings ops) mx data Q s_header_field_start Map.empty
      (P\<lparr>p_index := 0, p_state := s_res_line_almost_done\<rparr>)
      (u\<lparr>rs_data := (rs_data u)\<lparr>rsp_status := unat (status_code P)\<rparr>\<rparr>) rest"
  shows "parses (s_response_settings ops) mx data Q s_res_status_start Map.empty P u (s @ CRLF @ rest)"
proof -
  let ?S = "s_response_settings ops"
  obtain c w where s: "s = c # w" using assms(1) by (cases s) (auto simp: reason_text_def)
  have cw: "c \<noteq> CR" "c \<noteq> LF" "CR \<notin> set w" "LF \<notin> set w" using assms(1) s by (auto simp: reason_text_def)
  define a where "a = length data - length (s @ CRLF @ rest)"
  have dr: "drop a data = s @ CR # LF # rest" using assms(4) by (simp add: a_def)
  then have "a < length data" using s by (metis append_Cons drop_eq_Nil2 list.distinct(1) not_le)
  then have len: "length data = a + length s + Suc (Suc (length rest))" using arg_cong [OF dr, of length] by simp
  have "parses ?S mx data Q s_res_line_almost_done Map.empty (P\<lparr>p_index := 0, p_state := s_res_line_almost_done\<rparr>)
      (u\<lparr>rs_data := (rs_data u)\<lparr>rsp_status := unat (status_code P)\<rparr>\<rparr>) (LF # rest)"
    using assms(2,5) by (intro parses_expect_res [where s' = s_header_field_start]) simp_all
  then have "parses ?S mx data Q s_res_status [M_status \<mapsto> a] (P\<lparr>p_index := 0\<rparr>) u (CR # LF # rest)"
  proof (rule parses_step [rotated 3])
    fix x :: "'m HttpResponseParser_data xst"
    assume x: "cst x = s_res_status" "marks x = [M_status \<mapsto> a]" "prs x = P\<lparr>p_index := 0\<rparr>" "usr x = u" "cur_ch x = CR"
      "length data = Suc (pos x + length (LF # rest))"
    then have "pos x = a + length s" using len by simp
    with x assms(3) len show "exec_switch ?S mx data x =
        Next (x\<lparr>cst := s_res_line_almost_done, marks := Map.empty, prs := P\<lparr>p_index := 0, p_state := s_res_line_almost_done\<rparr>,
          usr := u\<lparr>rs_data := (rs_data u)\<lparr>rsp_status := unat (status_code P)\<rparr>\<rparr>\<rparr>)"
      by (simp add: exec_switch_def exec_res_status_def CALLBACK_DATA_gen_def on_response_status_cb_def Let_def)
  qed (use assms(2) in \<open>simp_all add: PARSING_HEADER_iff\<close>)
  then have "parses ?S mx data Q s_res_status [M_status \<mapsto> a] (P\<lparr>p_index := 0\<rparr>) u (w @ CR # LF # rest)"
    using cw assms(2) by (intro parses_reason_chars) simp_all
  then show ?thesis
    unfolding s append.simps
    by (rule parses_step [rotated 3])
      (use assms(2) cw len s in \<open>auto simp: PARSING_HEADER_iff exec_switch_def exec_res_status_start_def MARK_def Let_def\<close>)
qed

section \<open>The end of the head\<close>

definition rs_set_field :: "string \<Rightarrow> 'm HttpResponseParser_data \<Rightarrow> 'm HttpResponseParser_data" where
  "rs_set_field k u = u\<lparr>rs_field := k\<rparr>"

definition rs_set_value :: "'m map_ops \<Rightarrow> string \<Rightarrow> 'm HttpResponseParser_data \<Rightarrow> 'm HttpResponseParser_data" where
  "rs_set_value ops v u = u\<lparr>rs_data := rsp_setHeader ops (rs_field u) v (rs_data u)\<rparr>"

interpretation response_headers: header_client "s_response_settings ops" rs_set_field "rs_set_value ops" for ops
  by unfold_locales (simp_all add: fun_eq_iff rs_set_field_def rs_set_value_def on_response_header_field_cb_def
    on_response_header_value_cb_def)

abbreviation rs_set_headers :: "'m map_ops \<Rightarrow> (string \<times> string) list \<Rightarrow> 'm HttpResponseParser_data \<Rightarrow> 'm HttpResponseParser_data" where
  "rs_set_headers ops es u \<equiv> fold (\<lambda>(k, v) u. rs_set_value ops v (rs_set_field k u)) es u"

lemma rs_set_headers_data:
  "rs_data (rs_set_headers ops es u) = (rs_data u)
     \<lparr>rsp_headers := fold (\<lambda>(k, v) m. map_set ops m k v) es (rsp_headers (rs_data u))\<rparr>"
  "rs_error (rs_set_headers ops es u) = rs_error u" "rs_finished (rs_set_headers ops es u) = rs_finished u"
  by (induction es arbitrary: u) (auto simp: rs_set_field_def rs_set_value_def rsp_setHeader_def)

lemma rs_set_header_finished: "rs_finished (rs_set_value ops v (rs_set_field k u)) = rs_finished u"
  by (simp add: rs_set_value_def rs_set_field_def)

definition response_head :: "http_parser \<Rightarrow> bool" where
  "response_head P \<longleftrightarrow> http_errno P = HPE_OK \<and> p_type P = HTTP_RESPONSE \<and> \<not> uses_transfer_encoding P \<and>
     p_method P \<noteq> HTTP_CONNECT \<and> \<not> has_flag (p_flags P) F_CHUNKED \<and> \<not> has_flag (p_flags P) F_UPGRADE \<and>
     \<not> has_flag (p_flags P) F_TRAILING \<and> \<not> has_flag (p_flags P) F_SKIPBODY"

text \<open>The responses that end with their head.\<close>

definition bodiless :: "nat \<Rightarrow> bool" where
  "bodiless status \<longleftrightarrow> status div 100 = 1 \<or> status = 204 \<or> status = 304"

definition headed_response :: "http_parser \<Rightarrow> 'm HttpResponseParser_data \<Rightarrow> 'm HttpResponseParser_data" where
  "headed_response P u = u\<lparr>rs_data := (rs_data u)\<lparr>rsp_version := parsed_version P, rsp_status := unat (status_code P)\<rparr>,
     rs_finished := (rs_finished u \<or> content_length P = ULLONG_MAX \<and> bodiless (unat (status_code P)))\<rparr>"

lemma headers_almost_done_response:
  assumes "response_head (prs x)" "cst x = s_headers_almost_done" "cur_ch x = LF"
  shows "exec_switch (s_response_settings ops) mx data x =
    Reexecute (x\<lparr>cst := s_headers_done, prs := (prs x)\<lparr>upgrade := False\<rparr>,
      usr := (usr x)\<lparr>rs_data := (rs_data (usr x))\<lparr>rsp_version := parsed_version (prs x),
        rsp_status := unat (status_code (prs x))\<rparr>\<rparr>\<rparr>)"
  using assms
  by (simp add: exec_switch_def exec_headers_almost_done_def STRICT_CHECK_def response_head_def exec_headers_complete_def
      on_response_headers_complete_cb_def parsed_version_def Let_def)

lemma needs_eof_response:
  assumes "response_head P" "content_length P = ULLONG_MAX"
  shows "http_message_needs_eof P \<longleftrightarrow> \<not> bodiless (unat (status_code P))"
proof -
  have "status_code P = k \<longleftrightarrow> unat (status_code P) = unat k" for k by (simp add: word_unat_eq_iff)
  from this [of 204] this [of 304] show ?thesis
    using assms by (simp add: http_message_needs_eof_def response_head_def bodiless_def)
qed

lemma headers_done_response:
  assumes "response_head (prs x)" "cst x = s_headers_done" "cur_ch x = LF" "\<not> upgrade (prs x)" "content_length (prs x) \<noteq> 0"
  shows "\<exists>y. exec_switch (s_response_settings ops) mx data x = Next y \<and> pos y = pos x \<and> marks y = marks x \<and>
    http_errno (prs y) = HPE_OK \<and> \<not> upgrade (prs y) \<and>
    usr y = (if content_length (prs x) = ULLONG_MAX \<and> bodiless (unat (status_code (prs x)))
      then (usr x)\<lparr>rs_finished := True\<rparr> else usr x)"
proof (cases "content_length (prs x) = ULLONG_MAX")
  case True
  have "response_head ((prs x)\<lparr>p_nread := 0\<rparr>)" using assms(1) by (simp add: response_head_def)
  from needs_eof_response [OF this] show ?thesis
    using assms True
    by (simp add: exec_switch_def exec_headers_done_def STRICT_CHECK_def response_head_def CALLBACK_NOTIFY_gen_def
        on_response_message_complete_cb_def Let_def)
next
  case False
  then show ?thesis
    using assms by (simp add: exec_switch_def exec_headers_done_def STRICT_CHECK_def response_head_def Let_def)
qed

lemma parses_response_end:
  fixes ops :: "'m map_ops"
  assumes "response_head P" "length data \<le> unat mx" "content_length P \<noteq> 0" "\<not> rs_finished u"
    and "\<And>P'. http_errno P' = HPE_OK \<Longrightarrow> Q (length data) P' (headed_response P u)"
  shows "parses (s_response_settings ops) mx data Q s_header_field_start Map.empty P u CRLF"
proof -
  let ?S = "s_response_settings ops"
  have "parses ?S mx data Q s_headers_almost_done Map.empty P u [LF]"
    unfolding parses_def
  proof (intro allI impI)
    fix x :: "'m HttpResponseParser_data xst"
    assume x: "at data s_headers_almost_done Map.empty P u [LF] x"
    have p: "pos x < length data" "data ! pos x = LF" "length data = Suc (pos x)"
      using at_nth [OF x] at_pos [OF x] by auto
    let ?x = "x\<lparr>cur_ch := LF, nread := nread x + 1\<rparr>"
    let ?d = "(rs_data u)\<lparr>rsp_version := parsed_version P, rsp_status := unat (status_code P)\<rparr>"
    let ?y = "?x\<lparr>cst := s_headers_done, prs := P\<lparr>upgrade := False\<rparr>, usr := u\<lparr>rs_data := ?d\<rparr>\<rparr>"
    have le: "nread x + 1 \<le> mx"
      using of_nat_le_word [of "Suc (pos x)" mx] p(3) assms(2) x by (simp add: at_def add.commute)
    have 1: "exec_switch ?S mx data ?x = Reexecute ?y"
      using headers_almost_done_response [of ?x ops mx data] x assms(1) by (simp add: at_def)
    have "response_head (P\<lparr>upgrade := False\<rparr>)" using assms(1) by (simp add: response_head_def)
    with headers_done_response [of ?y ops mx data] x assms(3) obtain y
      where y: "exec_switch ?S mx data ?y = Next y" "pos y = pos x" "marks y = Map.empty"
        "http_errno (prs y) = HPE_OK" "\<not> upgrade (prs y)"
        "usr y = (if content_length P = ULLONG_MAX \<and> bodiless (unat (status_code P))
          then (usr ?y)\<lparr>rs_finished := True\<rparr> else usr ?y)"
      by (auto simp: at_def)
    have 2: "exec_reexecute reexecute_fuel ?S mx data ?x = Next y"
      using 1 y(1) by (simp add: reexecute_fuel_def numeral_eq_Suc)
    have "usr y = headed_response P u" using y(6) assms(4) by (simp add: headed_response_def)
    then have fin: "yields ?S mx data Q (y\<lparr>pos := Suc (pos y)\<rparr>)"
      using y(2-5) p assms(5) by (intro yields_end) simp_all
    show "yields ?S mx data Q x"
    proof (rule yields_round [OF p(1) _ le _ _ fin])
      show "PARSING_HEADER (cst x)" using x by (simp add: at_def PARSING_HEADER_iff)
    qed (simp_all only: p(2) 2 y(2) order.refl)
  qed
  then show ?thesis
    by (rule parses_step [rotated 3])
      (use assms(2) in \<open>auto simp: PARSING_HEADER_iff exec_switch_def exec_header_field_start_def\<close>)
qed

section \<open>Printed responses\<close>

definition printed_reason :: "'m HttpResponse \<Rightarrow> string" where
  "printed_reason r = (if rsp_reason r = [] then HttpStatusToString (rsp_status r) else rsp_reason r)"

definition printable_response :: "'m map_ops \<Rightarrow> 'm HttpResponse \<Rightarrow> bool" where
  "printable_response ops r \<longleftrightarrow> rsp_status r < 1000 \<and> CR \<notin> set (rsp_reason r) \<and> LF \<notin> set (rsp_reason r) \<and>
     unat (drop_bit 4 (rsp_version r)) < 10 \<and> unat (rsp_version r AND 0x0F) < 10 \<and>
     list_all plain_entry (map_entries ops (rsp_headers r)) \<and> length (rsp_body r) < 18446744073709551610"

definition length_entries :: "string \<Rightarrow> (string \<times> string) list" where
  "length_entries body = (if body = [] then [] else [(''content-length'', dec (length body))])"

text \<open>What the client knows of a response when everything the server printed has arrived.\<close>

definition received_head :: "'m map_ops \<Rightarrow> 'm HttpResponse \<Rightarrow> 'm HttpResponse" where
  "received_head ops r = (new_HttpResponse ops (rsp_version r) True)\<lparr>rsp_status := rsp_status r,
     rsp_headers := fold (\<lambda>(k, v) m. map_set ops m k v)
       (own_entries (map_entries ops (rsp_headers r)) @ [(''connection'', connection_value (rsp_close r))] @
        length_entries (rsp_body r)) (map_empty ops)\<rparr>"

definition response_result :: "'m map_ops \<Rightarrow> 'm HttpResponse \<Rightarrow> nat \<Rightarrow> http_parser \<Rightarrow> 'm HttpResponseParser_data \<Rightarrow> bool" where
  "response_result ops r n P u \<longleftrightarrow> n = length (rsp_dump ops r) \<and> http_errno P = HPE_OK \<and>
     rs_data u = received_head ops r \<and> rs_error u = HPE_OK \<and>
     (rs_finished u \<longleftrightarrow> rsp_body r = [] \<and> bodiless (rsp_status r))"

definition length_line :: "string \<Rightarrow> string" where
  "length_line body = (if body = [] then [] else ''content-length: '' @ dec (length body) @ CRLF)"

lemma rsp_dump_parts:
  "rsp_dump ops r = ''HTTP/'' @ dec (unat (drop_bit 4 (rsp_version r))) @ ''.'' @ dec (unat (rsp_version r AND 0x0F)) @
    SP # dec (rsp_status r) @ SP # printed_reason r @ CRLF @
    concat (map (header_line [SP]) (map_entries ops (rsp_headers r))) @
    ''connection: '' @ connection_value (rsp_close r) @ CRLF @ length_line (rsp_body r) @ CRLF"
proof -
  have "header_line [SP] = (\<lambda>(k, v). if is_connection k then [] else k @ '': '' @ v @ CRLF)" by (auto simp: fun_eq_iff)
  then show ?thesis
    by (simp add: rsp_dump_def version_string_def printed_reason_def connection_value_def length_line_def)
qed

lemma status_text_plain: "reason_text (HttpStatusToString s)"
proof -
  have all: "list_all (\<lambda>(_, t). reason_text t) HTTP_STATUS_MAP" "reason_text ''<unknown>''" by code_simp+
  show ?thesis
  proof (cases "map_of HTTP_STATUS_MAP s")
    case (Some t)
    with all(1) show ?thesis by (auto simp: HttpStatusToString_def list_all_iff dest: map_of_SomeD)
  qed (use all(2) in \<open>simp add: HttpStatusToString_def\<close>)
qed

lemma printed_reason_plain: "printable_response ops r \<Longrightarrow> reason_text (printed_reason r)"
  using status_text_plain by (auto simp: printed_reason_def printable_response_def reason_text_def)

lemma parses_length_line:
  fixes ops :: "'m map_ops"
  assumes "response_head P" "\<not> has_flag (p_flags P) F_CONTENTLENGTH" "content_length P = ULLONG_MAX"
    and "length body < 18446744073709551610" "length data \<le> unat mx" "\<not> rs_finished u"
    and "drop (length data - length (length_line body @ CRLF)) data = length_line body @ CRLF"
    and "\<And>P' P''. same_head (P\<lparr>p_flags := p_flags P', content_length := content_length P'\<rparr>) P' \<Longrightarrow>
      (content_length P' = ULLONG_MAX \<longleftrightarrow> body = []) \<Longrightarrow> http_errno P'' = HPE_OK \<Longrightarrow>
      Q (length data) P'' (headed_response P' (rs_set_headers ops (length_entries body) u))"
  shows "parses (s_response_settings ops) mx data Q s_header_field_start Map.empty P u (length_line body @ CRLF)"
proof (cases "body = []")
  case True
  have "parses (s_response_settings ops) mx data Q s_header_field_start Map.empty P u CRLF"
    using assms(1,3,5,6) assms(8) [of P] True
    by (intro parses_response_end) (simp_all add: same_head_def length_entries_def)
  then show ?thesis using True by (simp add: length_line_def)
next
  case False
  have "parses (s_response_settings ops) mx data Q s_header_field_start Map.empty P u
      (''content-length: '' @ dec (length body) @ CRLF @ CRLF)"
  proof (rule response_headers.parses_content_length_line [OF _ _ assms(2,4)])
    fix P' v
    assume P': "same_head (P\<lparr>p_flags := p_flags P OR F_CONTENTLENGTH, content_length := v\<rparr>) P'"
      "unat v = length body" "\<not> uses_transfer_encoding P'"
    have "unat ULLONG_MAX = 18446744073709551615" by (simp add: unsigned_minus_1_eq_mask mask_eq_exp_minus_1)
    then have "v \<noteq> ULLONG_MAX" "v \<noteq> 0" using P'(2) assms(4) False by auto
    moreover have "response_head P'"
      using P'(1,3) assms(1) by (simp add: response_head_def same_head_def content_length_flag)
    moreover have "\<not> rs_finished (rs_set_headers ops (length_entries body) u)" using assms(6) by (simp add: rs_set_headers_data)
    ultimately show "parses (s_response_settings ops) mx data Q s_header_field_start Map.empty P'
        (rs_set_value ops (dec (length body)) (rs_set_field ''content-length'' u)) CRLF"
      using P' assms(5) assms(8) [of P'] False
      by (intro parses_response_end) (auto simp: same_head_def length_entries_def)
  qed (use assms(1,5,7) False in \<open>simp_all add: response_head_def length_line_def\<close>)
  then show ?thesis using False by (simp add: length_line_def)
qed

lemma parses_response_lines:
  fixes ops :: "'m map_ops"
  assumes "printable_response ops r" "length (rsp_dump ops r) \<le> unat mx"
    and "response_head P" "p_flags P = 0" "content_length P = ULLONG_MAX" "status_code P = of_nat (rsp_status r)"
    and "http_major P = of_nat (unat (drop_bit 4 (rsp_version r)))" "http_minor P = of_nat (unat (rsp_version r AND 0x0F))"
    and "rs_data u = (new_HttpResponse ops 0x11 True)\<lparr>rsp_status := rsp_status r\<rparr>" "rs_error u = HPE_OK" "\<not> rs_finished u"
    and "rest = ''connection: '' @ connection_value (rsp_close r) @ CRLF @ length_line (rsp_body r) @ CRLF"
    and "drop (length (rsp_dump ops r) - length (concat (map (header_line [SP]) (map_entries ops (rsp_headers r))) @ rest))
      (rsp_dump ops r) = concat (map (header_line [SP]) (map_entries ops (rsp_headers r))) @ rest"
  shows "parses (s_response_settings ops) mx (rsp_dump ops r) (response_result ops r) s_header_field_start Map.empty P u
    (concat (map (header_line [SP]) (map_entries ops (rsp_headers r))) @ rest)"
proof -
  let ?S = "s_response_settings ops" and ?data = "rsp_dump ops r" and ?Q = "response_result ops r"
  let ?es = "map_entries ops (rsp_headers r)" and ?body = "rsp_body r" and ?v = "connection_value (rsp_close r)"
  have es: "list_all plain_entry ?es" "length ?body < 18446744073709551610" and st: "rsp_status r < 1000"
    using assms(1) by (simp_all add: printable_response_def)
  have fits: "length ?data \<le> unat mx + n" for n using assms(2) by simp
  have dr: "drop (length ?data - length rest) ?data = rest"
    using drop_tail [of ?data "concat (map (header_line [SP]) ?es)" rest] assms(13) by simp
  have dr2: "drop (length ?data - length (length_line ?body @ CRLF)) ?data = length_line ?body @ CRLF"
    using drop_tail [of ?data "''connection: '' @ ?v @ CRLF" "length_line ?body @ CRLF"] dr assms(12) by simp
  have code: "unat (of_nat (rsp_status r) :: u16) = rsp_status r" using st by (simp add: unat_of_nat)
  let ?u1 = "rs_set_headers ops (own_entries ?es) u"
  let ?u2 = "rs_set_value ops ?v (rs_set_field ''connection'' ?u1)"
  have all: "rs_set_headers ops (length_entries ?body) ?u2 = rs_set_headers ops (own_entries ?es @
      [(''connection'', ?v)] @ length_entries ?body) u" by simp
  show ?thesis
  proof (rule response_headers.parses_header_lines [OF es(1) _ _ fits])
    fix P1
    assume P1: "same_head P P1" "\<not> uses_transfer_encoding P1"
    show "parses ?S mx ?data ?Q s_header_field_start Map.empty P1 ?u1 rest"
      unfolding assms(12)
    proof (rule response_headers.parses_connection_line [OF _ P1(2) fits])
      fix P2
      assume P2: "same_head (P1\<lparr>p_flags := p_flags P1 OR connection_flag (rsp_close r)\<rparr>) P2" "\<not> uses_transfer_encoding P2"
      have plain: "response_head P2" "\<not> has_flag (p_flags P2) F_CONTENTLENGTH" "content_length P2 = ULLONG_MAX"
        using P1(1) P2 assms(3-5) by (simp_all add: response_head_def same_head_def connection_flag_other)
      have nf: "\<not> rs_finished ?u2" using assms(11) by (simp add: rs_set_header_finished rs_set_headers_data(3))
      show "parses ?S mx ?data ?Q s_header_field_start Map.empty P2 ?u2 (length_line ?body @ CRLF)"
      proof (rule parses_length_line [OF plain es(2) assms(2) nf dr2])
        fix P' P'' :: http_parser
        assume P': "same_head (P2\<lparr>p_flags := p_flags P', content_length := content_length P'\<rparr>) P'"
          "content_length P' = ULLONG_MAX \<longleftrightarrow> ?body = []" "http_errno P'' = HPE_OK"
        let ?u = "rs_set_headers ops (length_entries ?body) ?u2"
        have "parsed_version P' = rsp_version r" "unat (status_code P') = rsp_status r"
          using P1(1) P2(1) P'(1) assms(6-8) parsed_version_nibbles [of P' "rsp_version r"] code by (simp_all add: same_head_def)
        moreover have "rs_finished ?u = False" using nf by (simp add: rs_set_headers_data(3))
        ultimately show "response_result ops r (length ?data) P'' (headed_response P' ?u)"
          using assms(9,10) P'(2,3) unfolding all
          by (simp add: response_result_def headed_response_def received_head_def new_HttpResponse_def
              rs_set_headers_data(1,2) del: fold_append)
      qed
    qed (use assms(3,12) P1(1) dr in \<open>simp_all add: response_head_def same_head_def length_line_def\<close>)
  qed (use assms(3,12,13) in \<open>simp_all add: response_head_def\<close>)
qed

lemma parses_printed_response:
  fixes ops :: "'m map_ops"
  assumes "printable_response ops r" "length (rsp_dump ops r) \<le> unat mx"
  shows "parses (s_response_settings ops) mx (rsp_dump ops r) (response_result ops r) s_start_res Map.empty
    (http_parser_init HTTP_RESPONSE) (rs_user (new_HttpResponseParser ops)) (rsp_dump ops r)"
proof -
  let ?S = "s_response_settings ops" and ?data = "rsp_dump ops r" and ?Q = "response_result ops r"
  let ?u = "rs_user (new_HttpResponseParser ops)" and ?s = "printed_reason r"
  let ?a = "unat (drop_bit 4 (rsp_version r))" and ?b = "unat (rsp_version r AND 0x0F)"
  define rest where "rest = ''connection: '' @ connection_value (rsp_close r) @ CRLF @ length_line (rsp_body r) @ CRLF"
  define lines where "lines = concat (map (header_line [SP]) (map_entries ops (rsp_headers r))) @ rest"
  have data: "?data = ''HTTP/'' @ dec ?a @ ''.'' @ dec ?b @ SP # dec (rsp_status r) @ SP # ?s @ CRLF @ lines"
    unfolding rest_def lines_def by (rule rsp_dump_parts)
  have fits: "length ?data \<le> unat mx + n" for n using assms(2) by simp
  have ab: "?a < 10" "?b < 10" "rsp_status r < 1000" using assms(1) by (simp_all add: printable_response_def)
  have code: "unat (of_nat (rsp_status r) :: u16) = rsp_status r" using ab(3) by (simp add: unat_of_nat)
  let ?P = "(response_begun (http_parser_init HTTP_RESPONSE))\<lparr>http_major := of_nat ?a, http_minor := of_nat ?b,
    status_code := of_nat (rsp_status r)\<rparr>"
  let ?R = "?P\<lparr>p_index := 0, p_state := s_res_line_almost_done\<rparr>"
  let ?u' = "?u\<lparr>rs_data := (rs_data ?u)\<lparr>rsp_status := unat (status_code ?P)\<rparr>\<rparr>"
  have R: "response_head ?R" "p_flags ?R = 0" "content_length ?R = ULLONG_MAX" "http_errno ?P = HPE_OK"
    by (simp_all add: response_head_def response_begun_def reset_message_def http_parser_init_def has_flag_def
        F_CHUNKED_def F_UPGRADE_def F_TRAILING_def F_SKIPBODY_def)
  have tl: "drop (length ?data - length lines) ?data = lines"
    by (rule drop_rest [where a = "''HTTP/'' @ dec ?a @ ''.'' @ dec ?b @ SP # dec (rsp_status r) @ SP # ?s @ CRLF"])
      (use data in simp)
  have tl2: "drop (length ?data - length (?s @ CRLF @ lines)) ?data = ?s @ CRLF @ lines"
    by (rule drop_rest [where a = "''HTTP/'' @ dec ?a @ ''.'' @ dec ?b @ SP # dec (rsp_status r) @ [SP]"])
      (use data in simp)
  have "parses ?S mx ?data ?Q s_header_field_start Map.empty ?R ?u' lines"
    unfolding lines_def
    by (rule parses_response_lines [OF assms R(1-3) _ _ _ _ _ _ rest_def tl [unfolded lines_def]])
      (use code in \<open>simp_all add: new_HttpResponseParser_def\<close>)
  then have "parses ?S mx ?data ?Q s_res_status_start Map.empty ?P ?u (?s @ CRLF @ lines)"
    by (intro parses_reason [OF printed_reason_plain [OF assms(1)] fits R(4) tl2])
  then have "parses ?S mx ?data ?Q s_res_http_major Map.empty (response_begun (http_parser_init HTTP_RESPONSE)) ?u
      (dec ?a @ ''.'' @ dec ?b @ SP # dec (rsp_status r) @ SP # ?s @ CRLF @ lines)"
    by (intro parses_version_res [OF ab(1,2) fits] parses_status [OF ab(3) fits])
  then have "parses ?S mx ?data ?Q s_start_res Map.empty (http_parser_init HTTP_RESPONSE) ?u
      (''HTTP/'' @ dec ?a @ ''.'' @ dec ?b @ SP # dec (rsp_status r) @ SP # ?s @ CRLF @ lines)"
    by (intro parses_HTTP_res [OF _ fits]) (simp_all add: http_parser_init_def)
  then show ?thesis unfolding data .
qed

lemma printed_response_parsed:
  assumes "printable_response ops r" "length (rsp_dump ops r) \<le> unat mx"
  shows "\<exists>p. HttpResponseParser_execute ops mx (rsp_dump ops r) (new_HttpResponseParser ops) =
      Some (length (rsp_dump ops r), rsp_dump ops r, p) \<and> rs_error (rs_user p) = HPE_OK \<and>
    rs_data (rs_user p) = received_head ops r \<and>
    (rs_finished (rs_user p) \<longleftrightarrow> rsp_body r = [] \<and> bodiless (rsp_status r))"
proof -
  let ?S = "s_response_settings ops" and ?data = "rsp_dump ops r"
  let ?P = "http_parser_init HTTP_RESPONSE" and ?u = "rs_user (new_HttpResponseParser ops)"
  have "at ?data s_start_res Map.empty ?P ?u ?data (initial_xst ?P ?u)"
    by (simp add: at_def initial_xst_def http_parser_init_def initial_marks_def)
  then have "yields ?S mx ?data (response_result ops r) (initial_xst ?P ?u)"
    using parses_printed_response [OF assms] by (simp add: parses_def)
  then have "case exec_loop (length ?data) ?S mx ?data (initial_xst ?P ?u) of Return n P u \<Rightarrow> response_result ops r n P u | _ \<Rightarrow> False"
    by (simp add: yields_def)
  then obtain n P u where run: "exec_loop (length ?data) ?S mx ?data (initial_xst ?P ?u) = Return n P u"
      and res: "response_result ops r n P u"
    by (cases "exec_loop (length ?data) ?S mx ?data (initial_xst ?P ?u)") simp_all
  have "?data \<noteq> []" by (simp add: rsp_dump_def version_string_def)
  then have "http_parser_execute ?S mx ?P ?u ?data = Return n P u"
    using run by (simp add: http_parser_execute_def http_parser_init_def)
  then show ?thesis
    using res by (simp add: HttpResponseParser_execute_def new_HttpResponseParser_def response_result_def)
qed

text \<open>
  C7. A response the server prints reaches the library's own client incomplete: for a response with a status
  below 1000 and headers with ordinary names and values, the response parser consumes exactly the bytes
  \<^verbatim>\<open>dump\<close> prints, reports no error and holds the status, the version and the headers that were printed, but it
  is finished only when there is no body and the status is one that forbids a body (1xx, 204, 304): the body
  is announced and never printed, and the length of an empty body is not announced.
\<close>

theorem response_left_waiting:
  assumes "printable_response ops r" "length (rsp_dump ops r) \<le> unat mx"
  shows "\<exists>p. HttpResponseParser_execute ops mx (rsp_dump ops r) (new_HttpResponseParser ops) =
      Some (length (rsp_dump ops r), rsp_dump ops r, p) \<and> rs_error (rs_user p) = HPE_OK \<and>
    rs_data (rs_user p) = received_head ops r \<and>
    (rs_finished (rs_user p) \<longleftrightarrow> rsp_body r = [] \<and> bodiless (rsp_status r))"
  by (rule printed_response_parsed [OF assms])

definition bodied_response :: "(string \<times> string) list HttpResponse" where
  "bodied_response = (new_HttpResponse alist_ops 0x11 False)\<lparr>rsp_body := ''hi'', rsp_headers := [(''host'', ''me'')]\<rparr>"

lemma bodied_response_printable: "printable_response alist_ops bodied_response"
proof -
  have "list_all plain_entry [(''host'', ''me'')]" by code_simp
  then show ?thesis
    by (simp add: printable_response_def bodied_response_def new_HttpResponse_def alist_ops_def STATUS_OK_def)
qed

lemma bodied_response_dump:
  "rsp_dump alist_ops bodied_response =
   ''HTTP/1.1 200 OK'' @ CRLF @ ''host: me'' @ CRLF @ ''connection: keep-alive'' @ CRLF @
   ''content-length: 2'' @ CRLF @ CRLF"
  by code_simp

theorem response_left_waiting_witness:
  "\<exists>p. HttpResponseParser_execute alist_ops 1000 (rsp_dump alist_ops bodied_response) (new_HttpResponseParser alist_ops) =
      Some (length (rsp_dump alist_ops bodied_response), rsp_dump alist_ops bodied_response, p) \<and>
    rs_data (rs_user p) = received_head alist_ops bodied_response \<and> \<not> rs_finished (rs_user p)"
proof -
  have "length (rsp_dump alist_ops bodied_response) \<le> unat (1000 :: u32)"
    by (simp add: bodied_response_dump)
  moreover have "rsp_body bodied_response \<noteq> []" by (simp add: bodied_response_def)
  ultimately show ?thesis using response_left_waiting [OF bodied_response_printable] by blast
qed

end
