(* ===== verification/ByteArrayFile.thy ===== *)
theory ByteArrayFile
  imports ByteArrayProps
begin

text \<open>
  The operations of \<^verbatim>\<open>bytearray.cpp\<close> on files and as text.  A file is the list of its bytes; whether it can be opened is an
  argument.
\<close>

section \<open>Writing to a file\<close>

text \<open>
  The loop of \<^verbatim>\<open>writeToFile\<close>: what it writes, from \<^verbatim>\<open>read_size\<close>, \<^verbatim>\<open>pos\<close> and \<^verbatim>\<open>cur\<close>.  Writing a negative number of
  characters is undefined.
\<close>

function write_file_loop :: "byte_array \<Rightarrow> int \<Rightarrow> int \<Rightarrow> nat option \<Rightarrow> ba_error + u8 option list" where
  "write_file_loop b read_size pos cur =
    (if read_size \<le> 0 then Inr []
     else case cur of
         None \<Rightarrow> Inl Bad_access
       | Some c \<Rightarrow>
           if c \<ge> length (m_nodes b) then Inl Bad_access
           else
             (let diff = pos mod int (m_baseSize b);
                  len = (if read_size > int (m_baseSize b) then int (m_baseSize b) else read_size) - diff
              in if len < 0 \<or> nat (diff + len) > length (m_nodes b ! c) then Inl Bad_access
                 else (case write_file_loop b (read_size - len) (pos + len) (next_node b c) of
                         Inl e \<Rightarrow> Inl e
                       | Inr rest \<Rightarrow> Inr (take (nat len) (drop (nat diff) (m_nodes b ! c)) @ rest))))"
  by pat_completeness auto
termination
  by (relation "measure (\<lambda>(b, _, _, cur). case cur of None \<Rightarrow> 0 | Some c \<Rightarrow> length (m_nodes b) - c)")
    (auto simp: next_node_def split: if_splits)

declare write_file_loop.simps [simp del]

text \<open>The result and the file, which is left alone when it cannot be opened.\<close>

definition writeToFile :: "bool \<Rightarrow> byte_array \<Rightarrow> u8 option list \<Rightarrow> ba_error + (bool \<times> u8 option list)" where
  "writeToFile can_open b file =
    (if \<not> can_open then Inr (False, file)
     else if m_baseSize b = 0 \<and> getReadSize b > 0 then Inl Bad_access
     else (case write_file_loop b (int (getReadSize b)) (int (m_position b)) (m_cur b) of
             Inl e \<Rightarrow> Inl e
           | Inr out \<Rightarrow> Inr (True, out)))"

section \<open>Reading from a file\<close>

text \<open>
  The loop of \<^verbatim>\<open>readFromFile\<close> over what is left of the file: a read that gets fewer bytes than it asked for sets the
  end-of-file flag.  With nodes of size 0 the flag is never set, so there is fuel; \<open>None\<close> is a loop still running.
\<close>

primrec read_file_loop :: "nat \<Rightarrow> u8 list \<Rightarrow> byte_array \<Rightarrow> (ba_error + byte_array) option" where
  "read_file_loop 0 left b = None"
| "read_file_loop (Suc n) left b =
    (case ba_write (take (m_baseSize b) left) b of
       Inl e \<Rightarrow> Some (Inl e)
     | Inr b' \<Rightarrow>
         if length left < m_baseSize b then Some (Inr b')
         else read_file_loop n (drop (m_baseSize b) left) b')"

definition readFromFile :: "nat \<Rightarrow> u8 list option \<Rightarrow> byte_array \<Rightarrow> (ba_error + (bool \<times> byte_array)) option" where
  "readFromFile fuel file b =
    (case file of
       None \<Rightarrow> Some (Inr (False, b))
     | Some content \<Rightarrow> map_option (map_sum id (Pair True)) (read_file_loop fuel content b))"

section \<open>Hexadecimal text\<close>

definition hex_digit :: "nat \<Rightarrow> char" where
  "hex_digit d = (if d < 10 then char_of (48 + d) else char_of (87 + d))"

definition hex_byte :: "u8 \<Rightarrow> string" where
  "hex_byte v = [hex_digit (unat v div 16), hex_digit (unat v mod 16), CHR '' '']"

definition hex_at :: "nat \<Rightarrow> u8 \<Rightarrow> string" where
  "hex_at i v = (if i > 0 \<and> i mod 32 = 0 then [LF] else []) @ hex_byte v"

definition hex_text :: "u8 list \<Rightarrow> string" where
  "hex_text vs = concat (map (\<lambda>(i, v). hex_at i v) (zip [0..<length vs] vs))"

text \<open>A cell that was never written has no value to print.\<close>

definition toHexString :: "byte_array \<Rightarrow> ba_error + string" where
  "toHexString b =
    (case toString b of
       Inl e \<Rightarrow> Inl e
     | Inr cells \<Rightarrow> (case those cells of None \<Rightarrow> Inl Indeterminate | Some vs \<Rightarrow> Inr (hex_text vs)))"

section \<open>The end of an array\<close>

text \<open>The destructor frees every node of the chain once, in order; the result are the nodes freed and the node \<^verbatim>\<open>m_cur\<close> ends at.\<close>

function free_loop :: "byte_array \<Rightarrow> nat option \<Rightarrow> nat list \<Rightarrow> nat option \<Rightarrow> nat list \<times> nat option" where
  "free_loop b cur freed last_cur =
    (case cur of
       None \<Rightarrow> (freed, last_cur)
     | Some c \<Rightarrow> if c \<ge> length (m_nodes b) then (freed, last_cur) else free_loop b (next_node b c) (freed @ [c]) (Some c))"
  by pat_completeness auto
termination
  by (relation "measure (\<lambda>(b, cur, _, _). case cur of None \<Rightarrow> 0 | Some c \<Rightarrow> length (m_nodes b) - c)")
    (auto simp: next_node_def split: if_splits)

declare free_loop.simps [simp del]

definition ByteArray_delete :: "byte_array \<Rightarrow> nat list \<times> nat option" where
  "ByteArray_delete b = free_loop b (if m_nodes b = [] then None else Some 0) [] (m_cur b)"

lemma free_loop_all:
  "c < length (m_nodes b) \<Longrightarrow> free_loop b (Some c) freed x = (freed @ [c..<length (m_nodes b)], Some (length (m_nodes b) - 1))"
proof (induction "length (m_nodes b) - c" arbitrary: c freed x)
  case (Suc k)
  show ?case
  proof (cases "c + 1 < length (m_nodes b)")
    case True
    have "free_loop b (Some (c + 1)) (freed @ [c]) (Some c) =
        ((freed @ [c]) @ [c + 1..<length (m_nodes b)], Some (length (m_nodes b) - 1))"
      using Suc.hyps(2) True by (intro Suc.hyps(1)) auto
    with True show ?thesis
      by (subst free_loop.simps) (simp add: next_node_def upt_conv_Cons)
  next
    case False
    then have "length (m_nodes b) = Suc c" using Suc.prems by simp
    then show ?thesis by (subst free_loop.simps) (simp add: next_node_def free_loop.simps)
  qed
qed simp

lemma delete_frees_all: "nodes_ok b \<Longrightarrow> fst (ByteArray_delete b) = [0..<length (m_nodes b)]"
  using free_loop_all [of 0 b "[]" "m_cur b"] by (auto simp: ByteArray_delete_def nodes_ok_def)

section \<open>What is written to a file\<close>

lemma write_file_step:
  assumes "nodes_ok b" "p < length (m_nodes b) * m_baseSize b" "0 < rs" "d = p mod m_baseSize b"
    "len = min rs (m_baseSize b) - d" "d \<le> min rs (m_baseSize b)"
  shows "write_file_loop b (int rs) (int p) (cur_at b p) =
    (case write_file_loop b (int rs - int len) (int p + int len) (next_node b (p div m_baseSize b)) of
       Inl e \<Rightarrow> Inl e
     | Inr rest \<Rightarrow> Inr (take len (drop p (flat b)) @ rest))"
proof -
  let ?B = "m_baseSize b" and ?c = "p div m_baseSize b"
  have B: "0 < ?B" "\<forall>nd \<in> set (m_nodes b). length nd = ?B" using assms(1) by (auto simp: nodes_ok_def)
  have c: "?c < length (m_nodes b)" using assms(2) B(1) by (simp add: div_less_iff_less_mult)
  have len: "int len = (if int rs > int ?B then int ?B else int rs) - int d"
    using assms(5,6) by (simp add: of_nat_diff min_def)
  have d: "int p mod int ?B = int d" using assms(4) by (simp add: zmod_int)
  have fits: "d + len \<le> ?B" using assms(5,6) by simp
  have cells: "take len (drop p (flat b)) = take len (drop d (m_nodes b ! ?c))"
    using node_of_flat [OF assms(1) c fits] assms(4) by simp
  have nd: "length (m_nodes b ! ?c) = ?B" using B(2) c by simp
  have cur: "cur_at b p = Some ?c" using c by (simp add: cur_at_def)
  have "write_file_loop b (int rs) (int p) (Some ?c) =
      (let diff = int d; len = int len
       in if len < 0 \<or> nat (diff + len) > length (m_nodes b ! ?c) then Inl Bad_access
          else (case write_file_loop b (int rs - len) (int p + len) (next_node b ?c) of
                  Inl e \<Rightarrow> Inl e
                | Inr rest \<Rightarrow> Inr (take (nat len) (drop (nat diff) (m_nodes b ! ?c)) @ rest)))"
    using assms(3) c by (subst write_file_loop.simps) (simp add: len d Let_def)
  also have "\<not> (int len < 0 \<or> nat (int d + int len) > length (m_nodes b ! ?c))" using fits nd by simp
  then have "(let diff = int d; len = int len
       in if len < 0 \<or> nat (diff + len) > length (m_nodes b ! ?c) then Inl Bad_access
          else (case write_file_loop b (int rs - len) (int p + len) (next_node b ?c) of
                  Inl e \<Rightarrow> Inl e
                | Inr rest \<Rightarrow> Inr (take (nat len) (drop (nat diff) (m_nodes b ! ?c)) @ rest))) =
     (case write_file_loop b (int rs - int len) (int p + int len) (next_node b ?c) of
       Inl e \<Rightarrow> Inl e
     | Inr rest \<Rightarrow> Inr (take len (drop p (flat b)) @ rest))"
    unfolding Let_def cells nat_int by (simp only: if_False)
  finally show ?thesis unfolding cur .
qed

lemma write_file_end: "rs \<le> 0 \<Longrightarrow> write_file_loop b rs p cur = Inr []"
  by (simp add: write_file_loop.simps)

lemma take_drop_join: "take m (drop p xs) @ take n (drop (p + m) xs) = take (m + n) (drop p xs)"
  by (simp add: take_add add.commute)

lemma next_at:
  assumes "nodes_ok b" "d = p mod m_baseSize b" "len = m_baseSize b - d"
  shows "next_node b (p div m_baseSize b) = cur_at b (p + len)" "(p + len) mod m_baseSize b = 0"
proof -
  have B: "0 < m_baseSize b" using assms(1) by (simp add: nodes_ok_def)
  then have "d < m_baseSize b" using assms(2) by simp
  then have p: "p + len = p div m_baseSize b * m_baseSize b + m_baseSize b"
    using assms(2,3) div_mult_mod_eq [of p "m_baseSize b"] by linarith
  show "next_node b (p div m_baseSize b) = cur_at b (p + len)" unfolding p by (rule cur_at_next [OF assms(1), symmetric])
  show "(p + len) mod m_baseSize b = 0" unfolding p by simp
qed

lemma write_file_aligned:
  assumes "nodes_ok b"
  shows "p mod m_baseSize b = 0 \<Longrightarrow> p + rs \<le> length (m_nodes b) * m_baseSize b \<Longrightarrow>
    write_file_loop b (int rs) (int p) (cur_at b p) = Inr (take rs (drop p (flat b)))"
proof (induction rs arbitrary: p rule: less_induct)
  case (less rs)
  have B: "0 < m_baseSize b" using assms by (simp add: nodes_ok_def)
  show ?case
  proof (cases "rs = 0")
    case False
    then have inside: "p < length (m_nodes b) * m_baseSize b" using less.prems(2) by simp
    note step = write_file_step [OF assms inside, of rs 0 "min rs (m_baseSize b)"]
    show ?thesis
    proof (cases "rs \<le> m_baseSize b")
      case True
      then show ?thesis using step less.prems(1) False by (simp add: write_file_end)
    next
      case False
      note N = next_at [OF assms, of 0 p "m_baseSize b"]
      have "write_file_loop b (int (rs - m_baseSize b)) (int (p + m_baseSize b)) (cur_at b (p + m_baseSize b)) =
          Inr (take (rs - m_baseSize b) (drop (p + m_baseSize b) (flat b)))"
        using False B N(2) less.prems by (intro less.IH) auto
      then show ?thesis
        using step False less.prems(1) N(1) take_drop_join [of "m_baseSize b" p "flat b" "rs - m_baseSize b"] B
        by (simp add: of_nat_diff)
    qed
  qed (simp add: write_file_end)
qed

lemma write_file_whole:
  assumes "nodes_ok b" "p + rs \<le> length (m_nodes b) * m_baseSize b" "m_baseSize b \<le> rs"
  shows "write_file_loop b (int rs) (int p) (cur_at b p) = Inr (take rs (drop p (flat b)))"
proof -
  have B: "0 < m_baseSize b" using assms(1) by (simp add: nodes_ok_def)
  define d where "d = p mod m_baseSize b"
  define len where "len = m_baseSize b - d"
  have d: "d < m_baseSize b" using B by (simp add: d_def)
  have len: "len \<le> rs" "len = min rs (m_baseSize b) - d" using assms(3) by (simp_all add: len_def)
  note N = next_at [OF assms(1) d_def len_def]
  have rest: "write_file_loop b (int (rs - len)) (int (p + len)) (cur_at b (p + len)) =
      Inr (take (rs - len) (drop (p + len) (flat b)))"
    using N(2) assms(2) len(1) by (intro write_file_aligned [OF assms(1)]) simp_all
  have "write_file_loop b (int rs) (int p) (cur_at b p) =
    (case write_file_loop b (int rs - int len) (int p + int len) (next_node b (p div m_baseSize b)) of
       Inl e \<Rightarrow> Inl e
     | Inr rest \<Rightarrow> Inr (take len (drop p (flat b)) @ rest))"
  proof (rule write_file_step [OF assms(1) _ _ d_def len(2)])
    show "p < length (m_nodes b) * m_baseSize b" "0 < rs" "d \<le> min rs (m_baseSize b)"
      using assms(2,3) B d by simp_all
  qed
  also have "int rs - int len = int (rs - len)" using len(1) by (simp add: of_nat_diff)
  also have "int p + int len = int (p + len)" by simp
  finally show ?thesis unfolding N(1) rest sum.case take_drop_join using len(1) by simp
qed

lemma write_file_stuck:
  "0 < rs \<Longrightarrow> rs \<le> p mod m_baseSize b \<Longrightarrow> rs < m_baseSize b \<Longrightarrow>
    write_file_loop b (int rs) (int p) cur = Inl Bad_access"
proof (induction "case cur of None \<Rightarrow> 0 | Some c \<Rightarrow> length (m_nodes b) - c" arbitrary: cur rule: less_induct)
  case less
  show ?case
  proof (cases cur)
    case None
    with less.prems show ?thesis by (simp add: write_file_loop.simps)
  next
    case (Some c)
    have d: "int p mod int (m_baseSize b) = int (p mod m_baseSize b)" by (simp add: zmod_int)
    show ?thesis
    proof (cases "c \<ge> length (m_nodes b) \<or> rs < p mod m_baseSize b")
      case True
      with less.prems Some show ?thesis by (subst write_file_loop.simps) (auto simp: Let_def d)
    next
      case False
      then have eq: "p mod m_baseSize b = rs" using less.prems by simp
      have "write_file_loop b (int rs) (int p) (next_node b c) = Inl Bad_access"
        by (rule less.hyps) (use less.prems False Some in \<open>auto simp: next_node_def\<close>)
      with less.prems Some show ?thesis by (subst write_file_loop.simps) (simp add: Let_def d eq)
    qed
  qed
qed

lemma write_file_partial:
  assumes "nodes_ok b" "p + rs \<le> length (m_nodes b) * m_baseSize b" "0 < rs" "0 < p mod m_baseSize b" "rs < m_baseSize b"
  shows "write_file_loop b (int rs) (int p) (cur_at b p) = Inl Bad_access"
proof -
  define d where "d = p mod m_baseSize b"
  show ?thesis
  proof (cases "rs \<le> d")
    case True
    then show ?thesis using assms(3,5) by (intro write_file_stuck) (simp_all add: d_def)
  next
    case False
    define len where "len = rs - d"
    have p: "p = p div m_baseSize b * m_baseSize b + d" by (simp add: d_def)
    have m: "(p + len) mod m_baseSize b = rs"
    proof -
      have "p + len = p div m_baseSize b * m_baseSize b + rs" using p False by (simp add: len_def)
      then have "(p + len) mod m_baseSize b = rs mod m_baseSize b" by simp
      then show ?thesis using assms(5) by simp
    qed
    have rest: "write_file_loop b (int d) (int (p + len)) (next_node b (p div m_baseSize b)) = Inl Bad_access"
      by (rule write_file_stuck) (use assms(4,5) False m in \<open>auto simp: d_def\<close>)
    have "write_file_loop b (int rs) (int p) (cur_at b p) =
      (case write_file_loop b (int rs - int len) (int p + int len) (next_node b (p div m_baseSize b)) of
         Inl e \<Rightarrow> Inl e
       | Inr rest \<Rightarrow> Inr (take len (drop p (flat b)) @ rest))"
      by (rule write_file_step [OF assms(1)]) (use assms(2,3,5) False in \<open>auto simp: len_def d_def\<close>)
    also have "int rs - int len = int d" using False by (simp add: len_def of_nat_diff)
    also have "int p + int len = int (p + len)" by simp
    finally show ?thesis unfolding rest sum.case .
  qed
qed

text \<open>
  Writing to a file writes exactly the bytes from the position to the size when the position is at the start of a node
  or at least a node's worth of bytes is left; with fewer bytes left inside a node, and with a file that opens, it
  writes a negative number of characters or runs off the chain.
\<close>

theorem file_write_exact:
  assumes "wf_ba b"
  shows "writeToFile True b file =
    (if m_position b = m_size b \<or> m_position b mod m_baseSize b = 0 \<or> m_baseSize b \<le> m_size b - m_position b
     then Inr (True, take (m_size b - m_position b) (drop (m_position b) (flat b))) else Inl Bad_access)"
proof -
  let ?B = "m_baseSize b" and ?p = "m_position b" and ?rs = "m_size b - m_position b"
  have W: "nodes_ok b" "?p \<le> m_size b" "m_size b \<le> length (m_nodes b) * ?B" "m_cur b = cur_at b ?p" "0 < ?B"
    using assms by (auto simp: wf_ba_def nodes_ok_def)
  let ?d = "?p mod ?B"
  have run: "writeToFile True b file =
      (case write_file_loop b (int ?rs) (int ?p) (cur_at b ?p) of Inl e \<Rightarrow> Inl e | Inr out \<Rightarrow> Inr (True, out))"
    using W(4,5) by (simp add: writeToFile_def getReadSize_wf [OF assms])
  consider "?rs = 0" | "?d = 0" | "0 < ?rs" "0 < ?d" "?B \<le> ?rs" | "0 < ?rs" "0 < ?d" "?rs < ?B" by linarith
  then show ?thesis
  proof cases
    case 1
    with W(2) show ?thesis unfolding run by (simp add: write_file_end)
  next
    case 2
    have "?p + ?rs \<le> length (m_nodes b) * ?B" using W(2,3) by simp
    from write_file_aligned [OF W(1) 2 this] have eq:
      "write_file_loop b (int ?rs) (int ?p) (cur_at b ?p) = Inr (take ?rs (drop ?p (flat b)))" .
    show ?thesis unfolding run eq using 2 by simp
  next
    case 3
    have "?p + ?rs \<le> length (m_nodes b) * ?B" using W(2,3) by simp
    note eq = write_file_whole [OF W(1) this 3(3)]
    show ?thesis unfolding run eq using 3 by simp
  next
    case 4
    have "?p + ?rs \<le> length (m_nodes b) * ?B" using W(2,3) by simp
    from write_file_partial [OF W(1) this 4] have eq:
      "write_file_loop b (int ?rs) (int ?p) (cur_at b ?p) = Inl Bad_access" .
    show ?thesis unfolding run eq using 4 by simp
  qed
qed

section \<open>What is read from a file\<close>

lemma write_loop_base: "write_loop buf npos ncap bpos sz b = Inr b' \<Longrightarrow> m_baseSize b' = m_baseSize b"
proof (induction buf npos ncap bpos sz b rule: write_loop.induct)
  case (1 buf npos ncap bpos sz b)
  show ?case
  proof (cases "sz = 0")
    case True
    with 1(2) show ?thesis by (simp add: write_loop.simps)
  next
    case False
    obtain c where c: "m_cur b = Some c" "c < length (m_nodes b)"
      using 1(2) False by (subst (asm) write_loop.simps) (auto split: option.split_asm if_split_asm)
    show ?thesis
    proof (cases "ncap \<ge> sz")
      case True
      then show ?thesis
        using 1(2) False c by (subst (asm) write_loop.simps) (auto simp: Let_def split: if_split_asm)
    next
      case less: False
      obtain c' where c': "next_node b c = Some c'"
        using 1(2) False c less by (subst (asm) write_loop.simps) (auto simp: Let_def split: option.split_asm if_split_asm)
      have ok: "\<not> (npos + ncap > length (m_nodes b ! c) \<or> bpos + ncap > length buf)"
        using 1(2) False c less by (subst (asm) write_loop.simps) (auto simp: Let_def split: if_split_asm)
      have "write_loop buf 0 (length (m_nodes b ! c')) (bpos + ncap) (sz - ncap)
          (b\<lparr>m_nodes := (m_nodes b)[c := node_store npos (take ncap (drop bpos buf)) (m_nodes b ! c)],
             m_cur := next_node b c, m_position := m_position b + ncap\<rparr>) = Inr b'"
        using 1(2) False c less c' ok by (subst (asm) write_loop.simps) (simp add: Let_def)
      from 1(1) [OF False c(1) _ refl less ok refl c' this] c(2) show ?thesis by simp
    qed
  qed
qed

lemma ba_write_base: "ba_write buf b = Inr b' \<Longrightarrow> m_baseSize b' = m_baseSize b"
  by (auto simp: ba_write_def addCapacity_def Let_def dest!: write_loop_base split: if_split_asm option.split_asm sum.split_asm)

lemma write_chunk:
  assumes "wf_ba b" "m_position b mod m_baseSize b = 0" "length buf \<le> m_baseSize b"
  shows "\<exists>b'. ba_write buf b = Inr b' \<and> wf_ba b' \<and> m_baseSize b' = m_baseSize b \<and>
    m_position b' = m_position b + length buf \<and> m_size b' = max (m_size b) (m_position b + length buf) \<and>
    take (m_position b') (flat b') = take (m_position b) (flat b) @ map Some buf"
proof (cases "buf = []")
  case True
  with assms(1) show ?thesis by (auto simp: ba_write_def wf_ba_def)
next
  case False
  from write_flat [OF assms(1,2) False assms(3)] obtain b' k where w: "ba_write buf b = Inr b'" "wf_ba b'"
    "m_position b' = m_position b + length buf" "m_size b' = max (m_size b) (m_position b + length buf)"
    "flat b' = take (m_position b) (flat b) @ map Some buf @ drop (m_position b + length buf) (flat b @ replicate k None)"
    by blast
  have "length (take (m_position b) (flat b)) = m_position b"
    using length_flat [OF assms(1)] assms(1) by (simp add: wf_ba_def)
  with w ba_write_base [OF w(1)] show ?thesis by (intro exI [of _ b']) simp
qed

lemma read_file_ok:
  "wf_ba b \<Longrightarrow> m_position b mod m_baseSize b = 0 \<Longrightarrow> length left div m_baseSize b < fuel \<Longrightarrow>
    \<exists>b'. read_file_loop fuel left b = Some (Inr b') \<and> wf_ba b' \<and> m_position b' = m_position b + length left \<and>
      m_size b' = max (m_size b) (m_position b + length left) \<and>
      take (m_position b') (flat b') = take (m_position b) (flat b) @ map Some left"
proof (induction fuel arbitrary: left b)
  case (Suc n)
  have B: "0 < m_baseSize b" using Suc.prems(1) by (simp add: wf_ba_def nodes_ok_def)
  obtain b1 where b1: "ba_write (take (m_baseSize b) left) b = Inr b1" "wf_ba b1" "m_baseSize b1 = m_baseSize b"
    "m_position b1 = m_position b + length (take (m_baseSize b) left)"
    "m_size b1 = max (m_size b) (m_position b + length (take (m_baseSize b) left))"
    "take (m_position b1) (flat b1) = take (m_position b) (flat b) @ map Some (take (m_baseSize b) left)"
    using write_chunk [OF Suc.prems(1,2), of "take (m_baseSize b) left"] by auto
  show ?case
  proof (cases "length left < m_baseSize b")
    case True
    with b1 show ?thesis by simp
  next
    case False
    let ?rest = "drop (m_baseSize b) left"
    have len: "length left = m_baseSize b + length ?rest" using False by simp
    have "length left div m_baseSize b = Suc (length ?rest div m_baseSize b)"
      using B False by (simp add: div_if)
    then have "length ?rest div m_baseSize b1 < n" using Suc.prems(3) b1(3) by simp
    moreover have pos: "m_position b1 = m_position b + m_baseSize b" using b1(4) False by simp
    ultimately obtain b' where b': "read_file_loop n ?rest b1 = Some (Inr b')" "wf_ba b'"
      "m_position b' = m_position b1 + length ?rest" "m_size b' = max (m_size b1) (m_position b1 + length ?rest)"
      "take (m_position b') (flat b') = take (m_position b1) (flat b1) @ map Some ?rest"
      using Suc.IH [OF b1(2), of ?rest] b1(3) Suc.prems(2) by auto
    have "map Some left = map Some (take (m_baseSize b) left) @ map Some ?rest"
      by (metis append_take_drop_id map_append)
    then have "take (m_position b') (flat b') = take (m_position b) (flat b) @ map Some left"
      using b'(5) b1(6) by simp
    moreover have p: "m_position b' = m_position b + length left" using b'(3) pos len by linarith
    moreover have "m_size b' = max (m_size b) (m_position b + length left)"
    proof -
      have s1: "m_size b1 = max (m_size b) (m_position b + m_baseSize b)" using b1(5) False by simp
      have s2: "m_position b1 + length ?rest = m_position b + length left" using pos len by linarith
      have "m_baseSize b \<le> length left" using False by simp
      then show ?thesis unfolding b'(4) s2 s1 by linarith
    qed
    moreover have "read_file_loop (Suc n) left b = Some (Inr b')" using b1(1) b'(1) False by simp
    ultimately show ?thesis using b'(2) by blast
  qed
qed simp

text \<open>
  C35. A file that is read into a new array and, once the position has been set back to the start, written to a file comes
  back byte for byte, whatever its length and the size of the nodes; one turn of the loop for each node's worth of bytes
  and one more are enough to read it.  Written right after it has been read, without setting the position back, it
  comes back empty.
\<close>

theorem file_roundtrip:
  assumes "0 < n" "length content div n < fuel"
  shows "\<exists>b b0. readFromFile fuel (Some content) (ByteArray_new n) = Some (Inr (True, b)) \<and>
    m_size b = length content \<and> setPosition 0 b = Inr b0 \<and>
    writeToFile True b0 file = Inr (True, map Some content) \<and> writeToFile True b file = Inr (True, [])"
proof -
  have new: "wf_ba (ByteArray_new n)" "m_position (ByteArray_new n) = 0" "m_size (ByteArray_new n) = 0"
    "m_baseSize (ByteArray_new n) = n"
    using wf_ba_new [OF assms(1)] by (simp_all add: ByteArray_new_def)
  obtain b where b: "read_file_loop fuel content (ByteArray_new n) = Some (Inr b)" "wf_ba b"
    "m_position b = length content" "m_size b = length content" "take (length content) (flat b) = map Some content"
    using read_file_ok [OF new(1), of content fuel] new(2-4) assms(2) by auto
  obtain b0 where b0: "setPosition 0 b = Inr b0" "wf_ba b0" "flat b0 = flat b" "m_position b0 = 0" "m_size b0 = length content"
    using setPosition_flat [OF b(2), of 0] b(4) by auto
  have "write_file_loop b0 (int (length content)) (int 0) (cur_at b0 0) = Inr (map Some content)"
    using write_file_aligned [of b0 0 "length content"] b0(2,3,5) b(5) by (simp add: wf_ba_def)
  then have "writeToFile True b0 file = Inr (True, map Some content)"
    using b0(2,4,5) by (simp add: writeToFile_def getReadSize_wf [OF b0(2)] wf_ba_def nodes_ok_def)
  moreover have "writeToFile True b file = Inr (True, [])"
    using b(2-4) by (simp add: writeToFile_def getReadSize_wf [OF b(2)] write_file_end)
  ultimately show ?thesis using b b0(1) by (simp add: readFromFile_def)
qed

theorem file_roundtrip_witness:
  "\<exists>b b0. readFromFile 3 (Some [1, 2, 3, 4, 5]) (ByteArray_new 2) = Some (Inr (True, b)) \<and> m_size b = length [1, 2, 3, 4, 5 :: u8] \<and>
    setPosition 0 b = Inr b0 \<and> writeToFile True b0 [] = Inr (True, map Some [1, 2, 3, 4, 5])"
proof -
  have "0 < (2 :: nat)" "length [1, 2, 3, 4, 5 :: u8] div 2 < 3" by simp_all
  from file_roundtrip [OF this, of "[]"] show ?thesis by auto
qed

theorem file_write_exact_witness:
  "writeToFile True sample_ba [] = Inr (True, [Some 2, Some 3, Some 4]) \<and>
    writeToFile True (sample_ba\<lparr>m_size := 2\<rparr>) [] = Inl Bad_access"
proof -
  have "wf_ba (sample_ba\<lparr>m_size := 2\<rparr>)" by (simp add: wf_ba_def nodes_ok_def cur_at_def sample_ba_def)
  from file_write_exact [OF sample_ba_wf, of "[]"] file_write_exact [OF this, of "[]"] show ?thesis
    by (simp add: sample_ba_def flat_def)
qed

end
