(* ===== verification/Hook.thy ===== *)
theory Hook
  imports IOManager FdManager
begin

text \<open>
  \<^verbatim>\<open>hook.cpp\<close>: the replacements of the blocking system calls.  The original function (\<^verbatim>\<open>read_f\<close> and so on,
  found by \<^verbatim>\<open>dlsym\<close>) is an argument that acts on the kernel state; its result is a return value and an error
  number.  While a fiber holds, other fibers run: what they do up to the moment the fiber is resumed is the
  argument \<open>hold\<close>, which also yields \<^verbatim>\<open>tinfo->cancelled\<close>.  The loops that repeat a call have fuel, so that a call that
  never returns is \<open>Io_running\<close>; \<open>Io_failed\<close> is a failed assertion or undefined behaviour.
\<close>

section \<open>State\<close>

definition EINTR :: int where "EINTR = 4"
definition EBADF :: int where "EBADF = 9"
definition EAGAIN :: int where "EAGAIN = 11"
definition ETIMEDOUT :: int where "ETIMEDOUT = 110"
definition EINPROGRESS :: int where "EINPROGRESS = 115"

record ('w, 'c, 'k) hook_world =
  hw_fds :: FdManager
  hw_io :: "('w, 'c, 'k) IOManager"
  hw_errno :: int

text \<open>The calling thread: whether hooks are enabled, its scheduler and fiber, the time, where a new timer
  is allocated, the identity of the \<^verbatim>\<open>timer_info\<close> and the callback of the timeout.\<close>

record ('w, 'c, 'k) caller =
  t_hook_enable :: bool
  t_sched :: nat
  t_fib :: nat
  t_now :: u64
  t_alloc :: "('w, 'c) timer_manager \<Rightarrow> nat"
  t_info :: 'w
  t_timeout_cb :: "int \<Rightarrow> Event \<Rightarrow> 'c"
  t_wakeup_cb :: "nat \<Rightarrow> 'c"
  t_ctl :: "'k epoll_ctl"
  t_sys :: "'k sys"

type_synonym ('w, 'c, 'k) hold = "('w, 'c, 'k) hook_world \<Rightarrow> int \<times> ('w, 'c, 'k) hook_world"
type_synonym 'k origin_fun = "'k \<Rightarrow> int \<times> int \<times> 'k"

datatype ('w, 'c, 'k) io_result = Io_return int "('w, 'c, 'k) hook_world" | Io_failed | Io_running

abbreviation kernel_of :: "('w, 'c, 'k) hook_world \<Rightarrow> 'k" where
  "kernel_of W \<equiv> io_kernel (hw_io W)"

definition set_kernel :: "'k \<Rightarrow> ('w, 'c, 'k) hook_world \<Rightarrow> ('w, 'c, 'k) hook_world" where
  "set_kernel k W = W\<lparr>hw_io := (hw_io W)\<lparr>io_kernel := k\<rparr>\<rparr>"

definition call_origin :: "'k origin_fun \<Rightarrow> ('w, 'c, 'k) hook_world \<Rightarrow> int \<times> ('w, 'c, 'k) hook_world" where
  "call_origin f W =
    (let (n, e, k) = f (kernel_of W) in
     (n, (set_kernel k W)\<lparr>hw_errno := (if n = -1 then e else hw_errno W)\<rparr>))"

definition origin_result :: "'k origin_fun \<Rightarrow> ('w, 'c, 'k) hook_world \<Rightarrow> ('w, 'c, 'k) io_result" where
  "origin_result f W = (case call_origin f W of (n, W1) \<Rightarrow> Io_return n W1)"

section \<open>Timers of a call\<close>

text \<open>The condition timer of a call with a timeout; its address is \<open>None\<close> without one.\<close>

definition add_timeout ::
  "('w, 'c, 'k) caller \<Rightarrow> u64 \<Rightarrow> int \<Rightarrow> Event \<Rightarrow> ('w, 'c, 'k) hook_world \<Rightarrow> nat option \<times> ('w, 'c, 'k) hook_world" where
  "add_timeout t to fd event W =
    (if to \<noteq> - 1 then
       let io = hw_io W; a = t_alloc t (io_timers io);
           (front, tm) = addConditionTimer (t_now t) a to (Some (t_timeout_cb t fd event)) (t_info t) False (io_timers io);
           io1 = io\<lparr>io_timers := tm\<rparr>
       in (Some a, W\<lparr>hw_io := (if front then onTimerInsertedAtFront io1 else io1)\<rparr>)
     else (None, W))"

definition cancel_timeout :: "nat option \<Rightarrow> ('w, 'c, 'k) hook_world \<Rightarrow> ('w, 'c, 'k) hook_world option" where
  "cancel_timeout timer W =
    (case timer of
       None \<Rightarrow> Some W
     | Some a \<Rightarrow> map_option (\<lambda>(_, tm). W\<lparr>hw_io := (hw_io W)\<lparr>io_timers := tm\<rparr>\<rparr>) (cancel a (io_timers (hw_io W))))"

section \<open>Blocking calls\<close>

text \<open>The loop that repeats an interrupted call.\<close>

fun eintr_loop ::
  "nat \<Rightarrow> 'k origin_fun \<Rightarrow> int \<Rightarrow> ('w, 'c, 'k) hook_world \<Rightarrow> (int \<times> ('w, 'c, 'k) hook_world) option" where
  "eintr_loop fuel f n W =
    (if n = -1 \<and> hw_errno W = EINTR then
       case fuel of
         0 \<Rightarrow> None
       | Suc m \<Rightarrow> (case call_origin f W of (n1, W1) \<Rightarrow> eintr_loop m f n1 W1)
     else Some (n, W))"

declare eintr_loop.simps [simp del]

text \<open>From the label \<^verbatim>\<open>retry\<close> on.\<close>

fun do_io_retry ::
  "nat \<Rightarrow> ('w, 'c, 'k) caller \<Rightarrow> ('w, 'c, 'k) hold \<Rightarrow> 'k origin_fun \<Rightarrow> u64 \<Rightarrow> int \<Rightarrow> Event
   \<Rightarrow> ('w, 'c, 'k) hook_world \<Rightarrow> ('w, 'c, 'k) io_result" where
  "do_io_retry 0 t hold f to fd event W = Io_running"
| "do_io_retry (Suc m) t hold f to fd event W =
    (case call_origin f W of (n0, W0) \<Rightarrow>
       case eintr_loop m f n0 W0 of
         None \<Rightarrow> Io_running
       | Some (n, W1) \<Rightarrow>
           if n = -1 \<and> hw_errno W1 = EAGAIN then
             (case add_timeout t to fd event W1 of (timer, W2) \<Rightarrow>
                case addEvent (t_ctl t) (Some (t_sched t)) (t_fib t) EXEC fd event None (hw_io W2) of
                  None \<Rightarrow> Io_failed
                | Some (ret, io) \<Rightarrow>
                    let W3 = W2\<lparr>hw_io := io\<rparr> in
                    if ret \<noteq> 0 then
                      (case cancel_timeout timer W3 of None \<Rightarrow> Io_failed | Some W4 \<Rightarrow> Io_return (-1) W4)
                    else
                      (case hold W3 of (cancelled, W4) \<Rightarrow>
                         case cancel_timeout timer W4 of
                           None \<Rightarrow> Io_failed
                         | Some W5 \<Rightarrow>
                             if cancelled \<noteq> 0 then Io_return (-1) (W5\<lparr>hw_errno := cancelled\<rparr>)
                             else do_io_retry m t hold f to fd event W5))
           else Io_return n W1)"

definition do_io ::
  "nat \<Rightarrow> ('w, 'c, 'k) caller \<Rightarrow> ('w, 'c, 'k) hold \<Rightarrow> 'k origin_fun \<Rightarrow> int \<Rightarrow> Event \<Rightarrow> int
   \<Rightarrow> ('w, 'c, 'k) hook_world \<Rightarrow> ('w, 'c, 'k) io_result" where
  "do_io fuel t hold f fd event timeout_so W =
    (if \<not> t_hook_enable t then origin_result f W
     else
       case fd_get (t_sys t) fd False (hw_fds W) (kernel_of W) of
         None \<Rightarrow> Io_failed
       | Some (None, _, _) \<Rightarrow> origin_result f W
       | Some (Some ctx, _, _) \<Rightarrow>
           if m_isClosed ctx then Io_return (-1) (W\<lparr>hw_errno := EBADF\<rparr>)
           else if \<not> m_isSocket ctx \<or> m_userNonblock ctx then origin_result f W
           else do_io_retry fuel t hold f (getTimeout timeout_so ctx) fd event W)"

text \<open>The calls that are hooked through \<^verbatim>\<open>do_io\<close>, and the event and the timeout each waits with.\<close>

datatype hooked = H_accept | H_read | H_readv | H_recv | H_recvfrom | H_recvmsg
  | H_write | H_writev | H_send | H_sendto | H_sendmsg

fun hook_event :: "hooked \<Rightarrow> Event" where
  "hook_event h = (if h \<in> {H_write, H_writev, H_send, H_sendto, H_sendmsg} then WRITE else READ)"

fun hook_timeout :: "hooked \<Rightarrow> int" where
  "hook_timeout h = (if h \<in> {H_write, H_writev, H_send, H_sendto, H_sendmsg} then SO_SNDTIMEO else SO_RCVTIMEO)"

text \<open>\<^verbatim>\<open>FdMgr::get( fd, true )\<close>: a context for a new descriptor.\<close>

definition track_fd :: "('w, 'c, 'k) caller \<Rightarrow> int \<Rightarrow> ('w, 'c, 'k) hook_world \<Rightarrow> ('w, 'c, 'k) io_result" where
  "track_fd t fd W =
    (case fd_get (t_sys t) fd True (hw_fds W) (kernel_of W) of
       None \<Rightarrow> Io_failed
     | Some (_, D, k) \<Rightarrow> Io_return fd ((set_kernel k W)\<lparr>hw_fds := D\<rparr>))"

text \<open>A hooked call; \<^verbatim>\<open>accept\<close> makes the context of the descriptor that it returns.\<close>

definition hook_io ::
  "hooked \<Rightarrow> nat \<Rightarrow> ('w, 'c, 'k) caller \<Rightarrow> ('w, 'c, 'k) hold \<Rightarrow> 'k origin_fun \<Rightarrow> int
   \<Rightarrow> ('w, 'c, 'k) hook_world \<Rightarrow> ('w, 'c, 'k) io_result" where
  "hook_io h fuel t hold f fd W =
    (case do_io fuel t hold f fd (hook_event h) (hook_timeout h) W of
       Io_return n W1 \<Rightarrow> if h = H_accept \<and> n \<ge> 0 then track_fd t n W1 else Io_return n W1
     | r \<Rightarrow> r)"

lemma hook_io_fails: "hook_io h fuel t hold f fd W = Io_return (-1) W' \<longleftrightarrow>
    do_io fuel t hold f fd (hook_event h) (hook_timeout h) W = Io_return (-1) W'"
  by (auto simp: hook_io_def track_fd_def split: io_result.split option.split if_split_asm)

definition hook_socket ::
  "('w, 'c, 'k) caller \<Rightarrow> 'k origin_fun \<Rightarrow> ('w, 'c, 'k) hook_world \<Rightarrow> ('w, 'c, 'k) io_result" where
  "hook_socket t f W =
    (if \<not> t_hook_enable t then origin_result f W
     else case call_origin f W of (fd, W1) \<Rightarrow> if fd = -1 then Io_return fd W1 else track_fd t fd W1)"

definition hook_close ::
  "('w, 'c, 'k) caller \<Rightarrow> bool \<Rightarrow> 'k origin_fun \<Rightarrow> int \<Rightarrow> ('w, 'c, 'k) hook_world \<Rightarrow> ('w, 'c, 'k) io_result" where
  "hook_close t has_iom f fd W =
    (if \<not> t_hook_enable t then origin_result f W
     else
       case fd_get (t_sys t) fd False (hw_fds W) (kernel_of W) of
         None \<Rightarrow> Io_failed
       | Some (None, _, _) \<Rightarrow> origin_result f W
       | Some (Some ctx, _, _) \<Rightarrow>
           (case (if has_iom then cancelAll (t_ctl t) fd (hw_io W) else Some (False, hw_io W)) of
              None \<Rightarrow> Io_failed
            | Some (_, io) \<Rightarrow> origin_result f (W\<lparr>hw_io := io, hw_fds := fd_del fd (hw_fds W)\<rparr>)))"

section \<open>Sleeping\<close>

text \<open>The milliseconds of the timer that wakes up a sleeping fiber: the products are computed in 32 bits.\<close>

definition sleep_ms :: "u32 \<Rightarrow> u64" where
  "sleep_ms seconds = ucast (seconds * 1000)"

definition usleep_ms :: "u32 \<Rightarrow> u64" where
  "usleep_ms usec = ucast (usec div 1000)"

definition nanosleep_ms :: "64 word \<Rightarrow> 64 word \<Rightarrow> u64" where
  "nanosleep_ms tv_sec tv_nsec =
    scast (ucast (tv_sec * 1000 + tv_nsec div 1000 div 1000) :: 32 word)"

text \<open>Each sleeping call adds a timer that schedules the fiber, holds and returns 0.\<close>

definition sleep_for ::
  "('w, 'c, 'k) caller \<Rightarrow> ('w, 'c, 'k) hold \<Rightarrow> 'k origin_fun \<Rightarrow> u64 \<Rightarrow> ('w, 'c, 'k) hook_world
   \<Rightarrow> ('w, 'c, 'k) io_result" where
  "sleep_for t hold f ms W =
    (if \<not> t_hook_enable t then origin_result f W
     else
       let io = hw_io W; a = t_alloc t (io_timers io);
           (front, tm) = addTimer (t_now t) a ms (Some (Plain (t_wakeup_cb t (t_fib t)))) False (io_timers io);
           io1 = io\<lparr>io_timers := tm\<rparr>
       in Io_return 0 (snd (hold (W\<lparr>hw_io := (if front then onTimerInsertedAtFront io1 else io1)\<rparr>))))"

definition hook_sleep ::
  "('w, 'c, 'k) caller \<Rightarrow> ('w, 'c, 'k) hold \<Rightarrow> 'k origin_fun \<Rightarrow> u32 \<Rightarrow> ('w, 'c, 'k) hook_world
   \<Rightarrow> ('w, 'c, 'k) io_result" where
  "hook_sleep t hold f seconds W = sleep_for t hold f (sleep_ms seconds) W"

definition hook_usleep ::
  "('w, 'c, 'k) caller \<Rightarrow> ('w, 'c, 'k) hold \<Rightarrow> 'k origin_fun \<Rightarrow> u32 \<Rightarrow> ('w, 'c, 'k) hook_world
   \<Rightarrow> ('w, 'c, 'k) io_result" where
  "hook_usleep t hold f usec W = sleep_for t hold f (usleep_ms usec) W"

definition hook_nanosleep ::
  "('w, 'c, 'k) caller \<Rightarrow> ('w, 'c, 'k) hold \<Rightarrow> 'k origin_fun \<Rightarrow> 64 word \<Rightarrow> 64 word
   \<Rightarrow> ('w, 'c, 'k) hook_world \<Rightarrow> ('w, 'c, 'k) io_result" where
  "hook_nanosleep t hold f tv_sec tv_nsec W = sleep_for t hold f (nanosleep_ms tv_sec tv_nsec) W"

section \<open>Connecting\<close>

definition connect_with_timeout ::
  "('w, 'c, 'k) caller \<Rightarrow> ('w, 'c, 'k) hold \<Rightarrow> 'k origin_fun \<Rightarrow> ('k \<Rightarrow> (int \<times> 'k) option) \<Rightarrow> int \<Rightarrow> u64
   \<Rightarrow> ('w, 'c, 'k) hook_world \<Rightarrow> ('w, 'c, 'k) io_result" where
  "connect_with_timeout t hold f so_error fd timeout_ms W =
    (if \<not> t_hook_enable t then origin_result f W
     else
       case fd_get (t_sys t) fd False (hw_fds W) (kernel_of W) of
         None \<Rightarrow> Io_failed
       | Some (None, _, _) \<Rightarrow> Io_return (-1) (W\<lparr>hw_errno := EBADF\<rparr>)
       | Some (Some ctx, _, _) \<Rightarrow>
           if m_isClosed ctx then Io_return (-1) (W\<lparr>hw_errno := EBADF\<rparr>)
           else if \<not> m_isSocket ctx then origin_result f W
           else if m_userNonblock ctx then origin_result f W
           else
             case call_origin f W of (n, W1) \<Rightarrow>
               if n = 0 then Io_return 0 W1
               else if n \<noteq> -1 \<or> hw_errno W1 \<noteq> EINPROGRESS then Io_return n W1
               else
                 let finish = (\<lambda>W. case so_error (kernel_of W) of
                         None \<Rightarrow> Io_return (-1) W
                       | Some (e, k) \<Rightarrow> if e = 0 then Io_return 0 (set_kernel k W)
                                       else Io_return (-1) ((set_kernel k W)\<lparr>hw_errno := e\<rparr>))
                 in case add_timeout t timeout_ms fd WRITE W1 of (timer, W2) \<Rightarrow>
                      case addEvent (t_ctl t) (Some (t_sched t)) (t_fib t) EXEC fd WRITE None (hw_io W2) of
                        None \<Rightarrow> Io_failed
                      | Some (ret, io) \<Rightarrow>
                          let W3 = W2\<lparr>hw_io := io\<rparr> in
                          if ret = 0 then
                            (case hold W3 of (cancelled, W4) \<Rightarrow>
                               case cancel_timeout timer W4 of
                                 None \<Rightarrow> Io_failed
                               | Some W5 \<Rightarrow> if cancelled \<noteq> 0 then Io_return (-1) (W5\<lparr>hw_errno := cancelled\<rparr>)
                                          else finish W5)
                          else
                            (case cancel_timeout timer W3 of None \<Rightarrow> Io_failed | Some W4 \<Rightarrow> finish W4))"

definition hook_connect ::
  "u64 \<Rightarrow> ('w, 'c, 'k) caller \<Rightarrow> ('w, 'c, 'k) hold \<Rightarrow> 'k origin_fun \<Rightarrow> ('k \<Rightarrow> (int \<times> 'k) option) \<Rightarrow> int
   \<Rightarrow> ('w, 'c, 'k) hook_world \<Rightarrow> ('w, 'c, 'k) io_result" where
  "hook_connect s_connect_timeout t hold f so_error fd W =
    connect_with_timeout t hold f so_error fd s_connect_timeout W"

section \<open>Flags and options\<close>

text \<open>The context of a descriptor that \<^verbatim>\<open>fcntl\<close> and \<^verbatim>\<open>ioctl\<close> treat specially.\<close>

definition managed :: "('w, 'c, 'k) caller \<Rightarrow> int \<Rightarrow> ('w, 'c, 'k) hook_world \<Rightarrow> FdCtx option" where
  "managed t fd W =
    (case fd_get (t_sys t) fd False (hw_fds W) (kernel_of W) of
       Some (Some ctx, _, _) \<Rightarrow> if m_isClosed ctx \<or> \<not> m_isSocket ctx then None else Some ctx
     | _ \<Rightarrow> None)"

definition fcntl_setfl ::
  "('w, 'c, 'k) caller \<Rightarrow> int \<Rightarrow> u32 \<Rightarrow> ('w, 'c, 'k) hook_world \<Rightarrow> int \<times> ('w, 'c, 'k) hook_world" where
  "fcntl_setfl t fd arg W =
    (case managed t fd W of
       None \<Rightarrow> (case sys_setfl (t_sys t) fd arg (kernel_of W) of (r, k) \<Rightarrow> (r, set_kernel k W))
     | Some ctx \<Rightarrow>
         let W1 = W\<lparr>hw_fds := (hw_fds W)[nat fd := Some (ctx\<lparr>m_userNonblock := has_flag arg O_NONBLOCK\<rparr>)]\<rparr>;
             arg1 = (if m_sysNonblock ctx then arg OR O_NONBLOCK else arg AND NOT O_NONBLOCK)
         in case sys_setfl (t_sys t) fd arg1 (kernel_of W1) of (r, k) \<Rightarrow> (r, set_kernel k W1))"

definition fcntl_getfl :: "('w, 'c, 'k) caller \<Rightarrow> int \<Rightarrow> ('w, 'c, 'k) hook_world \<Rightarrow> u32" where
  "fcntl_getfl t fd W =
    (let arg = sys_getfl (t_sys t) fd (kernel_of W) in
     case managed t fd W of
       None \<Rightarrow> arg
     | Some ctx \<Rightarrow> if m_userNonblock ctx then arg OR O_NONBLOCK else arg AND NOT O_NONBLOCK)"

text \<open>\<^verbatim>\<open>ioctl\<close> with \<^verbatim>\<open>FIONBIO\<close>; other requests go straight to the original function \<open>f\<close>.\<close>

definition hook_ioctl ::
  "('w, 'c, 'k) caller \<Rightarrow> 'k origin_fun \<Rightarrow> int \<Rightarrow> bool option \<Rightarrow> ('w, 'c, 'k) hook_world \<Rightarrow> ('w, 'c, 'k) io_result" where
  "hook_ioctl t f fd fionbio W =
    (case fionbio of
       None \<Rightarrow> origin_result f W
     | Some user_nonblock \<Rightarrow>
         (case managed t fd W of
            None \<Rightarrow> origin_result f W
          | Some ctx \<Rightarrow>
              origin_result f (W\<lparr>hw_fds := (hw_fds W)[nat fd := Some (ctx\<lparr>m_userNonblock := user_nonblock\<rparr>)]\<rparr>)))"

text \<open>\<^verbatim>\<open>setsockopt\<close> with a timeout of the given seconds and microseconds at level \<^verbatim>\<open>SOL_SOCKET\<close>.\<close>

definition setsockopt_timeout ::
  "('w, 'c, 'k) caller \<Rightarrow> 'k origin_fun \<Rightarrow> int \<Rightarrow> int \<Rightarrow> 64 word \<Rightarrow> 64 word \<Rightarrow> ('w, 'c, 'k) hook_world
   \<Rightarrow> ('w, 'c, 'k) io_result" where
  "setsockopt_timeout t f sockfd optname tv_sec tv_usec W =
    (if \<not> t_hook_enable t then origin_result f W
     else if optname = SO_RCVTIMEO \<or> optname = SO_SNDTIMEO then
       case fd_get (t_sys t) sockfd False (hw_fds W) (kernel_of W) of
         None \<Rightarrow> Io_failed
       | Some (None, _, _) \<Rightarrow> origin_result f W
       | Some (Some ctx, _, _) \<Rightarrow>
           origin_result f (W\<lparr>hw_fds := (hw_fds W)[nat sockfd :=
             Some (setTimeout optname (tv_sec * 1000 + tv_usec div 1000) ctx)]\<rparr>)
     else origin_result f W)"

section \<open>Properties\<close>

lemma eintr_loop_done: "eintr_loop fuel f n W = Some (n1, W1) \<Longrightarrow> n1 \<noteq> -1 \<or> hw_errno W1 \<noteq> EINTR"
proof (induction fuel arbitrary: n W)
  case 0
  then show ?case by (subst (asm) eintr_loop.simps) (auto split: if_split_asm)
next
  case (Suc m)
  show ?case
  proof (cases "n = -1 \<and> hw_errno W = EINTR")
    case True
    then show ?thesis using Suc by (subst (asm) (2) eintr_loop.simps) (auto split: prod.split_asm)
  next
    case False
    then have "eintr_loop (Suc m) f n W = Some (n, W)" by (simp only: eintr_loop.simps [of "Suc m" f n W] False if_False)
    then show ?thesis using Suc.prems False by auto
  qed
qed

lemma cancel_timeout_errno: "cancel_timeout timer W = Some W' \<Longrightarrow> hw_errno W' = hw_errno W"
  by (auto simp: cancel_timeout_def split: option.split_asm)

lemma addEvent_ret: "addEvent ctl s fb st fd event cb M = Some (r, M') \<Longrightarrow> (\<And>op fd evs k. fst (ctl op fd evs k)) \<Longrightarrow> r = 0"
  by (auto simp: addEvent_def addEvent_locked_def Let_def split: if_split_asm option.split_asm prod.split_asm) (metis fst_conv)+

lemma do_io_retry_blocks:
  assumes "do_io_retry fuel t hold f to fd event W = Io_return (-1) W'"
    and ctl: "\<And>op fd evs k. fst (t_ctl t op fd evs k)" and hold: "\<And>W. fst (hold W) \<in> {0, ETIMEDOUT}"
  shows "hw_errno W' \<notin> {EAGAIN, EINTR}"
  using assms(1)
proof (induction fuel arbitrary: W)
  case (Suc m)
  obtain n0 W0 where o: "call_origin f W = (n0, W0)" by force
  obtain n W1 where e: "eintr_loop m f n0 W0 = Some (n, W1)"
    using Suc.prems o by (cases "eintr_loop m f n0 W0") auto
  show ?case
  proof (cases "n = -1 \<and> hw_errno W1 = EAGAIN")
    case False
    then show ?thesis using Suc.prems o e eintr_loop_done [OF e] by auto
  next
    case True
    obtain timer W2 where t: "add_timeout t to fd event W1 = (timer, W2)" by force
    obtain ret io where a: "addEvent (t_ctl t) (Some (t_sched t)) (t_fib t) EXEC fd event None (hw_io W2) = Some (ret, io)"
      using Suc.prems True o e t by (auto split: option.split_asm)
    have ret: "ret = 0" using addEvent_ret [OF a ctl] .
    obtain c W4 where h: "hold (W2\<lparr>hw_io := io\<rparr>) = (c, W4)" by force
    obtain W5 where w: "cancel_timeout timer W4 = Some W5"
      using Suc.prems True o e t a ret h by (auto split: option.split_asm)
    have c: "c \<in> {0, ETIMEDOUT}" using hold [of "W2\<lparr>hw_io := io\<rparr>"] h by simp
    show ?thesis
    proof (cases "c = 0")
      case True
      then have "do_io_retry m t hold f to fd event W5 = Io_return (-1) W'"
        using Suc.prems \<open>n = -1 \<and> _\<close> o e t a ret h w by simp
      then show ?thesis by (rule Suc.IH)
    next
      case False
      then have "W' = W5\<lparr>hw_errno := c\<rparr>" using Suc.prems \<open>n = -1 \<and> _\<close> o e t a ret h w by simp
      then show ?thesis using False c by (auto simp: ETIMEDOUT_def EAGAIN_def EINTR_def)
    qed
  qed
qed simp

lemma managed_iff:
  "managed t fd W = Some ctx \<longleftrightarrow>
    \<not> out_of_table fd (hw_fds W) \<and> hw_fds W ! nat fd = Some ctx \<and> \<not> m_isClosed ctx \<and> m_isSocket ctx"
  by (auto simp: managed_def fd_get_def split: option.split if_split_asm)

definition flag_sys :: "u32 sys" where
  "flag_sys = \<lparr>sys_issock = (\<lambda>fd k. Some True), sys_getfl = (\<lambda>fd k. k), sys_setfl = (\<lambda>fd arg k. (0, arg))\<rparr>"

definition sample_caller :: "bool \<Rightarrow> (nat, nat, u32) caller" where
  "sample_caller b = \<lparr>t_hook_enable = b, t_sched = 0, t_fib = 3, t_now = 100, t_alloc = (\<lambda>_. 0), t_info = 0,
     t_timeout_cb = (\<lambda>_ _. 0), t_wakeup_cb = (\<lambda>_. 1), t_ctl = (\<lambda>op fd evs k. (True, k)), t_sys = flag_sys\<rparr>"

definition sample_world :: "(nat, nat, u32) hook_world" where
  "sample_world = \<lparr>hw_fds = fst (snd (the (fd_get flag_sys 5 True new_FdManager 2))),
     hw_io = the (new_IOManager sample_io_sys 0 sample_scheds 100 [11] 2), hw_errno = 0\<rparr>"

lemma sample_managed:
  "fds_reachable flag_sys (hw_fds sample_world)"
  "\<exists>ctx. managed (sample_caller b) 5 sample_world = Some ctx \<and> \<not> m_userNonblock ctx"
proof -
  obtain c D k where get: "fd_get flag_sys 5 True new_FdManager 2 = Some (Some c, D, k)"
    "D = new_FdManager[5 := Some c]" "m_isSocket c" "\<not> m_isClosed c" "\<not> m_userNonblock c"
    by (simp add: fd_get_def out_of_table_def new_FdManager_def new_FdCtx_def FdCtx_init_def flag_sys_def Let_def)
  show "fds_reachable flag_sys (hw_fds sample_world)"
    using fds_reachable.Get [OF fds_reachable.Start get(1)] get(1) by (simp add: sample_world_def)
  show "\<exists>ctx. managed (sample_caller b) 5 sample_world = Some ctx \<and> \<not> m_userNonblock ctx"
    using get by (simp add: managed_iff sample_world_def out_of_table_def new_FdManager_def)
qed

text \<open>
  C11. A hooked call on a socket that the program has not made non-blocking behaves like a blocking call,
  although the kernel's descriptor is non-blocking: whatever the original function answers, the caller never
  sees \<^verbatim>\<open>EAGAIN\<close> or \<^verbatim>\<open>EINTR\<close>, as long as \<^verbatim>\<open>epoll_ctl\<close> accepts the registration and a waiting fiber is only
  cancelled by its timeout.
\<close>

theorem hooked_call_blocks:
  assumes "t_hook_enable t" "managed t fd W = Some ctx" "\<not> m_userNonblock ctx"
    and "hook_io h fuel t hold f fd W = Io_return (-1) W'"
    and "\<And>op fd evs k. fst (t_ctl t op fd evs k)" "\<And>W. fst (hold W) \<in> {0, ETIMEDOUT}"
  shows "hw_errno W' \<noteq> EAGAIN \<and> hw_errno W' \<noteq> EINTR"
proof -
  have "do_io_retry fuel t hold f (getTimeout (hook_timeout h) ctx) fd (hook_event h) W = Io_return (-1) W'"
    using assms(1-3) assms(4) [unfolded hook_io_fails] by (auto simp: managed_def do_io_def split: option.split_asm prod.split_asm if_split_asm)
  from do_io_retry_blocks [OF this assms(5,6)] show ?thesis by simp
qed

theorem hooked_call_blocks_witness:
  "\<exists>W'. hook_io H_recv 1 (sample_caller True) (Pair 0) (\<lambda>k. (-1, 104, k)) 5 sample_world = Io_return (-1) W' \<and>
    hw_errno W' \<noteq> EAGAIN"
proof -
  obtain ctx where ctx: "managed (sample_caller True) 5 sample_world = Some ctx" "\<not> m_userNonblock ctx"
    using sample_managed(2) by blast
  have run: "\<exists>W'. hook_io H_recv 1 (sample_caller True) (Pair 0) (\<lambda>k. (-1, 104, k)) 5 sample_world = Io_return (-1) W'"
    using ctx
    by (auto simp: hook_io_def do_io_def managed_def call_origin_def sample_caller_def eintr_loop.simps EINTR_def
        EAGAIN_def split: option.split_asm prod.split_asm if_split_asm)
  then obtain W' where W': "hook_io H_recv 1 (sample_caller True) (Pair 0) (\<lambda>k. (-1, 104, k)) 5 sample_world =
    Io_return (-1) W'" by blast
  have "hw_errno W' \<noteq> EAGAIN \<and> hw_errno W' \<noteq> EINTR"
    by (rule hooked_call_blocks [OF _ ctx W']) (simp_all add: sample_caller_def)
  with W' show ?thesis by blast
qed

text \<open>
  C25. The hook is transparent where it has no business: without hooks enabled, and on descriptors that are
  unknown, no sockets or made non-blocking by the program, a hooked call is exactly one call of the original
  function, with the same result, error number and effect, and no other change; only \<^verbatim>\<open>accept\<close>, when it has a
  new descriptor, also asks the table of descriptors for a context of it, even without hooks enabled.
\<close>

theorem hook_transparent:
  assumes "fds_reachable sys (hw_fds W)" "t_sys t = sys"
    and "\<not> t_hook_enable t \<or> managed t fd W = None \<or> (\<exists>ctx. managed t fd W = Some ctx \<and> m_userNonblock ctx)"
    and "f (kernel_of W) = (n, e, k)"
    and "W1 = W\<lparr>hw_io := (hw_io W)\<lparr>io_kernel := k\<rparr>, hw_errno := if n = -1 then e else hw_errno W\<rparr>"
  shows "hook_io h fuel t hold f fd W =
    (if h = H_accept \<and> n \<ge> 0
     then (case fd_get sys n True (hw_fds W) k of
             None \<Rightarrow> Io_failed
           | Some (_, D, k') \<Rightarrow> Io_return n (W1\<lparr>hw_fds := D, hw_io := (hw_io W)\<lparr>io_kernel := k'\<rparr>\<rparr>))
     else Io_return n W1)"
proof -
  have none: "fd_get (t_sys t) fd False (hw_fds W) (kernel_of W) \<noteq> None" by (simp add: fd_get_def)
  have open_ctx: "\<not> m_isClosed c" if "fd_get (t_sys t) fd False (hw_fds W) (kernel_of W) = Some (Some c, D, k)" for c D k
    using fd_get_ok(2) [OF fds_reachable_ok [OF assms(1)] that [unfolded assms(2)] refl] by (simp add: slot_ok_def)
  have "do_io fuel t hold f fd (hook_event h) (hook_timeout h) W = origin_result f W"
    using assms(3) none open_ctx
    by (auto simp: do_io_def managed_def split: option.split_asm prod.split_asm if_split_asm option.split prod.split)
  moreover have "origin_result f W = Io_return n W1"
    using assms(4,5) by (simp add: origin_result_def call_origin_def set_kernel_def)
  moreover have "hw_fds W1 = hw_fds W" "kernel_of W1 = k" using assms(5) by simp_all
  ultimately show ?thesis
    using assms(2,5) by (simp add: hook_io_def track_fd_def set_kernel_def split: option.split)
qed

theorem hook_transparent_witness:
  "\<exists>W'. hook_io H_read 1 (sample_caller False) (Pair 0) (\<lambda>k. (7, 0, k)) 5 sample_world = Io_return 7 W' \<and> hw_errno W' = 0"
proof -
  have "hook_io H_read 1 (sample_caller False) (Pair 0) (\<lambda>k. (7, 0, k)) 5 sample_world = Io_return 7
      (sample_world\<lparr>hw_io := (hw_io sample_world)\<lparr>io_kernel := kernel_of sample_world\<rparr>, hw_errno := hw_errno sample_world\<rparr>)"
    using hook_transparent [OF sample_managed(1) _ _ _ refl, of "sample_caller False" 5 "\<lambda>k. (7, 0, k)" 7 0 "kernel_of sample_world"
        H_read 1 "Pair 0"]
    by (simp add: sample_caller_def)
  then show ?thesis by (simp add: sample_world_def)
qed

text \<open>
  What a program sets as \<^verbatim>\<open>O_NONBLOCK\<close> with \<^verbatim>\<open>fcntl\<close> on a socket it reads back, while the kernel's
  descriptor stays non-blocking, given that the kernel stores that flag.
\<close>

theorem nonblock_roundtrip:
  assumes "fds_reachable sys (hw_fds W)" "t_sys t = sys" "managed t fd W = Some ctx"
    and "\<And>fd arg k. has_flag (sys_getfl sys fd (snd (sys_setfl sys fd arg k))) O_NONBLOCK = has_flag arg O_NONBLOCK"
    and "fcntl_setfl t fd arg W = (r, W')"
  shows "has_flag (fcntl_getfl t fd W') O_NONBLOCK = has_flag arg O_NONBLOCK \<and>
    has_flag (sys_getfl sys fd (kernel_of W')) O_NONBLOCK"
proof -
  let ?ctx = "ctx\<lparr>m_userNonblock := has_flag arg O_NONBLOCK\<rparr>"
  have m: "\<not> out_of_table fd (hw_fds W)" "hw_fds W ! nat fd = Some ctx" "\<not> m_isClosed ctx" "m_isSocket ctx"
    using assms(3) by (simp_all add: managed_iff)
  have "slot_ok (nat fd) ctx" using fds_reachable_ok [OF assms(1)] m by (auto simp: fds_ok_def out_of_table_def)
  then have nb: "m_sysNonblock ctx" using m by (simp add: slot_ok_def)
  obtain k where k: "W' = set_kernel k (W\<lparr>hw_fds := (hw_fds W)[nat fd := Some ?ctx]\<rparr>)"
    "k = snd (sys_setfl sys fd (arg OR O_NONBLOCK) (kernel_of W))"
    using assms(2,3,5) nb by (auto simp: fcntl_setfl_def split: prod.split_asm)
  have "managed t fd W' = Some ?ctx"
    using m by (simp add: managed_iff k(1) set_kernel_def out_of_table_def)
  moreover have "has_flag (x AND NOT O_NONBLOCK) O_NONBLOCK = False" for x
    by (simp add: has_flag_def and.assoc)
  moreover have "has_flag O_NONBLOCK O_NONBLOCK" by (simp add: has_flag_def O_NONBLOCK_def)
  ultimately show ?thesis
    using assms(2,4) k by (cases "has_flag arg O_NONBLOCK") (simp_all add: fcntl_getfl_def set_kernel_def)
qed

theorem nonblock_roundtrip_witness:
  "has_flag (fcntl_getfl (sample_caller True) 5 (snd (fcntl_setfl (sample_caller True) 5 2 sample_world))) O_NONBLOCK = False"
proof -
  obtain ctx where ctx: "managed (sample_caller True) 5 sample_world = Some ctx" using sample_managed(2) by blast
  obtain r W' where W': "fcntl_setfl (sample_caller True) 5 2 sample_world = (r, W')" by force
  have "has_flag (fcntl_getfl (sample_caller True) 5 W') O_NONBLOCK = has_flag 2 O_NONBLOCK \<and>
    has_flag (sys_getfl flag_sys 5 (kernel_of W')) O_NONBLOCK"
    by (rule nonblock_roundtrip [OF sample_managed(1) _ ctx _ W']) (simp_all add: sample_caller_def flag_sys_def)
  then show ?thesis using W' by (simp add: has_flag_def O_NONBLOCK_def)
qed

end
