(* ===== verification/TcpServer.thy ===== *)
theory TcpServer
  imports Socket
begin

text \<open>
  \<^verbatim>\<open>tcp_server.cpp\<close>: binding, accepting, starting and stopping.  The server and the functions it has scheduled
  share its sockets, so sockets are in a heap and the server has their names; what is scheduled is a list of
  tasks, each with the I/O manager it is for.  \<^verbatim>\<open>cancelAll\<close> of the I/O manager is an argument, the messages that are
  logged are left out.
\<close>

section \<open>The server and what it shares\<close>

record TcpServer =
  t_socks :: "nat list"
  t_worker :: nat
  t_acceptWorker :: nat
  t_recvTimeout :: u64
  t_name :: string
  t_isStop :: bool
  t_type :: string

datatype tcp_task = Accept_on nat | Handle_client Socket | Close_all

record 'w tcp_world =
  tw_heap :: "nat \<Rightarrow> Socket option"
  tw_next :: nat
  tw_tasks :: "(nat \<times> tcp_task) list"
  tw_kernel :: 'w

text \<open>\<open>read_timeout\<close> is the value of the configuration variable \<^verbatim>\<open>tcp_server.read_timeout\<close>.\<close>

definition new_TcpServer :: "u64 \<Rightarrow> nat \<Rightarrow> nat \<Rightarrow> TcpServer" where
  "new_TcpServer read_timeout worker accept_worker =
    \<lparr>t_socks = [], t_worker = worker, t_acceptWorker = accept_worker, t_recvTimeout = read_timeout,
     t_name = ''sylar/1.0.0'', t_isStop = True, t_type = []\<rparr>"

definition schedule_task :: "nat \<Rightarrow> tcp_task \<Rightarrow> 'w tcp_world \<Rightarrow> 'w tcp_world" where
  "schedule_task worker task W = W\<lparr>tw_tasks := tw_tasks W @ [(worker, task)]\<rparr>"

text \<open>A socket whose last pointer is dropped is destroyed; a scheduled or running \<^verbatim>\<open>startAccept\<close> has a pointer.\<close>

definition drop_sock :: "'w net \<Rightarrow> nat \<Rightarrow> 'w tcp_world \<Rightarrow> 'w tcp_world" where
  "drop_sock net i W =
    (case tw_heap W i of
       None \<Rightarrow> W
     | Some s \<Rightarrow>
         if Accept_on i \<in> snd ` set (tw_tasks W) then W
         else W\<lparr>tw_heap := (tw_heap W)(i := None), tw_kernel := destroy_Socket net s (tw_kernel W)\<rparr>)"

section \<open>Binding\<close>

definition bind_one ::
  "'w net \<Rightarrow> Address \<Rightarrow> TcpServer \<times> 'w tcp_world \<times> Address list \<Rightarrow> TcpServer \<times> 'w tcp_world \<times> Address list" where
  "bind_one net addr acc =
    (case acc of (T, W, fails) \<Rightarrow>
       case Socket_bind net addr (CreateTCP addr) (tw_kernel W) of (bound, sock, w1) \<Rightarrow>
         if \<not> bound then (T, W\<lparr>tw_kernel := destroy_Socket net sock w1\<rparr>, fails @ [addr])
         else case Socket_listen net SOMAXCONN sock w1 of (listening, w2) \<Rightarrow>
           if \<not> listening then (T, W\<lparr>tw_kernel := destroy_Socket net sock w2\<rparr>, fails @ [addr])
           else
             (T\<lparr>t_socks := t_socks T @ [tw_next W]\<rparr>,
              W\<lparr>tw_heap := (tw_heap W)(tw_next W := Some sock), tw_next := tw_next W + 1, tw_kernel := w2\<rparr>,
              fails))"

definition TcpServer_bind ::
  "'w net \<Rightarrow> Address list \<Rightarrow> Address list \<Rightarrow> TcpServer \<Rightarrow> 'w tcp_world
   \<Rightarrow> bool \<times> TcpServer \<times> 'w tcp_world \<times> Address list" where
  "TcpServer_bind net addrs fails T W =
    (case fold (bind_one net) addrs (T, W, fails) of (T1, W1, fails1) \<Rightarrow>
       if fails1 \<noteq> [] then (False, T1\<lparr>t_socks := []\<rparr>, fold (drop_sock net) (t_socks T1) W1, fails1)
       else (True, T1, W1, fails1))"

definition TcpServer_bind1 ::
  "'w net \<Rightarrow> Address \<Rightarrow> TcpServer \<Rightarrow> 'w tcp_world \<Rightarrow> bool \<times> TcpServer \<times> 'w tcp_world" where
  "TcpServer_bind1 net addr T W =
    (case TcpServer_bind net [addr] [] T W of (ok, T', W', _) \<Rightarrow> (ok, T', W'))"

section \<open>Accepting\<close>

text \<open>One round of the loop of \<^verbatim>\<open>startAccept\<close>; \<open>None\<close> when the loop ends.\<close>

definition accept_round :: "'w net \<Rightarrow> TcpServer \<Rightarrow> nat \<Rightarrow> 'w tcp_world \<Rightarrow> 'w tcp_world option" where
  "accept_round net T i W =
    (if t_isStop T then None
     else
       (case Socket_accept net (the (tw_heap W i)) (tw_kernel W) of
          (Some client, w1) \<Rightarrow>
            Some (schedule_task (t_worker T) (Handle_client client)
              (W\<lparr>tw_kernel := setRecvTimeout net (sint (t_recvTimeout T)) client w1\<rparr>))
        | (None, w1) \<Rightarrow> Some (W\<lparr>tw_kernel := w1\<rparr>)))"

section \<open>Starting and stopping\<close>

definition TcpServer_start :: "TcpServer \<Rightarrow> 'w tcp_world \<Rightarrow> bool \<times> TcpServer \<times> 'w tcp_world" where
  "TcpServer_start T W =
    (if \<not> t_isStop T then (True, T, W)
     else (True, T\<lparr>t_isStop := False\<rparr>, fold (\<lambda>i. schedule_task (t_acceptWorker T) (Accept_on i)) (t_socks T) W))"

definition TcpServer_stop :: "TcpServer \<Rightarrow> 'w tcp_world \<Rightarrow> TcpServer \<times> 'w tcp_world" where
  "TcpServer_stop T W = (T\<lparr>t_isStop := True\<rparr>, schedule_task (t_acceptWorker T) Close_all W)"

definition close_one :: "'w net \<Rightarrow> (int \<Rightarrow> 'w \<Rightarrow> 'w) \<Rightarrow> nat \<Rightarrow> 'w tcp_world \<Rightarrow> 'w tcp_world" where
  "close_one net cancel_all i W =
    (case tw_heap W i of
       None \<Rightarrow> W
     | Some s \<Rightarrow>
         (case Socket_close net s (cancel_all (m_sock s) (tw_kernel W)) of (_, s', w') \<Rightarrow>
            W\<lparr>tw_heap := (tw_heap W)(i := Some s'), tw_kernel := w'\<rparr>))"

text \<open>The function that \<^verbatim>\<open>stop\<close> schedules.\<close>

definition run_close_all ::
  "'w net \<Rightarrow> (int \<Rightarrow> 'w \<Rightarrow> 'w) \<Rightarrow> TcpServer \<Rightarrow> 'w tcp_world \<Rightarrow> TcpServer \<times> 'w tcp_world" where
  "run_close_all net cancel_all T W =
    (T\<lparr>t_socks := []\<rparr>, fold (drop_sock net) (t_socks T) (fold (close_one net cancel_all) (t_socks T) W))"

text \<open>The destructor closes without cancelling.\<close>

definition destroy_TcpServer :: "'w net \<Rightarrow> TcpServer \<Rightarrow> 'w tcp_world \<Rightarrow> 'w tcp_world" where
  "destroy_TcpServer net T W =
    fold (drop_sock net) (t_socks T) (fold (close_one net (\<lambda>_ w. w)) (t_socks T) W)"

section \<open>Binding is all or nothing\<close>

text \<open>The server's sockets are in the heap, and the names to come are not.\<close>

definition socks_ok :: "TcpServer \<Rightarrow> 'w tcp_world \<Rightarrow> bool" where
  "socks_ok T W \<longleftrightarrow> (\<forall>i \<in> set (t_socks T). i < tw_next W \<and> (\<exists>s. tw_heap W i = Some s))"

text \<open>What trying one address comes to: the listening socket, if both calls succeed; otherwise the socket is destroyed.\<close>

definition bind_try :: "'w net \<Rightarrow> Address \<Rightarrow> 'w \<Rightarrow> Socket option \<times> 'w" where
  "bind_try net addr w =
    (case Socket_bind net addr (CreateTCP addr) w of (bound, sock, w1) \<Rightarrow>
       case (if bound then Socket_listen net SOMAXCONN sock w1 else (False, w1)) of (listening, w2) \<Rightarrow>
         if listening then (Some sock, w2) else (None, destroy_Socket net sock w2))"

primrec bind_tries :: "'w net \<Rightarrow> Address list \<Rightarrow> 'w \<Rightarrow> Socket option list \<times> 'w" where
  "bind_tries net [] w = ([], w)"
| "bind_tries net (addr # addrs) w =
    (case bind_try net addr w of (r, w1) \<Rightarrow> case bind_tries net addrs w1 of (rs, w2) \<Rightarrow> (r # rs, w2))"

definition opened :: "Socket option list \<Rightarrow> Socket list" where
  "opened rs = map the (filter (\<lambda>r. r \<noteq> None) rs)"

definition failed_of :: "Address list \<Rightarrow> Socket option list \<Rightarrow> Address list" where
  "failed_of addrs rs = map fst (filter (\<lambda>(addr, r). r = None) (zip addrs rs))"

lemma opened_simps [simp]: "opened [] = []" "opened (None # rs) = opened rs" "opened (Some s # rs) = s # opened rs"
  by (simp_all add: opened_def)

lemma failed_of_simps [simp]: "failed_of [] [] = []" "failed_of (a # addrs) (None # rs) = a # failed_of addrs rs"
  "failed_of (a # addrs) (Some s # rs) = failed_of addrs rs"
  by (simp_all add: failed_of_def)

lemma bind_try_valid: "bind_try net addr w = (Some s, w') \<Longrightarrow> isValid s"
  using Socket_bind_cases by (fastforce simp: bind_try_def isValid_def split: prod.split_asm if_split_asm)

lemma bind_one_try:
  "bind_one net addr (T, W, fails) = (case bind_try net addr (tw_kernel W) of
     (None, w) \<Rightarrow> (T, W\<lparr>tw_kernel := w\<rparr>, fails @ [addr])
   | (Some s, w) \<Rightarrow> (T\<lparr>t_socks := t_socks T @ [tw_next W]\<rparr>,
       W\<lparr>tw_heap := (tw_heap W)(tw_next W := Some s), tw_next := tw_next W + 1, tw_kernel := w\<rparr>, fails))"
  by (simp add: bind_one_def bind_try_def split: prod.split)

text \<open>Sockets stored under names that follow one another.\<close>

definition store_from :: "nat \<Rightarrow> Socket list \<Rightarrow> (nat \<Rightarrow> Socket option) \<Rightarrow> nat \<Rightarrow> Socket option" where
  "store_from n ss h i = (if n \<le> i \<and> i < n + length ss then Some (ss ! (i - n)) else h i)"

lemma store_from_simps [simp]:
  "store_from n [] h = h" "store_from (Suc n) ss (h(n \<mapsto> s)) = store_from n (s # ss) h"
  by (auto simp: store_from_def fun_eq_iff nth_Cons' Suc_le_eq less_le)

lemma store_from_nth: "map (store_from n ss h) [n..<n + length ss] = map Some ss"
  by (rule nth_equalityI) (auto simp: store_from_def)

lemma bind_loop:
  assumes "bind_tries net addrs (tw_kernel W) = (rs, w1)"
  shows "fold (bind_one net) addrs (T, W, fails) =
    (T\<lparr>t_socks := t_socks T @ [tw_next W ..< tw_next W + length (opened rs)]\<rparr>,
     W\<lparr>tw_heap := store_from (tw_next W) (opened rs) (tw_heap W), tw_next := tw_next W + length (opened rs), tw_kernel := w1\<rparr>,
     fails @ failed_of addrs rs) \<and> length rs = length addrs \<and> (\<forall>s \<in> set (opened rs). isValid s)"
  using assms
proof (induction addrs arbitrary: T W fails rs)
  case (Cons addr addrs)
  obtain r w2 where tried: "bind_try net addr (tw_kernel W) = (r, w2)" by fastforce
  obtain rs2 where rs: "bind_tries net addrs w2 = (rs2, w1)" "rs = r # rs2"
    using Cons.prems tried by (auto split: prod.split_asm)
  show ?case
  proof (cases r)
    case None
    with Cons.IH [of "W\<lparr>tw_kernel := w2\<rparr>" rs2 T "fails @ [addr]"] rs show ?thesis by (simp add: bind_one_try tried)
  next
    case (Some s)
    let ?W = "W\<lparr>tw_heap := (tw_heap W)(tw_next W := Some s), tw_next := tw_next W + 1, tw_kernel := w2\<rparr>"
    have upt: "[tw_next W..<Suc (tw_next W + n)] = tw_next W # [Suc (tw_next W)..<Suc (tw_next W + n)]" for n
      by (simp add: upt_rec)
    show ?thesis
      using Cons.IH [of ?W rs2 "T\<lparr>t_socks := t_socks T @ [tw_next W]\<rparr>" fails] rs Some bind_try_valid [of net addr "tw_kernel W" s w2] tried
      by (simp add: bind_one_try upt del: fun_upd_apply upt_Suc)
  qed
qed simp

lemma failed_of_Nil: "length rs = length addrs \<Longrightarrow> failed_of addrs rs = [] \<longleftrightarrow> None \<notin> set rs"
proof (induction addrs arbitrary: rs)
  case (Cons a addrs)
  then obtain r rs' where "rs = r # rs'" "length rs' = length addrs" by (auto simp: length_Suc_conv)
  with Cons.IH show ?case by (cases r) simp_all
qed simp

lemma opened_all: "None \<notin> set rs \<Longrightarrow> map Some (opened rs) = rs"
proof (induction rs)
  case (Cons r rs)
  then show ?case by (cases r) simp_all
qed simp

lemma drop_all:
  "tw_tasks (fold (drop_sock net) is W) = tw_tasks W \<and>
   (\<forall>i. (i \<in> set is \<or> tw_heap W i = None) \<and> Accept_on i \<notin> snd ` set (tw_tasks W) \<longrightarrow>
      tw_heap (fold (drop_sock net) is W) i = None)"
proof (induction "is" arbitrary: W)
  case (Cons k "is")
  have "tw_tasks (drop_sock net k W) = tw_tasks W"
    "(i \<in> set (k # is) \<or> tw_heap W i = None) \<and> Accept_on i \<notin> snd ` set (tw_tasks W) \<Longrightarrow>
     i \<in> set is \<or> tw_heap (drop_sock net k W) i = None" for i
    by (auto simp: drop_sock_def split: option.split)
  with Cons.IH [of "drop_sock net k W"] show ?case by (metis fold_simps(2))
qed simp

text \<open>
  C28. Binding is all or nothing.  Every address is tried, in order, whatever became of those before (\<open>rs\<close> is what each
  came to: a bound, listening socket or nothing).  \<^verbatim>\<open>bind\<close> reports success exactly when every address worked and the
  caller passed in no failure; then the server has the sockets, one for each address in their order and all of
  them open, behind those it had.  What it reports as failed is what the caller passed in followed by exactly the
  addresses that did not work, in order.  After a failure the server has no socket at all, not even those it
  had before, and each of them is destroyed unless a scheduled \<^verbatim>\<open>startAccept\<close> still has it.
\<close>

theorem bind_all_or_nothing:
  assumes "bind_tries net addrs (tw_kernel W) = (rs, w)" "TcpServer_bind net addrs fails T W = (ok, T', W', fails')"
  shows "fails' = fails @ map fst (filter (\<lambda>(addr, r). r = None) (zip addrs rs)) \<and>
    (ok \<longleftrightarrow> fails = [] \<and> None \<notin> set rs) \<and>
    (ok \<longrightarrow> T' = T\<lparr>t_socks := t_socks T @ [tw_next W ..< tw_next W + length addrs]\<rparr> \<and>
       map (tw_heap W') [tw_next W ..< tw_next W + length addrs] = rs \<and> (\<forall>r \<in> set rs. isValid (the r)) \<and>
       (\<forall>i < tw_next W. tw_heap W' i = tw_heap W i) \<and> tw_kernel W' = w) \<and>
    (\<not> ok \<longrightarrow> T' = T\<lparr>t_socks := []\<rparr> \<and>
       (\<forall>i \<in> set (t_socks T) \<union> {tw_next W ..< tw_next W + length (filter (\<lambda>r. r \<noteq> None) rs)}.
          tw_heap W' i = None \<or> Accept_on i \<in> snd ` set (tw_tasks W)))"
proof -
  note loop = bind_loop [OF assms(1), of T fails]
  then have len: "length rs = length addrs" by blast
  have n: "length (opened rs) = length (filter (\<lambda>r. r \<noteq> None) rs)" by (simp add: opened_def)
  have failed: "map fst (filter (\<lambda>(addr, r). r = None) (zip addrs rs)) = failed_of addrs rs" by (simp add: failed_of_def)
  show ?thesis
  proof (cases "fails = [] \<and> None \<notin> set rs")
    case True
    then have all: "map Some (opened rs) = rs" "failed_of addrs rs = []" using opened_all failed_of_Nil [OF len] by blast+
    then have "length (opened rs) = length addrs" "set rs = Some ` set (opened rs)"
      using len by (metis length_map) (metis all(1) set_map)
    then show ?thesis
      using assms(2) loop True all store_from_nth [of "tw_next W" "opened rs" "tw_heap W"]
      unfolding failed by (auto simp: TcpServer_bind_def store_from_def [where i = i for i])
  next
    case False
    then have "fails @ failed_of addrs rs \<noteq> []" using failed_of_Nil [OF len] by simp
    then have not_ok: "\<not> ok" "T' = T\<lparr>t_socks := []\<rparr>" "fails' = fails @ failed_of addrs rs"
      and W': "W' = fold (drop_sock net) (t_socks T @ [tw_next W ..< tw_next W + length (opened rs)])
        (W\<lparr>tw_heap := store_from (tw_next W) (opened rs) (tw_heap W), tw_next := tw_next W + length (opened rs), tw_kernel := w\<rparr>)"
      using assms(2) loop by (auto simp: TcpServer_bind_def simp del: fold_append)
    have dropped: "tw_heap W' i = None \<or> Accept_on i \<in> snd ` set (tw_tasks W)"
      if "i \<in> set (t_socks T) \<union> {tw_next W ..< tw_next W + length (opened rs)}" for i
      unfolding W' using drop_all [of net "t_socks T @ [tw_next W ..< tw_next W + length (opened rs)]"] that
      by (metis (no_types, lifting) set_append set_upt tcp_world.simps(3) tcp_world.ext_inject tcp_world.surjective tcp_world.update_convs)
    show ?thesis unfolding failed not_ok(3) using not_ok(1,2) False dropped [unfolded n] by simp
  qed
qed

definition sample_world :: "unit tcp_world" where
  "sample_world = \<lparr>tw_heap = Map.empty, tw_next = 0, tw_tasks = [], tw_kernel = ()\<rparr>"

theorem bind_all_or_nothing_witness:
  "let (rs, w) = bind_tries sample_net [IPv4Address (new_IPv4Address 0 0)] ();
       (ok, T', W', fails') = TcpServer_bind sample_net [IPv4Address (new_IPv4Address 0 0)] [] (new_TcpServer 120000 0 0) sample_world
   in (ok \<longleftrightarrow> None \<notin> set rs) \<and> (ok \<longrightarrow> t_socks T' = [0])"
proof -
  let ?a = "[IPv4Address (new_IPv4Address 0 0)]"
  obtain rs w where rs: "bind_tries sample_net ?a (tw_kernel sample_world) = (rs, w)" using prod.exhaust by blast
  obtain ok T' W' fails' where b: "TcpServer_bind sample_net ?a [] (new_TcpServer 120000 0 0) sample_world = (ok, T', W', fails')"
    by (metis prod_cases4)
  have "tw_kernel sample_world = ()" "tw_next sample_world = 0" by (simp_all add: sample_world_def)
  with bind_all_or_nothing [OF rs b] have "ok \<longleftrightarrow> None \<notin> set rs" "ok \<longrightarrow> t_socks T' = [0]" by (auto simp: new_TcpServer_def)
  with rs show ?thesis unfolding Let_def b by (simp add: sample_world_def)
qed

section \<open>Stopping and starting again\<close>

lemma close_one_keeps [simp]:
  "tw_tasks (close_one net cancel_all i W) = tw_tasks W"
  "j \<noteq> i \<Longrightarrow> tw_heap (close_one net cancel_all i W) j = tw_heap W j"
  by (auto simp: close_one_def split: option.split prod.split)

definition closed_in :: "'w tcp_world \<Rightarrow> nat \<Rightarrow> bool" where
  "closed_in W i \<longleftrightarrow> (\<exists>s. tw_heap W i = Some s \<and> m_sock s = -1 \<and> \<not> m_isConnected s)"

lemma close_one_closes: "tw_heap W i = Some s \<Longrightarrow> closed_in (close_one net cancel_all i W) i"
  by (auto simp: close_one_def closed_in_def split: prod.split dest: Socket_close_closed)

lemma close_one_closed: "closed_in W j \<Longrightarrow> closed_in (close_one net cancel_all i W) j"
  by (cases "i = j") (auto simp: closed_in_def intro: close_one_closes [unfolded closed_in_def])

lemma close_loop:
  "tw_tasks (fold (close_one net cancel_all) is W) = tw_tasks W \<and>
   (\<forall>i. closed_in W i \<or> i \<in> set is \<and> tw_heap W i \<noteq> None \<longrightarrow> closed_in (fold (close_one net cancel_all) is W) i)"
proof (induction "is" arbitrary: W)
  case (Cons k "is")
  have "closed_in (close_one net cancel_all k W) i \<or> i \<in> set is \<and> tw_heap (close_one net cancel_all k W) i \<noteq> None"
    if "closed_in W i \<or> i \<in> set (k # is) \<and> tw_heap W i \<noteq> None" for i
    using that close_one_closed [of W i net cancel_all k] close_one_closes [of W k _ net cancel_all]
    by (cases "i = k") auto
  with Cons.IH [of "close_one net cancel_all k W"] show ?case
    unfolding fold_simps close_one_keeps(1) by blast
qed simp

lemma drop_loop:
  "tw_tasks (fold (drop_sock net) is W) = tw_tasks W \<and>
   (\<forall>i. tw_heap (fold (drop_sock net) is W) i = tw_heap W i \<or>
      tw_heap (fold (drop_sock net) is W) i = None \<and> Accept_on i \<notin> snd ` set (tw_tasks W))"
proof (induction "is" arbitrary: W)
  case (Cons k "is")
  have "tw_tasks (drop_sock net k W) = tw_tasks W"
    "tw_heap (drop_sock net k W) i = tw_heap W i \<or>
     tw_heap (drop_sock net k W) i = None \<and> Accept_on i \<notin> snd ` set (tw_tasks W)" for i
    by (auto simp: drop_sock_def split: option.split)
  then show ?case using Cons.IH [of "drop_sock net k W"] by (metis fold_simps(2))
qed simp

lemma run_close_all_closes:
  assumes "socks_ok T W" "run_close_all net cancel_all T W = (T', W')" "i \<in> set (t_socks T)"
  shows "T' = T\<lparr>t_socks := []\<rparr> \<and> tw_tasks W' = tw_tasks W \<and>
    (tw_heap W' i = None \<and> Accept_on i \<notin> snd ` set (tw_tasks W) \<or> closed_in W' i)"
proof -
  let ?C = "fold (close_one net cancel_all) (t_socks T) W"
  have "closed_in ?C i" "tw_tasks ?C = tw_tasks W"
    using close_loop [of net cancel_all "t_socks T" W] assms(1,3) unfolding socks_ok_def by auto
  moreover have "T' = T\<lparr>t_socks := []\<rparr>" "W' = fold (drop_sock net) (t_socks T) ?C"
    using assms(2) by (simp_all add: run_close_all_def)
  moreover have "tw_heap (fold (drop_sock net) (t_socks T) ?C) i = tw_heap ?C i \<or>
      tw_heap (fold (drop_sock net) (t_socks T) ?C) i = None \<and> Accept_on i \<notin> snd ` set (tw_tasks ?C)"
    "tw_tasks (fold (drop_sock net) (t_socks T) ?C) = tw_tasks ?C"
    using drop_loop [of net "t_socks T" ?C] by blast+
  ultimately show ?thesis by (auto simp: closed_in_def)
qed

lemma start_tasks:
  "tw_heap (fold (\<lambda>i. schedule_task k (Accept_on i)) is W) = tw_heap W \<and>
   tw_next (fold (\<lambda>i. schedule_task k (Accept_on i)) is W) = tw_next W \<and>
   tw_tasks (fold (\<lambda>i. schedule_task k (Accept_on i)) is W) = tw_tasks W @ map (\<lambda>i. (k, Accept_on i)) is"
  by (induction "is" arbitrary: W) (simp_all add: schedule_task_def)

text \<open>
  C29. Stopping closes every socket of the server and ends every \<^verbatim>\<open>startAccept\<close> at its next round.  But a server that is
  started again before the function that \<^verbatim>\<open>stop\<close> scheduled has run loses its sockets to it while it counts as
  running: every \<^verbatim>\<open>startAccept\<close> then goes round for ever without accepting anything, and starting it again does
  nothing.
\<close>

theorem stop_and_restart:
  assumes "socks_ok T W" "i \<in> set (t_socks T)" "\<And>w. net_accept net (-1) w = (-1, w)"
    and "TcpServer_stop T W = (T1, W1)" "run_close_all net cancel_all T1 W1 = (T2, W2)"
    and "TcpServer_start T1 W1 = (ok, T3, W3)" "run_close_all net cancel_all T3 W3 = (T4, W4)"
  shows "(tw_heap W2 i = None \<or> closed_in W2 i) \<and> t_socks T2 = [] \<and> accept_round net T2 i W2 = None \<and>
    \<not> t_isStop T4 \<and> t_socks T4 = [] \<and> accept_round net T4 i W4 = Some W4 \<and> TcpServer_start T4 W4 = (True, T4, W4)"
proof -
  have T1: "t_isStop T1" "t_socks T1 = t_socks T" "socks_ok T1 W1"
    using assms(1,4) by (auto simp: TcpServer_stop_def schedule_task_def socks_ok_def)
  have one: "T2 = T1\<lparr>t_socks := []\<rparr> \<and> (tw_heap W2 i = None \<or> closed_in W2 i)"
    using run_close_all_closes [OF T1(3) assms(5)] assms(2) T1(2) by auto
  have T3: "T3 = T1\<lparr>t_isStop := False\<rparr>" "socks_ok T3 W3" "i \<in> set (t_socks T3)" "Accept_on i \<in> snd ` set (tw_tasks W3)"
    using assms(2,6) T1 start_tasks [of "t_acceptWorker T1" "t_socks T1" W1]
    by (force simp: TcpServer_start_def socks_ok_def)+
  from run_close_all_closes [OF T3(2) assms(7) T3(3)] T3(4)
  have T4: "T4 = T3\<lparr>t_socks := []\<rparr>" "closed_in W4 i" by auto
  then obtain s where "tw_heap W4 i = Some s" "m_sock s = -1" by (auto simp: closed_in_def)
  then have "accept_round net T4 i W4 = Some W4"
    using assms(3) T4(1) T3(1) by (simp add: accept_round_def Socket_accept_def)
  with one T1 T3(1) T4(1) show ?thesis by (simp add: accept_round_def TcpServer_start_def)
qed

definition closing_net :: "unit net" where
  "closing_net = sample_net\<lparr>net_accept := (\<lambda>fd w. (if fd = -1 then -1 else 8, w))\<rparr>"

theorem stop_and_restart_witness:
  "let T = (new_TcpServer 120000 0 0)\<lparr>t_socks := [0]\<rparr>;
       W = sample_world\<lparr>tw_heap := [0 \<mapsto> CreateTCPSocket\<lparr>m_sock := 7\<rparr>], tw_next := 1\<rparr>;
       (T1, W1) = TcpServer_stop T W;
       (ok, T3, W3) = TcpServer_start T1 W1;
       (T4, W4) = run_close_all closing_net (\<lambda>_ w. w) T3 W3
   in accept_round closing_net T4 0 W4 = Some W4"
proof -
  let ?T = "(new_TcpServer 120000 0 0)\<lparr>t_socks := [0]\<rparr>"
  let ?W = "sample_world\<lparr>tw_heap := [0 \<mapsto> CreateTCPSocket\<lparr>m_sock := 7\<rparr>], tw_next := 1\<rparr>"
  have "socks_ok ?T ?W" "0 \<in> set (t_socks ?T)" "\<And>w. net_accept closing_net (-1) w = (-1, w)"
    by (simp_all add: socks_ok_def closing_net_def)
  note r = stop_and_restart [OF this, where cancel_all = "\<lambda>_ w. w"]
  obtain T1 W1 where 1: "TcpServer_stop ?T ?W = (T1, W1)" by fastforce
  obtain T2 W2 where 2: "run_close_all closing_net (\<lambda>_ w. w) T1 W1 = (T2, W2)" by fastforce
  obtain ok T3 W3 where 3: "TcpServer_start T1 W1 = (ok, T3, W3)" by (rule prod_cases3)
  obtain T4 W4 where 4: "run_close_all closing_net (\<lambda>_ w. w) T3 W3 = (T4, W4)" by fastforce
  from r [OF 1 2 3 4] show ?thesis by (simp only: 1 3 4 Let_def prod.case)
qed

end
