(* ===== verification/LogFormat.thy ===== *)
theory LogFormat
  imports Socket
begin

text \<open>
  The levels, events and formatters of \<^verbatim>\<open>log.h\<close> and \<^verbatim>\<open>log.cpp\<close>: the parser of format patterns and the text a
  formatter makes of an event.  \<^verbatim>\<open>strftime\<close> and \<^verbatim>\<open>vasprintf\<close> are arguments.
\<close>

section \<open>Levels\<close>

type_synonym Level = int

definition UNKNOW :: Level where "UNKNOW = 0"
definition DEBUG :: Level where "DEBUG = 1"
definition INFO :: Level where "INFO = 2"
definition WARN :: Level where "WARN = 3"
definition ERROR :: Level where "ERROR = 4"
definition FATAL :: Level where "FATAL = 5"

lemmas levels = UNKNOW_def DEBUG_def INFO_def WARN_def ERROR_def FATAL_def

definition level_ToString :: "Level \<Rightarrow> string" where
  "level_ToString level =
    (if level = DEBUG then ''DEBUG'' else if level = INFO then ''INFO'' else if level = WARN then ''WARN''
     else if level = ERROR then ''ERROR'' else if level = FATAL then ''FATAL'' else ''UNKNOW'')"

definition level_FromString :: "string \<Rightarrow> Level" where
  "level_FromString s =
    (if s = ''debug'' then DEBUG else if s = ''info'' then INFO else if s = ''warn'' then WARN
     else if s = ''error'' then ERROR else if s = ''fatal'' then FATAL
     else if s = ''DEBUG'' then DEBUG else if s = ''INFO'' then INFO else if s = ''WARN'' then WARN
     else if s = ''ERROR'' then ERROR else if s = ''FATAL'' then FATAL
     else UNKNOW)"

section \<open>Events\<close>

record LogEvent =
  ev_file :: string
  ev_line :: int
  ev_elapse :: u32
  ev_threadId :: u32
  ev_fiberId :: u32
  ev_time :: u64
  ev_threadName :: string
  ev_content :: string
  ev_logger :: nat
  ev_level :: Level

definition new_LogEvent ::
  "nat \<Rightarrow> Level \<Rightarrow> string \<Rightarrow> int \<Rightarrow> u32 \<Rightarrow> u32 \<Rightarrow> u32 \<Rightarrow> u64 \<Rightarrow> string \<Rightarrow> LogEvent" where
  "new_LogEvent logger level file line elapse threadId fiberId time threadName =
    \<lparr>ev_file = file, ev_line = line, ev_elapse = elapse, ev_threadId = threadId, ev_fiberId = fiberId, ev_time = time,
     ev_threadName = threadName, ev_content = [], ev_logger = logger, ev_level = level\<rparr>"

text \<open>
  \<^verbatim>\<open>vasprintf\<close> answers the length of the text it has made, or -1; the length is compared with 1 instead.  Making a
  string of length -1 throws.
\<close>

definition event_format :: "int \<times> string \<Rightarrow> LogEvent \<Rightarrow> LogEvent option" where
  "event_format result e =
    (case result of (len, buf) \<Rightarrow>
       if len \<noteq> 1 then (if len < 0 then None else Some (e\<lparr>ev_content := ev_content e @ take (nat len) buf\<rparr>))
       else Some e)"

section \<open>Items\<close>

datatype format_item =
    MessageItem | LevelItem | ElapseItem | NameItem | ThreadIdItem | FiberIdItem | ThreadNameItem
  | DateTimeItem string | FilenameItem | LineItem | NewLineItem | StringItem string | TabItem

definition DATE_FORMAT :: string where
  "DATE_FORMAT = ''%Y:%m:%d %H:%M:%S''"

definition new_DateTimeItem :: "string \<Rightarrow> format_item" where
  "new_DateTimeItem f = DateTimeItem (if f = [] then DATE_FORMAT else f)"

text \<open>\<open>None\<close>: \<^verbatim>\<open>strftime\<close> finds the buffer of 64 bytes too small, and what is in it then is not defined.\<close>

type_synonym strftime = "nat \<Rightarrow> string \<Rightarrow> u64 \<Rightarrow> string option"

definition item_format :: "strftime \<Rightarrow> string \<Rightarrow> Level \<Rightarrow> LogEvent \<Rightarrow> format_item \<Rightarrow> string option" where
  "item_format strftime logger_name level e item =
    (case item of
       MessageItem \<Rightarrow> Some (ev_content e)
     | LevelItem \<Rightarrow> Some (level_ToString level)
     | ElapseItem \<Rightarrow> Some (dec (unat (ev_elapse e)))
     | NameItem \<Rightarrow> Some logger_name
     | ThreadIdItem \<Rightarrow> Some (dec (unat (ev_threadId e)))
     | FiberIdItem \<Rightarrow> Some (dec (unat (ev_fiberId e)))
     | ThreadNameItem \<Rightarrow> Some (ev_threadName e)
     | DateTimeItem f \<Rightarrow> strftime 64 f (ev_time e)
     | FilenameItem \<Rightarrow> Some (ev_file e)
     | LineItem \<Rightarrow> Some (dec_int (ev_line e))
     | NewLineItem \<Rightarrow> Some [LF]
     | StringItem s \<Rightarrow> Some s
     | TabItem \<Rightarrow> Some [char_of (9 :: nat)])"

section \<open>The pattern parser\<close>

definition REGULAR_SYMBOL :: nat where "REGULAR_SYMBOL = 0"
definition INNER_SYMBOL :: nat where "INNER_SYMBOL = 1"

definition flush :: "string \<Rightarrow> (nat \<times> string) list" where
  "flush tmp = (if tmp = [] then [] else [(REGULAR_SYMBOL, tmp)])"

lemma dropWhile_shorter: "dropWhile P xs = y # ys \<Longrightarrow> length ys < length xs"
  using length_dropWhile_le [of P xs] by simp

text \<open>
  The loop over the characters that are left of the pattern, with \<^verbatim>\<open>patterns\<close>, \<^verbatim>\<open>tmp\<close>, \<^verbatim>\<open>dateFormat\<close> and
  \<^verbatim>\<open>parsingString\<close>; the result has \<^verbatim>\<open>m_error\<close> as its last component.  After a \<^verbatim>\<open>d\<close> at the very end the loop reads behind
  the terminating NUL of the pattern, which is \<open>None\<close>.
\<close>

function init_loop ::
  "string \<Rightarrow> (nat \<times> string) list \<Rightarrow> string \<Rightarrow> string \<Rightarrow> bool \<Rightarrow> ((nat \<times> string) list \<times> string \<times> bool) option" where
  "init_loop [] patterns tmp dateFormat parsingString = Some (patterns @ flush tmp, dateFormat, False)"
| "init_loop (c # rest) patterns tmp dateFormat parsingString =
    (if c = CHR ''%'' then
       if parsingString then init_loop rest (patterns @ flush tmp) [] dateFormat False
       else init_loop rest (patterns @ [(INNER_SYMBOL, [c])]) tmp dateFormat True
     else if parsingString then init_loop rest patterns (tmp @ [c]) dateFormat True
     else
       let patterns1 = patterns @ [(INNER_SYMBOL, [c])] in
       if c \<noteq> CHR ''d'' then init_loop rest patterns1 tmp dateFormat True
       else
         (case rest of
            [] \<Rightarrow> None
          | b # rest1 \<Rightarrow>
              if b \<noteq> CHR ''{'' then init_loop rest patterns1 tmp dateFormat True
              else
                let dateFormat1 = dateFormat @ takeWhile (\<lambda>x. x \<noteq> CHR ''}'') rest1 in
                (case dropWhile (\<lambda>x. x \<noteq> CHR ''}'') rest1 of
                   [] \<Rightarrow> Some (patterns1 @ flush tmp, dateFormat1, True)
                 | _ # rest2 \<Rightarrow> init_loop rest2 patterns1 tmp dateFormat1 True)))"
  by pat_completeness auto
termination
  by (relation "measure (\<lambda>(rest, _). length rest)") (auto dest: dropWhile_shorter)

text \<open>\<^verbatim>\<open>s_format_items\<close>\<close>

definition s_format_items :: "(string \<times> format_item) list" where
  "s_format_items =
    [(''m'', MessageItem), (''p'', LevelItem), (''r'', ElapseItem), (''c'', NameItem), (''t'', ThreadIdItem),
     (''n'', NewLineItem), (''f'', FilenameItem), (''l'', LineItem), (''T'', TabItem), (''F'', FiberIdItem),
     (''N'', ThreadNameItem)]"

definition make_item :: "string \<Rightarrow> nat \<times> string \<Rightarrow> format_item option" where
  "make_item dateFormat symbol =
    (case symbol of (symbolType, pattern) \<Rightarrow>
       if symbolType = REGULAR_SYMBOL then Some (StringItem pattern)
       else if pattern = ''d'' then Some (new_DateTimeItem dateFormat)
       else map_of s_format_items pattern)"

record LogFormatter =
  f_pattern :: string
  f_items :: "format_item list"
  f_error :: bool

definition new_LogFormatter :: "string \<Rightarrow> LogFormatter option" where
  "new_LogFormatter pattern =
    map_option (\<lambda>(patterns, dateFormat, err).
        \<lparr>f_pattern = pattern, f_items = List.map_filter (make_item dateFormat) patterns,
         f_error = (err \<or> list_ex (\<lambda>s. make_item dateFormat s = None) patterns)\<rparr>)
      (init_loop pattern [] [] [] True)"

definition formatter_format :: "strftime \<Rightarrow> LogFormatter \<Rightarrow> string \<Rightarrow> Level \<Rightarrow> LogEvent \<Rightarrow> string option" where
  "formatter_format strftime F logger_name level e =
    map_option concat (those (map (item_format strftime logger_name level e) (f_items F)))"

section \<open>Levels\<close>

lemma level_names:
  "level_FromString ''DEBUG'' = 1" "level_FromString ''INFO'' = 2" "level_FromString ''WARN'' = 3"
  "level_FromString ''ERROR'' = 4" "level_FromString ''FATAL'' = 5" "level_FromString ''UNKNOW'' = UNKNOW"
  "level_FromString ''debug'' = 1" "level_FromString ''info'' = 2" "level_FromString ''warn'' = 3"
  "level_FromString ''error'' = 4" "level_FromString ''fatal'' = 5" "level_FromString ''unknow'' = UNKNOW"
  "map tolower ''DEBUG'' = ''debug''" "map tolower ''INFO'' = ''info''" "map tolower ''WARN'' = ''warn''"
  "map tolower ''ERROR'' = ''error''" "map tolower ''FATAL'' = ''fatal''" "map tolower ''UNKNOW'' = ''unknow''"
  "level_ToString 1 = ''DEBUG''" "level_ToString 2 = ''INFO''" "level_ToString 3 = ''WARN''"
  "level_ToString 4 = ''ERROR''" "level_ToString 5 = ''FATAL''"
  by code_simp+

text \<open>
  The name of each of the five levels is read back as that level, as is its name in small letters; any other text
  is the unknown level, so that, against its description, reading is not indifferent to case.
\<close>

theorem level_roundtrip:
  "level_FromString (level_ToString l) = (if l \<in> {1..5} then l else UNKNOW) \<and>
   level_FromString (map tolower (level_ToString l)) = (if l \<in> {1..5} then l else UNKNOW) \<and>
   (level_FromString s = UNKNOW \<or> s = level_ToString (level_FromString s) \<or>
    s = map tolower (level_ToString (level_FromString s))) \<and>
   level_FromString ''Info'' = UNKNOW"
proof (intro conjI)
  have "l \<in> {1..5} \<longleftrightarrow> l = 1 \<or> l = 2 \<or> l = 3 \<or> l = 4 \<or> l = 5" by auto
  then show "level_FromString (level_ToString l) = (if l \<in> {1..5} then l else UNKNOW)"
    "level_FromString (map tolower (level_ToString l)) = (if l \<in> {1..5} then l else UNKNOW)"
    using level_names by (auto simp: level_ToString_def levels)
  show "level_FromString s = UNKNOW \<or> s = level_ToString (level_FromString s) \<or>
      s = map tolower (level_ToString (level_FromString s))"
  proof (cases "level_FromString s = UNKNOW")
    case False
    then have "s \<in> {''debug'', ''info'', ''warn'', ''error'', ''fatal'', ''DEBUG'', ''INFO'', ''WARN'', ''ERROR'', ''FATAL''}"
      by (rule contrapos_np) (simp add: level_FromString_def)
    then show ?thesis by (elim insertE emptyE) (simp_all only: level_names simp_thms)
  qed simp
  show "level_FromString ''Info'' = UNKNOW" by (simp add: level_FromString_def)
qed

section \<open>Patterns\<close>

text \<open>A pattern as a list of tokens, and how it is written.\<close>

datatype pattern_token = Lit string | Spec char | Date "string option"

fun token_text :: "pattern_token \<Rightarrow> string" where
  "token_text (Lit s) = s"
| "token_text (Spec c) = [CHR ''%'', c]"
| "token_text (Date None) = ''%d''"
| "token_text (Date (Some f)) = ''%d{'' @ f @ ''}''"

definition pattern_text :: "pattern_token list \<Rightarrow> string" where
  "pattern_text ts = concat (map token_text ts)"

text \<open>The date formats of a pattern, all of them in one string.\<close>

fun token_date :: "pattern_token \<Rightarrow> string" where
  "token_date (Date (Some f)) = f"
| "token_date _ = []"

definition pattern_date :: "pattern_token list \<Rightarrow> string" where
  "pattern_date ts = concat (map token_date ts)"

text \<open>
  Tokens that are written unambiguously: literal text is not empty, has no percent sign and is not followed by more
  literal text, \<^verbatim>\<open>%d\<close> without a format is followed by something that is no brace.
\<close>

fun tokens_ok :: "pattern_token list \<Rightarrow> bool" where
  "tokens_ok [] \<longleftrightarrow> True"
| "tokens_ok (Lit s # ts) \<longleftrightarrow>
    s \<noteq> [] \<and> CHR ''%'' \<notin> set s \<and> (case ts of Lit _ # _ \<Rightarrow> False | _ \<Rightarrow> True) \<and> tokens_ok ts"
| "tokens_ok (Spec c # ts) \<longleftrightarrow> c \<noteq> CHR ''d'' \<and> tokens_ok ts"
| "tokens_ok (Date None # ts) \<longleftrightarrow> pattern_text ts \<noteq> [] \<and> hd (pattern_text ts) \<noteq> CHR ''{'' \<and> tokens_ok ts"
| "tokens_ok (Date (Some f) # ts) \<longleftrightarrow> CHR ''}'' \<notin> set f \<and> tokens_ok ts"

definition token_symbol :: "pattern_token \<Rightarrow> nat \<times> string" where
  "token_symbol t = (case t of Lit s \<Rightarrow> (REGULAR_SYMBOL, s) | Spec c \<Rightarrow> (INNER_SYMBOL, [c]) | Date _ \<Rightarrow> (INNER_SYMBOL, ''d''))"

text \<open>The item of a token, given all the date formats; a letter that is not known has none.\<close>

definition token_item :: "string \<Rightarrow> pattern_token \<Rightarrow> format_item option" where
  "token_item date t =
    (case t of
       Lit s \<Rightarrow> Some (StringItem s)
     | Spec c \<Rightarrow> map_of s_format_items [c]
     | Date _ \<Rightarrow> Some (new_DateTimeItem date))"

declare init_loop.simps(2) [simp del]

lemma init_literal:
  "CHR ''%'' \<notin> set s \<Longrightarrow> init_loop (s @ rest) pats tmp date True = init_loop rest pats (tmp @ s) date True"
proof (induction s arbitrary: tmp)
  case (Cons c s)
  then have "init_loop ((c # s) @ rest) pats tmp date True = init_loop (s @ rest) pats (tmp @ [c]) date True"
    by (subst append_Cons, subst init_loop.simps(2)) auto
  with Cons show ?case by simp
qed simp

lemma init_percent:
  "init_loop (CHR ''%'' # rest) pats tmp date True = init_loop rest (pats @ flush tmp) [] date False"
  by (subst init_loop.simps(2)) simp

lemma init_spec:
  "c \<noteq> CHR ''d'' \<Longrightarrow> init_loop (c # rest) pats tmp date False = init_loop rest (pats @ [(INNER_SYMBOL, [c])]) tmp date True"
  by (subst init_loop.simps(2)) (simp add: Let_def)

lemma init_date:
  "rest \<noteq> [] \<Longrightarrow> hd rest \<noteq> CHR ''{'' \<Longrightarrow>
    init_loop (CHR ''d'' # rest) pats tmp date False = init_loop rest (pats @ [(INNER_SYMBOL, ''d'')]) tmp date True"
  by (subst init_loop.simps(2)) (cases rest; simp add: Let_def)

lemma init_date_format:
  assumes "CHR ''}'' \<notin> set f"
  shows "init_loop (CHR ''d'' # CHR ''{'' # f @ CHR ''}'' # rest) pats tmp date False =
    init_loop rest (pats @ [(INNER_SYMBOL, ''d'')]) tmp (date @ f) True"
proof -
  have "takeWhile (\<lambda>x. x \<noteq> CHR ''}'') (f @ CHR ''}'' # rest) = f"
    "dropWhile (\<lambda>x. x \<noteq> CHR ''}'') (f @ CHR ''}'' # rest) = CHR ''}'' # rest"
    using assms by (auto simp: takeWhile_append dropWhile_append)
  then show ?thesis by (subst init_loop.simps(2)) (simp add: Let_def)
qed

text \<open>What is in \<^verbatim>\<open>patterns\<close> and \<^verbatim>\<open>tmp\<close> after some tokens.\<close>

fun after_tokens :: "(nat \<times> string) list \<Rightarrow> string \<Rightarrow> pattern_token list \<Rightarrow> (nat \<times> string) list \<times> string" where
  "after_tokens pats tmp [] = (pats, tmp)"
| "after_tokens pats tmp (Lit s # ts) = after_tokens pats (tmp @ s) ts"
| "after_tokens pats tmp (t # ts) = after_tokens (pats @ flush tmp @ [token_symbol t]) [] ts"

lemma init_tokens:
  "tokens_ok ts \<Longrightarrow> after_tokens pats tmp ts = (pats1, tmp1) \<Longrightarrow>
    init_loop (pattern_text ts @ rest) pats tmp date True = init_loop rest pats1 tmp1 (date @ pattern_date ts) True"
proof (induction ts arbitrary: pats tmp date rule: tokens_ok.induct)
  case (4 ts)
  then show ?case
    by (simp add: pattern_text_def pattern_date_def init_percent init_date token_symbol_def)
qed (simp_all add: pattern_text_def pattern_date_def init_literal init_percent init_spec init_date_format token_symbol_def)

lemma after_symbols:
  "tokens_ok ts \<Longrightarrow> tmp = [] \<or> (case ts of Lit _ # _ \<Rightarrow> False | _ \<Rightarrow> True) \<Longrightarrow> after_tokens pats tmp ts = (pats1, tmp1) \<Longrightarrow>
    pats1 @ flush tmp1 = pats @ flush tmp @ map token_symbol ts"
proof (induction ts arbitrary: pats tmp rule: tokens_ok.induct)
  case (2 s ts)
  then show ?case by (simp add: flush_def token_symbol_def)
next
  case (3 c ts)
  from 3(1) [of "[]" "pats @ flush tmp @ [token_symbol (Spec c)]"] 3(2,4) show ?case by (simp add: flush_def)
next
  case (4 ts)
  from 4(1) [of "[]" "pats @ flush tmp @ [token_symbol (Date None)]"] 4(2,4) show ?case by (simp add: flush_def)
next
  case (5 f ts)
  from 5(1) [of "[]" "pats @ flush tmp @ [token_symbol (Date (Some f))]"] 5(2,4) show ?case by (simp add: flush_def)
qed simp

lemma map_filter_symbols:
  "List.map_filter (make_item date) (map token_symbol ts) = List.map_filter (token_item date) ts"
  "list_ex (\<lambda>s. make_item date s = None) (map token_symbol ts) = list_ex (\<lambda>t. token_item date t = None) ts"
  if "tokens_ok ts"
proof -
  have "make_item date (token_symbol t) = token_item date t" if "t \<in> set ts" for t
  proof (cases t)
    case (Spec c)
    have "c \<noteq> CHR ''d''" using \<open>tokens_ok ts\<close> that Spec by (induction ts rule: tokens_ok.induct) auto
    then show ?thesis by (simp add: Spec make_item_def token_symbol_def token_item_def REGULAR_SYMBOL_def INNER_SYMBOL_def)
  qed (simp_all add: make_item_def token_symbol_def token_item_def REGULAR_SYMBOL_def INNER_SYMBOL_def)
  then show "List.map_filter (make_item date) (map token_symbol ts) = List.map_filter (token_item date) ts"
    "list_ex (\<lambda>s. make_item date s = None) (map token_symbol ts) = list_ex (\<lambda>t. token_item date t = None) ts"
    by (induction ts) (auto simp: List.map_filter_def)
qed

text \<open>
  C40. The parser of format patterns reads every pattern as it was meant: the items are those of the tokens the pattern
  was written from, in order, where every date has all the date formats of the pattern run together; the formatter
  is in error exactly if one of its letters is not known, and the percent sign is not, so that \<^verbatim>\<open>%%\<close> is an error.
  A \<^verbatim>\<open>%d\<close> at the very end makes the parser read behind the pattern; a brace that is not closed is an error.
\<close>

theorem pattern_parsed:
  assumes "tokens_ok ts"
  shows "new_LogFormatter (pattern_text ts) =
      Some \<lparr>f_pattern = pattern_text ts, f_items = List.map_filter (token_item (pattern_date ts)) ts,
        f_error = list_ex (\<lambda>t. token_item (pattern_date ts) t = None) ts\<rparr> \<and>
    token_item date (Spec (CHR ''%'')) = None \<and>
    new_LogFormatter (pattern_text ts @ ''%d'') = None \<and>
    (\<exists>F. new_LogFormatter (pattern_text ts @ ''%d{'') = Some F \<and> f_error F)"
proof -
  obtain pats tmp where a: "after_tokens [] [] ts = (pats, tmp)" by fastforce
  note run = init_tokens [OF assms a, where date = "[]"]
  have syms: "pats @ flush tmp = map token_symbol ts"
    using after_symbols [OF assms _ a] by (simp add: flush_def)
  have "init_loop (pattern_text ts) [] [] [] True = Some (map token_symbol ts, pattern_date ts, False)"
    using run [of "[]"] syms by simp
  moreover have "init_loop ''d'' p t d False = None" for p t d
    by (subst init_loop.simps(2)) (simp add: Let_def)
  moreover have "init_loop ''d{'' q t e False = Some ((q @ [(INNER_SYMBOL, ''d'')]) @ flush t, e, True)" for q t e
    by (subst init_loop.simps(2)) (simp add: Let_def)
  moreover have "init_loop (pattern_text ts @ ''%d'') [] [] [] True = init_loop ''d'' (pats @ flush tmp) [] (pattern_date ts) False"
    "init_loop (pattern_text ts @ ''%d{'') [] [] [] True = init_loop ''d{'' (pats @ flush tmp) [] (pattern_date ts) False"
    using run [of "''%d''"] run [of "''%d{''"] by (simp_all add: init_percent)
  ultimately have "new_LogFormatter (pattern_text ts @ ''%d'') = None"
    "\<exists>F. new_LogFormatter (pattern_text ts @ ''%d{'') = Some F \<and> f_error F"
    "new_LogFormatter (pattern_text ts) =
      Some \<lparr>f_pattern = pattern_text ts, f_items = List.map_filter (token_item (pattern_date ts)) ts,
        f_error = list_ex (\<lambda>t. token_item (pattern_date ts) t = None) ts\<rparr>"
    by (auto simp: new_LogFormatter_def map_filter_symbols [OF assms])
  moreover have "token_item date (Spec (CHR ''%'')) = None" by (simp add: token_item_def s_format_items_def)
  ultimately show ?thesis by blast
qed

theorem pattern_parsed_witness:
  "new_LogFormatter (pattern_text [Date (Some ''%H''), Spec (CHR ''T''), Lit ''['', Spec (CHR ''p''), Lit '']'', Date (Some ''%M'')]) =
    Some \<lparr>f_pattern = ''%d{%H}%T[%p]%d{%M}'',
      f_items = [DateTimeItem ''%H%M'', TabItem, StringItem ''['', LevelItem, StringItem '']'', DateTimeItem ''%H%M''],
      f_error = False\<rparr>"
proof -
  let ?ts = "[Date (Some ''%H''), Spec (CHR ''T''), Lit ''['', Spec (CHR ''p''), Lit '']'', Date (Some ''%M'')]"
  have "tokens_ok ?ts" by simp
  from pattern_parsed [OF this] show ?thesis
    by (simp add: pattern_text_def pattern_date_def token_item_def s_format_items_def new_DateTimeItem_def List.map_filter_def)
qed

end
