(* ===== verification/StdMap.thy ===== *)
theory StdMap
  imports StdSet
begin

text \<open>
  \<^verbatim>\<open>std::map\<close>: the list of its pairs in the order of the keys, with the operations the sources use; the comparison
  of \<^verbatim>\<open>std::string\<close> and of 64-bit numbers.  The locale \<open>std_map\<close> is what \<^verbatim>\<open>std_set\<close> requires of the comparison, with
  the laws of finite maps.
\<close>

section \<open>Operations\<close>

text \<open>\<^verbatim>\<open>m[k] = v\<close>\<close>

primrec map_put :: "('k \<Rightarrow> 'k \<Rightarrow> bool) \<Rightarrow> 'k \<Rightarrow> 'v \<Rightarrow> ('k \<times> 'v) list \<Rightarrow> ('k \<times> 'v) list" where
  "map_put lt k v [] = [(k, v)]"
| "map_put lt k v (e # es) =
    (if lt (fst e) k then e # map_put lt k v es else if lt k (fst e) then (k, v) # e # es else (k, v) # es)"

text \<open>\<^verbatim>\<open>m.insert({k, v})\<close>, which leaves an entry that is there alone.\<close>

definition map_add_new :: "('k \<Rightarrow> 'k \<Rightarrow> bool) \<Rightarrow> 'k \<Rightarrow> 'v \<Rightarrow> ('k \<times> 'v) list \<Rightarrow> ('k \<times> 'v) list" where
  "map_add_new lt k v m = (case map_of m k of None \<Rightarrow> map_put lt k v m | Some _ \<Rightarrow> m)"

definition map_sorted :: "('k \<Rightarrow> 'k \<Rightarrow> bool) \<Rightarrow> ('k \<times> 'v) list \<Rightarrow> bool" where
  "map_sorted lt m \<longleftrightarrow> sorted_wrt lt (map fst m)"

section \<open>The contract\<close>

locale std_map = std_set lt for lt :: "'k \<Rightarrow> 'k \<Rightarrow> bool"
begin

lemma keys_put: "fst ` set (map_put lt k v m) = insert k (fst ` set m)"
  by (induction m) (use lt_total in force)+

lemma map_put_sorted: "map_sorted lt m \<Longrightarrow> map_sorted lt (map_put lt k v m)"
proof (induction m)
  case (Cons e m)
  have "map_sorted lt m" and e: "\<forall>x \<in> fst ` set m. lt (fst e) x" using Cons.prems by (auto simp: map_sorted_def)
  note s = Cons.IH [OF this(1)]
  have "k = fst e" if "\<not> lt (fst e) k" "\<not> lt k (fst e)" using lt_total that by blast
  with s e keys_put [of k v m] Cons.prems show ?case by (auto simp: map_sorted_def intro: lt_trans)
qed (simp add: map_sorted_def)

lemma map_of_put: "map_sorted lt m \<Longrightarrow> map_of (map_put lt k v m) = (map_of m)(k \<mapsto> v)"
proof (induction m)
  case (Cons e m)
  have "map_sorted lt m" "\<forall>x \<in> fst ` set m. lt (fst e) x" using Cons.prems by (auto simp: map_sorted_def)
  moreover have "k = fst e" if "\<not> lt (fst e) k" "\<not> lt k (fst e)" using lt_total that by blast
  ultimately show ?case using Cons.IH lt_irrefl by (auto simp: fun_eq_iff)
qed simp

lemma map_add_new_sorted: "map_sorted lt m \<Longrightarrow> map_sorted lt (map_add_new lt k v m)"
  by (simp add: map_add_new_def map_put_sorted split: option.split)

lemma map_of_add_new: "map_sorted lt m \<Longrightarrow> map_of (map_add_new lt k v m) = [k \<mapsto> v] ++ map_of m"
  by (auto simp: map_add_new_def map_of_put fun_eq_iff map_add_def split: option.split)

lemma map_sorted_distinct: "map_sorted lt m \<Longrightarrow> distinct (map fst m)"
  by (simp add: map_sorted_def sorted_distinct)

end

section \<open>Keys\<close>

fun string_less :: "string \<Rightarrow> string \<Rightarrow> bool" where
  "string_less _ [] \<longleftrightarrow> False"
| "string_less [] (d # ds) \<longleftrightarrow> True"
| "string_less (c # cs) (d # ds) \<longleftrightarrow> cval c < cval d \<or> c = d \<and> string_less cs ds"

lemma cval_eq_iff: "cval c = cval d \<longleftrightarrow> c = d"
  by (simp add: cval_def)

lemma string_less_irrefl: "\<not> string_less x x"
  by (induction x) auto

lemma string_less_trans: "string_less x y \<Longrightarrow> string_less y z \<Longrightarrow> string_less x z"
proof (induction x y arbitrary: z rule: string_less.induct)
  case (2 d ds)
  then show ?case by (cases z) auto
next
  case (3 c cs d ds)
  then show ?case by (cases z) auto
qed simp

lemma string_less_total: "x \<noteq> y \<Longrightarrow> string_less x y \<or> string_less y x"
proof (induction x y rule: string_less.induct)
  case (1 x)
  then show ?case by (cases x) auto
next
  case (3 c cs d ds)
  then show ?case using cval_eq_iff [of c d] by auto
qed simp

interpretation string_map: std_map string_less
  by unfold_locales (use string_less_irrefl string_less_trans string_less_total in blast)+

interpretation id_map: std_map "(<) :: u64 \<Rightarrow> u64 \<Rightarrow> bool"
  by unfold_locales auto

end
