(* ===== verification/Config.thy ===== *)
theory Config
  imports StdMap Http
begin

text \<open>
  \<^verbatim>\<open>config.h\<close> and \<^verbatim>\<open>config.cpp\<close>: conversions between text and containers, configuration variables with their
  listeners, the registry of all variables and loading a YAML document into it.  The YAML library is a record of
  functions on its nodes; variables of all types are in one registry, so their values are of one type \<open>'v\<close> and
  each variable has the name of its type, its comparison and its conversions with it.  A caught exception is
  \<open>None\<close>; what is logged is left out.
\<close>

section \<open>The YAML library\<close>

record 'y yaml =
  y_Load :: "string \<Rightarrow> 'y option"
  y_text :: "'y \<Rightarrow> string"
  y_size :: "'y \<Rightarrow> nat"
  y_index :: "'y \<Rightarrow> nat \<Rightarrow> 'y"
  y_IsMap :: "'y \<Rightarrow> bool"
  y_entries :: "'y \<Rightarrow> ('y \<times> 'y) list"
  y_IsScalar :: "'y \<Rightarrow> bool"
  y_Scalar :: "'y \<Rightarrow> string"
  y_Node :: 'y
  y_push_back :: "'y \<Rightarrow> 'y \<Rightarrow> 'y"
  y_put :: "'y \<Rightarrow> string \<Rightarrow> 'y \<Rightarrow> 'y"
  y_get :: "'y \<Rightarrow> string \<Rightarrow> 'y option"
  y_as_string :: "'y \<Rightarrow> string option"
  y_of_string :: "string \<Rightarrow> 'y"

section \<open>Conversions\<close>

type_synonym 'a from_string = "string \<Rightarrow> 'a option"
type_synonym 'a to_string = "'a \<Rightarrow> string option"

text \<open>The loop over a sequence: an exception of any element leaves it.\<close>

definition cast_elements :: "'y yaml \<Rightarrow> 'a from_string \<Rightarrow> 'y \<Rightarrow> 'a list option" where
  "cast_elements Y cast node = those (map (\<lambda>i. cast (y_text Y (y_index Y node i))) [0..<y_size Y node])"

definition vector_of_string :: "'y yaml \<Rightarrow> 'a from_string \<Rightarrow> 'a list from_string" where
  "vector_of_string Y cast val = Option.bind (y_Load Y val) (cast_elements Y cast)"

definition push_element :: "'y yaml \<Rightarrow> 'a to_string \<Rightarrow> 'a \<Rightarrow> 'y option \<Rightarrow> 'y option" where
  "push_element Y cast v node =
    Option.bind node (\<lambda>n. Option.bind (cast v) (\<lambda>s. map_option (y_push_back Y n) (y_Load Y s)))"

definition vector_to_string :: "'y yaml \<Rightarrow> 'a to_string \<Rightarrow> 'a list to_string" where
  "vector_to_string Y cast val = map_option (y_text Y) (fold (push_element Y cast) val (Some (y_Node Y)))"

definition list_of_string :: "'y yaml \<Rightarrow> 'a from_string \<Rightarrow> 'a list from_string" where
  "list_of_string Y cast val = Option.bind (y_Load Y val) (cast_elements Y cast)"

definition list_to_string :: "'y yaml \<Rightarrow> 'a to_string \<Rightarrow> 'a list to_string" where
  "list_to_string Y cast val = map_option (y_text Y) (fold (push_element Y cast) val (Some (y_Node Y)))"

text \<open>A \<^verbatim>\<open>std::set\<close> is the list of its elements in its order \<open>lt\<close>.\<close>

definition set_of_string :: "('a \<Rightarrow> 'a \<Rightarrow> bool) \<Rightarrow> 'y yaml \<Rightarrow> 'a from_string \<Rightarrow> 'a list from_string" where
  "set_of_string lt Y cast val =
    map_option (\<lambda>xs. fold (set_insert lt) xs []) (Option.bind (y_Load Y val) (cast_elements Y cast))"

definition set_to_string :: "'y yaml \<Rightarrow> 'a to_string \<Rightarrow> 'a list to_string" where
  "set_to_string Y cast val = map_option (y_text Y) (fold (push_element Y cast) val (Some (y_Node Y)))"

text \<open>An unordered container lists its elements in an order of its own, \<open>elems\<close>.\<close>

definition unordered_set_of_string :: "'y yaml \<Rightarrow> 'a from_string \<Rightarrow> 'a set from_string" where
  "unordered_set_of_string Y cast val =
    map_option (\<lambda>xs. fold insert xs {}) (Option.bind (y_Load Y val) (cast_elements Y cast))"

definition unordered_set_to_string :: "('a set \<Rightarrow> 'a list) \<Rightarrow> 'y yaml \<Rightarrow> 'a to_string \<Rightarrow> 'a set to_string" where
  "unordered_set_to_string elems Y cast val =
    map_option (y_text Y) (fold (push_element Y cast) (elems val) (Some (y_Node Y)))"

definition cast_entries :: "'y yaml \<Rightarrow> 'a from_string \<Rightarrow> 'y \<Rightarrow> (string \<times> 'a) list option" where
  "cast_entries Y cast node =
    those (map (\<lambda>(k, v). map_option (Pair (y_Scalar Y k)) (cast (y_text Y v))) (y_entries Y node))"

definition map_of_string :: "'y yaml \<Rightarrow> 'a from_string \<Rightarrow> (string \<times> 'a) list from_string" where
  "map_of_string Y cast val =
    map_option (\<lambda>es. fold (\<lambda>(k, v). map_add_new string_less k v) es [])
      (Option.bind (y_Load Y val) (cast_entries Y cast))"

definition put_entry :: "'y yaml \<Rightarrow> 'a to_string \<Rightarrow> string \<times> 'a \<Rightarrow> 'y option \<Rightarrow> 'y option" where
  "put_entry Y cast e node =
    (case e of (k, v) \<Rightarrow>
       Option.bind node (\<lambda>n. Option.bind (cast v) (\<lambda>s. map_option (y_put Y n k) (y_Load Y s))))"

definition map_to_string :: "'y yaml \<Rightarrow> 'a to_string \<Rightarrow> (string \<times> 'a) list to_string" where
  "map_to_string Y cast val = map_option (y_text Y) (fold (put_entry Y cast) val (Some (y_Node Y)))"

definition unordered_map_of_string :: "'y yaml \<Rightarrow> 'a from_string \<Rightarrow> (string \<Rightarrow> 'a option) from_string" where
  "unordered_map_of_string Y cast val =
    map_option (\<lambda>es. fold (\<lambda>(k, v) m. if m k = None then m(k \<mapsto> v) else m) es Map.empty)
      (Option.bind (y_Load Y val) (cast_entries Y cast))"

definition unordered_map_to_string ::
  "((string \<Rightarrow> 'a option) \<Rightarrow> (string \<times> 'a) list) \<Rightarrow> 'y yaml \<Rightarrow> 'a to_string \<Rightarrow> (string \<Rightarrow> 'a option) to_string" where
  "unordered_map_to_string elems Y cast val =
    map_option (y_text Y) (fold (put_entry Y cast) (elems val) (Some (y_Node Y)))"

section \<open>Variables\<close>

text \<open>A listener is told the old and the new value; it may throw, which is the first component \<open>True\<close>.\<close>

type_synonym ('v, 'w) on_change = "'v \<Rightarrow> 'v \<Rightarrow> 'w \<Rightarrow> bool \<times> 'w"

record 'v var_type =
  ty_name :: string
  ty_eq :: "'v \<Rightarrow> 'v \<Rightarrow> bool"
  ty_from :: "'v from_string"
  ty_to :: "'v to_string"

record ('v, 'w) ConfigVar =
  cv_name :: string
  cv_description :: string
  cv_type :: "'v var_type"
  cv_val :: 'v
  cv_cbs :: "(u64 \<times> ('v, 'w) on_change) list"

definition new_ConfigVar :: "'v var_type \<Rightarrow> string \<Rightarrow> 'v \<Rightarrow> string \<Rightarrow> ('v, 'w) ConfigVar" where
  "new_ConfigVar ty name default_value description =
    \<lparr>cv_name = map tolower name, cv_description = description, cv_type = ty, cv_val = default_value, cv_cbs = []\<rparr>"

definition var_toString :: "('v, 'w) ConfigVar \<Rightarrow> string" where
  "var_toString v = (case ty_to (cv_type v) (cv_val v) of Some s \<Rightarrow> s | None \<Rightarrow> [])"

primrec run_listeners ::
  "(u64 \<times> ('v, 'w) on_change) list \<Rightarrow> 'v \<Rightarrow> 'v \<Rightarrow> 'w \<Rightarrow> bool \<times> 'w" where
  "run_listeners [] old new w = (False, w)"
| "run_listeners (cb # cbs) old new w =
    (case snd cb old new w of (threw, w') \<Rightarrow> if threw then (True, w') else run_listeners cbs old new w')"

definition setValue :: "'v \<Rightarrow> ('v, 'w) ConfigVar \<Rightarrow> 'w \<Rightarrow> bool \<times> ('v, 'w) ConfigVar \<times> 'w" where
  "setValue val v w =
    (if ty_eq (cv_type v) val (cv_val v) then (False, v, w)
     else case run_listeners (cv_cbs v) (cv_val v) val w of (threw, w') \<Rightarrow>
       if threw then (True, v, w') else (False, v\<lparr>cv_val := val\<rparr>, w'))"

text \<open>The boolean is what \<^verbatim>\<open>fromString\<close> returns.\<close>

definition fromString :: "string \<Rightarrow> ('v, 'w) ConfigVar \<Rightarrow> 'w \<Rightarrow> bool \<times> ('v, 'w) ConfigVar \<times> 'w" where
  "fromString val v w =
    (case ty_from (cv_type v) val of
       None \<Rightarrow> (False, v, w)
     | Some x \<Rightarrow> (case setValue x v w of (_, v', w') \<Rightarrow> (False, v', w')))"

text \<open>\<^verbatim>\<open>s_fun_id\<close>, shared by the variables of one type, is the first component.\<close>

definition addListener ::
  "('v, 'w) on_change \<Rightarrow> u64 \<Rightarrow> ('v, 'w) ConfigVar \<Rightarrow> u64 \<times> ('v, 'w) ConfigVar" where
  "addListener cb s_fun_id v = (s_fun_id + 1, v\<lparr>cv_cbs := map_put (<) (s_fun_id + 1) cb (cv_cbs v)\<rparr>)"

definition clearListener :: "('v, 'w) ConfigVar \<Rightarrow> ('v, 'w) ConfigVar" where
  "clearListener v = v\<lparr>cv_cbs := []\<rparr>"

section \<open>The registry\<close>

type_synonym ('v, 'w) datas = "(string \<times> ('v, 'w) ConfigVar) list"

definition name_chars :: string where
  "name_chars = ''abcdefghikjlmnopqrstuvwxyz._012345678''"

definition valid_name :: "string \<Rightarrow> bool" where
  "valid_name name \<longleftrightarrow> list_all (\<lambda>c. c \<in> set name_chars) name"

text \<open>A pointer to a variable is its key in the registry, from which nothing is removed.\<close>

datatype lookup_result = Found string | Null | Invalid_name

definition Lookup ::
  "'v var_type \<Rightarrow> string \<Rightarrow> 'v \<Rightarrow> string \<Rightarrow> ('v, 'w) datas \<Rightarrow> lookup_result \<times> ('v, 'w) datas" where
  "Lookup ty name default_value description D =
    (case map_of D name of
       Some v \<Rightarrow> (if ty_name (cv_type v) = ty_name ty then Found name else Null, D)
     | None \<Rightarrow>
         if \<not> valid_name name then (Invalid_name, D)
         else (Found name, map_put string_less name (new_ConfigVar ty name default_value description) D))"

definition Lookup_existing :: "'v var_type \<Rightarrow> string \<Rightarrow> ('v, 'w) datas \<Rightarrow> lookup_result" where
  "Lookup_existing ty name D =
    (case map_of D name of
       None \<Rightarrow> Null
     | Some v \<Rightarrow> if ty_name (cv_type v) = ty_name ty then Found name else Null)"

definition LookupBase :: "string \<Rightarrow> ('v, 'w) datas \<Rightarrow> ('v, 'w) ConfigVar option" where
  "LookupBase name D = map_of D name"

definition Visit :: "(('v, 'w) ConfigVar \<Rightarrow> 'w \<Rightarrow> 'w) \<Rightarrow> ('v, 'w) datas \<Rightarrow> 'w \<Rightarrow> 'w" where
  "Visit cb D w = fold (\<lambda>(_, v). cb v) D w"

section \<open>Loading a document\<close>

text \<open>\<open>None\<close>: the document is deeper than the fuel.\<close>

primrec ListAllMember ::
  "nat \<Rightarrow> 'y yaml \<Rightarrow> string \<Rightarrow> 'y \<Rightarrow> (string \<times> 'y) list \<Rightarrow> (string \<times> 'y) list option" where
  "ListAllMember 0 Y prefix node output = None"
| "ListAllMember (Suc n) Y prefix node output =
    (if \<not> valid_name prefix then Some output
     else
       let output1 = output @ [(prefix, node)] in
       if y_IsMap Y node then
         fold (\<lambda>(k, v) out. Option.bind out (ListAllMember n Y
             (if prefix = [] then y_Scalar Y k else prefix @ ''.'' @ y_Scalar Y k) v))
           (y_entries Y node) (Some output1)
       else Some output1)"

definition load_one :: "'y yaml \<Rightarrow> string \<times> 'y \<Rightarrow> ('v, 'w) datas \<times> 'w \<Rightarrow> ('v, 'w) datas \<times> 'w" where
  "load_one Y e acc =
    (case e of (name, node) \<Rightarrow> case acc of (D, w) \<Rightarrow>
       if name = [] then (D, w)
       else
         let key = map tolower name in
         (case LookupBase key D of
            None \<Rightarrow> (D, w)
          | Some v \<Rightarrow>
              (case fromString (if y_IsScalar Y node then y_Scalar Y node else y_text Y node) v w of
                 (_, v', w') \<Rightarrow> (map_put string_less key v' D, w'))))"

definition LoadFromYaml ::
  "nat \<Rightarrow> 'y yaml \<Rightarrow> 'y \<Rightarrow> ('v, 'w) datas \<Rightarrow> 'w \<Rightarrow> (('v, 'w) datas \<times> 'w) option" where
  "LoadFromYaml fuel Y root D w =
    map_option (\<lambda>all_nodes. fold (load_one Y) all_nodes (D, w)) (ListAllMember fuel Y [] root [])"

section \<open>Listeners\<close>

text \<open>A listener that records what it is told, and throws if it is one of \<open>bad\<close>.\<close>

definition recording :: "u64 set \<Rightarrow> u64 \<Rightarrow> ('v, (u64 \<times> 'v \<times> 'v) list) on_change" where
  "recording bad k old new tr = (k \<in> bad, tr @ [(k, old, new)])"

definition called :: "u64 set \<Rightarrow> u64 list \<Rightarrow> u64 list" where
  "called bad ids = takeWhile (\<lambda>k. k \<notin> bad) ids @ take 1 (dropWhile (\<lambda>k. k \<notin> bad) ids)"

lemma run_recording:
  "run_listeners (map (\<lambda>k. (k, recording bad k)) ids) old new tr =
    (\<not> set ids \<subseteq> - bad, tr @ map (\<lambda>k. (k, old, new)) (called bad ids))"
  by (induction ids arbitrary: tr) (auto simp: recording_def called_def)

text \<open>
  Setting a variable to a different value tells its listeners the old and the new value, once each and in
  the order they were added, before the value changes; a listener that throws ends this, the listeners behind it are
  not told and the value stays.  Setting an equal value does nothing.  Setting from text does the same with the
  converted value but reports failure in any case.
\<close>

theorem setValue_notifies:
  assumes "cv_cbs v = map (\<lambda>k. (k, recording bad k)) ids"
  shows "setValue val v tr =
      (if ty_eq (cv_type v) val (cv_val v) then (False, v, tr)
       else (\<not> set ids \<subseteq> - bad, if set ids \<subseteq> - bad then v\<lparr>cv_val := val\<rparr> else v,
             tr @ map (\<lambda>k. (k, cv_val v, val)) (called bad ids))) \<and>
    fromString s v tr =
      (case ty_from (cv_type v) s of None \<Rightarrow> (False, v, tr) | Some x \<Rightarrow> (False, snd (setValue x v tr)))"
  by (auto simp: setValue_def fromString_def assms run_recording split: option.split prod.split)

definition nat_type :: "nat var_type" where
  "nat_type = \<lparr>ty_name = ''j'', ty_eq = (=), ty_from = (\<lambda>s. if s = ''1'' then Some 1 else None), ty_to = (\<lambda>n. Some (dec n))\<rparr>"

theorem setValue_notifies_witness:
  "setValue 1 ((new_ConfigVar nat_type ''A'' 0 [])\<lparr>cv_cbs := [(1, recording {2} 1), (2, recording {2} 2), (3, recording {2} 3)]\<rparr>) [] =
    (True, (new_ConfigVar nat_type ''A'' 0 [])\<lparr>cv_cbs := [(1, recording {2} 1), (2, recording {2} 2), (3, recording {2} 3)]\<rparr>,
     [(1, 0, 1), (2, 0, 1)])"
  using setValue_notifies [of "(new_ConfigVar nat_type ''A'' 0 [])\<lparr>cv_cbs := [(1, recording {2} 1), (2, recording {2} 2), (3, recording {2} 3)]\<rparr>"
      "{2}" "[1, 2, 3]" 1 "[]"]
  by (simp add: new_ConfigVar_def nat_type_def called_def)

section \<open>The registry\<close>

definition config_ok :: "('v, 'w) datas \<Rightarrow> bool" where
  "config_ok D \<longleftrightarrow> map_sorted string_less D \<and>
    (\<forall>k v. map_of D k = Some v \<longrightarrow> valid_name k \<and> cv_name v = k \<and> map_sorted (<) (cv_cbs v))"

text \<open>Every registry a program can have.\<close>

inductive config_reachable :: "'y yaml \<Rightarrow> ('v, 'w) datas \<Rightarrow> bool" for Y where
  Empty: "config_reachable Y []"
| Look: "config_reachable Y D \<Longrightarrow> Lookup ty name d desc D = (r, D') \<Longrightarrow> config_reachable Y D'"
| Set: "config_reachable Y D \<Longrightarrow> map_of D k = Some v \<Longrightarrow> setValue x v w = (t, v', w') \<Longrightarrow>
    config_reachable Y (map_put string_less k v' D)"
| Listen: "config_reachable Y D \<Longrightarrow> map_of D k = Some v \<Longrightarrow> addListener cb n v = (i, v') \<Longrightarrow>
    config_reachable Y (map_put string_less k v' D)"
| Clear: "config_reachable Y D \<Longrightarrow> map_of D k = Some v \<Longrightarrow> config_reachable Y (map_put string_less k (clearListener v) D)"
| Load: "config_reachable Y D \<Longrightarrow> LoadFromYaml fuel Y root D w = Some (D', w') \<Longrightarrow> config_reachable Y D'"

lemma valid_name_lower: "valid_name name \<Longrightarrow> map tolower name = name"
proof -
  have "\<forall>c \<in> set name_chars. tolower c = c" by (simp add: name_chars_def tolower_def cval_def)
  then show "valid_name name \<Longrightarrow> map tolower name = name"
    by (simp add: valid_name_def list_all_iff map_idI)
qed

lemma setValue_keeps:
  "setValue x v w = (t, v', w') \<Longrightarrow> v' = v\<lparr>cv_val := cv_val v'\<rparr>"
  by (auto simp: setValue_def split: if_split_asm prod.split_asm)

lemma fromString_keeps:
  "fromString s v w = (t, v', w') \<Longrightarrow> v' = v\<lparr>cv_val := cv_val v'\<rparr>"
  by (auto simp: fromString_def split: option.split_asm prod.split_asm dest: setValue_keeps)

lemma config_ok_put:
  assumes "config_ok D" "valid_name k" "cv_name v = k" "map_sorted (<) (cv_cbs v)"
  shows "config_ok (map_put string_less k v D)"
  using assms by (simp add: config_ok_def string_map.map_put_sorted string_map.map_of_put)

lemma config_ok_put_val:
  assumes "config_ok D" "map_of D k = Some v" "v' = v\<lparr>cv_val := cv_val v'\<rparr>"
  shows "config_ok (map_put string_less k v' D)"
proof -
  have "cv_name v' = cv_name v" "cv_cbs v' = cv_cbs v" by (subst assms(3), simp)+
  then show ?thesis using assms(1,2) by (intro config_ok_put) (auto simp: config_ok_def)
qed

lemma load_one_ok: "config_ok D \<Longrightarrow> load_one Y e (D, w) = (D', w') \<Longrightarrow> config_ok D'"
  by (auto simp: load_one_def LookupBase_def Let_def intro: config_ok_put_val dest!: fromString_keeps
      split: prod.split_asm if_split_asm option.split_asm)

lemma load_all_ok: "config_ok D \<Longrightarrow> fold (load_one Y) es (D, w) = (D', w') \<Longrightarrow> config_ok D'"
proof (induction es arbitrary: D w)
  case (Cons e es)
  obtain D1 w1 where e: "load_one Y e (D, w) = (D1, w1)" by fastforce
  with Cons show ?case using load_one_ok [OF Cons.prems(1) e] by simp
qed simp

lemma Lookup_ok:
  assumes "config_ok D" "Lookup ty name d desc D = (r, D')"
  shows "config_ok D'"
  using assms
  by (auto simp: Lookup_def new_ConfigVar_def valid_name_lower map_sorted_def intro!: config_ok_put
      split: option.split_asm if_split_asm)

lemma config_reachable_ok: "config_reachable Y D \<Longrightarrow> config_ok D"
proof (induction rule: config_reachable.induct)
  case Empty
  then show ?case by (simp add: config_ok_def map_sorted_def)
next
  case (Look D ty name d desc r D')
  show ?case by (rule Lookup_ok [OF Look.IH Look.hyps(2)])
next
  case (Set D k v x w t v' w')
  show ?case by (rule config_ok_put_val [OF Set.IH Set.hyps(2) setValue_keeps [OF Set.hyps(3)]])
next
  case (Listen D k v cb n i v')
  then show ?case
    by (intro config_ok_put) (auto simp: addListener_def config_ok_def id_map.map_put_sorted)
next
  case (Clear D k v)
  then show ?case by (intro config_ok_put) (auto simp: clearListener_def config_ok_def map_sorted_def)
next
  case (Load D fuel root w D' w')
  then show ?case by (auto simp: LoadFromYaml_def intro: load_all_ok)
qed

text \<open>
  C37. The registry has one variable per name, under its own name in lower case, and listeners in the order of
  their numbers.  \<^verbatim>\<open>Lookup\<close> never changes a variable that is there: it finds it if it has the type asked for and gives
  null if not; a new name makes a new variable and leaves the others alone, unless a character of it is not
  allowed, as the digit 9 is not.
\<close>

theorem registry_invariant:
  assumes "config_reachable Y D"
  shows "map_sorted string_less D \<and>
    (\<forall>k v. map_of D k = Some v \<longrightarrow> valid_name k \<and> CHR ''9'' \<notin> set k \<and> cv_name v = k \<and> map_sorted (<) (cv_cbs v)) \<and>
    (case Lookup ty name d desc D of
       (Found n, D') \<Rightarrow> n = name \<and> (\<exists>v. map_of D' name = Some v \<and> ty_name (cv_type v) = ty_name ty) \<and>
         (map_of D name \<noteq> None \<longrightarrow> D' = D) \<and> (\<forall>k. k \<noteq> name \<longrightarrow> map_of D' k = map_of D k)
     | (Null, D') \<Rightarrow> D' = D \<and> (\<exists>v. map_of D name = Some v \<and> ty_name (cv_type v) \<noteq> ty_name ty)
     | (Invalid_name, D') \<Rightarrow> D' = D \<and> map_of D name = None \<and> \<not> valid_name name)"
proof (intro conjI)
  note ok = config_reachable_ok [OF assms]
  show sorted: "map_sorted string_less D" using ok by (simp add: config_ok_def)
  have "CHR ''9'' \<notin> set name_chars" by (simp add: name_chars_def)
  then have "CHR ''9'' \<notin> set k" if "valid_name k" for k
    using that by (auto simp: valid_name_def list_all_iff)
  then show "\<forall>k v. map_of D k = Some v \<longrightarrow> valid_name k \<and> CHR ''9'' \<notin> set k \<and> cv_name v = k \<and> map_sorted (<) (cv_cbs v)"
    using ok by (simp add: config_ok_def)
  show "case Lookup ty name d desc D of
       (Found n, D') \<Rightarrow> n = name \<and> (\<exists>v. map_of D' name = Some v \<and> ty_name (cv_type v) = ty_name ty) \<and>
         (map_of D name \<noteq> None \<longrightarrow> D' = D) \<and> (\<forall>k. k \<noteq> name \<longrightarrow> map_of D' k = map_of D k)
     | (Null, D') \<Rightarrow> D' = D \<and> (\<exists>v. map_of D name = Some v \<and> ty_name (cv_type v) \<noteq> ty_name ty)
     | (Invalid_name, D') \<Rightarrow> D' = D \<and> map_of D name = None \<and> \<not> valid_name name"
  proof (cases "map_of D name")
    case None
    then show ?thesis
      by (cases "valid_name name") (simp_all add: Lookup_def new_ConfigVar_def string_map.map_of_put [OF sorted])
  next
    case (Some v)
    then show ?thesis by (cases "ty_name (cv_type v) = ty_name ty") (simp_all add: Lookup_def)
  qed
qed

theorem registry_invariant_witness:
  "case Lookup nat_type ''log9'' 0 [] [(''a'', new_ConfigVar nat_type ''a'' 0 [] :: (nat, unit) ConfigVar)] of
     (Invalid_name, D') \<Rightarrow> D' = [(''a'', new_ConfigVar nat_type ''a'' 0 [])] \<and> \<not> valid_name ''log9'' | _ \<Rightarrow> False"
proof -
  let ?D = "[(''a'', new_ConfigVar nat_type ''a'' 0 [] :: (nat, unit) ConfigVar)]"
  have "valid_name ''a''" by code_simp
  then have "Lookup nat_type ''a'' 0 [] [] = (Found ''a'', ?D)" by (simp add: Lookup_def)
  then have r: "config_reachable undefined ?D" by (rule config_reachable.Look [OF config_reachable.Empty])
  have "\<not> valid_name ''log9''" by code_simp
  then have "fst (Lookup nat_type ''log9'' 0 [] ?D) = Invalid_name" by (simp add: Lookup_def)
  with registry_invariant [OF r, where ty = nat_type and name = "''log9''" and d = 0 and desc = "[]"] show ?thesis
    by (cases "Lookup nat_type ''log9'' 0 [] ?D") simp
qed

section \<open>Loading a document sets what it names\<close>

text \<open>The paths of a document: the keys on the way joined with dots, as long as they are valid names.\<close>

definition join_path :: "string \<Rightarrow> string \<Rightarrow> string" where
  "join_path p k = (if p = [] then k else p @ ''.'' @ k)"

inductive yaml_at :: "'y yaml \<Rightarrow> string \<Rightarrow> 'y \<Rightarrow> string \<Rightarrow> 'y \<Rightarrow> bool" for Y where
  Here: "valid_name p \<Longrightarrow> yaml_at Y p node p node"
| Below: "valid_name p \<Longrightarrow> y_IsMap Y node \<Longrightarrow> (k, v) \<in> set (y_entries Y node) \<Longrightarrow>
    yaml_at Y (join_path p (y_Scalar Y k)) v q n \<Longrightarrow> yaml_at Y p node q n"

text \<open>The nodes on these paths, a map before its entries and the entries in their order.\<close>

inductive yaml_walk :: "'y yaml \<Rightarrow> string \<Rightarrow> 'y \<Rightarrow> (string \<times> 'y) list \<Rightarrow> bool"
  and yaml_walks :: "'y yaml \<Rightarrow> string \<Rightarrow> ('y \<times> 'y) list \<Rightarrow> (string \<times> 'y) list \<Rightarrow> bool" for Y where
  Invalid: "\<not> valid_name p \<Longrightarrow> yaml_walk Y p node []"
| Leaf: "valid_name p \<Longrightarrow> \<not> y_IsMap Y node \<Longrightarrow> yaml_walk Y p node [(p, node)]"
| Branch: "valid_name p \<Longrightarrow> y_IsMap Y node \<Longrightarrow> yaml_walks Y p (y_entries Y node) xs \<Longrightarrow>
    yaml_walk Y p node ((p, node) # xs)"
| No_entry: "yaml_walks Y p [] []"
| Entry: "yaml_walk Y (join_path p (y_Scalar Y k)) v xs \<Longrightarrow> yaml_walks Y p es ys \<Longrightarrow> yaml_walks Y p ((k, v) # es) (xs @ ys)"

lemma yaml_walk_at:
  "(yaml_walk Y p node xs \<longrightarrow> (\<forall>q n. (q, n) \<in> set xs \<longleftrightarrow> yaml_at Y p node q n)) \<and>
   (yaml_walks Y p es ys \<longrightarrow> (\<forall>q n. (q, n) \<in> set ys \<longleftrightarrow> (\<exists>(k, v) \<in> set es. yaml_at Y (join_path p (y_Scalar Y k)) v q n)))"
proof (rule yaml_walk_yaml_walks.induct)
  show "\<forall>q n. (q, n) \<in> set [] \<longleftrightarrow> yaml_at Y p node q n" if "\<not> valid_name p" for p node
    using that by (subst yaml_at.simps) auto
  show "\<forall>q n. (q, n) \<in> set [(p, node)] \<longleftrightarrow> yaml_at Y p node q n" if "valid_name p" "\<not> y_IsMap Y node" for p node
    using that by (subst yaml_at.simps) auto
  show "\<forall>q n. (q, n) \<in> set ((p, node) # xs) \<longleftrightarrow> yaml_at Y p node q n" if "valid_name p" "y_IsMap Y node"
    "\<forall>q n. (q, n) \<in> set xs \<longleftrightarrow> (\<exists>(k, v) \<in> set (y_entries Y node). yaml_at Y (join_path p (y_Scalar Y k)) v q n)"
    for p node xs
    using that by (subst yaml_at.simps) auto
qed auto

lemma walk_entries:
  assumes "\<And>k v out. (k, v) \<in> set es \<Longrightarrow>
    \<exists>ys. F k v out = Some (out @ ys) \<and> yaml_walk Y (join_path p (y_Scalar Y k)) v ys"
  shows "\<exists>ys. fold (\<lambda>(k, v) out. Option.bind out (F k v)) es (Some out) = Some (out @ ys) \<and> yaml_walks Y p es ys"
  using assms
proof (induction es arbitrary: out)
  case (Cons e es)
  obtain k v where e: "e = (k, v)" by fastforce
  obtain ys where ys: "F k v out = Some (out @ ys)" "yaml_walk Y (join_path p (y_Scalar Y k)) v ys"
    using Cons.prems [of k v out] e by auto
  have "\<exists>zs. fold (\<lambda>(k, v) out. Option.bind out (F k v)) es (Some (out @ ys)) = Some ((out @ ys) @ zs) \<and> yaml_walks Y p es zs"
    by (rule Cons.IH) (simp add: Cons.prems)
  then obtain zs where "fold (\<lambda>(k, v) out. Option.bind out (F k v)) es (Some (out @ ys)) = Some ((out @ ys) @ zs)"
    "yaml_walks Y p es zs"
    by blast
  with ys e show ?case by (intro exI [of _ "ys @ zs"]) (auto intro: yaml_walk_yaml_walks.Entry)
qed (auto intro: yaml_walk_yaml_walks.No_entry)

lemma ListAllMember_exact:
  assumes "\<And>node k v. (k, v) \<in> set (y_entries Y node) \<Longrightarrow> rank v < rank node"
  shows "rank node < fuel \<Longrightarrow> \<exists>ys. ListAllMember fuel Y p node out = Some (out @ ys) \<and> yaml_walk Y p node ys"
proof (induction fuel arbitrary: p node out)
  case (Suc fuel)
  show ?case
  proof (cases "valid_name p \<and> y_IsMap Y node")
    case False
    then show ?thesis by (auto intro: yaml_walk_yaml_walks.Invalid yaml_walk_yaml_walks.Leaf)
  next
    case True
    let ?F = "\<lambda>k. ListAllMember fuel Y (join_path p (y_Scalar Y k))"
    have "\<exists>ys. fold (\<lambda>(k, v) out. Option.bind out (?F k v)) (y_entries Y node) (Some (out @ [(p, node)])) =
        Some ((out @ [(p, node)]) @ ys) \<and> yaml_walks Y p (y_entries Y node) ys"
      by (rule walk_entries) (use assms Suc in fastforce)
    then obtain ys where "fold (\<lambda>(k, v) out. Option.bind out (?F k v)) (y_entries Y node) (Some (out @ [(p, node)])) =
        Some ((out @ [(p, node)]) @ ys)" "yaml_walks Y p (y_entries Y node) ys"
      by blast
    with True show ?thesis
      by (intro exI [of _ "(p, node) # ys"]) (auto simp: join_path_def intro: yaml_walk_yaml_walks.Branch)
  qed
qed simp

text \<open>
  What one text makes of a variable, and the texts a list of nodes has for a name.  Nothing is assigned when the text
  cannot be converted, when its value is the one there is, or when a listener throws.
\<close>

definition refused :: "'w \<Rightarrow> 'v \<Rightarrow> ('v, 'w) ConfigVar \<Rightarrow> bool" where
  "refused w x v \<longleftrightarrow> (\<exists>(i, cb) \<in> set (cv_cbs v). fst (cb (cv_val v) x w))"

definition assigned :: "'w \<Rightarrow> string \<Rightarrow> ('v, 'w) ConfigVar \<Rightarrow> ('v, 'w) ConfigVar" where
  "assigned w s v =
    (case ty_from (cv_type v) s of
       None \<Rightarrow> v
     | Some x \<Rightarrow> if ty_eq (cv_type v) x (cv_val v) \<or> refused w x v then v else v\<lparr>cv_val := x\<rparr>)"

definition node_text :: "'y yaml \<Rightarrow> 'y \<Rightarrow> string" where
  "node_text Y node = (if y_IsScalar Y node then y_Scalar Y node else y_text Y node)"

definition texts :: "'y yaml \<Rightarrow> string \<Rightarrow> (string \<times> 'y) list \<Rightarrow> string list" where
  "texts Y k es = map (\<lambda>(_, node). node_text Y node) (filter (\<lambda>(name, _). name \<noteq> [] \<and> map tolower name = k) es)"

text \<open>Whether a listener throws depends on the two values only.\<close>

definition steady :: "('v, 'w) datas \<Rightarrow> bool" where
  "steady D \<longleftrightarrow> (\<forall>k v i cb old new w w'. map_of D k = Some v \<and> (i, cb) \<in> set (cv_cbs v) \<longrightarrow>
     fst (cb old new w) = fst (cb old new w'))"

lemma steady_listeners:
  "(\<forall>i cb old new w w'. (i, cb) \<in> set cbs \<longrightarrow> fst (cb old new w) = fst (cb old new w')) \<Longrightarrow>
    fst (run_listeners cbs old new w) = (\<exists>(i, cb) \<in> set cbs. fst (cb old new w0))"
proof (induction cbs arbitrary: w)
  case (Cons c cbs)
  obtain i cb where c: "c = (i, cb)" by fastforce
  obtain b w1 where r: "cb old new w = (b, w1)" by fastforce
  have "fst (cb old new w) = fst (cb old new w0)" using Cons.prems c by auto
  then have b: "b = fst (cb old new w0)" by (simp add: r)
  have "fst (run_listeners cbs old new w1) = (\<exists>(i, cb) \<in> set cbs. fst (cb old new w0))"
    by (rule Cons.IH) (use Cons.prems in auto)
  then show ?case by (auto simp: c r b)
qed simp

lemma steady_fromString:
  assumes "\<forall>i cb old new w w'. (i, cb) \<in> set (cv_cbs v) \<longrightarrow> fst (cb old new w) = fst (cb old new w')"
  shows "\<exists>w'. fromString s v w = (False, assigned w0 s v, w')"
proof -
  have r: "\<exists>w'. run_listeners (cv_cbs v) (cv_val v) x w = (refused w0 x v, w')" for x
    using steady_listeners [OF assms, of "cv_val v" x w w0]
    by (cases "run_listeners (cv_cbs v) (cv_val v) x w") (auto simp: refused_def)
  show ?thesis
  proof (cases "ty_from (cv_type v) s")
    case (Some x)
    obtain w' where "run_listeners (cv_cbs v) (cv_val v) x w = (refused w0 x v, w')" using r by blast
    with Some show ?thesis by (simp add: fromString_def setValue_def assigned_def)
  qed (simp add: fromString_def assigned_def)
qed

lemma assigned_cbs [simp]: "cv_cbs (assigned w s v) = cv_cbs v"
  by (simp add: assigned_def split: option.split)

lemma load_one_exact:
  assumes "map_sorted string_less D" "steady D"
  shows "\<exists>D' w'. load_one Y e (D, w) = (D', w') \<and> map_sorted string_less D' \<and> steady D' \<and>
    (\<forall>k. map_of D' k = map_option (fold (assigned w0) (texts Y k [e])) (map_of D k))"
proof -
  obtain name node where e: "e = (name, node)" by fastforce
  show ?thesis
  proof (cases "name = [] \<or> map_of D (map tolower name) = None")
    case True
    then have t: "texts Y k [e] = [] \<or> map_of D k = None" for k by (auto simp: texts_def e)
    have "map_of D k = map_option (fold (assigned w0) (texts Y k [e])) (map_of D k)" for k
      using t [of k] by (cases "map_of D k") auto
    with True assms show ?thesis by (auto simp: load_one_def e LookupBase_def Let_def)
  next
    case False
    then obtain v where v: "name \<noteq> []" "map_of D (map tolower name) = Some v" by auto
    obtain w' where f: "fromString (node_text Y node) v w = (False, assigned w0 (node_text Y node) v, w')"
      using steady_fromString [of v "node_text Y node" w w0] assms(2) v(2) unfolding steady_def by blast
    let ?D = "map_put string_less (map tolower name) (assigned w0 (node_text Y node) v) D"
    have put: "map_of ?D = (map_of D)(map tolower name \<mapsto> assigned w0 (node_text Y node) v)"
      using assms(1) by (rule string_map.map_of_put)
    have "load_one Y e (D, w) = (?D, w')"
      using v f by (simp add: load_one_def e LookupBase_def Let_def node_text_def)
    moreover have "map_sorted string_less ?D" using assms(1) by (rule string_map.map_put_sorted)
    moreover have "steady ?D"
      unfolding steady_def put
    proof (intro allI impI)
      fix k u i cb old new w w'
      assume a: "((map_of D)(map tolower name \<mapsto> assigned w0 (node_text Y node) v)) k = Some u \<and> (i, cb) \<in> set (cv_cbs u)"
      then have "\<exists>u'. map_of D k = Some u' \<and> cv_cbs u = cv_cbs u'" using v(2) by (auto split: if_split_asm)
      then show "fst (cb old new w) = fst (cb old new w')" using assms(2) a unfolding steady_def by metis
    qed
    moreover have "map_of ?D k = map_option (fold (assigned w0) (texts Y k [e])) (map_of D k)" for k
      using v by (cases "k = map tolower name") (simp_all add: put texts_def e option.map_id)
    ultimately show ?thesis by blast
  qed
qed

lemma load_all_exact:
  assumes "map_sorted string_less D" "steady D"
  shows "\<exists>D' w'. fold (load_one Y) es (D, w) = (D', w') \<and>
    (\<forall>k. map_of D' k = map_option (fold (assigned w0) (texts Y k es)) (map_of D k))"
  using assms
proof (induction es arbitrary: D w)
  case Nil
  then show ?case by (simp add: texts_def option.map_ident)
next
  case (Cons e es)
  obtain D1 w1 where one: "load_one Y e (D, w) = (D1, w1)" "map_sorted string_less D1" "steady D1"
    "\<forall>k. map_of D1 k = map_option (fold (assigned w0) (texts Y k [e])) (map_of D k)"
    using load_one_exact [OF Cons.prems, of Y e w] by blast
  obtain D2 w2 where rest: "fold (load_one Y) es (D1, w1) = (D2, w2)"
    "\<forall>k. map_of D2 k = map_option (fold (assigned w0) (texts Y k es)) (map_of D1 k)"
    using Cons.IH [OF one(2,3), of w1] by blast
  have "texts Y k (e # es) = texts Y k [e] @ texts Y k es" for k by (simp add: texts_def)
  then have "map_of D2 k = map_option (fold (assigned w0) (texts Y k (e # es))) (map_of D k)" for k
    using one(4) rest(2) by (simp add: option.map_comp comp_def)
  with one(1) rest(1) show ?case by simp
qed

text \<open>
  C17. Loading a document ends, for every document without cycles (one whose nodes have a rank that falls from a map to
  its values), with fuel for its depth.  It looks at the nodes on a path of valid names, a map before its
  entries and these in the order of the document.  Every variable is assigned the texts of those nodes whose path is
  its name, in this order, leaving out those that cannot be converted and those that a listener refuses by
  throwing; and no other variable changes.  This is for listeners that throw or not depending on the two values
  alone, of variables in an ordered registry.
\<close>

theorem load_exact:
  assumes "\<And>node k v. (k, v) \<in> set (y_entries Y node) \<Longrightarrow> rank v < rank node" "rank root < fuel"
    and "map_sorted string_less D" "steady D"
  shows "\<exists>nodes D' w'. yaml_walk Y [] root nodes \<and> (\<forall>q n. (q, n) \<in> set nodes \<longleftrightarrow> yaml_at Y [] root q n) \<and>
    LoadFromYaml fuel Y root D w = Some (D', w') \<and>
    (\<forall>k. map_of D' k = map_option (fold (assigned w) (texts Y k nodes)) (map_of D k))"
proof -
  obtain nodes where n: "ListAllMember fuel Y [] root [] = Some nodes" "yaml_walk Y [] root nodes"
    using ListAllMember_exact [of Y rank root fuel "[]" "[]"] assms(1,2) by auto
  obtain D' w' where "fold (load_one Y) nodes (D, w) = (D', w')"
    "\<forall>k. map_of D' k = map_option (fold (assigned w) (texts Y k nodes)) (map_of D k)"
    using load_all_exact [OF assms(3,4), of Y nodes w] by blast
  with n yaml_walk_at [of Y "[]" root nodes] show ?thesis by (auto simp: LoadFromYaml_def)
qed

text \<open>The document \<^verbatim>\<open>a: 1\<close>: node 0 is the map, node 1 its key and node 2 its value.\<close>

definition sample_yaml :: "nat yaml" where
  "sample_yaml = \<lparr>y_Load = (\<lambda>_. Some 0), y_text = (\<lambda>_. ''a: 1''), y_size = (\<lambda>_. 1), y_index = (\<lambda>_ _. 2),
     y_IsMap = (\<lambda>n. n = 0), y_entries = (\<lambda>n. if n = 0 then [(1, 2)] else []), y_IsScalar = (\<lambda>n. n \<noteq> 0),
     y_Scalar = (\<lambda>n. if n = 1 then ''a'' else if n = 2 then ''1'' else []), y_Node = 0,
     y_push_back = (\<lambda>n _. n), y_put = (\<lambda>n _ _. n), y_get = (\<lambda>_ _. None), y_as_string = (\<lambda>_. None),
     y_of_string = (\<lambda>_. 2)\<rparr>"

theorem load_exact_witness:
  "\<exists>nodes D' w'. yaml_walk sample_yaml [] 0 nodes \<and>
    LoadFromYaml 3 sample_yaml 0 [(''a'', new_ConfigVar nat_type ''a'' 0 [] :: (nat, unit) ConfigVar)] () = Some (D', w') \<and>
    map_of D' ''a'' = map_option (fold (assigned ()) (texts sample_yaml ''a'' nodes))
      (Some (new_ConfigVar nat_type ''a'' 0 [] :: (nat, unit) ConfigVar)) \<and>
    map_of D' ''b'' = None"
proof -
  let ?D = "[(''a'', new_ConfigVar nat_type ''a'' 0 [] :: (nat, unit) ConfigVar)]"
  have "map_sorted string_less ?D" "steady ?D" by (simp_all add: map_sorted_def steady_def new_ConfigVar_def)
  moreover have "(if v = 0 then 1 else 0) < (if node = 0 then 1 else (0 :: nat))" if "(k, v) \<in> set (y_entries sample_yaml node)"
    for node k v :: nat
    using that by (simp add: sample_yaml_def split: if_split_asm)
  ultimately have "\<exists>nodes D' w'. yaml_walk sample_yaml [] 0 nodes \<and>
    (\<forall>q n. (q, n) \<in> set nodes \<longleftrightarrow> yaml_at sample_yaml [] 0 q n) \<and>
    LoadFromYaml 3 sample_yaml 0 ?D () = Some (D', w') \<and>
    (\<forall>k. map_of D' k = map_option (fold (assigned ()) (texts sample_yaml k nodes)) (map_of ?D k))"
    by (intro load_exact [where rank = "\<lambda>n. if n = 0 then 1 else 0"]) simp_all
  then obtain nodes D' w' where n: "yaml_walk sample_yaml [] 0 nodes"
    "LoadFromYaml 3 sample_yaml 0 ?D () = Some (D', w')"
    "\<forall>k. map_of D' k = map_option (fold (assigned ()) (texts sample_yaml k nodes)) (map_of ?D k)"
    by (elim exE conjE)
  show ?thesis using n by (intro exI [of _ nodes] exI [of _ D'] exI [of _ w']) simp
qed

section \<open>Sequences survive being written and read\<close>

lemma push_all:
  assumes "list_all2 (\<lambda>x nd. \<exists>s. to x = Some s \<and> y_Load Y s = Some nd) xs nds"
  shows "fold (push_element Y to) xs (Some n) = Some (foldl (y_push_back Y) n nds)"
  using assms by (induction arbitrary: n rule: list_all2_induct) (auto simp: push_element_def)

lemma those_Some: "those (map Some xs) = Some xs"
  by (induction xs) auto

lemma those_map:
  assumes "\<And>i. i < length xs \<Longrightarrow> f i = Some (xs ! i)"
  shows "those (map f [0..<length xs]) = Some xs"
proof -
  have "map f [0..<length xs] = map Some (map (nth xs) [0..<length xs])" using assms by simp
  then show ?thesis by (simp only: map_nth those_Some)
qed

text \<open>
  A sequence that is written is read back: if every element is written as a text that loads as a node which
  converts to the element, and the library reads the sequence it has written as one of as many elements that
  print as the nodes put into it, then the conversion of a vector to text and back gives the vector, and so for
  lists; a set in order comes back as it was.
\<close>

theorem sequence_roundtrip:
  assumes "list_all2 (\<lambda>x nd. \<exists>s. to x = Some s \<and> y_Load Y s = Some nd \<and> from (y_text Y nd) = Some x) xs nds"
    and "y_Load Y (y_text Y (foldl (y_push_back Y) (y_Node Y) nds)) = Some node" "y_size Y node = length nds"
    and "\<And>i. i < length nds \<Longrightarrow> y_text Y (y_index Y node i) = y_text Y (nds ! i)"
  shows "Option.bind (vector_to_string Y to xs) (vector_of_string Y from) = Some xs \<and>
    Option.bind (list_to_string Y to xs) (list_of_string Y from) = Some xs \<and>
    (std_set lt \<and> sorted_wrt lt xs \<longrightarrow> Option.bind (set_to_string Y to xs) (set_of_string lt Y from) = Some xs)"
proof -
  have "list_all2 (\<lambda>x nd. \<exists>s. to x = Some s \<and> y_Load Y s = Some nd) xs nds"
    using assms(1) by (rule list_all2_mono) auto
  note f = push_all [OF this, of "y_Node Y"]
  have len: "length xs = length nds" using assms(1) by (rule list_all2_lengthD)
  have "from (y_text Y (y_index Y node i)) = Some (xs ! i)" if "i < length xs" for i
    using list_all2_nthD [OF assms(1) that] assms(4) [of i] that len by auto
  then have c: "cast_elements Y from node = Some xs"
    using those_map [of xs "\<lambda>i. from (y_text Y (y_index Y node i))"] by (simp add: cast_elements_def assms(3) len)
  have "fold (set_insert lt) ys zs = zs @ ys" if "std_set lt" "sorted_wrt lt (zs @ ys)" for ys zs
    using that(2)
  proof (induction ys arbitrary: zs)
    case (Cons y ys)
    have "set_insert lt y zs = zs @ [y]"
      using Cons.prems std_set.lt_asym [OF that(1)] by (induction zs) auto
    with Cons.IH [of "zs @ [y]"] Cons.prems show ?case by simp
  qed simp
  from this [of "[]" xs] f c show ?thesis
    by (auto simp: vector_to_string_def vector_of_string_def list_to_string_def list_of_string_def
        set_to_string_def set_of_string_def assms(2))
qed

text \<open>Documents whose elements are single characters: a scalar is its text, a sequence starts with a bracket.\<close>

datatype flat_doc = Flat_scalar string | Flat_sequence "string list"

fun flat_text :: "flat_doc \<Rightarrow> string" where
  "flat_text (Flat_scalar s) = s"
| "flat_text (Flat_sequence ss) = ''['' @ concat ss"

definition flat_load :: "string \<Rightarrow> flat_doc" where
  "flat_load s = (if s \<noteq> [] \<and> hd s = CHR ''['' then Flat_sequence (map (\<lambda>c. [c]) (tl s)) else Flat_scalar s)"

definition flat_elements :: "flat_doc \<Rightarrow> string list" where
  "flat_elements d = (case d of Flat_scalar _ \<Rightarrow> [] | Flat_sequence ss \<Rightarrow> ss)"

definition flat_yaml :: "flat_doc yaml" where
  "flat_yaml = \<lparr>y_Load = (\<lambda>s. Some (flat_load s)), y_text = flat_text, y_size = (\<lambda>d. length (flat_elements d)),
     y_index = (\<lambda>d i. Flat_scalar (flat_elements d ! i)), y_IsMap = (\<lambda>_. False), y_entries = (\<lambda>_. []),
     y_IsScalar = (\<lambda>d. d = Flat_scalar (flat_text d)), y_Scalar = flat_text, y_Node = Flat_sequence [],
     y_push_back = (\<lambda>d e. Flat_sequence (flat_elements d @ [flat_text e])), y_put = (\<lambda>d _ _. d),
     y_get = (\<lambda>_ _. None), y_as_string = (\<lambda>d. Some (flat_text d)), y_of_string = Flat_scalar\<rparr>"

theorem sequence_roundtrip_witness:
  "Option.bind (vector_to_string flat_yaml Some [''1'', ''2'']) (vector_of_string flat_yaml Some) = Some [''1'', ''2'']"
proof -
  have "list_all2 (\<lambda>x nd. \<exists>s. Some x = Some s \<and> y_Load flat_yaml s = Some nd \<and> Some (y_text flat_yaml nd) = Some x)
      [''1'', ''2''] [Flat_scalar ''1'', Flat_scalar ''2'']"
    by (simp add: flat_yaml_def flat_load_def)
  moreover have "y_Load flat_yaml (y_text flat_yaml (foldl (y_push_back flat_yaml) (y_Node flat_yaml)
      [Flat_scalar ''1'', Flat_scalar ''2''])) = Some (Flat_sequence [''1'', ''2''])"
    "y_size flat_yaml (Flat_sequence [''1'', ''2'']) = length [Flat_scalar ''1'', Flat_scalar ''2'']"
    by (simp_all add: flat_yaml_def flat_load_def flat_elements_def)
  moreover have "y_text flat_yaml (y_index flat_yaml (Flat_sequence [''1'', ''2'']) i) =
      y_text flat_yaml ([Flat_scalar ''1'', Flat_scalar ''2''] ! i)" if "i < length [Flat_scalar ''1'', Flat_scalar ''2'']" for i
    using that by (auto simp: flat_yaml_def flat_elements_def less_Suc_eq)
  ultimately show ?thesis by (rule sequence_roundtrip [THEN conjunct1])
qed

end
