(* ===== verification/Log.thy ===== *)
theory Log
  imports LogFormat Config
begin

text \<open>
  Loggers, appenders and their manager (\<^verbatim>\<open>log.h\<close>, \<^verbatim>\<open>log.cpp\<close>), and the configuration of the loggers.  Loggers and
  appenders are shared, so they are in a store under numbers; formatters never change.  The standard output is the
  text written to it; the file of a file appender is what has been written to its stream since it was opened,
  since opening an \<^verbatim>\<open>ofstream\<close> empties the file.  The clock, \<^verbatim>\<open>strftime\<close> and whether a file can be opened, anew for
  every message, are arguments.  A formatter may be a null pointer, as \<^verbatim>\<open>setFormatter\<close> accepts one.  \<open>None\<close> is an access through a null pointer or one that is otherwise undefined.
\<close>

section \<open>Appenders\<close>

record log_env =
  le_strftime :: strftime
  le_can_open :: "string \<Rightarrow> bool"

datatype appender_kind = StdoutLogAppender | FileLogAppender

record LogAppender =
  a_kind :: appender_kind
  a_level :: Level
  a_hasFormatter :: bool
  a_formatter :: "LogFormatter option"
  a_filename :: string
  a_open :: bool
  a_good :: bool
  a_written :: string
  a_lastTime :: u64

definition new_StdoutLogAppender :: LogAppender where
  "new_StdoutLogAppender =
    \<lparr>a_kind = StdoutLogAppender, a_level = DEBUG, a_hasFormatter = False, a_formatter = None, a_filename = [],
     a_open = False, a_good = True, a_written = [], a_lastTime = 0\<rparr>"

text \<open>Closing a stream that is not open, and opening one that is, sets its failure flag.\<close>

definition reopen :: "log_env \<Rightarrow> LogAppender \<Rightarrow> LogAppender \<times> bool" where
  "reopen E A =
    (let (is_open, good) = (if a_good A then (False, a_open A) else (a_open A, False)) in
     if is_open then (A\<lparr>a_good := False\<rparr>, True)
     else if le_can_open E (a_filename A) then (A\<lparr>a_open := True, a_good := True, a_written := []\<rparr>, True)
     else (A\<lparr>a_open := False, a_good := False\<rparr>, False))"

definition new_FileLogAppender :: "log_env \<Rightarrow> string \<Rightarrow> LogAppender" where
  "new_FileLogAppender E filename =
    fst (reopen E (new_StdoutLogAppender\<lparr>a_kind := FileLogAppender, a_filename := filename\<rparr>))"

definition appender_setFormatter :: "LogFormatter option \<Rightarrow> LogAppender \<Rightarrow> LogAppender" where
  "appender_setFormatter val A = A\<lparr>a_formatter := val, a_hasFormatter := (val \<noteq> None)\<rparr>"

definition format_with :: "log_env \<Rightarrow> string \<Rightarrow> Level \<Rightarrow> LogEvent \<Rightarrow> LogAppender \<Rightarrow> string option" where
  "format_with E name level e A = Option.bind (a_formatter A) (\<lambda>F. formatter_format (le_strftime E) F name level e)"

text \<open>The appender afterwards and what goes to the standard output.\<close>

definition Stdout_log ::
  "log_env \<Rightarrow> string \<Rightarrow> Level \<Rightarrow> LogEvent \<Rightarrow> LogAppender \<Rightarrow> (LogAppender \<times> string) option" where
  "Stdout_log E name level e A =
    (if level \<ge> a_level A then map_option (Pair A) (format_with E name level e A) else Some (A, []))"

definition File_log ::
  "log_env \<Rightarrow> u64 \<Rightarrow> string \<Rightarrow> Level \<Rightarrow> LogEvent \<Rightarrow> LogAppender \<Rightarrow> (LogAppender \<times> string) option" where
  "File_log E now name level e A =
    (if level \<ge> a_level A then
       let A1 = (if now \<noteq> a_lastTime A then (fst (reopen E A))\<lparr>a_lastTime := now\<rparr> else A) in
       map_option (\<lambda>t. if a_good A1 then (A1\<lparr>a_written := a_written A1 @ t\<rparr>, []) else (A1, ''error'' @ [LF]))
         (format_with E name level e A1)
     else Some (A, []))"

definition appender_log ::
  "log_env \<Rightarrow> u64 \<Rightarrow> string \<Rightarrow> Level \<Rightarrow> LogEvent \<Rightarrow> LogAppender \<Rightarrow> (LogAppender \<times> string) option" where
  "appender_log E now name level e A =
    (case a_kind A of
       StdoutLogAppender \<Rightarrow> Stdout_log E name level e A
     | FileLogAppender \<Rightarrow> File_log E now name level e A)"

section \<open>Loggers\<close>

record Logger =
  l_name :: string
  l_level :: Level
  l_appenders :: "nat list"
  l_formatter :: "LogFormatter option"
  l_root :: "nat option"
  l_createTime :: u64

record log_state =
  g_loggers :: "nat \<Rightarrow> Logger option"
  g_appenders :: "nat \<Rightarrow> LogAppender option"
  g_next :: nat
  g_names :: "(string \<times> nat) list"
  g_root :: nat
  g_stdout :: string

definition DEFAULT_PATTERN :: string where
  "DEFAULT_PATTERN = ''%d{%Y-%m-%d %H:%M:%S}%T%t%T%N%T%F%T[%p]%T[%c]%T%f:%l%T%m%n''"

definition new_Logger :: "string \<Rightarrow> u64 \<Rightarrow> Logger" where
  "new_Logger name createTime =
    \<lparr>l_name = name, l_level = DEBUG, l_appenders = [], l_formatter = new_LogFormatter DEFAULT_PATTERN, l_root = None,
     l_createTime = createTime\<rparr>"

definition update_logger :: "nat \<Rightarrow> (Logger \<Rightarrow> Logger) \<Rightarrow> log_state \<Rightarrow> log_state" where
  "update_logger i f S = S\<lparr>g_loggers := (g_loggers S)(i := map_option f (g_loggers S i))\<rparr>"

definition update_appender :: "nat \<Rightarrow> (LogAppender \<Rightarrow> LogAppender) \<Rightarrow> log_state \<Rightarrow> log_state" where
  "update_appender a f S = S\<lparr>g_appenders := (g_appenders S)(a := map_option f (g_appenders S a))\<rparr>"

definition addAppender :: "nat \<Rightarrow> nat \<Rightarrow> log_state \<Rightarrow> log_state option" where
  "addAppender i a S =
    (case (g_loggers S i, g_appenders S a) of
       (Some L, Some A) \<Rightarrow>
         let S1 = (if a_formatter A = None then update_appender a (appender_setFormatter (l_formatter L)) S else S) in
         Some (update_logger i (\<lambda>L. L\<lparr>l_appenders := l_appenders L @ [a]\<rparr>) S1)
     | _ \<Rightarrow> None)"

definition delAppender :: "nat \<Rightarrow> nat \<Rightarrow> log_state \<Rightarrow> log_state" where
  "delAppender i a S = update_logger i (\<lambda>L. L\<lparr>l_appenders := remove1 a (l_appenders L)\<rparr>) S"

definition clearAppenders :: "nat \<Rightarrow> log_state \<Rightarrow> log_state" where
  "clearAppenders i S = update_logger i (\<lambda>L. L\<lparr>l_appenders := []\<rparr>) S"

definition setLevel :: "nat \<Rightarrow> Level \<Rightarrow> log_state \<Rightarrow> log_state" where
  "setLevel i level S = update_logger i (\<lambda>L. L\<lparr>l_level := level\<rparr>) S"

definition setFormatter :: "nat \<Rightarrow> LogFormatter option \<Rightarrow> log_state \<Rightarrow> log_state" where
  "setFormatter i val S =
    (case g_loggers S i of
       None \<Rightarrow> S
     | Some L \<Rightarrow>
         fold (\<lambda>a. update_appender a (\<lambda>A. if \<not> a_hasFormatter A then A\<lparr>a_formatter := val\<rparr> else A)) (l_appenders L)
           (update_logger i (\<lambda>L. L\<lparr>l_formatter := val\<rparr>) S))"

definition setFormatter_text :: "nat \<Rightarrow> string \<Rightarrow> log_state \<Rightarrow> log_state option" where
  "setFormatter_text i val S =
    (case (g_loggers S i, new_LogFormatter val) of
       (Some L, Some F) \<Rightarrow>
         if f_error F then
           Some (S\<lparr>g_stdout := g_stdout S @ ''Logger setFormatter name = '' @ l_name L @ '' value = '' @ val @
             '' invalid formatter'' @ [LF]\<rparr>)
         else Some (update_logger i (\<lambda>L. L\<lparr>l_formatter := Some F\<rparr>) S)
     | _ \<Rightarrow> None)"

text \<open>The loop over the appenders of a logger.\<close>

primrec log_appenders ::
  "log_env \<Rightarrow> u64 \<Rightarrow> string \<Rightarrow> Level \<Rightarrow> LogEvent \<Rightarrow> nat list \<Rightarrow> log_state \<Rightarrow> log_state option" where
  "log_appenders E now name level e [] S = Some S"
| "log_appenders E now name level e (a # as) S =
    Option.bind (Option.bind (g_appenders S a) (appender_log E now name level e))
      (\<lambda>(A, out). log_appenders E now name level e as
        (S\<lparr>g_appenders := (g_appenders S)(a \<mapsto> A), g_stdout := g_stdout S @ out\<rparr>))"

text \<open>\<^verbatim>\<open>Logger::log\<close>, with fuel for the chain of root loggers.\<close>

primrec Logger_log ::
  "nat \<Rightarrow> log_env \<Rightarrow> u64 \<Rightarrow> nat \<Rightarrow> Level \<Rightarrow> LogEvent \<Rightarrow> log_state \<Rightarrow> log_state option" where
  "Logger_log 0 E now i level e S = None"
| "Logger_log (Suc n) E now i level e S =
    (case g_loggers S i of
       None \<Rightarrow> None
     | Some L \<Rightarrow>
         if level \<ge> l_level L then
           (if l_appenders L \<noteq> [] then log_appenders E now (l_name L) level e (l_appenders L) S
            else (case l_root L of Some r \<Rightarrow> Logger_log n E now r level e S | None \<Rightarrow> Some S))
         else Some S)"

definition log_fuel :: nat where "log_fuel = 2"

definition Logger_debug :: "log_env \<Rightarrow> u64 \<Rightarrow> nat \<Rightarrow> LogEvent \<Rightarrow> log_state \<Rightarrow> log_state option" where
  "Logger_debug E now i e S = Logger_log log_fuel E now i DEBUG e S"
definition Logger_info :: "log_env \<Rightarrow> u64 \<Rightarrow> nat \<Rightarrow> LogEvent \<Rightarrow> log_state \<Rightarrow> log_state option" where
  "Logger_info E now i e S = Logger_log log_fuel E now i INFO e S"
definition Logger_warn :: "log_env \<Rightarrow> u64 \<Rightarrow> nat \<Rightarrow> LogEvent \<Rightarrow> log_state \<Rightarrow> log_state option" where
  "Logger_warn E now i e S = Logger_log log_fuel E now i WARN e S"
definition Logger_error :: "log_env \<Rightarrow> u64 \<Rightarrow> nat \<Rightarrow> LogEvent \<Rightarrow> log_state \<Rightarrow> log_state option" where
  "Logger_error E now i e S = Logger_log log_fuel E now i ERROR e S"
definition Logger_fatal :: "log_env \<Rightarrow> u64 \<Rightarrow> nat \<Rightarrow> LogEvent \<Rightarrow> log_state \<Rightarrow> log_state option" where
  "Logger_fatal E now i e S = Logger_log log_fuel E now i FATAL e S"

text \<open>The destructor of \<^verbatim>\<open>LogEventWrap\<close>, and the macro \<^verbatim>\<open>SYLAR_LOG_LEVEL\<close> with the text streamed into the event.\<close>

definition destroy_LogEventWrap :: "log_env \<Rightarrow> u64 \<Rightarrow> LogEvent \<Rightarrow> log_state \<Rightarrow> log_state option" where
  "destroy_LogEventWrap E now e S = Logger_log log_fuel E now (ev_logger e) (ev_level e) e S"

definition SYLAR_LOG_LEVEL ::
  "log_env \<Rightarrow> u64 \<Rightarrow> nat \<Rightarrow> Level \<Rightarrow> string \<Rightarrow> int \<Rightarrow> u64 \<Rightarrow> u32 \<Rightarrow> u32 \<Rightarrow> string \<Rightarrow> string \<Rightarrow> log_state \<Rightarrow> log_state option" where
  "SYLAR_LOG_LEVEL E now i level file line elapsed threadId fiberId threadName msg S =
    (case g_loggers S i of
       None \<Rightarrow> None
     | Some L \<Rightarrow>
         if l_level L \<le> level then
           destroy_LogEventWrap E now
             ((new_LogEvent i level file line (ucast (elapsed - l_createTime L)) threadId fiberId now threadName)
                \<lparr>ev_content := msg\<rparr>) S
         else Some S)"

text \<open>\<^verbatim>\<open>SYLAR_LOG_FMT_LEVEL\<close>, with what \<^verbatim>\<open>vasprintf\<close> returns for its arguments; the elapsed time is 0 there,
  and making a string of length -1 throws.\<close>

definition SYLAR_LOG_FMT_LEVEL ::
  "log_env \<Rightarrow> u64 \<Rightarrow> nat \<Rightarrow> Level \<Rightarrow> string \<Rightarrow> int \<Rightarrow> u32 \<Rightarrow> u32 \<Rightarrow> string \<Rightarrow> int \<times> string \<Rightarrow> log_state \<Rightarrow> log_state option" where
  "SYLAR_LOG_FMT_LEVEL E now i level file line threadId fiberId threadName printed S =
    (case g_loggers S i of
       None \<Rightarrow> None
     | Some L \<Rightarrow>
         if l_level L \<le> level then
           Option.bind (event_format printed (new_LogEvent i level file line 0 threadId fiberId now threadName))
             (\<lambda>e. destroy_LogEventWrap E now e S)
         else Some S)"

section \<open>The manager\<close>

definition new_LoggerManager :: "u64 \<Rightarrow> log_state" where
  "new_LoggerManager time =
    the (addAppender 0 1
      \<lparr>g_loggers = [0 \<mapsto> new_Logger ''root'' time], g_appenders = [1 \<mapsto> new_StdoutLogAppender], g_next = 2, g_names = [],
       g_root = 0, g_stdout = []\<rparr>)"

definition getLogger :: "u64 \<Rightarrow> string \<Rightarrow> log_state \<Rightarrow> nat \<times> log_state" where
  "getLogger time name S =
    (case map_of (g_names S) name of
       Some i \<Rightarrow> (i, S)
     | None \<Rightarrow>
         (g_next S,
          S\<lparr>g_loggers := (g_loggers S)(g_next S \<mapsto> (new_Logger name time)\<lparr>l_root := Some (g_root S)\<rparr>),
            g_next := g_next S + 1, g_names := map_put string_less name (g_next S) (g_names S)\<rparr>))"

definition new_appender :: "LogAppender \<Rightarrow> log_state \<Rightarrow> nat \<times> log_state" where
  "new_appender A S =
    (g_next S, S\<lparr>g_appenders := (g_appenders S)(g_next S \<mapsto> A), g_next := g_next S + 1\<rparr>)"

section \<open>Configuration as text\<close>

text \<open>\<^verbatim>\<open>node[key] = value\<close> for a string.\<close>

definition put_text :: "'y yaml \<Rightarrow> string \<Rightarrow> string \<Rightarrow> 'y \<Rightarrow> 'y" where
  "put_text Y key val node = y_put Y node key (y_of_string Y val)"

definition put_common :: "'y yaml \<Rightarrow> Level \<Rightarrow> LogFormatter option \<Rightarrow> 'y \<Rightarrow> 'y" where
  "put_common Y level F node =
    (let node1 = (if level \<noteq> UNKNOW then put_text Y ''level'' (level_ToString level) node else node) in
     case F of Some f \<Rightarrow> put_text Y ''formatter'' (f_pattern f) node1 | None \<Rightarrow> node1)"

definition appender_toYamlString :: "'y yaml \<Rightarrow> LogAppender \<Rightarrow> string" where
  "appender_toYamlString Y A =
    y_text Y (put_common Y (a_level A) (a_formatter A)
      (case a_kind A of
         StdoutLogAppender \<Rightarrow> put_text Y ''type'' ''StdoutLogAppender'' (y_Node Y)
       | FileLogAppender \<Rightarrow>
           put_text Y ''file'' (a_filename A) (put_text Y ''type'' ''FileLogAppender'' (y_Node Y))))"

text \<open>\<^verbatim>\<open>node["appenders"].push_back(x)\<close> makes the sequence when there is none.\<close>

definition push_appender :: "'y yaml \<Rightarrow> 'y \<Rightarrow> 'y \<Rightarrow> 'y" where
  "push_appender Y x node =
    y_put Y node ''appenders'' (y_push_back Y (case y_get Y node ''appenders'' of Some s \<Rightarrow> s | None \<Rightarrow> y_Node Y) x)"

definition logger_toYamlString :: "'y yaml \<Rightarrow> Logger \<Rightarrow> log_state \<Rightarrow> string option" where
  "logger_toYamlString Y L S =
    map_option (y_text Y)
      (fold (\<lambda>a node. Option.bind node (\<lambda>n. Option.bind (g_appenders S a) (\<lambda>A.
          map_option (\<lambda>x. push_appender Y x n) (y_Load Y (appender_toYamlString Y A)))))
        (l_appenders L) (Some (put_common Y (l_level L) (l_formatter L) (put_text Y ''name'' (l_name L) (y_Node Y)))))"

definition manager_toYamlString :: "'y yaml \<Rightarrow> log_state \<Rightarrow> string option" where
  "manager_toYamlString Y S =
    map_option (y_text Y)
      (fold (\<lambda>(_, i) node. Option.bind node (\<lambda>n. Option.bind (g_loggers S i) (\<lambda>L.
          Option.bind (logger_toYamlString Y L S) (\<lambda>s. map_option (y_push_back Y n) (y_Load Y s)))))
        (g_names S) (Some (y_Node Y)))"

section \<open>Configured loggers\<close>

record LogAppenderDefine =
  ad_type :: int
  ad_level :: Level
  ad_formatter :: string
  ad_file :: string

record LogDefine =
  ld_name :: string
  ld_level :: Level
  ld_formatter :: string
  ld_appenders :: "LogAppenderDefine list"

definition new_LogAppenderDefine :: LogAppenderDefine where
  "new_LogAppenderDefine = \<lparr>ad_type = 0, ad_level = UNKNOW, ad_formatter = [], ad_file = []\<rparr>"

definition LogAppenderDefine_eq :: "LogAppenderDefine \<Rightarrow> LogAppenderDefine \<Rightarrow> bool" where
  "LogAppenderDefine_eq a b \<longleftrightarrow>
    ad_type a = ad_type b \<and> ad_level a = ad_level b \<and> ad_formatter a = ad_formatter b \<and> ad_file a = ad_file b"

text \<open>The levels are not compared: both of them are taken as truth values.\<close>

definition LogDefine_eq :: "LogDefine \<Rightarrow> LogDefine \<Rightarrow> bool" where
  "LogDefine_eq a b \<longleftrightarrow>
    ld_name a = ld_name b \<and> ld_level a \<noteq> 0 \<and> ld_level b \<noteq> 0 \<and> ld_formatter a = ld_formatter b \<and>
    list_all2 LogAppenderDefine_eq (ld_appenders a) (ld_appenders b)"

definition LogDefine_less :: "LogDefine \<Rightarrow> LogDefine \<Rightarrow> bool" where
  "LogDefine_less a b \<longleftrightarrow> string_less (ld_name a) (ld_name b)"

text \<open>\<open>Some None\<close> is a \<^verbatim>\<open>continue\<close>, \<open>None\<close> an exception; the file is looked for in the node of the logger.\<close>

definition cast_appender :: "'y yaml \<Rightarrow> 'y \<Rightarrow> 'y \<Rightarrow> LogAppenderDefine option option" where
  "cast_appender Y curNode appenderNode =
    (case y_get Y appenderNode ''type'' of
       None \<Rightarrow> Some None
     | Some ty \<Rightarrow>
         Option.bind (y_as_string Y ty) (\<lambda>type.
           let with_formatter = (\<lambda>lad. case y_get Y appenderNode ''formatter'' of
                 None \<Rightarrow> Some (Some lad)
               | Some f \<Rightarrow> map_option (\<lambda>s. Some (lad\<lparr>ad_formatter := s\<rparr>)) (y_as_string Y f))
           in if type = ''FileLogAppender'' then
                (case y_get Y curNode ''file'' of
                   None \<Rightarrow> Some None
                 | Some _ \<Rightarrow>
                     Option.bind (Option.bind (y_get Y appenderNode ''file'') (y_as_string Y)) (\<lambda>file.
                       with_formatter (new_LogAppenderDefine\<lparr>ad_type := 1, ad_file := file\<rparr>)))
              else if type = ''StdoutLogAppender'' then with_formatter (new_LogAppenderDefine\<lparr>ad_type := 2\<rparr>)
              else Some None))"

definition cast_define :: "'y yaml \<Rightarrow> 'y \<Rightarrow> LogDefine option option" where
  "cast_define Y curNode =
    (case y_get Y curNode ''name'' of
       None \<Rightarrow> Some None
     | Some nm \<Rightarrow>
         Option.bind (y_as_string Y nm) (\<lambda>name.
         Option.bind (case y_get Y curNode ''level'' of None \<Rightarrow> Some [] | Some l \<Rightarrow> y_as_string Y l) (\<lambda>level.
         Option.bind (case y_get Y curNode ''formatter'' of None \<Rightarrow> Some [] | Some f \<Rightarrow> y_as_string Y f) (\<lambda>formatter.
         map_option (\<lambda>appenders. Some \<lparr>ld_name = name, ld_level = level_FromString level, ld_formatter = formatter,
             ld_appenders = List.map_filter (\<lambda>x. x) appenders\<rparr>)
           (case y_get Y curNode ''appenders'' of
              None \<Rightarrow> Some []
            | Some s \<Rightarrow> those (map (\<lambda>j. cast_appender Y curNode (y_index Y s j)) [0..<y_size Y s]))))))"

definition log_defines_of_string :: "'y yaml \<Rightarrow> LogDefine list from_string" where
  "log_defines_of_string Y val =
    Option.bind (y_Load Y val) (\<lambda>node.
      map_option (\<lambda>ds. fold (set_insert LogDefine_less) (List.map_filter (\<lambda>x. x) ds) [])
        (those (map (\<lambda>i. cast_define Y (y_index Y node i)) [0..<y_size Y node])))"

text \<open>The node made for a definition is not put into the document.\<close>

definition appender_node :: "'y yaml \<Rightarrow> LogAppenderDefine \<Rightarrow> 'y" where
  "appender_node Y a =
    (let n0 = (if ad_type a = 1 then put_text Y ''file'' (ad_file a) (put_text Y ''type'' ''FileLogAppender'' (y_Node Y))
               else if ad_type a = 2 then put_text Y ''type'' ''StdoutLogAppender'' (y_Node Y) else y_Node Y);
         n1 = (if ad_level a \<noteq> UNKNOW then put_text Y ''level'' (level_ToString (ad_level a)) n0 else n0)
     in if ad_formatter a \<noteq> [] then put_text Y ''formatter'' (ad_formatter a) n1 else n1)"

definition define_node :: "'y yaml \<Rightarrow> LogDefine \<Rightarrow> 'y" where
  "define_node Y d =
    (let n0 = put_text Y ''name'' (ld_name d) (y_Node Y);
         n1 = (if ld_level d \<noteq> UNKNOW then put_text Y ''level'' (level_ToString (ld_level d)) n0 else n0);
         n2 = (if ld_formatter d = [] then put_text Y ''formatter'' (ld_formatter d) n1 else n1)
     in fold (\<lambda>a. push_appender Y (appender_node Y a)) (ld_appenders d) n2)"

definition log_defines_to_string :: "'y yaml \<Rightarrow> LogDefine list to_string" where
  "log_defines_to_string Y ds =
    (let node = fold (\<lambda>d node. let curNode = define_node Y d in node) ds (y_Node Y) in Some (y_text Y node))"

text \<open>The listener of the variable \<^verbatim>\<open>logs\<close>: one definition, and all of it.\<close>

definition configure_appender :: "log_env \<Rightarrow> nat \<Rightarrow> LogAppenderDefine \<Rightarrow> log_state \<Rightarrow> log_state option" where
  "configure_appender E i d S =
    (if ad_type d = 1 \<or> ad_type d = 2 then
       (case new_appender ((if ad_type d = 1 then new_FileLogAppender E (ad_file d) else new_StdoutLogAppender)
              \<lparr>a_level := ad_level d\<rparr>) S of
          (a, S1) \<Rightarrow> addAppender i a S1)
     else Some S)"

definition configure_logger :: "log_env \<Rightarrow> u64 \<Rightarrow> LogDefine list \<Rightarrow> LogDefine \<Rightarrow> log_state \<Rightarrow> log_state option" where
  "configure_logger E time old d S =
    (if (case set_find LogDefine_less d old of None \<Rightarrow> True | Some d0 \<Rightarrow> \<not> LogDefine_eq d0 d) then
       (case getLogger time (ld_name d) S of (i, S1) \<Rightarrow>
          let S2 = setLevel i (ld_level d) S1 in
          Option.bind (if ld_formatter d \<noteq> [] then setFormatter_text i (ld_formatter d) S2 else Some S2) (\<lambda>S3.
            fold (\<lambda>ad S. Option.bind S (configure_appender E i ad)) (ld_appenders d) (Some (clearAppenders i S3))))
     else None)"

definition disable_logger :: "u64 \<Rightarrow> LogDefine list \<Rightarrow> LogDefine \<Rightarrow> log_state \<Rightarrow> log_state" where
  "disable_logger time new d S =
    (if set_find LogDefine_less d new = None then
       (case getLogger time (ld_name d) S of (i, S1) \<Rightarrow> clearAppenders i (setLevel i 100 S1))
     else S)"

definition on_logs_changed ::
  "log_env \<Rightarrow> u64 \<Rightarrow> LogDefine list \<Rightarrow> LogDefine list \<Rightarrow> log_state \<Rightarrow> log_state option" where
  "on_logs_changed E time old new S =
    map_option (fold (disable_logger time new) old)
      (fold (\<lambda>d S. Option.bind S (configure_logger E time old d)) new (Some S))"

section \<open>The stores of a program\<close>

text \<open>
  Loggers and appenders are there where they are referred to, appenders in use have a formatter unless a program passes null ones, and only the root
  logger has no root.
\<close>

definition logger_ok :: "bool \<Rightarrow> log_state \<Rightarrow> nat \<Rightarrow> Logger \<Rightarrow> bool" where
  "logger_ok null S i L \<longleftrightarrow> (l_formatter L \<noteq> None \<or> null) \<and>
    (\<forall>a \<in> set (l_appenders L). \<exists>A. g_appenders S a = Some A \<and> (a_formatter A \<noteq> None \<or> null)) \<and>
    l_root L = (if i = g_root S then None else Some (g_root S))"

definition log_ok :: "bool \<Rightarrow> log_state \<Rightarrow> bool" where
  "log_ok null S \<longleftrightarrow> (\<forall>i L. g_loggers S i = Some L \<longrightarrow> i < g_next S \<and> logger_ok null S i L) \<and>
    (\<forall>a A. g_appenders S a = Some A \<longrightarrow> a < g_next S) \<and>
    (\<exists>R. g_loggers S (g_root S) = Some R) \<and> map_sorted string_less (g_names S) \<and>
    (\<forall>name i. map_of (g_names S) name = Some i \<longrightarrow> i \<noteq> g_root S \<and> (\<exists>L. g_loggers S i = Some L \<and> l_name L = name))"

text \<open>
  What a program can bring its loggers to.  \<^verbatim>\<open>setFormatter\<close> of a logger and of an appender accept null pointers; \<open>null\<close> says
  whether the program may pass them.
\<close>

inductive log_reachable :: "log_env \<Rightarrow> bool \<Rightarrow> log_state \<Rightarrow> bool" for E null where
  Start: "log_reachable E null (new_LoggerManager time)"
| Get: "log_reachable E null S \<Longrightarrow> getLogger time name S = (i, S') \<Longrightarrow> log_reachable E null S'"
| Make: "log_reachable E null S \<Longrightarrow> new_appender A S = (a, S') \<Longrightarrow> log_reachable E null S'"
| Add: "log_reachable E null S \<Longrightarrow> addAppender i a S = Some S' \<Longrightarrow> log_reachable E null S'"
| Del: "log_reachable E null S \<Longrightarrow> log_reachable E null (delAppender i a S)"
| Clear: "log_reachable E null S \<Longrightarrow> log_reachable E null (clearAppenders i S)"
| Level: "log_reachable E null S \<Longrightarrow> log_reachable E null (setLevel i level S)"
| Formatter: "log_reachable E null S \<Longrightarrow> val \<noteq> None \<or> null \<Longrightarrow> log_reachable E null (setFormatter i val S)"
| Pattern: "log_reachable E null S \<Longrightarrow> setFormatter_text i val S = Some S' \<Longrightarrow> log_reachable E null S'"
| Appender: "log_reachable E null S \<Longrightarrow> val \<noteq> None \<or> null \<Longrightarrow> log_reachable E null (update_appender a (appender_setFormatter val) S)"
| Log: "log_reachable E null S \<Longrightarrow> Logger_log log_fuel E now i level e S = Some S' \<Longrightarrow> log_reachable E null S'"

lemma default_formatter: "new_LogFormatter DEFAULT_PATTERN \<noteq> None"
proof -
  have "case new_LogFormatter DEFAULT_PATTERN of None \<Rightarrow> False | Some _ \<Rightarrow> True" by code_simp
  then show ?thesis by (auto split: option.splits)
qed

lemma log_ok_update_logger:
  assumes "log_ok null S" "\<And>L. g_loggers S i = Some L \<Longrightarrow> l_name (f L) = l_name L \<and> (logger_ok null S i L \<longrightarrow> logger_ok null S i (f L))"
  shows "log_ok null (update_logger i f S)"
proof -
  have "logger_ok null (update_logger i f S) j L \<longleftrightarrow> logger_ok null S j L" for j L
    by (simp add: logger_ok_def update_logger_def)
  then show ?thesis using assms unfolding log_ok_def by (auto simp: update_logger_def split: if_split_asm) blast+
qed

lemma log_ok_set_appender:
  assumes "log_ok null S" "a < g_next S" "g_appenders S a \<noteq> None \<longrightarrow> a_formatter (the (g_appenders S a)) \<noteq> None \<longrightarrow> a_formatter A \<noteq> None \<or> null"
  shows "log_ok null (S\<lparr>g_appenders := (g_appenders S)(a \<mapsto> A), g_stdout := out\<rparr>)"
proof -
  have "logger_ok null (S\<lparr>g_appenders := (g_appenders S)(a \<mapsto> A), g_stdout := out\<rparr>) j L" if "logger_ok null S j L" for j L
    using that assms(3) by (force simp: logger_ok_def)
  then show ?thesis using assms(1,2) unfolding log_ok_def by (auto split: if_split_asm)
qed

lemma log_ok_update_appender:
  assumes "log_ok null S" "\<And>A. a_formatter A \<noteq> None \<Longrightarrow> a_formatter (f A) \<noteq> None \<or> null"
  shows "log_ok null (update_appender a f S)"
proof (cases "g_appenders S a")
  case None
  then have "update_appender a f S = S" by (simp add: update_appender_def fun_upd_idem)
  with assms(1) show ?thesis by simp
next
  case (Some A)
  then have "a < g_next S" using assms(1) by (auto simp: log_ok_def)
  from log_ok_set_appender [OF assms(1) this, of "f A" "g_stdout S"] assms(2) Some show ?thesis
    by (simp add: update_appender_def)
qed

lemma log_ok_setFormatter:
  assumes "log_ok null S" "val \<noteq> None \<or> null"
  shows "log_ok null (setFormatter i val S)"
proof (cases "g_loggers S i")
  case (Some L)
  have "log_ok null (update_logger i (\<lambda>L. L\<lparr>l_formatter := val\<rparr>) S)"
    by (rule log_ok_update_logger [OF assms(1)]) (use assms(2) in \<open>auto simp: logger_ok_def\<close>)
  then have "log_ok null (fold (\<lambda>a. update_appender a (\<lambda>A. if \<not> a_hasFormatter A then A\<lparr>a_formatter := val\<rparr> else A)) as
      (update_logger i (\<lambda>L. L\<lparr>l_formatter := val\<rparr>) S))" for as
    by (induction as rule: rev_induct) (use assms(2) in \<open>auto intro: log_ok_update_appender\<close>)
  then show ?thesis by (simp add: setFormatter_def Some)
qed (use assms in \<open>simp add: setFormatter_def\<close>)

lemma log_ok_add:
  assumes "log_ok null S" "addAppender i a S = Some S'"
  shows "log_ok null S'"
proof -
  obtain L A where L: "g_loggers S i = Some L" "g_appenders S a = Some A"
    using assms(2) by (auto simp: addAppender_def split: option.split_asm)
  let ?S1 = "if a_formatter A = None then update_appender a (appender_setFormatter (l_formatter L)) S else S"
  have F: "l_formatter L \<noteq> None \<or> null" using assms(1) L(1) by (simp add: log_ok_def logger_ok_def)
  have ok: "log_ok null ?S1" using assms(1) F by (auto intro!: log_ok_update_appender simp: appender_setFormatter_def)
  have S1: "g_loggers ?S1 = g_loggers S" "\<exists>A. g_appenders ?S1 a = Some A \<and> (a_formatter A \<noteq> None \<or> null)"
    using L(2) F by (simp_all add: update_appender_def appender_setFormatter_def)
  have "log_ok null (update_logger i (\<lambda>L. L\<lparr>l_appenders := l_appenders L @ [a]\<rparr>) ?S1)"
    by (rule log_ok_update_logger [OF ok]) (use S1(2) in \<open>auto simp: logger_ok_def\<close>)
  then show ?thesis using assms(2) L by (simp add: addAppender_def Let_def)
qed

lemma log_ok_get:
  assumes "log_ok null S" "getLogger time name S = (i, S')"
  shows "log_ok null S' \<and> (\<exists>L. g_loggers S' i = Some L \<and> l_name L = name) \<and> i \<noteq> g_root S' \<and> map_of (g_names S') name = Some i"
proof (cases "map_of (g_names S) name")
  case (Some j)
  then show ?thesis using assms by (auto simp: getLogger_def log_ok_def)
next
  case None
  let ?L = "(new_Logger name time)\<lparr>l_root := Some (g_root S)\<rparr>"
  have S': "S' = S\<lparr>g_loggers := (g_loggers S)(g_next S \<mapsto> ?L), g_next := g_next S + 1,
      g_names := map_put string_less name (g_next S) (g_names S)\<rparr>" "i = g_next S"
    using assms(2) None by (auto simp: getLogger_def)
  have sorted: "map_sorted string_less (g_names S)" using assms(1) by (simp add: log_ok_def)
  note put = string_map.map_of_put [OF sorted] string_map.map_put_sorted [OF sorted]
  have fresh: "g_root S < g_next S" using assms(1) by (auto simp: log_ok_def)
  have "logger_ok null S' j L \<longleftrightarrow> logger_ok null S j L" for j L by (simp add: logger_ok_def S'(1))
  moreover have "logger_ok null S (g_next S) ?L" using fresh default_formatter by (simp add: logger_ok_def new_Logger_def)
  ultimately show ?thesis
    using assms(1) fresh unfolding log_ok_def S'(2)
    by (auto simp: S'(1) put new_Logger_def split: if_split_asm) (metis less_Suc_eq less_irrefl)+
qed

lemma appender_log_keeps:
  "appender_log E now name level e A = Some (A', out) \<Longrightarrow> a_formatter A' = a_formatter A \<and> a_level A' = a_level A"
  by (auto simp: appender_log_def Stdout_log_def File_log_def reopen_def Let_def
      split: appender_kind.split_asm if_split_asm option.split_asm)

lemma log_appenders_ok:
  "log_ok null S \<Longrightarrow> log_appenders E now name level e as S = Some S' \<Longrightarrow> log_ok null S'"
proof (induction as arbitrary: S)
  case (Cons a as)
  from Cons.prems(2) obtain A A' out where A: "g_appenders S a = Some A" "appender_log E now name level e A = Some (A', out)"
    "log_appenders E now name level e as (S\<lparr>g_appenders := (g_appenders S)(a \<mapsto> A'), g_stdout := g_stdout S @ out\<rparr>) = Some S'"
    by (auto simp: bind_eq_Some_conv)
  have "a < g_next S" using Cons.prems(1) A(1) by (auto simp: log_ok_def)
  then have "log_ok null (S\<lparr>g_appenders := (g_appenders S)(a \<mapsto> A'), g_stdout := g_stdout S @ out\<rparr>)"
    using appender_log_keeps [OF A(2)] A(1) by (intro log_ok_set_appender [OF Cons.prems(1)]) simp_all
  from Cons.IH [OF this A(3)] show ?case .
qed simp

lemma Logger_log_ok: "log_ok null S \<Longrightarrow> Logger_log n E now i level e S = Some S' \<Longrightarrow> log_ok null S'"
  by (induction n arbitrary: i) (auto intro: log_appenders_ok split: option.split_asm if_split_asm)

lemma log_ok_start: "log_ok null (new_LoggerManager time)"
proof -
  let ?S = "\<lparr>g_loggers = [0 \<mapsto> new_Logger ''root'' time], g_appenders = [1 \<mapsto> new_StdoutLogAppender], g_next = 2, g_names = [],
       g_root = 0, g_stdout = []\<rparr>"
  have "log_ok null ?S"
    using default_formatter by (simp add: log_ok_def logger_ok_def new_Logger_def map_sorted_def split: if_split)
  moreover obtain S' where "addAppender 0 1 ?S = Some S'" by (auto simp: addAppender_def)
  ultimately show ?thesis using log_ok_add by (auto simp: new_LoggerManager_def)
qed

lemma log_ok_make:
  assumes "log_ok null S" "new_appender A S = (a, S')"
  shows "log_ok null S'"
proof -
  have S': "S' = S\<lparr>g_appenders := (g_appenders S)(g_next S \<mapsto> A), g_next := g_next S + 1\<rparr>"
    using assms(2) by (auto simp: new_appender_def)
  have old: "a < g_next S" if "g_appenders S a = Some B" for a B
    using that assms(1) by (auto simp: log_ok_def)
  then have "g_appenders S' a = Some B" if "g_appenders S a = Some B" for a B
    using that by (fastforce simp: S')
  moreover have root: "g_root S' = g_root S" by (simp add: S')
  ultimately have "logger_ok null S' j L" if "logger_ok null S j L" for j L
    using that unfolding logger_ok_def root by blast
  moreover have "a < g_next S'" if "g_appenders S' a = Some B" for a B
    using that old by (fastforce simp: S' split: if_split_asm)
  ultimately show ?thesis using assms(1) unfolding log_ok_def by (auto simp: S' less_Suc_eq)
qed

lemma log_reachable_ok: "log_reachable E null S \<Longrightarrow> log_ok null S"
proof (induction rule: log_reachable.induct)
  case (Start time)
  show ?case by (rule log_ok_start)
next
  case (Get S time name i S')
  show ?case using log_ok_get [OF Get.IH Get.hyps(2)] by simp
next
  case (Make S A a S')
  show ?case by (rule log_ok_make [OF Make.IH Make.hyps(2)])
next
  case (Add S i a S')
  show ?case by (rule log_ok_add [OF Add.IH Add.hyps(2)])
next
  case (Del S i a)
  show ?case unfolding delAppender_def
    by (rule log_ok_update_logger [OF Del.IH]) (auto simp: logger_ok_def dest: notin_set_remove1 set_remove1_subset [THEN subsetD])
next
  case (Clear S i)
  show ?case unfolding clearAppenders_def by (rule log_ok_update_logger [OF Clear.IH]) (auto simp: logger_ok_def)
next
  case (Level S i level)
  show ?case unfolding setLevel_def by (rule log_ok_update_logger [OF Level.IH]) (auto simp: logger_ok_def)
next
  case (Formatter S val i)
  show ?case by (rule log_ok_setFormatter [OF Formatter.IH Formatter.hyps(2)])
next
  case (Pattern S i val S')
  have out: "log_ok null (S\<lparr>g_stdout := t\<rparr>)" for t
    using Pattern.IH by (simp add: log_ok_def logger_ok_def)
  have upd: "log_ok null (update_logger i (\<lambda>L. L\<lparr>l_formatter := Some F\<rparr>) S)" for F
    by (rule log_ok_update_logger [OF Pattern.IH]) (auto simp: logger_ok_def)
  show ?case using Pattern.hyps(2) out upd by (auto simp: setFormatter_text_def split: option.split_asm if_split_asm)
next
  case (Appender S val a)
  show ?case
    by (rule log_ok_update_appender [OF Appender.IH]) (use Appender.hyps(2) in \<open>simp add: appender_setFormatter_def\<close>)
next
  case (Log S now i level e S')
  show ?case by (rule Logger_log_ok [OF Log.IH Log.hyps(2)])
qed

section \<open>Logging returns\<close>

definition dates_fit :: "log_env \<Rightarrow> bool" where
  "dates_fit E \<longleftrightarrow> (\<forall>f t. le_strftime E 64 f t \<noteq> None)"

lemma those_total: "list_all (\<lambda>x. f x \<noteq> None) xs \<Longrightarrow> those (map f xs) \<noteq> None"
  by (induction xs) auto

lemma formatter_total: "dates_fit E \<Longrightarrow> formatter_format (le_strftime E) F name level e \<noteq> None"
proof -
  assume "dates_fit E"
  then have "item_format (le_strftime E) name level e x \<noteq> None" for x
    by (cases x) (auto simp: item_format_def dates_fit_def)
  then have "list_all (\<lambda>x. item_format (le_strftime E) name level e x \<noteq> None) (f_items F)" by (simp add: list_all_iff)
  from those_total [OF this] show ?thesis by (simp add: formatter_format_def)
qed

lemma appender_log_iff:
  assumes "dates_fit E"
  shows "(\<exists>A' out. appender_log E now name level e A = Some (A', out)) \<longleftrightarrow> (a_level A \<le> level \<longrightarrow> a_formatter A \<noteq> None)"
proof -
  have with_iff: "format_with E name level e B = None \<longleftrightarrow> a_formatter B = None" for B
    using formatter_total [OF assms] by (cases "a_formatter B") (simp_all add: format_with_def)
  have "a_formatter (fst (reopen E A)) = a_formatter A" by (simp add: reopen_def Let_def split: if_split)
  then have "format_with E name level e ((fst (reopen E A))\<lparr>a_lastTime := now\<rparr>) = None \<longleftrightarrow> a_formatter A = None"
    using with_iff [of "(fst (reopen E A))\<lparr>a_lastTime := now\<rparr>"] by simp
  moreover have "format_with E name level e A = None \<longleftrightarrow> a_formatter A = None" by (rule with_iff)
  ultimately have "appender_log E now name level e A = None \<longleftrightarrow> a_level A \<le> level \<and> a_formatter A = None"
    by (cases "a_kind A") (simp_all add: appender_log_def Stdout_log_def File_log_def Let_def)
  then show ?thesis by (cases "appender_log E now name level e A") auto
qed

text \<open>Whom a message of some level to logger \<open>i\<close> goes to: its own appenders if it has any, or those of its root.\<close>

definition receivers :: "log_state \<Rightarrow> nat \<Rightarrow> Level \<Rightarrow> nat list" where
  "receivers S i level =
    (case g_loggers S i of
       None \<Rightarrow> []
     | Some L \<Rightarrow>
         if level < l_level L then []
         else if l_appenders L \<noteq> [] then l_appenders L
         else (case Option.bind (l_root L) (g_loggers S) of
                 None \<Rightarrow> [] | Some R \<Rightarrow> if level < l_level R then [] else l_appenders R))"

text \<open>An appender that takes messages of this level but has no formatter.\<close>

definition formatless :: "log_state \<Rightarrow> Level \<Rightarrow> nat \<Rightarrow> bool" where
  "formatless S level a \<longleftrightarrow> (\<exists>A. g_appenders S a = Some A \<and> a_level A \<le> level \<and> a_formatter A = None)"

lemma log_appenders_iff:
  assumes "dates_fit E"
  shows "\<forall>a \<in> set as. g_appenders S a \<noteq> None \<Longrightarrow>
    (\<exists>S'. log_appenders E now name level e as S = Some S') \<longleftrightarrow> (\<forall>a \<in> set as. \<not> formatless S level a)"
proof (induction as arbitrary: S)
  case (Cons a as)
  then obtain A where A: "g_appenders S a = Some A" by auto
  show ?case
  proof (cases "appender_log E now name level e A")
    case None
    then have "a_level A \<le> level \<and> a_formatter A = None" using appender_log_iff [OF assms, of now name level e A] by auto
    then show ?thesis using None A by (simp add: formatless_def)
  next
    case (Some r)
    obtain A' out where r: "r = (A', out)" by fastforce
    let ?S = "S\<lparr>g_appenders := (g_appenders S)(a \<mapsto> A'), g_stdout := g_stdout S @ out\<rparr>"
    have keep: "a_formatter A' = a_formatter A" "a_level A' = a_level A" using appender_log_keeps Some r by simp_all
    have this_one: "\<not> formatless S level a"
      using appender_log_iff [OF assms, of now name level e A] Some r A by (auto simp: formatless_def)
    have same: "formatless ?S level b \<longleftrightarrow> formatless S level b" for b using A keep by (auto simp: formatless_def)
    have "(\<exists>S'. log_appenders E now name level e as ?S = Some S') \<longleftrightarrow> (\<forall>b \<in> set as. \<not> formatless ?S level b)"
      using Cons.prems by (intro Cons.IH) auto
    then show ?thesis using A Some r this_one by (simp add: same)
  qed
qed simp

lemma Logger_log_iff:
  assumes "log_ok null S" "dates_fit E" "g_loggers S i = Some L"
  shows "(\<exists>S'. Logger_log log_fuel E now i level e S = Some S') \<longleftrightarrow> (\<forall>a \<in> set (receivers S i level). \<not> formatless S level a)"
proof -
  have each: "logger_ok null S j K" if "g_loggers S j = Some K" for j K using assms(1) that unfolding log_ok_def by blast
  obtain R where R: "g_loggers S (g_root S) = Some R" using assms(1) unfolding log_ok_def by blast
  have roots: "l_root L = (if i = g_root S then None else Some (g_root S))" "l_root R = None"
    using each [OF assms(3)] each [OF R] by (simp_all add: logger_ok_def)
  have iff: "(\<exists>S'. log_appenders E now nm level e (l_appenders K) S = Some S') \<longleftrightarrow>
      (\<forall>a \<in> set (l_appenders K). \<not> formatless S level a)" if "g_loggers S j = Some K" for nm j K
    using each [OF that] by (intro log_appenders_iff [OF assms(2)]) (auto simp: logger_ok_def)
  have fuel: "log_fuel = Suc (Suc 0)" by (simp add: log_fuel_def)
  show ?thesis
    using iff [OF assms(3)] iff [OF R] by (simp add: fuel receivers_def assms(3) R roots not_le Ball_def)
qed

text \<open>
  C16. In every state a program can bring the loggers to, the loggers with a name have the root logger as their root, which
  has none, and asking for a name again gives the same logger.  Logging to a logger goes to its own appenders if it
  has any and else to those of the root logger, and returns, with fuel for one step to the root, exactly if none of
  these takes the message without having a formatter (a null pointer that the program passed to
  \<^verbatim>\<open>setFormatter\<close>); a program that passes no null formatter always returns from it.  All this as long as the dates
  fit into the buffer they are printed to.
\<close>

theorem logging_returns:
  assumes "log_reachable E null S" "dates_fit E" "getLogger time name S = (i, S1)"
  shows "(\<exists>L R. g_loggers S1 i = Some L \<and> l_name L = name \<and> l_root L = Some (g_root S1) \<and>
      g_loggers S1 (g_root S1) = Some R \<and> l_root R = None) \<and>
    getLogger time2 name S1 = (i, S1) \<and>
    ((\<exists>S'. Logger_log log_fuel E now i level e S1 = Some S') \<longleftrightarrow>
       (\<forall>a \<in> set (receivers S1 i level). \<not> formatless S1 level a)) \<and>
    (\<not> null \<longrightarrow> (\<exists>S'. Logger_log log_fuel E now i level e S1 = Some S'))"
proof -
  have ok: "log_ok null S1" and L: "\<exists>L. g_loggers S1 i = Some L \<and> l_name L = name" "i \<noteq> g_root S1" "map_of (g_names S1) name = Some i"
    using log_ok_get [OF log_reachable_ok [OF assms(1)] assms(3)] by auto
  obtain L where L1: "g_loggers S1 i = Some L" "l_name L = name" using L(1) by blast
  obtain R where R1: "g_loggers S1 (g_root S1) = Some R" using ok unfolding log_ok_def by blast
  have each: "logger_ok null S1 j K" if "g_loggers S1 j = Some K" for j K using ok that unfolding log_ok_def by blast
  have roots: "l_root L = Some (g_root S1)" "l_root R = None"
    using each [OF L1(1)] each [OF R1] L(2) by (simp_all add: logger_ok_def)
  note iff = Logger_log_iff [OF ok assms(2) L1(1)]
  have "\<not> formatless S1 level a" if "\<not> null" "a \<in> set (receivers S1 i level)" for a
    using that each [OF L1(1)] each [OF R1]
    by (auto simp: receivers_def formatless_def logger_ok_def L1(1) R1 roots split: if_split_asm)
  with iff have "\<not> null \<longrightarrow> (\<exists>S'. Logger_log log_fuel E now i level e S1 = Some S')" by blast
  with L1 R1 roots L(3) iff show ?thesis by (simp add: getLogger_def)
qed

definition sample_env :: log_env where
  "sample_env = \<lparr>le_strftime = (\<lambda>_ f _. Some f), le_can_open = (\<lambda>_. True)\<rparr>"

theorem logging_returns_witness:
  "\<exists>i S1 S'. getLogger 5 ''system'' (new_LoggerManager 0) = (i, S1) \<and> getLogger 6 ''system'' S1 = (i, S1) \<and>
    Logger_log log_fuel sample_env 7 i INFO (new_LogEvent 0 INFO ''a.cpp'' 1 0 1 0 0 ''main'') S1 = Some S'"
proof -
  obtain i S1 where g: "getLogger 5 ''system'' (new_LoggerManager 0) = (i, S1)" by fastforce
  have "dates_fit sample_env" by (simp add: dates_fit_def sample_env_def)
  from logging_returns [OF log_reachable.Start [where null = False] this g, of 6 7 INFO "new_LogEvent 0 INFO ''a.cpp'' 1 0 1 0 0 ''main''"] g show ?thesis by blast
qed

section \<open>Formatters of appenders\<close>

text \<open>
  An appender without a formatter is given the one its logger has when it is added, and is then marked as having its
  own, so that setting another formatter on the logger changes the logger and not the appender.
\<close>

theorem inherited_formatter_stays:
  assumes "log_reachable E False S" "g_loggers S i = Some L" "g_appenders S a = Some A" "a_formatter A = None"
  shows "\<exists>S1. addAppender i a S = Some S1 \<and>
    g_appenders S1 a = Some (A\<lparr>a_formatter := l_formatter L, a_hasFormatter := True\<rparr>) \<and>
    g_appenders (setFormatter i (Some F) S1) a = g_appenders S1 a \<and>
    map_option l_formatter (g_loggers (setFormatter i (Some F) S1) i) = Some (Some F)"
proof -
  have L: "l_formatter L \<noteq> None" using log_reachable_ok [OF assms(1)] assms(2) by (simp add: log_ok_def logger_ok_def)
  define S1 where "S1 = update_logger i (\<lambda>L. L\<lparr>l_appenders := l_appenders L @ [a]\<rparr>)
    (update_appender a (appender_setFormatter (l_formatter L)) S)"
  have add: "addAppender i a S = Some S1" using assms(2-4) by (simp add: addAppender_def S1_def Let_def)
  have A1: "g_appenders S1 a = Some (A\<lparr>a_formatter := l_formatter L, a_hasFormatter := True\<rparr>)"
    using assms(3) L by (simp add: S1_def update_logger_def update_appender_def appender_setFormatter_def)
  have L1: "g_loggers S1 i = Some (L\<lparr>l_appenders := l_appenders L @ [a]\<rparr>)"
    using assms(2) by (simp add: S1_def update_logger_def update_appender_def)
  let ?up = "\<lambda>a. update_appender a (\<lambda>A. if \<not> a_hasFormatter A then A\<lparr>a_formatter := Some F\<rparr> else A)"
  have up: "g_loggers (fold ?up as T) = g_loggers T \<and>
      (g_appenders T a = Some B \<and> a_hasFormatter B \<longrightarrow> g_appenders (fold ?up as T) a = Some B)" for as T B
    by (induction as rule: rev_induct) (auto simp: update_appender_def)
  let ?T = "update_logger i (\<lambda>L. L\<lparr>l_formatter := Some F\<rparr>) S1"
  have set: "setFormatter i (Some F) S1 = fold ?up (l_appenders L @ [a]) ?T"
    by (simp add: setFormatter_def L1)
  have "g_appenders (setFormatter i (Some F) S1) a = Some (A\<lparr>a_formatter := l_formatter L, a_hasFormatter := True\<rparr>)"
    unfolding set by (rule up [THEN conjunct2, rule_format]) (simp add: update_logger_def A1)
  moreover have "map_option l_formatter (g_loggers (setFormatter i (Some F) S1) i) = Some (Some F)"
    unfolding set up [THEN conjunct1] by (simp add: update_logger_def L1)
  ultimately show ?thesis using add A1 by (intro exI [of _ S1]) simp
qed

section \<open>File appenders\<close>

text \<open>A message to an appender: the circumstances and the second in which it arrives, its level and the event.\<close>

record message =
  msg_env :: log_env
  msg_time :: u64
  msg_level :: Level
  msg_event :: LogEvent

primrec file_logs :: "string \<Rightarrow> message list \<Rightarrow> LogAppender \<Rightarrow> LogAppender option" where
  "file_logs name [] A = Some A"
| "file_logs name (m # ms) A =
    Option.bind (appender_log (msg_env m) (msg_time m) name (msg_level m) (msg_event m) A) (\<lambda>(A1, out). file_logs name ms A1)"

definition message_text :: "LogFormatter \<Rightarrow> string \<Rightarrow> message \<Rightarrow> string" where
  "message_text F name m = the (formatter_format (le_strftime (msg_env m)) F name (msg_level m) (msg_event m))"

text \<open>
  Whether the file could be opened for the messages of second \<open>t\<close>: by the constructor, since an appender starts with the
  second 0, or for the first of these messages.
\<close>

definition opened_for :: "log_env \<Rightarrow> string \<Rightarrow> message list \<Rightarrow> u64 \<Rightarrow> bool" where
  "opened_for E f ms t =
    (if t = 0 then le_can_open E f
     else case List.find (\<lambda>m. msg_time m = t) ms of None \<Rightarrow> False | Some m \<Rightarrow> le_can_open (msg_env m) f)"

text \<open>The messages of the last second for which it could, and their text.\<close>

definition last_written :: "log_env \<Rightarrow> string \<Rightarrow> message list \<Rightarrow> message list" where
  "last_written E f ms =
    (let ws = filter (\<lambda>m. opened_for E f ms (msg_time m)) ms in filter (\<lambda>m. msg_time m = msg_time (last ws)) ws)"

definition text_of :: "LogFormatter \<Rightarrow> string \<Rightarrow> message list \<Rightarrow> string" where
  "text_of F name ms = concat (map (message_text F name) ms)"

definition last_time :: "message list \<Rightarrow> u64" where
  "last_time ms = (if ms = [] then 0 else msg_time (last ms))"

lemma file_logs_append:
  "file_logs name (ms @ ns) A = Option.bind (file_logs name ms A) (file_logs name ns)"
  by (induction ms arbitrary: A) (auto split: prod.splits simp: Option.bind_eq_Some_conv bind_split)

lemma last_time_max: "sorted (map msg_time ms) \<Longrightarrow> m \<in> set ms \<Longrightarrow> msg_time m \<le> last_time ms"
  by (induction ms) (auto simp: last_time_def)

lemma find_append: "List.find P (xs @ ys) = (case List.find P xs of None \<Rightarrow> List.find P ys | Some x \<Rightarrow> Some x)"
  by (induction xs) auto

lemma opened_for_snoc:
  "opened_for E f (ms @ [m]) t =
    (if t \<noteq> 0 \<and> t \<notin> msg_time ` set ms then msg_time m = t \<and> le_can_open (msg_env m) f else opened_for E f ms t)"
proof (cases "List.find (\<lambda>m. msg_time m = t) ms")
  case None
  then have "t \<notin> msg_time ` set ms" by (auto simp: find_None_iff)
  with None show ?thesis by (auto simp: opened_for_def find_append)
next
  case (Some x)
  then have "t \<in> msg_time ` set ms" by (auto simp: find_Some_iff)
  with Some show ?thesis by (simp add: opened_for_def find_append)
qed

lemma last_time_eq:
  assumes "sorted (map msg_time (ms @ [m]))" "x \<in> set ms" "msg_time x = msg_time m"
  shows "msg_time m = last_time ms"
proof -
  have "ms \<noteq> []" "\<forall>x \<in> set ms. msg_time x \<le> msg_time m" "sorted (map msg_time ms)"
    using assms(1,2) by (auto simp: sorted_append)
  then show ?thesis using last_time_max [of ms x] assms(2,3) by (simp add: last_time_def order.antisym)
qed

lemma opened_for_now:
  assumes "sorted (map msg_time (ms @ [m]))"
  shows "opened_for E f (ms @ [m]) (msg_time m) =
    (if msg_time m = last_time ms then opened_for E f ms (last_time ms) else le_can_open (msg_env m) f)"
proof (cases "msg_time m = last_time ms")
  case True
  then have "msg_time m = 0 \<or> msg_time m \<in> msg_time ` set ms" by (auto simp: last_time_def split: if_split_asm)
  with True show ?thesis by (auto simp: opened_for_snoc)
next
  case False
  then have "msg_time m \<notin> msg_time ` set ms" using last_time_eq [OF assms] by (metis imageE)
  moreover have "msg_time m \<noteq> 0"
  proof
    assume 0: "msg_time m = 0"
    then have "ms \<noteq> []" using False by (auto simp: last_time_def)
    moreover from this have "msg_time (last ms) \<le> msg_time m" using assms by (simp add: sorted_append)
    ultimately show False using False 0 by (simp add: last_time_def)
  qed
  ultimately show ?thesis using False by (simp add: opened_for_snoc)
qed

lemma last_written_snoc:
  assumes "sorted (map msg_time (ms @ [m]))"
  shows "last_written E f (ms @ [m]) =
    (if \<not> opened_for E f (ms @ [m]) (msg_time m) then last_written E f ms
     else (if msg_time m = last_time ms then last_written E f ms else []) @ [m])"
proof -
  let ?ws = "filter (\<lambda>m. opened_for E f ms (msg_time m)) ms"
  have old: "opened_for E f (ms @ [m]) (msg_time x) = opened_for E f ms (msg_time x)" if "x \<in> set ms" for x
    using that by (simp add: opened_for_snoc)
  then have ws: "filter (\<lambda>x. opened_for E f (ms @ [m]) (msg_time x)) ms = ?ws" by (intro filter_cong) simp_all
  show ?thesis
  proof (cases "opened_for E f (ms @ [m]) (msg_time m)")
    case True
    have new: "last_written E f (ms @ [m]) = filter (\<lambda>x. msg_time x = msg_time m) ?ws @ [m]"
      using True by (simp add: last_written_def ws)
    show ?thesis
    proof (cases "msg_time m = last_time ms \<and> ms \<noteq> []")
      case same: True
      then have m: "last ms \<in> set ms" "msg_time (last ms) = msg_time m" by (simp_all add: last_time_def)
      with True old have "opened_for E f ms (msg_time (last ms))" by metis
      then have "?ws \<noteq> []" "last ?ws = last ms"
        using same by (metis filter_append filter.simps append_butlast_last_id snoc_eq_iff_butlast)+
      then show ?thesis using True same m by (simp add: new) (simp add: last_written_def)
    next
      case other: False
      have "msg_time x \<noteq> msg_time m" if "x \<in> set ms" for x
        using last_time_eq [OF assms that] other that by auto
      then have "filter (\<lambda>x. msg_time x = msg_time m) ?ws = []" by (auto simp: filter_empty_conv)
      moreover have "ms = [] \<Longrightarrow> last_written E f ms = []" by (simp add: last_written_def)
      ultimately show ?thesis using True other by (auto simp: new)
    qed
  qed (simp add: last_written_def ws)
qed

text \<open>One message that the appender takes.\<close>

lemma File_log_step:
  assumes "dates_fit (msg_env m)" "a_kind A = FileLogAppender" "a_good A = a_open A" "a_formatter A = Some F" "a_level A \<le> msg_level m"
    and ok: "ok = (if msg_time m = a_lastTime A then a_open A else le_can_open (msg_env m) (a_filename A))"
  shows "\<exists>out. appender_log (msg_env m) (msg_time m) name (msg_level m) (msg_event m) A =
    Some (A\<lparr>a_lastTime := msg_time m, a_open := ok, a_good := ok,
      a_written := (if ok then (if msg_time m = a_lastTime A then a_written A else []) @ message_text F name m else a_written A)\<rparr>, out)"
proof -
  obtain z where "formatter_format (le_strftime (msg_env m)) F name (msg_level m) (msg_event m) = Some z"
    using formatter_total [OF assms(1)] by blast
  then show ?thesis
    using assms(2-6) by (cases "a_open A") (simp_all add: appender_log_def File_log_def reopen_def Let_def format_with_def message_text_def)
qed

text \<open>
  C39. A file appender only ever has the messages of one second in its file: it opens the file again, which empties it, for
  the first message of a new second.  After any messages in the order of time, those below the level of the
  appender are nowhere; of the others, the file has the text of those of the last second for which it could be
  opened, in order, and nothing else.  So the messages of a second for which it could not be opened are lost and
  those before stay; and the appender is ready for the second of the last message it took.  This is for an appender
  made with \<^verbatim>\<open>FileLogAppender\<close>, a formatter, and dates that fit into the buffer they are printed to.
\<close>

theorem file_keeps_last_second:
  assumes "sorted (map msg_time ms)" "\<forall>m \<in> set ms. dates_fit (msg_env m)" and taken: "taken = filter (\<lambda>m. lv \<le> msg_level m) ms"
  shows "\<exists>A. file_logs name ms ((appender_setFormatter (Some F) (new_FileLogAppender E f))\<lparr>a_level := lv\<rparr>) = Some A \<and>
    a_written A = concat (map (message_text F name) (last_written E f taken)) \<and>
    a_lastTime A = last_time taken \<and> a_open A = opened_for E f taken (last_time taken)"
proof -
  let ?A = "(appender_setFormatter (Some F) (new_FileLogAppender E f))\<lparr>a_level := lv\<rparr>"
  have A: "a_kind ?A = FileLogAppender" "a_open ?A = le_can_open E f" "a_good ?A = le_can_open E f" "a_formatter ?A = Some F"
    "a_level ?A = lv" "a_lastTime ?A = 0" "a_written ?A = []" "a_filename ?A = f"
    by (simp_all add: appender_setFormatter_def new_FileLogAppender_def new_StdoutLogAppender_def reopen_def)
  define after where "after = (\<lambda>ts. ?A\<lparr>a_lastTime := last_time ts, a_open := opened_for E f ts (last_time ts),
    a_good := opened_for E f ts (last_time ts), a_written := text_of F name (last_written E f ts)\<rparr>)"
  have "file_logs name ms ?A = Some (after (filter (\<lambda>m. lv \<le> msg_level m) ms))"
    using assms(1,2)
  proof (induction ms rule: rev_induct)
    case Nil
    show ?case using A by (simp add: after_def last_time_def opened_for_def last_written_def text_of_def)
  next
    case (snoc m ms)
    let ?ts = "filter (\<lambda>m. lv \<le> msg_level m) ms"
    have IH: "file_logs name ms ?A = Some (after ?ts)" using snoc by (simp add: sorted_append)
    show ?case
    proof (cases "lv \<le> msg_level m")
      case False
      then have "appender_log (msg_env m) (msg_time m) name (msg_level m) (msg_event m) (after ?ts) = Some (after ?ts, [])"
        using A by (simp add: after_def appender_log_def File_log_def)
      with False IH show ?thesis by (simp add: file_logs_append)
    next
      case True
      have sorted: "sorted (map msg_time (?ts @ [m]))"
        using snoc.prems(1) sorted_filter [of msg_time ms "\<lambda>m. lv \<le> msg_level m"] by (auto simp: sorted_append)
      let ?ok = "if msg_time m = last_time ?ts then opened_for E f ?ts (last_time ?ts) else le_can_open (msg_env m) f"
      note ok = opened_for_now [OF sorted, of E f, symmetric]
      have fits: "dates_fit (msg_env m)" using snoc.prems(2) by simp
      have a: "a_kind (after ?ts) = FileLogAppender" "a_good (after ?ts) = a_open (after ?ts)" "a_formatter (after ?ts) = Some F"
        "a_level (after ?ts) \<le> msg_level m" "a_lastTime (after ?ts) = last_time ?ts" "a_filename (after ?ts) = f"
        "a_open (after ?ts) = opened_for E f ?ts (last_time ?ts)" "a_written (after ?ts) = text_of F name (last_written E f ?ts)"
        using A True by (simp_all add: after_def)
      obtain out where "appender_log (msg_env m) (msg_time m) name (msg_level m) (msg_event m) (after ?ts) =
        Some ((after ?ts)\<lparr>a_lastTime := msg_time m, a_open := ?ok, a_good := ?ok, a_written :=
          (if ?ok then (if msg_time m = last_time ?ts then a_written (after ?ts) else []) @ message_text F name m
           else a_written (after ?ts))\<rparr>, out)"
        using File_log_step [OF fits a(1-4) refl, of name] unfolding a(5-7) by blast
      moreover have "(after ?ts)\<lparr>a_lastTime := msg_time m, a_open := ?ok, a_good := ?ok, a_written :=
          (if ?ok then (if msg_time m = last_time ?ts then a_written (after ?ts) else []) @ message_text F name m
           else a_written (after ?ts))\<rparr> = after (?ts @ [m])"
        unfolding ok a(8) using last_written_snoc [OF sorted, of E f]
        by (simp add: after_def last_time_def [of "_ @ _"] text_of_def)
      ultimately show ?thesis using True IH by (simp add: file_logs_append)
    qed
  qed
  then show ?thesis by (simp add: after_def taken text_of_def)
qed

definition sample_event :: "string \<Rightarrow> LogEvent" where
  "sample_event msg = (new_LogEvent 0 INFO ''a.cpp'' 1 0 1 0 0 ''main'')\<lparr>ev_content := msg\<rparr>"

theorem inherited_formatter_stays_witness:
  "\<exists>S1. addAppender 0 2 (snd (new_appender new_StdoutLogAppender (new_LoggerManager 0))) = Some S1 \<and>
    g_appenders (setFormatter 0 (Some \<lparr>f_pattern = ''%m'', f_items = [MessageItem], f_error = False\<rparr>) S1) 2 = g_appenders S1 2"
proof -
  obtain F where F: "new_LogFormatter DEFAULT_PATTERN = Some F" using default_formatter by blast
  let ?S = "snd (new_appender new_StdoutLogAppender (new_LoggerManager 0))"
  have M: "new_LoggerManager 0 = \<lparr>g_loggers = [0 \<mapsto> (new_Logger ''root'' 0)\<lparr>l_appenders := [1]\<rparr>],
      g_appenders = [1 \<mapsto> appender_setFormatter (Some F) new_StdoutLogAppender], g_next = 2, g_names = [], g_root = 0, g_stdout = []\<rparr>"
    using F by (auto simp: new_LoggerManager_def addAppender_def new_Logger_def new_StdoutLogAppender_def update_logger_def
        update_appender_def Let_def)
  have "log_reachable sample_env False ?S"
    by (rule log_reachable.Make [OF log_reachable.Start, of new_StdoutLogAppender 0 "g_next (new_LoggerManager 0)"])
      (simp add: new_appender_def)
  moreover have "g_loggers ?S 0 = Some ((new_Logger ''root'' 0)\<lparr>l_appenders := [1]\<rparr>)"
    "g_appenders ?S 2 = Some new_StdoutLogAppender" "a_formatter new_StdoutLogAppender = None"
    by (simp_all add: M new_appender_def new_StdoutLogAppender_def)
  ultimately show ?thesis
    using inherited_formatter_stays [of sample_env ?S 0 _ 2 new_StdoutLogAppender
        "\<lparr>f_pattern = ''%m'', f_items = [MessageItem], f_error = False\<rparr>"] by blast
qed

definition sample_formatter :: LogFormatter where
  "sample_formatter = \<lparr>f_pattern = ''%m'', f_items = [MessageItem], f_error = False\<rparr>"

text \<open>Two seconds in which the file can be opened and one in which it cannot.\<close>

definition sample_messages :: "message list" where
  "sample_messages =
    [\<lparr>msg_env = sample_env, msg_time = 1, msg_level = INFO, msg_event = sample_event ''one''\<rparr>,
     \<lparr>msg_env = sample_env, msg_time = 2, msg_level = WARN, msg_event = sample_event ''two''\<rparr>,
     \<lparr>msg_env = sample_env, msg_time = 2, msg_level = DEBUG, msg_event = sample_event ''small''\<rparr>,
     \<lparr>msg_env = sample_env, msg_time = 2, msg_level = INFO, msg_event = sample_event ''three''\<rparr>,
     \<lparr>msg_env = sample_env\<lparr>le_can_open := \<lambda>_. False\<rparr>, msg_time = 3, msg_level = INFO, msg_event = sample_event ''four''\<rparr>]"

theorem file_keeps_last_second_witness:
  "\<exists>A. file_logs ''root'' sample_messages
      ((appender_setFormatter (Some sample_formatter) (new_FileLogAppender sample_env ''a.log''))\<lparr>a_level := INFO\<rparr>) = Some A \<and>
    a_written A = ''twothree'' \<and> \<not> a_open A"
proof -
  have "\<forall>m \<in> set sample_messages. dates_fit (msg_env m)" "sorted (map msg_time sample_messages)"
    by (simp_all add: sample_messages_def dates_fit_def sample_env_def)
  note kept = file_keeps_last_second [OF this(2,1) refl, where name = "''root''" and F = sample_formatter and E = sample_env and f = "''a.log''" and lv = INFO]
  let ?taken = "filter (\<lambda>m. INFO \<le> msg_level m) sample_messages"
  have taken: "?taken = [sample_messages ! 0, sample_messages ! 1, sample_messages ! 3, sample_messages ! 4]"
    by (simp add: sample_messages_def levels)
  have "opened_for sample_env ''a.log'' ?taken t = (t = 1 \<or> t = 2)" if "t \<in> {1, 2, 3}" for t
    using that unfolding taken by (auto simp: opened_for_def sample_messages_def sample_env_def)
  then have "last_written sample_env ''a.log'' ?taken = [sample_messages ! 1, sample_messages ! 3]"
    and "\<not> opened_for sample_env ''a.log'' ?taken (last_time ?taken)"
    unfolding taken by (simp_all add: last_written_def last_time_def sample_messages_def)
  moreover have "concat (map (message_text sample_formatter ''root'') [sample_messages ! 1, sample_messages ! 3]) = ''twothree''"
    by (simp add: sample_messages_def message_text_def formatter_format_def item_format_def sample_event_def
        sample_formatter_def)
  ultimately show ?thesis using kept by metis
qed

section \<open>Configuring the loggers\<close>

lemma fold_none: "fold (\<lambda>x S. Option.bind S (f x)) xs None = None"
  by (induction xs) auto

lemma LogDefine_find:
  "sorted_wrt LogDefine_less ds \<Longrightarrow> d0 \<in> set ds \<Longrightarrow> ld_name d = ld_name d0 \<Longrightarrow> set_find LogDefine_less d ds = Some d0"
proof (induction ds)
  case (Cons e ds)
  show ?case
  proof (cases "e = d0")
    case True
    with Cons.prems(3) string_less_irrefl show ?thesis by (simp add: set_find_def from_bound_def LogDefine_less_def)
  next
    case False
    then have "LogDefine_less e d" using Cons.prems by (auto simp: LogDefine_less_def)
    with Cons False show ?thesis by (simp add: set_find_def from_bound_def)
  qed
qed simp

text \<open>
  A definition whose logger was already defined with the same name, formatter and appenders, and with both levels set,
  counts as unchanged, and the listener then uses a logger it has not looked up: reloading a file in which one such
  logger is left as it was, or only its level is changed, goes through a null pointer.
\<close>

theorem unchanged_logger_crashes:
  assumes "sorted_wrt LogDefine_less old" "d0 \<in> set old" "d \<in> set new" "ld_name d = ld_name d0"
    "ld_formatter d = ld_formatter d0" "ld_appenders d = ld_appenders d0" "ld_level d \<noteq> UNKNOW" "ld_level d0 \<noteq> UNKNOW"
  shows "on_logs_changed E time old new S = None"
proof -
  have "list_all2 LogAppenderDefine_eq xs xs" for xs by (induction xs) (simp_all add: LogAppenderDefine_eq_def)
  then have "LogDefine_eq d0 d" using assms(4-8) by (simp add: LogDefine_eq_def UNKNOW_def)
  then have crash: "configure_logger E time old d T = None" for T
    by (simp add: configure_logger_def LogDefine_find [OF assms(1,2,4)])
  obtain xs ys where new: "new = xs @ d # ys" using assms(3) by (meson split_list)
  have "Option.bind T (configure_logger E time old d) = None" for T by (cases T) (simp_all add: crash)
  then show ?thesis by (simp add: on_logs_changed_def new fold_none)
qed

definition sample_define :: "string \<Rightarrow> Level \<Rightarrow> LogDefine" where
  "sample_define name level = \<lparr>ld_name = name, ld_level = level, ld_formatter = [],
    ld_appenders = [new_LogAppenderDefine\<lparr>ad_type := 2\<rparr>]\<rparr>"

lemma sample_define_simps:
  "ld_name (sample_define name level) = name" "ld_level (sample_define name level) = level"
  "ld_formatter (sample_define name level) = []"
  "ld_appenders (sample_define name level) = [new_LogAppenderDefine\<lparr>ad_type := 2\<rparr>]"
  by (simp_all add: sample_define_def)

theorem unchanged_logger_crashes_witness:
  "on_logs_changed sample_env 0 [sample_define ''root'' INFO, sample_define ''system'' INFO]
    [sample_define ''system'' ERROR] (new_LoggerManager 0) = None"
proof -
  have "sorted_wrt LogDefine_less [sample_define ''root'' INFO, sample_define ''system'' INFO]"
    by (simp add: LogDefine_less_def sample_define_def) code_simp
  then show ?thesis
    by (rule unchanged_logger_crashes [of _ "sample_define ''system'' INFO" "sample_define ''system'' ERROR"])
      (simp_all add: sample_define_simps levels)
qed

text \<open>What one definition of an appender adds to a logger.\<close>

definition is_configured :: "log_env \<Rightarrow> log_state \<Rightarrow> LogFormatter option \<Rightarrow> nat \<Rightarrow> LogAppenderDefine \<Rightarrow> bool" where
  "is_configured E S F a d \<longleftrightarrow> (\<exists>A. g_appenders S a = Some A \<and> a_level A = ad_level d \<and> a_formatter A = F \<and>
    a_kind A = (if ad_type d = 1 then FileLogAppender else StdoutLogAppender) \<and>
    (ad_type d = 1 \<longrightarrow> a_filename A = ad_file d))"

lemma configure_appender_adds:
  assumes "log_ok null S" "g_loggers S i = Some L" "ad_type d = 1 \<or> ad_type d = 2"
  shows "\<exists>A S'. configure_appender E i d S = Some S' \<and> log_ok null S' \<and> g_names S' = g_names S \<and>
    g_loggers S' = (g_loggers S)(i \<mapsto> L\<lparr>l_appenders := l_appenders L @ [g_next S]\<rparr>) \<and>
    g_appenders S' = (g_appenders S)(g_next S \<mapsto> A) \<and> g_next S' = g_next S + 1 \<and> is_configured E S' (l_formatter L) (g_next S) d"
proof -
  define A where "A = (if ad_type d = 1 then new_FileLogAppender E (ad_file d) else new_StdoutLogAppender)\<lparr>a_level := ad_level d\<rparr>"
  have A: "a_formatter A = None" "a_level A = ad_level d" "a_kind A = (if ad_type d = 1 then FileLogAppender else StdoutLogAppender)"
    "ad_type d = 1 \<Longrightarrow> a_filename A = ad_file d"
    by (simp_all add: A_def new_FileLogAppender_def new_StdoutLogAppender_def reopen_def)
  define S1 where "S1 = S\<lparr>g_appenders := (g_appenders S)(g_next S \<mapsto> A), g_next := g_next S + 1\<rparr>"
  have ok1: "log_ok null S1" using log_ok_make [OF assms(1), of A "g_next S" S1] by (simp add: new_appender_def S1_def)
  obtain S' where add: "addAppender i (g_next S) S1 = Some S'"
    using assms(2) by (simp add: addAppender_def S1_def)
  have conf: "configure_appender E i d S = addAppender i (g_next S) S1"
    using assms(3) by (simp add: configure_appender_def new_appender_def S1_def A_def)
  have S': "S' = update_logger i (\<lambda>L. L\<lparr>l_appenders := l_appenders L @ [g_next S]\<rparr>)
      (update_appender (g_next S) (appender_setFormatter (l_formatter L)) S1)"
    using add A(1) assms(2) by (simp add: addAppender_def Let_def S1_def)
  show ?thesis
    using log_ok_add [OF ok1 add] conf add A assms(2)
    by (intro exI [of _ "appender_setFormatter (l_formatter L) A"] exI [of _ S'])
      (simp add: S' S1_def update_logger_def update_appender_def is_configured_def appender_setFormatter_def)
qed

lemma configure_appenders_add:
  assumes "log_ok null S" "g_loggers S i = Some L" "list_all2 (is_configured E S (l_formatter L)) (l_appenders L) made"
  shows "\<exists>L' S'. fold (\<lambda>ad S. Option.bind S (configure_appender E i ad)) ads (Some S) = Some S' \<and> log_ok null S' \<and>
    g_names S' = g_names S \<and> g_loggers S' = (g_loggers S)(i \<mapsto> L') \<and> l_level L' = l_level L \<and>
    l_formatter L' = l_formatter L \<and> (\<forall>a A. g_appenders S a = Some A \<longrightarrow> g_appenders S' a = Some A) \<and>
    list_all2 (is_configured E S' (l_formatter L)) (l_appenders L')
      (made @ filter (\<lambda>d. ad_type d = 1 \<or> ad_type d = 2) ads)"
  using assms
proof (induction ads arbitrary: S L made)
  case Nil
  then show ?case by (intro exI [of _ L] exI [of _ S]) (simp add: fun_upd_idem)
next
  case (Cons d ads)
  show ?case
  proof (cases "ad_type d = 1 \<or> ad_type d = 2")
    case True
    obtain A S1 where S1: "configure_appender E i d S = Some S1" "log_ok null S1" "g_names S1 = g_names S"
      "g_loggers S1 = (g_loggers S)(i \<mapsto> L\<lparr>l_appenders := l_appenders L @ [g_next S]\<rparr>)"
      "g_appenders S1 = (g_appenders S)(g_next S \<mapsto> A)" "is_configured E S1 (l_formatter L) (g_next S) d"
      using configure_appender_adds [OF Cons.prems(1,2) True] by metis
    have "is_configured E S1 F a x" if "is_configured E S F a x" for F a x
    proof -
      have "a < g_next S" using that Cons.prems(1) by (auto simp: is_configured_def log_ok_def)
      with that show ?thesis by (simp add: is_configured_def S1(5))
    qed
    then have "list_all2 (is_configured E S1 (l_formatter L)) (l_appenders L @ [g_next S]) (made @ [d])"
      using Cons.prems(3) S1(6) by (metis list_all2_Cons list_all2_Nil list_all2_appendI list_all2_mono)
    moreover have "g_loggers S1 i = Some (L\<lparr>l_appenders := l_appenders L @ [g_next S]\<rparr>)" by (simp add: S1(4))
    ultimately obtain L' S' where S': "fold (\<lambda>ad S. Option.bind S (configure_appender E i ad)) ads (Some S1) = Some S'" "log_ok null S'"
      "g_names S' = g_names S1" "g_loggers S' = (g_loggers S1)(i \<mapsto> L')" "l_level L' = l_level L" "l_formatter L' = l_formatter L"
      "\<forall>a A. g_appenders S1 a = Some A \<longrightarrow> g_appenders S' a = Some A"
      "list_all2 (is_configured E S' (l_formatter L)) (l_appenders L') ((made @ [d]) @ filter (\<lambda>d. ad_type d = 1 \<or> ad_type d = 2) ads)"
      using Cons.IH [OF S1(2), of "L\<lparr>l_appenders := l_appenders L @ [g_next S]\<rparr>" "made @ [d]"]
      by (auto simp del: fun_upd_apply)
    moreover have "g_appenders S' a = Some A" if "g_appenders S a = Some A" for a A
    proof -
      have "a < g_next S" using that Cons.prems(1) by (auto simp: log_ok_def)
      then show ?thesis using that S'(7) S1(5) by simp
    qed
    ultimately show ?thesis
      using S1 True by (intro exI [of _ L'] exI [of _ S']) simp
  next
    case False
    then show ?thesis using Cons.IH [OF Cons.prems] by (auto simp: configure_appender_def)
  qed
qed

text \<open>What a definition makes of the logger of its name; \<open>F\<close> is the formatter the logger has then.\<close>

definition has_definition :: "log_env \<Rightarrow> log_state \<Rightarrow> LogFormatter option \<Rightarrow> LogDefine \<Rightarrow> bool" where
  "has_definition E S F d \<longleftrightarrow> (\<exists>i L. map_of (g_names S) (ld_name d) = Some i \<and> g_loggers S i = Some L \<and> l_name L = ld_name d \<and>
    l_level L = ld_level d \<and> l_formatter L = F \<and>
    list_all2 (is_configured E S F) (l_appenders L) (filter (\<lambda>d. ad_type d = 1 \<or> ad_type d = 2) (ld_appenders d)))"

definition is_disabled :: "log_state \<Rightarrow> LogDefine \<Rightarrow> bool" where
  "is_disabled S d \<longleftrightarrow> (\<exists>i L. map_of (g_names S) (ld_name d) = Some i \<and> g_loggers S i = Some L \<and> l_level L = 100 \<and> l_appenders L = [])"

text \<open>The formatter that the logger of a name has, or would have when it is made.\<close>

definition formatter_of :: "log_state \<Rightarrow> string \<Rightarrow> LogFormatter option" where
  "formatter_of S name = (case map_of (g_names S) name of
      Some i \<Rightarrow> Option.bind (g_loggers S i) l_formatter
    | None \<Rightarrow> new_LogFormatter DEFAULT_PATTERN)"

definition defined_formatter :: "log_state \<Rightarrow> LogDefine \<Rightarrow> LogFormatter option" where
  "defined_formatter S d =
    (if ld_formatter d = [] then formatter_of S (ld_name d)
     else case new_LogFormatter (ld_formatter d) of
       None \<Rightarrow> None | Some F \<Rightarrow> if f_error F then formatter_of S (ld_name d) else Some F)"

text \<open>Loggers with other names are the same as before, and so are the appenders there were.\<close>

definition keeps_others :: "string set \<Rightarrow> log_state \<Rightarrow> log_state \<Rightarrow> bool" where
  "keeps_others N S S' \<longleftrightarrow>
    (\<forall>name. name \<notin> N \<longrightarrow> map_of (g_names S') name = map_of (g_names S) name \<and>
       (\<forall>i. map_of (g_names S) name = Some i \<longrightarrow> g_loggers S' i = g_loggers S i)) \<and>
    (\<forall>a A. g_appenders S a = Some A \<longrightarrow> g_appenders S' a = Some A)"

lemma keeps_others_refl: "keeps_others N S S"
  by (simp add: keeps_others_def)

lemma keeps_others_trans: "keeps_others N S S' \<Longrightarrow> keeps_others M S' S'' \<Longrightarrow> keeps_others (N \<union> M) S S''"
  unfolding keeps_others_def by (metis UnCI)

lemma has_definition_keep:
  assumes "has_definition E S F d" "keeps_others N S S'" "ld_name d \<notin> N"
  shows "has_definition E S' F d"
proof -
  have "list_all2 (is_configured E S' F) as ds" if "list_all2 (is_configured E S F) as ds" for as ds
    using that assms(2) by (elim list_all2_mono) (auto simp: is_configured_def keeps_others_def)
  moreover obtain i L where "map_of (g_names S) (ld_name d) = Some i" "g_loggers S i = Some L" "l_name L = ld_name d"
    "l_level L = ld_level d" "l_formatter L = F"
    "list_all2 (is_configured E S F) (l_appenders L) (filter (\<lambda>d. ad_type d = 1 \<or> ad_type d = 2) (ld_appenders d))"
    using assms(1) unfolding has_definition_def by blast
  moreover from this(1,2) have "map_of (g_names S') (ld_name d) = Some i" "g_loggers S' i = Some L"
    using assms(2,3) by (simp_all add: keeps_others_def)
  ultimately show ?thesis unfolding has_definition_def by blast
qed

lemma is_disabled_keep: "is_disabled S d \<Longrightarrow> keeps_others N S S' \<Longrightarrow> ld_name d \<notin> N \<Longrightarrow> is_disabled S' d"
  unfolding is_disabled_def keeps_others_def by metis

lemma formatter_of_keep: "keeps_others N S S' \<Longrightarrow> name \<notin> N \<Longrightarrow> formatter_of S' name = formatter_of S name"
  by (auto simp: formatter_of_def keeps_others_def split: option.split)

text \<open>Looking a logger up, and changing the logger of a name.\<close>

lemma getLogger_keeps:
  assumes "log_ok null S" "getLogger time name S = (i, S')"
  shows "keeps_others {name} S S' \<and> log_ok null S' \<and> map_of (g_names S') name = Some i \<and> g_appenders S' = g_appenders S \<and>
    (\<exists>L. g_loggers S' i = Some L \<and> l_name L = name \<and> l_formatter L = formatter_of S name)"
proof -
  note ok = log_ok_get [OF assms]
  have next_free: "g_loggers S (g_next S) = None" using assms(1) by (fastforce simp: log_ok_def)
  have sorted: "map_sorted string_less (g_names S)" using assms(1) by (simp add: log_ok_def)
  show ?thesis
  proof (cases "map_of (g_names S) name")
    case None
    have "g_next S \<noteq> j" if "map_of (g_names S) n = Some j" for n j
      using assms(1) that next_free unfolding log_ok_def by (metis option.distinct(1))
    moreover have "S' = S\<lparr>g_loggers := (g_loggers S)(g_next S \<mapsto> (new_Logger name time)\<lparr>l_root := Some (g_root S)\<rparr>),
        g_next := g_next S + 1, g_names := map_put string_less name (g_next S) (g_names S)\<rparr>" "i = g_next S"
      using assms(2) None by (auto simp: getLogger_def)
    ultimately show ?thesis
      using ok None by (auto simp: keeps_others_def string_map.map_of_put [OF sorted] formatter_of_def new_Logger_def)
  next
    case (Some j)
    then show ?thesis using ok assms(2) by (auto simp: getLogger_def keeps_others_refl formatter_of_def)
  qed
qed

lemma keeps_others_logger:
  assumes "log_ok null S" "map_of (g_names S) name = Some i" "g_names S' = g_names S"
    and "\<And>j. j \<noteq> i \<Longrightarrow> g_loggers S' j = g_loggers S j" "\<And>a A. g_appenders S a = Some A \<Longrightarrow> g_appenders S' a = Some A"
  shows "keeps_others {name} S S'"
proof -
  have "j \<noteq> i" if "n \<noteq> name" "map_of (g_names S) n = Some j" for n j
    using assms(1,2) that unfolding log_ok_def by (metis option.inject)
  then show ?thesis using assms(3-5) by (auto simp: keeps_others_def)
qed

lemma configure_logger_defines:
  assumes ok: "log_ok null S" and pattern: "ld_formatter d = [] \<or> new_LogFormatter (ld_formatter d) \<noteq> None"
    and changed: "\<And>d0. set_find LogDefine_less d old = Some d0 \<Longrightarrow> \<not> LogDefine_eq d0 d"
  shows "\<exists>S'. configure_logger E time old d S = Some S' \<and> log_ok null S' \<and> keeps_others {ld_name d} S S' \<and>
    has_definition E S' (defined_formatter S d) d"
proof -
  obtain i S0 where get: "getLogger time (ld_name d) S = (i, S0)" by fastforce
  from getLogger_keeps [OF ok get]
  obtain L0 where S0: "keeps_others {ld_name d} S S0" "log_ok null S0" "map_of (g_names S0) (ld_name d) = Some i"
    and L0: "g_loggers S0 i = Some L0" "l_name L0 = ld_name d" "l_formatter L0 = formatter_of S (ld_name d)"
    by blast
  let ?S1 = "setLevel i (ld_level d) S0" and ?L1 = "L0\<lparr>l_level := ld_level d\<rparr>"
  have ok1: "log_ok null ?S1" unfolding setLevel_def by (rule log_ok_update_logger [OF S0(2)]) (simp add: logger_ok_def)
  have S1: "g_loggers ?S1 = (g_loggers S0)(i \<mapsto> ?L1)" "g_names ?S1 = g_names S0" "g_appenders ?S1 = g_appenders S0"
    by (simp_all add: setLevel_def update_logger_def L0)
  let ?set = "if ld_formatter d \<noteq> [] then setFormatter_text i (ld_formatter d) ?S1 else Some ?S1"
  let ?L2 = "?L1\<lparr>l_formatter := defined_formatter S d\<rparr>"
  have "\<exists>S2. ?set = Some S2 \<and> log_ok null S2 \<and> g_names S2 = g_names S0 \<and> g_appenders S2 = g_appenders S0 \<and>
    g_loggers S2 = (g_loggers S0)(i \<mapsto> ?L2)"
  proof (cases "ld_formatter d = []")
    case True
    have "?L2 = ?L1" using True L0(3) by (cases L0) (simp add: defined_formatter_def)
    with True ok1 S1 show ?thesis by simp
  next
    case False
    then obtain F where F: "new_LogFormatter (ld_formatter d) = Some F" using pattern by blast
    have "log_ok null (update_logger i (\<lambda>L. L\<lparr>l_formatter := Some F\<rparr>) ?S1)"
      by (rule log_ok_update_logger [OF ok1]) (simp add: logger_ok_def)
    moreover have "log_ok null (?S1\<lparr>g_stdout := out\<rparr>)" for out using ok1 by (simp add: log_ok_def logger_ok_def)
    ultimately show ?thesis
      using False F S1 L0 by (auto simp: setFormatter_text_def defined_formatter_def update_logger_def)
  qed
  then obtain S2 where S2: "?set = Some S2" "log_ok null S2" "g_names S2 = g_names S0" "g_appenders S2 = g_appenders S0"
    "g_loggers S2 = (g_loggers S0)(i \<mapsto> ?L2)"
    by blast
  let ?S3 = "clearAppenders i S2"
  have ok3: "log_ok null ?S3" unfolding clearAppenders_def by (rule log_ok_update_logger [OF S2(2)]) (simp add: logger_ok_def)
  have S3: "g_loggers ?S3 = (g_loggers S0)(i \<mapsto> ?L2\<lparr>l_appenders := []\<rparr>)" "g_names ?S3 = g_names S0" "g_appenders ?S3 = g_appenders S0"
    by (simp_all add: clearAppenders_def update_logger_def S2)
  then have "g_loggers ?S3 i = Some (?L2\<lparr>l_appenders := []\<rparr>)" by simp
  from configure_appenders_add [OF ok3 this, of E "[]" "ld_appenders d"]
  obtain L4 S4 where S4: "fold (\<lambda>ad S. Option.bind S (configure_appender E i ad)) (ld_appenders d) (Some ?S3) = Some S4"
    "log_ok null S4" "g_names S4 = g_names S0" "g_loggers S4 = (g_loggers S0)(i \<mapsto> L4)" "l_level L4 = ld_level d"
    "l_formatter L4 = defined_formatter S d" "\<forall>a A. g_appenders S0 a = Some A \<longrightarrow> g_appenders S4 a = Some A"
    "list_all2 (is_configured E S4 (defined_formatter S d)) (l_appenders L4) (filter (\<lambda>d. ad_type d = 1 \<or> ad_type d = 2) (ld_appenders d))"
    by (auto simp: S3)
  have run: "configure_logger E time old d S = Some S4"
    using get S2(1) S4(1) changed by (auto simp: configure_logger_def Let_def split del: if_split split: option.split)
  have name: "map_of (g_names S4) (ld_name d) = Some i" using S0(3) S4(3) by simp
  then have "\<exists>L. g_loggers S4 i = Some L \<and> l_name L = ld_name d" using S4(2) unfolding log_ok_def by blast
  then have "has_definition E S4 (defined_formatter S d) d" using name S4(4-6,8) by (auto simp: has_definition_def)
  moreover have "keeps_others {ld_name d} S S4"
    using keeps_others_trans [OF S0(1) keeps_others_logger [OF S0(2,3) S4(3)]] S4(4,7) by simp
  ultimately show ?thesis using run S4(2) by blast
qed

lemma configure_all:
  assumes "log_ok null S" "distinct (map ld_name ds)"
    and "\<forall>d \<in> set ds. ld_formatter d = [] \<or> new_LogFormatter (ld_formatter d) \<noteq> None"
    and "\<forall>d \<in> set ds. \<forall>d0. set_find LogDefine_less d old = Some d0 \<longrightarrow> \<not> LogDefine_eq d0 d"
  shows "\<exists>S'. fold (\<lambda>d S. Option.bind S (configure_logger E time old d)) ds (Some S) = Some S' \<and> log_ok null S' \<and>
    keeps_others (ld_name ` set ds) S S' \<and> (\<forall>d \<in> set ds. has_definition E S' (defined_formatter S d) d)"
  using assms(2-)
proof (induction ds rule: rev_induct)
  case Nil
  then show ?case using assms(1) by (simp add: keeps_others_refl)
next
  case (snoc d ds)
  then obtain S1 where S1: "fold (\<lambda>d S. Option.bind S (configure_logger E time old d)) ds (Some S) = Some S1" "log_ok null S1"
    "keeps_others (ld_name ` set ds) S S1" "\<forall>d \<in> set ds. has_definition E S1 (defined_formatter S d) d"
    by auto
  obtain S2 where S2: "configure_logger E time old d S1 = Some S2" "log_ok null S2" "keeps_others {ld_name d} S1 S2"
    "has_definition E S2 (defined_formatter S1 d) d"
    using configure_logger_defines [OF S1(2), of d old E time] snoc.prems by auto
  have new: "ld_name d \<notin> ld_name ` set ds" using snoc.prems(1) by auto
  have "defined_formatter S1 d = defined_formatter S d"
    using formatter_of_keep [OF S1(3) new] by (simp add: defined_formatter_def split: option.split)
  moreover have "has_definition E S2 (defined_formatter S c) c" if "c \<in> set ds" for c
    using has_definition_keep [OF _ S2(3)] S1(4) that new by (metis image_eqI singletonD)
  moreover have "keeps_others (ld_name ` set (ds @ [d])) S S2" using keeps_others_trans [OF S1(3) S2(3)] by simp
  ultimately show ?case using S1(1) S2 by auto
qed

lemma disable_logger_disables:
  assumes "log_ok null S"
  shows "log_ok null (disable_logger time new d S) \<and> keeps_others {ld_name d} S (disable_logger time new d S) \<and>
    (set_find LogDefine_less d new = None \<longrightarrow> is_disabled (disable_logger time new d S) d) \<and>
    (set_find LogDefine_less d new \<noteq> None \<longrightarrow> disable_logger time new d S = S)"
proof (cases "set_find LogDefine_less d new")
  case None
  obtain i S0 where get: "getLogger time (ld_name d) S = (i, S0)" by fastforce
  from getLogger_keeps [OF assms get]
  obtain L0 where S0: "keeps_others {ld_name d} S S0" "log_ok null S0" "map_of (g_names S0) (ld_name d) = Some i"
    "g_loggers S0 i = Some L0"
    by blast
  let ?S2 = "clearAppenders i (setLevel i 100 S0)"
  have S2: "disable_logger time new d S = ?S2" using None get by (simp add: disable_logger_def)
  have "log_ok null ?S2"
    unfolding clearAppenders_def setLevel_def
    by (intro log_ok_update_logger S0(2)) (auto simp: logger_ok_def update_logger_def)
  moreover have "keeps_others {ld_name d} S0 ?S2"
    by (rule keeps_others_logger [OF S0(2,3)]) (simp_all add: clearAppenders_def setLevel_def update_logger_def)
  moreover have "is_disabled ?S2 d"
    using S0(3,4) by (simp add: is_disabled_def clearAppenders_def setLevel_def update_logger_def)
  ultimately show ?thesis using keeps_others_trans [OF S0(1), of "{ld_name d}" ?S2] None by (simp add: S2)
qed (use assms in \<open>simp add: disable_logger_def keeps_others_refl\<close>)

lemma disable_all:
  assumes "log_ok null S" "distinct (map ld_name ds)"
  shows "log_ok null (fold (disable_logger time new) ds S) \<and>
    keeps_others (ld_name ` {d \<in> set ds. set_find LogDefine_less d new = None}) S (fold (disable_logger time new) ds S) \<and>
    (\<forall>d \<in> set ds. set_find LogDefine_less d new = None \<longrightarrow> is_disabled (fold (disable_logger time new) ds S) d)"
  using assms(2)
proof (induction ds rule: rev_induct)
  case Nil
  then show ?case using assms(1) by (simp add: keeps_others_refl)
next
  case (snoc d ds)
  let ?S1 = "fold (disable_logger time new) ds S" and ?N = "ld_name ` {d \<in> set ds. set_find LogDefine_less d new = None}"
  have S1: "log_ok null ?S1" "keeps_others ?N S ?S1" "\<forall>d \<in> set ds. set_find LogDefine_less d new = None \<longrightarrow> is_disabled ?S1 d"
    using snoc by simp_all
  note S2 = disable_logger_disables [OF S1(1), of time new d]
  have new: "ld_name d \<notin> ld_name ` set ds" using snoc.prems by auto
  show ?case
  proof (cases "set_find LogDefine_less d new = None")
    case True
    have others: "is_disabled (disable_logger time new d ?S1) c" if "c \<in> set ds" "set_find LogDefine_less c new = None" for c
      using is_disabled_keep [of ?S1 c "{ld_name d}"] S1(3) S2 that new by (metis image_eqI singletonD)
    have eq: "{c \<in> set (ds @ [d]). set_find LogDefine_less c new = None} =
        {c \<in> set ds. set_find LogDefine_less c new = None} \<union> {d}"
      using True by auto
    have "keeps_others (ld_name ` {c \<in> set (ds @ [d]). set_find LogDefine_less c new = None}) S (disable_logger time new d ?S1)"
      unfolding eq image_Un using keeps_others_trans [OF S1(2), of "{ld_name d}"] S2 by simp
    moreover have "is_disabled (disable_logger time new d ?S1) d" using S2 True by blast
    ultimately show ?thesis using S2 others by simp
  next
    case False
    then have "{c \<in> set (ds @ [d]). set_find LogDefine_less c new = None} = {c \<in> set ds. set_find LogDefine_less c new = None}"
      by auto
    with False S1 S2 show ?thesis by auto
  qed
qed

lemma set_find_name:
  assumes "sorted_wrt LogDefine_less ds"
  shows "set_find LogDefine_less d ds = None \<longleftrightarrow> ld_name d \<notin> ld_name ` set ds"
proof
  assume "set_find LogDefine_less d ds = None"
  then show "ld_name d \<notin> ld_name ` set ds" using LogDefine_find [OF assms] by (metis imageE option.distinct(1))
next
  show "ld_name d \<notin> ld_name ` set ds \<Longrightarrow> set_find LogDefine_less d ds = None"
  proof (induction ds)
    case (Cons e ds)
    then have "LogDefine_less e d \<or> LogDefine_less d e" using string_less_total by (auto simp: LogDefine_less_def)
    with Cons show ?case by (auto simp: set_find_def from_bound_def)
  qed (simp add: set_find_def from_bound_def)
qed

lemma sorted_names_distinct: "sorted_wrt LogDefine_less ds \<Longrightarrow> distinct (map ld_name ds)"
  by (induction ds) (auto simp: LogDefine_less_def string_less_irrefl)

text \<open>
  C38. Changing the definitions of the loggers (two ordered sets of definitions, \<open>old\<close> and \<open>new\<close>) configures exactly the
  loggers they name.  The logger of every new definition gets its level, the formatter of its pattern (or keeps the one
  it has, when the pattern is empty or has an error), and, in order, one new appender for each definition of a file or
  of the standard output, with its level, its file and the formatter of the logger, whatever formatter the
  definition of the appender has.  The logger of every old definition whose name is not among the new ones gets the
  level 100 and no appenders.  Every other logger is as it was.  This is for new definitions that are not
  taken for unchanged (\<open>LogDefine_eq\<close>), for which the listener goes through a null pointer, and whose patterns can
  be read.
\<close>

theorem logger_configured:
  assumes "log_reachable E null S" "sorted_wrt LogDefine_less old" "sorted_wrt LogDefine_less new"
    and "\<forall>d \<in> set new. ld_formatter d = [] \<or> new_LogFormatter (ld_formatter d) \<noteq> None"
    and "\<forall>d \<in> set new. \<forall>d0 \<in> set old. ld_name d0 = ld_name d \<longrightarrow> \<not> LogDefine_eq d0 d"
  shows "\<exists>S'. on_logs_changed E time old new S = Some S' \<and>
    (\<forall>d \<in> set new. has_definition E S' (defined_formatter S d) d) \<and>
    (\<forall>d \<in> set old. ld_name d \<notin> ld_name ` set new \<longrightarrow> is_disabled S' d) \<and>
    keeps_others (ld_name ` (set old \<union> set new)) S S'"
proof -
  have "\<not> LogDefine_eq d0 d" if found: "d \<in> set new" "set_find LogDefine_less d old = Some d0" for d d0
  proof -
    obtain d1 where "d1 \<in> set old" "ld_name d = ld_name d1"
      using set_find_name [OF assms(2), of d] found(2) by auto
    with LogDefine_find [OF assms(2), of d1 d] found assms(5) show ?thesis by simp
  qed
  then obtain S1 where S1: "fold (\<lambda>d S. Option.bind S (configure_logger E time old d)) new (Some S) = Some S1" "log_ok null S1"
    "keeps_others (ld_name ` set new) S S1" "\<forall>d \<in> set new. has_definition E S1 (defined_formatter S d) d"
    using configure_all [OF log_reachable_ok [OF assms(1)] sorted_names_distinct [OF assms(3)] assms(4), of old E time] by blast
  let ?S2 = "fold (disable_logger time new) old S1"
  have gone: "{d \<in> set old. set_find LogDefine_less d new = None} = {d \<in> set old. ld_name d \<notin> ld_name ` set new}"
    using set_find_name [OF assms(3)] by simp
  note S2 = disable_all [OF S1(2) sorted_names_distinct [OF assms(2)], of time new, unfolded gone]
  have "has_definition E ?S2 (defined_formatter S d) d" if "d \<in> set new" for d
  proof (rule has_definition_keep)
    show "has_definition E S1 (defined_formatter S d) d" using S1(4) that by blast
    show "keeps_others (ld_name ` {d \<in> set old. ld_name d \<notin> ld_name ` set new}) S1 ?S2" using S2 by blast
  qed (use that in \<open>metis (mono_tags, lifting) imageE image_eqI mem_Collect_eq\<close>)
  moreover have "is_disabled ?S2 d" if "d \<in> set old" "ld_name d \<notin> ld_name ` set new" for d
    using S2 [THEN conjunct2, THEN conjunct2, rule_format, OF that(1)] that(2) set_find_name [OF assms(3), of d] by simp
  moreover have "keeps_others (ld_name ` (set old \<union> set new)) S ?S2"
  proof -
    have "keeps_others (ld_name ` set new \<union> ld_name ` {d \<in> set old. ld_name d \<notin> ld_name ` set new}) S ?S2"
      using keeps_others_trans [OF S1(3)] S2 by blast
    then show ?thesis unfolding keeps_others_def by (auto simp: image_iff)
  qed
  ultimately show ?thesis using S1(1) by (simp add: on_logs_changed_def)
qed

definition sample_file_define :: LogDefine where
  "sample_file_define = \<lparr>ld_name = ''system'', ld_level = ERROR, ld_formatter = ''%m%n'', ld_appenders =
    [new_LogAppenderDefine\<lparr>ad_type := 1, ad_file := ''system.txt'', ad_formatter := ''%d%m''\<rparr>,
     new_LogAppenderDefine\<lparr>ad_type := 2\<rparr>]\<rparr>"

theorem logger_configured_witness:
  "\<exists>S'. on_logs_changed sample_env 0 [sample_define ''http'' INFO] [sample_define ''root'' INFO, sample_file_define]
      (new_LoggerManager 0) = Some S' \<and>
    has_definition sample_env S' (new_LogFormatter ''%m%n'') sample_file_define \<and> is_disabled S' (sample_define ''http'' INFO)"
proof -
  let ?old = "[sample_define ''http'' INFO]" and ?new = "[sample_define ''root'' INFO, sample_file_define]"
  have less: "string_less ''root'' ''system''" by code_simp
  obtain F where F: "new_LogFormatter ''%m%n'' = Some F" "\<not> f_error F"
  proof -
    have "new_LogFormatter ''%m%n'' = Some \<lparr>f_pattern = ''%m%n'', f_items = [MessageItem, NewLineItem], f_error = False\<rparr>"
      by code_simp
    then show thesis using that by simp
  qed
  have fd: "ld_name sample_file_define = ''system''" "ld_formatter sample_file_define = ''%m%n''"
    by (simp_all add: sample_file_define_def)
  have "\<exists>S'. on_logs_changed sample_env 0 ?old ?new (new_LoggerManager 0) = Some S' \<and>
    (\<forall>d \<in> set ?new. has_definition sample_env S' (defined_formatter (new_LoggerManager 0) d) d) \<and>
    (\<forall>d \<in> set ?old. ld_name d \<notin> ld_name ` set ?new \<longrightarrow> is_disabled S' d) \<and>
    keeps_others (ld_name ` (set ?old \<union> set ?new)) (new_LoggerManager 0) S'"
    by (rule logger_configured [OF log_reachable.Start [where null = False]])
      (use less F(1) in \<open>simp_all add: LogDefine_less_def sample_define_simps fd\<close>)
  moreover have "defined_formatter (new_LoggerManager 0) sample_file_define = Some F" using F by (simp add: defined_formatter_def fd)
  ultimately show ?thesis by (auto simp: sample_define_simps fd F(1))
qed

section \<open>Definitions as text\<close>

lemma fold_same: "fold (\<lambda>x y. y) xs z = z"
  by (induction xs) simp_all

lemma log_defines_lost: "log_defines_to_string Y ds = Some (y_text Y (y_Node Y))"
  by (simp add: log_defines_to_string_def fold_same)

end
