(* ===== verification/Threads.thy ===== *)
theory Threads
  imports Locks
begin

text \<open>
  Semaphores and threads (\<^verbatim>\<open>thread.h\<close>, \<^verbatim>\<open>thread.cpp\<close>): the steps of a thread, one for each statement of
  \<^verbatim>\<open>run\<close>, and of its creator, and the states they reach together however the two interleave.
\<close>

section \<open>Semaphores\<close>

text \<open>The greatest value of a semaphore; the system may answer a wait with an error, as when a signal interrupts it.\<close>

definition SEM_VALUE_MAX :: nat where "SEM_VALUE_MAX = 2147483647"

definition new_Semaphore :: "u32 \<Rightarrow> nat outcome" where
  "new_Semaphore count = (if unat count > SEM_VALUE_MAX then Throws ''sem_init error'' else Went (unat count))"

definition Semaphore_wait :: "bool \<Rightarrow> nat \<Rightarrow> nat outcome" where
  "Semaphore_wait interrupted n =
    (if interrupted then Throws ''sem_wait error'' else if n = 0 then Waits else Went (n - 1))"

definition Semaphore_notify :: "nat \<Rightarrow> nat outcome" where
  "Semaphore_notify n = (if n = SEM_VALUE_MAX then Throws ''sem_post error'' else Went (n + 1))"

section \<open>Threads\<close>

text \<open>
  A thread object and the thread it starts.  The system's thread is not there, can be joined, has been joined or has
  been detached.  The program of the creator is where it is in the constructor or after it, that of the thread is
  the statements of \<^verbatim>\<open>run\<close> it still has to execute; \<open>th_alive\<close> is whether the object is still there, \<open>run_cb\<close> the local
  variable \<^verbatim>\<open>cb\<close> of \<^verbatim>\<open>run\<close>.
\<close>

datatype os_thread = No_thread | Joinable | Joined | Detached
datatype parent_pc = Creating | Waiting_ready | Constructed | Failed | Destroyed
datatype run_stmt = Set_this | Copy_name | Set_id | Set_os_name | Take_cb | Notify | Call_cb
datatype child_pc = Not_started | In_run "run_stmt list" | Running_cb | Finished

record 'cb Thread =
  th_id :: int
  th_thread :: os_thread
  th_cb :: "'cb option"
  th_name :: string
  th_semaphore :: nat
  th_alive :: bool
  th_parent :: parent_pc
  th_child :: child_pc
  t_thread :: bool
  t_thread_name :: string
  os_name :: string
  run_cb :: "'cb option"
  ran_cb :: "'cb option"

definition UNKNOW_NAME :: string where "UNKNOW_NAME = ''UNKNOW''"

definition new_Thread :: "'cb \<Rightarrow> string \<Rightarrow> 'cb Thread" where
  "new_Thread cb name =
    \<lparr>th_id = -1, th_thread = No_thread, th_cb = Some cb, th_name = (if name = [] then UNKNOW_NAME else name),
     th_semaphore = 0, th_alive = True, th_parent = Creating, th_child = Not_started, t_thread = False,
     t_thread_name = UNKNOW_NAME, os_name = [], run_cb = None, ran_cb = None\<rparr>"

text \<open>The statements of \<^verbatim>\<open>run\<close>, in their order.\<close>

definition run_program :: "run_stmt list" where
  "run_program = [Set_this, Copy_name, Set_id, Set_os_name, Take_cb, Notify, Call_cb]"

text \<open>The constructor: starting the thread, with what \<^verbatim>\<open>pthread_create\<close> answers, and waiting for it.\<close>

definition Thread_create :: "int \<Rightarrow> 'cb Thread \<Rightarrow> 'cb Thread outcome" where
  "Thread_create ret T =
    (if th_parent T \<noteq> Creating then Undefined
     else if ret \<noteq> 0 then Throws ''pthread_error''
     else Went (T\<lparr>th_thread := Joinable, th_child := In_run run_program, th_parent := Waiting_ready\<rparr>))"

definition Thread_ready :: "bool \<Rightarrow> 'cb Thread \<Rightarrow> 'cb Thread outcome" where
  "Thread_ready interrupted T =
    (if th_parent T \<noteq> Waiting_ready then Undefined
     else then_do (Semaphore_wait interrupted (th_semaphore T))
       (\<lambda>n. Went (T\<lparr>th_semaphore := n, th_parent := Constructed\<rparr>)))"

text \<open>
  One statement of \<^verbatim>\<open>run\<close>.  All but the first and the call go through the pointer to the object; the first puts the
  pointer into \<^verbatim>\<open>t_thread\<close>, and the call uses the local variable.
\<close>

definition run_stmt_do :: "int \<Rightarrow> run_stmt \<Rightarrow> 'cb Thread \<Rightarrow> 'cb Thread outcome" where
  "run_stmt_do tid s T =
    (if s \<notin> {Set_this, Call_cb} \<and> \<not> th_alive T then Undefined
     else case s of
         Set_this \<Rightarrow> Went (T\<lparr>t_thread := True\<rparr>)
       | Copy_name \<Rightarrow> Went (T\<lparr>t_thread_name := th_name T\<rparr>)
       | Set_id \<Rightarrow> Went (T\<lparr>th_id := tid\<rparr>)
       | Set_os_name \<Rightarrow> Went (T\<lparr>os_name := take 15 (th_name T)\<rparr>)
       | Take_cb \<Rightarrow> Went (T\<lparr>run_cb := th_cb T, th_cb := run_cb T\<rparr>)
       | Notify \<Rightarrow> then_do (Semaphore_notify (th_semaphore T)) (\<lambda>n. Went (T\<lparr>th_semaphore := n\<rparr>))
       | Call_cb \<Rightarrow> Went (T\<lparr>ran_cb := run_cb T\<rparr>))"

definition Thread_run :: "int \<Rightarrow> 'cb Thread \<Rightarrow> 'cb Thread outcome" where
  "Thread_run tid T =
    (case th_child T of
       In_run (s # rest) \<Rightarrow>
         then_do (run_stmt_do tid s T)
           (\<lambda>T1. Went (T1\<lparr>th_child := (if rest = [] then Running_cb else In_run rest)\<rparr>))
     | _ \<Rightarrow> Undefined)"

definition Thread_finish :: "'cb Thread \<Rightarrow> 'cb Thread outcome" where
  "Thread_finish T = (if th_child T \<noteq> Running_cb then Undefined else Went (T\<lparr>th_child := Finished\<rparr>))"

text \<open>\<^verbatim>\<open>SetName\<close> called by the callback: it writes to the object of the thread when the thread has one.\<close>

definition Thread_SetName :: "string \<Rightarrow> 'cb Thread \<Rightarrow> 'cb Thread outcome" where
  "Thread_SetName name T =
    (if t_thread T \<and> \<not> th_alive T then Undefined
     else Went ((if t_thread T then T\<lparr>th_name := name\<rparr> else T)\<lparr>t_thread_name := name\<rparr>))"

text \<open>
  Joining, with what \<^verbatim>\<open>pthread_join\<close> answers at once (as when a thread joins itself), and the destructor.  Neither
  resets \<^verbatim>\<open>m_thread\<close>; joining or detaching a thread that was joined or detached is undefined.
\<close>

definition Thread_join :: "int \<Rightarrow> 'cb Thread \<Rightarrow> 'cb Thread outcome" where
  "Thread_join ret T =
    (if th_thread T = No_thread then Went T
     else if th_thread T \<noteq> Joinable then Undefined
     else if ret \<noteq> 0 then Throws ''pthread_join error''
     else if th_child T \<noteq> Finished then Waits
     else Went (T\<lparr>th_thread := Joined\<rparr>))"

definition destroy_Thread :: "'cb Thread \<Rightarrow> 'cb Thread outcome" where
  "destroy_Thread T =
    (if th_thread T = No_thread then Went (T\<lparr>th_alive := False, th_parent := Destroyed\<rparr>)
     else if th_thread T \<noteq> Joinable then Undefined
     else Went (T\<lparr>th_thread := Detached, th_alive := False, th_parent := Destroyed\<rparr>))"

text \<open>The states of a thread and its creator; the creator only uses the object between constructing and destroying it.\<close>

inductive thread_reachable :: "'cb \<Rightarrow> string \<Rightarrow> int \<Rightarrow> 'cb Thread \<Rightarrow> bool" for cb name tid where
  New: "thread_reachable cb name tid (new_Thread cb name)"
| Create: "thread_reachable cb name tid T \<Longrightarrow> Thread_create ret T = Went T1 \<Longrightarrow> thread_reachable cb name tid T1"
| Ready: "thread_reachable cb name tid T \<Longrightarrow> Thread_ready False T = Went T1 \<Longrightarrow> thread_reachable cb name tid T1"
| Run: "thread_reachable cb name tid T \<Longrightarrow> Thread_run tid T = Went T1 \<Longrightarrow> thread_reachable cb name tid T1"
| SetName: "thread_reachable cb name tid T \<Longrightarrow> th_child T = Running_cb \<Longrightarrow> Thread_SetName n T = Went T1 \<Longrightarrow>
    thread_reachable cb name tid T1"
| Finish: "thread_reachable cb name tid T \<Longrightarrow> Thread_finish T = Went T1 \<Longrightarrow> thread_reachable cb name tid T1"
| Join: "thread_reachable cb name tid T \<Longrightarrow> th_parent T = Constructed \<Longrightarrow> Thread_join ret T = Went T1 \<Longrightarrow>
    thread_reachable cb name tid T1"
| Destroy: "thread_reachable cb name tid T \<Longrightarrow> th_parent T = Constructed \<Longrightarrow> destroy_Thread T = Went T1 \<Longrightarrow>
    thread_reachable cb name tid T1"

text \<open>Which statements of \<^verbatim>\<open>run\<close> the thread has executed.\<close>

definition did :: "run_stmt \<Rightarrow> child_pc \<Rightarrow> bool" where
  "did s c = (case c of Not_started \<Rightarrow> False | In_run rest \<Rightarrow> s \<notin> set rest | _ \<Rightarrow> True)"

definition run_rests :: "run_stmt list list" where
  "run_rests = map (\<lambda>k. drop k run_program) [0..<7]"

lemma run_rests_eq:
  "run_rests = [[Set_this, Copy_name, Set_id, Set_os_name, Take_cb, Notify, Call_cb],
    [Copy_name, Set_id, Set_os_name, Take_cb, Notify, Call_cb], [Set_id, Set_os_name, Take_cb, Notify, Call_cb],
    [Set_os_name, Take_cb, Notify, Call_cb], [Take_cb, Notify, Call_cb], [Notify, Call_cb], [Call_cb]]"
  by code_simp

definition creator_ok :: "parent_pc \<Rightarrow> os_thread \<Rightarrow> child_pc \<Rightarrow> nat \<Rightarrow> bool" where
  "creator_ok p t c n \<longleftrightarrow>
    (case p of
       Creating \<Rightarrow> t = No_thread \<and> c = Not_started \<and> n = 0
     | Waiting_ready \<Rightarrow> t = Joinable \<and> c \<noteq> Not_started \<and> n = (if did Notify c then 1 else 0)
     | Constructed \<Rightarrow> t \<in> {Joinable, Joined} \<and> (t = Joined \<longrightarrow> c = Finished) \<and> did Notify c
     | Failed \<Rightarrow> False
     | Destroyed \<Rightarrow> t = Detached \<and> did Notify c)"

definition thread_ok :: "'cb \<Rightarrow> string \<Rightarrow> int \<Rightarrow> 'cb Thread \<Rightarrow> bool" where
  "thread_ok cb name tid T \<longleftrightarrow>
    creator_ok (th_parent T) (th_thread T) (th_child T) (th_semaphore T) \<and> th_alive T = (th_parent T \<noteq> Destroyed) \<and>
    (\<forall>rest. th_child T = In_run rest \<longrightarrow> rest \<in> set run_rests) \<and>
    t_thread T = did Set_this (th_child T) \<and> (did Set_id (th_child T) \<longrightarrow> th_id T = tid) \<and>
    (did Set_os_name (th_child T) \<longrightarrow> os_name T = take 15 (if name = [] then UNKNOW_NAME else name)) \<and>
    (if did Take_cb (th_child T) then th_cb T = None \<and> run_cb T = Some cb else th_cb T = Some cb \<and> run_cb T = None) \<and>
    (did Call_cb (th_child T) \<longrightarrow> ran_cb T = Some cb) \<and>
    (\<not> did Call_cb (th_child T) \<longrightarrow> th_name T = (if name = [] then UNKNOW_NAME else name))"

lemma did_simps [simp]:
  "did s Not_started = False" "did s (In_run rest) = (s \<notin> set rest)" "did s Running_cb" "did s Finished"
  by (simp_all add: did_def)

lemma creator_ok_run:
  assumes "c \<noteq> Not_started" "c \<noteq> Finished"
  shows "creator_ok p t c n \<longleftrightarrow>
    (if did Notify c then p = Waiting_ready \<and> t = Joinable \<and> n = 1 \<or> p = Constructed \<and> t = Joinable \<or> p = Destroyed \<and> t = Detached
     else p = Waiting_ready \<and> t = Joinable \<and> n = 0)"
  using assms by (cases p) (auto simp: creator_ok_def)

text \<open>A statement of \<^verbatim>\<open>run\<close> keeps the invariant and shortens what is left.\<close>

lemma Thread_run_ok:
  assumes "thread_ok cb name tid T" "th_child T = In_run rest"
  shows "\<exists>s rest' T1. rest = s # rest' \<and> Thread_run tid T = Went T1 \<and> thread_ok cb name tid T1 \<and>
    th_child T1 = (if rest' = [] then Running_cb else In_run rest')"
proof -
  have "rest \<in> set run_rests" using assms by (simp add: thread_ok_def)
  then show ?thesis
    using assms
    unfolding run_rests_eq list.set insert_iff empty_iff
    by (elim disjE FalseE) (simp_all add: thread_ok_def creator_ok_run run_rests_eq Thread_run_def run_stmt_do_def
        Semaphore_notify_def SEM_VALUE_MAX_def)
qed

lemma thread_reachable_ok: "thread_reachable cb name tid T \<Longrightarrow> thread_ok cb name tid T"
proof (induction rule: thread_reachable.induct)
  case New
  show ?case by (simp add: thread_ok_def creator_ok_def new_Thread_def)
next
  case (Create T ret T1)
  have "th_parent T = Creating" "T1 = T\<lparr>th_thread := Joinable, th_child := In_run run_program, th_parent := Waiting_ready\<rparr>"
    using Create.hyps(2) by (simp_all add: Thread_create_def split: if_split_asm)
  with Create.IH show ?case by (simp add: thread_ok_def creator_ok_def run_program_def run_rests_eq)
next
  case (Ready T T1)
  have T: "th_parent T = Waiting_ready" "th_semaphore T \<noteq> 0"
    "T1 = T\<lparr>th_semaphore := th_semaphore T - 1, th_parent := Constructed\<rparr>"
    using Ready.hyps(2) by (simp_all add: Thread_ready_def Semaphore_wait_def split: if_split_asm)
  with Ready.IH show ?case by (auto simp: thread_ok_def creator_ok_def split: if_split_asm)
next
  case (Run T T1)
  then obtain s rest where "th_child T = In_run (s # rest)"
    by (auto simp: Thread_run_def split: child_pc.split_asm list.split_asm)
  from Thread_run_ok [OF Run.IH this] Run.hyps(2) show ?case by auto
next
  case (SetName T n T1)
  have T: "T1 = (if t_thread T then T\<lparr>th_name := n\<rparr> else T)\<lparr>t_thread_name := n\<rparr>"
    using SetName.hyps(3) by (simp add: Thread_SetName_def split: if_split_asm)
  with SetName.IH SetName.hyps(2) show ?case by (simp add: thread_ok_def)
next
  case (Finish T T1)
  have T: "th_child T = Running_cb" "T1 = T\<lparr>th_child := Finished\<rparr>"
    using Finish.hyps(2) by (simp_all add: Thread_finish_def split: if_split_asm)
  with Finish.IH show ?case by (cases "th_parent T") (auto simp: thread_ok_def creator_ok_def)
next
  case (Join T ret T1)
  have "T1 = T \<or> th_child T = Finished \<and> T1 = T\<lparr>th_thread := Joined\<rparr>"
    using Join.hyps(3) by (simp add: Thread_join_def split: if_split_asm)
  with Join.IH Join.hyps(2) show ?case by (elim disjE conjE) (simp_all add: thread_ok_def creator_ok_def)
next
  case (Destroy T T1)
  have "th_thread T \<noteq> No_thread" using Destroy.IH Destroy.hyps(2) by (auto simp: thread_ok_def creator_ok_def)
  then have "T1 = T\<lparr>th_thread := Detached, th_alive := False, th_parent := Destroyed\<rparr>"
    using Destroy.hyps(3) by (simp add: destroy_Thread_def split: if_split_asm)
  with Destroy.IH Destroy.hyps(2) show ?case by (auto simp: thread_ok_def creator_ok_def)
qed

lemma run_rests_length: "rest \<in> set run_rests \<Longrightarrow> length rest \<le> 7"
  by (auto simp: run_rests_eq)

lemma constructed_run:
  assumes "thread_ok cb name tid T" "th_child T = In_run rest" "th_parent T = Constructed"
  shows "rest = [Call_cb]"
proof -
  have "rest \<in> set run_rests" "Notify \<notin> set rest" using assms by (simp_all add: thread_ok_def creator_ok_def)
  then show ?thesis by (auto simp: run_rests_eq)
qed

text \<open>
  C27. The constructor of \<^verbatim>\<open>Thread\<close> hands over: while it waits, either it can return or the thread can execute its next
  statement, of which there are seven at most, so neither waits for ever; when it has returned, wherever the thread is
  in \<^verbatim>\<open>run\<close> or after it, the thread has published its identity and its name, the first 15 characters of it to the
  system, has taken the callback out of the object, and what it calls, then or later, is this callback.
\<close>

theorem constructor_hands_over:
  assumes "thread_reachable cb name tid T"
  shows "(th_parent T = Waiting_ready \<longrightarrow> (\<exists>T1. Thread_ready False T = Went T1) \<or>
      (\<exists>s rest T1. th_child T = In_run (s # rest) \<and> length rest < 7 \<and> Thread_run tid T = Went T1 \<and>
        th_child T1 = (if rest = [] then Running_cb else In_run rest))) \<and>
    (th_parent T = Constructed \<longrightarrow> th_id T = tid \<and> th_cb T = None \<and> run_cb T = Some cb \<and>
      os_name T = take 15 (if name = [] then UNKNOW_NAME else name) \<and>
      (th_child T \<in> {Running_cb, Finished} \<and> ran_cb T = Some cb \<or>
       (\<exists>T1. Thread_run tid T = Went T1 \<and> th_child T1 = Running_cb \<and> ran_cb T1 = Some cb)))"
proof -
  have ok: "thread_ok cb name tid T" by (rule thread_reachable_ok [OF assms])
  show ?thesis
  proof (cases "th_child T")
    case (In_run rest)
    obtain s rest' T1 where run: "rest = s # rest'" "Thread_run tid T = Went T1" "thread_ok cb name tid T1"
        "th_child T1 = (if rest' = [] then Running_cb else In_run rest')"
      using Thread_run_ok [OF ok In_run] by blast
    have len: "length rest' < 7" using ok In_run run(1) run_rests_length [of rest] by (simp add: thread_ok_def)
    show ?thesis
    proof (cases "th_parent T = Constructed")
      case True
      then have r: "rest = [Call_cb]" by (rule constructed_run [OF ok In_run])
      then have "th_id T = tid" "th_cb T = None" "run_cb T = Some cb" "os_name T = take 15 (if name = [] then UNKNOW_NAME else name)"
        using ok In_run by (simp_all add: thread_ok_def)
      moreover have "th_child T1 = Running_cb" "ran_cb T1 = Some cb" using r run by (simp_all add: thread_ok_def)
      ultimately show ?thesis using True run(2) by simp
    next
      case False
      then show ?thesis using In_run run(1,2,4) len by auto
    qed
  qed (use ok in \<open>auto simp: thread_ok_def creator_ok_def Thread_ready_def Semaphore_wait_def split: if_split_asm parent_pc.split_asm\<close>)
qed

lemma constructed_has_this: "thread_ok cb name tid T \<Longrightarrow> th_parent T = Constructed \<Longrightarrow> t_thread T"
  by (cases "th_child T") (auto simp: thread_ok_def creator_ok_def run_rests_eq)

text \<open>
  A thread that was constructed can be destroyed without being joined, which detaches it and leaves a callback that
  is still running with a pointer to the destroyed object, so that setting its name is undefined; once it has been
  joined, joining it again and destroying it are undefined.
\<close>

theorem join_and_destroy_exclude:
  assumes "thread_reachable cb name tid T" "th_parent T = Constructed"
  shows "(th_thread T = Joined \<longrightarrow> destroy_Thread T = Undefined \<and> Thread_join ret T = Undefined) \<and>
    (th_thread T \<noteq> Joined \<longrightarrow>
      (\<exists>T1. destroy_Thread T = Went T1 \<and> th_child T1 = th_child T \<and> Thread_SetName n T1 = Undefined) \<and>
      (th_child T = Finished \<longrightarrow> (\<exists>T1. Thread_join 0 T = Went T1 \<and> th_thread T1 = Joined)))"
  using thread_reachable_ok [OF assms(1)] assms(2) constructed_has_this [OF thread_reachable_ok [OF assms(1)]]
  by (auto simp: thread_ok_def creator_ok_def destroy_Thread_def Thread_join_def Thread_SetName_def)

text \<open>A thread whose constructor has returned and which is in its callback.\<close>

primrec run_for :: "nat \<Rightarrow> int \<Rightarrow> 'cb Thread \<Rightarrow> 'cb Thread outcome" where
  "run_for 0 tid T = Went T"
| "run_for (Suc n) tid T = then_do (Thread_run tid T) (run_for n tid)"

lemma run_for_reachable:
  "thread_reachable cb name tid T \<Longrightarrow> run_for n tid T = Went T1 \<Longrightarrow> thread_reachable cb name tid T1"
proof (induction n arbitrary: T)
  case (Suc n)
  then obtain T2 where "Thread_run tid T = Went T2" "run_for n tid T2 = Went T1"
    by (cases "Thread_run tid T") simp_all
  with Suc show ?case by (blast intro: thread_reachable.Run)
qed simp

definition sample_thread :: "nat Thread" where
  "sample_thread = (case Thread_create 0 (new_Thread 7 ''a thread with a long name'') of Went T1 \<Rightarrow>
    (case run_for 7 42 T1 of Went T2 \<Rightarrow> (case Thread_ready False T2 of Went T3 \<Rightarrow> T3)))"

lemma sample_thread_steps:
  "th_parent sample_thread = Constructed" "th_thread sample_thread = Joinable" "th_child sample_thread = Running_cb"
  "thread_reachable 7 ''a thread with a long name'' 42 sample_thread"
proof -
  let ?T0 = "new_Thread (7 :: nat) ''a thread with a long name''"
  have seven: "7 = Suc (Suc (Suc (Suc (Suc (Suc (Suc 0))))))" by simp
  obtain T1 where T1: "Thread_create 0 ?T0 = Went T1" by (simp add: Thread_create_def new_Thread_def)
  have "case Thread_create 0 ?T0 of Went T1 \<Rightarrow> (case run_for 7 42 T1 of Went T2 \<Rightarrow> (case Thread_ready False T2 of Went T3 \<Rightarrow>
      th_parent T3 = Constructed \<and> th_thread T3 = Joinable \<and> th_child T3 = Running_cb | _ \<Rightarrow> False) | _ \<Rightarrow> False) | _ \<Rightarrow> False"
    by (simp add: seven Thread_create_def new_Thread_def Thread_run_def run_stmt_do_def run_program_def Thread_ready_def
        Semaphore_notify_def Semaphore_wait_def SEM_VALUE_MAX_def)
  then obtain T2 T3 where T2: "run_for 7 42 T1 = Went T2" and T3: "Thread_ready False T2 = Went T3"
    "th_parent T3 = Constructed" "th_thread T3 = Joinable" "th_child T3 = Running_cb"
    using T1 by (auto split: outcome.split_asm)
  have "sample_thread = T3" by (simp add: sample_thread_def T1 T2 T3(1))
  moreover have "thread_reachable 7 ''a thread with a long name'' 42 T3"
    by (rule thread_reachable.Ready [OF run_for_reachable [OF thread_reachable.Create [OF thread_reachable.New T1] T2] T3(1)])
  ultimately show "th_parent sample_thread = Constructed" "th_thread sample_thread = Joinable"
    "th_child sample_thread = Running_cb" "thread_reachable 7 ''a thread with a long name'' 42 sample_thread"
    using T3 by simp_all
qed

theorem constructor_hands_over_witness:
  "th_id sample_thread = 42 \<and> th_cb sample_thread = None \<and> ran_cb sample_thread = Some 7 \<and>
    os_name sample_thread = ''a thread with a''"
  using constructor_hands_over [OF sample_thread_steps(4)] sample_thread_steps(1,3) by (simp add: Thread_run_def)

theorem join_and_destroy_exclude_witness:
  "\<exists>T1 T2 T3. Thread_finish sample_thread = Went T1 \<and> Thread_join 0 T1 = Went T2 \<and> destroy_Thread T2 = Undefined \<and>
    destroy_Thread sample_thread = Went T3 \<and> Thread_SetName ''worker'' T3 = Undefined"
proof -
  note S = sample_thread_steps
  obtain T1 where T1: "Thread_finish sample_thread = Went T1" using S(3) by (simp add: Thread_finish_def)
  then have T1': "th_parent T1 = Constructed" "th_thread T1 = Joinable" "th_child T1 = Finished"
    using S by (auto simp: Thread_finish_def)
  have r1: "thread_reachable 7 ''a thread with a long name'' 42 T1" by (rule thread_reachable.Finish [OF S(4) T1])
  obtain T2 where T2: "Thread_join 0 T1 = Went T2" "th_thread T2 = Joined" "th_parent T2 = Constructed"
    using T1' by (simp add: Thread_join_def)
  have r2: "thread_reachable 7 ''a thread with a long name'' 42 T2" by (rule thread_reachable.Join [OF r1 T1'(1) T2(1)])
  have "destroy_Thread T2 = Undefined" using join_and_destroy_exclude [OF r2 T2(3)] T2(2) by blast
  moreover obtain T3 where "destroy_Thread sample_thread = Went T3" "Thread_SetName ''worker'' T3 = Undefined"
    using join_and_destroy_exclude [OF S(4,1)] S(2) by (metis os_thread.distinct(7))
  ultimately show ?thesis using T1 T2(1) by blast
qed

end
