(* ===== verification/Util.thy ===== *)
theory Util
  imports Prelude "HOL-Library.Signed_Division"
begin

text \<open>
  Clocks and backtraces (\<^verbatim>\<open>util.cpp\<close>).  What \<^verbatim>\<open>gettimeofday\<close> and \<^verbatim>\<open>clock_gettime\<close> fill in, seconds and a fraction, and the
  texts of the frames of the stack are arguments.
\<close>

definition GetCurrentMS :: "int \<times> int \<Rightarrow> u64" where
  "GetCurrentMS tv = (case tv of (sec, usec) \<Rightarrow> of_int sec * 1000 + of_int (usec sdiv 1000))"

definition GetCurrentUS :: "int \<times> int \<Rightarrow> u64" where
  "GetCurrentUS tv = (case tv of (sec, usec) \<Rightarrow> of_int (sec * 1000) * 1000 + of_int usec)"

definition GetElapsedMS :: "int \<times> int \<Rightarrow> u64" where
  "GetElapsedMS ts = (case ts of (sec, nsec) \<Rightarrow> of_int (sec * 1000 + nsec sdiv 1000000))"

text \<open>
  The texts of at most \<open>depth\<close> frames without the first \<^verbatim>\<open>skip\<close>; \<open>None\<close> when they cannot be made.  A negative \<^verbatim>\<open>skip\<close> is a
  large unsigned number.
\<close>

definition Backtrace :: "(int \<Rightarrow> string list option) \<Rightarrow> string list \<Rightarrow> int \<Rightarrow> int \<Rightarrow> string list" where
  "Backtrace symbols bt depth skip =
    (case symbols depth of
       None \<Rightarrow> bt
     | Some strings \<Rightarrow> bt @ (if skip < 0 then [] else drop (nat skip) strings))"

definition BacktraceToString :: "(int \<Rightarrow> string list option) \<Rightarrow> int \<Rightarrow> int \<Rightarrow> string \<Rightarrow> string" where
  "BacktraceToString symbols depth skip prefix =
    concat (map (\<lambda>s. prefix @ s @ [LF]) (Backtrace symbols [] depth skip))"

text \<open>
  The two clocks agree: as long as microseconds since the epoch fit into 64 bits, the microseconds are exact and the
  milliseconds are their thousandth part.
\<close>

theorem clocks_agree:
  assumes "0 \<le> sec" "0 \<le> usec" "usec < 1000000" "sec * 1000000 + usec < 2 ^ 64"
  shows "uint (GetCurrentUS (sec, usec)) = sec * 1000000 + usec \<and>
    uint (GetCurrentMS (sec, usec)) = uint (GetCurrentUS (sec, usec)) div 1000"
proof -
  have us: "GetCurrentUS (sec, usec) = of_int (sec * 1000000 + usec)" by (simp add: GetCurrentUS_def)
  have "usec sdiv 1000 = usec div 1000" using assms(2) by (simp add: signed_divide_int_def sgn_if)
  then have ms: "GetCurrentMS (sec, usec) = of_int (sec * 1000 + usec div 1000)" by (simp add: GetCurrentMS_def)
  have in_range: "uint (of_int k :: u64) = k" if "0 \<le> k" "k < 2 ^ 64" for k
    using that by (simp add: unsigned_of_int take_bit_int_eq_self)
  have "(sec * 1000 * 1000 + usec) div 1000 = sec * 1000 + usec div 1000" by simp
  then have thousandth: "(sec * 1000000 + usec) div 1000 = sec * 1000 + usec div 1000" by simp
  have "0 \<le> sec * 1000000 + usec" using assms(1,2) by simp
  moreover have "0 \<le> sec * 1000 + usec div 1000" using assms(1,2) by simp
  moreover have "sec * 1000 + usec div 1000 < 2 ^ 64"
    using thousandth assms(4) \<open>0 \<le> sec * 1000000 + usec\<close> by linarith
  ultimately show ?thesis unfolding us ms using assms(4) thousandth by (simp only: in_range)
qed

theorem clocks_agree_witness: "uint (GetCurrentMS (1700000000, 999999)) = 1700000000999"
  using clocks_agree [of 1700000000 999999] by simp

lemma backtrace_lines:
  "symbols depth = Some strings \<Longrightarrow> 0 \<le> skip \<Longrightarrow> BacktraceToString symbols depth skip prefix =
    concat (map (\<lambda>s. prefix @ s @ [LF]) (drop (nat skip) strings))"
  by (simp add: BacktraceToString_def Backtrace_def)

end
