(* ===== verification/Spec2Isabelle.thy ===== *)
theory Spec2Isabelle
  imports HttpExecuteProps HttpExchange HttpResponseRun ByteArrayFile Hook TcpServer Log Threads Util
begin

text \<open>
  A verification library of \<^verbatim>\<open>sylar\<close>, a server framework in C++: fibers scheduled over threads, an event loop, hooked
  system calls, sockets, HTTP on both sides, and the configuration and logging these use.  The sources are under
  \<^verbatim>\<open>src/sylar\<close>; the byte-level HTTP parser is C.  Each theory models the files it names, with the names of the sources,
  and proves what makes that part correct.

  \<^bold>\<open>How the parts interact.\<close>  A \<^verbatim>\<open>Scheduler\<close> has worker threads that take tasks, fibers or callbacks, from one queue and run
  them; an \<^verbatim>\<open>IOManager\<close> is a scheduler with timers whose idle fiber waits for descriptors and timers and schedules who
  waits for them.  The hooks turn a blocking call of a fiber into an entry of the \<^verbatim>\<open>IOManager\<close> and a yield, using what
  \<^verbatim>\<open>FdManager\<close> knows of the descriptor.  \<^verbatim>\<open>Socket\<close> and the streams use these calls; \<^verbatim>\<open>TcpServer\<close> accepts clients in
  tasks of its schedulers; \<^verbatim>\<open>HttpServer\<close> reads requests with the parsers, gives them to the servlet dispatcher and
  writes the responses; \<^verbatim>\<open>HttpConnection\<close> is the client side, with URIs, addresses and a pool.

  \<^bold>\<open>Foundations.\<close>
  \<^item> \<open>Prelude\<close>: machine types, characters, bit flags, generic lemmas.  \<open>StdSet\<close>, \<open>StdMap\<close>: ordered containers as
    lists that only use the comparison; the locales \<open>std_set\<close> and \<open>std_map\<close> are what the standard requires of it, with
    interpretations for the order of timers, strings and numbers.
  \<^item> \<open>Locks\<close>, \<open>Threads\<close> (\<^verbatim>\<open>thread.h\<close>, \<^verbatim>\<open>thread.cpp\<close>): locks, scoped locks and any interleaving of threads that use them; the
    locale \<open>lockable\<close> is what a scoped lock needs of a lock, interpreted for mutexes, \<^verbatim>\<open>CASLock\<close> and read-write locks; a
    thread and its creator as steps on a shared state, one for each statement of \<^verbatim>\<open>Thread::run\<close>.  \<open>Util\<close> (\<^verbatim>\<open>util.cpp\<close>): clocks and backtraces.
  \<^item> \<open>ByteArray\<close>, \<open>ByteArrayProps\<close>, \<open>ByteArrayFile\<close> (\<^verbatim>\<open>bytearray.cpp\<close>, \<^verbatim>\<open>endian.h\<close>): the chain of nodes, which refines a
    flat sequence of bytes; codecs; files.

  \<^bold>\<open>Concurrency.\<close>
  \<^item> \<open>Fiber\<close> (\<^verbatim>\<open>fiber.cpp\<close>): the fibers of a thread and every switch between them.  \<open>Scheduler\<close> (\<^verbatim>\<open>scheduler.cpp\<close>): the queue and
    one round of a worker, with the callbacks an argument; it is the only worker, while other threads may schedule.
    \<open>Timer\<close> (\<^verbatim>\<open>timer.cpp\<close>): the ordered set of timers; the check of \<^verbatim>\<open>listExpiredCb\<close> under the read lock and its
    collection under the write lock are steps of their own, and the threads interleave (\<open>tm_run\<close>).  \<open>IOManager\<close>
    (\<^verbatim>\<open>iomanager.cpp\<close>): the contexts of the descriptors and what happens to them, \<^verbatim>\<open>addEvent\<close> in one part for each
    lock it takes (\<open>io_step\<close>; \<open>grow_race\<close> is what goes wrong between them).  \<open>FdManager\<close>, \<open>Hook\<close>
    (\<^verbatim>\<open>fd_manager.cpp\<close>, \<^verbatim>\<open>hook.cpp\<close>).  State invariants are proved by rule induction over the operations; safety of a round
    of the scheduler, that no task starves, that every waiter is woken.

  \<^bold>\<open>Network.\<close>
  \<^item> \<open>Address\<close>, \<open>Uri\<close>, \<open>Socket\<close>, \<open>Streams\<close>, \<open>TcpServer\<close> (the files of these names).  The system calls are the fields of a
    record of functions on a state of the kernel, so every theorem holds for every kernel that meets its hypotheses.

  \<^bold>\<open>HTTP.\<close>
  \<^item> \<open>HttpParserTypes\<close>, \<open>HttpUrl\<close>, \<open>HttpExecute\<close> (\<^verbatim>\<open>http/http-parser/http_parser.c\<close>): the parser object, the URL parser and the
    switch of the message parser, one function per label; the local variables of the C function are a record.
    \<open>HttpInvariant\<close>, \<open>HttpExecuteSafe\<close> prove that a call returns, stays in its buffer and fails no assertion;
    \<open>HttpExecuteProps\<close> what it computes.
  \<^item> \<open>Http\<close>, \<open>HttpMessageParser\<close>, \<open>HttpSession\<close>, \<open>Servlet\<close>, \<open>HttpConnection\<close> (the other files under \<^verbatim>\<open>http\<close>): messages,
    the callbacks of the parsers, serving a client, dispatching, requests and the pool.
  \<^item> \<open>HttpRun\<close>, \<open>HttpNames\<close>, \<open>HttpRunHeaders\<close>: whole runs of the message parser on printed text, one lemma for each
    piece of the text: request line, header names and values, the lines the parser treats specially.  Their
    predicates (\<open>parses\<close>, \<open>plain_entry\<close> and so on) are devices of the proofs and say which texts are meant; they
    stand for no code.  What the runs need of the callbacks is the locale \<open>header_client\<close>, interpreted for the
    request parser and for the response parser.  \<open>HttpRoundtrip\<close>: a printed request is parsed back.
    \<open>HttpResponseRun\<close>: a printed response is read up to its head and, unless it ends there, is waited for.
    \<open>HttpExchange\<close>: parser, session, dispatcher, server and streams together serve a printed request, and every
    client, whatever it sends, is answered request by request and then closed.

  \<^bold>\<open>Configuration and logging.\<close>
  \<^item> \<open>Config\<close> (\<^verbatim>\<open>config.h\<close>, \<^verbatim>\<open>config.cpp\<close>): conversions, variables, registry, loading a document.  \<open>LogFormat\<close>, \<open>Log\<close>
    (\<^verbatim>\<open>log.h\<close>, \<^verbatim>\<open>log.cpp\<close>): the pattern parser and the formatters; appenders and loggers in a store, since they are
    shared, and the listener that configures them.  Null formatters are values of the model, so an appender may lack one.

  \<^bold>\<open>Fuel.\<close>  Loops that end by the structure of their data are functions with a measure.  Where a loop depends on the
  environment there is fuel, and enough of it is part of a theorem: jumps inside the message parser (\<open>reexecute_fuel\<close>, 4,
  since every jump goes down a rank), the byte loop (the length of the buffer), retried system calls, receiving a
  request and serving a client (more than the bytes the client still sends, \<open>client_served\<close>; one round for a
  request that arrives at once, \<open>request_answered\<close>), sending a buffer (its length), reading a file (one turn for
  each node's worth of bytes and one more, \<open>file_roundtrip\<close>), the members of a
  document (its depth, \<open>load_exact\<close>), the chain of root loggers (\<open>log_fuel\<close>, 2, since a root logger has no root,
  \<open>logging_returns\<close>).

  \<^bold>\<open>Errors.\<close>  Exceptions, failed assertions, undefined accesses and shifts are values of error types or \<open>None\<close>, never left
  out, so a theorem that an operation returns a result also says that none of them happens.

  \<^bold>\<open>Not modelled.\<close>  Several workers of one scheduler at work on one fiber; threads inside \<^verbatim>\<open>getConnection\<close> at the same
  time (what a call does to its mutex is \<open>getConnection_guard\<close>).  Reference counts of shared pointers and the release of memory; memory orders below sequential
  consistency; signals; the typed getters that convert with \<^verbatim>\<open>boost::lexical_cast\<close>; templates that do not compile when
  they are used (\<^verbatim>\<open>delListener\<close>, \<^verbatim>\<open>ServletCreator\<close>, the scoped locks of \<^verbatim>\<open>NullRWMutex\<close>); log lines the components write about
  themselves; looking functions up with \<^verbatim>\<open>dlsym\<close>; tests and examples.  The operating system, yaml-cpp, \<^verbatim>\<open>fnmatch\<close>, name
  resolution, \<^verbatim>\<open>strftime\<close> and \<^verbatim>\<open>vasprintf\<close> are arguments.
\<close>

end
